(* ===== verification/GoPrelude.thy ===== *)
theory GoPrelude
  imports Main "HOL-Library.Finite_Map" "HOL-Library.Monad_Syntax" "HOL-Library.Signed_Division"
begin

text \<open>
  What the model of the Go sources shares: unsigned and signed 64-bit arithmetic written out on
  \<open>nat\<close> and \<open>int\<close>, Go maps as finite maps with their sorted key lists, loops whose body may panic
  (\<open>foldM\<close> in the option monad: \<open>None\<close> is a call that does not return, because it panics), slices,
  and the generic lemmas on them.
\<close>

named_theorems frame_simps \<open>which fields of the state an operation leaves alone\<close>

subsection \<open>Integers\<close>

definition MaxUint64 :: nat where
  "MaxUint64 = 2 ^ 64 - 1"

definition add64 :: "nat \<Rightarrow> nat \<Rightarrow> nat" where
  "add64 a b = (a + b) mod 2 ^ 64"

definition sub64 :: "nat \<Rightarrow> nat \<Rightarrow> nat" where
  "sub64 a b = (if b \<le> a then a - b else a + 2 ^ 64 - b)"

definition i64 :: "int \<Rightarrow> int" where
  "i64 x = (x + 2 ^ 63) mod 2 ^ 64 - 2 ^ 63"

lemma add64_small [simp]: "a + b < 2 ^ 64 \<Longrightarrow> add64 a b = a + b"
  by (simp add: add64_def)

lemma add64_bound: "add64 a b < 2 ^ 64"
  by (simp add: add64_def)

lemma sub64_le [simp]: "b \<le> a \<Longrightarrow> sub64 a b = a - b"
  by (simp add: sub64_def)

lemma i64_small [simp]: "- (2 ^ 63) \<le> x \<Longrightarrow> x < 2 ^ 63 \<Longrightarrow> i64 x = x"
  by (simp add: i64_def)

lemma i64_range: "- (2 ^ 63) \<le> i64 x \<and> i64 x < 2 ^ 63"
  by (simp add: i64_def)

subsection \<open>Go maps\<close>

text \<open>The keys of a map in ascending order, as the code gets them by collecting and sorting.\<close>

definition sortedKeys :: "('k::linorder, 'v) fmap \<Rightarrow> 'k list" where
  "sortedKeys m = sorted_list_of_fset (fmdom m)"

lemma sorted_list_of_fset_props [simp]:
  "distinct (sorted_list_of_fset s)" "sorted (sorted_list_of_fset s)"
  by (simp_all add: sorted_list_of_fset.rep_eq)

lemma set_sortedKeys [simp]: "set (sortedKeys m) = fset (fmdom m)"
  by (simp add: sortedKeys_def)

lemma distinct_sortedKeys [simp]: "distinct (sortedKeys m)"
  by (simp add: sortedKeys_def)

lemma sorted_sortedKeys [simp]: "sorted (sortedKeys m)"
  by (simp add: sortedKeys_def)

lemma sortedKeys_cong: "fmdom m = fmdom m' \<Longrightarrow> sortedKeys m = sortedKeys m'"
  by (simp add: sortedKeys_def)

lemma sorted_list_of_fset_fset: "sorted_list_of_fset s = sorted_list_of_set (fset s)"
  by (simp add: sorted_list_of_fset.rep_eq)

lemma length_sorted_list_of_fset [simp]: "length (sorted_list_of_fset s) = fcard s"
  by (simp add: sorted_list_of_fset.rep_eq fcard.rep_eq)

lemma length_filter_sorted_list_of_fset:
  "length (filter P (sorted_list_of_fset s)) = card {x \<in> fset s. P x}"
proof -
  have "length (filter P (sorted_list_of_fset s)) = card (set (filter P (sorted_list_of_fset s)))"
    by (rule distinct_card [symmetric]) simp
  then show ?thesis by simp
qed

text \<open>A map filled from a list of keys.\<close>

fun fmset :: "'v \<Rightarrow> 'k list \<Rightarrow> ('k, 'v) fmap" where
  "fmset v [] = fmempty"
| "fmset v (k # ks) = fmupd k v (fmset v ks)"

lemma fmlookup_fmset [simp]: "fmlookup (fmset v ks) k = (if k \<in> set ks then Some v else None)"
  by (induction ks) auto

subsection \<open>Loops whose body may panic\<close>

fun foldM :: "('s \<Rightarrow> 'a \<Rightarrow> 's option) \<Rightarrow> 's \<Rightarrow> 'a list \<Rightarrow> 's option" where
  "foldM f s [] = Some s"
| "foldM f s (x # xs) = do { s' \<leftarrow> f s x; foldM f s' xs }"

lemma foldM_append: "foldM f s (xs @ ys) = do { s' \<leftarrow> foldM f s xs; foldM f s' ys }"
  by (induction xs arbitrary: s) (auto split: Option.bind_splits)

lemma foldM_invariant:
  assumes "foldM f s xs = Some s'" and "P s"
    and "\<And>s x s'. x \<in> set xs \<Longrightarrow> P s \<Longrightarrow> f s x = Some s' \<Longrightarrow> P s'"
  shows "P s'"
  using assms
proof (induction xs arbitrary: s)
  case Nil
  then show ?case by simp
next
  case (Cons x xs)
  from Cons.prems(1) obtain t where t: "f s x = Some t" "foldM f t xs = Some s'"
    by (auto split: Option.bind_splits)
  have "P t" using Cons.prems(2,3) t(1) by auto
  then show ?case using Cons.IH [OF t(2)] Cons.prems(3) by auto
qed

lemma foldM_total:
  assumes "P s" and "\<And>s x. x \<in> set xs \<Longrightarrow> P s \<Longrightarrow> \<exists>s'. f s x = Some s' \<and> P s'"
  shows "\<exists>s'. foldM f s xs = Some s' \<and> P s'"
  using assms
proof (induction xs arbitrary: s)
  case Nil
  then show ?case by simp
next
  case (Cons x xs)
  then obtain t where "f s x = Some t" "P t" by force
  moreover have "\<exists>s'. foldM f t xs = Some s' \<and> P s'"
    using Cons.IH [OF \<open>P t\<close>] Cons.prems(2) by auto
  ultimately show ?case by simp
qed

text \<open>A relation between the states before and after that every iteration keeps.\<close>

lemma foldM_rel:
  assumes "foldM f s xs = Some s'" and "\<And>s. R s s"
    and "\<And>a b c. R a b \<Longrightarrow> R b c \<Longrightarrow> R a c"
    and "\<And>s x s'. x \<in> set xs \<Longrightarrow> f s x = Some s' \<Longrightarrow> R s s'"
  shows "R s s'"
  using foldM_invariant [where P = "R s", OF assms(1)] assms(2-4) by metis

subsection \<open>Slices\<close>

text \<open>\<open>xs[lo:hi]\<close> of a Go slice whose capacity is not used past its length: it panics unless
  \<open>lo \<le> hi \<le> len(xs)\<close>.\<close>

definition goSlice :: "'a list \<Rightarrow> nat \<Rightarrow> nat \<Rightarrow> 'a list option" where
  "goSlice xs lo hi = (if lo \<le> hi \<and> hi \<le> length xs then Some (take (hi - lo) (drop lo xs)) else None)"

definition goIndex :: "'a list \<Rightarrow> nat \<Rightarrow> 'a option" where
  "goIndex xs i = (if i < length xs then Some (xs ! i) else None)"

lemma goIndex_Some [simp]: "i < length xs \<Longrightarrow> goIndex xs i = Some (xs ! i)"
  by (simp add: goIndex_def)

lemma goSlice_Some [simp]:
  "lo \<le> hi \<Longrightarrow> hi \<le> length xs \<Longrightarrow> goSlice xs lo hi = Some (take (hi - lo) (drop lo xs))"
  by (simp add: goSlice_def)

subsection \<open>Sorted lists\<close>

lemma sorted_nth_ge_iff:
  assumes "sorted xs" and "p < length xs"
  shows "i \<le> xs ! p \<longleftrightarrow> length xs - p \<le> length (filter (\<lambda>x. i \<le> x) xs)"
proof -
  have split: "filter (\<lambda>x. i \<le> x) xs =
      filter (\<lambda>x. i \<le> x) (take p xs) @ filter (\<lambda>x. i \<le> x) (drop p xs)"
    by (metis append_take_drop_id filter_append)
  show ?thesis
  proof
    assume le: "i \<le> xs ! p"
    have "filter (\<lambda>x. i \<le> x) (drop p xs) = drop p xs"
    proof (rule filter_True, rule ballI)
      fix x assume "x \<in> set (drop p xs)"
      then obtain j where "j < length (drop p xs)" "x = drop p xs ! j"
        by (metis in_set_conv_nth)
      then have "xs ! p \<le> x" using assms
        by (simp add: sorted_nth_mono)
      with le show "i \<le> x" by simp
    qed
    then show "length xs - p \<le> length (filter (\<lambda>x. i \<le> x) xs)"
      by (simp add: split)
  next
    assume len: "length xs - p \<le> length (filter (\<lambda>x. i \<le> x) xs)"
    show "i \<le> xs ! p"
    proof (rule ccontr)
      assume "\<not> i \<le> xs ! p"
      then have lt: "xs ! p < i" by simp
      have none: "filter (\<lambda>x. i \<le> x) (take (Suc p) xs) = []"
      proof (rule filter_False, rule ballI)
        fix x assume "x \<in> set (take (Suc p) xs)"
        then obtain j where j: "j < length (take (Suc p) xs)" "x = take (Suc p) xs ! j"
          by (metis in_set_conv_nth)
        then have "x \<le> xs ! p" using assms by (simp add: sorted_nth_mono)
        with lt show "\<not> i \<le> x" by simp
      qed
      have "filter (\<lambda>x. i \<le> x) xs =
          filter (\<lambda>x. i \<le> x) (take (Suc p) xs) @ filter (\<lambda>x. i \<le> x) (drop (Suc p) xs)"
        by (metis append_take_drop_id filter_append)
      then have "length (filter (\<lambda>x. i \<le> x) xs) \<le> length (drop (Suc p) xs)"
        using none by (simp add: length_filter_le del: length_drop)
      with len assms(2) show False by simp
    qed
  qed
qed

end
