(* ===== verification/Raftpb.thy ===== *)
theory Raftpb
  imports GoPrelude
begin

text \<open>
  The messages of \<open>glee-etcd/raft/raftpb\<close> (\<open>raft.pb.go\<close>, \<open>confchange.go\<close>, \<open>confstate.go\<close>) as records and
  datatypes, with the methods the raft library calls on them: the wire size of an entry, the views of
  a configuration change, the equivalence of configuration states, and the textual form of changes.
  Node ids, terms and indexes are natural numbers. The enums of configuration changes may carry a number that
  has no name, which \<open>confchange.go\<close> panics on or writes as unknown: the constructors \<open>...Other\<close>. The types
  of entries and messages have only their named values here; no branch of the code asks for another one. The
  generated wire codec of configuration changes is not modelled: it is a parameter (\<open>codec\<close>).
\<close>

datatype entryType = EntryNormal | EntryConfChange | EntryConfChangeV2

text \<open>A byte slice that may be nil is an optional string.\<close>

type_synonym gobytes = "string option"

definition bytesOf :: "gobytes \<Rightarrow> string" where
  "bytesOf d = (case d of None \<Rightarrow> [] | Some s \<Rightarrow> s)"

lemma bytesOf_simps [simp]: "bytesOf None = []" "bytesOf (Some s) = s"
  by (simp_all add: bytesOf_def)

record entry =
  e_Type :: entryType
  e_Term :: nat
  e_Index :: nat
  e_Data :: gobytes

definition emptyEntry :: entry where
  "emptyEntry = \<lparr>e_Type = EntryNormal, e_Term = 0, e_Index = 0, e_Data = None\<rparr>"

record confState =
  cs_Voters :: "nat list"
  cs_Learners :: "nat list"
  cs_VotersOutgoing :: "nat list"
  cs_LearnersNext :: "nat list"
  cs_AutoLeave :: bool

definition emptyConfState :: confState where
  "emptyConfState = \<lparr>cs_Voters = [], cs_Learners = [], cs_VotersOutgoing = [],
     cs_LearnersNext = [], cs_AutoLeave = False\<rparr>"

record snapshotMetadata =
  md_ConfState :: confState
  md_Index :: nat
  md_Term :: nat

record snapshot =
  sn_Data :: gobytes
  sn_Metadata :: snapshotMetadata

definition emptySnapshot :: snapshot where
  "emptySnapshot = \<lparr>sn_Data = None,
     sn_Metadata = \<lparr>md_ConfState = emptyConfState, md_Index = 0, md_Term = 0\<rparr>\<rparr>"

datatype messageType =
    MsgHup | MsgBeat | MsgProp | MsgApp | MsgAppResp | MsgVote | MsgVoteResp | MsgSnap
  | MsgHeartbeat | MsgHeartbeatResp | MsgUnreachable | MsgSnapStatus | MsgCheckQuorum
  | MsgTransferLeader | MsgTimeoutNow | MsgReadIndex | MsgReadIndexResp | MsgPreVote
  | MsgPreVoteResp | MsgNegtiveVote | MsgNegtiveVoteResp | MsgProbeRttHup | MsgProbeRtt
  | MsgProbeRttResp

text \<open>
  The field \<open>Rttmap\<close> carries the JSON encoding of a map from node ids to round-trip times. The model
  carries the map that the bytes encode; \<open>None\<close> stands for bytes that do not decode (nil included),
  for which \<open>json.Unmarshal\<close> reports an error and the decoded map stays empty.
\<close>

record message =
  m_Type :: messageType
  m_To :: nat
  m_From :: nat
  m_Term :: nat
  m_LogTerm :: nat
  m_Index :: nat
  m_Entries :: "entry list"
  m_Commit :: nat
  m_Snapshot :: snapshot
  m_Reject :: bool
  m_RejectHint :: nat
  m_Context :: string
  m_Rttmap :: "(nat, int) fmap option"

definition emptyMessage :: message where
  "emptyMessage = \<lparr>m_Type = MsgHup, m_To = 0, m_From = 0, m_Term = 0, m_LogTerm = 0, m_Index = 0,
     m_Entries = [], m_Commit = 0, m_Snapshot = emptySnapshot, m_Reject = False, m_RejectHint = 0,
     m_Context = [], m_Rttmap = None\<rparr>"

record hardState =
  hs_Term :: nat
  hs_Vote :: nat
  hs_Commit :: nat

definition emptyHardState :: hardState where
  "emptyHardState = \<lparr>hs_Term = 0, hs_Vote = 0, hs_Commit = 0\<rparr>"

datatype confChangeTransition =
    ConfChangeTransitionAuto
  | ConfChangeTransitionJointImplicit
  | ConfChangeTransitionJointExplicit
  | ConfChangeTransitionOther int

datatype confChangeType =
    ConfChangeAddNode | ConfChangeRemoveNode | ConfChangeUpdateNode | ConfChangeAddLearnerNode
  | ConfChangeTypeOther int

record confChange =
  cc_ID :: nat
  cc_Type :: confChangeType
  cc_NodeID :: nat
  cc_Context :: gobytes

record confChangeSingle =
  ccs_Type :: confChangeType
  ccs_NodeID :: nat

record confChangeV2 =
  v2_Transition :: confChangeTransition
  v2_Changes :: "confChangeSingle list"
  v2_Context :: gobytes

definition emptyConfChangeV2 :: confChangeV2 where
  "emptyConfChangeV2 = \<lparr>v2_Transition = ConfChangeTransitionAuto, v2_Changes = [], v2_Context = None\<rparr>"

subsection \<open>The wire size of an entry\<close>

text \<open>\<open>bits.Len64\<close>.\<close>

fun len64 :: "nat \<Rightarrow> nat" where
  "len64 x = (if x = 0 then 0 else Suc (len64 (x div 2)))"

declare len64.simps [simp del]

text \<open>\<open>x|1\<close> sets the lowest bit.\<close>

definition sovRaft :: "nat \<Rightarrow> nat" where
  "sovRaft x = (len64 (2 * (x div 2) + 1) + 6) div 7"

fun entryTypeNum :: "entryType \<Rightarrow> nat" where
  "entryTypeNum EntryNormal = 0"
| "entryTypeNum EntryConfChange = 1"
| "entryTypeNum EntryConfChangeV2 = 2"

definition EntrySize :: "entry \<Rightarrow> nat" where
  "EntrySize e =
     (let n = (1 + sovRaft (entryTypeNum (e_Type e))) + (1 + sovRaft (e_Term e)) + (1 + sovRaft (e_Index e))
      in case e_Data e of None \<Rightarrow> n | Some d \<Rightarrow> n + (1 + length d + sovRaft (length d)))"

definition PayloadSize :: "entry \<Rightarrow> nat" where
  "PayloadSize e = length (bytesOf (e_Data e))"

text \<open>\<open>limitSize\<close> keeps the longest prefix whose size stays within the limit, but at least one entry. The sum of
  the sizes, an \<open>int\<close> in the code, has no bound here: the entries are in memory, far below \<open>2 ^ 63\<close> bytes.\<close>

fun limitFrom :: "entry list \<Rightarrow> nat \<Rightarrow> nat \<Rightarrow> nat \<Rightarrow> nat" where
  "limitFrom [] sz limit maxSize = limit"
| "limitFrom (e # es) sz limit maxSize =
     (let sz' = sz + EntrySize e
      in if sz' > maxSize then limit else limitFrom es sz' (limit + 1) maxSize)"

definition limitSize :: "entry list \<Rightarrow> nat \<Rightarrow> entry list" where
  "limitSize ents maxSize = (case ents of [] \<Rightarrow> ents
     | e # es \<Rightarrow> take (limitFrom es (EntrySize e) 1 maxSize) ents)"

lemma limitFrom_bounds:
  "limit \<le> limitFrom es sz limit maxSize \<and> limitFrom es sz limit maxSize \<le> limit + length es"
proof (induction es sz limit maxSize rule: limitFrom.induct)
  case (2 e es sz limit maxSize)
  then show ?case by (auto simp: Let_def)
qed simp

lemma limitFrom_size:
  "sz \<le> maxSize \<Longrightarrow>
     sz + sum_list (map EntrySize (take (limitFrom es sz limit maxSize - limit) es)) \<le> maxSize"
proof (induction es sz limit maxSize rule: limitFrom.induct)
  case (2 e es sz limit maxSize)
  show ?case
  proof (cases "sz + EntrySize e > maxSize")
    case False
    define m where "m = limitFrom es (sz + EntrySize e) (Suc limit) maxSize"
    have "Suc limit \<le> m" using limitFrom_bounds unfolding m_def by blast
    then have "m - limit = Suc (m - (limit + 1))" by simp
    then have "take (m - limit) (e # es) = e # take (m - (limit + 1)) es" by simp
    moreover have "(sz + EntrySize e) + sum_list (map EntrySize (take (m - (limit + 1)) es)) \<le> maxSize"
      unfolding m_def using False 2(1) by (simp add: Let_def)
    ultimately show ?thesis using False by (simp add: m_def [symmetric] Let_def)
  qed (use 2 in simp)
qed simp

lemma limitFrom_maximal:
  "m < length es \<Longrightarrow> m = limitFrom es sz limit maxSize - limit \<Longrightarrow>
     maxSize < sz + sum_list (map EntrySize (take (Suc m) es))"
proof (induction es sz limit maxSize arbitrary: m rule: limitFrom.induct)
  case (2 e es sz limit maxSize)
  show ?case
  proof (cases "sz + EntrySize e > maxSize")
    case True
    then show ?thesis using 2 by (simp add: Let_def)
  next
    case False
    define k where "k = limitFrom es (sz + EntrySize e) (limit + 1) maxSize"
    have "limit + 1 \<le> k" using limitFrom_bounds unfolding k_def by blast
    moreover have "m = k - limit" using 2(3) False by (simp add: Let_def k_def)
    ultimately have m: "m = Suc (k - (limit + 1))" by simp
    with 2(1) [OF refl, of "k - (limit + 1)"] False 2(2) show ?thesis by (simp add: k_def)
  qed
qed simp

text \<open>\<open>limitSize\<close> returns a prefix.\<close>

lemma limitSize_take: "\<exists>n. limitSize ents maxSize = take n ents \<and> (ents \<noteq> [] \<longrightarrow> 0 < n) \<and> n \<le> length ents"
proof (cases ents)
  case (Cons e es)
  then show ?thesis
    using limitFrom_bounds [of 1 es "EntrySize e" maxSize]
    by (intro exI [of _ "limitFrom es (EntrySize e) 1 maxSize"]) (auto simp: limitSize_def)
qed (simp add: limitSize_def)

lemma limitSize_Nil [simp]: "limitSize [] maxSize = []"
  by (simp add: limitSize_def)

lemma limitSize_eq_Nil [simp]: "limitSize ents maxSize = [] \<longleftrightarrow> ents = []"
  using limitSize_take [of ents maxSize] by auto

lemma length_limitSize_le: "length (limitSize ents maxSize) \<le> length ents"
  using limitSize_take [of ents maxSize] by auto

subsection \<open>Views of a configuration change\<close>

datatype confChangeI = CCV1 confChange | CCV2 confChangeV2

fun AsV2 :: "confChangeI \<Rightarrow> confChangeV2" where
  "AsV2 (CCV1 c) = \<lparr>v2_Transition = ConfChangeTransitionAuto,
     v2_Changes = [\<lparr>ccs_Type = cc_Type c, ccs_NodeID = cc_NodeID c\<rparr>], v2_Context = cc_Context c\<rparr>"
| "AsV2 (CCV2 c) = c"

fun AsV1 :: "confChangeI \<Rightarrow> confChange option" where
  "AsV1 (CCV1 c) = Some c"
| "AsV1 (CCV2 c) = None"

text \<open>
  \<open>EnterJoint\<close> returns \<open>(autoLeave, ok)\<close>; it panics (\<open>None\<close>) on a transition it does not know.
\<close>

definition EnterJointCC :: "confChangeV2 \<Rightarrow> (bool \<times> bool) option" where
  "EnterJointCC c =
     (if v2_Transition c \<noteq> ConfChangeTransitionAuto \<or> length (v2_Changes c) > 1 then
        case v2_Transition c of
          ConfChangeTransitionAuto \<Rightarrow> Some (True, True)
        | ConfChangeTransitionJointImplicit \<Rightarrow> Some (True, True)
        | ConfChangeTransitionJointExplicit \<Rightarrow> Some (False, True)
        | ConfChangeTransitionOther _ \<Rightarrow> None
      else Some (False, False))"

definition LeaveJointCC :: "confChangeV2 \<Rightarrow> bool" where
  "LeaveJointCC c \<longleftrightarrow> c\<lparr>v2_Context := None\<rparr> = emptyConfChangeV2"

text \<open>The generated codec of configuration changes, as a parameter: encoders, and decoders that fail
  on malformed bytes.\<close>

record codec =
  marshalConfChange :: "confChange \<Rightarrow> string"
  unmarshalConfChange :: "string \<Rightarrow> confChange option"
  marshalConfChangeV2 :: "confChangeV2 \<Rightarrow> string"
  unmarshalConfChangeV2 :: "string \<Rightarrow> confChangeV2 option"

definition MarshalConfChange :: "codec \<Rightarrow> confChangeI \<Rightarrow> entryType \<times> string" where
  "MarshalConfChange cd c =
     (case AsV1 c of
        Some ccv1 \<Rightarrow> (EntryConfChange, marshalConfChange cd ccv1)
      | None \<Rightarrow> (EntryConfChangeV2, marshalConfChangeV2 cd (AsV2 c)))"

subsection \<open>Equivalence of configuration states\<close>

definition ConfStateEquivalent :: "confState \<Rightarrow> confState \<Rightarrow> bool" where
  "ConfStateEquivalent cs1 cs2 \<longleftrightarrow>
     sort (cs_Voters cs1) = sort (cs_Voters cs2) \<and>
     sort (cs_Learners cs1) = sort (cs_Learners cs2) \<and>
     sort (cs_VotersOutgoing cs1) = sort (cs_VotersOutgoing cs2) \<and>
     sort (cs_LearnersNext cs1) = sort (cs_LearnersNext cs2) \<and>
     cs_AutoLeave cs1 = cs_AutoLeave cs2"

end
