(* ===== verification/Storage.thy ===== *)
theory Storage
  imports Raftpb
begin

text \<open>
  \<open>glee-etcd/raft/storage.go\<close>: the \<open>Storage\<close> interface and its implementation \<open>MemoryStorage\<close>.
  What the raft log needs of anything that holds a contiguous range of entries is the locale
  \<open>indexed_log\<close>; the memory storage is its first interpretation (the raft log itself is another).
  A panic is \<open>None\<close>, a returned error is \<open>Inl\<close>.
\<close>

datatype storageErr =
  ErrCompacted | ErrSnapOutOfDate | ErrUnavailable | ErrSnapshotTemporarilyUnavailable

definition noLimit :: nat where
  "noLimit = MaxUint64"

text \<open>
  The slice \<open>ents\<close> is never empty: it starts with a dummy entry, kept apart from the rest.
\<close>

record memoryStorage =
  ms_hardState :: hardState
  ms_snapshot :: snapshot
  ms_dummy :: entry
  ms_rest :: "entry list"

abbreviation ms_ents :: "memoryStorage \<Rightarrow> entry list" where
  "ms_ents ms \<equiv> ms_dummy ms # ms_rest ms"

definition NewMemoryStorage :: memoryStorage where
  "NewMemoryStorage = \<lparr>ms_hardState = emptyHardState, ms_snapshot = emptySnapshot,
     ms_dummy = emptyEntry, ms_rest = []\<rparr>"

definition InitialState :: "memoryStorage \<Rightarrow> hardState \<times> confState" where
  "InitialState ms = (ms_hardState ms, md_ConfState (sn_Metadata (ms_snapshot ms)))"

definition SetHardState :: "memoryStorage \<Rightarrow> hardState \<Rightarrow> memoryStorage" where
  "SetHardState ms st = ms\<lparr>ms_hardState := st\<rparr>"

definition ms_lastIndex :: "memoryStorage \<Rightarrow> nat" where
  "ms_lastIndex ms = e_Index (ms_dummy ms) + length (ms_ents ms) - 1"

definition ms_firstIndex :: "memoryStorage \<Rightarrow> nat" where
  "ms_firstIndex ms = e_Index (ms_dummy ms) + 1"

definition Entries :: "memoryStorage \<Rightarrow> nat \<Rightarrow> nat \<Rightarrow> nat \<Rightarrow> (storageErr + entry list) option" where
  "Entries ms lo hi maxSize =
     (let offset = e_Index (ms_dummy ms) in
      if lo \<le> offset then Some (Inl ErrCompacted)
      else if hi > ms_lastIndex ms + 1 then None
      else if length (ms_ents ms) = 1 then Some (Inl ErrUnavailable)
      else do { ents \<leftarrow> goSlice (ms_ents ms) (sub64 lo offset) (sub64 hi offset);
                Some (Inr (limitSize ents maxSize)) })"

text \<open>The distance is compared as a signed integer, as the conversion \<open>int(i-offset)\<close> makes it.\<close>

definition TermOf :: "memoryStorage \<Rightarrow> nat \<Rightarrow> (storageErr + nat) option" where
  "TermOf ms i =
     (let offset = e_Index (ms_dummy ms) in
      if i < offset then Some (Inl ErrCompacted)
      else if i64 (int (i - offset)) \<ge> int (length (ms_ents ms)) then Some (Inl ErrUnavailable)
      else do { e \<leftarrow> goIndex (ms_ents ms) (i - offset); Some (Inr (e_Term e)) })"

definition Snapshot :: "memoryStorage \<Rightarrow> storageErr + snapshot" where
  "Snapshot ms = Inr (ms_snapshot ms)"

definition ApplySnapshot :: "memoryStorage \<Rightarrow> snapshot \<Rightarrow> storageErr + memoryStorage" where
  "ApplySnapshot ms snap =
     (let msIndex = md_Index (sn_Metadata (ms_snapshot ms));
          snapIndex = md_Index (sn_Metadata snap) in
      if msIndex \<ge> snapIndex then Inl ErrSnapOutOfDate
      else Inr (ms\<lparr>ms_snapshot := snap,
             ms_dummy := emptyEntry\<lparr>e_Term := md_Term (sn_Metadata snap), e_Index := md_Index (sn_Metadata snap)\<rparr>,
             ms_rest := []\<rparr>))"

definition CreateSnapshot ::
  "memoryStorage \<Rightarrow> nat \<Rightarrow> confState option \<Rightarrow> gobytes \<Rightarrow> (storageErr + snapshot \<times> memoryStorage) option" where
  "CreateSnapshot ms i cs data =
     (let md = sn_Metadata (ms_snapshot ms) in
      if i \<le> md_Index md then Some (Inl ErrSnapOutOfDate)
      else if i > ms_lastIndex ms then None
      else do {
        e \<leftarrow> goIndex (ms_ents ms) (sub64 i (e_Index (ms_dummy ms)));
        let snap = \<lparr>sn_Data = data, sn_Metadata = \<lparr>md_ConfState = (case cs of None \<Rightarrow> md_ConfState md | Some c \<Rightarrow> c),
              md_Index = i, md_Term = e_Term e\<rparr>\<rparr>;
        Some (Inr (snap, ms\<lparr>ms_snapshot := snap\<rparr>)) })"

definition Compact :: "memoryStorage \<Rightarrow> nat \<Rightarrow> (storageErr + memoryStorage) option" where
  "Compact ms compactIndex =
     (let offset = e_Index (ms_dummy ms) in
      if compactIndex \<le> offset then Some (Inl ErrCompacted)
      else if compactIndex > ms_lastIndex ms then None
      else
        let i = compactIndex - offset in
        do { e \<leftarrow> goIndex (ms_ents ms) i;
             Some (Inr (ms\<lparr>ms_dummy := emptyEntry\<lparr>e_Index := e_Index e, e_Term := e_Term e\<rparr>,
               ms_rest := drop (i + 1) (ms_ents ms)\<rparr>)) })"

text \<open>The entries to append replace the stored ones from their first index on; a gap is a panic.\<close>

definition Append :: "memoryStorage \<Rightarrow> entry list \<Rightarrow> memoryStorage option" where
  "Append ms entries =
     (case entries of
        [] \<Rightarrow> Some ms
      | e0 # _ \<Rightarrow>
          let fst_i = ms_firstIndex ms;
              lst_i = sub64 (add64 (e_Index e0) (length entries)) 1 in
          if lst_i < fst_i then Some ms
          else do {
            es \<leftarrow> (if fst_i > e_Index e0 then goSlice entries (fst_i - e_Index e0) (length entries)
                  else Some entries);
            h \<leftarrow> goIndex es 0;
            let offset = sub64 (e_Index h) (e_Index (ms_dummy ms));
            if length (ms_ents ms) > offset then
              (case take offset (ms_ents ms) @ es of
                 [] \<Rightarrow> None
               | d # r \<Rightarrow> Some (ms\<lparr>ms_dummy := d, ms_rest := r\<rparr>))
            else if length (ms_ents ms) = offset then Some (ms\<lparr>ms_rest := ms_rest ms @ es\<rparr>)
            else None })"

subsection \<open>Contiguous logs\<close>

text \<open>Entries with the consecutive indexes \<open>base+1, base+2, \<dots>\<close>.\<close>

definition contiguous :: "nat \<Rightarrow> entry list \<Rightarrow> bool" where
  "contiguous base es \<longleftrightarrow> map e_Index es = [Suc base..<Suc base + length es]"

lemma contiguous_iff: "contiguous base es \<longleftrightarrow> (\<forall>k < length es. e_Index (es ! k) = Suc base + k)"
  unfolding contiguous_def list_eq_iff_nth_eq by (auto simp del: upt_Suc)

lemma contiguous_Nil [simp]: "contiguous base []"
  by (simp add: contiguous_def)

lemma contiguous_Cons [simp]: "contiguous base (e # es) \<longleftrightarrow> e_Index e = Suc base \<and> contiguous (Suc base) es"
  by (auto simp: contiguous_def upt_conv_Cons)

lemma contiguous_append [simp]:
  "contiguous base (xs @ ys) \<longleftrightarrow> contiguous base xs \<and> contiguous (base + length xs) ys"
  by (induction xs arbitrary: base) auto

lemma contiguous_take [intro]: "contiguous base es \<Longrightarrow> contiguous base (take n es)"
  by (simp add: contiguous_iff)

lemma contiguous_drop: "contiguous base es \<Longrightarrow> n \<le> length es \<Longrightarrow> contiguous (base + n) (drop n es)"
  by (simp add: contiguous_iff)

subsection \<open>The interface\<close>

text \<open>
  A log that starts after the index \<open>base\<close> (whose term is still known), holds \<open>ents\<close>, and reads its
  terms and ranges of entries out of them.
\<close>

locale indexed_log =
  fixes inv :: "'s \<Rightarrow> bool" and base :: "'s \<Rightarrow> nat" and bterm :: "'s \<Rightarrow> nat" and ents :: "'s \<Rightarrow> entry list"
    and fidx :: "'s \<Rightarrow> nat" and lidx :: "'s \<Rightarrow> nat"
    and trm :: "'s \<Rightarrow> nat \<Rightarrow> (storageErr + nat) option"
    and range :: "'s \<Rightarrow> nat \<Rightarrow> nat \<Rightarrow> nat \<Rightarrow> (storageErr + entry list) option"
  assumes contig: "inv s \<Longrightarrow> contiguous (base s) (ents s)"
    and fidx_eq: "inv s \<Longrightarrow> fidx s = Suc (base s)"
    and lidx_eq: "inv s \<Longrightarrow> lidx s = base s + length (ents s)"
    and trm_base: "inv s \<Longrightarrow> trm s (base s) = Some (Inr (bterm s))"
    and trm_nth: "inv s \<Longrightarrow> k < length (ents s) \<Longrightarrow> trm s (Suc (base s) + k) = Some (Inr (e_Term (ents s ! k)))"
    and range_compacted: "inv s \<Longrightarrow> lo \<le> base s \<Longrightarrow> lo \<le> hi \<Longrightarrow> range s lo hi n = Some (Inl ErrCompacted)"
    and range_ok: "inv s \<Longrightarrow> base s < lo \<Longrightarrow> lo < hi \<Longrightarrow> hi \<le> Suc (lidx s) \<Longrightarrow>
      range s lo hi n = Some (Inr (limitSize (take (hi - lo) (drop (lo - Suc (base s)) (ents s))) n))"
begin

text \<open>The term of every index from the base to the last one is known.\<close>

lemma trm_known:
  assumes "inv s" and "base s \<le> i" and "i \<le> lidx s"
  shows "\<exists>t. trm s i = Some (Inr t)"
proof (cases "i = base s")
  case False
  then have "trm s (Suc (base s) + (i - Suc (base s))) = Some (Inr (e_Term (ents s ! (i - Suc (base s)))))"
    using assms lidx_eq [OF assms(1)] by (intro trm_nth) auto
  then show ?thesis using False assms(2) by (simp add: Suc_leI)
qed (use trm_base [OF assms(1)] in auto)

text \<open>A range read returns entries with consecutive indexes from its start, and at least one.\<close>

lemma range_contiguous:
  assumes "inv s" and "base s < lo" and "lo < hi" and "hi \<le> Suc (lidx s)"
    and "range s lo hi n = Some (Inr es)"
  shows "es \<noteq> []" and "contiguous (lo - 1) es" and "length es \<le> hi - lo"
proof -
  let ?d = "lo - Suc (base s)"
  have es: "es = limitSize (take (hi - lo) (drop ?d (ents s))) n"
    using assms range_ok by auto
  have "?d < length (ents s)" using assms(2-4) lidx_eq [OF assms(1)] by auto
  then show "es \<noteq> []" using assms(3) by (simp add: es)
  have "contiguous (base s + ?d) (drop ?d (ents s))"
    using \<open>?d < length (ents s)\<close> contig [OF assms(1)] by (intro contiguous_drop) auto
  moreover have "base s + ?d = lo - 1" using assms(2) by simp
  ultimately show "contiguous (lo - 1) es"
    using limitSize_take [of "take (hi - lo) (drop ?d (ents s))" n] es by auto
  show "length es \<le> hi - lo"
    using length_limitSize_le [of "take (hi - lo) (drop ?d (ents s))" n] es by simp
qed

text \<open>Reading one entry returns it, whatever the limit.\<close>

lemma range_at:
  assumes "inv s" and "base s < i" and "i \<le> lidx s" and "range s i (Suc i) n = Some (Inr es)"
  shows "es = [ents s ! (i - Suc (base s))]"
proof -
  let ?d = "i - Suc (base s)"
  have "?d < length (ents s)" using assms(2,3) lidx_eq [OF assms(1)] by auto
  then have "take 1 (drop ?d (ents s)) = [ents s ! ?d]"
    by (simp add: take_Suc_conv_app_nth hd_drop_conv_nth take_Suc)
  then have "range s i (Suc i) n = Some (Inr (limitSize [ents s ! ?d] n))"
    using assms range_ok [of s i "Suc i" n] by (simp del: take_Suc)
  then show ?thesis using assms(4) by (simp add: limitSize_def)
qed

end

subsection \<open>The memory storage provides it\<close>

text \<open>Its entries are contiguous, and the length of the slice is a Go \<open>int\<close>.\<close>

definition ms_inv :: "memoryStorage \<Rightarrow> bool" where
  "ms_inv ms \<longleftrightarrow> contiguous (e_Index (ms_dummy ms)) (ms_rest ms) \<and> ms_lastIndex ms < 2 ^ 63"

definition ms_base :: "memoryStorage \<Rightarrow> nat" where
  "ms_base ms = e_Index (ms_dummy ms)"

definition ms_bterm :: "memoryStorage \<Rightarrow> nat" where
  "ms_bterm ms = e_Term (ms_dummy ms)"

lemma ms_lastIndex_eq: "ms_lastIndex ms = ms_base ms + length (ms_rest ms)"
  by (simp add: ms_lastIndex_def ms_base_def)

interpretation mem: indexed_log ms_inv ms_base ms_bterm ms_rest ms_firstIndex ms_lastIndex TermOf Entries
proof
  fix s assume "ms_inv s"
  then show "TermOf s (ms_base s) = Some (Inr (ms_bterm s))"
    by (simp add: TermOf_def ms_base_def ms_bterm_def)
next
  fix s k assume inv: "ms_inv s" and k: "k < length (ms_rest s)"
  have "length (ms_rest s) < 2 ^ 63" using inv by (simp add: ms_inv_def ms_lastIndex_eq)
  then have "i64 (int (Suc k)) = int (Suc k)" using k by (intro i64_small) auto
  then show "TermOf s (Suc (ms_base s) + k) = Some (Inr (e_Term (ms_rest s ! k)))"
    using k by (simp add: TermOf_def ms_base_def)
next
  fix s lo hi n assume inv: "ms_inv s" and lo: "ms_base s < lo" and hi: "lo < hi" "hi \<le> Suc (ms_lastIndex s)"
  have "sub64 lo (ms_base s) = Suc (lo - Suc (ms_base s))" using lo by simp
  moreover have "sub64 hi (ms_base s) = hi - ms_base s" using lo hi by simp
  moreover have "length (ms_rest s) \<noteq> 0" using lo hi by (auto simp: ms_lastIndex_eq)
  ultimately show "Entries s lo hi n =
      Some (Inr (limitSize (take (hi - lo) (drop (lo - Suc (ms_base s)) (ms_rest s))) n))"
    using lo hi by (simp add: Entries_def ms_base_def [symmetric] Let_def ms_lastIndex_eq)
qed (simp_all add: ms_inv_def ms_base_def ms_firstIndex_def ms_lastIndex_def Entries_def)

lemma NewMemoryStorage_inv: "ms_inv NewMemoryStorage"
  by (simp add: ms_inv_def NewMemoryStorage_def ms_lastIndex_def emptyEntry_def)

lemma SetHardState_inv: "ms_inv ms \<Longrightarrow> ms_inv (SetHardState ms st)"
  by (simp add: ms_inv_def SetHardState_def ms_lastIndex_def)

lemma ApplySnapshot_inv:
  "ApplySnapshot ms snap = Inr ms' \<Longrightarrow> md_Index (sn_Metadata snap) < 2 ^ 63 \<Longrightarrow>
     ms_inv ms' \<and> ms_base ms' = md_Index (sn_Metadata snap) \<and> ms_rest ms' = [] \<and>
     ms_bterm ms' = md_Term (sn_Metadata snap)"
  by (auto simp: ApplySnapshot_def Let_def ms_inv_def ms_lastIndex_def ms_base_def ms_bterm_def split: if_splits)

text \<open>Compaction forgets a prefix and nothing else.\<close>

lemma Compact_ok:
  assumes inv: "ms_inv ms" and "ms_base ms < i" and "i \<le> ms_lastIndex ms"
  shows "\<exists>ms'. Compact ms i = Some (Inr ms') \<and> ms_inv ms' \<and> ms_base ms' = i \<and>
    ms_bterm ms' = e_Term (ms_rest ms ! (i - Suc (ms_base ms))) \<and>
    ms_rest ms' = drop (i - ms_base ms) (ms_rest ms)"
proof -
  define n where "n = i - Suc (ms_base ms)"
  have n: "n < length (ms_rest ms)" "i = Suc (ms_base ms) + n"
    using assms(2,3) by (auto simp: n_def ms_lastIndex_eq)
  have "e_Index (ms_rest ms ! n) = i"
    using inv n by (auto simp: ms_inv_def contiguous_iff ms_base_def)
  moreover have "contiguous (ms_base ms + Suc n) (drop (Suc n) (ms_rest ms))"
    using inv n(1) by (intro contiguous_drop) (auto simp: ms_inv_def ms_base_def)
  ultimately show ?thesis
    using assms n by (auto simp: Compact_def Let_def ms_base_def ms_bterm_def ms_inv_def ms_lastIndex_def)
qed

text \<open>Appending a contiguous run that leaves no gap: the stored suffix from its start is replaced.\<close>

lemma Append_ok:
  assumes inv: "ms_inv ms" and es: "contiguous b es" and le: "ms_base ms \<le> b"
    and ge: "b \<le> ms_lastIndex ms" and bound: "b + length es < 2 ^ 63"
  shows "\<exists>ms'. Append ms es = Some ms' \<and> ms_inv ms' \<and> ms_base ms' = ms_base ms \<and> ms_bterm ms' = ms_bterm ms \<and>
    ms_rest ms' = (if es = [] then ms_rest ms else take (b - ms_base ms) (ms_rest ms) @ es)"
proof (cases es)
  case Nil
  then show ?thesis using inv by (simp add: Append_def)
next
  case (Cons e0 es')
  have e0: "e_Index e0 = Suc b" using es Cons by simp
  define k where "k = b - ms_base ms"
  have k: "k \<le> length (ms_rest ms)" using ge by (simp add: k_def ms_lastIndex_eq)
  have off: "sub64 (e_Index e0) (e_Index (ms_dummy ms)) = Suc k"
    using e0 le by (simp add: k_def ms_base_def)
  have lst: "sub64 (add64 (Suc b) (length es)) 1 = b + length es"
    using bound Cons by simp
  let ?ms' = "ms\<lparr>ms_rest := take k (ms_rest ms) @ es\<rparr>"
  have "Append ms es = Some ?ms'"
    using le k off lst Cons by (auto simp: Append_def Let_def e0 ms_firstIndex_def ms_base_def)
  moreover have "ms_inv ?ms'"
  proof -
    have "contiguous (ms_base ms) (take k (ms_rest ms))"
      using inv by (intro contiguous_take) (simp add: ms_inv_def ms_base_def)
    moreover have "ms_base ms + k = b" using le by (simp add: k_def)
    ultimately show ?thesis
      using es k bound by (simp add: ms_inv_def ms_base_def ms_lastIndex_def min_def)
  qed
  ultimately show ?thesis using Cons by (simp add: k_def ms_base_def ms_bterm_def)
qed

end
