(* ===== verification/RaftLog.thy ===== *)
theory RaftLog
  imports Storage
begin

text \<open>
  \<open>glee-etcd/raft/log_unstable.go\<close> and \<open>log.go\<close>: the log of a node, a stable part read from the storage
  and an unstable part (entries and possibly a snapshot) not yet persisted. Seen from outside it is
  one contiguous log: it is the second interpretation of \<open>indexed_log\<close>. Panics are \<open>None\<close>. Sums of an index that
  a message carries wrap (\<open>add64\<close>); the successors of the log's own indexes (\<open>committed + 1\<close>, \<open>applied + 1\<close>,
  \<open>lastIndex + 1\<close>) are those of natural numbers, which differs only in a log that has reached \<open>2 ^ 64 - 1\<close>.
\<close>

record unstable =
  us_snapshot :: "snapshot option"
  us_entries :: "entry list"
  us_offset :: nat

abbreviation snapIndex :: "snapshot \<Rightarrow> nat" where
  "snapIndex s \<equiv> md_Index (sn_Metadata s)"

abbreviation snapTerm :: "snapshot \<Rightarrow> nat" where
  "snapTerm s \<equiv> md_Term (sn_Metadata s)"

subsection \<open>The unstable part\<close>

definition maybeFirstIndex :: "unstable \<Rightarrow> nat option" where
  "maybeFirstIndex u = (case us_snapshot u of Some s \<Rightarrow> Some (snapIndex s + 1) | None \<Rightarrow> None)"

definition maybeLastIndex :: "unstable \<Rightarrow> nat option" where
  "maybeLastIndex u =
     (if length (us_entries u) \<noteq> 0 then Some (us_offset u + length (us_entries u) - 1)
      else case us_snapshot u of Some s \<Rightarrow> Some (snapIndex s) | None \<Rightarrow> None)"

definition maybeTerm :: "unstable \<Rightarrow> nat \<Rightarrow> nat option option" where
  "maybeTerm u i =
     (if i < us_offset u then
        Some (case us_snapshot u of
            Some s \<Rightarrow> if snapIndex s = i then Some (snapTerm s) else None
          | None \<Rightarrow> None)
      else case maybeLastIndex u of
          None \<Rightarrow> Some None
        | Some l \<Rightarrow>
            if i > l then Some None
            else do { e \<leftarrow> goIndex (us_entries u) (i - us_offset u); Some (Some (e_Term e)) })"

definition shrinkEntriesArray :: "unstable \<Rightarrow> unstable" where
  "shrinkEntriesArray u = u"

definition u_stableTo :: "unstable \<Rightarrow> nat \<Rightarrow> nat \<Rightarrow> unstable option" where
  "u_stableTo u i t =
     do { r \<leftarrow> maybeTerm u i;
          case r of
            None \<Rightarrow> Some u
          | Some gt \<Rightarrow>
              if gt = t \<and> i \<ge> us_offset u
              then do { es \<leftarrow> goSlice (us_entries u) (i + 1 - us_offset u) (length (us_entries u));
                        Some (shrinkEntriesArray (u\<lparr>us_entries := es, us_offset := i + 1\<rparr>)) }
              else Some u }"

definition u_stableSnapTo :: "unstable \<Rightarrow> nat \<Rightarrow> unstable" where
  "u_stableSnapTo u i =
     (case us_snapshot u of
        Some s \<Rightarrow> if snapIndex s = i then u\<lparr>us_snapshot := None\<rparr> else u
      | None \<Rightarrow> u)"

definition u_restore :: "unstable \<Rightarrow> snapshot \<Rightarrow> unstable" where
  "u_restore u s = u\<lparr>us_offset := add64 (snapIndex s) 1, us_entries := [], us_snapshot := Some s\<rparr>"

definition u_mustCheckOutOfBounds :: "unstable \<Rightarrow> nat \<Rightarrow> nat \<Rightarrow> unit option" where
  "u_mustCheckOutOfBounds u lo hi =
     (if lo > hi then None
      else if lo < us_offset u \<or> hi > us_offset u + length (us_entries u) then None
      else Some ())"

definition u_slice :: "unstable \<Rightarrow> nat \<Rightarrow> nat \<Rightarrow> entry list option" where
  "u_slice u lo hi =
     do { _ \<leftarrow> u_mustCheckOutOfBounds u lo hi;
          goSlice (us_entries u) (lo - us_offset u) (hi - us_offset u) }"

definition truncateAndAppend :: "unstable \<Rightarrow> entry list \<Rightarrow> unstable option" where
  "truncateAndAppend u ents =
     do { e0 \<leftarrow> goIndex ents 0;
          let after = e_Index e0;
          if after = us_offset u + length (us_entries u) then Some (u\<lparr>us_entries := us_entries u @ ents\<rparr>)
          else if after \<le> us_offset u then Some (u\<lparr>us_offset := after, us_entries := ents\<rparr>)
          else do { keep \<leftarrow> u_slice u (us_offset u) after;
                    Some (u\<lparr>us_entries := keep @ ents\<rparr>) } }"

subsection \<open>The log\<close>

record raftLog =
  rl_storage :: memoryStorage
  rl_unstable :: unstable
  rl_committed :: nat
  rl_applied :: nat
  rl_maxNextEntsSize :: nat

definition newLogWithSize :: "memoryStorage \<Rightarrow> nat \<Rightarrow> raftLog" where
  "newLogWithSize storage maxNextEntsSize =
     (let firstIndex = ms_firstIndex storage; lastIndex = ms_lastIndex storage in
      \<lparr>rl_storage = storage,
       rl_unstable = \<lparr>us_snapshot = None, us_entries = [], us_offset = lastIndex + 1\<rparr>,
       rl_committed = firstIndex - 1, rl_applied = firstIndex - 1,
       rl_maxNextEntsSize = maxNextEntsSize\<rparr>)"

definition newLog :: "memoryStorage \<Rightarrow> raftLog" where
  "newLog storage = newLogWithSize storage noLimit"

definition firstIndex :: "raftLog \<Rightarrow> nat" where
  "firstIndex l =
     (case maybeFirstIndex (rl_unstable l) of Some i \<Rightarrow> i | None \<Rightarrow> ms_firstIndex (rl_storage l))"

definition lastIndex :: "raftLog \<Rightarrow> nat" where
  "lastIndex l =
     (case maybeLastIndex (rl_unstable l) of Some i \<Rightarrow> i | None \<Rightarrow> ms_lastIndex (rl_storage l))"

definition termAt :: "raftLog \<Rightarrow> nat \<Rightarrow> (storageErr + nat) option" where
  "termAt l i =
     (let dummyIndex = sub64 (firstIndex l) 1 in
      if i < dummyIndex \<or> i > lastIndex l then Some (Inr 0)
      else do {
        r \<leftarrow> maybeTerm (rl_unstable l) i;
        case r of
          Some t \<Rightarrow> Some (Inr t)
        | None \<Rightarrow> do {
            s \<leftarrow> TermOf (rl_storage l) i;
            case s of
              Inr t \<Rightarrow> Some (Inr t)
            | Inl err \<Rightarrow> if err = ErrCompacted \<or> err = ErrUnavailable then Some (Inl err) else None } })"

definition lastTerm :: "raftLog \<Rightarrow> nat option" where
  "lastTerm l = do { r \<leftarrow> termAt l (lastIndex l); case r of Inr t \<Rightarrow> Some t | Inl _ \<Rightarrow> None }"

definition zeroTermOnErrCompacted :: "storageErr + nat \<Rightarrow> nat option" where
  "zeroTermOnErrCompacted r =
     (case r of Inr t \<Rightarrow> Some t | Inl err \<Rightarrow> if err = ErrCompacted then Some 0 else None)"

definition matchTerm :: "raftLog \<Rightarrow> nat \<Rightarrow> nat \<Rightarrow> bool option" where
  "matchTerm l i trm = do { r \<leftarrow> termAt l i; Some (case r of Inl _ \<Rightarrow> False | Inr t \<Rightarrow> t = trm) }"

definition isUpToDate :: "raftLog \<Rightarrow> nat \<Rightarrow> nat \<Rightarrow> bool option" where
  "isUpToDate l lasti trm =
     do { lt \<leftarrow> lastTerm l; Some (trm > lt \<or> (trm = lt \<and> lasti \<ge> lastIndex l)) }"

definition commitTo :: "raftLog \<Rightarrow> nat \<Rightarrow> raftLog option" where
  "commitTo l tocommit =
     (if rl_committed l < tocommit then
        if lastIndex l < tocommit then None else Some (l\<lparr>rl_committed := tocommit\<rparr>)
      else Some l)"

definition appliedTo :: "raftLog \<Rightarrow> nat \<Rightarrow> raftLog option" where
  "appliedTo l i =
     (if i = 0 then Some l
      else if rl_committed l < i \<or> i < rl_applied l then None
      else Some (l\<lparr>rl_applied := i\<rparr>))"

definition stableTo :: "raftLog \<Rightarrow> nat \<Rightarrow> nat \<Rightarrow> raftLog option" where
  "stableTo l i t = do { u \<leftarrow> u_stableTo (rl_unstable l) i t; Some (l\<lparr>rl_unstable := u\<rparr>) }"

definition stableSnapTo :: "raftLog \<Rightarrow> nat \<Rightarrow> raftLog" where
  "stableSnapTo l i = l\<lparr>rl_unstable := u_stableSnapTo (rl_unstable l) i\<rparr>"

text \<open>The loop logs the term that conflicts, and looking it up may panic.\<close>

fun findConflict :: "raftLog \<Rightarrow> entry list \<Rightarrow> nat option" where
  "findConflict l [] = Some 0"
| "findConflict l (ne # ents) =
     do { ok \<leftarrow> matchTerm l (e_Index ne) (e_Term ne);
          if \<not> ok then
            if e_Index ne \<le> lastIndex l
            then do { r \<leftarrow> termAt l (e_Index ne); _ \<leftarrow> zeroTermOnErrCompacted r; Some (e_Index ne) }
            else Some (e_Index ne)
          else findConflict l ents }"

definition appendLog :: "raftLog \<Rightarrow> entry list \<Rightarrow> (nat \<times> raftLog) option" where
  "appendLog l ents =
     (case ents of
        [] \<Rightarrow> Some (lastIndex l, l)
      | e0 # _ \<Rightarrow>
          if sub64 (e_Index e0) 1 < rl_committed l then None
          else do { u \<leftarrow> truncateAndAppend (rl_unstable l) ents;
                    let l1 = l\<lparr>rl_unstable := u\<rparr>;
                    Some (lastIndex l1, l1) })"

definition maybeAppend ::
  "raftLog \<Rightarrow> nat \<Rightarrow> nat \<Rightarrow> nat \<Rightarrow> entry list \<Rightarrow> (nat option \<times> raftLog) option" where
  "maybeAppend l index logTerm committed ents =
     do { ok \<leftarrow> matchTerm l index logTerm;
          if ok then do {
            let lastnewi = add64 index (length ents);
            ci \<leftarrow> findConflict l ents;
            l1 \<leftarrow> (if ci = 0 then Some l
                  else if ci \<le> rl_committed l then None
                  else do { es \<leftarrow> goSlice ents (sub64 ci (add64 index 1)) (length ents);
                            (_, l1) \<leftarrow> appendLog l es; Some l1 });
            l2 \<leftarrow> commitTo l1 (min committed lastnewi);
            Some (Some lastnewi, l2) }
          else Some (None, l) }"

definition unstableEntries :: "raftLog \<Rightarrow> entry list" where
  "unstableEntries l = us_entries (rl_unstable l)"

definition mustCheckOutOfBounds :: "raftLog \<Rightarrow> nat \<Rightarrow> nat \<Rightarrow> storageErr option option" where
  "mustCheckOutOfBounds l lo hi =
     (if lo > hi then None
      else
        let fi = firstIndex l in
        if lo < fi then Some (Some ErrCompacted)
        else
          let len = lastIndex l + 1 - fi in
          if lo < fi \<or> hi > fi + len then None else Some None)"

definition sliceLog :: "raftLog \<Rightarrow> nat \<Rightarrow> nat \<Rightarrow> nat \<Rightarrow> (storageErr + entry list) option" where
  "sliceLog l lo hi maxSize =
     do { chk \<leftarrow> mustCheckOutOfBounds l lo hi;
          case chk of
            Some err \<Rightarrow> Some (Inl err)
          | None \<Rightarrow>
              if lo = hi then Some (Inr [])
              else
                let offset = us_offset (rl_unstable l);
                    finish = (\<lambda>ents. if hi > offset then do {
                                         un \<leftarrow> u_slice (rl_unstable l) (max lo offset) hi;
                                         let es = (if length ents > 0 then ents @ un else un);
                                         Some (Inr (limitSize es maxSize)) }
                                     else Some (Inr (limitSize ents maxSize)))
                in if lo < offset then do {
                     r \<leftarrow> Entries (rl_storage l) lo (min hi offset) maxSize;
                     case r of
                       Inl err \<Rightarrow> if err = ErrCompacted then Some (Inl err) else None
                     | Inr storedEnts \<Rightarrow>
                         if length storedEnts < min hi offset - lo then Some (Inr storedEnts)
                         else finish storedEnts }
                   else finish [] }"

definition entriesFrom :: "raftLog \<Rightarrow> nat \<Rightarrow> nat \<Rightarrow> (storageErr + entry list) option" where
  "entriesFrom l i maxsize =
     (if i > lastIndex l then Some (Inr []) else sliceLog l i (lastIndex l + 1) maxsize)"

text \<open>On \<open>ErrCompacted\<close> the code tries again; on an unchanged log that never ends.\<close>

definition allEntries :: "raftLog \<Rightarrow> entry list option" where
  "allEntries l = do { r \<leftarrow> entriesFrom l (firstIndex l) noLimit;
                       case r of Inr ents \<Rightarrow> Some ents | Inl err \<Rightarrow> None }"

definition nextEnts :: "raftLog \<Rightarrow> entry list option" where
  "nextEnts l =
     (let off = max (rl_applied l + 1) (firstIndex l) in
      if rl_committed l + 1 > off
      then do { r \<leftarrow> sliceLog l off (rl_committed l + 1) (rl_maxNextEntsSize l);
                case r of Inr ents \<Rightarrow> Some ents | Inl _ \<Rightarrow> None }
      else Some [])"

definition hasNextEnts :: "raftLog \<Rightarrow> bool" where
  "hasNextEnts l = (let off = max (rl_applied l + 1) (firstIndex l) in rl_committed l + 1 > off)"

definition l_snapshot :: "raftLog \<Rightarrow> storageErr + snapshot" where
  "l_snapshot l =
     (case us_snapshot (rl_unstable l) of Some s \<Rightarrow> Inr s | None \<Rightarrow> Snapshot (rl_storage l))"

definition l_maybeCommit :: "raftLog \<Rightarrow> nat \<Rightarrow> nat \<Rightarrow> (bool \<times> raftLog) option" where
  "l_maybeCommit l maxIndex trm =
     (if maxIndex > rl_committed l then do {
        r \<leftarrow> termAt l maxIndex;
        t \<leftarrow> zeroTermOnErrCompacted r;
        if t = trm then do { l1 \<leftarrow> commitTo l maxIndex; Some (True, l1) } else Some (False, l) }
      else Some (False, l))"

definition l_restore :: "raftLog \<Rightarrow> snapshot \<Rightarrow> raftLog" where
  "l_restore l s = l\<lparr>rl_committed := snapIndex s, rl_unstable := u_restore (rl_unstable l) s\<rparr>"

end
