(* ===== verification/RaftLogFacts.thy ===== *)
theory RaftLogFacts
  imports RaftLog
begin

text \<open>
  The raft log as one contiguous list: its invariant, the entries it stands for (\<open>rl_ents\<close>), the
  interpretation of \<open>indexed_log\<close>, and what appending, committing, restoring and persisting do to that
  list.
\<close>

subsection \<open>Limiting twice\<close>

lemma limitFrom_short:
  "limitFrom es sz limit m < limit + length es \<Longrightarrow> limitFrom (es @ fs) sz limit m = limitFrom es sz limit m"
  by (induction es sz limit m rule: limitFrom.induct) (auto simp: Let_def)

lemma limitSize_short:
  "length (limitSize xs m) < length xs \<Longrightarrow> limitSize (xs @ ys) m = limitSize xs m"
proof (cases xs)
  case (Cons e es)
  assume "length (limitSize xs m) < length xs"
  then have "limitFrom es (EntrySize e) 1 m < 1 + length es"
    by (auto simp: limitSize_def Cons)
  then show ?thesis
    using limitFrom_short [of es "EntrySize e" 1 m ys] by (simp add: limitSize_def Cons take_Cons')
qed simp

lemma limitSize_full: "length xs \<le> length (limitSize xs m) \<Longrightarrow> limitSize xs m = xs"
  using limitSize_take [of xs m] by auto

subsection \<open>The abstraction\<close>

definition rl_base :: "raftLog \<Rightarrow> nat" where
  "rl_base l = (case us_snapshot (rl_unstable l) of Some s \<Rightarrow> snapIndex s | None \<Rightarrow> ms_base (rl_storage l))"

definition rl_bterm :: "raftLog \<Rightarrow> nat" where
  "rl_bterm l = (case us_snapshot (rl_unstable l) of Some s \<Rightarrow> snapTerm s | None \<Rightarrow> ms_bterm (rl_storage l))"

text \<open>The part of the log that is read from the storage.\<close>

definition rl_stored :: "raftLog \<Rightarrow> entry list" where
  "rl_stored l =
     (case us_snapshot (rl_unstable l) of
        Some s \<Rightarrow> []
      | None \<Rightarrow> take (us_offset (rl_unstable l) - Suc (ms_base (rl_storage l))) (ms_rest (rl_storage l)))"

definition rl_ents :: "raftLog \<Rightarrow> entry list" where
  "rl_ents l = rl_stored l @ us_entries (rl_unstable l)"

text \<open>
  The stored and the unstable part meet without a gap, the commit index lies inside the log, and
  what is applied is committed.
\<close>

definition view_inv :: "raftLog \<Rightarrow> bool" where
  "view_inv l \<longleftrightarrow> ms_inv (rl_storage l) \<and> 0 < us_offset (rl_unstable l) \<and>
     contiguous (us_offset (rl_unstable l) - 1) (us_entries (rl_unstable l)) \<and>
     (case us_snapshot (rl_unstable l) of
        Some s \<Rightarrow> us_offset (rl_unstable l) = Suc (snapIndex s)
      | None \<Rightarrow> ms_base (rl_storage l) < us_offset (rl_unstable l) \<and>
                us_offset (rl_unstable l) \<le> Suc (ms_lastIndex (rl_storage l)) \<and>
                (us_entries (rl_unstable l) = [] \<longrightarrow>
                   us_offset (rl_unstable l) = Suc (ms_lastIndex (rl_storage l))))"

definition log_inv :: "raftLog \<Rightarrow> bool" where
  "log_inv l \<longleftrightarrow> view_inv l \<and> rl_base l \<le> rl_committed l \<and> rl_committed l \<le> lastIndex l \<and>
     rl_applied l \<le> rl_committed l"

lemma log_invD: "log_inv l \<Longrightarrow> view_inv l" "log_inv l \<Longrightarrow> rl_base l \<le> rl_committed l"
  "log_inv l \<Longrightarrow> rl_committed l \<le> lastIndex l" "log_inv l \<Longrightarrow> rl_applied l \<le> rl_committed l"
  by (simp_all add: log_inv_def)

lemmas view_simps = rl_base_def rl_bterm_def rl_ents_def rl_stored_def view_inv_def ms_lastIndex_eq

lemma lastIndex_eq: "view_inv l \<Longrightarrow> lastIndex l = rl_base l + length (rl_ents l)"
  by (auto simp: view_simps lastIndex_def maybeLastIndex_def split: option.splits)

lemma firstIndex_eq: "firstIndex l = Suc (rl_base l)"
  by (simp add: view_simps firstIndex_def maybeFirstIndex_def ms_firstIndex_def ms_base_def split: option.split)

lemma offset_eq: "view_inv l \<Longrightarrow> us_offset (rl_unstable l) = Suc (rl_base l) + length (rl_stored l)"
  by (auto simp: view_simps split: option.splits)

lemma rl_stored_nth:
  assumes "view_inv l" and "k < length (rl_stored l)"
  shows "us_snapshot (rl_unstable l) = None" "k < length (ms_rest (rl_storage l))"
    "rl_stored l ! k = ms_rest (rl_storage l) ! k" "rl_base l = ms_base (rl_storage l)"
    "rl_bterm l = ms_bterm (rl_storage l)" "ms_inv (rl_storage l)"
  using assms by (auto simp: view_simps split: option.splits)

lemma rl_contiguous: "view_inv l \<Longrightarrow> contiguous (rl_base l) (rl_ents l)"
proof -
  assume inv: "view_inv l"
  have "contiguous (rl_base l) (rl_stored l)"
    using inv by (auto simp: view_simps ms_inv_def ms_base_def split: option.splits)
  then show ?thesis using inv offset_eq [OF inv] by (simp add: view_inv_def rl_ents_def)
qed

subsection \<open>Terms\<close>

lemma maybeTerm_unstable:
  assumes "view_inv l" and "us_offset (rl_unstable l) \<le> i" and "i \<le> lastIndex l"
  shows "maybeTerm (rl_unstable l) i =
    Some (Some (e_Term (us_entries (rl_unstable l) ! (i - us_offset (rl_unstable l)))))"
proof -
  let ?u = "rl_unstable l"
  have lt: "i - us_offset ?u < length (us_entries ?u)"
    using assms offset_eq [OF assms(1)] lastIndex_eq [OF assms(1)] by (simp add: rl_ents_def)
  then have "maybeLastIndex ?u = Some (lastIndex l)"
    by (auto simp: maybeLastIndex_def lastIndex_def)
  then show ?thesis using lt assms(2,3) by (simp add: maybeTerm_def)
qed

text \<open>The term that the log gives an index: zero outside of the known range.\<close>

definition rl_term :: "raftLog \<Rightarrow> nat \<Rightarrow> nat" where
  "rl_term l i = (if i = rl_base l then rl_bterm l
     else if rl_base l < i \<and> i \<le> lastIndex l then e_Term (rl_ents l ! (i - Suc (rl_base l))) else 0)"

lemma termAt_eq:
  assumes "view_inv l"
  shows "termAt l i = Some (Inr (rl_term l i))"
proof -
  let ?u = "rl_unstable l"
  have dummy: "sub64 (firstIndex l) (Suc 0) = rl_base l" by (simp add: firstIndex_eq)
  have le: "rl_base l \<le> lastIndex l" using lastIndex_eq [OF assms] by simp
  consider (out) "i < rl_base l \<or> i > lastIndex l"
    | (unst) "us_offset ?u \<le> i" "i \<le> lastIndex l"
    | (snap) s where "rl_base l \<le> i" "i < us_offset ?u" "us_snapshot ?u = Some s"
    | (stored) "rl_base l \<le> i" "i < us_offset ?u" "i \<le> lastIndex l" "us_snapshot ?u = None"
    by (cases "us_snapshot ?u") force+
  then show ?thesis
  proof cases
    case out
    then show ?thesis using le by (auto simp: termAt_def dummy rl_term_def)
  next
    case unst
    have "rl_ents l ! (i - Suc (rl_base l)) = us_entries ?u ! (i - us_offset ?u)"
      using unst(1) offset_eq [OF assms] by (simp add: rl_ents_def nth_append)
    then show ?thesis using unst offset_eq [OF assms]
      by (simp add: termAt_def dummy maybeTerm_unstable [OF assms unst] rl_term_def)
  next
    case snap
    then have "i = rl_base l" "snapIndex s = rl_base l" using assms by (auto simp: view_simps)
    then show ?thesis using snap le
      by (simp add: termAt_def dummy maybeTerm_def rl_term_def rl_bterm_def)
  next
    case stored
    have "TermOf (rl_storage l) i = Some (Inr (rl_term l i))"
    proof (cases "i = rl_base l")
      case True
      have "ms_inv (rl_storage l)" "ms_base (rl_storage l) = rl_base l" "ms_bterm (rl_storage l) = rl_bterm l"
        using assms stored(4) by (simp_all add: view_simps)
      then show ?thesis using mem.trm_base True by (metis rl_term_def)
    next
      case False
      define k where "k = i - Suc (rl_base l)"
      have k: "i = Suc (rl_base l) + k" "k < length (rl_stored l)"
        using False stored(1,2) offset_eq [OF assms] by (auto simp: k_def)
      note nth = rl_stored_nth [OF assms k(2)]
      have "TermOf (rl_storage l) i = Some (Inr (e_Term (ms_rest (rl_storage l) ! k)))"
        using mem.trm_nth [OF nth(6,2)] nth(4) k(1) by simp
      then show ?thesis using nth(3) k stored(3) by (simp add: rl_term_def rl_ents_def nth_append)
    qed
    then show ?thesis using stored by (simp add: termAt_def dummy maybeTerm_def)
  qed
qed

lemma matchTerm_eq: "view_inv l \<Longrightarrow> matchTerm l i t = Some (rl_term l i = t)"
  by (simp add: matchTerm_def termAt_eq)

lemma lastTerm_eq: "view_inv l \<Longrightarrow> lastTerm l = Some (rl_term l (lastIndex l))"
  by (simp add: lastTerm_def termAt_eq)

text \<open>The comparison of logs that grants votes: the pair of last term and last index.\<close>

lemma isUpToDate_eq:
  "view_inv l \<Longrightarrow> isUpToDate l lasti t =
     Some (rl_term l (lastIndex l) < t \<or> rl_term l (lastIndex l) = t \<and> lastIndex l \<le> lasti)"
  by (auto simp: isUpToDate_def lastTerm_eq)

subsection \<open>Ranges\<close>

lemma mustCheck_ok:
  "rl_base l < lo \<Longrightarrow> lo \<le> hi \<Longrightarrow> hi \<le> Suc (lastIndex l) \<Longrightarrow> mustCheckOutOfBounds l lo hi = Some None"
  by (simp add: mustCheckOutOfBounds_def firstIndex_eq)

lemma u_slice_ok:
  "us_offset u \<le> lo \<Longrightarrow> lo \<le> hi \<Longrightarrow> hi \<le> us_offset u + length (us_entries u) \<Longrightarrow>
     u_slice u lo hi = Some (take (hi - lo) (drop (lo - us_offset u) (us_entries u)))"
  by (auto simp: u_slice_def u_mustCheckOutOfBounds_def goSlice_def)

lemma sliceLog_ok:
  assumes inv: "view_inv l" and lo: "rl_base l < lo" and lt: "lo < hi" and hi: "hi \<le> Suc (lastIndex l)"
  shows "sliceLog l lo hi n = Some (Inr (limitSize (take (hi - lo) (drop (lo - Suc (rl_base l)) (rl_ents l))) n))"
proof -
  let ?u = "rl_unstable l"
  let ?off = "us_offset ?u"
  let ?st = "rl_stored l"
  note off = offset_eq [OF inv]
  have hi': "hi \<le> ?off + length (us_entries ?u)" using hi off lastIndex_eq [OF inv] by (simp add: rl_ents_def)
  have chk: "mustCheckOutOfBounds l lo hi = Some None" using lo lt hi by (simp add: mustCheck_ok)
  show ?thesis
  proof (cases "lo < ?off")
    case False
    then have "?off < hi" using lt by simp
    moreover have "u_slice ?u lo hi = Some (take (hi - lo) (drop (lo - ?off) (us_entries ?u)))"
      using False lt hi' by (intro u_slice_ok) auto
    moreover have "drop (lo - Suc (rl_base l)) (rl_ents l) = drop (lo - ?off) (us_entries ?u)"
      using False off by (simp add: rl_ents_def)
    ultimately show ?thesis using False chk lt by (simp add: sliceLog_def Let_def max_def)
  next
    case True
    define m where "m = min hi ?off"
    define d where "d = lo - Suc (rl_base l)"
    define seg where "seg = take (m - lo) (drop d ?st)"
    have m: "lo < m" "m \<le> ?off" "m \<le> hi" using True lt by (auto simp: m_def)
    have dm: "d + (m - lo) \<le> length ?st" using m off lo by (simp add: d_def)
    have none: "us_snapshot ?u = None" and base: "rl_base l = ms_base (rl_storage l)" and ms: "ms_inv (rl_storage l)"
      using rl_stored_nth [OF inv, of d] dm m(1) by auto
    have rest: "?st = take (length ?st) (ms_rest (rl_storage l))" "length ?st \<le> length (ms_rest (rl_storage l))"
      using none by (auto simp: rl_stored_def min_def)
    have "take (m - lo) (drop d (ms_rest (rl_storage l))) = seg"
      using dm rest(2) unfolding seg_def by (subst rest(1)) (simp add: drop_take min_def)
    then have ent: "Entries (rl_storage l) lo m n = Some (Inr (limitSize seg n))"
      using mem.range_ok [OF ms, of lo m n] lo m(1,2) base off rest(2)
      by (simp add: d_def ms_lastIndex_eq)
    have seglen: "length seg = m - lo" using dm by (simp add: seg_def)
    have whole: "take (hi - lo) (drop d (rl_ents l)) = seg @ take (hi - m) (us_entries ?u)"
    proof (cases "hi \<le> ?off")
      case True
      then have "m = hi" by (simp add: m_def)
      then show ?thesis using dm by (simp add: seg_def rl_ents_def)
    next
      case False
      then have "m = ?off" by (simp add: m_def)
      then have "hi - lo = (length ?st - d) + (hi - m)" "m - lo = length ?st - d" "d \<le> length ?st"
        using off lo False True by (simp_all add: d_def)
      then show ?thesis by (simp add: seg_def rl_ents_def)
    qed
    show ?thesis
    proof (cases "length (limitSize seg n) < length seg")
      case short: True
      then have "length (limitSize seg n) < m - lo" using seglen by simp
      then have "sliceLog l lo hi n = Some (Inr (limitSize seg n))"
        using True chk lt ent by (simp add: sliceLog_def Let_def m_def [symmetric])
      then show ?thesis
        using limitSize_short [OF short, of "take (hi - m) (us_entries ?u)"] whole by (simp add: d_def)
    next
      case False
      then have full: "limitSize seg n = seg" by (intro limitSize_full) simp
      have nes: "seg \<noteq> []" using seglen m(1) by auto
      show ?thesis
      proof (cases "?off < hi")
        case True
        then have "m = ?off" by (simp add: m_def)
        have "u_slice ?u ?off hi = Some (take (hi - ?off) (us_entries ?u))"
          using u_slice_ok [of ?u ?off hi] True hi' by simp
        then show ?thesis
          using \<open>lo < ?off\<close> True chk lt ent full nes seglen whole \<open>m = ?off\<close>
          by (simp add: sliceLog_def Let_def m_def [symmetric] d_def [symmetric] max_def)
      next
        case False
        then have "m = hi" by (simp add: m_def)
        then show ?thesis
          using \<open>lo < ?off\<close> False chk lt ent full seglen whole
          by (simp add: sliceLog_def Let_def m_def [symmetric] d_def [symmetric])
      qed
    qed
  qed
qed

interpretation rlog: indexed_log view_inv rl_base rl_bterm rl_ents firstIndex lastIndex termAt sliceLog
proof
  fix s lo hi n assume "view_inv s" "lo \<le> rl_base s" "lo \<le> hi"
  then show "sliceLog s lo hi n = Some (Inl ErrCompacted)"
    by (simp add: sliceLog_def mustCheckOutOfBounds_def firstIndex_eq)
next
  fix s k assume "view_inv s" "k < length (rl_ents s)"
  then show "termAt s (Suc (rl_base s) + k) = Some (Inr (e_Term (rl_ents s ! k)))"
    by (simp add: termAt_eq rl_term_def lastIndex_eq)
qed (auto simp: rl_contiguous firstIndex_eq lastIndex_eq termAt_eq rl_term_def sliceLog_ok)

end
