(* ===== verification/RaftLogOps.thy ===== *)
theory RaftLogOps
  imports RaftLogFacts
begin

text \<open>
  The operations of the raft log on the list it stands for: creation, appending with its conflict
  search, committing, applying, restoring a snapshot, and handing entries over to the storage.
\<close>

lemma newLogWithSize_inv:
  assumes "ms_inv ms"
  shows "log_inv (newLogWithSize ms n)" and "rl_ents (newLogWithSize ms n) = ms_rest ms"
    and "rl_base (newLogWithSize ms n) = ms_base ms" and "rl_bterm (newLogWithSize ms n) = ms_bterm ms"
proof -
  have "view_inv (newLogWithSize ms n)"
    using assms by (simp add: newLogWithSize_def Let_def view_simps)
  then show "log_inv (newLogWithSize ms n)"
    using lastIndex_eq [of "newLogWithSize ms n"]
    by (simp add: log_inv_def) (simp add: newLogWithSize_def Let_def ms_firstIndex_def ms_base_def rl_base_def)
qed (simp_all add: newLogWithSize_def Let_def view_simps)

subsection \<open>The conflict search\<close>

text \<open>The number of leading entries that the log already has (with their terms).\<close>

definition matching :: "raftLog \<Rightarrow> entry list \<Rightarrow> nat" where
  "matching l ents = length (takeWhile (\<lambda>e. rl_term l (e_Index e) = e_Term e) ents)"

lemma findConflict_eq:
  "view_inv l \<Longrightarrow>
   findConflict l ents = Some (if matching l ents < length ents then e_Index (ents ! matching l ents) else 0)"
  by (induction ents) (auto simp: matching_def matchTerm_eq termAt_eq zeroTermOnErrCompacted_def)

lemma matching_le: "matching l ents \<le> length ents"
  by (simp add: matching_def length_takeWhile_le)

lemma matching_nth: "k < matching l ents \<Longrightarrow> rl_term l (e_Index (ents ! k)) = e_Term (ents ! k)"
  unfolding matching_def by (metis (mono_tags, lifting) nth_mem set_takeWhileD takeWhile_nth)

subsection \<open>Appending\<close>

text \<open>Which parts of the state the abstraction reads.\<close>

lemma rl_stored_cong:
  "us_snapshot (rl_unstable l') = us_snapshot (rl_unstable l) \<Longrightarrow>
   us_offset (rl_unstable l') = us_offset (rl_unstable l) \<Longrightarrow> rl_storage l' = rl_storage l \<Longrightarrow>
     rl_stored l' = rl_stored l"
  by (simp add: rl_stored_def split: option.split)

lemma rl_base_cong:
  "us_snapshot (rl_unstable l') = us_snapshot (rl_unstable l) \<Longrightarrow> rl_storage l' = rl_storage l \<Longrightarrow>
     rl_base l' = rl_base l \<and> rl_bterm l' = rl_bterm l"
  by (simp add: rl_base_def rl_bterm_def split: option.split)

lemma view_cong:
  assumes "rl_unstable l' = rl_unstable l" and "rl_storage l' = rl_storage l"
  shows "rl_base l' = rl_base l" "rl_bterm l' = rl_bterm l" "rl_ents l' = rl_ents l"
    "view_inv l' = view_inv l" "lastIndex l' = lastIndex l" "rl_term l' i = rl_term l i"
  using assms rl_stored_cong [of l' l] rl_base_cong [of l' l]
  by (simp_all add: rl_ents_def view_inv_def lastIndex_def rl_term_def cong: option.case_cong)

text \<open>What appending leaves alone.\<close>

definition same_frame :: "raftLog \<Rightarrow> raftLog \<Rightarrow> bool" where
  "same_frame l l' \<longleftrightarrow> rl_storage l' = rl_storage l \<and> rl_applied l' = rl_applied l \<and>
     rl_maxNextEntsSize l' = rl_maxNextEntsSize l \<and> rl_base l' = rl_base l \<and> rl_bterm l' = rl_bterm l"

lemma truncateAndAppend_ok:
  assumes inv: "view_inv l" and es: "contiguous b es" "es \<noteq> []" and b: "rl_base l \<le> b" "b \<le> lastIndex l"
  shows "\<exists>u. truncateAndAppend (rl_unstable l) es = Some u \<and> us_snapshot u = us_snapshot (rl_unstable l) \<and>
    view_inv (l\<lparr>rl_unstable := u\<rparr>) \<and>
    rl_ents (l\<lparr>rl_unstable := u\<rparr>) = take (b - rl_base l) (rl_ents l) @ es"
proof -
  let ?u = "rl_unstable l"
  let ?off = "us_offset ?u"
  note off = offset_eq [OF inv]
  have last: "lastIndex l = rl_base l + length (rl_stored l) + length (us_entries ?u)"
    using lastIndex_eq [OF inv] by (simp add: rl_ents_def)
  obtain e0 es' where e: "es = e0 # es'" using es(2) by (cases es) auto
  have e0: "e_Index e0 = Suc b" "goIndex es 0 = Some e0" using es(1) e by simp_all
  consider (tail) "b = lastIndex l" | (repl) "b < lastIndex l" "Suc b \<le> ?off"
    | (mid) "b < lastIndex l" "?off < Suc b" using b(2) by linarith
  then show ?thesis
  proof cases
    case tail
    let ?v = "?u\<lparr>us_entries := us_entries ?u @ es\<rparr>"
    have "truncateAndAppend ?u es = Some ?v"
      using tail off last e0 by (simp add: truncateAndAppend_def)
    moreover have "view_inv (l\<lparr>rl_unstable := ?v\<rparr>)"
      using inv es tail off last by (auto simp: view_inv_def split: option.splits)
    moreover have "rl_ents (l\<lparr>rl_unstable := ?v\<rparr>) = take (b - rl_base l) (rl_ents l) @ es"
      using tail last rl_stored_cong [of "l\<lparr>rl_unstable := ?v\<rparr>" l] by (simp add: rl_ents_def)
    ultimately show ?thesis by auto
  next
    case repl
    let ?v = "?u\<lparr>us_offset := Suc b, us_entries := es\<rparr>"
    have "truncateAndAppend ?u es = Some ?v"
      using repl off last e0 by (simp add: truncateAndAppend_def)
    moreover have "view_inv (l\<lparr>rl_unstable := ?v\<rparr>)"
      using inv es repl b(1) by (auto simp: view_inv_def rl_base_def split: option.splits)
    moreover have "rl_ents (l\<lparr>rl_unstable := ?v\<rparr>) = take (b - rl_base l) (rl_ents l) @ es"
    proof -
      have "rl_stored (l\<lparr>rl_unstable := ?v\<rparr>) = take (b - rl_base l) (rl_stored l)"
      proof (cases "us_snapshot ?u")
        case None
        then have "rl_base l = ms_base (rl_storage l)" by (simp add: rl_base_def)
        moreover have "b - rl_base l \<le> ?off - Suc (rl_base l)" using repl(2) by simp
        ultimately show ?thesis using None by (simp add: rl_stored_def min_def)
      qed (simp add: rl_stored_def)
      moreover have "b - rl_base l \<le> length (rl_stored l)" using repl(2) off by simp
      ultimately show ?thesis by (simp add: rl_ents_def)
    qed
    ultimately show ?thesis by auto
  next
    case mid
    let ?keep = "take (Suc b - ?off) (us_entries ?u)"
    let ?v = "?u\<lparr>us_entries := ?keep @ es\<rparr>"
    have "u_slice ?u ?off (Suc b) = Some ?keep"
      using mid off last by (subst u_slice_ok) auto
    then have "truncateAndAppend ?u es = Some ?v"
      using mid off last e0 by (simp add: truncateAndAppend_def)
    moreover have "?off - 1 + length ?keep = b" using mid off last by simp
    then have "view_inv (l\<lparr>rl_unstable := ?v\<rparr>)"
      using inv es by (auto simp: view_inv_def split: option.splits)
    moreover have "rl_ents (l\<lparr>rl_unstable := ?v\<rparr>) = take (b - rl_base l) (rl_ents l) @ es"
      using mid off rl_stored_cong [of "l\<lparr>rl_unstable := ?v\<rparr>" l] by (simp add: rl_ents_def)
    ultimately show ?thesis by auto
  qed
qed

text \<open>Appending keeps what lies at or below the start of the new entries; it never reaches below the
  commit index, and a gap is refused.\<close>

lemma appendLog_ok:
  assumes inv: "log_inv l" and es: "contiguous b es" "es \<noteq> []" and b: "rl_committed l \<le> b" "b \<le> lastIndex l"
  shows "\<exists>l'. appendLog l es = Some (b + length es, l') \<and> log_inv l' \<and> same_frame l l' \<and>
    rl_committed l' = rl_committed l \<and> rl_ents l' = take (b - rl_base l) (rl_ents l) @ es"
proof -
  have base: "rl_base l \<le> b" using inv b(1) by (simp add: log_inv_def)
  obtain u where u: "truncateAndAppend (rl_unstable l) es = Some u" "us_snapshot u = us_snapshot (rl_unstable l)"
    "view_inv (l\<lparr>rl_unstable := u\<rparr>)" "rl_ents (l\<lparr>rl_unstable := u\<rparr>) = take (b - rl_base l) (rl_ents l) @ es"
    using truncateAndAppend_ok [OF log_invD(1) [OF inv] es base b(2)] by blast
  let ?l = "l\<lparr>rl_unstable := u\<rparr>"
  have base': "rl_base ?l = rl_base l" "rl_bterm ?l = rl_bterm l" using u(2) rl_base_cong [of ?l l] by simp_all
  have lst: "lastIndex ?l = b + length es"
    using lastIndex_eq [OF u(3)] u(4) base' base b(2) lastIndex_eq [OF log_invD(1) [OF inv]] by simp
  obtain e0 es' where e: "es = e0 # es'" using es(2) by (cases es) auto
  then have "sub64 (e_Index e0) 1 = b" using es(1) by simp
  then have "appendLog l es = Some (b + length es, ?l)"
    using u(1) lst b(1) e by (simp add: appendLog_def)
  moreover have "log_inv ?l"
    using inv u(3) lst base' b(1) by (simp add: log_inv_def)
  ultimately show ?thesis using u(4) base' by (auto simp: same_frame_def)
qed

lemma appendLog_Some:
  assumes "log_inv l" and "contiguous b es" and "es \<noteq> []" and "appendLog l es = Some r"
  shows "rl_committed l \<le> b" and "b \<le> lastIndex l"
proof -
  obtain e0 es' where e: "es = e0 # es'" using assms(3) by (cases es) auto
  have e0: "e_Index e0 = Suc b" using assms(2) e by simp
  then have b: "sub64 (e_Index e0) 1 = b" by simp
  then show c: "rl_committed l \<le> b" using assms(4) e by (auto simp: appendLog_def split: if_splits)
  show "b \<le> lastIndex l"
  proof (rule ccontr)
    let ?u = "rl_unstable l"
    assume gap: "\<not> b \<le> lastIndex l"
    have inv: "view_inv l" using assms(1) by (simp add: log_inv_def)
    then have "lastIndex l = us_offset ?u + length (us_entries ?u) - 1"
      using offset_eq [OF inv] lastIndex_eq [OF inv] by (simp add: rl_ents_def)
    then have "u_slice ?u (us_offset ?u) (Suc b) = None" "us_offset ?u + length (us_entries ?u) < Suc b"
      using gap by (auto simp: u_slice_def u_mustCheckOutOfBounds_def)
    then have "truncateAndAppend ?u es = None"
      by (simp add: truncateAndAppend_def e e0)
    then show False using assms(4) c b e by (auto simp: appendLog_def split: if_splits)
  qed
qed

subsection \<open>Committing and applying\<close>

lemma commitTo_eq:
  "commitTo l c = (if c \<le> max (rl_committed l) (lastIndex l)
     then Some (l\<lparr>rl_committed := max (rl_committed l) c\<rparr>) else None)"
  by (auto simp: commitTo_def max_def)

lemma set_committed [simp]: "rl_base (l\<lparr>rl_committed := c\<rparr>) = rl_base l"
  "rl_bterm (l\<lparr>rl_committed := c\<rparr>) = rl_bterm l" "rl_ents (l\<lparr>rl_committed := c\<rparr>) = rl_ents l"
  "view_inv (l\<lparr>rl_committed := c\<rparr>) = view_inv l" "lastIndex (l\<lparr>rl_committed := c\<rparr>) = lastIndex l"
  "rl_term (l\<lparr>rl_committed := c\<rparr>) i = rl_term l i"
  by (rule view_cong; simp)+

lemma set_applied [simp]: "rl_base (l\<lparr>rl_applied := c\<rparr>) = rl_base l"
  "rl_bterm (l\<lparr>rl_applied := c\<rparr>) = rl_bterm l" "rl_ents (l\<lparr>rl_applied := c\<rparr>) = rl_ents l"
  "view_inv (l\<lparr>rl_applied := c\<rparr>) = view_inv l" "lastIndex (l\<lparr>rl_applied := c\<rparr>) = lastIndex l"
  by (rule view_cong; simp)+

lemma commitTo_ok:
  "log_inv l \<Longrightarrow> c \<le> lastIndex l \<Longrightarrow>
     commitTo l c = Some (l\<lparr>rl_committed := max (rl_committed l) c\<rparr>) \<and>
     log_inv (l\<lparr>rl_committed := max (rl_committed l) c\<rparr>)"
  by (auto simp: commitTo_eq log_inv_def)

lemma commitTo_Some:
  "log_inv l \<Longrightarrow> commitTo l c = Some l' \<Longrightarrow>
     log_inv l' \<and> l' = l\<lparr>rl_committed := max (rl_committed l) c\<rparr> \<and> c \<le> lastIndex l"
  by (auto simp: commitTo_eq log_inv_def split: if_splits)

lemma l_maybeCommit_eq:
  assumes inv: "log_inv l" and t: "t \<noteq> 0"
  shows "l_maybeCommit l i t =
    (if rl_committed l < i \<and> rl_term l i = t then Some (True, l\<lparr>rl_committed := i\<rparr>) else Some (False, l))"
proof (cases "rl_committed l < i \<and> rl_term l i = t")
  case True
  then have "rl_base l < i" "i \<le> lastIndex l"
    using inv t by (auto simp: log_inv_def rl_term_def split: if_splits)
  then show ?thesis using True inv
    by (simp add: l_maybeCommit_def termAt_eq log_inv_def zeroTermOnErrCompacted_def commitTo_eq max_def)
next
  case False
  then show ?thesis using inv
    by (auto simp: l_maybeCommit_def termAt_eq log_inv_def zeroTermOnErrCompacted_def)
qed

lemma appliedTo_ok:
  "log_inv l \<Longrightarrow> appliedTo l i = Some l' \<Longrightarrow> log_inv l' \<and> rl_ents l' = rl_ents l \<and>
     rl_committed l' = rl_committed l \<and> rl_applied l \<le> rl_applied l'"
  by (auto simp: appliedTo_def log_inv_def split: if_splits)

subsection \<open>Appending after the conflict search\<close>

text \<open>A prefix of the log determines the terms in it.\<close>

lemma rl_term_prefix:
  assumes "view_inv l" "view_inv l'" "rl_base l' = rl_base l" "rl_bterm l' = rl_bterm l"
    and "take n (rl_ents l') = take n (rl_ents l)" and "i \<le> rl_base l + n"
    and "n \<le> length (rl_ents l)" "n \<le> length (rl_ents l')"
  shows "rl_term l' i = rl_term l i"
proof (cases "rl_base l < i")
  case True
  then have "rl_ents l' ! (i - Suc (rl_base l)) = rl_ents l ! (i - Suc (rl_base l))"
    using assms(5,6) by (metis Suc_leI add_diff_inverse_nat le_add_diff_inverse not_less_eq nat_add_left_cancel_less
        less_eq_Suc_le add_Suc nth_take not_le)
  then show ?thesis using True assms lastIndex_eq [OF assms(1)] lastIndex_eq [OF assms(2)]
    by (auto simp: rl_term_def)
qed (use assms in \<open>auto simp: rl_term_def\<close>)

text \<open>
  The follower's append: with a previous entry that matches and everything committed at or below it,
  it succeeds, keeps the log up to the first mismatch, and ends with a log that holds every new entry.
\<close>

definition appended :: "raftLog \<Rightarrow> nat \<Rightarrow> entry list \<Rightarrow> entry list" where
  "appended l index ents =
     (let j = matching l ents in
      if j = length ents then rl_ents l
      else take (index + j - rl_base l) (rl_ents l) @ drop j ents)"

lemma matching_in_log:
  assumes inv: "view_inv l" and es: "contiguous index ents" and terms: "\<And>e. e \<in> set ents \<Longrightarrow> 0 < e_Term e"
    and base: "rl_base l \<le> index" and le: "index \<le> lastIndex l"
  shows "index + matching l ents \<le> lastIndex l"
proof (cases "matching l ents")
  case (Suc k)
  then have k: "k < matching l ents" by simp
  then have "k < length ents" using matching_le [of l ents] by simp
  then have "e_Index (ents ! k) = Suc index + k" "0 < e_Term (ents ! k)"
    using es terms by (auto simp: contiguous_iff)
  then have "rl_term l (Suc index + k) \<noteq> 0" using matching_nth [OF k] by simp
  then show ?thesis using base Suc by (simp add: rl_term_def split: if_splits)
qed (use le in simp)

lemma maybeAppend_ok:
  assumes inv: "log_inv l" and es: "contiguous index ents" and terms: "\<And>e. e \<in> set ents \<Longrightarrow> 0 < e_Term e"
    and c: "rl_committed l \<le> index" and le: "index \<le> lastIndex l" and bound: "index + length ents < 2 ^ 64"
    and match: "rl_term l index = logTerm"
  shows "\<exists>l'. maybeAppend l index logTerm committed ents = Some (Some (index + length ents), l') \<and>
    log_inv l' \<and> same_frame l l' \<and> rl_ents l' = appended l index ents \<and>
    rl_committed l' = max (rl_committed l) (min committed (index + length ents))"
proof -
  let ?j = "matching l ents"
  have v: "view_inv l" using inv by (simp add: log_inv_def)
  have base: "rl_base l \<le> index" using inv c by (simp add: log_inv_def)
  have new: "add64 index (length ents) = index + length ents" using bound by simp
  have jle: "index + ?j \<le> lastIndex l" by (rule matching_in_log [OF v es terms base le])
  have finish: "\<exists>l'. do { l2 \<leftarrow> commitTo l1 (min committed (index + length ents));
        Some (Some (index + length ents), l2) } = Some (Some (index + length ents), l') \<and>
      log_inv l' \<and> same_frame l l' \<and> rl_ents l' = rl_ents l1 \<and>
      rl_committed l' = max (rl_committed l) (min committed (index + length ents))"
    if "log_inv l1" "same_frame l l1" "rl_committed l1 = rl_committed l" "index + length ents \<le> lastIndex l1" for l1
    using commitTo_ok [OF that(1), of "min committed (index + length ents)"] that
    by (auto simp: same_frame_def)
  show ?thesis
  proof (cases "?j = length ents")
    case True
    then have "findConflict l ents = Some 0" by (simp add: findConflict_eq [OF v])
    then show ?thesis
      using finish [OF inv] jle True new match
      by (simp add: maybeAppend_def Let_def matchTerm_eq [OF v] same_frame_def appended_def)
  next
    case False
    then have lt: "?j < length ents" using matching_le [of l ents] by simp
    have idx: "e_Index (ents ! ?j) = Suc (index + ?j)" using es lt by (simp add: contiguous_iff)
    then have fc: "findConflict l ents = Some (Suc (index + ?j))" using lt by (simp add: findConflict_eq [OF v])
    have "contiguous (index + ?j) (drop ?j ents)" "drop ?j ents \<noteq> []"
      using es lt by (auto intro: contiguous_drop)
    from appendLog_ok [OF inv this _ jle] c obtain l1 where l1:
      "appendLog l (drop ?j ents) = Some (index + ?j + length (drop ?j ents), l1)" "log_inv l1" "same_frame l l1"
      "rl_committed l1 = rl_committed l" "rl_ents l1 = take (index + ?j - rl_base l) (rl_ents l) @ drop ?j ents"
      by auto
    have "add64 index 1 = Suc index" using bound lt by simp
    then have "goSlice ents (sub64 (Suc (index + ?j)) (add64 index 1)) (length ents) = Some (drop ?j ents)"
      using lt by simp
    moreover have "lastIndex l1 = index + length ents"
    proof -
      have "lastIndex l1 = rl_base l1 + length (rl_ents l1)" using lastIndex_eq l1(2) by (simp add: log_inv_def)
      then show ?thesis using l1(3,5) lt jle base lastIndex_eq [OF v] by (simp add: same_frame_def)
    qed
    ultimately show ?thesis
      using finish [OF l1(2,3,4)] fc l1(1,5) lt c new match False
      by (simp add: maybeAppend_def matchTerm_eq [OF v] appended_def Let_def)
  qed
qed

lemma maybeAppend_reject:
  "log_inv l \<Longrightarrow> rl_term l index \<noteq> logTerm \<Longrightarrow> maybeAppend l index logTerm committed ents = Some (None, l)"
  by (simp add: maybeAppend_def matchTerm_eq log_inv_def)

text \<open>After a successful append the log has the term of every new entry at its index.\<close>

lemma appended_terms:
  assumes inv: "view_inv l" and inv': "view_inv l'" and es: "contiguous index ents"
    and base: "rl_base l \<le> index" and frame: "same_frame l l'" and jle: "index + matching l ents \<le> lastIndex l"
    and ents: "rl_ents l' = appended l index ents" and k: "k < length ents"
  shows "rl_term l' (Suc index + k) = e_Term (ents ! k)"
proof -
  let ?j = "matching l ents"
  let ?n = "index + ?j - rl_base l"
  have fr: "rl_base l' = rl_base l" "rl_bterm l' = rl_bterm l" using frame by (simp_all add: same_frame_def)
  have nle: "?n \<le> length (rl_ents l)" using jle lastIndex_eq [OF inv] by simp
  have len: "?j = length ents \<or> length (rl_ents l') = ?n + (length ents - ?j)"
    using ents nle by (auto simp: appended_def Let_def)
  show ?thesis
  proof (cases "k < ?j")
    case True
    have "rl_term l' (Suc index + k) = rl_term l (Suc index + k)"
    proof (rule rl_term_prefix [OF inv inv' fr, of ?n])
      show "take ?n (rl_ents l') = take ?n (rl_ents l)" using ents nle by (auto simp: appended_def Let_def)
      show "?n \<le> length (rl_ents l')" using ents nle len by (auto simp: appended_def Let_def)
    qed (use True base nle in auto)
    moreover have "e_Index (ents ! k) = Suc index + k" using es k by (simp add: contiguous_iff)
    ultimately show ?thesis using matching_nth [OF True] by simp
  next
    case False
    then have ne: "?j \<noteq> length ents" using k by simp
    then have e: "rl_ents l' = take ?n (rl_ents l) @ drop ?j ents" using ents by (simp add: appended_def Let_def)
    have i: "Suc index + k - Suc (rl_base l) = ?n + (k - ?j)" using False base by simp
    have "rl_ents l' ! (?n + (k - ?j)) = ents ! k" using nle False k by (simp add: e nth_append)
    moreover have "Suc index + k \<le> lastIndex l'"
      using lastIndex_eq [OF inv'] len ne fr base k False by simp
    moreover have "rl_base l' < Suc index + k" using fr base by simp
    ultimately have "rl_term l' (Suc index + k) = e_Term (rl_ents l' ! (Suc index + k - Suc (rl_base l')))"
      unfolding rl_term_def by simp
    then show ?thesis using \<open>rl_ents l' ! (?n + (k - ?j)) = ents ! k\<close> by (simp only: fr(1) i)
  qed
qed

text \<open>Whatever is appended, the committed prefix stays as it is.\<close>

lemma maybeAppend_committed:
  assumes inv: "log_inv l" and es: "contiguous index ents" and bound: "index + length ents < 2 ^ 64"
    and ret: "maybeAppend l index logTerm committed ents = Some (r, l')"
  shows "log_inv l'" and "same_frame l l'" and "rl_committed l \<le> rl_committed l'"
    and "take (rl_committed l - rl_base l) (rl_ents l') = take (rl_committed l - rl_base l) (rl_ents l)"
proof -
  let ?n = "rl_committed l - rl_base l"
  have v: "view_inv l" using inv by (simp add: log_inv_def)
  have "log_inv l' \<and> same_frame l l' \<and> rl_committed l \<le> rl_committed l' \<and>
      take ?n (rl_ents l') = take ?n (rl_ents l)"
  proof (cases "rl_term l index = logTerm")
    case False
    then show ?thesis using ret inv by (simp add: maybeAppend_reject same_frame_def)
  next
    case True
    let ?j = "matching l ents"
    obtain l1 where l1: "log_inv l1" "same_frame l l1" "rl_committed l1 = rl_committed l"
        "take ?n (rl_ents l1) = take ?n (rl_ents l)"
        "commitTo l1 (min committed (add64 index (length ents))) = Some l'"
    proof (cases "?j = length ents")
      case True
      then show ?thesis using that [of l] ret inv \<open>rl_term l index = logTerm\<close>
        by (auto simp: maybeAppend_def Let_def matchTerm_eq [OF v] findConflict_eq [OF v] same_frame_def
            split: Option.bind_splits)
    next
      case False
      then have lt: "?j < length ents" using matching_le [of l ents] by simp
      have idx: "e_Index (ents ! ?j) = Suc (index + ?j)" using es lt by (simp add: contiguous_iff)
      have d: "contiguous (index + ?j) (drop ?j ents)" "drop ?j ents \<noteq> []"
        using es lt by (auto intro: contiguous_drop)
      have "add64 index 1 = Suc index" using bound lt by simp
      then have gs: "goSlice ents (sub64 (Suc (index + ?j)) (add64 index 1)) (length ents) = Some (drop ?j ents)"
        using lt by simp
      obtain li l2 where ap: "appendLog l (drop ?j ents) = Some (li, l2)"
          "commitTo l2 (min committed (add64 index (length ents))) = Some l'"
        using ret \<open>rl_term l index = logTerm\<close> idx lt gs
        by (auto simp: maybeAppend_def Let_def matchTerm_eq [OF v] findConflict_eq [OF v] split: Option.bind_splits if_splits)
      note ge = appendLog_Some [OF inv d ap(1)]
      obtain l3 where l3: "appendLog l (drop ?j ents) = Some (index + ?j + length (drop ?j ents), l3)" "log_inv l3"
          "same_frame l l3" "rl_committed l3 = rl_committed l"
          "rl_ents l3 = take (index + ?j - rl_base l) (rl_ents l) @ drop ?j ents"
        using appendLog_ok [OF inv d ge] by blast
      have "take ?n (rl_ents l3) = take ?n (rl_ents l)"
        using l3(5) ge lastIndex_eq [OF v] log_invD(2) [OF inv] by (simp add: min_def)
      then show ?thesis using that [of l3] l3 ap by simp
    qed
    from commitTo_Some [OF l1(1,5)] l1 show ?thesis by (auto simp: same_frame_def)
  qed
  then show "log_inv l'" "same_frame l l'" "rl_committed l \<le> rl_committed l'"
    "take ?n (rl_ents l') = take ?n (rl_ents l)" by auto
qed

subsection \<open>Reading what is committed\<close>

text \<open>The entries handed out for execution start right after the applied ones and are all committed.\<close>

lemma nextEnts_ok:
  assumes "log_inv l"
  shows "\<exists>es. nextEnts l = Some es \<and> (es \<noteq> [] \<longleftrightarrow> hasNextEnts l) \<and>
    contiguous (max (rl_applied l) (rl_base l)) es \<and>
    max (rl_applied l) (rl_base l) + length es \<le> rl_committed l"
proof (cases "hasNextEnts l")
  case False
  then show ?thesis using log_invD [OF assms] by (auto simp: nextEnts_def hasNextEnts_def Let_def)
next
  case True
  let ?off = "max (rl_applied l + 1) (firstIndex l)"
  have v: "view_inv l" and c: "rl_committed l \<le> lastIndex l" using assms by (simp_all add: log_inv_def)
  have off: "rl_base l < ?off" "?off < rl_committed l + 1" "rl_committed l + 1 \<le> Suc (lastIndex l)"
    using True c by (auto simp: firstIndex_eq hasNextEnts_def Let_def)
  obtain es where es: "sliceLog l ?off (rl_committed l + 1) (rl_maxNextEntsSize l) = Some (Inr es)"
    using rlog.range_ok [OF v off] by blast
  have "es \<noteq> []" "contiguous (?off - 1) es" "length es \<le> rl_committed l + 1 - ?off"
    using rlog.range_contiguous [OF v off es] by auto
  moreover have "?off - 1 = max (rl_applied l) (rl_base l)" by (simp add: firstIndex_eq max_def)
  moreover have "nextEnts l = Some es"
    using es off(2) by (simp add: nextEnts_def Let_def)
  ultimately show ?thesis using off True by auto
qed

lemma nextEnts_range:
  assumes "log_inv l"
  defines "a \<equiv> max (rl_applied l) (rl_base l)"
  shows "nextEnts l = Some (limitSize (take (rl_committed l - a) (drop (a - rl_base l) (rl_ents l))) (rl_maxNextEntsSize l))"
    and "hasNextEnts l \<longleftrightarrow> a < rl_committed l"
proof -
  have v: "view_inv l" and c: "rl_committed l \<le> lastIndex l" using assms(1) by (simp_all add: log_inv_def)
  show has: "hasNextEnts l \<longleftrightarrow> a < rl_committed l" by (auto simp: hasNextEnts_def firstIndex_eq a_def Let_def)
  have off: "max (rl_applied l + 1) (firstIndex l) = Suc a" by (simp add: a_def firstIndex_eq max_def)
  show "nextEnts l = Some (limitSize (take (rl_committed l - a) (drop (a - rl_base l) (rl_ents l))) (rl_maxNextEntsSize l))"
  proof (cases "a < rl_committed l")
    case True
    have "rl_base l < Suc a" by (simp add: a_def)
    then show ?thesis unfolding nextEnts_def off Let_def
      using sliceLog_ok [OF v, of "Suc a" "rl_committed l + 1"] True c by simp
  next
    case False
    then show ?thesis unfolding nextEnts_def off Let_def by (simp add: limitSize_def)
  qed
qed

lemma l_restore_ok:
  assumes "ms_inv (rl_storage l)" and "snapIndex s < 2 ^ 63" and "rl_applied l \<le> snapIndex s"
  shows "log_inv (l_restore l s)" "rl_ents (l_restore l s) = []" "rl_base (l_restore l s) = snapIndex s"
    "rl_bterm (l_restore l s) = snapTerm s" "lastIndex (l_restore l s) = snapIndex s"
  using assms by (auto simp: log_inv_def l_restore_def u_restore_def view_simps lastIndex_def maybeLastIndex_def)

subsection \<open>Handing entries to the storage\<close>

text \<open>
  The application writes the unstable entries to the storage and then reports them stable: the log
  it represents does not change, and nothing is left unstable.
\<close>

definition persist :: "raftLog \<Rightarrow> raftLog option" where
  "persist l =
     do { st \<leftarrow> Append (rl_storage l) (unstableEntries l);
          let l1 = l\<lparr>rl_storage := st\<rparr>;
          (case unstableEntries l of
             [] \<Rightarrow> Some l1
           | e # es \<Rightarrow> stableTo l1 (e_Index (List.last (e # es))) (e_Term (List.last (e # es)))) }"

lemma persist_ok:
  assumes inv: "log_inv l" and nosnap: "us_snapshot (rl_unstable l) = None" and bound: "lastIndex l < 2 ^ 63"
  shows "\<exists>l'. persist l = Some l' \<and> log_inv l' \<and> rl_ents l' = rl_ents l \<and> unstableEntries l' = [] \<and>
    rl_base l' = rl_base l \<and> rl_bterm l' = rl_bterm l \<and> rl_committed l' = rl_committed l \<and>
    rl_applied l' = rl_applied l \<and> ms_rest (rl_storage l') = rl_ents l"
proof -
  let ?u = "rl_unstable l"
  let ?es = "us_entries ?u"
  define b where "b = us_offset ?u - 1"
  have v: "view_inv l" using inv by (simp add: log_inv_def)
  have off: "us_offset ?u = Suc b" "b = rl_base l + length (rl_stored l)"
    using offset_eq [OF v] by (simp_all add: b_def)
  have ms: "ms_inv (rl_storage l)" "ms_base (rl_storage l) = rl_base l" "ms_bterm (rl_storage l) = rl_bterm l"
    "contiguous b ?es" "ms_base (rl_storage l) \<le> b" "b \<le> ms_lastIndex (rl_storage l)"
    using v nosnap off(1) by (auto simp: view_inv_def rl_base_def rl_bterm_def)
  have len: "lastIndex l = b + length ?es" using lastIndex_eq [OF v] off(2) by (simp add: rl_ents_def)
  then obtain st where st: "Append (rl_storage l) ?es = Some st" "ms_inv st" "ms_base st = rl_base l"
      "ms_bterm st = rl_bterm l"
      "ms_rest st = (if ?es = [] then ms_rest (rl_storage l) else take (b - rl_base l) (ms_rest (rl_storage l)) @ ?es)"
    using Append_ok [OF ms(1,4,5,6)] bound ms(2,3) by auto
  have rest: "ms_rest st = rl_ents l"
  proof (cases "?es = []")
    case True
    then have "us_offset ?u = Suc (ms_lastIndex (rl_storage l))" using v nosnap by (simp add: view_inv_def)
    then show ?thesis using True st(5) nosnap ms(2) by (simp add: rl_ents_def rl_stored_def ms_lastIndex_eq)
  next
    case False
    then show ?thesis using st(5) nosnap off(1) ms(2) by (simp add: rl_ents_def rl_stored_def)
  qed
  let ?l1 = "l\<lparr>rl_storage := st\<rparr>"
  define u' where "u' = \<lparr>us_snapshot = None, us_entries = [], us_offset = Suc (b + length ?es)\<rparr>"
  have u'eq: "u_stableTo ?u (e_Index (List.last ?es)) (e_Term (List.last ?es)) = Some u'" if "?es \<noteq> []"
  proof -
    have "e_Index (List.last ?es) = b + length ?es"
      using ms(4) that by (simp add: last_conv_nth contiguous_iff)
    then have "maybeTerm ?u (e_Index (List.last ?es)) = Some (Some (e_Term (List.last ?es)))"
      using maybeTerm_unstable [OF v, of "b + length ?es"] off(1) len that
      by (simp add: last_conv_nth Suc_leI)
    then show ?thesis using that \<open>e_Index (List.last ?es) = b + length ?es\<close> off(1) nosnap
      by (simp add: u_stableTo_def shrinkEntriesArray_def u'_def Suc_leI)
  qed
  have pers: "persist l = Some (l\<lparr>rl_storage := st, rl_unstable := u'\<rparr>)"
  proof (cases ?es)
    case Nil
    then have "?u = u'" using off(1) nosnap by (simp add: u'_def)
    then show ?thesis using st(1) Nil by (simp add: persist_def unstableEntries_def)
  next
    case (Cons e es)
    then show ?thesis using st(1) u'eq by (simp add: persist_def unstableEntries_def stableTo_def)
  qed
  let ?l' = "l\<lparr>rl_storage := st, rl_unstable := u'\<rparr>"
  have "length (rl_ents l) = b + length ?es - rl_base l" using len lastIndex_eq [OF v] by simp
  moreover have "rl_stored ?l' = take (b + length ?es - rl_base l) (ms_rest st)"
    using st(3) by (simp add: rl_stored_def u'_def)
  ultimately have v': "view_inv ?l'" and e': "rl_ents ?l' = rl_ents l"
    using st(2,3) rest off(2) len
    by (simp_all add: view_inv_def u'_def ms_lastIndex_eq, simp add: rl_ents_def)
  have b': "rl_base ?l' = rl_base l" "rl_bterm ?l' = rl_bterm l"
  proof -
    have "rl_base ?l' = ms_base st" "rl_bterm ?l' = ms_bterm st" by (simp_all add: rl_base_def rl_bterm_def u'_def)
    then show "rl_base ?l' = rl_base l" "rl_bterm ?l' = rl_bterm l" using st(3,4) by simp_all
  qed
  have "log_inv ?l'"
    using inv v' e' b' by (simp add: log_inv_def lastIndex_eq [OF v'] lastIndex_eq [OF v])
  then show ?thesis using pers e' b' rest by (auto simp: unstableEntries_def u'_def)
qed

end
