(* ===== verification/Quorum.thy ===== *)
theory Quorum
  imports GoPrelude "HOL-Library.Multiset"
begin

text \<open>
  The package \<open>glee-etcd/raft/quorum\<close>: majority and joint configurations, the commit index a
  configuration has reached and the result of a vote, with the in-place insertion sort they use.
  A Go \<open>map[uint64]struct{}\<close> is an optional finite set: \<open>None\<close> is the nil map, which reads as the
  empty one.
\<close>

type_synonym idset = "nat fset option"

definition ids :: "idset \<Rightarrow> nat fset" where
  "ids c = (case c of None \<Rightarrow> {||} | Some s \<Rightarrow> s)"

lemma ids_simps [simp]: "ids None = {||}" "ids (Some s) = s"
  by (simp_all add: ids_def)

type_synonym majorityConfig = idset
type_synonym jointConfig = "majorityConfig \<times> majorityConfig"

text \<open>The interface \<open>AckedIndexer\<close> is its one method: the index a voter acknowledged, if any.\<close>

type_synonym ackedIndexer = "nat \<Rightarrow> nat option"

datatype voteResult = VotePending | VoteLost | VoteWon

subsection \<open>The insertion sort\<close>

text \<open>The inner loop moves \<open>sl[j]\<close> down while it is smaller than its left neighbour.\<close>

fun sift :: "nat list \<Rightarrow> nat \<Rightarrow> nat list" where
  "sift sl 0 = sl"
| "sift sl (Suc j) =
     (if sl ! Suc j < sl ! j then sift (sl[Suc j := sl ! j, j := sl ! Suc j]) j else sl)"

function insertionSortFrom :: "nat \<Rightarrow> nat list \<Rightarrow> nat list" where
  "insertionSortFrom i sl =
     (if i < length sl then insertionSortFrom (Suc i) (sift sl i) else sl)"
  by pat_completeness auto

lemma length_sift [simp]: "length (sift sl j) = length sl"
  by (induction sl j rule: sift.induct) auto

termination insertionSortFrom
  by (relation "measure (\<lambda>(i, sl). length sl - i)") auto

declare insertionSortFrom.simps [simp del]

definition insertionSort :: "nat list \<Rightarrow> nat list" where
  "insertionSort sl = insertionSortFrom 1 sl"

lemma mset_sift: "j < length sl \<Longrightarrow> mset (sift sl j) = mset sl"
proof (induction sl j rule: sift.induct)
  case (2 sl j)
  then show ?case
    using mset_swap [of "Suc j" sl j] by (auto simp: list_update_swap)
qed simp

lemma sift_drop: "j < length sl \<Longrightarrow> drop (Suc j) (sift sl j) = drop (Suc j) sl"
proof (induction sl j rule: sift.induct)
  case (2 sl j)
  then show ?case
  proof (cases "sl ! Suc j < sl ! j")
    case True
    have "drop (Suc (Suc j)) (sift (sl[Suc j := sl ! j, j := sl ! Suc j]) j) =
        drop (Suc 0) (drop (Suc j) (sift (sl[Suc j := sl ! j, j := sl ! Suc j]) j))"
      by simp
    also have "\<dots> = drop (Suc 0) (drop (Suc j) (sl[Suc j := sl ! j, j := sl ! Suc j]))"
      using 2 True by simp
    finally show ?thesis using True by simp
  qed simp
qed simp

text \<open>The prefix up to \<open>j\<close> is sorted but for its last element; moving it down sorts it.\<close>

definition sortedBelow :: "nat list \<Rightarrow> nat \<Rightarrow> nat \<Rightarrow> bool" where
  "sortedBelow sl j k \<longleftrightarrow> (\<forall>a b. a < b \<longrightarrow> b \<le> k \<longrightarrow> b \<noteq> j \<longrightarrow> a \<noteq> j \<longrightarrow> sl ! a \<le> sl ! b)
     \<and> (\<forall>b. j < b \<longrightarrow> b \<le> k \<longrightarrow> sl ! j \<le> sl ! b)"

lemma sift_sorted:
  "k < length sl \<Longrightarrow> j \<le> k \<Longrightarrow> sortedBelow sl j k \<Longrightarrow>
     a < b \<Longrightarrow> b \<le> k \<Longrightarrow> sift sl j ! a \<le> sift sl j ! b"
proof (induction sl j arbitrary: a b rule: sift.induct)
  case (1 sl)
  then show ?case by (cases a) (auto simp: sortedBelow_def)
next
  case (2 sl j)
  show ?case
  proof (cases "sl ! Suc j < sl ! j")
    case True
    let ?sl = "sl[Suc j := sl ! j, j := sl ! Suc j]"
    have nth: "?sl ! x = (if x = j then sl ! Suc j else if x = Suc j then sl ! j else sl ! x)"
      if "x \<le> k" for x
      using that 2(2,3) by (auto simp: nth_list_update)
    have below: "sortedBelow ?sl j k"
      unfolding sortedBelow_def
    proof (intro conjI allI impI)
      fix a b assume ab: "a < b" "b \<le> k" "b \<noteq> j" "a \<noteq> j"
      show "?sl ! a \<le> ?sl ! b"
        using ab nth [of a] nth [of b] 2(3,4) by (auto simp: sortedBelow_def)
    next
      fix b assume b: "j < b" "b \<le> k"
      show "?sl ! j \<le> ?sl ! b"
        using b nth [of j] nth [of b] 2(3,4) True
        by (cases "b = Suc j") (auto simp: sortedBelow_def)
    qed
    have "sift ?sl j ! a \<le> sift ?sl j ! b"
      using 2(1) [OF True _ _ below 2(5,6)] 2(2,3) by simp
    then show ?thesis using True by simp
  next
    case False
    then have ge: "sl ! j \<le> sl ! Suc j" by simp
    have "sl ! a \<le> sl ! b"
    proof (cases "b = Suc j")
      case True
      then have "a \<le> j" using 2(5) by simp
      then have "sl ! a \<le> sl ! j"
        using 2(3,4) by (cases "a = j") (auto simp: sortedBelow_def)
      with ge True show ?thesis by simp
    next
      case False
      then show ?thesis using 2(4,5,6) by (cases "a = Suc j") (auto simp: sortedBelow_def)
    qed
    with False show ?thesis by simp
  qed
qed

lemma insertionSortFrom_correct:
  assumes "\<And>a b. a < b \<Longrightarrow> b < i \<Longrightarrow> b < length sl \<Longrightarrow> sl ! a \<le> sl ! b"
  shows "sorted (insertionSortFrom i sl) \<and> mset (insertionSortFrom i sl) = mset sl"
  using assms
proof (induction i sl rule: insertionSortFrom.induct)
  case (1 i sl)
  show ?case
  proof (cases "i < length sl")
    case True
    have below: "sortedBelow sl i i"
      using 1(2) True by (auto simp: sortedBelow_def)
    have "sift sl i ! a \<le> sift sl i ! b" if "a < b" "b < Suc i" for a b
      using sift_sorted [OF True le_refl below] that by simp
    then have "sorted (insertionSortFrom (Suc i) (sift sl i)) \<and>
        mset (insertionSortFrom (Suc i) (sift sl i)) = mset (sift sl i)"
      using 1(1) [OF True] by blast
    then show ?thesis
      using True by (simp add: insertionSortFrom.simps [of i sl] mset_sift)
  next
    case False
    then show ?thesis
      using 1(2) by (auto simp: insertionSortFrom.simps [of i sl] sorted_iff_nth_mono_less)
  qed
qed

lemma insertionSort_sort: "insertionSort sl = sort sl"
proof -
  have "sorted (insertionSort sl) \<and> mset (insertionSort sl) = mset sl"
    unfolding insertionSort_def by (rule insertionSortFrom_correct) simp
  then show ?thesis by (metis properties_for_sort)
qed


subsection \<open>Majority configurations\<close>

definition SliceIds :: "majorityConfig \<Rightarrow> nat list" where
  "SliceIds c = sorted_list_of_fset (ids c)"

text \<open>
  The loop of \<open>CommittedIndex\<close> that fills the zeroed slice from the right with the indexes of the
  voters that have acknowledged one. Go iterates over a map in an unspecified order; the loop takes
  the order as its list argument, and \<open>CommittedIndexFrom_perm\<close> shows that it does not matter.
\<close>

fun fillAcked :: "ackedIndexer \<Rightarrow> nat list \<Rightarrow> int \<Rightarrow> nat list \<Rightarrow> nat list" where
  "fillAcked l [] i srt = srt"
| "fillAcked l (v # rest) i srt =
     (case l v of
        Some idx \<Rightarrow> fillAcked l rest (i - 1) (srt[nat i := idx])
      | None \<Rightarrow> fillAcked l rest i srt)"

definition CommittedIndexFrom :: "nat list \<Rightarrow> ackedIndexer \<Rightarrow> nat" where
  "CommittedIndexFrom order l =
     (let n = length order in
      if n = 0 then MaxUint64
      else let srt = insertionSort (fillAcked l order (int n - 1) (replicate n 0));
               pos = n - (n div 2 + 1)
           in srt ! pos)"

definition CommittedIndex :: "majorityConfig \<Rightarrow> ackedIndexer \<Rightarrow> nat" where
  "CommittedIndex c l = CommittedIndexFrom (SliceIds c) l"

text \<open>The counting loop of \<open>VoteResult\<close>: votes for no and yes, and voters yet to vote.\<close>

fun countVotes :: "(nat, bool) fmap \<Rightarrow> nat list \<Rightarrow> nat \<times> nat \<times> nat \<Rightarrow> nat \<times> nat \<times> nat" where
  "countVotes votes [] acc = acc"
| "countVotes votes (v # rest) (no, yes, missing) =
     (case fmlookup votes v of
        None \<Rightarrow> countVotes votes rest (no, yes, missing + 1)
      | Some b \<Rightarrow> if b then countVotes votes rest (no, yes + 1, missing)
                  else countVotes votes rest (no + 1, yes, missing))"

definition VoteResultFrom :: "nat list \<Rightarrow> (nat, bool) fmap \<Rightarrow> voteResult" where
  "VoteResultFrom order votes =
     (if length order = 0 then VoteWon
      else case countVotes votes order (0, 0, 0) of (no, yes, missing) \<Rightarrow>
        let q = length order div 2 + 1 in
        if yes \<ge> q then VoteWon
        else if yes + missing \<ge> q then VotePending
        else VoteLost)"

definition VoteResult :: "majorityConfig \<Rightarrow> (nat, bool) fmap \<Rightarrow> voteResult" where
  "VoteResult c votes = VoteResultFrom (SliceIds c) votes"

subsection \<open>Joint configurations\<close>

definition JointIDs :: "jointConfig \<Rightarrow> nat fset" where
  "JointIDs c = ids (fst c) |\<union>| ids (snd c)"

definition JointCommittedIndex :: "jointConfig \<Rightarrow> ackedIndexer \<Rightarrow> nat" where
  "JointCommittedIndex c l =
     (let idx0 = CommittedIndex (fst c) l; idx1 = CommittedIndex (snd c) l
      in if idx0 < idx1 then idx0 else idx1)"

definition JointVoteResult :: "jointConfig \<Rightarrow> (nat, bool) fmap \<Rightarrow> voteResult" where
  "JointVoteResult c votes =
     (let r1 = VoteResult (fst c) votes; r2 = VoteResult (snd c) votes in
      if r1 = r2 then r1
      else if r1 = VoteLost \<or> r2 = VoteLost then VoteLost
      else VotePending)"

subsection \<open>What the commit index is\<close>

lemma mset_fillAcked:
  assumes "int (length done) = int n - 1 - i" and "length ids' \<le> nat (i + 1)" and "-1 \<le> i"
  shows "mset (fillAcked l ids' i (replicate (nat (i + 1)) 0 @ done)) =
    mset done + mset (List.map_filter l ids') +
    replicate_mset (nat (i + 1) - length (List.map_filter l ids')) 0"
  using assms
proof (induction ids' arbitrary: i "done")
  case Nil
  then show ?case by (simp add: List.map_filter_def)
next
  case (Cons a as)
  show ?case
  proof (cases "l a")
    case None
    then show ?thesis using Cons by (simp add: List.map_filter_simps)
  next
    case (Some idx)
    have i0: "0 \<le> i" using Cons.prems(2) by simp
    then have upd: "(replicate (nat (i + 1)) 0 @ done)[nat i := idx] =
        replicate (nat (i - 1 + 1)) 0 @ (idx # done)"
      by (simp add: nat_add_distrib list_update_append replicate_append_same [symmetric])
    have "mset (fillAcked l as (i - 1) (replicate (nat (i - 1 + 1)) 0 @ (idx # done))) =
      mset (idx # done) + mset (List.map_filter l as) +
      replicate_mset (nat (i - 1 + 1) - length (List.map_filter l as)) 0"
      using Cons.prems i0 by (intro Cons.IH) auto
    moreover have "nat (i + 1) - Suc (length (List.map_filter l as)) =
        nat (i - 1 + 1) - length (List.map_filter l as)"
      using i0 by simp
    ultimately show ?thesis
      using Some upd by (simp add: List.map_filter_simps)
  qed
qed

lemma length_map_filter_le: "length (List.map_filter f xs) \<le> length xs"
  by (induction xs) (auto simp: List.map_filter_simps split: option.splits)

lemma count_map_filter:
  "length (filter P (List.map_filter l xs)) = length (filter (\<lambda>v. case l v of Some x \<Rightarrow> P x | None \<Rightarrow> False) xs)"
  by (induction xs) (auto simp: List.map_filter_simps split: option.splits)

lemma filter_zeros: "0 < (i::nat) \<Longrightarrow> filter_mset (\<lambda>x. i \<le> x) (replicate_mset k 0) = {#}"
  by (induction k) auto

lemma CommittedIndexFrom_ge_iff:
  assumes "order \<noteq> []" and "0 < i"
  shows "i \<le> CommittedIndexFrom order l \<longleftrightarrow>
    length order div 2 + 1 \<le> length (filter (\<lambda>v. case l v of Some x \<Rightarrow> i \<le> x | None \<Rightarrow> False) order)"
proof -
  let ?n = "length order" and ?f = "List.map_filter l order"
  let ?srt = "fillAcked l order (int ?n - 1) (replicate ?n 0)"
  have ms: "mset ?srt = mset ?f + replicate_mset (?n - length ?f) 0"
    using mset_fillAcked [of "[]" ?n "int ?n - 1" order l] by simp
  have "size (mset ?srt) = ?n"
    using length_map_filter_le [of l order] by (simp add: ms)
  then have len: "length ?srt = ?n" by simp
  have "mset (filter (\<lambda>x. i \<le> x) (sort ?srt)) = filter_mset (\<lambda>x. i \<le> x) (mset ?srt)"
    by (metis mset_filter mset_sort)
  also have "\<dots> = filter_mset (\<lambda>x. i \<le> x) (mset ?f)"
    using assms(2) by (simp add: ms filter_zeros)
  finally have "length (filter (\<lambda>x. i \<le> x) (sort ?srt)) = length (filter (\<lambda>x. i \<le> x) ?f)"
    by (metis mset_filter size_mset)
  moreover have "?n - (?n div 2 + 1) < length (sort ?srt)" using assms(1) len by simp
  then have "i \<le> sort ?srt ! (?n - (?n div 2 + 1)) \<longleftrightarrow>
      length (sort ?srt) - (?n - (?n div 2 + 1)) \<le> length (filter (\<lambda>x. i \<le> x) (sort ?srt))"
    by (intro sorted_nth_ge_iff) simp_all
  moreover have "?n - (?n - (?n div 2 + 1)) = ?n div 2 + 1"
    using assms(1) by (cases order) auto
  ultimately show ?thesis
    using assms(1) len by (simp add: CommittedIndexFrom_def Let_def insertionSort_sort count_map_filter)
qed

text \<open>The same result from any order of the voters.\<close>

lemma CommittedIndexFrom_perm:
  assumes "mset order = mset order'"
  shows "CommittedIndexFrom order l = CommittedIndexFrom order' l"
proof (cases "order = []")
  case True
  then show ?thesis using assms by simp
next
  case False
  then have False': "order' \<noteq> []" using assms by auto
  have len: "length order = length order'" by (metis assms size_mset)
  have filt: "length (filter P order) = length (filter P order')" for P
    by (metis assms mset_filter size_mset)
  have "i \<le> CommittedIndexFrom order l \<longleftrightarrow> i \<le> CommittedIndexFrom order' l" for i
    by (cases "i = 0") (simp_all add: CommittedIndexFrom_ge_iff [OF False] CommittedIndexFrom_ge_iff [OF False'] filt len)
  then show ?thesis by (metis order_antisym order_refl)
qed

definition acked :: "ackedIndexer \<Rightarrow> nat \<Rightarrow> nat set" where
  "acked l i = {v. \<exists>x. l v = Some x \<and> i \<le> x}"

definition yes_votes :: "(nat, bool) fmap \<Rightarrow> nat set" where
  "yes_votes votes = {v. fmlookup votes v = Some True}"

definition no_votes :: "(nat, bool) fmap \<Rightarrow> nat set" where
  "no_votes votes = {v. fmlookup votes v = Some False}"

text \<open>The specification of a quorum: a strict majority of the voters; the empty configuration has
  every set as its quorum, which is what lets it stand for an absent half of a joint one.\<close>

definition is_quorum :: "majorityConfig \<Rightarrow> nat set \<Rightarrow> bool" where
  "is_quorum c A \<longleftrightarrow> ids c = {||} \<or> fcard (ids c) div 2 + 1 \<le> card (fset (ids c) \<inter> A)"

definition is_joint_quorum :: "jointConfig \<Rightarrow> nat set \<Rightarrow> bool" where
  "is_joint_quorum c A \<longleftrightarrow> is_quorum (fst c) A \<and> is_quorum (snd c) A"

lemma SliceIds_nonempty: "SliceIds c = [] \<longleftrightarrow> ids c = {||}"
proof -
  have "SliceIds c = [] \<longleftrightarrow> set (SliceIds c) = {}" by simp
  also have "\<dots> \<longleftrightarrow> fset (ids c) = {}" by (simp add: SliceIds_def)
  finally show ?thesis by (metis bot_fset.rep_eq fset_inject)
qed

lemma length_SliceIds [simp]: "length (SliceIds c) = fcard (ids c)"
  by (simp add: SliceIds_def)

lemma length_filter_SliceIds: "length (filter P (SliceIds c)) = card (fset (ids c) \<inter> {v. P v})"
  by (simp add: SliceIds_def length_filter_sorted_list_of_fset Int_def)

lemma CommittedIndex_ge_iff:
  assumes "ids c \<noteq> {||}" and "0 < i"
  shows "i \<le> CommittedIndex c l \<longleftrightarrow> is_quorum c (acked l i)"
proof -
  have "{v. case l v of Some x \<Rightarrow> i \<le> x | None \<Rightarrow> False} = acked l i"
    by (auto simp: acked_def split: option.splits)
  then show ?thesis
    using assms CommittedIndexFrom_ge_iff [of "SliceIds c" i l]
    by (simp add: CommittedIndex_def SliceIds_nonempty length_filter_SliceIds is_quorum_def)
qed

lemma CommittedIndex_empty: "ids c = {||} \<Longrightarrow> CommittedIndex c l = MaxUint64"
  by (simp add: CommittedIndex_def CommittedIndexFrom_def Let_def)

lemma JointCommittedIndex_min:
  "JointCommittedIndex c l = min (CommittedIndex (fst c) l) (CommittedIndex (snd c) l)"
  by (simp add: JointCommittedIndex_def Let_def)

lemma JointCommittedIndex_ge_iff:
  assumes "JointIDs c \<noteq> {||}" and "0 < i" and "i \<le> MaxUint64"
  shows "i \<le> JointCommittedIndex c l \<longleftrightarrow> is_joint_quorum c (acked l i)"
proof -
  have half: "i \<le> CommittedIndex d l \<longleftrightarrow> is_quorum d (acked l i)" for d
  proof (cases "ids d = {||}")
    case True
    then show ?thesis using assms(3) by (simp add: CommittedIndex_empty is_quorum_def)
  next
    case False
    then show ?thesis using assms(2) by (rule CommittedIndex_ge_iff)
  qed
  then show ?thesis by (simp add: JointCommittedIndex_min is_joint_quorum_def)
qed

subsection \<open>What a vote result is\<close>

lemma countVotes_lengths:
  "countVotes votes order (no, yes, missing) =
     (no + length (filter (\<lambda>v. fmlookup votes v = Some False) order),
      yes + length (filter (\<lambda>v. fmlookup votes v = Some True) order),
      missing + length (filter (\<lambda>v. fmlookup votes v = None) order))"
proof (induction order arbitrary: no yes missing)
  case (Cons a order)
  then show ?case by (cases "fmlookup votes a") auto
qed simp

lemma card_disjoint_cover:
  assumes "finite S" and "A \<inter> B = {}"
  shows "card (S \<inter> (A \<union> B)) = card (S \<inter> A) + card (S \<inter> B)"
  using assms by (subst Int_Un_distrib, intro card_Un_disjoint) auto

lemma VoteResult_spec:
  "VoteResult c votes =
     (if is_quorum c (yes_votes votes) then VoteWon
      else if is_quorum c (- no_votes votes) then VotePending
      else VoteLost)"
proof (cases "ids c = {||}")
  case True
  then show ?thesis by (simp add: VoteResult_def VoteResultFrom_def is_quorum_def)
next
  case False
  let ?S = "fset (ids c)" and ?miss = "{v. fmlookup votes v = None}"
  have cover: "- no_votes votes = yes_votes votes \<union> ?miss"
      by (auto simp: yes_votes_def no_votes_def)
  have "yes_votes votes \<inter> ?miss = {}" by (auto simp: yes_votes_def)
  then have "card (?S \<inter> - no_votes votes) = card (?S \<inter> yes_votes votes) + card (?S \<inter> ?miss)"
    unfolding cover by (intro card_disjoint_cover) simp_all
  then show ?thesis
    using False
    by (simp add: VoteResult_def VoteResultFrom_def countVotes_lengths length_filter_SliceIds
        is_quorum_def yes_votes_def)
qed

lemma is_quorum_mono: "is_quorum c A \<Longrightarrow> A \<subseteq> B \<Longrightarrow> is_quorum c B"
  unfolding is_quorum_def
  by (meson Int_mono card_mono finite_Int finite_fset le_trans subset_refl)

lemma VoteResult_won_iff: "VoteResult c votes = VoteWon \<longleftrightarrow> is_quorum c (yes_votes votes)"
  by (simp add: VoteResult_spec)

lemma yes_not_no: "yes_votes votes \<subseteq> - no_votes votes"
  by (auto simp: yes_votes_def no_votes_def)

lemma VoteResult_lost_iff: "VoteResult c votes = VoteLost \<longleftrightarrow> \<not> is_quorum c (- no_votes votes)"
  using is_quorum_mono [OF _ yes_not_no] by (auto simp: VoteResult_spec)

lemma JointVoteResult_spec:
  "JointVoteResult c votes =
     (if is_joint_quorum c (yes_votes votes) then VoteWon
      else if is_joint_quorum c (- no_votes votes) then VotePending
      else VoteLost)"
  using is_quorum_mono [OF _ yes_not_no]
  by (auto simp: JointVoteResult_def Let_def VoteResult_spec is_joint_quorum_def)

lemma JointVoteResult_won_iff:
  "JointVoteResult c votes = VoteWon \<longleftrightarrow> is_joint_quorum c (yes_votes votes)"
  by (simp add: JointVoteResult_spec)

subsection \<open>The interface of a quorum system\<close>

text \<open>
  What elections and commitment rely on: supersets of quorums are quorums, and two quorums of a
  populated configuration share a voter. Both kinds of configuration provide it.
\<close>

locale quorum_system =
  fixes populated :: "'c \<Rightarrow> bool" and quorum :: "'c \<Rightarrow> nat set \<Rightarrow> bool"
  assumes quorum_mono: "quorum c A \<Longrightarrow> A \<subseteq> B \<Longrightarrow> quorum c B"
    and quorum_intersect: "populated c \<Longrightarrow> quorum c A \<Longrightarrow> quorum c B \<Longrightarrow> A \<inter> B \<noteq> {}"
begin

text \<open>At most one candidate is elected by voters that each vote once.\<close>

lemma unique_winner:
  assumes "populated c" and "quorum c {v. vote v = Some a}" and "quorum c {v. vote v = Some b}"
  shows "a = b"
  using quorum_intersect [OF assms] by auto

lemma quorum_nonempty: "populated c \<Longrightarrow> quorum c A \<Longrightarrow> A \<noteq> {}"
  using quorum_intersect by blast

text \<open>Refusals and grants cannot both reach a quorum.\<close>

lemma not_both: "populated c \<Longrightarrow> quorum c A \<Longrightarrow> \<not> quorum c (- A)"
  using quorum_intersect by blast

end

lemma is_quorum_common:
  assumes "ids c \<noteq> {||}" and "is_quorum c A" and "is_quorum c B"
  shows "\<exists>v. v |\<in>| ids c \<and> v \<in> A \<and> v \<in> B"
proof (rule ccontr)
  let ?S = "fset (ids c)"
  assume "\<not> ?thesis"
  then have disj: "(?S \<inter> A) \<inter> (?S \<inter> B) = {}" by auto
  then have "card (?S \<inter> A) + card (?S \<inter> B) = card ((?S \<inter> A) \<union> (?S \<inter> B))"
    by (subst card_Un_disjoint) auto
  also have "\<dots> \<le> card ?S" by (intro card_mono) auto
  finally have "card (?S \<inter> A) + card (?S \<inter> B) \<le> fcard (ids c)" by (simp add: fcard.rep_eq)
  with assms show False by (simp add: is_quorum_def)
qed

lemma is_joint_quorum_common:
  assumes "JointIDs c \<noteq> {||}" and "is_joint_quorum c A" and "is_joint_quorum c B"
  shows "\<exists>v. v |\<in>| JointIDs c \<and> v \<in> A \<and> v \<in> B"
proof (cases "ids (fst c) = {||}")
  case True
  then have "ids (snd c) \<noteq> {||}" using assms(1) by (simp add: JointIDs_def)
  then show ?thesis
    using is_quorum_common [of "snd c" A B] assms(2,3) by (auto simp: is_joint_quorum_def JointIDs_def)
next
  case False
  then show ?thesis
    using is_quorum_common [of "fst c" A B] assms(2,3) by (auto simp: is_joint_quorum_def JointIDs_def)
qed

interpretation maj: quorum_system "\<lambda>c. ids c \<noteq> {||}" is_quorum
proof
  fix c A B assume "is_quorum c A" "A \<subseteq> B"
  then show "is_quorum c B" by (rule is_quorum_mono)
next
  fix c A B assume "ids c \<noteq> {||}" "is_quorum c A" "is_quorum c B"
  from is_quorum_common [OF this] show "A \<inter> B \<noteq> {}" by auto
qed

interpretation jnt: quorum_system "\<lambda>c. JointIDs c \<noteq> {||}" is_joint_quorum
proof
  fix c A B assume "is_joint_quorum c A" "A \<subseteq> B"
  then show "is_joint_quorum c B" unfolding is_joint_quorum_def using is_quorum_mono by metis
next
  fix c A B assume "JointIDs c \<noteq> {||}" "is_joint_quorum c A" "is_joint_quorum c B"
  from is_joint_quorum_common [OF this] show "A \<inter> B \<noteq> {}" by auto
qed

end
