(* ===== verification/InflightWindow.thy ===== *)
theory InflightWindow
  imports GoPrelude
begin

text \<open>
  \<open>glee-etcd/raft/tracker/inflights.go\<close>: the sliding window of append messages that are sent but not
  acknowledged, a ring buffer that grows on demand up to its size. The interface a window provides
  to the replication code is the locale \<open>inflight_window\<close>; the ring buffer is its interpretation,
  with the list of live indexes as its abstraction. An index outside the buffer is a panic (\<open>None\<close>).
\<close>

record inflights =
  in_start :: nat
  in_count :: nat
  in_size :: nat
  in_buffer :: "nat list"

definition NewInflights :: "nat \<Rightarrow> inflights" where
  "NewInflights sz = \<lparr>in_start = 0, in_count = 0, in_size = sz, in_buffer = []\<rparr>"

text \<open>\<open>Clone\<close> copies the buffer, which a value of the model always does.\<close>

definition CloneInflights :: "inflights \<Rightarrow> inflights" where
  "CloneInflights w = w"

definition FullInflights :: "inflights \<Rightarrow> bool" where
  "FullInflights w \<longleftrightarrow> in_count w = in_size w"

definition CountInflights :: "inflights \<Rightarrow> nat" where
  "CountInflights w = in_count w"

definition growInflights :: "inflights \<Rightarrow> inflights" where
  "growInflights w =
     (let newSize0 = length (in_buffer w) * 2;
          newSize = (if newSize0 = 0 then 1
                     else if newSize0 > in_size w then in_size w else newSize0)
      in w\<lparr>in_buffer := take newSize (in_buffer w) @ replicate (newSize - length (in_buffer w)) 0\<rparr>)"

definition AddInflights :: "inflights \<Rightarrow> nat \<Rightarrow> inflights option" where
  "AddInflights w x =
     (if FullInflights w then None
      else
        let next0 = in_start w + in_count w;
            nxt = (if next0 \<ge> in_size w then next0 - in_size w else next0);
            w1 = (if nxt \<ge> length (in_buffer w) then growInflights w else w)
        in if nxt < length (in_buffer w1)
           then Some (w1\<lparr>in_buffer := (in_buffer w1)[nxt := x], in_count := in_count w1 + 1\<rparr>)
           else None)"

text \<open>The loop of \<open>FreeLE\<close>; \<open>k\<close> is the number of inflights not looked at yet.\<close>

fun freeLoop :: "nat list \<Rightarrow> nat \<Rightarrow> nat \<Rightarrow> nat \<Rightarrow> nat \<Rightarrow> nat \<Rightarrow> (nat \<times> nat) option" where
  "freeLoop buf sz to idx i 0 = Some (i, idx)"
| "freeLoop buf sz to idx i (Suc k) =
     do { x \<leftarrow> goIndex buf idx;
          if to < x then Some (i, idx)
          else freeLoop buf sz to (if idx + 1 \<ge> sz then idx + 1 - sz else idx + 1) (i + 1) k }"

definition FreeLE :: "inflights \<Rightarrow> nat \<Rightarrow> inflights option" where
  "FreeLE w to =
     (if in_count w = 0 then Some w
      else do {
        first \<leftarrow> goIndex (in_buffer w) (in_start w);
        if to < first then Some w
        else do {
          (i, idx) \<leftarrow> freeLoop (in_buffer w) (in_size w) to (in_start w) 0 (in_count w);
          let count = in_count w - i;
          Some (w\<lparr>in_count := count, in_start := (if count = 0 then 0 else idx)\<rparr>) } })"

definition FreeFirstOne :: "inflights \<Rightarrow> inflights option" where
  "FreeFirstOne w = do { x \<leftarrow> goIndex (in_buffer w) (in_start w); FreeLE w x }"

definition resetInflights :: "inflights \<Rightarrow> inflights" where
  "resetInflights w = w\<lparr>in_count := 0, in_start := 0\<rparr>"

subsection \<open>The interface\<close>

locale inflight_window =
  fixes inv :: "'w \<Rightarrow> bool" and contents :: "'w \<Rightarrow> nat list" and cap :: "'w \<Rightarrow> nat"
    and full :: "'w \<Rightarrow> bool" and add :: "'w \<Rightarrow> nat \<Rightarrow> 'w option" and free :: "'w \<Rightarrow> nat \<Rightarrow> 'w option"
  assumes bound: "inv w \<Longrightarrow> length (contents w) \<le> cap w"
    and full_iff: "inv w \<Longrightarrow> full w \<longleftrightarrow> length (contents w) = cap w"
    and add_full: "full w \<Longrightarrow> add w x = None"
    and add_ok: "inv w \<Longrightarrow> \<not> full w \<Longrightarrow>
      \<exists>w'. add w x = Some w' \<and> inv w' \<and> contents w' = contents w @ [x] \<and> cap w' = cap w"
    and free_ok: "inv w \<Longrightarrow>
      \<exists>w'. free w to = Some w' \<and> inv w' \<and> contents w' = dropWhile (\<lambda>x. x \<le> to) (contents w)
        \<and> cap w' = cap w"
begin

lemma add_Some_iff: "inv w \<Longrightarrow> (\<exists>w'. add w x = Some w') \<longleftrightarrow> length (contents w) < cap w"
  using add_ok [of w x] add_full [of w x] bound [of w] full_iff [of w] by auto

lemma add_SomeD:
  assumes "inv w" and "add w x = Some w'"
  shows "inv w'" "contents w' = contents w @ [x]" "cap w' = cap w" "length (contents w) < cap w"
  using assms add_ok [of w x] add_full [of w x] bound [of w] full_iff [of w] by auto

lemma free_SomeD:
  assumes "inv w" and "free w to = Some w'"
  shows "inv w'" "contents w' = dropWhile (\<lambda>x. x \<le> to) (contents w)" "cap w' = cap w"
  using assms free_ok [of w to] by auto

text \<open>Sending a run of messages: it fits exactly when there is room for all of them.\<close>

lemma add_run:
  "inv w \<Longrightarrow> length (contents w) + length xs \<le> cap w \<Longrightarrow>
     \<exists>w'. foldM add w xs = Some w' \<and> inv w' \<and> contents w' = contents w @ xs \<and> cap w' = cap w"
proof (induction xs arbitrary: w)
  case (Cons x xs)
  then have "\<not> full w" by (simp add: full_iff)
  with Cons.prems(1) obtain w1 where w1: "add w x = Some w1" "inv w1"
    "contents w1 = contents w @ [x]" "cap w1 = cap w" using add_ok by blast
  have "\<exists>w'. foldM add w1 xs = Some w' \<and> inv w' \<and> contents w' = contents w1 @ xs \<and> cap w' = cap w1"
    using Cons.prems(2) w1 by (intro Cons.IH) auto
  then show ?case using w1 by auto
qed simp

text \<open>With indexes sent in order, an acknowledgement frees exactly the ones it covers.\<close>

lemma free_sorted:
  assumes "inv w" and "sorted (contents w)" and "free w to = Some w'"
  shows "contents w' = filter (\<lambda>x. to < x) (contents w)"
proof -
  have "dropWhile (\<lambda>x. x \<le> to) xs = filter (\<lambda>x. to < x) xs" if "sorted xs" for xs :: "nat list"
    using that
  proof (induction xs)
    case (Cons a xs)
    then show ?case
      by (cases "a \<le> to") (auto simp: filter_id_conv intro!: sym [OF filter_True])
  qed simp
  then show ?thesis using assms free_SomeD by metis
qed

end

subsection \<open>The ring buffer provides it\<close>

definition inflights_inv :: "inflights \<Rightarrow> bool" where
  "inflights_inv w \<longleftrightarrow> in_count w \<le> in_size w \<and> (in_count w = 0 \<longrightarrow> in_start w = 0) \<and> length (in_buffer w) \<le> in_size w \<and>
     (in_start w + in_count w \<le> length (in_buffer w) \<or>
      length (in_buffer w) = in_size w \<and> in_start w < in_size w)"

definition ring_contents :: "inflights \<Rightarrow> nat list" where
  "ring_contents w = map (\<lambda>k. in_buffer w ! ((in_start w + k) mod in_size w)) [0..<in_count w]"

lemma length_ring_contents [simp]: "length (ring_contents w) = in_count w"
  by (simp add: ring_contents_def)

lemma wrap_mod: "s \<le> m \<Longrightarrow> k < m \<Longrightarrow> (s + k) mod m = (if m \<le> s + k then s + k - m else (s + k :: nat))"
  by (simp add: le_mod_geq)

lemma live_index:
  assumes "inflights_inv w" and "k < in_count w"
  shows "(in_start w + k) mod in_size w < length (in_buffer w)"
proof (cases "in_start w + in_count w \<le> length (in_buffer w)")
  case True
  then have "(in_start w + k) mod in_size w = in_start w + k"
    using assms by (simp add: inflights_inv_def)
  then show ?thesis using True assms(2) by simp
next
  case False
  then have "length (in_buffer w) = in_size w" "in_start w < in_size w"
    using assms(1) by (auto simp: inflights_inv_def)
  then show ?thesis by simp
qed

lemma NewInflights_inv [simp]: "inflights_inv (NewInflights n)"
  by (simp add: inflights_inv_def NewInflights_def)

lemma NewInflights_contents [simp]: "ring_contents (NewInflights n) = []" "in_size (NewInflights n) = n"
  by (simp_all add: ring_contents_def NewInflights_def)

lemma resetInflights_inv [simp]: "inflights_inv w \<Longrightarrow> inflights_inv (resetInflights w)"
  by (auto simp: inflights_inv_def resetInflights_def)

lemma resetInflights_contents [simp]:
  "ring_contents (resetInflights w) = []" "in_size (resetInflights w) = in_size w"
  by (simp_all add: ring_contents_def resetInflights_def)

text \<open>One growth step makes room for the next slot and keeps what is live.\<close>

lemma grow_room:
  assumes "length (in_buffer w) < in_size w"
  shows "length (in_buffer w) < length (in_buffer (growInflights w))"
    and "length (in_buffer (growInflights w)) \<le> in_size w"
    and "i < length (in_buffer w) \<Longrightarrow> in_buffer (growInflights w) ! i = in_buffer w ! i"
  using assms by (auto simp: growInflights_def Let_def nth_append)

lemma grow_fields [simp]: "in_start (growInflights w) = in_start w"
  "in_count (growInflights w) = in_count w" "in_size (growInflights w) = in_size w"
  by (simp_all add: growInflights_def Let_def)

lemma AddInflights_ok:
  assumes inv: "inflights_inv w" and room: "\<not> FullInflights w"
  shows "\<exists>w'. AddInflights w x = Some w' \<and> inflights_inv w' \<and>
    ring_contents w' = ring_contents w @ [x] \<and> in_size w' = in_size w"
proof -
  define nxt where "nxt = (in_start w + in_count w) mod in_size w"
  define w1 where "w1 = (if nxt \<ge> length (in_buffer w) then growInflights w else w)"
  have cnt: "in_count w < in_size w" using inv room by (auto simp: inflights_inv_def FullInflights_def)
  have st: "in_start w \<le> in_size w" using inv by (auto simp: inflights_inv_def)
  have wrap: "nxt = (if in_size w \<le> in_start w + in_count w then in_start w + in_count w - in_size w
             else in_start w + in_count w)"
    unfolding nxt_def by (rule wrap_mod [OF st cnt])
  have le: "nxt \<le> length (in_buffer w)"
    using inv cnt wrap by (auto simp: inflights_inv_def split: if_splits)
  have nlt: "nxt < in_size w" unfolding nxt_def using cnt by simp
  have lt: "nxt < length (in_buffer w1)"
    using le nlt grow_room(1) [of w] by (cases "nxt = length (in_buffer w)") (auto simp: w1_def)
  have f1: "in_start w1 = in_start w" "in_count w1 = in_count w" "in_size w1 = in_size w"
    by (simp_all add: w1_def)
  have len1: "length (in_buffer w) \<le> length (in_buffer w1)" "length (in_buffer w1) \<le> in_size w"
    using inv grow_room(1,2) [of w] nlt le by (auto simp: w1_def inflights_inv_def)
  have old1: "in_buffer w1 ! i = in_buffer w ! i" if "i < length (in_buffer w)" for i
    using that grow_room(3) [of w] nlt le by (auto simp: w1_def)
  let ?w' = "w1\<lparr>in_buffer := (in_buffer w1)[nxt := x], in_count := in_count w1 + 1\<rparr>"
  have add: "AddInflights w x = Some ?w'"
    using room lt by (simp add: AddInflights_def Let_def wrap [symmetric] w1_def [symmetric])
  have inv': "inflights_inv ?w'"
    using inv cnt len1 lt wrap f1 by (auto simp: inflights_inv_def split: if_splits)
  have distinct_slot: "(in_start w + k) mod in_size w \<noteq> nxt" if "k < in_count w" for k
    using that cnt wrap wrap_mod [OF st, of k] st by (auto split: if_splits)
  have "ring_contents ?w' = ring_contents w @ [x]"
  proof (rule nth_equalityI)
    fix k assume "k < length (ring_contents ?w')"
    then have "k < in_count w \<or> k = in_count w" using f1 by auto
    then show "ring_contents ?w' ! k = (ring_contents w @ [x]) ! k"
      using lt f1 distinct_slot [of k] live_index [OF inv, of k] old1
      by (auto simp: ring_contents_def nxt_def [symmetric] nth_append simp del: upt_Suc)
  qed (simp add: f1)
  with add inv' f1 show ?thesis by auto
qed

text \<open>Releasing walks over the live slots from the oldest one.\<close>

lemma map_upt_Suc_shift: "map f [0..<Suc k] = f 0 # map (\<lambda>j. f (Suc j)) [0..<k]"
  by (simp add: upt_conv_Cons map_Suc_upt [symmetric] del: upt_Suc)

lemma freeLoop_spec:
  assumes "idx < sz" and "\<And>j. j < k \<Longrightarrow> (idx + j) mod sz < length buf"
  shows "freeLoop buf sz to idx i k =
    (let t = length (takeWhile (\<lambda>x. x \<le> to) (map (\<lambda>j. buf ! ((idx + j) mod sz)) [0..<k]))
     in Some (i + t, (idx + t) mod sz))"
  using assms
proof (induction k arbitrary: idx i)
  case 0
  then show ?case by simp
next
  case (Suc k)
  let ?nx = "if idx + 1 \<ge> sz then idx + 1 - sz else idx + 1"
  have nx: "?nx = Suc idx mod sz" and nxlt: "?nx < sz"
    using Suc.prems(1) by (auto simp: mod_if)
  have shift: "(?nx + j) mod sz = (idx + Suc j) mod sz" for j
    unfolding nx by (simp add: mod_add_left_eq)
  have "idx < length buf" using Suc.prems(2) [of 0] Suc.prems(1) by simp
  moreover have "freeLoop buf sz to ?nx (i + 1) k =
    (let t = length (takeWhile (\<lambda>x. x \<le> to) (map (\<lambda>j. buf ! ((?nx + j) mod sz)) [0..<k]))
     in Some (i + 1 + t, (?nx + t) mod sz))"
  proof (intro Suc.IH nxlt)
    fix j assume "j < k"
    then show "(?nx + j) mod sz < length buf" unfolding shift using Suc.prems(2) [of "Suc j"] by simp
  qed
  ultimately show ?case
    using Suc.prems(1) unfolding map_upt_Suc_shift shift by (simp add: Let_def)
qed

lemma FreeLE_ok:
  assumes inv: "inflights_inv w"
  shows "\<exists>w'. FreeLE w to = Some w' \<and> inflights_inv w' \<and>
    ring_contents w' = dropWhile (\<lambda>x. x \<le> to) (ring_contents w) \<and> in_size w' = in_size w"
proof (cases "in_count w = 0")
  case True
  then show ?thesis using inv by (simp add: FreeLE_def ring_contents_def)
next
  case False
  then have st: "in_start w < in_size w" using inv by (auto simp: inflights_inv_def)
  have lt: "in_start w < length (in_buffer w)"
    using live_index [OF inv, of 0] False st by simp
  define t where "t = length (takeWhile (\<lambda>x. x \<le> to) (ring_contents w))"
  have loop: "freeLoop (in_buffer w) (in_size w) to (in_start w) 0 (in_count w) =
      Some (t, (in_start w + t) mod in_size w)"
    using freeLoop_spec [OF st, of "in_count w" "in_buffer w" to 0] live_index [OF inv]
    by (simp add: Let_def t_def ring_contents_def)
  have tle: "t \<le> in_count w" using length_takeWhile_le [of _ "ring_contents w"] by (simp add: t_def)
  have dw: "dropWhile (\<lambda>x. x \<le> to) (ring_contents w) = drop t (ring_contents w)"
    by (simp add: t_def dropWhile_eq_drop)
  show ?thesis
  proof (cases "to < in_buffer w ! in_start w")
    case True
    have "ring_contents w \<noteq> []" "hd (ring_contents w) = in_buffer w ! in_start w"
      using False st by (simp_all add: ring_contents_def hd_map upt_conv_Cons)
    then have "dropWhile (\<lambda>x. x \<le> to) (ring_contents w) = ring_contents w"
      using True by (cases "ring_contents w") auto
    with True inv lt False show ?thesis by (simp add: FreeLE_def)
  next
    case notfirst: False
    let ?w' = "w\<lparr>in_count := in_count w - t,
      in_start := (if in_count w - t = 0 then 0 else (in_start w + t) mod in_size w)\<rparr>"
    have ret: "FreeLE w to = Some ?w'"
      using False notfirst lt loop by (simp add: FreeLE_def)
    have inv': "inflights_inv ?w'"
      using inv tle st wrap_mod [of "in_start w" "in_size w" t] False
      by (auto simp: inflights_inv_def split: if_splits)
    have "ring_contents ?w' = drop t (ring_contents w)"
      by (rule nth_equalityI) (auto simp: ring_contents_def mod_add_left_eq add.assoc)
    with ret inv' show ?thesis by (simp add: dw)
  qed
qed

interpretation ring: inflight_window inflights_inv ring_contents in_size FullInflights AddInflights FreeLE
proof
  fix w x assume "inflights_inv w"
  then show "length (ring_contents w) \<le> in_size w" by (simp add: inflights_inv_def)
next
  fix w x assume "inflights_inv w"
  then show "FullInflights w \<longleftrightarrow> length (ring_contents w) = in_size w" by (simp add: FullInflights_def)
next
  fix w x assume "FullInflights w"
  then show "AddInflights w x = None" by (simp add: AddInflights_def)
qed (use AddInflights_ok FreeLE_ok in blast)+

text \<open>Releasing one inflight succeeds when something is in flight.\<close>

lemma FreeFirstOne_ok:
  assumes "inflights_inv w" and "in_count w \<noteq> 0"
  shows "\<exists>w'. FreeFirstOne w = Some w' \<and> inflights_inv w' \<and> in_size w' = in_size w
    \<and> in_count w' < in_count w"
proof -
  have lt: "in_start w < length (in_buffer w)" and st: "in_start w < in_size w"
    using live_index [OF assms(1), of 0] assms by (auto simp: inflights_inv_def)
  obtain w' where w': "FreeLE w (in_buffer w ! in_start w) = Some w'" "inflights_inv w'"
    "ring_contents w' = dropWhile (\<lambda>x. x \<le> in_buffer w ! in_start w) (ring_contents w)"
    "in_size w' = in_size w" using FreeLE_ok [OF assms(1)] by blast
  have "ring_contents w = in_buffer w ! in_start w # tl (ring_contents w)"
    using assms(2) st by (cases "in_count w") (simp_all add: ring_contents_def map_upt_Suc_shift del: upt_Suc)
  then have "length (ring_contents w') < length (ring_contents w)"
    using w'(3) by (metis dropWhile.simps(2) le_imp_less_Suc length_Cons length_dropWhile_le order_refl)
  then have "in_count w' < in_count w" by (simp only: length_ring_contents)
  with w' lt show ?thesis by (auto simp: FreeFirstOne_def)
qed

end
