(* ===== verification/Progress.thy ===== *)
theory Progress
  imports InflightWindow
begin

text \<open>
  \<open>glee-etcd/raft/tracker/progress.go\<close> and \<open>state.go\<close>: what a leader knows of one follower, as a small
  state machine (probe, replicate, snapshot). A method that mutates a \<open>Progress\<close> returns the updated
  record; \<open>n+1\<close> on an index that comes from a message is the wrapping addition.
\<close>

datatype progressState = StateProbe | StateReplicate | StateSnapshot

record progress =
  pr_Match :: nat
  pr_Next :: nat
  pr_State :: progressState
  pr_PendingSnapshot :: nat
  pr_RecentActive :: bool
  pr_ProbeSent :: bool
  pr_Inflights :: inflights
  pr_IsLearner :: bool

definition ResetState :: "progress \<Rightarrow> progressState \<Rightarrow> progress" where
  "ResetState pr st = pr\<lparr>pr_ProbeSent := False, pr_PendingSnapshot := 0, pr_State := st,
     pr_Inflights := resetInflights (pr_Inflights pr)\<rparr>"

definition ProbeAcked :: "progress \<Rightarrow> progress" where
  "ProbeAcked pr = pr\<lparr>pr_ProbeSent := False\<rparr>"

definition BecomeProbe :: "progress \<Rightarrow> progress" where
  "BecomeProbe pr =
     (if pr_State pr = StateSnapshot
      then let pendingSnapshot = pr_PendingSnapshot pr; pr1 = ResetState pr StateProbe
           in pr1\<lparr>pr_Next := max (add64 (pr_Match pr1) 1) (add64 pendingSnapshot 1)\<rparr>
      else let pr1 = ResetState pr StateProbe in pr1\<lparr>pr_Next := add64 (pr_Match pr1) 1\<rparr>)"

definition BecomeReplicate :: "progress \<Rightarrow> progress" where
  "BecomeReplicate pr =
     (let pr1 = ResetState pr StateReplicate in pr1\<lparr>pr_Next := add64 (pr_Match pr1) 1\<rparr>)"

definition BecomeSnapshot :: "progress \<Rightarrow> nat \<Rightarrow> progress" where
  "BecomeSnapshot pr snapshoti = (ResetState pr StateSnapshot)\<lparr>pr_PendingSnapshot := snapshoti\<rparr>"

definition MaybeUpdate :: "progress \<Rightarrow> nat \<Rightarrow> bool \<times> progress" where
  "MaybeUpdate pr n =
     (let updated = pr_Match pr < n;
          pr1 = (if updated then ProbeAcked (pr\<lparr>pr_Match := n\<rparr>) else pr);
          pr2 = (if pr_Next pr1 < add64 n 1 then pr1\<lparr>pr_Next := add64 n 1\<rparr> else pr1)
      in (updated, pr2))"

definition OptimisticUpdate :: "progress \<Rightarrow> nat \<Rightarrow> progress" where
  "OptimisticUpdate pr n = pr\<lparr>pr_Next := add64 n 1\<rparr>"

definition MaybeDecrTo :: "progress \<Rightarrow> nat \<Rightarrow> nat \<Rightarrow> bool \<times> progress" where
  "MaybeDecrTo pr rejected lst =
     (if pr_State pr = StateReplicate then
        if rejected \<le> pr_Match pr then (False, pr)
        else (True, pr\<lparr>pr_Next := add64 (pr_Match pr) 1\<rparr>)
      else if sub64 (pr_Next pr) 1 \<noteq> rejected then (False, pr)
      else let n = min rejected (add64 lst 1)
           in (True, pr\<lparr>pr_Next := (if n < 1 then 1 else n), pr_ProbeSent := False\<rparr>))"

definition IsPaused :: "progress \<Rightarrow> bool" where
  "IsPaused pr = (case pr_State pr of
       StateProbe \<Rightarrow> pr_ProbeSent pr
     | StateReplicate \<Rightarrow> FullInflights (pr_Inflights pr)
     | StateSnapshot \<Rightarrow> True)"

subsection \<open>The invariant of a progress\<close>

text \<open>
  The next index to send lies beyond what is known to match, the window is a valid ring buffer, and
  only a follower that is being sent a snapshot has one pending.
\<close>

definition progress_ok :: "progress \<Rightarrow> bool" where
  "progress_ok pr \<longleftrightarrow> pr_Match pr < pr_Next pr \<and> inflights_inv (pr_Inflights pr) \<and>
     (pr_State pr \<noteq> StateSnapshot \<longrightarrow> pr_PendingSnapshot pr = 0)"

lemmas progress_defs = ResetState_def ProbeAcked_def BecomeProbe_def BecomeReplicate_def
  BecomeSnapshot_def MaybeUpdate_def OptimisticUpdate_def MaybeDecrTo_def Let_def

lemma BecomeProbe_ok: "progress_ok pr \<Longrightarrow> pr_Match pr < MaxUint64 \<Longrightarrow> progress_ok (BecomeProbe pr)"
  by (simp add: progress_ok_def progress_defs MaxUint64_def max_def)

lemma BecomeReplicate_ok: "progress_ok pr \<Longrightarrow> pr_Match pr < MaxUint64 \<Longrightarrow> progress_ok (BecomeReplicate pr)"
  by (simp add: progress_ok_def progress_defs MaxUint64_def)

lemma BecomeSnapshot_ok: "progress_ok pr \<Longrightarrow> progress_ok (BecomeSnapshot pr i)"
  by (simp add: progress_ok_def progress_defs)

lemma MaybeUpdate_ok: "progress_ok pr \<Longrightarrow> n < MaxUint64 \<Longrightarrow> progress_ok (snd (MaybeUpdate pr n))"
  by (simp add: progress_ok_def progress_defs MaxUint64_def)

text \<open>Acknowledgements only move a progress forward.\<close>

lemma MaybeUpdate_match: "pr_Match (snd (MaybeUpdate pr n)) = max (pr_Match pr) n"
  by (simp add: progress_defs)

lemma MaybeUpdate_updated: "fst (MaybeUpdate pr n) \<longleftrightarrow> pr_Match pr < n"
  by (simp add: progress_defs)

lemma MaybeUpdate_next: "pr_Next pr \<le> pr_Next (snd (MaybeUpdate pr n))"
  by (simp add: progress_defs)

text \<open>A rejection never lowers what is known to match, and keeps the next index positive.\<close>

lemma MaybeDecrTo_match [simp]: "pr_Match (snd (MaybeDecrTo pr rejected lst)) = pr_Match pr"
  by (simp add: progress_defs)

lemma MaybeDecrTo_lowers:
  assumes "MaybeDecrTo pr rejected lst = (True, pr')" and "progress_ok pr"
    and "pr_Match pr < MaxUint64" and "pr_Match pr < rejected" and "pr_Match pr \<le> lst" and "lst < MaxUint64"
    and "pr_State pr = StateReplicate \<Longrightarrow> rejected < pr_Next pr"
  shows "pr_Next pr' < pr_Next pr \<or> pr_Next pr' = pr_Match pr + 1" and "pr_Match pr < pr_Next pr' \<or> rejected = pr_Match pr"
proof -
  have nx: "sub64 (pr_Next pr) 1 = pr_Next pr - 1" using assms(2) by (simp add: progress_ok_def)
  show "pr_Next pr' < pr_Next pr \<or> pr_Next pr' = pr_Match pr + 1"
    using assms nx by (auto simp: MaybeDecrTo_def MaxUint64_def Let_def split: if_splits)
  show "pr_Match pr < pr_Next pr' \<or> rejected = pr_Match pr"
    using assms nx by (auto simp: MaybeDecrTo_def MaxUint64_def Let_def split: if_splits)
qed

text \<open>
  A rejection keeps the invariant when it is for an index that is not known to match; in the states of probing
  the code does not check that, and a late rejection of the matching index itself breaks it.
\<close>

lemma MaybeDecrTo_ok:
  assumes "progress_ok pr" and "pr_Match pr < MaxUint64" and "pr_Match pr < rejected" and "pr_Match pr \<le> lst"
    and "lst < MaxUint64"
  shows "progress_ok (snd (MaybeDecrTo pr rejected lst))"
  using assms by (simp add: progress_ok_def MaybeDecrTo_def MaxUint64_def Let_def)

lemma OptimisticUpdate_ok:
  "progress_ok pr \<Longrightarrow> pr_Match pr \<le> n \<Longrightarrow> n < MaxUint64 \<Longrightarrow> progress_ok (OptimisticUpdate pr n)"
  by (simp add: progress_ok_def progress_defs MaxUint64_def)

lemma ProbeAcked_ok [simp]: "progress_ok (ProbeAcked pr) = progress_ok pr"
  by (simp add: progress_ok_def ProbeAcked_def)

lemma MaybeDecrTo_stale:
  assumes "pr_State pr = StateProbe" and "0 < pr_Match pr" and "pr_Next pr = Suc (pr_Match pr)" and "pr_Next pr < 2 ^ 64"
    and "pr_Match pr \<le> lst" and "lst < MaxUint64"
  shows "fst (MaybeDecrTo pr (pr_Match pr) lst) \<and> pr_Next (snd (MaybeDecrTo pr (pr_Match pr) lst)) = pr_Match pr"
  using assms by (simp add: MaybeDecrTo_def MaxUint64_def Let_def)

end
