(* ===== verification/Tracker.thy ===== *)
theory Tracker
  imports Quorum Progress Raftpb
begin

text \<open>
  \<open>glee-etcd/raft/tracker/tracker.go\<close>: the active configuration of a node, the progress of every peer
  and the votes it has received. The pointer map of progresses is a finite map to progress values;
  \<open>Visit\<close> walks over it in the order of the sorted ids.
\<close>

record trackerConfig =
  tc_Voters :: jointConfig
  tc_AutoLeave :: bool
  tc_Learners :: idset
  tc_LearnersNext :: idset

definition emptyTrackerConfig :: trackerConfig where
  "emptyTrackerConfig = \<lparr>tc_Voters = (None, None), tc_AutoLeave = False, tc_Learners = None,
     tc_LearnersNext = None\<rparr>"

text \<open>\<open>Clone\<close> as the code has it: the copy of a nil map is nil, and \<open>AutoLeave\<close> is not copied.\<close>

definition CloneConfig :: "trackerConfig \<Rightarrow> trackerConfig" where
  "CloneConfig c = \<lparr>tc_Voters = (fst (tc_Voters c), snd (tc_Voters c)), tc_AutoLeave = False,
     tc_Learners = tc_Learners c, tc_LearnersNext = tc_LearnersNext c\<rparr>"

type_synonym progressMap = "(nat, progress) fmap"

record progressTracker =
  pt_Config :: trackerConfig
  pt_Progress :: progressMap
  pt_Votes :: "(nat, bool) fmap"
  pt_MaxInflight :: nat

definition MakeProgressTracker :: "nat \<Rightarrow> progressTracker" where
  "MakeProgressTracker maxInflight =
     \<lparr>pt_Config = \<lparr>tc_Voters = (Some {||}, None), tc_AutoLeave = False, tc_Learners = None,
        tc_LearnersNext = None\<rparr>,
      pt_Progress = fmempty, pt_Votes = fmempty, pt_MaxInflight = maxInflight\<rparr>"

abbreviation pt_Voters :: "progressTracker \<Rightarrow> jointConfig" where
  "pt_Voters p \<equiv> tc_Voters (pt_Config p)"

definition ConfStateOf :: "progressTracker \<Rightarrow> confState" where
  "ConfStateOf p = \<lparr>cs_Voters = SliceIds (fst (pt_Voters p)),
     cs_Learners = SliceIds (tc_Learners (pt_Config p)),
     cs_VotersOutgoing = SliceIds (snd (pt_Voters p)),
     cs_LearnersNext = SliceIds (tc_LearnersNext (pt_Config p)),
     cs_AutoLeave = tc_AutoLeave (pt_Config p)\<rparr>"

definition IsSingleton :: "progressTracker \<Rightarrow> bool" where
  "IsSingleton p \<longleftrightarrow> fcard (ids (fst (pt_Voters p))) = 1 \<and> fcard (ids (snd (pt_Voters p))) = 0"

definition matchAckIndexer :: "progressMap \<Rightarrow> ackedIndexer" where
  "matchAckIndexer l v = (case fmlookup l v of None \<Rightarrow> None | Some pr \<Rightarrow> Some (pr_Match pr))"

definition Committed :: "progressTracker \<Rightarrow> nat" where
  "Committed p = JointCommittedIndex (pt_Voters p) (matchAckIndexer (pt_Progress p))"

text \<open>The ids that \<open>Visit\<close> calls its closure with, in its order.\<close>

definition VisitIds :: "progressTracker \<Rightarrow> nat list" where
  "VisitIds p = insertionSort (sortedKeys (pt_Progress p))"

lemma VisitIds_sorted [simp]: "VisitIds p = sortedKeys (pt_Progress p)"
  by (simp add: VisitIds_def insertionSort_sort sorted_sort_id)

text \<open>\<open>Visit\<close> with a closure that only rewrites the progress it is given.\<close>

definition VisitUpdate :: "(nat \<Rightarrow> progress \<Rightarrow> progress) \<Rightarrow> progressTracker \<Rightarrow> progressTracker" where
  "VisitUpdate f p = p\<lparr>pt_Progress := fold (\<lambda>v m. case fmlookup m v of None \<Rightarrow> m
       | Some pr \<Rightarrow> fmupd v (f v pr) m) (VisitIds p) (pt_Progress p)\<rparr>"

definition QuorumActive :: "progressTracker \<Rightarrow> bool" where
  "QuorumActive p =
     (let votes = fold (\<lambda>v m. case fmlookup (pt_Progress p) v of None \<Rightarrow> m
            | Some pr \<Rightarrow> if pr_IsLearner pr then m else fmupd v (pr_RecentActive pr) m)
          (VisitIds p) fmempty
      in JointVoteResult (pt_Voters p) votes = VoteWon)"

definition VoterNodes :: "progressTracker \<Rightarrow> nat list" where
  "VoterNodes p = sorted_list_of_fset (JointIDs (pt_Voters p))"

definition LearnerNodes :: "progressTracker \<Rightarrow> nat list" where
  "LearnerNodes p = sorted_list_of_fset (ids (tc_Learners (pt_Config p)))"

definition ResetVotes :: "progressTracker \<Rightarrow> progressTracker" where
  "ResetVotes p = p\<lparr>pt_Votes := fmempty\<rparr>"

definition RecordVote :: "progressTracker \<Rightarrow> nat \<Rightarrow> bool \<Rightarrow> progressTracker" where
  "RecordVote p v b =
     (case fmlookup (pt_Votes p) v of
        None \<Rightarrow> p\<lparr>pt_Votes := fmupd v b (pt_Votes p)\<rparr>
      | Some _ \<Rightarrow> p)"

fun tallyLoop :: "progressTracker \<Rightarrow> nat list \<Rightarrow> nat \<times> nat \<Rightarrow> nat \<times> nat" where
  "tallyLoop p [] acc = acc"
| "tallyLoop p (v # vs) (granted, rejected) =
     (case fmlookup (pt_Progress p) v of
        None \<Rightarrow> tallyLoop p vs (granted, rejected)
      | Some pr \<Rightarrow>
          if pr_IsLearner pr then tallyLoop p vs (granted, rejected)
          else case fmlookup (pt_Votes p) v of
            None \<Rightarrow> tallyLoop p vs (granted, rejected)
          | Some b \<Rightarrow> tallyLoop p vs (if b then (granted + 1, rejected) else (granted, rejected + 1)))"

definition TallyVotes :: "progressTracker \<Rightarrow> nat \<times> nat \<times> voteResult" where
  "TallyVotes p =
     (case tallyLoop p (sortedKeys (pt_Progress p)) (0, 0) of
        (granted, rejected) \<Rightarrow> (granted, rejected, JointVoteResult (pt_Voters p) (pt_Votes p)))"

subsection \<open>Lemmas\<close>

lemma VisitUpdate_fold:
  "distinct vs \<Longrightarrow>
   fmlookup (fold (\<lambda>v m. case fmlookup m v of None \<Rightarrow> m | Some pr \<Rightarrow> fmupd v (f v pr) m) vs m) k =
     (if k \<in> set vs then map_option (f k) (fmlookup m k) else fmlookup m k)"
  by (induction vs arbitrary: m) (auto split: option.splits)

lemma VisitUpdate_lookup [simp]:
  "fmlookup (pt_Progress (VisitUpdate f p)) k = map_option (f k) (fmlookup (pt_Progress p) k)"
  by (auto simp: VisitUpdate_def VisitUpdate_fold fmdom_notD)

lemma VisitUpdate_fields [simp]: "pt_Config (VisitUpdate f p) = pt_Config p"
  "pt_Votes (VisitUpdate f p) = pt_Votes p" "pt_MaxInflight (VisitUpdate f p) = pt_MaxInflight p"
  by (simp_all add: VisitUpdate_def)

lemma VisitUpdate_dom [simp]: "fmdom (pt_Progress (VisitUpdate f p)) = fmdom (pt_Progress p)"
  by (rule fset_eqI) (simp add: fmlookup_dom_iff)

lemma RecordVote_fields [simp]: "pt_Config (RecordVote p v b) = pt_Config p"
  "pt_Progress (RecordVote p v b) = pt_Progress p"
  "pt_MaxInflight (RecordVote p v b) = pt_MaxInflight p"
  by (simp_all add: RecordVote_def split: option.splits)

lemma ResetVotes_fields [simp]: "pt_Config (ResetVotes p) = pt_Config p"
  "pt_Progress (ResetVotes p) = pt_Progress p" "pt_Votes (ResetVotes p) = fmempty"
  "pt_MaxInflight (ResetVotes p) = pt_MaxInflight p"
  by (simp_all add: ResetVotes_def)

text \<open>The first vote of a peer counts; later ones do not change it.\<close>

lemma RecordVote_lookup:
  "fmlookup (pt_Votes (RecordVote p v b)) w =
     (if w = v \<and> fmlookup (pt_Votes p) v = None then Some b else fmlookup (pt_Votes p) w)"
  by (auto simp: RecordVote_def split: option.splits)

lemma TallyVotes_result: "snd (snd (TallyVotes p)) = JointVoteResult (pt_Voters p) (pt_Votes p)"
  by (simp add: TallyVotes_def split: prod.splits)

lemma TallyVotes_eq: "TallyVotes p = (g, rj, res) \<Longrightarrow> res = JointVoteResult (pt_Voters p) (pt_Votes p)"
  using TallyVotes_result [of p] by simp

lemma QuorumActive_iff:
  "QuorumActive p \<longleftrightarrow> is_joint_quorum (pt_Voters p)
     {v. \<exists>pr. fmlookup (pt_Progress p) v = Some pr \<and> \<not> pr_IsLearner pr \<and> pr_RecentActive pr}"
proof -
  let ?f = "\<lambda>v m. case fmlookup (pt_Progress p) v of None \<Rightarrow> m
            | Some pr \<Rightarrow> if pr_IsLearner pr then m else fmupd v (pr_RecentActive pr) m"
  have "fmlookup (fold ?f vs m) k =
     (if k \<in> set vs then case fmlookup (pt_Progress p) k of None \<Rightarrow> fmlookup m k
        | Some pr \<Rightarrow> if pr_IsLearner pr then fmlookup m k else Some (pr_RecentActive pr)
      else fmlookup m k)" for vs m k
    by (induction vs arbitrary: m) (auto split: option.splits)
  then have "yes_votes (fold ?f (sortedKeys (pt_Progress p)) fmempty) =
    {v. \<exists>pr. fmlookup (pt_Progress p) v = Some pr \<and> \<not> pr_IsLearner pr \<and> pr_RecentActive pr}"
    by (auto simp: yes_votes_def fmlookup_dom_iff split: option.splits)
  then show ?thesis by (simp add: QuorumActive_def JointVoteResult_won_iff)
qed

lemma Committed_ge_iff:
  assumes "JointIDs (pt_Voters p) \<noteq> {||}" and "0 < i" and "i \<le> MaxUint64"
  shows "i \<le> Committed p \<longleftrightarrow> is_joint_quorum (pt_Voters p)
    {v. \<exists>pr. fmlookup (pt_Progress p) v = Some pr \<and> i \<le> pr_Match pr}"
proof -
  have "acked (matchAckIndexer (pt_Progress p)) i =
      {v. \<exists>pr. fmlookup (pt_Progress p) v = Some pr \<and> i \<le> pr_Match pr}"
    by (auto simp: acked_def matchAckIndexer_def split: option.splits)
  then show ?thesis using JointCommittedIndex_ge_iff [OF assms] by (simp add: Committed_def)
qed

end
