(* ===== verification/Confchange.thy ===== *)
theory Confchange
  imports Tracker
begin

text \<open>
  \<open>glee-etcd/raft/confchange\<close>: simple and joint configuration changes and the restoration of a
  configuration from a \<open>ConfState\<close>. The outer option is a panic (a write to a nil map, a nil
  progress); errors are values of \<open>ccErr\<close>. Where the code ranges over a map and stops at the first
  offending id, the model looks at the ids in ascending order.
\<close>

datatype ccErr =
    ErrAlreadyJoint | ErrZeroVoterJoint | ErrNotJoint | ErrOutgoingEmpty | ErrSimpleInJoint
  | ErrManyVoters | ErrUnexpectedType int | ErrRemovedAllVoters
  | ErrNoProgress nat | ErrNextNotOutgoing nat | ErrNextIsLearner nat
  | ErrLearnerOutgoing nat | ErrLearnerIncoming nat | ErrLearnerNotMarked nat
  | ErrOutgoingNotNil | ErrLearnersNextNotNil | ErrAutoLeaveNotJoint

type_synonym ccResult = "(ccErr + trackerConfig \<times> progressMap) option"

record changer =
  chg_Tracker :: progressTracker
  chg_LastIndex :: nat

definition incoming :: "jointConfig \<Rightarrow> majorityConfig" where
  "incoming v = fst v"

definition outgoing :: "jointConfig \<Rightarrow> majorityConfig" where
  "outgoing v = snd v"

definition joint :: "trackerConfig \<Rightarrow> bool" where
  "joint cfg \<longleftrightarrow> fcard (ids (outgoing (tc_Voters cfg))) > 0"

definition nilAwareAdd :: "idset \<Rightarrow> nat \<Rightarrow> idset" where
  "nilAwareAdd m v = Some (finsert v (ids m))"

definition nilAwareDelete :: "idset \<Rightarrow> nat \<Rightarrow> idset" where
  "nilAwareDelete m v =
     (case m of None \<Rightarrow> None | Some s \<Rightarrow> let s' = s |-| {|v|} in if s' = {||} then None else Some s')"

definition symdiff :: "idset \<Rightarrow> idset \<Rightarrow> nat" where
  "symdiff l r = fcard (ids l |-| ids r) + fcard (ids r |-| ids l)"

text \<open>Writing to a nil map panics; deleting from one does nothing.\<close>

definition addVoter :: "trackerConfig \<Rightarrow> nat \<Rightarrow> trackerConfig option" where
  "addVoter cfg v =
     (case incoming (tc_Voters cfg) of
        None \<Rightarrow> None
      | Some s \<Rightarrow> Some (cfg\<lparr>tc_Voters := (Some (finsert v s), outgoing (tc_Voters cfg))\<rparr>))"

definition deleteVoter :: "trackerConfig \<Rightarrow> nat \<Rightarrow> trackerConfig" where
  "deleteVoter cfg v =
     cfg\<lparr>tc_Voters := (map_option (\<lambda>s. s |-| {|v|}) (incoming (tc_Voters cfg)), outgoing (tc_Voters cfg))\<rparr>"

subsection \<open>Checks\<close>

fun firstErr :: "('a \<Rightarrow> 'e option) \<Rightarrow> 'a list \<Rightarrow> 'e option" where
  "firstErr f [] = None"
| "firstErr f (x # xs) = (case f x of Some e \<Rightarrow> Some e | None \<Rightarrow> firstErr f xs)"

definition isLearnerIn :: "progressMap \<Rightarrow> nat \<Rightarrow> bool" where
  "isLearnerIn prs v = (case fmlookup prs v of None \<Rightarrow> False | Some pr \<Rightarrow> pr_IsLearner pr)"

definition checkInvariants :: "trackerConfig \<Rightarrow> progressMap \<Rightarrow> ccErr option" where
  "checkInvariants cfg prs =
     (let noProgress = (\<lambda>v. if v |\<in>| fmdom prs then None else Some (ErrNoProgress v));
          out = ids (outgoing (tc_Voters cfg)); inc = ids (incoming (tc_Voters cfg)) in
      case firstErr noProgress (sorted_list_of_fset (JointIDs (tc_Voters cfg)) @
             SliceIds (tc_Learners cfg) @ SliceIds (tc_LearnersNext cfg)) of
        Some e \<Rightarrow> Some e
      | None \<Rightarrow>
      case firstErr (\<lambda>v. if v |\<notin>| out then Some (ErrNextNotOutgoing v)
                        else if isLearnerIn prs v then Some (ErrNextIsLearner v) else None)
             (SliceIds (tc_LearnersNext cfg)) of
        Some e \<Rightarrow> Some e
      | None \<Rightarrow>
      case firstErr (\<lambda>v. if v |\<in>| out then Some (ErrLearnerOutgoing v)
                        else if v |\<in>| inc then Some (ErrLearnerIncoming v)
                        else if \<not> isLearnerIn prs v then Some (ErrLearnerNotMarked v) else None)
             (SliceIds (tc_Learners cfg)) of
        Some e \<Rightarrow> Some e
      | None \<Rightarrow>
      if \<not> joint cfg then
        if outgoing (tc_Voters cfg) \<noteq> None then Some ErrOutgoingNotNil
        else if tc_LearnersNext cfg \<noteq> None then Some ErrLearnersNextNotNil
        else if tc_AutoLeave cfg then Some ErrAutoLeaveNotJoint
        else None
      else None)"

definition checkAndReturn :: "trackerConfig \<Rightarrow> progressMap \<Rightarrow> ccErr + trackerConfig \<times> progressMap" where
  "checkAndReturn cfg prs =
     (case checkInvariants cfg prs of Some e \<Rightarrow> Inl e | None \<Rightarrow> Inr (cfg, prs))"

definition checkAndCopy :: "changer \<Rightarrow> ccErr + trackerConfig \<times> progressMap" where
  "checkAndCopy c = checkAndReturn (CloneConfig (pt_Config (chg_Tracker c))) (pt_Progress (chg_Tracker c))"

subsection \<open>Individual changes\<close>

definition initProgress ::
  "changer \<Rightarrow> trackerConfig \<Rightarrow> progressMap \<Rightarrow> nat \<Rightarrow> bool \<Rightarrow> (trackerConfig \<times> progressMap) option" where
  "initProgress c cfg prs v isLearner =
     do { cfg1 \<leftarrow> (if \<not> isLearner then addVoter cfg v
                  else Some (cfg\<lparr>tc_Learners := nilAwareAdd (tc_Learners cfg) v\<rparr>));
          Some (cfg1, fmupd v \<lparr>pr_Match = 0, pr_Next = chg_LastIndex c, pr_State = StateProbe,
              pr_PendingSnapshot = 0, pr_RecentActive = True, pr_ProbeSent = False,
              pr_Inflights = NewInflights (pt_MaxInflight (chg_Tracker c)),
              pr_IsLearner = isLearner\<rparr> prs) }"

definition makeVoter ::
  "changer \<Rightarrow> trackerConfig \<Rightarrow> progressMap \<Rightarrow> nat \<Rightarrow> (trackerConfig \<times> progressMap) option" where
  "makeVoter c cfg prs v =
     (case fmlookup prs v of
        None \<Rightarrow> initProgress c cfg prs v False
      | Some pr \<Rightarrow>
          do { cfg1 \<leftarrow> addVoter (cfg\<lparr>tc_Learners := nilAwareDelete (tc_Learners cfg) v,
                    tc_LearnersNext := nilAwareDelete (tc_LearnersNext cfg) v\<rparr>) v;
               Some (cfg1, fmupd v (pr\<lparr>pr_IsLearner := False\<rparr>) prs) })"

definition removeNode :: "trackerConfig \<Rightarrow> progressMap \<Rightarrow> nat \<Rightarrow> trackerConfig \<times> progressMap" where
  "removeNode cfg prs v =
     (if v |\<notin>| fmdom prs then (cfg, prs)
      else
        let cfg1 = (deleteVoter cfg v)\<lparr>tc_Learners := nilAwareDelete (tc_Learners cfg) v,
                     tc_LearnersNext := nilAwareDelete (tc_LearnersNext cfg) v\<rparr>
        in (cfg1, if v |\<notin>| ids (outgoing (tc_Voters cfg1)) then fmdrop v prs else prs))"

definition makeLearner ::
  "changer \<Rightarrow> trackerConfig \<Rightarrow> progressMap \<Rightarrow> nat \<Rightarrow> (trackerConfig \<times> progressMap) option" where
  "makeLearner c cfg prs v =
     (case fmlookup prs v of
        None \<Rightarrow> initProgress c cfg prs v True
      | Some pr \<Rightarrow>
          if pr_IsLearner pr then Some (cfg, prs)
          else case removeNode cfg prs v of (cfg1, prs1) \<Rightarrow>
            if v |\<in>| ids (outgoing (tc_Voters cfg1))
            then Some (cfg1\<lparr>tc_LearnersNext := nilAwareAdd (tc_LearnersNext cfg1) v\<rparr>, fmupd v pr prs1)
            else Some (cfg1\<lparr>tc_Learners := nilAwareAdd (tc_Learners cfg1) v\<rparr>,
                       fmupd v (pr\<lparr>pr_IsLearner := True\<rparr>) prs1))"

fun applyChanges ::
  "changer \<Rightarrow> trackerConfig \<Rightarrow> progressMap \<Rightarrow> confChangeSingle list \<Rightarrow> ccResult" where
  "applyChanges c cfg prs [] =
     Some (if fcard (ids (incoming (tc_Voters cfg))) = 0 then Inl ErrRemovedAllVoters else Inr (cfg, prs))"
| "applyChanges c cfg prs (cc # ccs) =
     (if ccs_NodeID cc = 0 then applyChanges c cfg prs ccs
      else case ccs_Type cc of
        ConfChangeAddNode \<Rightarrow>
          do { (cfg1, prs1) \<leftarrow> makeVoter c cfg prs (ccs_NodeID cc); applyChanges c cfg1 prs1 ccs }
      | ConfChangeAddLearnerNode \<Rightarrow>
          do { (cfg1, prs1) \<leftarrow> makeLearner c cfg prs (ccs_NodeID cc); applyChanges c cfg1 prs1 ccs }
      | ConfChangeRemoveNode \<Rightarrow>
          (case removeNode cfg prs (ccs_NodeID cc) of (cfg1, prs1) \<Rightarrow> applyChanges c cfg1 prs1 ccs)
      | ConfChangeUpdateNode \<Rightarrow> applyChanges c cfg prs ccs
      | ConfChangeTypeOther n \<Rightarrow> Some (Inl (ErrUnexpectedType n)))"

subsection \<open>The three kinds of change\<close>

definition EnterJoint :: "changer \<Rightarrow> bool \<Rightarrow> confChangeSingle list \<Rightarrow> ccResult" where
  "EnterJoint c autoLeave ccs =
     (case checkAndCopy c of
        Inl e \<Rightarrow> Some (Inl e)
      | Inr (cfg, prs) \<Rightarrow>
          if joint cfg then Some (Inl ErrAlreadyJoint)
          else if fcard (ids (incoming (tc_Voters cfg))) = 0 then Some (Inl ErrZeroVoterJoint)
          else
            let cfg1 = cfg\<lparr>tc_Voters := (incoming (tc_Voters cfg), Some (ids (incoming (tc_Voters cfg))))\<rparr>
            in do { r \<leftarrow> applyChanges c cfg1 prs ccs;
                    case r of
                      Inl e \<Rightarrow> Some (Inl e)
                    | Inr (cfg2, prs2) \<Rightarrow> Some (checkAndReturn (cfg2\<lparr>tc_AutoLeave := autoLeave\<rparr>) prs2) })"

text \<open>\<open>prs[id].IsLearner = true\<close> for every staged learner: a missing progress is a nil dereference.\<close>

definition markLearner :: "progressMap \<Rightarrow> nat \<Rightarrow> progressMap option" where
  "markLearner prs v =
     (case fmlookup prs v of None \<Rightarrow> None | Some pr \<Rightarrow> Some (fmupd v (pr\<lparr>pr_IsLearner := True\<rparr>) prs))"

definition LeaveJoint :: "changer \<Rightarrow> ccResult" where
  "LeaveJoint c =
     (case checkAndCopy c of
        Inl e \<Rightarrow> Some (Inl e)
      | Inr (cfg, prs) \<Rightarrow>
          if \<not> joint cfg then Some (Inl ErrNotJoint)
          else if fcard (ids (outgoing (tc_Voters cfg))) = 0 then Some (Inl ErrOutgoingEmpty)
          else do {
            let learners = fold (\<lambda>v m. nilAwareAdd m v) (SliceIds (tc_LearnersNext cfg)) (tc_Learners cfg);
            prs1 \<leftarrow> foldM markLearner prs (SliceIds (tc_LearnersNext cfg));
            let prs2 = fold (\<lambda>v m. if v |\<notin>| ids (incoming (tc_Voters cfg)) \<and> v |\<notin>| ids learners
                               then fmdrop v m else m) (SliceIds (outgoing (tc_Voters cfg))) prs1;
            Some (checkAndReturn (cfg\<lparr>tc_Voters := (incoming (tc_Voters cfg), None),
                tc_AutoLeave := False, tc_Learners := learners, tc_LearnersNext := None\<rparr>) prs2) })"

text \<open>On a violated invariant \<open>Simple\<close> returns zero values and no error, as the code does.\<close>

definition Simple :: "changer \<Rightarrow> confChangeSingle list \<Rightarrow> ccResult" where
  "Simple c ccs =
     (case checkAndCopy c of
        Inl e \<Rightarrow> Some (Inl e)
      | Inr (cfg, prs) \<Rightarrow>
          if joint cfg then Some (Inl ErrSimpleInJoint)
          else do {
            r \<leftarrow> applyChanges c cfg prs ccs;
            case r of
              Inl e \<Rightarrow> Some (Inl e)
            | Inr (cfg1, prs1) \<Rightarrow>
                if symdiff (incoming (pt_Voters (chg_Tracker c))) (incoming (tc_Voters cfg1)) > 1
                then Some (Inl ErrManyVoters)
                else if checkInvariants cfg1 prs1 \<noteq> None then Some (Inr (emptyTrackerConfig, fmempty))
                else Some (checkAndReturn cfg1 prs1) })"

subsection \<open>Restoring a configuration\<close>

definition toConfChangeSingle ::
  "confState \<Rightarrow> confChangeSingle list \<times> confChangeSingle list" where
  "toConfChangeSingle cs =
     (let op = (\<lambda>t v. \<lparr>ccs_Type = t, ccs_NodeID = v\<rparr>) in
      (map (op ConfChangeAddNode) (cs_VotersOutgoing cs),
       map (op ConfChangeRemoveNode) (cs_VotersOutgoing cs) @
       map (op ConfChangeAddNode) (cs_Voters cs) @
       map (op ConfChangeAddLearnerNode) (cs_Learners cs) @
       map (op ConfChangeAddLearnerNode) (cs_LearnersNext cs)))"

fun chain :: "changer \<Rightarrow> (changer \<Rightarrow> ccResult) list \<Rightarrow> ccResult" where
  "chain chg [] = Some (Inr (pt_Config (chg_Tracker chg), pt_Progress (chg_Tracker chg)))"
| "chain chg (op # ops) =
     do { r \<leftarrow> op chg;
          case r of
            Inl e \<Rightarrow> Some (Inl e)
          | Inr (cfg, prs) \<Rightarrow>
              chain (chg\<lparr>chg_Tracker := (chg_Tracker chg)\<lparr>pt_Config := cfg, pt_Progress := prs\<rparr>\<rparr>) ops }"

definition Restore :: "changer \<Rightarrow> confState \<Rightarrow> ccResult" where
  "Restore chg cs =
     (case toConfChangeSingle cs of (out, inc) \<Rightarrow>
        if out = [] then chain chg (map (\<lambda>cc chg. Simple chg [cc]) inc)
        else chain chg (map (\<lambda>cc chg. Simple chg [cc]) out @
               [\<lambda>chg. EnterJoint chg (cs_AutoLeave cs) inc]))"

end
