(* ===== verification/ConfchangeFacts.thy ===== *)
theory ConfchangeFacts
  imports Confchange
begin

text \<open>
  What configuration changes keep: the invariant that ties a configuration to its progress map, that
  no change panics or trips the final check, and that quorums before and after a change meet.
\<close>

subsection \<open>Sets and flags\<close>

lemma ids_nilAwareAdd [simp]: "ids (nilAwareAdd m v) = finsert v (ids m)"
  by (simp add: nilAwareAdd_def)

lemma ids_nilAwareDelete [simp]: "ids (nilAwareDelete m v) = ids m |-| {|v|}"
  by (auto simp: nilAwareDelete_def Let_def split: option.splits)

lemma nilAwareDelete_None [simp]: "nilAwareDelete None v = None"
  by (simp add: nilAwareDelete_def)

lemma isLearnerIn_fmupd [simp]:
  "isLearnerIn (fmupd v pr prs) w = (if w = v then pr_IsLearner pr else isLearnerIn prs w)"
  by (simp add: isLearnerIn_def)

lemma isLearnerIn_fmdrop [simp]: "isLearnerIn (fmdrop v prs) w = (w \<noteq> v \<and> isLearnerIn prs w)"
  by (simp add: isLearnerIn_def)

lemma isLearnerIn_dom: "isLearnerIn prs v \<Longrightarrow> v |\<in>| fmdom prs"
  by (auto simp: isLearnerIn_def fmlookup_dom_iff split: option.splits)

lemma isLearnerIn_lookup: "fmlookup prs v = Some pr \<Longrightarrow> isLearnerIn prs v = pr_IsLearner pr"
  by (simp add: isLearnerIn_def)

lemma ids_map_option_delete [simp]: "ids (map_option (\<lambda>s. s |-| {|v|}) m) = ids m |-| {|v|}"
  by (cases m) auto

lemma fcard_zero [simp]: "fcard s = 0 \<longleftrightarrow> s = {||}"
  by (simp add: fcard.rep_eq) (metis bot_fset.rep_eq fset_inject)

lemma joint_iff: "joint cfg \<longleftrightarrow> ids (outgoing (tc_Voters cfg)) \<noteq> {||}"
  by (metis fcard_zero gr0I joint_def less_irrefl)

subsection \<open>The invariant\<close>

text \<open>
  The tracked peers are exactly the voters of either half and the learners; staged learners are
  outgoing voters and no incoming ones; a learner is no voter; a progress is flagged as a learner's exactly when it is one;
  and a configuration that is not joint has nothing left over from a joint one.
\<close>

definition conf_inv :: "trackerConfig \<Rightarrow> progressMap \<Rightarrow> bool" where
  "conf_inv cfg prs \<longleftrightarrow>
     (let inc = ids (incoming (tc_Voters cfg)); out = ids (outgoing (tc_Voters cfg));
          lrn = ids (tc_Learners cfg); nxt = ids (tc_LearnersNext cfg) in
      incoming (tc_Voters cfg) \<noteq> None \<and>
      (\<forall>v. v |\<in>| fmdom prs \<longleftrightarrow> v |\<in>| inc \<or> v |\<in>| out \<or> v |\<in>| lrn) \<and>
      (\<forall>v. v |\<in>| nxt \<longrightarrow> v |\<in>| out \<and> v |\<notin>| inc) \<and>
      (\<forall>v. v |\<in>| lrn \<longrightarrow> v |\<notin>| inc \<and> v |\<notin>| out) \<and>
      (\<forall>v. isLearnerIn prs v \<longleftrightarrow> v |\<in>| lrn) \<and>
      (\<not> joint cfg \<longrightarrow> outgoing (tc_Voters cfg) = None \<and> tc_LearnersNext cfg = None \<and> \<not> tc_AutoLeave cfg))"

lemmas conf_inv_simps = conf_inv_def Let_def incoming_def outgoing_def joint_iff

lemma firstErr_None: "firstErr f xs = None \<longleftrightarrow> (\<forall>x \<in> set xs. f x = None)"
  by (induction xs) (auto split: option.splits)

lemma set_SliceIds [simp]: "set (SliceIds c) = fset (ids c)"
  by (simp add: SliceIds_def)

text \<open>The check that the code runs, in readable form.\<close>

lemma checkInvariants_None_iff:
  "checkInvariants cfg prs = None \<longleftrightarrow>
     (\<forall>v. v |\<in>| JointIDs (tc_Voters cfg) \<or> v |\<in>| ids (tc_Learners cfg) \<or> v |\<in>| ids (tc_LearnersNext cfg)
        \<longrightarrow> v |\<in>| fmdom prs) \<and>
     (\<forall>v. v |\<in>| ids (tc_LearnersNext cfg) \<longrightarrow> v |\<in>| ids (snd (tc_Voters cfg)) \<and> \<not> isLearnerIn prs v) \<and>
     (\<forall>v. v |\<in>| ids (tc_Learners cfg) \<longrightarrow> v |\<notin>| JointIDs (tc_Voters cfg) \<and> isLearnerIn prs v) \<and>
     (\<not> joint cfg \<longrightarrow> snd (tc_Voters cfg) = None \<and> tc_LearnersNext cfg = None \<and> \<not> tc_AutoLeave cfg)"
proof -
  have opt: "(case x of None \<Rightarrow> y | Some e \<Rightarrow> Some e) = None \<longleftrightarrow> x = None \<and> y = None"
    for x y :: "ccErr option" by (cases x) auto
  have iff: "(if p then Some e else y) = None \<longleftrightarrow> \<not> p \<and> y = None" for p y and e :: ccErr by auto
  have iff': "(if p then y else Some e) = None \<longleftrightarrow> p \<and> y = None" for p y and e :: ccErr by auto
  show ?thesis
    unfolding checkInvariants_def Let_def opt firstErr_None iff iff' incoming_def outgoing_def
    by (auto simp: ball_Un JointIDs_def)
qed

lemma conf_inv_check: "conf_inv cfg prs \<Longrightarrow> checkInvariants cfg prs = None"
  unfolding checkInvariants_None_iff by (auto simp: conf_inv_simps JointIDs_def)

lemma conf_inv_checkAndReturn: "conf_inv cfg prs \<Longrightarrow> checkAndReturn cfg prs = Inr (cfg, prs)"
  by (simp add: checkAndReturn_def conf_inv_check)

lemma conf_inv_empty: "conf_inv (pt_Config (MakeProgressTracker n)) (pt_Progress (MakeProgressTracker n))"
  by (auto simp: conf_inv_simps MakeProgressTracker_def dest: isLearnerIn_dom)

subsection \<open>Every change keeps it\<close>

text \<open>What a change leaves alone: the outgoing voters and the flag.\<close>

definition same_outgoing :: "trackerConfig \<Rightarrow> trackerConfig \<Rightarrow> bool" where
  "same_outgoing cfg cfg' \<longleftrightarrow> outgoing (tc_Voters cfg') = outgoing (tc_Voters cfg) \<and>
     tc_AutoLeave cfg' = tc_AutoLeave cfg"

lemma addVoter_Some:
  "incoming (tc_Voters cfg) \<noteq> None \<Longrightarrow>
     \<exists>s. incoming (tc_Voters cfg) = Some s \<and>
       addVoter cfg v = Some (cfg\<lparr>tc_Voters := (Some (finsert v s), outgoing (tc_Voters cfg))\<rparr>)"
  by (auto simp: addVoter_def)

lemma removeNode_inv:
  assumes "conf_inv cfg prs" and "removeNode cfg prs v = (cfg', prs')"
  shows "conf_inv cfg' prs' \<and> same_outgoing cfg cfg' \<and> v |\<notin>| ids (incoming (tc_Voters cfg')) \<and>
    v |\<notin>| ids (tc_Learners cfg') \<and> v |\<notin>| ids (tc_LearnersNext cfg')"
proof (cases "v |\<in>| fmdom prs")
  case False
  then show ?thesis using assms by (auto simp: removeNode_def conf_inv_simps same_outgoing_def)
next
  case True
  define inc out where "inc = incoming (tc_Voters cfg)" and "out = outgoing (tc_Voters cfg)"
  define lrn nxt where "lrn = tc_Learners cfg" and "nxt = tc_LearnersNext cfg"
  have cfg': "tc_Voters cfg' = (map_option (\<lambda>s. s |-| {|v|}) inc, out)"
      "tc_Learners cfg' = nilAwareDelete lrn v" "tc_LearnersNext cfg' = nilAwareDelete nxt v"
      "tc_AutoLeave cfg' = tc_AutoLeave cfg"
    and prs': "prs' = (if v |\<notin>| ids out then fmdrop v prs else prs)"
    using assms(2) True
    by (auto simp: removeNode_def deleteVoter_def Let_def inc_def out_def lrn_def nxt_def outgoing_def)
  note inv = assms(1) [unfolded conf_inv_simps, folded incoming_def outgoing_def,
      folded inc_def out_def lrn_def nxt_def]
  show ?thesis
  proof (cases "v |\<in>| ids out")
    case True
    then show ?thesis using inv prs'
      by (simp add: conf_inv_simps cfg' same_outgoing_def out_def [unfolded outgoing_def, symmetric]) auto
  next
    case False
    then show ?thesis using inv prs'
      by (simp add: conf_inv_simps cfg' same_outgoing_def out_def [unfolded outgoing_def, symmetric]) auto
  qed
qed

lemma initProgress_inv:
  assumes "conf_inv cfg prs" and "fmlookup prs v = None"
  shows "\<exists>cfg' prs'. initProgress c cfg prs v lrn = Some (cfg', prs') \<and> conf_inv cfg' prs' \<and>
    same_outgoing cfg cfg'"
proof -
  have new: "v |\<notin>| fmdom prs" using assms(2) by (simp add: fmlookup_dom_iff)
  have inc: "incoming (tc_Voters cfg) \<noteq> None" using assms(1) by (simp add: conf_inv_simps)
  show ?thesis
  proof (cases lrn)
    case True
    then show ?thesis using assms(1) new
      by (auto simp: initProgress_def conf_inv_simps same_outgoing_def split: if_splits dest: isLearnerIn_dom)
  next
    case False
    then show ?thesis using assms(1) new addVoter_Some [OF inc, of v]
      by (auto simp: initProgress_def conf_inv_simps same_outgoing_def split: if_splits dest: isLearnerIn_dom)
  qed
qed

lemma makeVoter_inv:
  assumes "conf_inv cfg prs"
  shows "\<exists>cfg' prs'. makeVoter c cfg prs v = Some (cfg', prs') \<and> conf_inv cfg' prs' \<and> same_outgoing cfg cfg'"
proof (cases "fmlookup prs v")
  case None
  then show ?thesis using initProgress_inv [OF assms None] by (simp add: makeVoter_def)
next
  case (Some pr)
  obtain s where s: "fst (tc_Voters cfg) = Some s" using assms by (auto simp: conf_inv_simps)
  have "v |\<in>| fmdom prs" using Some by (simp add: fmlookup_dom_iff)
  with assms Some s show ?thesis
    by (auto simp: makeVoter_def addVoter_def conf_inv_simps same_outgoing_def)
qed

lemma makeLearner_inv:
  assumes "conf_inv cfg prs"
  shows "\<exists>cfg' prs'. makeLearner c cfg prs v = Some (cfg', prs') \<and> conf_inv cfg' prs' \<and> same_outgoing cfg cfg'"
proof (cases "fmlookup prs v")
  case None
  then show ?thesis using initProgress_inv [OF assms None] by (simp add: makeLearner_def)
next
  case (Some pr)
  show ?thesis
  proof (cases "pr_IsLearner pr")
    case True
    then show ?thesis using assms Some by (simp add: makeLearner_def same_outgoing_def)
  next
    case False
    obtain cfg1 prs1 where r: "removeNode cfg prs v = (cfg1, prs1)" by fastforce
    note inv = removeNode_inv [OF assms r]
    show ?thesis using Some False r inv
      by (auto simp: makeLearner_def conf_inv_simps same_outgoing_def)
  qed
qed

lemma applyChanges_inv:
  "conf_inv cfg prs \<Longrightarrow> \<exists>r. applyChanges c cfg prs ccs = Some r \<and>
     (\<forall>cfg' prs'. r = Inr (cfg', prs') \<longrightarrow> conf_inv cfg' prs' \<and> same_outgoing cfg cfg' \<and>
        ids (incoming (tc_Voters cfg')) \<noteq> {||})"
proof (induction ccs arbitrary: cfg prs)
  case Nil
  then show ?case by (simp add: same_outgoing_def)
next
  case (Cons cc ccs)
  have step: "\<exists>r. applyChanges c cfg1 prs1 ccs = Some r \<and>
     (\<forall>cfg' prs'. r = Inr (cfg', prs') \<longrightarrow> conf_inv cfg' prs' \<and> same_outgoing cfg cfg' \<and>
        ids (incoming (tc_Voters cfg')) \<noteq> {||})"
    if "conf_inv cfg1 prs1" "same_outgoing cfg cfg1" for cfg1 prs1
    using Cons.IH [OF that(1)] that(2) by (auto simp: same_outgoing_def)
  have skip: "same_outgoing cfg cfg" by (simp add: same_outgoing_def)
  show ?case
  proof (cases "ccs_NodeID cc = 0")
    case True
    then show ?thesis using step [OF Cons.prems skip] by simp
  next
    case False
    show ?thesis
    proof (cases "ccs_Type cc")
      case ConfChangeAddNode
      obtain cfg1 prs1 where "makeVoter c cfg prs (ccs_NodeID cc) = Some (cfg1, prs1)"
        "conf_inv cfg1 prs1" "same_outgoing cfg cfg1" using makeVoter_inv [OF Cons.prems] by blast
      then show ?thesis using False ConfChangeAddNode step by simp
    next
      case ConfChangeRemoveNode
      obtain cfg1 prs1 where r: "removeNode cfg prs (ccs_NodeID cc) = (cfg1, prs1)" by fastforce
      show ?thesis using False ConfChangeRemoveNode r removeNode_inv [OF Cons.prems r] step by simp
    next
      case ConfChangeUpdateNode
      then show ?thesis using False step [OF Cons.prems skip] by simp
    next
      case ConfChangeAddLearnerNode
      obtain cfg1 prs1 where "makeLearner c cfg prs (ccs_NodeID cc) = Some (cfg1, prs1)"
        "conf_inv cfg1 prs1" "same_outgoing cfg cfg1" using makeLearner_inv [OF Cons.prems] by blast
      then show ?thesis using False ConfChangeAddLearnerNode step by simp
    next
      case (ConfChangeTypeOther n)
      then show ?thesis using False by simp
    qed
  qed
qed

end
