(* ===== verification/ConfchangeSafety.thy ===== *)
theory ConfchangeSafety
  imports ConfchangeFacts
begin

text \<open>
  The three configuration changes from the invariant: they never panic, they keep the invariant, and
  the quorums of the configurations before and after a change meet in a common voter. The last is
  what makes a change safe for elections and commits.
\<close>

subsection \<open>What the changes return\<close>

lemma CloneConfig_fields [simp]: "tc_Voters (CloneConfig cfg) = tc_Voters cfg"
  "tc_Learners (CloneConfig cfg) = tc_Learners cfg"
  "tc_LearnersNext (CloneConfig cfg) = tc_LearnersNext cfg" "\<not> tc_AutoLeave (CloneConfig cfg)"
  by (simp_all add: CloneConfig_def)

lemma joint_CloneConfig [simp]: "joint (CloneConfig cfg) = joint cfg"
  by (simp add: joint_def)

lemma CloneConfig_inv: "conf_inv cfg prs \<Longrightarrow> conf_inv (CloneConfig cfg) prs"
  by (simp add: conf_inv_simps)

abbreviation chg_Config :: "changer \<Rightarrow> trackerConfig" where
  "chg_Config c \<equiv> pt_Config (chg_Tracker c)"

definition changer_inv :: "changer \<Rightarrow> bool" where
  "changer_inv c \<longleftrightarrow> conf_inv (chg_Config c) (pt_Progress (chg_Tracker c))"

lemma checkAndCopy_ok:
  "changer_inv c \<Longrightarrow> checkAndCopy c = Inr (CloneConfig (chg_Config c), pt_Progress (chg_Tracker c))"
  by (simp add: checkAndCopy_def changer_inv_def CloneConfig_inv conf_inv_checkAndReturn)

text \<open>A simple change leaves a non-joint configuration that differs in at most one voter.\<close>

lemma Simple_inv:
  assumes "changer_inv c"
  shows "\<exists>r. Simple c ccs = Some r \<and> (\<forall>cfg' prs'. r = Inr (cfg', prs') \<longrightarrow>
    conf_inv cfg' prs' \<and> \<not> joint (chg_Config c) \<and> outgoing (tc_Voters cfg') = None \<and>
    ids (incoming (tc_Voters cfg')) \<noteq> {||} \<and>
    symdiff (incoming (tc_Voters (chg_Config c))) (incoming (tc_Voters cfg')) \<le> 1)"
proof (cases "joint (chg_Config c)")
  case True
  then show ?thesis by (simp add: Simple_def checkAndCopy_ok [OF assms] joint_def)
next
  case False
  then have notjoint: "\<not> joint (CloneConfig (chg_Config c))" by (simp add: joint_def)
  have out: "outgoing (tc_Voters (chg_Config c)) = None"
    using assms False by (simp add: changer_inv_def conf_inv_def Let_def)
  have inv: "conf_inv (CloneConfig (chg_Config c)) (pt_Progress (chg_Tracker c))"
    using assms by (simp add: changer_inv_def CloneConfig_inv)
  obtain r where r: "applyChanges c (CloneConfig (chg_Config c)) (pt_Progress (chg_Tracker c)) ccs = Some r"
    and post: "\<forall>cfg' prs'. r = Inr (cfg', prs') \<longrightarrow> conf_inv cfg' prs' \<and>
        same_outgoing (CloneConfig (chg_Config c)) cfg' \<and> ids (incoming (tc_Voters cfg')) \<noteq> {||}"
    using applyChanges_inv [OF inv] by blast
  show ?thesis
  proof (cases r)
    case (Inl e)
    then show ?thesis using r notjoint by (simp add: Simple_def checkAndCopy_ok [OF assms])
  next
    case (Inr q)
    obtain cfg1 prs1 where q: "q = (cfg1, prs1)" by fastforce
    have "conf_inv cfg1 prs1" "outgoing (tc_Voters cfg1) = None" "ids (incoming (tc_Voters cfg1)) \<noteq> {||}"
      using post Inr q out by (auto simp: same_outgoing_def)
    then show ?thesis
      using r Inr q notjoint False
      by (auto simp: Simple_def checkAndCopy_ok [OF assms] conf_inv_checkAndReturn conf_inv_check)
  qed
qed

text \<open>Entering a joint configuration turns the voters into the outgoing half.\<close>

lemma EnterJoint_inv:
  assumes "changer_inv c"
  shows "\<exists>r. EnterJoint c autoLeave ccs = Some r \<and> (\<forall>cfg' prs'. r = Inr (cfg', prs') \<longrightarrow>
    conf_inv cfg' prs' \<and> \<not> joint (chg_Config c) \<and> joint cfg' \<and> tc_AutoLeave cfg' = autoLeave \<and>
    ids (incoming (tc_Voters cfg')) \<noteq> {||} \<and>
    ids (outgoing (tc_Voters cfg')) = ids (incoming (tc_Voters (chg_Config c))))"
proof (cases "joint (chg_Config c) \<or> ids (incoming (tc_Voters (chg_Config c))) = {||}")
  case True
  then show ?thesis by (auto simp: EnterJoint_def checkAndCopy_ok [OF assms] Let_def)
next
  case False
  let ?cfg = "CloneConfig (chg_Config c)" and ?prs = "pt_Progress (chg_Tracker c)"
  let ?inc = "incoming (tc_Voters (chg_Config c))"
  let ?cfg1 = "?cfg\<lparr>tc_Voters := (?inc, Some (ids ?inc))\<rparr>"
  have ne: "ids ?inc \<noteq> {||}" and notjoint: "\<not> joint ?cfg" using False by (simp_all add: joint_def)
  have inv: "conf_inv ?cfg1 ?prs"
    using assms False ne by (auto simp: changer_inv_def conf_inv_simps)
  obtain r where r: "applyChanges c ?cfg1 ?prs ccs = Some r"
    and post: "\<forall>cfg' prs'. r = Inr (cfg', prs') \<longrightarrow> conf_inv cfg' prs' \<and>
        same_outgoing ?cfg1 cfg' \<and> ids (incoming (tc_Voters cfg')) \<noteq> {||}"
    using applyChanges_inv [OF inv] by blast
  show ?thesis
  proof (cases r)
    case (Inl e)
    then show ?thesis using r notjoint ne by (simp add: EnterJoint_def checkAndCopy_ok [OF assms])
  next
    case (Inr q)
    obtain cfg2 prs2 where q: "q = (cfg2, prs2)" by fastforce
    let ?cfg2 = "cfg2\<lparr>tc_AutoLeave := autoLeave\<rparr>"
    have p: "conf_inv cfg2 prs2" "outgoing (tc_Voters cfg2) = Some (ids ?inc)"
        "ids (incoming (tc_Voters cfg2)) \<noteq> {||}"
      using post Inr q by (auto simp: same_outgoing_def outgoing_def)
    then have jt: "joint ?cfg2" using ne by (simp add: joint_iff)
    then have "conf_inv ?cfg2 prs2" using p(1) by (simp add: conf_inv_def Let_def joint_def)
    then show ?thesis
      using r Inr q notjoint False ne p jt
      by (auto simp: EnterJoint_def checkAndCopy_ok [OF assms] conf_inv_checkAndReturn)
  qed
qed

lemma foldM_markLearner:
  "(\<And>v. v \<in> set vs \<Longrightarrow> v |\<in>| fmdom prs) \<Longrightarrow>
     \<exists>prs'. foldM markLearner prs vs = Some prs' \<and> fmdom prs' = fmdom prs \<and>
       (\<forall>v. isLearnerIn prs' v \<longleftrightarrow> isLearnerIn prs v \<or> v \<in> set vs)"
proof (induction vs arbitrary: prs)
  case Nil
  then show ?case by simp
next
  case (Cons x vs)
  then obtain pr where pr: "fmlookup prs x = Some pr" by (meson fmlookup_dom_iff list.set_intros(1))
  let ?prs = "fmupd x (pr\<lparr>pr_IsLearner := True\<rparr>) prs"
  have dom: "fmdom ?prs = fmdom prs" using pr by (auto simp: fmlookup_dom_iff intro: fset_eqI)
  have "v |\<in>| fmdom ?prs" if "v \<in> set vs" for v using Cons.prems that by simp
  from Cons.IH [OF this] obtain prs' where "foldM markLearner ?prs vs = Some prs'"
      "fmdom prs' = fmdom ?prs" "\<forall>v. isLearnerIn prs' v \<longleftrightarrow> isLearnerIn ?prs v \<or> v \<in> set vs"
    by blast
  moreover have "markLearner prs x = Some ?prs" by (simp add: markLearner_def pr)
  ultimately have "foldM markLearner prs (x # vs) = Some prs'" "fmdom prs' = fmdom prs"
      "\<forall>v. isLearnerIn prs' v \<longleftrightarrow> isLearnerIn prs v \<or> v \<in> set (x # vs)"
    using dom by (auto split: if_splits)
  then show ?case by blast
qed

lemma fold_nilAwareAdd: "fset (ids (fold (\<lambda>v m. nilAwareAdd m v) vs m)) = fset (ids m) \<union> set vs"
  by (induction vs arbitrary: m) auto

lemma fold_fmdrop:
  "fold (\<lambda>v m. if P v then fmdrop v m else m) vs m = fmfilter (\<lambda>v. \<not> (P v \<and> v \<in> set vs)) m"
proof (induction vs arbitrary: m)
  case (Cons x vs)
  then show ?case by (auto intro!: fmap_ext)
qed simp

text \<open>Leaving it keeps the incoming voters and promotes the staged learners.\<close>

lemma LeaveJoint_inv:
  assumes "changer_inv c"
  shows "\<exists>r. LeaveJoint c = Some r \<and> (\<forall>cfg' prs'. r = Inr (cfg', prs') \<longrightarrow>
    conf_inv cfg' prs' \<and> joint (chg_Config c) \<and> \<not> joint cfg' \<and>
    incoming (tc_Voters cfg') = incoming (tc_Voters (chg_Config c)) \<and>
    ids (tc_Learners cfg') = ids (tc_Learners (chg_Config c)) |\<union>| ids (tc_LearnersNext (chg_Config c)))"
proof (cases "joint (chg_Config c)")
  case False
  then show ?thesis by (simp add: LeaveJoint_def checkAndCopy_ok [OF assms] joint_def)
next
  case True
  let ?cfg = "CloneConfig (chg_Config c)" and ?prs = "pt_Progress (chg_Tracker c)"
  define inc out lrn nxt where "inc = incoming (tc_Voters (chg_Config c))"
    and "out = outgoing (tc_Voters (chg_Config c))" and "lrn = tc_Learners (chg_Config c)"
    and "nxt = tc_LearnersNext (chg_Config c)"
  note fs = inc_def out_def lrn_def nxt_def
  have inv: "inc \<noteq> None" "\<And>v. v |\<in>| fmdom ?prs \<longleftrightarrow> v |\<in>| ids inc \<or> v |\<in>| ids out \<or> v |\<in>| ids lrn"
    "\<And>v. v |\<in>| ids nxt \<Longrightarrow> v |\<in>| ids out \<and> v |\<notin>| ids inc"
    "\<And>v. v |\<in>| ids lrn \<Longrightarrow> v |\<notin>| ids inc \<and> v |\<notin>| ids out"
    "\<And>v. isLearnerIn ?prs v \<longleftrightarrow> v |\<in>| ids lrn"
    using assms unfolding changer_inv_def conf_inv_def Let_def fs by blast+
  define learners where "learners = fold (\<lambda>v m. nilAwareAdd m v) (SliceIds nxt) lrn"
  have learners: "ids learners = ids lrn |\<union>| ids nxt"
    by (auto simp: learners_def fset_inject [symmetric] fold_nilAwareAdd)
  have "v |\<in>| fmdom ?prs" if "v \<in> set (SliceIds nxt)" for v using that inv(2,3) by auto
  then obtain prs1 where prs1: "foldM markLearner ?prs (SliceIds nxt) = Some prs1"
      "fmdom prs1 = fmdom ?prs" "\<forall>v. isLearnerIn prs1 v \<longleftrightarrow> isLearnerIn ?prs v \<or> v |\<in>| ids nxt"
    using foldM_markLearner [of "SliceIds nxt" ?prs] by auto
  define prs2 where "prs2 = fold (\<lambda>v m. if v |\<notin>| ids inc \<and> v |\<notin>| ids learners then fmdrop v m else m)
      (SliceIds out) prs1"
  have prs2: "fmlookup prs2 v = (if v |\<in>| ids out \<and> v |\<notin>| ids inc \<and> v |\<notin>| ids learners then None
      else fmlookup prs1 v)" for v
    by (auto simp: prs2_def fold_fmdrop)
  let ?cfg' = "?cfg\<lparr>tc_Voters := (inc, None), tc_AutoLeave := False, tc_Learners := learners,
      tc_LearnersNext := None\<rparr>"
  have ret: "LeaveJoint c = Some (checkAndReturn ?cfg' prs2)"
    using True True [unfolded joint_iff] prs1(1)
    by (simp add: LeaveJoint_def checkAndCopy_ok [OF assms] fs [symmetric]
        learners_def [symmetric] prs2_def)
  have dom2: "v |\<in>| fmdom prs2 \<longleftrightarrow> v |\<in>| ids inc \<or> v |\<in>| ids learners" for v
  proof -
    have "v |\<in>| fmdom prs2 \<longleftrightarrow> v |\<in>| fmdom prs1 \<and> (v |\<in>| ids out \<longrightarrow> v |\<in>| ids inc \<or> v |\<in>| ids learners)"
      by (auto simp: fmlookup_dom_iff prs2 split: if_splits)
    then show ?thesis using prs1(2) inv(2,3) [of v] learners by auto
  qed
  have lrn2: "isLearnerIn prs2 v \<longleftrightarrow> v |\<in>| ids learners" for v
  proof -
    have "isLearnerIn prs2 v \<longleftrightarrow> isLearnerIn prs1 v \<and> v |\<in>| fmdom prs2"
      by (auto simp: isLearnerIn_def prs2 fmlookup_dom_iff split: option.splits if_splits)
    then show ?thesis using prs1(3) inv(5) [of v] dom2 [of v] learners by auto
  qed
  have "conf_inv ?cfg' prs2"
    using inv(1) inv(3,4) dom2 lrn2 learners
    by (simp add: conf_inv_def Let_def incoming_def outgoing_def joint_def)
  then show ?thesis using ret True learners
    by (simp add: conf_inv_checkAndReturn joint_def incoming_def outgoing_def fs)
qed

subsection \<open>Quorums before and after\<close>

lemma quorums_meet_symdiff:
  assumes "symdiff c d \<le> 1" and "is_quorum c A" and "is_quorum d B"
    and "ids c \<noteq> {||}" and "ids d \<noteq> {||}"
  shows "A \<inter> B \<noteq> {}"
proof
  assume disj: "A \<inter> B = {}"
  let ?U = "fset (ids c)" and ?V = "fset (ids d)"
  have A: "card ?U div 2 + 1 \<le> card (?U \<inter> A)" and B: "card ?V div 2 + 1 \<le> card (?V \<inter> B)"
    using assms(2-5) by (auto simp: is_quorum_def fcard.rep_eq)
  have d: "card (?U - ?V) + card (?V - ?U) \<le> 1"
    using assms(1) by (simp add: symdiff_def fcard.rep_eq)
  have "card (?U \<inter> A) + card (?V \<inter> B) = card ((?U \<inter> A) \<union> (?V \<inter> B))"
    using disj by (intro card_Un_disjoint [symmetric]) auto
  also have "\<dots> \<le> card (?U \<union> ?V)" by (intro card_mono) auto
  finally have le: "card (?U \<inter> A) + card (?V \<inter> B) \<le> card (?U \<union> ?V)" .
  have "card (?U \<union> ?V) = card ?U + card (?V - ?U)" "card (?U \<union> ?V) = card ?V + card (?U - ?V)"
    by (metis Un_Diff_cancel card_Un_disjoint Diff_disjoint finite_Diff finite_fset)
      (metis Un_Diff_cancel Un_commute card_Un_disjoint Diff_disjoint finite_Diff finite_fset)
  with le A B d show False by linarith
qed

text \<open>A joint quorum of the old configuration and one of the new have a common member.\<close>

definition quorums_meet :: "jointConfig \<Rightarrow> jointConfig \<Rightarrow> bool" where
  "quorums_meet c d \<longleftrightarrow>
     (\<forall>A B. is_joint_quorum c A \<longrightarrow> is_joint_quorum d B \<longrightarrow> A \<inter> B \<noteq> {})"

lemma quorums_meet_shared:
  assumes "ids h \<noteq> {||}" and "ids h \<in> {ids (fst c), ids (snd c)}" and "ids h \<in> {ids (fst d), ids (snd d)}"
  shows "quorums_meet c d"
proof -
  have "is_quorum h A" if "is_joint_quorum e A" "ids h \<in> {ids (fst e), ids (snd e)}" for e A
    using that by (auto simp: is_joint_quorum_def is_quorum_def)
  then show ?thesis unfolding quorums_meet_def using assms maj.quorum_intersect by metis
qed

lemma Simple_meet:
  assumes "changer_inv c" and "Simple c ccs = Some (Inr (cfg', prs'))"
    and "ids (incoming (tc_Voters (chg_Config c))) \<noteq> {||}"
  shows "quorums_meet (tc_Voters (chg_Config c)) (tc_Voters cfg')"
proof -
  obtain r where "Simple c ccs = Some r" "\<forall>cfg' prs'. r = Inr (cfg', prs') \<longrightarrow>
    conf_inv cfg' prs' \<and> \<not> joint (chg_Config c) \<and> outgoing (tc_Voters cfg') = None \<and>
    ids (incoming (tc_Voters cfg')) \<noteq> {||} \<and>
    symdiff (incoming (tc_Voters (chg_Config c))) (incoming (tc_Voters cfg')) \<le> 1"
    using Simple_inv [OF assms(1), of ccs] by blast
  then have "ids (incoming (tc_Voters cfg')) \<noteq> {||}"
    "symdiff (incoming (tc_Voters (chg_Config c))) (incoming (tc_Voters cfg')) \<le> 1"
    using assms(2) by auto
  then show ?thesis
    unfolding quorums_meet_def is_joint_quorum_def
    using quorums_meet_symdiff assms(3) by (metis incoming_def)
qed

lemma EnterJoint_meet:
  assumes "changer_inv c" and "EnterJoint c autoLeave ccs = Some (Inr (cfg', prs'))"
  shows "quorums_meet (tc_Voters (chg_Config c)) (tc_Voters cfg')"
proof -
  have "ids (outgoing (tc_Voters cfg')) = ids (incoming (tc_Voters (chg_Config c)))" "joint cfg'"
    using EnterJoint_inv [OF assms(1), of autoLeave ccs] assms(2) by auto
  then show ?thesis
    by (intro quorums_meet_shared [of "outgoing (tc_Voters cfg')"])
      (simp_all add: joint_iff incoming_def outgoing_def)
qed

lemma LeaveJoint_meet:
  assumes "changer_inv c" and "LeaveJoint c = Some (Inr (cfg', prs'))"
    and "ids (incoming (tc_Voters (chg_Config c))) \<noteq> {||}"
  shows "quorums_meet (tc_Voters (chg_Config c)) (tc_Voters cfg')"
proof -
  have "incoming (tc_Voters cfg') = incoming (tc_Voters (chg_Config c))"
    using LeaveJoint_inv [OF assms(1)] assms(2) by auto
  then show ?thesis using assms(3)
    by (intro quorums_meet_shared [of "incoming (tc_Voters cfg')"])
      (simp_all add: incoming_def)
qed

end
