(* ===== verification/ReadOnly.thy ===== *)
theory ReadOnly
  imports Quorum Raftpb
begin

text \<open>
  \<open>glee-etcd/raft/read_only.go\<close>: the queue of linearizable reads that wait for a quorum of heartbeat
  acknowledgements. A read is identified by its context string. Panics are \<open>None\<close>.
\<close>

datatype readOnlyOption = ReadOnlySafe | ReadOnlyLeaseBased | ReadOnlyOther int

record readState =
  rd_Index :: nat
  rd_RequestCtx :: gobytes

record readIndexStatus =
  rs_req :: message
  rs_index :: nat
  rs_acks :: "(nat, bool) fmap"

record readOnly =
  ro_option :: readOnlyOption
  ro_pendingReadIndex :: "(string, readIndexStatus) fmap"
  ro_readIndexQueue :: "string list"

definition newReadOnly :: "readOnlyOption \<Rightarrow> readOnly" where
  "newReadOnly opt = \<lparr>ro_option = opt, ro_pendingReadIndex = fmempty, ro_readIndexQueue = []\<rparr>"

text \<open>The context of a request: the data of its first entry.\<close>

definition reqCtx :: "message \<Rightarrow> string option" where
  "reqCtx m = do { e \<leftarrow> goIndex (m_Entries m) 0; Some (bytesOf (e_Data e)) }"

definition addRequest :: "readOnly \<Rightarrow> nat \<Rightarrow> message \<Rightarrow> readOnly option" where
  "addRequest ro index m =
     do { s \<leftarrow> reqCtx m;
          case fmlookup (ro_pendingReadIndex ro) s of
            Some _ \<Rightarrow> Some ro
          | None \<Rightarrow> Some (ro\<lparr>
              ro_pendingReadIndex := fmupd s \<lparr>rs_req = m, rs_index = index, rs_acks = fmempty\<rparr> (ro_pendingReadIndex ro),
              ro_readIndexQueue := ro_readIndexQueue ro @ [s]\<rparr>) }"

text \<open>The acknowledgements so far; a nil map for an unknown context.\<close>

definition recvAck :: "readOnly \<Rightarrow> nat \<Rightarrow> string \<Rightarrow> (nat, bool) fmap \<times> readOnly" where
  "recvAck ro v context =
     (case fmlookup (ro_pendingReadIndex ro) context of
        None \<Rightarrow> (fmempty, ro)
      | Some rs \<Rightarrow>
          let rs1 = rs\<lparr>rs_acks := fmupd v True (rs_acks rs)\<rparr>
          in (rs_acks rs1, ro\<lparr>ro_pendingReadIndex := fmupd context rs1 (ro_pendingReadIndex ro)\<rparr>))"

text \<open>The loop over the queue collects the statuses up to the wanted context.\<close>

fun advanceLoop ::
  "(string, readIndexStatus) fmap \<Rightarrow> string \<Rightarrow> string list \<Rightarrow> nat \<Rightarrow> readIndexStatus list \<Rightarrow>
     (bool \<times> nat \<times> readIndexStatus list) option" where
  "advanceLoop pending ctx [] i rss = Some (False, i, rss)"
| "advanceLoop pending ctx (okctx # q) i rss =
     (case fmlookup pending okctx of
        None \<Rightarrow> None
      | Some rs \<Rightarrow>
          if okctx = ctx then Some (True, i + 1, rss @ [rs])
          else advanceLoop pending ctx q (i + 1) (rss @ [rs]))"

definition advanceReadOnly :: "readOnly \<Rightarrow> message \<Rightarrow> (readIndexStatus list \<times> readOnly) option" where
  "advanceReadOnly ro m =
     do { (found, i, rss) \<leftarrow> advanceLoop (ro_pendingReadIndex ro) (m_Context m) (ro_readIndexQueue ro) 0 [];
          if found then do {
            queue \<leftarrow> goSlice (ro_readIndexQueue ro) i (length (ro_readIndexQueue ro));
            pending \<leftarrow> foldM (\<lambda>p rs. do { s \<leftarrow> reqCtx (rs_req rs); Some (fmdrop s p) })
                         (ro_pendingReadIndex ro) rss;
            Some (rss, ro\<lparr>ro_readIndexQueue := queue, ro_pendingReadIndex := pending\<rparr>) }
          else Some ([], ro) }"

definition lastPendingRequestCtx :: "readOnly \<Rightarrow> string" where
  "lastPendingRequestCtx ro =
     (if length (ro_readIndexQueue ro) = 0 then [] else List.last (ro_readIndexQueue ro))"

subsection \<open>The queue and the map agree\<close>

text \<open>Every queued context is pending, once, under the context of its own request, and nothing else is.\<close>

definition readOnly_inv :: "readOnly \<Rightarrow> bool" where
  "readOnly_inv ro \<longleftrightarrow> distinct (ro_readIndexQueue ro) \<and>
     (\<forall>s. s |\<in>| fmdom (ro_pendingReadIndex ro) \<longleftrightarrow> s \<in> set (ro_readIndexQueue ro)) \<and>
     (\<forall>s rs. fmlookup (ro_pendingReadIndex ro) s = Some rs \<longrightarrow> reqCtx (rs_req rs) = Some s)"

lemma newReadOnly_inv [simp]: "readOnly_inv (newReadOnly opt)"
  by (simp add: readOnly_inv_def newReadOnly_def)

lemma addRequest_inv:
  assumes "readOnly_inv ro" and "addRequest ro i m = Some ro'"
  shows "readOnly_inv ro'"
proof -
  obtain s where s: "reqCtx m = Some s" using assms(2) by (auto simp: addRequest_def split: Option.bind_splits)
  show ?thesis
  proof (cases "fmlookup (ro_pendingReadIndex ro) s")
    case None
    then have "s |\<notin>| fmdom (ro_pendingReadIndex ro)" by (simp add: fmlookup_dom_iff)
    then show ?thesis using assms s None by (auto simp: readOnly_inv_def addRequest_def split: if_splits)
  qed (use assms s in \<open>auto simp: addRequest_def\<close>)
qed

lemma recvAck_inv:
  assumes "readOnly_inv ro"
  shows "readOnly_inv (snd (recvAck ro v ctx))"
proof (cases "fmlookup (ro_pendingReadIndex ro) ctx")
  case None
  then show ?thesis using assms by (simp add: recvAck_def)
next
  case (Some rs)
  then have "ctx |\<in>| fmdom (ro_pendingReadIndex ro)" by (simp add: fmlookup_dom_iff)
  with Some show ?thesis using assms by (auto simp: readOnly_inv_def recvAck_def Let_def)
qed

text \<open>On a consistent queue the loop finds a context at its position, with the statuses up to it.\<close>

lemma advanceLoop_found:
  assumes "\<And>s. s \<in> set (qs @ [ctx]) \<Longrightarrow> fmlookup pending s = Some (st s)" and "ctx \<notin> set qs"
  shows "advanceLoop pending ctx (qs @ ctx # rest) i rss =
    Some (True, i + length qs + 1, rss @ map st (qs @ [ctx]))"
  using assms by (induction qs arbitrary: i rss) auto

lemma advanceLoop_missing:
  assumes "\<And>s. s \<in> set qs \<Longrightarrow> s |\<in>| fmdom pending" and "ctx \<notin> set qs"
  shows "\<exists>i' rss'. advanceLoop pending ctx qs i rss = Some (False, i', rss')"
  using assms by (induction qs arbitrary: i rss) (auto simp: fmlookup_dom_iff split: option.splits)

lemma foldM_fmdrop:
  "(\<And>rs. rs \<in> set rss \<Longrightarrow> reqCtx (rs_req rs) = Some (key rs)) \<Longrightarrow>
     foldM (\<lambda>p rs. do { s \<leftarrow> reqCtx (rs_req rs); Some (fmdrop s p) }) p rss =
     Some (fmfilter (\<lambda>s. s \<notin> key ` set rss) p)"
proof (induction rss arbitrary: p)
  case (Cons rs rss)
  then show ?case by (auto intro!: fmap_ext)
qed simp

text \<open>
  Acknowledging a read answers it together with every read queued before it, in order, removes
  exactly those, and leaves the rest of the queue waiting.
\<close>

lemma advanceReadOnly_ok:
  assumes inv: "readOnly_inv ro" and q: "ro_readIndexQueue ro = qs @ m_Context m # rest"
  shows "\<exists>rss ro'. advanceReadOnly ro m = Some (rss, ro') \<and> readOnly_inv ro' \<and> ro_readIndexQueue ro' = rest \<and>
    ro_option ro' = ro_option ro \<and> map (\<lambda>rs. reqCtx (rs_req rs)) rss = map Some (qs @ [m_Context m])"
proof -
  let ?p = "ro_pendingReadIndex ro" and ?ctx = "m_Context m"
  define st where "st s = the (fmlookup ?p s)" for s
  have dist: "distinct (qs @ ?ctx # rest)" using inv q by (simp add: readOnly_inv_def)
  have st: "fmlookup ?p s = Some (st s)" "reqCtx (rs_req (st s)) = Some s" if "s \<in> set (qs @ ?ctx # rest)" for s
  proof -
    have "s |\<in>| fmdom ?p" using that inv q by (simp add: readOnly_inv_def)
    then show "fmlookup ?p s = Some (st s)" by (auto simp: st_def fmlookup_dom_iff)
    then show "reqCtx (rs_req (st s)) = Some s" using inv by (simp add: readOnly_inv_def)
  qed
  let ?rss = "map st (qs @ [?ctx])"
  let ?ro = "ro\<lparr>ro_readIndexQueue := rest, ro_pendingReadIndex := fmfilter (\<lambda>s. s \<notin> set (qs @ [?ctx])) ?p\<rparr>"
  have loop: "advanceLoop ?p ?ctx (ro_readIndexQueue ro) 0 [] = Some (True, length qs + 1, ?rss)"
    using advanceLoop_found [of qs ?ctx ?p st rest 0 "[]"] st dist q by auto
  define key where "key rs = the (reqCtx (rs_req rs))" for rs :: readIndexStatus
  have key: "reqCtx (rs_req rs) = Some (key rs)" if "rs \<in> set ?rss" for rs
    using that st(2) by (auto simp: key_def)
  have "key ` set ?rss = set (qs @ [?ctx])"
  proof -
    have "key (st s) = s" if "s \<in> set (qs @ [?ctx])" for s using that st(2) by (auto simp: key_def)
    then have "key ` st ` set (qs @ [?ctx]) = set (qs @ [?ctx])" by force
    then show ?thesis by simp
  qed
  then have "foldM (\<lambda>p rs. do { s \<leftarrow> reqCtx (rs_req rs); Some (fmdrop s p) }) ?p ?rss =
      Some (fmfilter (\<lambda>s. s \<notin> set (qs @ [?ctx])) ?p)"
    using foldM_fmdrop [of ?rss key ?p] key by simp
  then have "advanceReadOnly ro m = Some (?rss, ?ro)"
    using loop q by (simp add: advanceReadOnly_def)
  moreover have "readOnly_inv ?ro"
    using inv dist q unfolding readOnly_inv_def by (auto split: if_splits)
  moreover have "map (\<lambda>rs. reqCtx (rs_req rs)) ?rss = map Some (qs @ [?ctx])"
    using st(2) by auto
  ultimately show ?thesis by auto
qed

lemma advanceReadOnly_unknown:
  assumes inv: "readOnly_inv ro" and "m_Context m \<notin> set (ro_readIndexQueue ro)"
  shows "advanceReadOnly ro m = Some ([], ro)"
proof -
  obtain i rss where "advanceLoop (ro_pendingReadIndex ro) (m_Context m) (ro_readIndexQueue ro) 0 [] = Some (False, i, rss)"
    using advanceLoop_missing assms by (metis readOnly_inv_def)
  then show ?thesis by (simp add: advanceReadOnly_def)
qed

lemma advanceReadOnly_inv:
  assumes "readOnly_inv ro" and "advanceReadOnly ro m = Some (rss, ro')"
  shows "readOnly_inv ro' \<and> ro_option ro' = ro_option ro \<and>
    (\<forall>rs \<in> set rss. \<exists>s. reqCtx (rs_req rs) = Some s)"
proof (cases "m_Context m \<in> set (ro_readIndexQueue ro)")
  case True
  then obtain qs rest where "ro_readIndexQueue ro = qs @ m_Context m # rest" by (meson split_list)
  from advanceReadOnly_ok [OF assms(1) this] assms(2)
  have r: "readOnly_inv ro'" "ro_option ro' = ro_option ro"
    "map (\<lambda>rs. reqCtx (rs_req rs)) rss = map Some (qs @ [m_Context m])" by auto
  have "\<exists>s. reqCtx (rs_req rs) = Some s" if "rs \<in> set rss" for rs
  proof -
    have "reqCtx (rs_req rs) \<in> set (map (\<lambda>rs. reqCtx (rs_req rs)) rss)" using that by auto
    then show ?thesis unfolding r(3) by auto
  qed
  then show ?thesis using r by blast
next
  case False
  then show ?thesis using advanceReadOnly_unknown [OF assms(1)] assms by auto
qed

end
