(* ===== verification/RaftState.thy ===== *)
theory RaftState
  imports RaftLogOps ConfchangeSafety ReadOnly
begin

text \<open>
  \<open>glee-etcd/raft/raft.go\<close>, the state: constants, \<open>Config\<close> and its validation, the \<open>raft\<close> struct and
  its small accessors. What the code takes from its surroundings (the wire codec of configuration
  changes, the random source, the clock, the order in which Go ranges over a map) is the record
  \<open>env\<close>: each is an arbitrary sequence with the position reached so far. The method values stored
  in \<open>step\<close> and \<open>tick\<close> are tags.
\<close>

datatype stateType = StateFollower | StateCandidate | StateLeader | StatePreCandidate

datatype campaignType = campaignPreElection | campaignElection | campaignTransfer

fun campaignString :: "campaignType \<Rightarrow> string" where
  "campaignString campaignPreElection = ''CampaignPreElection''"
| "campaignString campaignElection = ''CampaignElection''"
| "campaignString campaignTransfer = ''CampaignTransfer''"

datatype raftErr = ErrProposalDropped | ErrStepLocalMsg | ErrStepPeerNotFound

datatype configErr =
    ErrIDNone | ErrHeartbeatTick | ErrElectionTick | ErrStorageNil | ErrMaxInflight | ErrLeaseNoQuorum

text \<open>The time of the last probe is \<open>None\<close> while it is Go's zero time.\<close>

record rttMetaInfo =
  rtt_isProbed :: bool
  rtt_lastProbingTime :: "int option"
  rtt_timeStamp :: int

definition emptyRtt :: rttMetaInfo where
  "emptyRtt = \<lparr>rtt_isProbed = False, rtt_lastProbingTime = None, rtt_timeStamp = 0\<rparr>"

record config =
  c_ID :: nat
  c_peers :: "nat list"
  c_learners :: "nat list"
  c_ElectionTick :: int
  c_HeartbeatTick :: int
  c_RttprobeTick :: int
  c_Storage :: "memoryStorage option"
  c_Applied :: nat
  c_MaxSizePerMsg :: nat
  c_MaxCommittedSizePerReady :: nat
  c_MaxUncommittedEntriesSize :: nat
  c_MaxInflightMsgs :: int
  c_CheckQuorum :: bool
  c_PreVote :: bool
  c_NetworkSimulation :: bool
  c_ReadOnlyOption :: readOnlyOption
  c_DisableProposalForwarding :: bool

text \<open>\<open>validate\<close> checks in the order of the code and fills in defaults on the way.\<close>

definition validate :: "config \<Rightarrow> configErr + config" where
  "validate c =
     (if c_ID c = 0 then Inl ErrIDNone
      else if c_HeartbeatTick c \<le> 0 then Inl ErrHeartbeatTick
      else if c_ElectionTick c \<le> c_HeartbeatTick c then Inl ErrElectionTick
      else if c_Storage c = None then Inl ErrStorageNil
      else
        let c1 = (if c_MaxUncommittedEntriesSize c = 0 then c\<lparr>c_MaxUncommittedEntriesSize := noLimit\<rparr> else c);
            c2 = (if c_MaxCommittedSizePerReady c1 = 0
                  then c1\<lparr>c_MaxCommittedSizePerReady := c_MaxSizePerMsg c1\<rparr> else c1) in
        if c_MaxInflightMsgs c2 \<le> 0 then Inl ErrMaxInflight
        else if c_ReadOnlyOption c2 = ReadOnlyLeaseBased \<and> \<not> c_CheckQuorum c2 then Inl ErrLeaseNoQuorum
        else Inr c2)"

text \<open>The surroundings. \<open>env_order n ks\<close> is the order in which the \<open>n\<close>th range over a map with the keys
  \<open>ks\<close> visits them.\<close>

record env =
  env_codec :: codec
  env_rand :: "nat \<Rightarrow> nat"
  env_randPos :: nat
  env_clock :: "nat \<Rightarrow> int"
  env_clockPos :: nat
  env_order :: "nat \<Rightarrow> nat list \<Rightarrow> nat list"
  env_orderPos :: nat

datatype stepFunc = StepFollower | StepCandidate | StepLeader

datatype tickFunc = TickElection | TickHeartbeat

record raft =
  r_env :: env
  r_id :: nat
  r_Term :: nat
  r_Vote :: nat
  r_readStates :: "readState list"
  r_raftLog :: raftLog
  r_maxMsgSize :: nat
  r_maxUncommittedSize :: nat
  r_prs :: progressTracker
  r_state :: stateType
  r_isLearner :: bool
  r_msgs :: "message list"
  r_lead :: nat
  r_leadTransferee :: nat
  r_pendingConfIndex :: nat
  r_uncommittedSize :: nat
  r_readOnly :: readOnly
  r_electionElapsed :: int
  r_heartbeatElapsed :: int
  r_rttprobeElapsed :: int
  r_leaderTransferElapsed :: int
  r_checkQuorum :: bool
  r_preVote :: bool
  r_networkSimulation :: bool
  r_testingVariable :: bool
  r_heartbeatTimeout :: int
  r_electionTimeout :: int
  r_electionPenaltyTime :: int
  r_randomizedElectionTimeout :: int
  r_disableProposalForwarding :: bool
  r_rttprobeTimeout :: int
  r_leaderTransferTimeout :: int
  r_rttMap :: "(nat, rttMetaInfo) fmap"
  r_rttMap_old :: "(nat, rttMetaInfo) fmap"
  r_nodeLatency :: "(nat, (nat, int) fmap) fmap"
  r_tick :: tickFunc
  r_step :: stepFunc
  r_pendingReadIndexMessages :: "message list"

record softState =
  ss_Lead :: nat
  ss_RaftState :: stateType

definition hasLeader :: "raft \<Rightarrow> bool" where
  "hasLeader r \<longleftrightarrow> r_lead r \<noteq> 0"

definition softStateOf :: "raft \<Rightarrow> softState" where
  "softStateOf r = \<lparr>ss_Lead = r_lead r, ss_RaftState = r_state r\<rparr>"

definition hardStateOf :: "raft \<Rightarrow> hardState" where
  "hardStateOf r = \<lparr>hs_Term = r_Term r, hs_Vote = r_Vote r, hs_Commit = rl_committed (r_raftLog r)\<rparr>"

abbreviation progressOf :: "raft \<Rightarrow> nat \<Rightarrow> progress option" where
  "progressOf r v \<equiv> fmlookup (pt_Progress (r_prs r)) v"

text \<open>Writing through a progress pointer of the tracker.\<close>

definition setProgress :: "raft \<Rightarrow> nat \<Rightarrow> progress \<Rightarrow> raft" where
  "setProgress r v pr = r\<lparr>r_prs := (r_prs r)\<lparr>pt_Progress := fmupd v pr (pt_Progress (r_prs r))\<rparr>\<rparr>"

definition promotable :: "raft \<Rightarrow> bool" where
  "promotable r = (case progressOf r (r_id r) of None \<Rightarrow> False | Some pr \<Rightarrow> \<not> pr_IsLearner pr)"

definition pastElectionTimeout :: "raft \<Rightarrow> bool" where
  "pastElectionTimeout r \<longleftrightarrow> r_electionElapsed r \<ge> r_randomizedElectionTimeout r"

definition pastRttprobeTimeout :: "raft \<Rightarrow> bool" where
  "pastRttprobeTimeout r \<longleftrightarrow> r_rttprobeElapsed r \<ge> r_rttprobeTimeout r"

definition pastLeaderTransferTimeout :: "raft \<Rightarrow> bool" where
  "pastLeaderTransferTimeout r \<longleftrightarrow> r_leaderTransferElapsed r \<ge> r_leaderTransferTimeout r"

text \<open>\<open>rand.Intn\<close> panics on a non-positive bound.\<close>

definition Intn :: "raft \<Rightarrow> int \<Rightarrow> (int \<times> raft) option" where
  "Intn r n =
     (if n \<le> 0 then None
      else let e = r_env r in
        Some (int (env_rand e (env_randPos e)) mod n, r\<lparr>r_env := e\<lparr>env_randPos := env_randPos e + 1\<rparr>\<rparr>))"

definition Now :: "raft \<Rightarrow> int \<times> raft" where
  "Now r = (let e = r_env r in
     (env_clock e (env_clockPos e), r\<lparr>r_env := e\<lparr>env_clockPos := env_clockPos e + 1\<rparr>\<rparr>))"

definition rangeOrder :: "raft \<Rightarrow> nat list \<Rightarrow> nat list \<times> raft" where
  "rangeOrder r ks = (let e = r_env r in
     (env_order e (env_orderPos e) ks, r\<lparr>r_env := e\<lparr>env_orderPos := env_orderPos e + 1\<rparr>\<rparr>))"

definition resetRandomizedElectionTimeout :: "raft \<Rightarrow> raft option" where
  "resetRandomizedElectionTimeout r =
     (if r_electionPenaltyTime r = 0
      then do { (k, r1) \<leftarrow> Intn r (r_electionTimeout r);
                Some (r1\<lparr>r_randomizedElectionTimeout := r_electionTimeout r + k\<rparr>) }
      else Some (r\<lparr>r_randomizedElectionTimeout := r_electionTimeout r + r_electionPenaltyTime r\<rparr>))"

definition abortLeaderTransfer :: "raft \<Rightarrow> raft" where
  "abortLeaderTransfer r = r\<lparr>r_leadTransferee := 0\<rparr>"

definition loadState :: "raft \<Rightarrow> hardState \<Rightarrow> raft option" where
  "loadState r st =
     (if hs_Commit st < rl_committed (r_raftLog r) \<or> hs_Commit st > lastIndex (r_raftLog r) then None
      else Some (r\<lparr>r_raftLog := (r_raftLog r)\<lparr>rl_committed := hs_Commit st\<rparr>,
                   r_Term := hs_Term st, r_Vote := hs_Vote st\<rparr>))"

definition committedEntryInCurrentTerm :: "raft \<Rightarrow> bool option" where
  "committedEntryInCurrentTerm r =
     do { t \<leftarrow> termAt (r_raftLog r) (rl_committed (r_raftLog r));
          z \<leftarrow> zeroTermOnErrCompacted t;
          Some (z = r_Term r) }"

subsection \<open>The quota of uncommitted bytes\<close>

fun payloadSum :: "entry list \<Rightarrow> nat \<Rightarrow> nat" where
  "payloadSum [] s = s"
| "payloadSum (e # es) s = payloadSum es (add64 s (PayloadSize e))"

definition increaseUncommittedSize :: "raft \<Rightarrow> entry list \<Rightarrow> bool \<times> raft" where
  "increaseUncommittedSize r ents =
     (let s = payloadSum ents 0 in
      if r_uncommittedSize r > 0 \<and> add64 (r_uncommittedSize r) s > r_maxUncommittedSize r then (False, r)
      else (True, r\<lparr>r_uncommittedSize := add64 (r_uncommittedSize r) s\<rparr>))"

definition reduceUncommittedSize :: "raft \<Rightarrow> entry list \<Rightarrow> raft" where
  "reduceUncommittedSize r ents =
     (if r_uncommittedSize r = 0 then r
      else
        let s = payloadSum ents 0 in
        if s > r_uncommittedSize r then r\<lparr>r_uncommittedSize := 0\<rparr>
        else r\<lparr>r_uncommittedSize := r_uncommittedSize r - s\<rparr>)"

definition numOfPendingConf :: "entry list \<Rightarrow> nat" where
  "numOfPendingConf ents = length (filter (\<lambda>e. e_Type e = EntryConfChange) ents)"

subsection \<open>Message classes\<close>

definition IsLocalMsg :: "messageType \<Rightarrow> bool" where
  "IsLocalMsg t \<longleftrightarrow> t = MsgHup \<or> t = MsgBeat \<or> t = MsgUnreachable \<or> t = MsgSnapStatus \<or> t = MsgCheckQuorum"

definition IsResponseMsg :: "messageType \<Rightarrow> bool" where
  "IsResponseMsg t \<longleftrightarrow> t = MsgAppResp \<or> t = MsgVoteResp \<or> t = MsgHeartbeatResp \<or> t = MsgUnreachable
     \<or> t = MsgPreVoteResp"

definition voteRespMsgType :: "messageType \<Rightarrow> messageType option" where
  "voteRespMsgType t = (case t of MsgVote \<Rightarrow> Some MsgVoteResp | MsgPreVote \<Rightarrow> Some MsgPreVoteResp | _ \<Rightarrow> None)"

definition IsEmptyHardState :: "hardState \<Rightarrow> bool" where
  "IsEmptyHardState st \<longleftrightarrow> st = emptyHardState"

definition IsEmptySnap :: "snapshot \<Rightarrow> bool" where
  "IsEmptySnap sp \<longleftrightarrow> snapIndex sp = 0"

end
