(* ===== verification/RaftCore.thy ===== *)
theory RaftCore
  imports RaftState
begin

text \<open>
  \<open>glee-etcd/raft/raft.go\<close>, the operations the handlers are made of: sending, committing, resetting,
  appending to one's own log, changing roles, and campaigning. Everything a panic can stop returns
  an option; \<open>None\<close> is a call that does not return.
\<close>

subsection \<open>Sending\<close>

definition isVoteMsg :: "messageType \<Rightarrow> bool" where
  "isVoteMsg t \<longleftrightarrow> t = MsgVote \<or> t = MsgVoteResp \<or> t = MsgPreVote \<or> t = MsgPreVoteResp"

definition send :: "raft \<Rightarrow> message \<Rightarrow> raft option" where
  "send r m0 =
     (let m = m0\<lparr>m_From := r_id r\<rparr> in
      if isVoteMsg (m_Type m) then
        if m_Term m = 0 then None else Some (r\<lparr>r_msgs := r_msgs r @ [m]\<rparr>)
      else if m_Term m \<noteq> 0 then None
      else
        let m1 = (if m_Type m \<noteq> MsgProp \<and> m_Type m \<noteq> MsgReadIndex then m\<lparr>m_Term := r_Term r\<rparr> else m)
        in Some (r\<lparr>r_msgs := r_msgs r @ [m1]\<rparr>))"

text \<open>The message of \<open>maybeSendAppend\<close> for a peer whose log is in reach.\<close>

definition appendMsg :: "raft \<Rightarrow> nat \<Rightarrow> progress \<Rightarrow> nat \<Rightarrow> entry list \<Rightarrow> message" where
  "appendMsg r to pr trm ents = emptyMessage\<lparr>m_To := to, m_Type := MsgApp, m_Index := sub64 (pr_Next pr) 1,
     m_LogTerm := trm, m_Entries := ents, m_Commit := rl_committed (r_raftLog r)\<rparr>"

definition maybeSendAppend :: "raft \<Rightarrow> nat \<Rightarrow> bool \<Rightarrow> (bool \<times> raft) option" where
  "maybeSendAppend r to sendIfEmpty =
     do { pr \<leftarrow> progressOf r to;
          if IsPaused pr then Some (False, r)
          else do {
            errt \<leftarrow> termAt (r_raftLog r) (sub64 (pr_Next pr) 1);
            erre \<leftarrow> entriesFrom (r_raftLog r) (pr_Next pr) (r_maxMsgSize r);
            let ents = (case erre of Inl _ \<Rightarrow> [] | Inr es \<Rightarrow> es);
            if length ents = 0 \<and> \<not> sendIfEmpty then Some (False, r)
            else case (errt, erre) of
              (Inr trm, Inr _) \<Rightarrow>
                do { pr1 \<leftarrow> (if length ents \<noteq> 0 then
                        case pr_State pr of
                          StateReplicate \<Rightarrow> do {
                            let lst = e_Index (List.last ents);
                            let pr' = OptimisticUpdate pr lst;
                            w \<leftarrow> AddInflights (pr_Inflights pr') lst;
                            Some (pr'\<lparr>pr_Inflights := w\<rparr>) }
                        | StateProbe \<Rightarrow> Some (pr\<lparr>pr_ProbeSent := True\<rparr>)
                        | StateSnapshot \<Rightarrow> None
                      else Some pr);
                     r1 \<leftarrow> send (setProgress r to pr1) (appendMsg r to pr trm ents);
                     Some (True, r1) }
            | _ \<Rightarrow>
                if \<not> pr_RecentActive pr then Some (False, r)
                else case l_snapshot (r_raftLog r) of
                  Inl err \<Rightarrow> if err = ErrSnapshotTemporarilyUnavailable then Some (False, r) else None
                | Inr snap \<Rightarrow>
                    if IsEmptySnap snap then None
                    else do {
                      r1 \<leftarrow> send (setProgress r to (BecomeSnapshot pr (snapIndex snap)))
                              (emptyMessage\<lparr>m_To := to, m_Type := MsgSnap, m_Snapshot := snap\<rparr>);
                      Some (True, r1) } } }"

definition sendAppend :: "raft \<Rightarrow> nat \<Rightarrow> raft option" where
  "sendAppend r to = do { (_, r1) \<leftarrow> maybeSendAppend r to True; Some r1 }"

definition sendHeartbeat :: "raft \<Rightarrow> nat \<Rightarrow> string \<Rightarrow> raft option" where
  "sendHeartbeat r to ctx =
     do { pr \<leftarrow> progressOf r to;
          let commit = min (pr_Match pr) (rl_committed (r_raftLog r));
          send r (emptyMessage\<lparr>m_To := to, m_Type := MsgHeartbeat, m_Commit := commit, m_Context := ctx\<rparr>) }"

definition bcastAppend :: "raft \<Rightarrow> raft option" where
  "bcastAppend r = foldM (\<lambda>r v. if v = r_id r then Some r else sendAppend r v) r (VisitIds (r_prs r))"

definition bcastHeartbeatWithCtx :: "raft \<Rightarrow> string \<Rightarrow> raft option" where
  "bcastHeartbeatWithCtx r ctx =
     foldM (\<lambda>r v. if v = r_id r then Some r else sendHeartbeat r v ctx) r (VisitIds (r_prs r))"

definition bcastHeartbeat :: "raft \<Rightarrow> raft option" where
  "bcastHeartbeat r =
     (let lastCtx = lastPendingRequestCtx (r_readOnly r) in
      if length lastCtx = 0 then bcastHeartbeatWithCtx r [] else bcastHeartbeatWithCtx r lastCtx)"

definition sendTimeoutNow :: "raft \<Rightarrow> nat \<Rightarrow> raft option" where
  "sendTimeoutNow r to = send r (emptyMessage\<lparr>m_To := to, m_Type := MsgTimeoutNow\<rparr>)"

text \<open>\<open>for r.maybeSendAppend(to, false) {}\<close>: a loop that could run forever.\<close>

partial_function (option) sendAllAppends :: "raft \<Rightarrow> nat \<Rightarrow> raft option" where
  "sendAllAppends r to =
     do { (sent, r1) \<leftarrow> maybeSendAppend r to False;
          if sent then sendAllAppends r1 to else Some r1 }"

declare sendAllAppends.simps [code]

subsection \<open>Committing and appending\<close>

definition maybeCommit :: "raft \<Rightarrow> (bool \<times> raft) option" where
  "maybeCommit r =
     do { let mci = Committed (r_prs r);
          (b, l) \<leftarrow> l_maybeCommit (r_raftLog r) mci (r_Term r);
          Some (b, r\<lparr>r_raftLog := l\<rparr>) }"

text \<open>What \<open>reset\<close> makes of the progress of a peer.\<close>

definition freshProgress :: "raft \<Rightarrow> nat \<Rightarrow> progress \<Rightarrow> progress" where
  "freshProgress r v pr =
     \<lparr>pr_Match = (if v = r_id r then lastIndex (r_raftLog r) else 0),
      pr_Next = lastIndex (r_raftLog r) + 1, pr_State = StateProbe, pr_PendingSnapshot = 0,
      pr_RecentActive = False, pr_ProbeSent = False,
      pr_Inflights = NewInflights (pt_MaxInflight (r_prs r)), pr_IsLearner = pr_IsLearner pr\<rparr>"

definition reset :: "raft \<Rightarrow> nat \<Rightarrow> raft option" where
  "reset r0 trm =
     do { let r1 = (if r_Term r0 \<noteq> trm then r0\<lparr>r_Term := trm, r_Vote := 0\<rparr> else r0);
          let r2 = r1\<lparr>r_lead := 0, r_electionElapsed := 0, r_heartbeatElapsed := 0\<rparr>;
          r3 \<leftarrow> resetRandomizedElectionTimeout r2;
          let r4 = abortLeaderTransfer r3;
          let r5 = r4\<lparr>r_prs := VisitUpdate (freshProgress r4) (ResetVotes (r_prs r4))\<rparr>;
          Some (r5\<lparr>r_pendingConfIndex := 0, r_uncommittedSize := 0,
                   r_readOnly := newReadOnly (ro_option (r_readOnly r5))\<rparr>) }"

fun stampEntries :: "nat \<Rightarrow> nat \<Rightarrow> entry list \<Rightarrow> entry list" where
  "stampEntries trm i [] = []"
| "stampEntries trm i (e # es) = e\<lparr>e_Term := trm, e_Index := i\<rparr> # stampEntries trm (i + 1) es"

definition appendEntry :: "raft \<Rightarrow> entry list \<Rightarrow> (bool \<times> raft) option" where
  "appendEntry r es0 =
     (let es = stampEntries (r_Term r) (lastIndex (r_raftLog r) + 1) es0 in
      case increaseUncommittedSize r es of
        (False, r1) \<Rightarrow> Some (False, r1)
      | (True, r1) \<Rightarrow>
          do { (li, l) \<leftarrow> appendLog (r_raftLog r1) es;
               let r2 = r1\<lparr>r_raftLog := l\<rparr>;
               pr \<leftarrow> progressOf r2 (r_id r2);
               (_, r3) \<leftarrow> maybeCommit (setProgress r2 (r_id r2) (snd (MaybeUpdate pr li)));
               Some (True, r3) })"

subsection \<open>Roles\<close>

definition becomeFollower :: "raft \<Rightarrow> nat \<Rightarrow> nat \<Rightarrow> raft option" where
  "becomeFollower r trm lead =
     do { r1 \<leftarrow> reset (r\<lparr>r_step := StepFollower\<rparr>) trm;
          Some (r1\<lparr>r_tick := TickElection, r_lead := lead, r_state := StateFollower\<rparr>) }"

definition becomeCandidate :: "raft \<Rightarrow> raft option" where
  "becomeCandidate r =
     (if r_state r = StateLeader then None
      else do { r1 \<leftarrow> reset (r\<lparr>r_step := StepCandidate\<rparr>) (add64 (r_Term r) 1);
                Some (r1\<lparr>r_tick := TickElection, r_Vote := r_id r1, r_state := StateCandidate\<rparr>) })"

definition becomePreCandidate :: "raft \<Rightarrow> raft option" where
  "becomePreCandidate r =
     (if r_state r = StateLeader then None
      else Some (r\<lparr>r_step := StepCandidate, r_prs := ResetVotes (r_prs r), r_tick := TickElection,
                   r_lead := 0, r_state := StatePreCandidate\<rparr>))"

definition becomeLeader :: "raft \<Rightarrow> raft option" where
  "becomeLeader r =
     (if r_state r = StateFollower then None
      else do {
        r1 \<leftarrow> reset (r\<lparr>r_step := StepLeader\<rparr>) (r_Term r);
        let r2 = r1\<lparr>r_tick := TickHeartbeat, r_lead := r_id r1, r_state := StateLeader\<rparr>;
        pr \<leftarrow> progressOf r2 (r_id r2);
        let r3 = (setProgress r2 (r_id r2) (BecomeReplicate pr))
                   \<lparr>r_pendingConfIndex := lastIndex (r_raftLog r2)\<rparr>;
        (accepted, r4) \<leftarrow> appendEntry r3 [emptyEntry];
        if \<not> accepted then None else Some (reduceUncommittedSize r4 [emptyEntry]) })"

subsection \<open>Campaigning\<close>

definition poll :: "raft \<Rightarrow> nat \<Rightarrow> bool \<Rightarrow> (nat \<times> nat \<times> voteResult) \<times> raft" where
  "poll r v b =
     (let r1 = r\<lparr>r_prs := RecordVote (r_prs r) v b\<rparr> in (TallyVotes (r_prs r1), r1))"

text \<open>The vote requests to every other voter. Logging looks up the last term, and so does the message.\<close>

definition voteRequest :: "raft \<Rightarrow> campaignType \<Rightarrow> messageType \<Rightarrow> nat \<Rightarrow> nat \<Rightarrow> raft option" where
  "voteRequest r t voteMsg trm v =
     (if v = r_id r then Some r
      else do { lt \<leftarrow> lastTerm (r_raftLog r);
                send r (emptyMessage\<lparr>m_Term := trm, m_To := v, m_Type := voteMsg,
                  m_Index := lastIndex (r_raftLog r), m_LogTerm := lt,
                  m_Context := (if t = campaignTransfer then campaignString t else [])\<rparr>) })"

function campaign :: "raft \<Rightarrow> campaignType \<Rightarrow> raft option" where
  "campaign r t =
     do { (r1, voteMsg, trm) \<leftarrow>
            (if t = campaignPreElection
             then do { r1 \<leftarrow> becomePreCandidate r; Some (r1, MsgPreVote, add64 (r_Term r1) 1) }
             else do { r1 \<leftarrow> becomeCandidate r; Some (r1, MsgVote, r_Term r1) });
          (case poll r1 (r_id r1) True of
             ((_, _, res), r2) \<Rightarrow>
               if res = VoteWon then
                 if t = campaignPreElection then campaign r2 campaignElection else becomeLeader r2
               else foldM (\<lambda>r v. voteRequest r t voteMsg trm v) r2
                      (insertionSort (sorted_list_of_fset (JointIDs (pt_Voters (r_prs r2)))))) }"
  by pat_completeness auto
termination by (relation "measure (\<lambda>(r, t). if t = campaignPreElection then 1 else 0)") auto

declare campaign.simps [simp del]

end
