(* ===== verification/Float64.thy ===== *)
theory Float64
  imports GoPrelude Complex_Main "HOL-Library.Log_Nat"
begin

text \<open>
  \<open>float64\<close> of Go: rational numbers rounded to 53 significant bits, ties to even, after every operation (no
  value in the code modelled comes near the exponent range).
\<close>

definition roundHalfEven :: "rat \<Rightarrow> int" where
  "roundHalfEven x =
     (let f = \<lfloor>x\<rfloor>; d = x - of_int f in
      if d < 1 / 2 then f else if d > 1 / 2 then f + 1 else if even f then f else f + 1)"

text \<open>The exponent of the leading bit of a positive rational.\<close>

definition ratLog2 :: "rat \<Rightarrow> int" where
  "ratLog2 x =
     (case quotient_of x of (p, q) \<Rightarrow>
        let k = bitlen p - bitlen q in
        if (if 0 \<le> k then 2 ^ nat k * q \<le> p else q \<le> 2 ^ nat (- k) * p) then k else k - 1)"

definition pow2 :: "int \<Rightarrow> rat" where
  "pow2 k = (if 0 \<le> k then 2 ^ nat k else 1 / 2 ^ nat (- k))"

definition float64 :: "rat \<Rightarrow> rat" where
  "float64 x = (if x = 0 then 0
     else let ulp = pow2 (ratLog2 \<bar>x\<bar> - 52) in of_int (roundHalfEven (x / ulp)) * ulp)"

definition floatOfInt :: "int \<Rightarrow> rat" where
  "floatOfInt n = float64 (of_int n)"

definition fadd :: "rat \<Rightarrow> rat \<Rightarrow> rat" where "fadd x y = float64 (x + y)"
definition fsub :: "rat \<Rightarrow> rat \<Rightarrow> rat" where "fsub x y = float64 (x - y)"
definition fmul :: "rat \<Rightarrow> rat \<Rightarrow> rat" where "fmul x y = float64 (x * y)"
definition fdiv :: "rat \<Rightarrow> rat \<Rightarrow> rat" where "fdiv x y = float64 (x / y)"

text \<open>The conversion to \<open>int\<close> truncates toward zero.\<close>

definition truncFloat :: "rat \<Rightarrow> int" where
  "truncFloat x = (if 0 \<le> x then \<lfloor>x\<rfloor> else \<lceil>x\<rceil>)"

end
