(* ===== verification/Rtt.thy ===== *)
theory Rtt
  imports RaftCore Float64
begin

text \<open>
  What this fork adds to raft (\<open>glee-etcd/raft/raft.go\<close>): probing round-trip times, the election penalty
  computed from them, and the leader's choice of a better placed successor, with \<open>float64\<close> values as in
  \<open>Float64\<close>. Where the code ranges over a map and the order matters, the order comes from \<open>env_order\<close>; sums
  of \<open>int64\<close> wrap and do not depend on it.
\<close>

subsection \<open>Statistics\<close>

text \<open>Despite its name it returns the first value in sorted order; an empty slice is a panic.\<close>

definition calculateMedian :: "int list \<Rightarrow> nat \<Rightarrow> rat option" where
  "calculateMedian values n = do { v \<leftarrow> goIndex (sort values) 0; Some (floatOfInt v) }"

fun sum64 :: "int list \<Rightarrow> int \<Rightarrow> int" where
  "sum64 [] acc = acc"
| "sum64 (x # xs) acc = sum64 xs (i64 (acc + x))"

text \<open>Dividing by the length zero gives no rational: it is NaN, here \<open>None\<close>.\<close>

definition calculateAverage :: "int list \<Rightarrow> rat option" where
  "calculateAverage values =
     (if values = [] then None
      else Some (fdiv (floatOfInt (sum64 values 0)) (floatOfInt (int (length values)))))"

subsection \<open>Probing\<close>

definition rttOf :: "raft \<Rightarrow> nat \<Rightarrow> rttMetaInfo" where
  "rttOf r v = (case fmlookup (r_rttMap r) v of None \<Rightarrow> emptyRtt | Some i \<Rightarrow> i)"

definition rttOldOf :: "raft \<Rightarrow> nat \<Rightarrow> rttMetaInfo" where
  "rttOldOf r v = (case fmlookup (r_rttMap_old r) v of None \<Rightarrow> emptyRtt | Some i \<Rightarrow> i)"

definition latencyOf :: "raft \<Rightarrow> nat \<Rightarrow> (nat, int) fmap" where
  "latencyOf r v = (case fmlookup (r_nodeLatency r) v of None \<Rightarrow> fmempty | Some m \<Rightarrow> m)"

definition sendRttProbeMsg :: "raft \<Rightarrow> nat \<Rightarrow> raft option" where
  "sendRttProbeMsg r to = send r (emptyMessage\<lparr>m_To := to, m_Type := MsgProbeRtt\<rparr>)"

definition bcastProbeRtt :: "raft \<Rightarrow> raft option" where
  "bcastProbeRtt r0 =
     foldM (\<lambda>r v.
        if v = r_id r then Some r
        else case Now r of (now, r1) \<Rightarrow>
          (case fmlookup (r_rttMap r1) v of
             Some i \<Rightarrow> sendRttProbeMsg (r1\<lparr>r_rttMap :=
                 fmupd v (i\<lparr>rtt_isProbed := True, rtt_lastProbingTime := Some now\<rparr>) (r_rttMap r1)\<rparr>) v
           | None \<Rightarrow> sendRttProbeMsg (r1\<lparr>r_rttMap :=
                 fmupd v \<lparr>rtt_isProbed = True, rtt_lastProbingTime = Some now, rtt_timeStamp = 0\<rparr> (r_rttMap r1)\<rparr>) v))
       r0 (VisitIds (r_prs r0))"

text \<open>\<open>time.Sub\<close> saturates; every reading is further from the zero time than a \<open>Duration\<close> can hold.\<close>

definition timeSub :: "int \<Rightarrow> int option \<Rightarrow> int" where
  "timeSub recv sent = (case sent of
       None \<Rightarrow> 2 ^ 63 - 1
     | Some t \<Rightarrow> max (- (2 ^ 63)) (min (2 ^ 63 - 1) (recv - t)))"

text \<open>The stored times that are not zero.\<close>

definition rttValues :: "raft \<Rightarrow> int list" where
  "rttValues r = filter (\<lambda>t. t \<noteq> 0) (map (\<lambda>v. rtt_timeStamp (rttOf r v)) (sortedKeys (r_rttMap r)))"

definition calcRtt :: "raft \<Rightarrow> nat \<Rightarrow> raft option" where
  "calcRtt r0 v =
     (case Now r0 of (recv_time, r) \<Rightarrow>
        let old = rttOf r v;
            elapsed_time = timeSub recv_time (rtt_lastProbingTime old);
            elapsed_time_us = elapsed_time sdiv 1000;
            info = old\<lparr>rtt_isProbed := False, rtt_timeStamp := elapsed_time_us\<rparr>;
            info1 = (if rtt_timeStamp old \<noteq> 0
                     then info\<lparr>rtt_timeStamp := i64 (i64 (elapsed_time_us * 2) + i64 (rtt_timeStamp info * 8)) sdiv 10\<rparr>
                     else info);
            r1 = r\<lparr>r_rttMap_old := fmupd v old (r_rttMap_old r)\<rparr>;
            r2 = r1\<lparr>r_rttMap := fmupd v info1 (r_rttMap r1)\<rparr>;
            n = length (VoterNodes (r_prs r2));
            leaderRTTInfo = rttValues r2 in
        if length leaderRTTInfo < n div 2 then
          do { (k, r3) \<leftarrow> Intn r2 (r_electionTimeout r2);
               Some (r3\<lparr>r_randomizedElectionTimeout := r_electionTimeout r2 + k\<rparr>) }
        else
          do { median \<leftarrow> calculateMedian leaderRTTInfo n;
               let penalty = truncFloat median sdiv 100;
               Some (r2\<lparr>r_electionPenaltyTime := penalty,
                        r_randomizedElectionTimeout := r_electionTimeout r2 + penalty\<rparr>) })"

subsection \<open>Choosing a better leader\<close>

definition Determine_network_deterioration :: "raft \<Rightarrow> bool" where
  "Determine_network_deterioration r =
     (let vs = sortedKeys (r_rttMap r);
          diff_1 = sum64 (map (\<lambda>v. i64 (rtt_timeStamp (rttOf r v) - rtt_timeStamp (rttOldOf r v))) vs) 0;
          LNSum1 = sum64 (map (\<lambda>v. rtt_timeStamp (rttOf r v)) vs) 0 in
      if LNSum1 = 0 then False
      else
        let R_1 = fdiv (floatOfInt diff_1) (floatOfInt LNSum1)
        in \<not> R_1 < float64 (3 / 10000))"

definition CalBetterNodes :: "raft \<Rightarrow> nat list \<times> raft" where
  "CalBetterNodes r =
     (let ts = rttValues r;
          leaderTotalDelay = sum64 ts 0;
          leaderTotalCount = int (length ts) in
      if leaderTotalCount = 0 then ([], r)
      else
        let leaderAvgDelay = leaderTotalDelay sdiv leaderTotalCount;
            better = (\<lambda>v. let m = latencyOf r v;
                              totalDelay = sum64 (map (\<lambda>k. the (fmlookup m k)) (sortedKeys m)) 0;
                              totalCount = int (fcard (fmdom m))
                          in totalCount \<noteq> 0 \<and> totalDelay sdiv totalCount < leaderAvgDelay) in
        case rangeOrder r (sortedKeys (r_nodeLatency r)) of (vs, r1) \<Rightarrow> (filter better vs, r1))"

text \<open>The sum over the latencies known of the source nodes, in the order of the range loop.\<close>

fun useRate :: "raft \<Rightarrow> nat \<Rightarrow> nat list \<Rightarrow> rat \<Rightarrow> rat" where
  "useRate r v [] acc = acc"
| "useRate r v (s # ss) acc =
     (let lat = (case fmlookup (latencyOf r v) s of None \<Rightarrow> 0 | Some t \<Rightarrow> t);
          RRTdiff = floatOfInt (i64 (rtt_timeStamp (rttOf r s) - lat))
      in useRate r v ss (fadd acc (fmul (float64 (33 / 100)) RRTdiff)))"

fun bestNodeLoop :: "rat \<Rightarrow> nat \<Rightarrow> nat list \<Rightarrow> nat \<times> rat \<Rightarrow> raft \<Rightarrow> (nat \<times> raft) option" where
  "bestNodeLoop leader_median n [] (best, income) r = Some (best, r)"
| "bestNodeLoop leader_median n (v # vs) (best, income) r =
     (let m = latencyOf r v;
          values = sort (map (\<lambda>k. the (fmlookup m k)) (sortedKeys m)) in
      if length values < n div 2 then bestNodeLoop leader_median n vs (best, income) r
      else do {
        median \<leftarrow> calculateMedian values n;
        let CommitLatencydiff = fsub leader_median median;
        let (order, r1) = rangeOrder r (sortedKeys (r_nodeLatency r));
        let UseRatediff = useRate r v order 0;
        let Profit = fadd UseRatediff (fmul (float64 (3 / 10)) CommitLatencydiff);
        bestNodeLoop leader_median n vs (if Profit > income then (v, Profit) else (best, income)) r1 })"

definition CalBestNode :: "raft \<Rightarrow> nat list \<Rightarrow> (nat \<times> raft) option" where
  "CalBestNode r BetterN =
     (let leaderRTTInfo = rttValues r;
          n = length (VoterNodes (r_prs r)) in
      if length leaderRTTInfo < n div 2 then Some (r_id r, r)
      else do {
        leader_median \<leftarrow> calculateMedian leaderRTTInfo n;
        bestNodeLoop leader_median n BetterN (r_id r, 0) r })"

end
