(* ===== verification/Leader.thy ===== *)
theory Leader
  imports Rtt
begin

text \<open>
  \<open>glee-etcd/raft/raft.go\<close>, \<open>stepLeader\<close>: one definition per message a leader handles, and their
  dispatch. A handler returns the error of the code (if any) with the state it leaves; a panic or an
  endless loop is \<open>None\<close>. The progress pointer \<open>pr\<close> is read again after every call that may write it.
\<close>

type_synonym stepResult = "(raftErr option \<times> raft) option"

abbreviation ok :: "raft \<Rightarrow> stepResult" where
  "ok r \<equiv> Some (None, r)"

subsection \<open>Linearizable reads\<close>

definition responseToReadIndexReq :: "raft \<Rightarrow> message \<Rightarrow> nat \<Rightarrow> (message \<times> raft) option" where
  "responseToReadIndexReq r req readIndex =
     (if m_From req = 0 \<or> m_From req = r_id r then do {
        e \<leftarrow> goIndex (m_Entries req) 0;
        Some (emptyMessage, r\<lparr>r_readStates := r_readStates r @
            [\<lparr>rd_Index = readIndex, rd_RequestCtx = e_Data e\<rparr>]\<rparr>) }
      else Some (emptyMessage\<lparr>m_Type := MsgReadIndexResp, m_To := m_From req, m_Index := readIndex,
                   m_Entries := m_Entries req\<rparr>, r))"

text \<open>Responding right away: the response is sent unless it was for this node.\<close>

definition respondRead :: "raft \<Rightarrow> message \<Rightarrow> raft option" where
  "respondRead r m =
     do { (resp, r1) \<leftarrow> responseToReadIndexReq r m (rl_committed (r_raftLog r));
          if m_To resp \<noteq> 0 then send r1 resp else Some r1 }"

definition sendMsgReadIndexResponse :: "raft \<Rightarrow> message \<Rightarrow> raft option" where
  "sendMsgReadIndexResponse r m =
     (case ro_option (r_readOnly r) of
        ReadOnlySafe \<Rightarrow>
          do { ro \<leftarrow> addRequest (r_readOnly r) (rl_committed (r_raftLog r)) m;
               ctx \<leftarrow> reqCtx m;
               bcastHeartbeatWithCtx (r\<lparr>r_readOnly := snd (recvAck ro (r_id r) ctx)\<rparr>) ctx }
      | ReadOnlyLeaseBased \<Rightarrow> respondRead r m
      | ReadOnlyOther _ \<Rightarrow> Some r)"

definition releasePendingReadIndexMessages :: "raft \<Rightarrow> raft option" where
  "releasePendingReadIndexMessages r =
     do { b \<leftarrow> committedEntryInCurrentTerm r;
          if \<not> b then Some r
          else foldM sendMsgReadIndexResponse (r\<lparr>r_pendingReadIndexMessages := []\<rparr>)
                 (r_pendingReadIndexMessages r) }"

definition leaderReadIndex :: "raft \<Rightarrow> message \<Rightarrow> raft option" where
  "leaderReadIndex r m =
     (if IsSingleton (r_prs r) then respondRead r m
      else do {
        b \<leftarrow> committedEntryInCurrentTerm r;
        if \<not> b then Some (r\<lparr>r_pendingReadIndexMessages := r_pendingReadIndexMessages r @ [m]\<rparr>)
        else sendMsgReadIndexResponse r m })"

subsection \<open>Quorum check\<close>

definition leaderCheckQuorum :: "raft \<Rightarrow> raft option" where
  "leaderCheckQuorum r =
     do { let r1 = (case progressOf r (r_id r) of
                 Some pr \<Rightarrow> setProgress r (r_id r) (pr\<lparr>pr_RecentActive := True\<rparr>)
               | None \<Rightarrow> r);
          r2 \<leftarrow> (if \<not> QuorumActive (r_prs r1) then becomeFollower r1 (r_Term r1) 0 else Some r1);
          Some (r2\<lparr>r_prs := VisitUpdate (\<lambda>v pr. if v \<noteq> r_id r2 then pr\<lparr>pr_RecentActive := False\<rparr> else pr)
                     (r_prs r2)\<rparr>) }"

subsection \<open>Proposals\<close>

text \<open>The configuration change that an entry carries; malformed bytes are a panic.\<close>

definition entryConfChange :: "codec \<Rightarrow> entry \<Rightarrow> confChangeI option option" where
  "entryConfChange cd e =
     (case e_Type e of
        EntryNormal \<Rightarrow> Some None
      | EntryConfChange \<Rightarrow> do { c \<leftarrow> unmarshalConfChange cd (bytesOf (e_Data e)); Some (Some (CCV1 c)) }
      | EntryConfChangeV2 \<Rightarrow> do { c \<leftarrow> unmarshalConfChangeV2 cd (bytesOf (e_Data e)); Some (Some (CCV2 c)) })"

definition refusesConfChange :: "raft \<Rightarrow> confChangeI \<Rightarrow> bool" where
  "refusesConfChange r cc =
     (let alreadyPending = r_pendingConfIndex r > rl_applied (r_raftLog r);
          alreadyJoint = fcard (ids (snd (pt_Voters (r_prs r)))) > 0;
          wantsLeaveJoint = length (v2_Changes (AsV2 cc)) = 0 in
      alreadyPending \<or> (alreadyJoint \<and> \<not> wantsLeaveJoint) \<or> (\<not> alreadyJoint \<and> wantsLeaveJoint))"

text \<open>The loop over the entries of a proposal, from position \<open>i\<close> on: a configuration change that is
  refused is replaced by an empty entry.\<close>

fun proposeConfChanges :: "raft \<Rightarrow> nat \<Rightarrow> entry list \<Rightarrow> (entry list \<times> raft) option" where
  "proposeConfChanges r i [] = Some ([], r)"
| "proposeConfChanges r i (e # es) =
     do { cc \<leftarrow> entryConfChange (env_codec (r_env r)) e;
          let (e1, r1) = (case cc of
               None \<Rightarrow> (e, r)
             | Some c \<Rightarrow>
                 if refusesConfChange r c then (emptyEntry, r)
                 else (e, r\<lparr>r_pendingConfIndex := lastIndex (r_raftLog r) + i + 1\<rparr>));
          (es1, r2) \<leftarrow> proposeConfChanges r1 (i + 1) es;
          Some (e1 # es1, r2) }"

definition leaderProp :: "raft \<Rightarrow> message \<Rightarrow> stepResult" where
  "leaderProp r m =
     (if length (m_Entries m) = 0 then None
      else if progressOf r (r_id r) = None then Some (Some ErrProposalDropped, r)
      else if r_leadTransferee r \<noteq> 0 then
        do { r1 \<leftarrow> send r (m\<lparr>m_To := r_leadTransferee r\<rparr>); ok r1 }
      else do {
        (es, r1) \<leftarrow> proposeConfChanges r 0 (m_Entries m);
        (accepted, r2) \<leftarrow> appendEntry r1 es;
        if \<not> accepted then Some (Some ErrProposalDropped, r2)
        else do { r3 \<leftarrow> bcastAppend r2; ok r3 } })"

subsection \<open>Acknowledged appends\<close>

definition leaderAppRejected :: "raft \<Rightarrow> message \<Rightarrow> progress \<Rightarrow> raft option" where
  "leaderAppRejected r m pr =
     (case MaybeDecrTo pr (m_Index m) (m_RejectHint m) of
        (False, pr1) \<Rightarrow> Some (setProgress r (m_From m) pr1)
      | (True, pr1) \<Rightarrow>
          let pr2 = (if pr_State pr1 = StateReplicate then BecomeProbe pr1 else pr1)
          in sendAppend (setProgress r (m_From m) pr2) (m_From m))"

text \<open>How an acknowledgement that moves the progress forward changes its state.\<close>

definition ackTransition :: "progress \<Rightarrow> nat \<Rightarrow> progress option" where
  "ackTransition pr index =
     (if pr_State pr = StateProbe then Some (BecomeReplicate pr)
      else if pr_State pr = StateSnapshot \<and> pr_Match pr \<ge> pr_PendingSnapshot pr
      then Some (BecomeReplicate (BecomeProbe pr))
      else if pr_State pr = StateReplicate
      then do { w \<leftarrow> FreeLE (pr_Inflights pr) index; Some (pr\<lparr>pr_Inflights := w\<rparr>) }
      else Some pr)"

definition leaderAppAcked :: "raft \<Rightarrow> message \<Rightarrow> progress \<Rightarrow> raft option" where
  "leaderAppAcked r m pr =
     (let oldPaused = IsPaused pr in
      case MaybeUpdate pr (m_Index m) of
        (False, pr1) \<Rightarrow> Some (setProgress r (m_From m) pr1)
      | (True, pr1) \<Rightarrow> do {
          pr2 \<leftarrow> ackTransition pr1 (m_Index m);
          (committed, r1) \<leftarrow> maybeCommit (setProgress r (m_From m) pr2);
          r2 \<leftarrow> (if committed then do { r1' \<leftarrow> releasePendingReadIndexMessages r1; bcastAppend r1' }
                else if oldPaused then sendAppend r1 (m_From m)
                else Some r1);
          r3 \<leftarrow> sendAllAppends r2 (m_From m);
          pr3 \<leftarrow> progressOf r3 (m_From m);
          if m_From m = r_leadTransferee r3 \<and> pr_Match pr3 = lastIndex (r_raftLog r3)
          then sendTimeoutNow r3 (m_From m) else Some r3 })"

definition leaderAppResp :: "raft \<Rightarrow> message \<Rightarrow> progress \<Rightarrow> raft option" where
  "leaderAppResp r m pr0 =
     (let pr = pr0\<lparr>pr_RecentActive := True\<rparr> in
      if m_Reject m then leaderAppRejected r m pr else leaderAppAcked r m pr)"

subsection \<open>Heartbeat responses\<close>

text \<open>The latencies a follower reports are merged into its row of the matrix.\<close>

definition updateNodeLatency :: "raft \<Rightarrow> message \<Rightarrow> raft" where
  "updateNodeLatency r m =
     (let rttMap = (case m_Rttmap m of None \<Rightarrow> fmempty | Some t \<Rightarrow> t) in
      if fcard (fmdom rttMap) \<noteq> 0
      then r\<lparr>r_nodeLatency := fmupd (m_From m) (latencyOf r (m_From m) ++\<^sub>f rttMap) (r_nodeLatency r)\<rparr>
      else r)"

text \<open>The reads that a quorum has now confirmed are answered in order.\<close>

definition answerRead :: "raft \<Rightarrow> readIndexStatus \<Rightarrow> raft option" where
  "answerRead r rs =
     (let req = rs_req rs in
      if m_From req = 0 \<or> m_From req = r_id r then do {
        e \<leftarrow> goIndex (m_Entries req) 0;
        Some (r\<lparr>r_readStates := r_readStates r @ [\<lparr>rd_Index = rs_index rs, rd_RequestCtx = e_Data e\<rparr>]\<rparr>) }
      else send r (emptyMessage\<lparr>m_To := m_From req, m_Type := MsgReadIndexResp, m_Index := rs_index rs,
                     m_Entries := m_Entries req\<rparr>))"

definition ackRead :: "raft \<Rightarrow> message \<Rightarrow> raft option" where
  "ackRead r m =
     (if ro_option (r_readOnly r) \<noteq> ReadOnlySafe \<or> length (m_Context m) = 0 then Some r
      else case recvAck (r_readOnly r) (m_From m) (m_Context m) of
        (acks, ro) \<Rightarrow>
          let r1 = r\<lparr>r_readOnly := ro\<rparr> in
          if JointVoteResult (pt_Voters (r_prs r1)) acks \<noteq> VoteWon then Some r1
          else do { (rss, ro1) \<leftarrow> advanceReadOnly (r_readOnly r1) m;
                    foldM answerRead (r1\<lparr>r_readOnly := ro1\<rparr>) rss })"

definition leaderHeartbeatResp :: "raft \<Rightarrow> message \<Rightarrow> progress \<Rightarrow> raft option" where
  "leaderHeartbeatResp r m pr =
     do { let pr1 = pr\<lparr>pr_RecentActive := True, pr_ProbeSent := False\<rparr>;
          let r1 = updateNodeLatency r m;
          pr2 \<leftarrow> (if pr_State pr1 = StateReplicate \<and> FullInflights (pr_Inflights pr1)
                 then do { w \<leftarrow> FreeFirstOne (pr_Inflights pr1); Some (pr1\<lparr>pr_Inflights := w\<rparr>) }
                 else Some pr1);
          let r2 = setProgress r1 (m_From m) pr2;
          r3 \<leftarrow> (if pr_Match pr2 < lastIndex (r_raftLog r2) then sendAppend r2 (m_From m) else Some r2);
          ackRead r3 m }"

subsection \<open>Snapshot status, unreachability, transfer\<close>

definition leaderSnapStatus :: "raft \<Rightarrow> message \<Rightarrow> progress \<Rightarrow> raft" where
  "leaderSnapStatus r m pr =
     (if pr_State pr \<noteq> StateSnapshot then r
      else
        let pr1 = (if \<not> m_Reject m then BecomeProbe pr else BecomeProbe (pr\<lparr>pr_PendingSnapshot := 0\<rparr>))
        in setProgress r (m_From m) (pr1\<lparr>pr_ProbeSent := True\<rparr>))"

definition leaderUnreachable :: "raft \<Rightarrow> message \<Rightarrow> progress \<Rightarrow> raft" where
  "leaderUnreachable r m pr =
     (if pr_State pr = StateReplicate then setProgress r (m_From m) (BecomeProbe pr) else r)"

definition leaderTransferLeader :: "raft \<Rightarrow> message \<Rightarrow> progress \<Rightarrow> raft option" where
  "leaderTransferLeader r m pr =
     (if pr_IsLearner pr then Some r
      else
        let transferee = m_From m; lastTransferee = r_leadTransferee r in
        if lastTransferee \<noteq> 0 \<and> lastTransferee = transferee then Some r
        else
          let r1 = (if lastTransferee \<noteq> 0 then abortLeaderTransfer r else r) in
          if transferee = r_id r1 then Some r1
          else
            let r2 = r1\<lparr>r_electionElapsed := 0, r_leadTransferee := transferee\<rparr> in
            if pr_Match pr = lastIndex (r_raftLog r2) then sendTimeoutNow r2 transferee
            else sendAppend r2 transferee)"

subsection \<open>Dispatch\<close>

text \<open>The messages that need a progress for their sender.\<close>

definition stepLeaderPeer :: "raft \<Rightarrow> message \<Rightarrow> progress \<Rightarrow> raft option" where
  "stepLeaderPeer r m pr =
     (case m_Type m of
        MsgAppResp \<Rightarrow> leaderAppResp r m pr
      | MsgHeartbeatResp \<Rightarrow> leaderHeartbeatResp r m pr
      | MsgSnapStatus \<Rightarrow> Some (leaderSnapStatus r m pr)
      | MsgUnreachable \<Rightarrow> Some (leaderUnreachable r m pr)
      | MsgTransferLeader \<Rightarrow> leaderTransferLeader r m pr
      | _ \<Rightarrow> Some r)"

definition stepLeader :: "raft \<Rightarrow> message \<Rightarrow> stepResult" where
  "stepLeader r m =
     (case m_Type m of
        MsgBeat \<Rightarrow> do { r1 \<leftarrow> bcastHeartbeat r; ok r1 }
      | MsgCheckQuorum \<Rightarrow> do { r1 \<leftarrow> leaderCheckQuorum r; ok r1 }
      | MsgProp \<Rightarrow> leaderProp r m
      | MsgReadIndex \<Rightarrow> do { r1 \<leftarrow> leaderReadIndex r m; ok r1 }
      | _ \<Rightarrow>
          (case progressOf r (m_From m) of
             None \<Rightarrow> ok r
           | Some pr \<Rightarrow> do { r1 \<leftarrow> stepLeaderPeer r m pr; ok r1 }))"

end
