(* ===== verification/RaftStep.thy ===== *)
theory RaftStep
  imports Leader
begin

text \<open>
  \<open>glee-etcd/raft/raft.go\<close>, the rest of the state machine: follower and candidate handlers, snapshots,
  configuration switches, \<open>Step\<close>, the clock ticks, \<open>advance\<close> and \<open>newRaft\<close>.
\<close>

subsection \<open>Followers\<close>

definition handleAppendEntries :: "raft \<Rightarrow> message \<Rightarrow> raft option" where
  "handleAppendEntries r m =
     (if m_Index m < rl_committed (r_raftLog r)
      then send r (emptyMessage\<lparr>m_To := m_From m, m_Type := MsgAppResp, m_Index := rl_committed (r_raftLog r)\<rparr>)
      else do {
        (res, l) \<leftarrow> maybeAppend (r_raftLog r) (m_Index m) (m_LogTerm m) (m_Commit m) (m_Entries m);
        let r1 = r\<lparr>r_raftLog := l\<rparr>;
        case res of
          Some mlastIndex \<Rightarrow>
            send r1 (emptyMessage\<lparr>m_To := m_From m, m_Type := MsgAppResp, m_Index := mlastIndex\<rparr>)
        | None \<Rightarrow> do {
            t \<leftarrow> termAt l (m_Index m);
            _ \<leftarrow> zeroTermOnErrCompacted t;
            send r1 (emptyMessage\<lparr>m_To := m_From m, m_Type := MsgAppResp, m_Index := m_Index m,
              m_Reject := True, m_RejectHint := lastIndex l\<rparr>) } })"

text \<open>The answer to a heartbeat carries the round-trip times measured so far.\<close>

definition rttReport :: "raft \<Rightarrow> (nat, int) fmap" where
  "rttReport r = fmfilter (\<lambda>v. rtt_timeStamp (rttOf r v) \<noteq> 0) (fmmap rtt_timeStamp (r_rttMap r))"

definition handleHeartbeat :: "raft \<Rightarrow> message \<Rightarrow> raft option" where
  "handleHeartbeat r m =
     do { l \<leftarrow> commitTo (r_raftLog r) (m_Commit m);
          let r1 = r\<lparr>r_raftLog := l\<rparr>;
          send r1 (emptyMessage\<lparr>m_To := m_From m, m_Type := MsgHeartbeatResp, m_Context := m_Context m,
            m_Rttmap := Some (rttReport r1)\<rparr>) }"

subsection \<open>Configurations\<close>

definition switchToConfig :: "raft \<Rightarrow> trackerConfig \<Rightarrow> progressMap \<Rightarrow> (confState \<times> raft) option" where
  "switchToConfig r0 cfg prs =
     (let r1 = r0\<lparr>r_prs := (r_prs r0)\<lparr>pt_Config := cfg, pt_Progress := prs\<rparr>\<rparr>;
          cs = ConfStateOf (r_prs r1);
          me = progressOf r1 (r_id r1);
          r = r1\<lparr>r_isLearner := (case me of None \<Rightarrow> False | Some pr \<Rightarrow> pr_IsLearner pr)\<rparr> in
      if (me = None \<or> r_isLearner r) \<and> r_state r = StateLeader then Some (cs, r)
      else if r_state r \<noteq> StateLeader \<or> length (cs_Voters cs) = 0 then Some (cs, r)
      else do {
        (committed, r2) \<leftarrow> maybeCommit r;
        r3 \<leftarrow> (if committed then bcastAppend r2
              else foldM (\<lambda>r v. do { (_, r') \<leftarrow> maybeSendAppend r v False; Some r' }) r2 (VisitIds (r_prs r2)));
        Some (cs, if progressOf r3 (r_leadTransferee r3) = None \<and> r_leadTransferee r3 \<noteq> 0
                  then abortLeaderTransfer r3 else r3) })"

definition restore :: "raft \<Rightarrow> snapshot \<Rightarrow> (bool \<times> raft) option" where
  "restore r s =
     (if snapIndex s \<le> rl_committed (r_raftLog r) then Some (False, r)
      else if r_state r \<noteq> StateFollower then
        do { r1 \<leftarrow> becomeFollower r (add64 (r_Term r) 1) 0; Some (False, r1) }
      else
        let cs = md_ConfState (sn_Metadata s) in
        if r_id r \<notin> set (cs_Voters cs) \<and> r_id r \<notin> set (cs_Learners cs) then Some (False, r)
        else do {
          same \<leftarrow> matchTerm (r_raftLog r) (snapIndex s) (snapTerm s);
          if same then do {
            _ \<leftarrow> lastTerm (r_raftLog r);
            l \<leftarrow> commitTo (r_raftLog r) (snapIndex s);
            Some (False, r\<lparr>r_raftLog := l\<rparr>) }
          else do {
            let r1 = r\<lparr>r_raftLog := l_restore (r_raftLog r) s,
                       r_prs := MakeProgressTracker (pt_MaxInflight (r_prs r))\<rparr>;
            res \<leftarrow> Restore \<lparr>chg_Tracker = r_prs r1, chg_LastIndex = lastIndex (r_raftLog r1)\<rparr> cs;
            (case res of
               Inl err \<Rightarrow> None
             | Inr (cfg, prs) \<Rightarrow> do {
                 (cs', r2) \<leftarrow> switchToConfig r1 cfg prs;
                 if \<not> ConfStateEquivalent cs cs' then None
                 else do {
                   pr \<leftarrow> progressOf r2 (r_id r2);
                   let r3 = setProgress r2 (r_id r2) (snd (MaybeUpdate pr (sub64 (pr_Next pr) 1)));
                   _ \<leftarrow> lastTerm (r_raftLog r3);
                   Some (True, r3) } }) } })"

definition handleSnapshot :: "raft \<Rightarrow> message \<Rightarrow> raft option" where
  "handleSnapshot r m =
     do { (restored, r1) \<leftarrow> restore r (m_Snapshot m);
          if restored
          then send r1 (emptyMessage\<lparr>m_To := m_From m, m_Type := MsgAppResp, m_Index := lastIndex (r_raftLog r1)\<rparr>)
          else send r1 (emptyMessage\<lparr>m_To := m_From m, m_Type := MsgAppResp,
                 m_Index := rl_committed (r_raftLog r1)\<rparr>) }"

definition applyConfChange :: "raft \<Rightarrow> confChangeV2 \<Rightarrow> (confState \<times> raft) option" where
  "applyConfChange r cc =
     do { let chg = \<lparr>chg_Tracker = r_prs r, chg_LastIndex = lastIndex (r_raftLog r)\<rparr>;
          res \<leftarrow> (if LeaveJointCC cc then LeaveJoint chg
                 else do { (autoLeave, okay) \<leftarrow> EnterJointCC cc;
                           if okay then EnterJoint chg autoLeave (v2_Changes cc)
                           else Simple chg (v2_Changes cc) });
          (case res of
             Inl err \<Rightarrow> None
           | Inr (cfg, prs) \<Rightarrow> switchToConfig r cfg prs) }"

subsection \<open>Candidates and followers\<close>

text \<open>\<open>becomeFollower\<close> and then a handler of the message.\<close>

definition followAnd :: "raft \<Rightarrow> message \<Rightarrow> (raft \<Rightarrow> message \<Rightarrow> raft option) \<Rightarrow> stepResult" where
  "followAnd r m handle =
     do { r1 \<leftarrow> becomeFollower r (m_Term m) (m_From m); r2 \<leftarrow> handle r1 m; ok r2 }"

definition candidateVoteResp :: "raft \<Rightarrow> message \<Rightarrow> stepResult" where
  "candidateVoteResp r m =
     (case poll r (m_From m) (\<not> m_Reject m) of
        ((_, _, res), r1) \<Rightarrow>
          (case res of
             VoteWon \<Rightarrow>
               if r_state r1 = StatePreCandidate then do { r2 \<leftarrow> campaign r1 campaignElection; ok r2 }
               else do { r2 \<leftarrow> becomeLeader r1; r3 \<leftarrow> bcastAppend r2; ok r3 }
           | VoteLost \<Rightarrow> do { r2 \<leftarrow> becomeFollower r1 (r_Term r1) 0; ok r2 }
           | VotePending \<Rightarrow> ok r1))"

definition stepCandidate :: "raft \<Rightarrow> message \<Rightarrow> stepResult" where
  "stepCandidate r m =
     (let myVoteRespType = (if r_state r = StatePreCandidate then MsgPreVoteResp else MsgVoteResp) in
      case m_Type m of
        MsgProp \<Rightarrow> Some (Some ErrProposalDropped, r)
      | MsgApp \<Rightarrow> followAnd r m handleAppendEntries
      | MsgHeartbeat \<Rightarrow> followAnd r m handleHeartbeat
      | MsgSnap \<Rightarrow> followAnd r m handleSnapshot
      | t \<Rightarrow> if t = myVoteRespType then candidateVoteResp r m else ok r)"

text \<open>Passing a message on to the leader; without one it is dropped.\<close>

definition forwardToLeader :: "raft \<Rightarrow> message \<Rightarrow> stepResult" where
  "forwardToLeader r m =
     (if r_lead r = 0 then ok r else do { r1 \<leftarrow> send r (m\<lparr>m_To := r_lead r\<rparr>); ok r1 })"

definition stepFollower :: "raft \<Rightarrow> message \<Rightarrow> stepResult" where
  "stepFollower r m =
     (let heard = r\<lparr>r_electionElapsed := 0, r_lead := m_From m\<rparr> in
      case m_Type m of
        MsgProp \<Rightarrow>
          if r_lead r = 0 then Some (Some ErrProposalDropped, r)
          else if r_disableProposalForwarding r then Some (Some ErrProposalDropped, r)
          else do { r1 \<leftarrow> send r (m\<lparr>m_To := r_lead r\<rparr>); ok r1 }
      | MsgApp \<Rightarrow> do { r1 \<leftarrow> handleAppendEntries heard m; ok r1 }
      | MsgHeartbeat \<Rightarrow> do { r1 \<leftarrow> handleHeartbeat heard m; ok r1 }
      | MsgSnap \<Rightarrow> do { r1 \<leftarrow> handleSnapshot heard m; ok r1 }
      | MsgTransferLeader \<Rightarrow> forwardToLeader r m
      | MsgTimeoutNow \<Rightarrow>
          if promotable r then do { r1 \<leftarrow> campaign r campaignTransfer; ok r1 } else ok r
      | MsgReadIndex \<Rightarrow> forwardToLeader r m
      | MsgReadIndexResp \<Rightarrow>
          (case m_Entries m of
             [e] \<Rightarrow> ok (r\<lparr>r_readStates := r_readStates r @ [\<lparr>rd_Index = m_Index m, rd_RequestCtx = e_Data e\<rparr>]\<rparr>)
           | _ \<Rightarrow> ok r)
      | _ \<Rightarrow> ok r)"

definition stepBy :: "raft \<Rightarrow> message \<Rightarrow> stepResult" where
  "stepBy r m = (case r_step r of
       StepFollower \<Rightarrow> stepFollower r m
     | StepCandidate \<Rightarrow> stepCandidate r m
     | StepLeader \<Rightarrow> stepLeader r m)"

subsection \<open>Step\<close>

text \<open>
  The comparison of terms at the start of \<open>Step\<close>: \<open>Some (True, r)\<close> when the message is to be handled in
  the state \<open>r\<close>, \<open>Some (False, r)\<close> when \<open>Step\<close> returns.
\<close>

definition stepHigherTerm :: "raft \<Rightarrow> message \<Rightarrow> (bool \<times> raft) option" where
  "stepHigherTerm r m =
     (let force = (m_Context m = campaignString campaignTransfer);
          inLease = (r_checkQuorum r \<and> r_lead r \<noteq> 0 \<and> r_electionElapsed r < r_electionTimeout r) in
      if (m_Type m = MsgVote \<or> m_Type m = MsgPreVote) \<and> \<not> force \<and> inLease
      then do { _ \<leftarrow> lastTerm (r_raftLog r); Some (False, r) }
      else if m_Type m = MsgPreVote then Some (True, r)
      else if m_Type m = MsgPreVoteResp \<and> \<not> m_Reject m then Some (True, r)
      else if m_Type m = MsgApp \<or> m_Type m = MsgHeartbeat \<or> m_Type m = MsgSnap
      then do { r1 \<leftarrow> becomeFollower r (m_Term m) (m_From m); Some (True, r1) }
      else do { r1 \<leftarrow> becomeFollower r (m_Term m) 0; Some (True, r1) })"

definition stepLowerTerm :: "raft \<Rightarrow> message \<Rightarrow> raft option" where
  "stepLowerTerm r m =
     (if (r_checkQuorum r \<or> r_preVote r) \<and> (m_Type m = MsgHeartbeat \<or> m_Type m = MsgApp)
      then send r (emptyMessage\<lparr>m_To := m_From m, m_Type := MsgAppResp\<rparr>)
      else if m_Type m = MsgPreVote
      then do { _ \<leftarrow> lastTerm (r_raftLog r);
                send r (emptyMessage\<lparr>m_To := m_From m, m_Term := r_Term r, m_Type := MsgPreVoteResp, m_Reject := True\<rparr>) }
      else Some r)"

definition stepTerm :: "raft \<Rightarrow> message \<Rightarrow> (bool \<times> raft) option" where
  "stepTerm r m =
     (if m_Term m = 0 then Some (True, r)
      else if m_Term m > r_Term r then stepHigherTerm r m
      else if m_Term m < r_Term r then do { r1 \<leftarrow> stepLowerTerm r m; Some (False, r1) }
      else Some (True, r))"

definition stepHup :: "raft \<Rightarrow> raft option" where
  "stepHup r =
     (if r_state r \<noteq> StateLeader then
        if \<not> promotable r then Some r
        else do {
          res \<leftarrow> sliceLog (r_raftLog r) (rl_applied (r_raftLog r) + 1) (rl_committed (r_raftLog r) + 1) noLimit;
          (case res of
             Inl err \<Rightarrow> None
           | Inr ents \<Rightarrow>
               if numOfPendingConf ents \<noteq> 0 \<and> rl_committed (r_raftLog r) > rl_applied (r_raftLog r) then Some r
               else if r_preVote r then campaign r campaignPreElection
               else campaign r campaignElection) }
      else Some r)"

definition canVote :: "raft \<Rightarrow> message \<Rightarrow> bool" where
  "canVote r m \<longleftrightarrow> r_Vote r = m_From m \<or> (r_Vote r = 0 \<and> r_lead r = 0) \<or>
     (m_Type m = MsgPreVote \<and> m_Term m > r_Term r)"

definition stepVote :: "raft \<Rightarrow> message \<Rightarrow> raft option" where
  "stepVote r m =
     do { respType \<leftarrow> voteRespMsgType (m_Type m);
          grant \<leftarrow> (if canVote r m then isUpToDate (r_raftLog r) (m_Index m) (m_LogTerm m) else Some False);
          _ \<leftarrow> lastTerm (r_raftLog r);
          if grant then do {
            r1 \<leftarrow> send r (emptyMessage\<lparr>m_To := m_From m, m_Term := m_Term m, m_Type := respType\<rparr>);
            Some (if m_Type m = MsgVote then r1\<lparr>r_electionElapsed := 0, r_Vote := m_From m\<rparr> else r1) }
          else send r (emptyMessage\<lparr>m_To := m_From m, m_Term := r_Term r, m_Type := respType, m_Reject := True\<rparr>) }"

definition Step :: "raft \<Rightarrow> message \<Rightarrow> stepResult" where
  "Step r0 m =
     do { (go, r) \<leftarrow> stepTerm r0 m;
          if \<not> go then ok r
          else case m_Type m of
            MsgHup \<Rightarrow> do { r1 \<leftarrow> stepHup r; ok r1 }
          | MsgProbeRttHup \<Rightarrow> do { r1 \<leftarrow> bcastProbeRtt r; ok r1 }
          | MsgProbeRtt \<Rightarrow>
              do { r1 \<leftarrow> send r (emptyMessage\<lparr>m_To := m_From m, m_Type := MsgProbeRttResp\<rparr>); ok r1 }
          | MsgProbeRttResp \<Rightarrow> do { r1 \<leftarrow> calcRtt r (m_From m); ok r1 }
          | MsgVote \<Rightarrow> do { r1 \<leftarrow> stepVote r m; ok r1 }
          | MsgPreVote \<Rightarrow> do { r1 \<leftarrow> stepVote r m; ok r1 }
          | _ \<Rightarrow> stepBy r m }"

subsection \<open>Ticks\<close>

text \<open>A local message stepped by a tick; its error is ignored.\<close>

definition stepLocal :: "raft \<Rightarrow> messageType \<Rightarrow> raft option" where
  "stepLocal r t = do { (_, r1) \<leftarrow> Step r (emptyMessage\<lparr>m_From := r_id r, m_Type := t\<rparr>); Some r1 }"

definition tickElection :: "raft \<Rightarrow> raft option" where
  "tickElection r0 =
     do { let r1 = r0\<lparr>r_electionElapsed := r_electionElapsed r0 + 1, r_rttprobeElapsed := r_rttprobeElapsed r0 + 1\<rparr>;
          r2 \<leftarrow> (if pastRttprobeTimeout r1 then stepLocal (r1\<lparr>r_rttprobeElapsed := 0\<rparr>) MsgProbeRttHup else Some r1);
          if promotable r2 \<and> pastElectionTimeout r2 then stepLocal (r2\<lparr>r_electionElapsed := 0\<rparr>) MsgHup
          else Some r2 }"

definition activeTransferLeadership :: "raft \<Rightarrow> nat \<Rightarrow> raft option" where
  "activeTransferLeadership r transferee =
     do { (_, r1) \<leftarrow> stepBy r (emptyMessage\<lparr>m_Type := MsgTransferLeader, m_From := transferee, m_To := r_lead r\<rparr>);
          Some r1 }"

text \<open>The periodic look for a better placed leader.\<close>

definition considerTransfer :: "raft \<Rightarrow> raft option" where
  "considerTransfer r =
     (if Determine_network_deterioration r then
        case CalBetterNodes r of
          (BetterN, r1) \<Rightarrow>
            if length BetterN = 0 then Some r1
            else do { (BestNode, r2) \<leftarrow> CalBestNode r1 BetterN;
                      if BestNode = r_id r2 then Some r2 else activeTransferLeadership r2 BestNode }
      else Some r)"

definition tickHeartbeat :: "raft \<Rightarrow> raft option" where
  "tickHeartbeat r0 =
     do { let r1 = r0\<lparr>r_heartbeatElapsed := r_heartbeatElapsed r0 + 1, r_electionElapsed := r_electionElapsed r0 + 1,
                      r_rttprobeElapsed := r_rttprobeElapsed r0 + 1,
                      r_leaderTransferElapsed := r_leaderTransferElapsed r0 + 1\<rparr>;
          r2 \<leftarrow> (if pastRttprobeTimeout r1 then stepLocal (r1\<lparr>r_rttprobeElapsed := 0\<rparr>) MsgProbeRttHup else Some r1);
          r3 \<leftarrow> (if pastLeaderTransferTimeout r2 then considerTransfer (r2\<lparr>r_leaderTransferElapsed := 0\<rparr>) else Some r2);
          r4 \<leftarrow> (if r_electionElapsed r3 \<ge> r_electionTimeout r3 then do {
                  let q = r3\<lparr>r_electionElapsed := 0\<rparr>;
                  q1 \<leftarrow> (if r_checkQuorum q then stepLocal q MsgCheckQuorum else Some q);
                  Some (if r_state q1 = StateLeader \<and> r_leadTransferee q1 \<noteq> 0 then abortLeaderTransfer q1 else q1) }
                else Some r3);
          if r_state r4 \<noteq> StateLeader then Some r4
          else if r_heartbeatElapsed r4 \<ge> r_heartbeatTimeout r4
          then stepLocal (r4\<lparr>r_heartbeatElapsed := 0\<rparr>) MsgBeat
          else Some r4 }"

definition tickRttProbe :: "raft \<Rightarrow> raft" where
  "tickRttProbe r = r\<lparr>r_rttprobeElapsed := r_rttprobeElapsed r + 1\<rparr>"

definition tick :: "raft \<Rightarrow> raft option" where
  "tick r = (case r_tick r of TickElection \<Rightarrow> tickElection r | TickHeartbeat \<Rightarrow> tickHeartbeat r)"

subsection \<open>Creation\<close>

text \<open>The struct literal of \<open>newRaft\<close> and the assignments that follow it.\<close>

definition initRaft :: "env \<Rightarrow> config \<Rightarrow> raftLog \<Rightarrow> raft" where
  "initRaft e c l =
     \<lparr>r_env = e, r_id = c_ID c, r_Term = 0, r_Vote = 0, r_readStates = [], r_raftLog = l,
      r_maxMsgSize = c_MaxSizePerMsg c, r_maxUncommittedSize = c_MaxUncommittedEntriesSize c,
      r_prs = MakeProgressTracker (nat (c_MaxInflightMsgs c)), r_state = StateFollower, r_isLearner = False,
      r_msgs = [], r_lead = 0, r_leadTransferee = 0, r_pendingConfIndex = 0, r_uncommittedSize = 0,
      r_readOnly = newReadOnly (c_ReadOnlyOption c), r_electionElapsed = 0, r_heartbeatElapsed = 0,
      r_rttprobeElapsed = c_ElectionTick c * 10, r_leaderTransferElapsed = 0,
      r_checkQuorum = c_CheckQuorum c, r_preVote = c_PreVote c, r_networkSimulation = c_NetworkSimulation c,
      r_testingVariable = False, r_heartbeatTimeout = c_HeartbeatTick c, r_electionTimeout = c_ElectionTick c,
      r_electionPenaltyTime = 0, r_randomizedElectionTimeout = 0,
      r_disableProposalForwarding = c_DisableProposalForwarding c, r_rttprobeTimeout = c_RttprobeTick c,
      r_leaderTransferTimeout = c_ElectionTick c * 100, r_rttMap = fmempty, r_rttMap_old = fmempty,
      r_nodeLatency = fmempty, r_tick = TickElection, r_step = StepFollower, r_pendingReadIndexMessages = []\<rparr>"

text \<open>The configuration state to start from; giving the peers twice is a panic.\<close>

definition startConfState :: "config \<Rightarrow> confState \<Rightarrow> confState option" where
  "startConfState c cs =
     (if length (c_peers c) > 0 \<or> length (c_learners c) > 0 then
        if length (cs_Voters cs) > 0 \<or> length (cs_Learners cs) > 0 then None
        else Some (cs\<lparr>cs_Voters := c_peers c, cs_Learners := c_learners c\<rparr>)
      else Some cs)"

definition newRaft :: "env \<Rightarrow> config \<Rightarrow> raft option" where
  "newRaft e c0 =
     (case validate c0 of
        Inl err \<Rightarrow> None
      | Inr c \<Rightarrow> do {
          st \<leftarrow> c_Storage c;
          let l = newLogWithSize st (c_MaxCommittedSizePerReady c);
          let (hs, cs0) = InitialState st;
          cs \<leftarrow> startConfState c cs0;
          let r = initRaft e c l;
          res \<leftarrow> Restore \<lparr>chg_Tracker = r_prs r, chg_LastIndex = lastIndex l\<rparr> cs;
          (case res of
             Inl err \<Rightarrow> None
           | Inr (cfg, prs) \<Rightarrow> do {
               (cs', r1) \<leftarrow> switchToConfig r cfg prs;
               if \<not> ConfStateEquivalent cs cs' then None
               else do {
                 r2 \<leftarrow> (if \<not> IsEmptyHardState hs then loadState r1 hs else Some r1);
                 r3 \<leftarrow> (if c_Applied c > 0
                       then do { l' \<leftarrow> appliedTo (r_raftLog r2) (c_Applied c); Some (r2\<lparr>r_raftLog := l'\<rparr>) }
                       else Some r2);
                 r4 \<leftarrow> becomeFollower r3 (r_Term r3) 0;
                 _ \<leftarrow> lastTerm (r_raftLog r4);
                 Some r4 } }) })"

end
