(* ===== verification/RawNode.thy ===== *)
theory RawNode
  imports RaftStep
begin

text \<open>
  \<open>glee-etcd/raft/rawnode.go\<close>, \<open>bootstrap.go\<close>, \<open>status.go\<close> and the \<open>Ready\<close> part of \<open>node.go\<close>: the interface
  between the state machine and the application. A method of \<open>RawNode\<close> returns the updated node (and
  its error); \<open>None\<close> is a panic.
\<close>

datatype snapshotStatus = SnapshotFinish | SnapshotFailure | SnapshotStatusOther int

definition softStateEqual :: "softState \<Rightarrow> softState \<Rightarrow> bool" where
  "softStateEqual a b \<longleftrightarrow> ss_Lead a = ss_Lead b \<and> ss_RaftState a = ss_RaftState b"

definition isHardStateEqual :: "hardState \<Rightarrow> hardState \<Rightarrow> bool" where
  "isHardStateEqual a b \<longleftrightarrow> hs_Term a = hs_Term b \<and> hs_Vote a = hs_Vote b \<and> hs_Commit a = hs_Commit b"

record ready =
  rdy_SoftState :: "softState option"
  rdy_HardState :: hardState
  rdy_ReadStates :: "readState list"
  rdy_Entries :: "entry list"
  rdy_Snapshot :: snapshot
  rdy_CommittedEntries :: "entry list"
  rdy_Messages :: "message list"
  rdy_MustSync :: bool

definition emptyReady :: ready where
  "emptyReady = \<lparr>rdy_SoftState = None, rdy_HardState = emptyHardState, rdy_ReadStates = [], rdy_Entries = [],
     rdy_Snapshot = emptySnapshot, rdy_CommittedEntries = [], rdy_Messages = [], rdy_MustSync = False\<rparr>"

definition containsUpdates :: "ready \<Rightarrow> bool" where
  "containsUpdates rd \<longleftrightarrow> rdy_SoftState rd \<noteq> None \<or> \<not> IsEmptyHardState (rdy_HardState rd) \<or>
     \<not> IsEmptySnap (rdy_Snapshot rd) \<or> length (rdy_Entries rd) > 0 \<or>
     length (rdy_CommittedEntries rd) > 0 \<or> length (rdy_Messages rd) > 0 \<or> length (rdy_ReadStates rd) \<noteq> 0"

definition appliedCursor :: "ready \<Rightarrow> nat" where
  "appliedCursor rd =
     (if length (rdy_CommittedEntries rd) > 0 then e_Index (List.last (rdy_CommittedEntries rd))
      else if snapIndex (rdy_Snapshot rd) > 0 then snapIndex (rdy_Snapshot rd)
      else 0)"

definition MustSync :: "hardState \<Rightarrow> hardState \<Rightarrow> nat \<Rightarrow> bool" where
  "MustSync st prevst entsnum \<longleftrightarrow> entsnum \<noteq> 0 \<or> hs_Vote st \<noteq> hs_Vote prevst \<or> hs_Term st \<noteq> hs_Term prevst"

definition newReady :: "raft \<Rightarrow> softState \<Rightarrow> hardState \<Rightarrow> ready option" where
  "newReady r prevSoftSt prevHardSt =
     do { committed \<leftarrow> nextEnts (r_raftLog r);
          let softSt = softStateOf r;
          let hardSt = hardStateOf r;
          let entries = unstableEntries (r_raftLog r);
          Some \<lparr>rdy_SoftState = (if \<not> softStateEqual softSt prevSoftSt then Some softSt else None),
                rdy_HardState = (if \<not> isHardStateEqual hardSt prevHardSt then hardSt else emptyHardState),
                rdy_ReadStates = r_readStates r,
                rdy_Entries = entries,
                rdy_Snapshot = (case us_snapshot (rl_unstable (r_raftLog r)) of Some s \<Rightarrow> s | None \<Rightarrow> emptySnapshot),
                rdy_CommittedEntries = committed,
                rdy_Messages = r_msgs r,
                rdy_MustSync = MustSync hardSt prevHardSt (length entries)\<rparr> }"

subsection \<open>Advancing\<close>

text \<open>Leaving a joint configuration on its own, once everything up to its entry is applied.\<close>

definition autoLeave :: "raft \<Rightarrow> raft option" where
  "autoLeave r =
     do { let ccdata = marshalConfChangeV2 (env_codec (r_env r)) emptyConfChangeV2;
          (accepted, r1) \<leftarrow> appendEntry r [emptyEntry\<lparr>e_Type := EntryConfChangeV2, e_Data := Some ccdata\<rparr>];
          Some (if \<not> accepted then r1\<lparr>r_pendingConfIndex := lastIndex (r_raftLog r1)\<rparr> else r1) }"

definition advance :: "raft \<Rightarrow> ready \<Rightarrow> raft option" where
  "advance r rd =
     do { let index = appliedCursor rd;
          r1 \<leftarrow> (if index > 0 then do {
                  l \<leftarrow> appliedTo (r_raftLog r) index;
                  let r' = r\<lparr>r_raftLog := l\<rparr>;
                  if tc_AutoLeave (pt_Config (r_prs r')) \<and> index \<ge> r_pendingConfIndex r' \<and> r_state r' = StateLeader
                  then autoLeave r' else Some r' }
                else Some r);
          let r2 = reduceUncommittedSize r1 (rdy_CommittedEntries rd);
          r3 \<leftarrow> (if length (rdy_Entries rd) > 0 then do {
                  let e = List.last (rdy_Entries rd);
                  l \<leftarrow> stableTo (r_raftLog r2) (e_Index e) (e_Term e);
                  Some (r2\<lparr>r_raftLog := l\<rparr>) }
                else Some r2);
          Some (if \<not> IsEmptySnap (rdy_Snapshot rd)
                then r3\<lparr>r_raftLog := stableSnapTo (r_raftLog r3) (snapIndex (rdy_Snapshot rd))\<rparr> else r3) }"

subsection \<open>RawNode\<close>

record rawNode =
  rn_raft :: raft
  rn_prevSoftSt :: softState
  rn_prevHardSt :: hardState

definition NewRawNode :: "env \<Rightarrow> config \<Rightarrow> rawNode option" where
  "NewRawNode e config =
     do { r \<leftarrow> newRaft e config;
          Some \<lparr>rn_raft = r, rn_prevSoftSt = softStateOf r, rn_prevHardSt = hardStateOf r\<rparr> }"

definition TickNode :: "rawNode \<Rightarrow> rawNode option" where
  "TickNode rn = do { r \<leftarrow> tick (rn_raft rn); Some (rn\<lparr>rn_raft := r\<rparr>) }"

definition TickQuiesced :: "rawNode \<Rightarrow> rawNode" where
  "TickQuiesced rn = rn\<lparr>rn_raft := (rn_raft rn)\<lparr>r_electionElapsed := r_electionElapsed (rn_raft rn) + 1\<rparr>\<rparr>"

definition stepNode :: "rawNode \<Rightarrow> message \<Rightarrow> (raftErr option \<times> rawNode) option" where
  "stepNode rn m = do { (err, r) \<leftarrow> Step (rn_raft rn) m; Some (err, rn\<lparr>rn_raft := r\<rparr>) }"

definition Campaign :: "rawNode \<Rightarrow> (raftErr option \<times> rawNode) option" where
  "Campaign rn = stepNode rn (emptyMessage\<lparr>m_Type := MsgHup\<rparr>)"

definition Propose :: "rawNode \<Rightarrow> gobytes \<Rightarrow> (raftErr option \<times> rawNode) option" where
  "Propose rn data = stepNode rn (emptyMessage\<lparr>m_Type := MsgProp, m_From := r_id (rn_raft rn),
     m_Entries := [emptyEntry\<lparr>e_Data := data\<rparr>]\<rparr>)"

definition confChangeToMsg :: "codec \<Rightarrow> confChangeI \<Rightarrow> message" where
  "confChangeToMsg cd c =
     (case MarshalConfChange cd c of
        (typ, data) \<Rightarrow> emptyMessage\<lparr>m_Type := MsgProp,
          m_Entries := [emptyEntry\<lparr>e_Type := typ, e_Data := Some data\<rparr>]\<rparr>)"

definition ProposeConfChange :: "rawNode \<Rightarrow> confChangeI \<Rightarrow> (raftErr option \<times> rawNode) option" where
  "ProposeConfChange rn cc = stepNode rn (confChangeToMsg (env_codec (r_env (rn_raft rn))) cc)"

definition ApplyConfChange :: "rawNode \<Rightarrow> confChangeI \<Rightarrow> (confState \<times> rawNode) option" where
  "ApplyConfChange rn cc =
     do { (cs, r) \<leftarrow> applyConfChange (rn_raft rn) (AsV2 cc); Some (cs, rn\<lparr>rn_raft := r\<rparr>) }"

definition StepRawNode :: "rawNode \<Rightarrow> message \<Rightarrow> (raftErr option \<times> rawNode) option" where
  "StepRawNode rn m =
     (if IsLocalMsg (m_Type m) then Some (Some ErrStepLocalMsg, rn)
      else if progressOf (rn_raft rn) (m_From m) \<noteq> None \<or> \<not> IsResponseMsg (m_Type m) then stepNode rn m
      else Some (Some ErrStepPeerNotFound, rn))"

definition readyWithoutAccept :: "rawNode \<Rightarrow> ready option" where
  "readyWithoutAccept rn = newReady (rn_raft rn) (rn_prevSoftSt rn) (rn_prevHardSt rn)"

definition acceptReady :: "rawNode \<Rightarrow> ready \<Rightarrow> rawNode" where
  "acceptReady rn rd =
     (let rn1 = (case rdy_SoftState rd of Some ss \<Rightarrow> rn\<lparr>rn_prevSoftSt := ss\<rparr> | None \<Rightarrow> rn);
          r = rn_raft rn1;
          r1 = (if length (rdy_ReadStates rd) \<noteq> 0 then r\<lparr>r_readStates := []\<rparr> else r)
      in rn1\<lparr>rn_raft := r1\<lparr>r_msgs := []\<rparr>\<rparr>)"

definition ReadyNode :: "rawNode \<Rightarrow> (ready \<times> rawNode) option" where
  "ReadyNode rn = do { rd \<leftarrow> readyWithoutAccept rn; Some (rd, acceptReady rn rd) }"

definition HasReady :: "rawNode \<Rightarrow> bool" where
  "HasReady rn =
     (let r = rn_raft rn; hardSt = hardStateOf r in
      if \<not> softStateEqual (softStateOf r) (rn_prevSoftSt rn) then True
      else if \<not> IsEmptyHardState hardSt \<and> \<not> isHardStateEqual hardSt (rn_prevHardSt rn) then True
      else if (case us_snapshot (rl_unstable (r_raftLog r)) of Some s \<Rightarrow> \<not> IsEmptySnap s | None \<Rightarrow> False) then True
      else if length (r_msgs r) > 0 \<or> length (unstableEntries (r_raftLog r)) > 0 \<or> hasNextEnts (r_raftLog r) then True
      else if length (r_readStates r) \<noteq> 0 then True
      else False)"

definition AdvanceNode :: "rawNode \<Rightarrow> ready \<Rightarrow> rawNode option" where
  "AdvanceNode rn rd =
     do { let rn1 = (if \<not> IsEmptyHardState (rdy_HardState rd) then rn\<lparr>rn_prevHardSt := rdy_HardState rd\<rparr> else rn);
          r \<leftarrow> advance (rn_raft rn1) rd;
          Some (rn1\<lparr>rn_raft := r\<rparr>) }"

text \<open>Methods that ignore the error of \<open>Step\<close>.\<close>

definition stepIgnore :: "rawNode \<Rightarrow> message \<Rightarrow> rawNode option" where
  "stepIgnore rn m = do { (_, rn1) \<leftarrow> stepNode rn m; Some rn1 }"

definition ReportUnreachable :: "rawNode \<Rightarrow> nat \<Rightarrow> rawNode option" where
  "ReportUnreachable rn v = stepIgnore rn (emptyMessage\<lparr>m_Type := MsgUnreachable, m_From := v\<rparr>)"

definition ReportSnapshot :: "rawNode \<Rightarrow> nat \<Rightarrow> snapshotStatus \<Rightarrow> rawNode option" where
  "ReportSnapshot rn v status = stepIgnore rn (emptyMessage\<lparr>m_Type := MsgSnapStatus, m_From := v,
     m_Reject := (status = SnapshotFailure)\<rparr>)"

definition TransferLeader :: "rawNode \<Rightarrow> nat \<Rightarrow> rawNode option" where
  "TransferLeader rn transferee = stepIgnore rn (emptyMessage\<lparr>m_Type := MsgTransferLeader, m_From := transferee\<rparr>)"

definition ReadIndexNode :: "rawNode \<Rightarrow> gobytes \<Rightarrow> rawNode option" where
  "ReadIndexNode rn rctx = stepIgnore rn (emptyMessage\<lparr>m_Type := MsgReadIndex,
     m_Entries := [emptyEntry\<lparr>e_Data := rctx\<rparr>]\<rparr>)"

subsection \<open>Status\<close>

record basicStatus =
  bs_ID :: nat
  bs_HardState :: hardState
  bs_SoftState :: softState
  bs_Applied :: nat
  bs_LeadTransferee :: nat

record nodeStatus =
  st_Basic :: basicStatus
  st_Config :: trackerConfig
  st_Progress :: "progressMap option"

definition getProgressCopy :: "raft \<Rightarrow> progressMap" where
  "getProgressCopy r = fmmap (\<lambda>pr. pr\<lparr>pr_Inflights := CloneInflights (pr_Inflights pr)\<rparr>) (pt_Progress (r_prs r))"

definition getBasicStatus :: "raft \<Rightarrow> basicStatus" where
  "getBasicStatus r = \<lparr>bs_ID = r_id r, bs_HardState = hardStateOf r, bs_SoftState = softStateOf r,
     bs_Applied = rl_applied (r_raftLog r), bs_LeadTransferee = r_leadTransferee r\<rparr>"

definition getStatus :: "raft \<Rightarrow> nodeStatus" where
  "getStatus r = \<lparr>st_Basic = getBasicStatus r, st_Config = CloneConfig (pt_Config (r_prs r)),
     st_Progress = (if r_state r = StateLeader then Some (getProgressCopy r) else None)\<rparr>"

text \<open>The visitor of \<open>WithProgress\<close> gets a copy of each progress whose inflights are nil: the other fields.\<close>

datatype progressType = ProgressTypePeer | ProgressTypeLearner

record progressView =
  pv_Match :: nat
  pv_Next :: nat
  pv_State :: progressState
  pv_PendingSnapshot :: nat
  pv_RecentActive :: bool
  pv_ProbeSent :: bool
  pv_IsLearner :: bool

definition withoutInflights :: "progress \<Rightarrow> progressView" where
  "withoutInflights pr = \<lparr>pv_Match = pr_Match pr, pv_Next = pr_Next pr, pv_State = pr_State pr,
     pv_PendingSnapshot = pr_PendingSnapshot pr, pv_RecentActive = pr_RecentActive pr,
     pv_ProbeSent = pr_ProbeSent pr, pv_IsLearner = pr_IsLearner pr\<rparr>"

definition WithProgress :: "rawNode \<Rightarrow> (nat \<times> progressType \<times> progressView) list" where
  "WithProgress rn =
     (let prs = r_prs (rn_raft rn) in
      map (\<lambda>v. let pr = the (fmlookup (pt_Progress prs) v) in
             (v, if pr_IsLearner pr then ProgressTypeLearner else ProgressTypePeer, withoutInflights pr))
        (VisitIds prs))"

subsection \<open>Bootstrap\<close>

record peer =
  peer_ID :: nat
  peer_Context :: gobytes

datatype bootstrapErr = ErrNoPeers | ErrNonemptyStorage

fun bootstrapEntries :: "codec \<Rightarrow> nat \<Rightarrow> peer list \<Rightarrow> entry list" where
  "bootstrapEntries cd i [] = []"
| "bootstrapEntries cd i (p # ps) =
     \<lparr>e_Type = EntryConfChange, e_Term = 1, e_Index = i + 1,
      e_Data = Some (marshalConfChange cd \<lparr>cc_ID = 0, cc_Type = ConfChangeAddNode, cc_NodeID = peer_ID p,
        cc_Context = peer_Context p\<rparr>)\<rparr> # bootstrapEntries cd (i + 1) ps"

definition Bootstrap :: "rawNode \<Rightarrow> peer list \<Rightarrow> (bootstrapErr option \<times> rawNode) option" where
  "Bootstrap rn peers =
     (if length peers = 0 then Some (Some ErrNoPeers, rn)
      else if ms_lastIndex (rl_storage (r_raftLog (rn_raft rn))) \<noteq> 0 then Some (Some ErrNonemptyStorage, rn)
      else do {
        let rn1 = rn\<lparr>rn_prevHardSt := emptyHardState\<rparr>;
        r1 \<leftarrow> becomeFollower (rn_raft rn1) 1 0;
        let ents = bootstrapEntries (env_codec (r_env r1)) 0 peers;
        (_, l) \<leftarrow> appendLog (r_raftLog r1) ents;
        let r2 = r1\<lparr>r_raftLog := l\<lparr>rl_committed := length ents\<rparr>\<rparr>;
        r3 \<leftarrow> foldM (\<lambda>r p. do { (_, r') \<leftarrow> applyConfChange r (AsV2 (CCV1
                 \<lparr>cc_ID = 0, cc_Type = ConfChangeAddNode, cc_NodeID = peer_ID p, cc_Context = None\<rparr>));
               Some r' }) r2 peers;
        Some (None, rn1\<lparr>rn_raft := r3\<rparr>) })"

end
