(* ===== verification/NodeLoop.thy ===== *)
theory NodeLoop
  imports RawNode
begin

text \<open>
  \<open>glee-etcd/raft/node.go\<close>: the goroutine \<open>run\<close> that serialises everything that happens to a node. One
  iteration prepares a \<open>Ready\<close> (\<open>loopTop\<close>) and then handles one event that a channel delivers
  (\<open>loopEvent\<close>); which channel is ready is the choice of the environment, so a run is a sequence of
  events. The variables of the goroutine are a record: a channel variable is whether it is non-nil.
\<close>

record nodeLoop =
  nl_rn :: rawNode
  nl_propc :: bool
  nl_readyc :: bool
  nl_advancec :: bool
  nl_rd :: ready
  nl_lead :: nat
  nl_stopped :: bool

datatype nodeEvent =
    EvProp message
  | EvRecv message
  | EvConf confChangeV2
  | EvTick
  | EvReady
  | EvAdvance
  | EvStatus
  | EvStop

definition startLoop :: "rawNode \<Rightarrow> nodeLoop" where
  "startLoop rn = \<lparr>nl_rn = rn, nl_propc = False, nl_readyc = False, nl_advancec = False, nl_rd = emptyReady,
     nl_lead = 0, nl_stopped = False\<rparr>"

text \<open>Before the \<open>select\<close>: arm the ready channel and track the leader.\<close>

definition loopTop :: "nodeLoop \<Rightarrow> nodeLoop option" where
  "loopTop n =
     do { n1 \<leftarrow> (if nl_advancec n then Some (n\<lparr>nl_readyc := False\<rparr>)
                else if HasReady (nl_rn n)
                then do { rd \<leftarrow> readyWithoutAccept (nl_rn n); Some (n\<lparr>nl_rd := rd, nl_readyc := True\<rparr>) }
                else Some n);
          let r = rn_raft (nl_rn n1);
          Some (if nl_lead n1 \<noteq> r_lead r
                then n1\<lparr>nl_propc := hasLeader r, nl_lead := r_lead r\<rparr> else n1) }"

text \<open>Which events the \<open>select\<close> can take: a nil channel blocks for ever.\<close>

definition enabled :: "nodeLoop \<Rightarrow> nodeEvent \<Rightarrow> bool" where
  "enabled n e \<longleftrightarrow> \<not> nl_stopped n \<and> (case e of
       EvProp _ \<Rightarrow> nl_propc n
     | EvReady \<Rightarrow> nl_readyc n
     | EvAdvance \<Rightarrow> nl_advancec n
     | _ \<Rightarrow> True)"

definition confEvent :: "nodeLoop \<Rightarrow> confChangeV2 \<Rightarrow> nodeLoop option" where
  "confEvent n cc =
     do { let r = rn_raft (nl_rn n);
          let okBefore = (progressOf r (r_id r) \<noteq> None);
          (cs, r1) \<leftarrow> applyConfChange r cc;
          let okAfter = (progressOf r1 (r_id r1) \<noteq> None);
          let found = (r_id r1 \<in> set (cs_Voters cs) \<or> r_id r1 \<in> set (cs_VotersOutgoing cs));
          let n1 = n\<lparr>nl_rn := (nl_rn n)\<lparr>rn_raft := r1\<rparr>\<rparr>;
          Some (if okBefore \<and> \<not> okAfter \<and> \<not> found then n1\<lparr>nl_propc := False\<rparr> else n1) }"

definition loopEvent :: "nodeLoop \<Rightarrow> nodeEvent \<Rightarrow> nodeLoop option" where
  "loopEvent n e = (case e of
       EvProp m \<Rightarrow>
         do { (_, rn) \<leftarrow> stepNode (nl_rn n) (m\<lparr>m_From := r_id (rn_raft (nl_rn n))\<rparr>); Some (n\<lparr>nl_rn := rn\<rparr>) }
     | EvRecv m \<Rightarrow>
         if progressOf (rn_raft (nl_rn n)) (m_From m) \<noteq> None \<or> \<not> IsResponseMsg (m_Type m)
         then do { (_, rn) \<leftarrow> stepNode (nl_rn n) m; Some (n\<lparr>nl_rn := rn\<rparr>) }
         else Some n
     | EvConf cc \<Rightarrow> confEvent n cc
     | EvTick \<Rightarrow> do { rn \<leftarrow> TickNode (nl_rn n); Some (n\<lparr>nl_rn := rn\<rparr>) }
     | EvReady \<Rightarrow> Some (n\<lparr>nl_rn := acceptReady (nl_rn n) (nl_rd n), nl_advancec := True\<rparr>)
     | EvAdvance \<Rightarrow>
         do { rn \<leftarrow> AdvanceNode (nl_rn n) (nl_rd n);
              Some (n\<lparr>nl_rn := rn, nl_rd := emptyReady, nl_advancec := False\<rparr>) }
     | EvStatus \<Rightarrow> Some n
     | EvStop \<Rightarrow> Some (n\<lparr>nl_stopped := True\<rparr>))"

text \<open>One iteration of the loop, as a relation: the environment picks an enabled event.\<close>

inductive loop_step :: "nodeLoop \<Rightarrow> nodeEvent \<Rightarrow> nodeLoop \<Rightarrow> bool" where
  iteration: "\<not> nl_stopped n \<Longrightarrow> loopTop n = Some n1 \<Longrightarrow> enabled n1 e \<Longrightarrow> loopEvent n1 e = Some n2 \<Longrightarrow>
    loop_step n e n2"

inductive_cases loop_stepE: "loop_step n e n2"

inductive_simps loop_step_iff: "loop_step n e n2"

text \<open>The states that a goroutine started on a node passes through.\<close>

inductive loop_reach :: "rawNode \<Rightarrow> nodeLoop \<Rightarrow> bool" for rn0 :: rawNode where
  start: "loop_reach rn0 (startLoop rn0)"
| step: "loop_reach rn0 n \<Longrightarrow> loop_step n e n2 \<Longrightarrow> loop_reach rn0 n2"

end
