(* ===== verification/RaftFacts.thy ===== *)
theory RaftFacts
  imports RaftStep
begin

text \<open>
  What no operation of the state machine takes back: the relation \<open>raft_mono\<close> between the states before
  and after (the term grows, a vote stands for its term, the commit index grows, queued messages
  stay queued). All operations but elections satisfy the stronger \<open>raft_le\<close>: no vote is granted, and
  the node is a candidate or a leader afterwards only if it was one before, in the same term and
  with the same votes. A lemma per operation, from which the results for \<open>Step\<close> and the ticks follow.
\<close>

subsection \<open>The relations\<close>

definition raft_mono :: "raft \<Rightarrow> raft \<Rightarrow> bool" where
  "raft_mono r r' \<longleftrightarrow> r_id r' = r_id r \<and> r_Term r \<le> r_Term r' \<and>
     (r_Term r' = r_Term r \<and> r_Vote r \<noteq> 0 \<longrightarrow> r_Vote r' = r_Vote r) \<and>
     rl_committed (r_raftLog r) \<le> rl_committed (r_raftLog r') \<and>
     (\<exists>ms. r_msgs r' = r_msgs r @ ms)"

text \<open>A message that grants a vote of the real election.\<close>

abbreviation isGrant :: "message \<Rightarrow> bool" where
  "isGrant m \<equiv> m_Type m = MsgVoteResp \<and> \<not> m_Reject m"

definition quiet :: "raft \<Rightarrow> raft \<Rightarrow> bool" where
  "quiet r r' \<longleftrightarrow> (\<exists>ms. r_msgs r' = r_msgs r @ ms \<and> (\<forall>m \<in> set ms. \<not> isGrant m))"

text \<open>The handler of messages for candidates is installed only in a candidate.\<close>

definition role_ok :: "raft \<Rightarrow> bool" where
  "role_ok r \<longleftrightarrow> (r_step r = StepCandidate \<longrightarrow> r_state r \<in> {StateCandidate, StatePreCandidate})"

definition calm :: "raft \<Rightarrow> raft \<Rightarrow> bool" where
  "calm r r' \<longleftrightarrow> (role_ok r \<longrightarrow> role_ok r') \<and>
     (r_state r' \<in> {StateLeader, StateCandidate} \<longrightarrow>
        r_state r = r_state r' \<and> r_Term r = r_Term r' \<and> pt_Votes (r_prs r') = pt_Votes (r_prs r))"

definition raft_le :: "raft \<Rightarrow> raft \<Rightarrow> bool" where
  "raft_le r r' \<longleftrightarrow> raft_mono r r' \<and> quiet r r' \<and> calm r r'"

lemma raft_mono_refl [simp]: "raft_mono r r"
  by (simp add: raft_mono_def)

lemma raft_mono_trans: "raft_mono a b \<Longrightarrow> raft_mono b c \<Longrightarrow> raft_mono a c"
  unfolding raft_mono_def by (metis append.assoc dual_order.antisym le_trans)

lemma quiet_trans: "quiet a b \<Longrightarrow> quiet b c \<Longrightarrow> quiet a c"
  unfolding quiet_def by (metis append.assoc UnE set_append)

lemma calm_trans: "calm a b \<Longrightarrow> calm b c \<Longrightarrow> calm a c"
  unfolding calm_def by auto

lemma raft_le_refl [simp]: "raft_le r r"
  by (simp add: raft_le_def quiet_def calm_def)

lemma raft_le_trans: "raft_le a b \<Longrightarrow> raft_le b c \<Longrightarrow> raft_le a c"
  unfolding raft_le_def using raft_mono_trans quiet_trans calm_trans by blast

lemma raft_le_mono: "raft_le r r' \<Longrightarrow> raft_mono r r'"
  by (simp add: raft_le_def)

lemmas raft_le_defs = raft_le_def raft_mono_def quiet_def calm_def role_ok_def

text \<open>Operations that leave the term and the vote alone as well.\<close>

definition raft_keep :: "raft \<Rightarrow> raft \<Rightarrow> bool" where
  "raft_keep r r' \<longleftrightarrow> raft_le r r' \<and> r_Term r' = r_Term r \<and> r_Vote r' = r_Vote r"

lemma raft_keep_refl [simp]: "raft_keep r r"
  by (simp add: raft_keep_def)

lemma raft_keep_trans: "raft_keep a b \<Longrightarrow> raft_keep b c \<Longrightarrow> raft_keep a c"
  unfolding raft_keep_def by (metis raft_le_trans)

lemma raft_keepI:
  "r_id r' = r_id r \<Longrightarrow> r_Term r' = r_Term r \<Longrightarrow> r_Vote r' = r_Vote r \<Longrightarrow>
   rl_committed (r_raftLog r) \<le> rl_committed (r_raftLog r') \<Longrightarrow> r_msgs r' = r_msgs r \<Longrightarrow>
   r_state r' = r_state r \<Longrightarrow> r_step r' = r_step r \<Longrightarrow> pt_Votes (r_prs r') = pt_Votes (r_prs r) \<Longrightarrow> raft_keep r r'"
  by (simp add: raft_keep_def raft_le_defs)

lemma raft_keep_le: "raft_keep r r' \<Longrightarrow> raft_le r r'"
  by (simp add: raft_keep_def)

text \<open>Chaining one more operation, with the operation as the first premise.\<close>

lemma raft_keep_after: "raft_keep b c \<Longrightarrow> raft_keep a b \<Longrightarrow> raft_keep a c"
  by (rule raft_keep_trans)

text \<open>Updates of fields the relation does not read.\<close>

lemma raft_keep_updates [simp]:
  "raft_keep a (r\<lparr>r_env := x0\<rparr>) = raft_keep a r"
  "raft_keep a (r\<lparr>r_readStates := x1\<rparr>) = raft_keep a r"
  "raft_keep a (r\<lparr>r_maxMsgSize := x2\<rparr>) = raft_keep a r"
  "raft_keep a (r\<lparr>r_maxUncommittedSize := x3\<rparr>) = raft_keep a r"
  "raft_keep a (r\<lparr>r_isLearner := x6\<rparr>) = raft_keep a r"
  "raft_keep a (r\<lparr>r_lead := x7\<rparr>) = raft_keep a r"
  "raft_keep a (r\<lparr>r_leadTransferee := x8\<rparr>) = raft_keep a r"
  "raft_keep a (r\<lparr>r_pendingConfIndex := x9\<rparr>) = raft_keep a r"
  "raft_keep a (r\<lparr>r_uncommittedSize := x10\<rparr>) = raft_keep a r"
  "raft_keep a (r\<lparr>r_readOnly := x11\<rparr>) = raft_keep a r"
  "raft_keep a (r\<lparr>r_electionElapsed := x12\<rparr>) = raft_keep a r"
  "raft_keep a (r\<lparr>r_heartbeatElapsed := x13\<rparr>) = raft_keep a r"
  "raft_keep a (r\<lparr>r_rttprobeElapsed := x14\<rparr>) = raft_keep a r"
  "raft_keep a (r\<lparr>r_leaderTransferElapsed := x15\<rparr>) = raft_keep a r"
  "raft_keep a (r\<lparr>r_checkQuorum := x16\<rparr>) = raft_keep a r"
  "raft_keep a (r\<lparr>r_preVote := x17\<rparr>) = raft_keep a r"
  "raft_keep a (r\<lparr>r_randomizedElectionTimeout := x18\<rparr>) = raft_keep a r"
  "raft_keep a (r\<lparr>r_electionPenaltyTime := x19\<rparr>) = raft_keep a r"
  "raft_keep a (r\<lparr>r_rttMap := x20\<rparr>) = raft_keep a r"
  "raft_keep a (r\<lparr>r_rttMap_old := x21\<rparr>) = raft_keep a r"
  "raft_keep a (r\<lparr>r_nodeLatency := x22\<rparr>) = raft_keep a r"
  "raft_keep a (r\<lparr>r_tick := x23\<rparr>) = raft_keep a r"
  "raft_keep a (r\<lparr>r_pendingReadIndexMessages := x25\<rparr>) = raft_keep a r"
  by (simp_all add: raft_keep_def raft_le_defs)

lemma raft_keep_prs [simp]:
  "pt_Votes p = pt_Votes (r_prs r) \<Longrightarrow> raft_keep a (r\<lparr>r_prs := p\<rparr>) = raft_keep a r"
  by (simp add: raft_keep_def raft_le_defs)

lemma foldM_keep:
  assumes "foldM f r xs = Some r'" and "\<And>r x r'. x \<in> set xs \<Longrightarrow> f r x = Some r' \<Longrightarrow> raft_keep r r'"
  shows "raft_keep r r'"
  using foldM_rel [where R = raft_keep, OF assms(1)] assms(2) raft_keep_trans raft_keep_refl by metis

lemma setProgress_keep [simp]: "raft_keep a (setProgress r v pr) = raft_keep a r"
  by (simp add: setProgress_def)

lemma abortLeaderTransfer_keep [simp]: "raft_keep a (abortLeaderTransfer r) = raft_keep a r"
  by (simp add: abortLeaderTransfer_def)

lemma setProgress_fields [simp]: "r_Term (setProgress r v pr) = r_Term r" "r_id (setProgress r v pr) = r_id r"
  "r_raftLog (setProgress r v pr) = r_raftLog r" "r_msgs (setProgress r v pr) = r_msgs r"
  "r_state (setProgress r v pr) = r_state r" "r_Vote (setProgress r v pr) = r_Vote r"
  "r_lead (setProgress r v pr) = r_lead r" "r_step (setProgress r v pr) = r_step r"
  "r_maxMsgSize (setProgress r v pr) = r_maxMsgSize r"
  by (simp_all add: setProgress_def)

lemma setProgress_progress [simp]:
  "progressOf (setProgress r v pr) w = (if w = v then Some pr else progressOf r w)"
  by (simp add: setProgress_def)

subsection \<open>Sending\<close>

lemma emptyMessage_fields [simp]: "m_Type emptyMessage = MsgHup" "m_To emptyMessage = 0" "m_Term emptyMessage = 0"
  "\<not> m_Reject emptyMessage" "m_From emptyMessage = 0"
  by (simp_all add: emptyMessage_def)

lemma send_cases:
  assumes "send r m = Some r'"
  shows "\<exists>m'. r' = r\<lparr>r_msgs := r_msgs r @ [m']\<rparr> \<and> m_From m' = r_id r \<and> m_Type m' = m_Type m \<and> m_To m' = m_To m"
  using assms by (auto simp: send_def Let_def split: if_splits)

lemma send_keep:
  assumes "send r m = Some r'" and "\<not> isGrant m" shows "raft_keep r r'"
proof -
  obtain m' where "r' = r\<lparr>r_msgs := r_msgs r @ [m']\<rparr>" "m_Type m' = m_Type m" "m_Reject m' = m_Reject m"
    using assms(1) by (auto simp: send_def Let_def split: if_splits)
  then show ?thesis using assms(2) by (auto simp: raft_keep_def raft_le_defs)
qed

lemmas send_chain = raft_keep_after [OF send_keep]

lemma appendMsg_Type [simp]: "m_Type (appendMsg r to pr t es) = MsgApp"
  by (simp add: appendMsg_def)

lemma maybeSendAppend_keep: "maybeSendAppend r to b = Some (sent, r') \<Longrightarrow> raft_keep r r'"
  by (auto simp: maybeSendAppend_def Let_def split: Option.bind_splits if_splits sum.splits intro: send_chain)

lemma sendAppend_keep: "sendAppend r to = Some r' \<Longrightarrow> raft_keep r r'"
  by (auto simp: sendAppend_def split: Option.bind_splits intro: maybeSendAppend_keep)

lemma sendHeartbeat_keep: "sendHeartbeat r to ctx = Some r' \<Longrightarrow> raft_keep r r'"
  by (auto simp: sendHeartbeat_def split: Option.bind_splits intro: send_keep)

lemma sendTimeoutNow_keep: "sendTimeoutNow r to = Some r' \<Longrightarrow> raft_keep r r'"
  by (auto simp: sendTimeoutNow_def intro: send_keep)

lemma bcastAppend_keep: "bcastAppend r = Some r' \<Longrightarrow> raft_keep r r'"
  unfolding bcastAppend_def by (erule foldM_keep) (auto split: if_splits intro: sendAppend_keep)

lemma bcastHeartbeatWithCtx_keep: "bcastHeartbeatWithCtx r ctx = Some r' \<Longrightarrow> raft_keep r r'"
  unfolding bcastHeartbeatWithCtx_def by (erule foldM_keep) (auto split: if_splits intro: sendHeartbeat_keep)

lemma bcastHeartbeat_keep: "bcastHeartbeat r = Some r' \<Longrightarrow> raft_keep r r'"
  by (auto simp: bcastHeartbeat_def Let_def split: if_splits intro: bcastHeartbeatWithCtx_keep)

lemma sendAllAppends_keep:
  assumes "sendAllAppends r to = Some r'"
  shows "raft_keep r r'"
  using _ assms
proof (rule sendAllAppends.raw_induct [of "\<lambda>r to r'. raft_keep r r'"])
  fix rec r to r'
  assume IH: "\<And>r to r'. rec r to = Some r' \<Longrightarrow> raft_keep r r'"
    and body: "maybeSendAppend r to False \<bind> (\<lambda>(sent, r1). if sent then rec r1 to else Some r1) = Some r'"
  then obtain sent r1 where s: "maybeSendAppend r to False = Some (sent, r1)"
      "(if sent then rec r1 to else Some r1) = Some r'"
    by (auto split: Option.bind_splits)
  have "raft_keep r1 r'" using s(2) IH by (auto split: if_splits)
  then show "raft_keep r r'" using maybeSendAppend_keep [OF s(1)] raft_keep_trans by blast
qed

subsection \<open>Committing and appending\<close>

lemma commitTo_mono: "commitTo l c = Some l' \<Longrightarrow> rl_committed l \<le> rl_committed l'"
  by (auto simp: commitTo_def split: if_splits)

lemma l_maybeCommit_mono: "l_maybeCommit l i t = Some (b, l') \<Longrightarrow> rl_committed l \<le> rl_committed l'"
  by (auto simp: l_maybeCommit_def split: Option.bind_splits if_splits dest: commitTo_mono)

lemma appendLog_committed: "appendLog l es = Some (i, l') \<Longrightarrow> rl_committed l' = rl_committed l"
  by (auto simp: appendLog_def Let_def split: Option.bind_splits list.splits if_splits)

lemma maybeAppend_mono: "maybeAppend l i t c es = Some (res, l') \<Longrightarrow> rl_committed l \<le> rl_committed l'"
  by (auto simp: maybeAppend_def Let_def split: Option.bind_splits if_splits dest!: commitTo_mono appendLog_committed)

text \<open>Replacing the log by one with at least the same commit index.\<close>

lemma raft_keep_log: "raft_keep a r \<Longrightarrow> rl_committed (r_raftLog r) \<le> rl_committed l \<Longrightarrow> raft_keep a (r\<lparr>r_raftLog := l\<rparr>)"
  by (auto simp: raft_keep_def raft_le_defs)

lemma maybeCommit_keep: "maybeCommit r = Some (b, r') \<Longrightarrow> raft_keep r r'"
  by (auto simp: maybeCommit_def split: Option.bind_splits intro!: raft_keep_log dest: l_maybeCommit_mono)

lemma reduceUncommittedSize_keep [simp]: "raft_keep a (reduceUncommittedSize r es) = raft_keep a r"
  by (simp add: reduceUncommittedSize_def Let_def)

lemma increaseUncommittedSize_keep:
  "increaseUncommittedSize r es = (b, r') \<Longrightarrow> raft_keep r r' \<and> r_raftLog r' = r_raftLog r \<and> r_prs r' = r_prs r \<and>
     r_id r' = r_id r"
  by (auto simp: increaseUncommittedSize_def Let_def split: if_splits)

lemma appendEntry_cases:
  assumes "appendEntry r es = Some (b, r')"
  obtains (dropped) "\<not> b" "increaseUncommittedSize r (stampEntries (r_Term r) (lastIndex (r_raftLog r) + 1) es) = (False, r')"
  | (accepted) r1 li l pr c where "b"
    "increaseUncommittedSize r (stampEntries (r_Term r) (lastIndex (r_raftLog r) + 1) es) = (True, r1)"
    "appendLog (r_raftLog r) (stampEntries (r_Term r) (lastIndex (r_raftLog r) + 1) es) = Some (li, l)"
    "progressOf r (r_id r) = Some pr"
    "maybeCommit (setProgress (r1\<lparr>r_raftLog := l\<rparr>) (r_id r) (snd (MaybeUpdate pr li))) = Some (c, r')"
proof -
  obtain b1 r1 where inc: "increaseUncommittedSize r (stampEntries (r_Term r) (lastIndex (r_raftLog r) + 1) es) = (b1, r1)"
    by fastforce
  note k = increaseUncommittedSize_keep [OF inc]
  show ?thesis
  proof (cases b1)
    case False
    then show ?thesis using dropped assms inc by (simp add: appendEntry_def Let_def)
  next
    case True
    then show ?thesis using accepted [of r1] assms inc k
      by (auto simp: appendEntry_def Let_def split: Option.bind_splits)
  qed
qed

lemma appendEntry_keep:
  assumes "appendEntry r es = Some (b, r')"
  shows "raft_keep r r'"
  using assms
proof (cases rule: appendEntry_cases)
  case dropped
  then show ?thesis using increaseUncommittedSize_keep by blast
next
  case (accepted r1 li l pr c)
  have "raft_keep r (setProgress (r1\<lparr>r_raftLog := l\<rparr>) (r_id r) (snd (MaybeUpdate pr li)))"
    using increaseUncommittedSize_keep [OF accepted(2)] appendLog_committed [OF accepted(3)]
    by (simp add: raft_keep_log)
  then show ?thesis using maybeCommit_keep [OF accepted(5)] raft_keep_trans by blast
qed

text \<open>What sending and appending leave alone altogether.\<close>

definition same_role :: "raft \<Rightarrow> raft \<Rightarrow> bool" where
  "same_role r r' \<longleftrightarrow> r_state r' = r_state r \<and> r_step r' = r_step r \<and> r_Term r' = r_Term r \<and> r_Vote r' = r_Vote r \<and>
     pt_Config (r_prs r') = pt_Config (r_prs r) \<and> pt_Votes (r_prs r') = pt_Votes (r_prs r)"

lemma same_role_refl [simp]: "same_role r r"
  by (simp add: same_role_def)

lemma same_role_trans: "same_role a b \<Longrightarrow> same_role b c \<Longrightarrow> same_role a c"
  by (simp add: same_role_def)

lemma same_role_setProgress [simp]: "same_role a (setProgress r v pr) = same_role a r"
  by (simp add: same_role_def setProgress_def)

lemma send_role: "send r m = Some r' \<Longrightarrow> same_role a r \<Longrightarrow> same_role a r'"
  by (drule send_cases) (auto simp: same_role_def)

lemma maybeSendAppend_role: "maybeSendAppend r to b = Some (sent, r') \<Longrightarrow> same_role r r'"
  by (auto simp: maybeSendAppend_def Let_def split: Option.bind_splits if_splits sum.splits intro: send_role)

lemma bcastAppend_role:
  assumes "bcastAppend r = Some r'" shows "same_role r r'"
proof (rule foldM_rel [where R = same_role, OF assms [unfolded bcastAppend_def]])
  fix s x s' assume "(if x = r_id s then Some s else sendAppend s x) = Some s'"
  then show "same_role s s'"
    by (auto simp: sendAppend_def split: if_splits Option.bind_splits intro: maybeSendAppend_role)
qed (use same_role_trans in auto)

lemma maybeCommit_role: "maybeCommit r = Some (b, r') \<Longrightarrow> same_role r r'"
  by (auto simp: maybeCommit_def same_role_def split: Option.bind_splits)

lemma appendEntry_role:
  assumes "appendEntry r es = Some (b, r')" shows "same_role r r'"
  using assms
proof (cases rule: appendEntry_cases)
  case dropped
  then show ?thesis by (auto simp: increaseUncommittedSize_def Let_def same_role_def split: if_splits)
next
  case (accepted r1 li l pr c)
  have "same_role r (r1\<lparr>r_raftLog := l\<rparr>)"
    using accepted(2) by (auto simp: increaseUncommittedSize_def Let_def same_role_def split: if_splits)
  then have "same_role r (setProgress (r1\<lparr>r_raftLog := l\<rparr>) (r_id r) (snd (MaybeUpdate pr li)))" by simp
  then show ?thesis using maybeCommit_role [OF accepted(5)] same_role_trans by blast
qed

lemma reduceUncommittedSize_role [simp]: "same_role a (reduceUncommittedSize r es) = same_role a r"
  by (simp add: reduceUncommittedSize_def Let_def same_role_def)

text \<open>The operations so far, as steps of a chain.\<close>

lemmas keep_chain = send_chain raft_keep_after [OF maybeSendAppend_keep] raft_keep_after [OF sendAppend_keep]
  raft_keep_after [OF sendHeartbeat_keep] raft_keep_after [OF sendTimeoutNow_keep]
  raft_keep_after [OF bcastAppend_keep] raft_keep_after [OF bcastHeartbeatWithCtx_keep]
  raft_keep_after [OF bcastHeartbeat_keep] raft_keep_after [OF sendAllAppends_keep]
  raft_keep_after [OF maybeCommit_keep] raft_keep_after [OF appendEntry_keep]

end
