(* ===== verification/RaftMono.thy ===== *)
theory RaftMono
  imports RaftFacts
begin

text \<open>
  The relation \<open>raft_le\<close> for role changes, campaigns and the message handlers, up to \<open>Step\<close> and the
  ticks. Only an overflow of the term could break it, hence the bound on terms.
\<close>

subsection \<open>Roles\<close>

lemma Intn_fields: "Intn r n = Some (k, r') \<Longrightarrow> \<exists>e. r' = r\<lparr>r_env := e\<rparr> \<and> 0 \<le> k \<and> k < n"
  by (auto simp: Intn_def Let_def split: if_splits)

lemma reset_fields:
  assumes "reset r t = Some r'"
  shows "r_id r' = r_id r" "r_Term r' = t" "r_Vote r' = (if r_Term r = t then r_Vote r else 0)"
    "r_raftLog r' = r_raftLog r" "r_msgs r' = r_msgs r" "r_lead r' = 0" "r_step r' = r_step r"
    "r_state r' = r_state r" "r_electionElapsed r' = 0" "pt_Config (r_prs r') = pt_Config (r_prs r)"
    "pt_Votes (r_prs r') = fmempty" "r_readStates r' = r_readStates r" "r_leadTransferee r' = 0"
    "r_electionTimeout r' = r_electionTimeout r" "r_electionPenaltyTime r' = r_electionPenaltyTime r"
    "r_preVote r' = r_preVote r" "r_checkQuorum r' = r_checkQuorum r"
  using assms
  by (auto simp: reset_def resetRandomizedElectionTimeout_def abortLeaderTransfer_def Let_def
      split: Option.bind_splits if_splits dest!: Intn_fields)

lemma resetRandomized_fields:
  assumes "resetRandomizedElectionTimeout r = Some r'"
  shows "r_id r' = r_id r" "r_raftLog r' = r_raftLog r" "r_prs r' = r_prs r"
  using assms by (auto simp: resetRandomizedElectionTimeout_def split: Option.bind_splits if_splits dest!: Intn_fields)

lemma reset_progress:
  assumes "reset r t = Some r'"
  shows "progressOf r' v = map_option (\<lambda>pr. freshProgress r v pr) (progressOf r v)"
proof -
  let ?r1 = "if r_Term r \<noteq> t then r\<lparr>r_Term := t, r_Vote := 0\<rparr> else r"
  let ?r2 = "?r1\<lparr>r_lead := 0, r_electionElapsed := 0, r_heartbeatElapsed := 0\<rparr>"
  obtain r3 where r3: "resetRandomizedElectionTimeout ?r2 = Some r3"
    and r': "r_prs r' = VisitUpdate (freshProgress (abortLeaderTransfer r3)) (ResetVotes (r_prs (abortLeaderTransfer r3)))"
    using assms by (auto simp: reset_def Let_def split: Option.bind_splits)
  note f = resetRandomized_fields [OF r3]
  have "freshProgress (abortLeaderTransfer r3) v = freshProgress r v"
    by (rule ext) (use f in \<open>simp add: freshProgress_def abortLeaderTransfer_def\<close>)
  moreover have "r_prs (abortLeaderTransfer r3) = r_prs r" using f by (simp add: abortLeaderTransfer_def)
  ultimately show ?thesis by (simp add: r')
qed

lemma becomeFollower_fields:
  assumes "becomeFollower r t l = Some r'"
  shows "r_id r' = r_id r" "r_Term r' = t" "r_Vote r' = (if r_Term r = t then r_Vote r else 0)"
    "r_raftLog r' = r_raftLog r" "r_msgs r' = r_msgs r" "r_lead r' = l" "r_step r' = StepFollower"
    "r_state r' = StateFollower" "pt_Config (r_prs r') = pt_Config (r_prs r)" "pt_Votes (r_prs r') = fmempty"
    "r_readStates r' = r_readStates r"
proof -
  obtain r1 where r1: "reset (r\<lparr>r_step := StepFollower\<rparr>) t = Some r1"
    "r' = r1\<lparr>r_tick := TickElection, r_lead := l, r_state := StateFollower\<rparr>"
    using assms by (auto simp: becomeFollower_def split: Option.bind_splits)
  note f = reset_fields [OF r1(1)]
  show "r_id r' = r_id r" "r_Term r' = t" "r_Vote r' = (if r_Term r = t then r_Vote r else 0)"
    "r_raftLog r' = r_raftLog r" "r_msgs r' = r_msgs r" "r_lead r' = l" "r_step r' = StepFollower"
    "r_state r' = StateFollower" "pt_Config (r_prs r') = pt_Config (r_prs r)" "pt_Votes (r_prs r') = fmempty"
    "r_readStates r' = r_readStates r"
    using f r1(2) by simp_all
qed

lemma becomeFollower_le: "becomeFollower r t l = Some r' \<Longrightarrow> r_Term r \<le> t \<Longrightarrow> raft_le r r'"
  using becomeFollower_fields [of r t l r'] by (simp add: raft_le_defs)

lemma becomeFollower_keep: "becomeFollower r t l = Some r' \<Longrightarrow> t = r_Term r \<Longrightarrow> raft_keep r r'"
  using becomeFollower_fields [of r t l r'] by (simp add: raft_keep_def raft_le_defs)

lemma becomeCandidate_fields:
  assumes "becomeCandidate r = Some r'"
  shows "r_id r' = r_id r" "r_Term r' = add64 (r_Term r) 1" "r_Vote r' = r_id r" "r_raftLog r' = r_raftLog r"
    "r_msgs r' = r_msgs r" "r_state r' = StateCandidate" "r_step r' = StepCandidate" "r_lead r' = 0"
    "pt_Config (r_prs r') = pt_Config (r_prs r)" "pt_Votes (r_prs r') = fmempty" "r_state r \<noteq> StateLeader"
proof -
  obtain r1 where r1: "reset (r\<lparr>r_step := StepCandidate\<rparr>) (add64 (r_Term r) 1) = Some r1"
    "r' = r1\<lparr>r_tick := TickElection, r_Vote := r_id r1, r_state := StateCandidate\<rparr>" "r_state r \<noteq> StateLeader"
    using assms by (auto simp: becomeCandidate_def split: Option.bind_splits if_splits)
  note f = reset_fields [OF r1(1)]
  show "r_id r' = r_id r" "r_Term r' = add64 (r_Term r) 1" "r_Vote r' = r_id r" "r_raftLog r' = r_raftLog r"
    "r_msgs r' = r_msgs r" "r_state r' = StateCandidate" "r_step r' = StepCandidate" "r_lead r' = 0"
    "pt_Config (r_prs r') = pt_Config (r_prs r)" "pt_Votes (r_prs r') = fmempty" "r_state r \<noteq> StateLeader"
    using f r1(2,3) by simp_all
qed

lemma becomeCandidate_mono:
  "becomeCandidate r = Some r' \<Longrightarrow> r_Term r < MaxUint64 \<Longrightarrow> raft_mono r r' \<and> quiet r r' \<and> r_Term r' = Suc (r_Term r)"
  using becomeCandidate_fields [of r r'] by (simp add: raft_mono_def quiet_def MaxUint64_def)

lemma becomePreCandidate_keep: "becomePreCandidate r = Some r' \<Longrightarrow> raft_keep r r'"
  by (auto simp: becomePreCandidate_def raft_keep_def raft_le_defs split: if_splits)

lemma becomePreCandidate_state: "becomePreCandidate r = Some r' \<Longrightarrow> r_state r' = StatePreCandidate \<and>
    pt_Config (r_prs r') = pt_Config (r_prs r)"
  by (auto simp: becomePreCandidate_def split: if_splits)

text \<open>The steps of \<open>becomeLeader\<close>: reset, own progress, and an empty entry of the new term.\<close>

definition leaderBase :: "raft \<Rightarrow> progress \<Rightarrow> raft" where
  "leaderBase r1 pr = (setProgress (r1\<lparr>r_tick := TickHeartbeat, r_lead := r_id r1, r_state := StateLeader\<rparr>)
     (r_id r1) (BecomeReplicate pr))\<lparr>r_pendingConfIndex := lastIndex (r_raftLog r1)\<rparr>"

lemma becomeLeader_cases:
  assumes "becomeLeader r = Some r'"
  obtains r1 pr r4 where "reset (r\<lparr>r_step := StepLeader\<rparr>) (r_Term r) = Some r1"
    "progressOf r1 (r_id r1) = Some pr" "appendEntry (leaderBase r1 pr) [emptyEntry] = Some (True, r4)"
    "r' = reduceUncommittedSize r4 [emptyEntry]" "r_state r \<noteq> StateFollower"
proof -
  have nf: "r_state r \<noteq> StateFollower" using assms by (auto simp: becomeLeader_def split: if_splits)
  obtain r1 where r1: "reset (r\<lparr>r_step := StepLeader\<rparr>) (r_Term r) = Some r1"
    using assms nf by (cases "reset (r\<lparr>r_step := StepLeader\<rparr>) (r_Term r)") (simp_all add: becomeLeader_def)
  obtain pr where pr: "progressOf r1 (r_id r1) = Some pr"
    using assms nf r1 by (cases "progressOf r1 (r_id r1)") (simp_all add: becomeLeader_def)
  obtain b r4 where app: "appendEntry (leaderBase r1 pr) [emptyEntry] = Some (b, r4)"
    using assms nf r1 pr
    by (cases "appendEntry (leaderBase r1 pr) [emptyEntry]") (auto simp: becomeLeader_def leaderBase_def)
  then have "b" "r' = reduceUncommittedSize r4 [emptyEntry]"
    using assms nf r1 pr by (simp_all add: becomeLeader_def leaderBase_def split: if_splits)
  then show ?thesis using that r1 pr app nf by simp
qed

lemma leaderBase_fields: "r_state (leaderBase r pr) = StateLeader" "r_step (leaderBase r pr) = r_step r"
  "r_Term (leaderBase r pr) = r_Term r" "r_Vote (leaderBase r pr) = r_Vote r" "r_id (leaderBase r pr) = r_id r"
  "r_raftLog (leaderBase r pr) = r_raftLog r" "r_msgs (leaderBase r pr) = r_msgs r"
  "pt_Config (r_prs (leaderBase r pr)) = pt_Config (r_prs r)" "pt_Votes (r_prs (leaderBase r pr)) = pt_Votes (r_prs r)"
  by (simp_all add: leaderBase_def setProgress_def)

text \<open>The result of an election won: a leader of the same term and configuration.\<close>

definition leads :: "raft \<Rightarrow> raft \<Rightarrow> bool" where
  "leads r r' \<longleftrightarrow> raft_mono r r' \<and> quiet r r' \<and> r_state r' = StateLeader \<and> r_step r' = StepLeader \<and>
     r_Term r' = r_Term r \<and> r_Vote r' = r_Vote r \<and> pt_Config (r_prs r') = pt_Config (r_prs r)"

lemma becomeLeader_leads:
  assumes "becomeLeader r = Some r'"
  shows "leads r r'"
  using assms
proof (cases rule: becomeLeader_cases)
  case (1 r1 pr r4)
  have "raft_mono (leaderBase r1 pr) r4 \<and> quiet (leaderBase r1 pr) r4" "same_role (leaderBase r1 pr) r4"
    using appendEntry_keep [OF 1(3)] appendEntry_role [OF 1(3)] by (simp_all add: raft_keep_def raft_le_def)
  moreover have "raft_mono r (leaderBase r1 pr) \<and> quiet r (leaderBase r1 pr)"
    using reset_fields [OF 1(1)] by (simp add: raft_mono_def quiet_def leaderBase_fields)
  ultimately have "raft_mono r r4" "quiet r r4" "same_role (leaderBase r1 pr) r4"
    using raft_mono_trans quiet_trans by blast+
  moreover have "raft_mono r r' = raft_mono r r4" "quiet r r' = quiet r r4" "same_role (leaderBase r1 pr) r' = same_role (leaderBase r1 pr) r4"
    unfolding 1(4) by (simp_all add: raft_mono_def quiet_def reduceUncommittedSize_def Let_def same_role_def)
  ultimately show ?thesis using reset_fields [OF 1(1)] by (simp add: leads_def same_role_def leaderBase_fields)
qed

subsection \<open>Campaigns\<close>

lemma poll_fields:
  assumes "poll r v b = (res, r')"
  shows "r' = r\<lparr>r_prs := RecordVote (r_prs r) v b\<rparr>" "res = TallyVotes (RecordVote (r_prs r) v b)"
  using assms by (auto simp: poll_def Let_def)

lemma poll_keep: "poll r v b = (res, r') \<Longrightarrow> r_state r \<notin> {StateCandidate, StateLeader} \<Longrightarrow> raft_keep r r'"
  by (drule poll_fields(1)) (auto simp: raft_keep_def raft_le_defs)

lemma voteRequest_keep: "voteRequest r t vm trm v = Some r' \<Longrightarrow> vm \<noteq> MsgVoteResp \<Longrightarrow> raft_keep r r'"
  by (auto simp: voteRequest_def split: if_splits Option.bind_splits intro: send_keep)

lemma voteRequests_keep:
  "foldM (\<lambda>r v. voteRequest r t vm trm v) r vs = Some r' \<Longrightarrow> vm \<noteq> MsgVoteResp \<Longrightarrow> raft_keep r r'"
  by (erule foldM_keep) (rule voteRequest_keep)

text \<open>The vote requests of a campaign.\<close>

definition requestVotes :: "raft \<Rightarrow> campaignType \<Rightarrow> messageType \<Rightarrow> nat \<Rightarrow> raft option" where
  "requestVotes r t vm trm = foldM (\<lambda>r v. voteRequest r t vm trm v) r
     (sorted_list_of_fset (JointIDs (pt_Voters (r_prs r))))"

lemma requestVotes_keep: "requestVotes r t vm trm = Some r' \<Longrightarrow> vm \<noteq> MsgVoteResp \<Longrightarrow> raft_keep r r'"
  by (simp add: requestVotes_def voteRequests_keep)

lemma requestVotes_role:
  assumes "requestVotes r t vm trm = Some r'" shows "same_role r r'"
  by (rule foldM_rel [where R = same_role, OF assms [unfolded requestVotes_def]])
    (auto simp: voteRequest_def split: if_splits Option.bind_splits intro: send_role same_role_trans)

text \<open>A campaign in the two forms it takes.\<close>

lemma campaign_real_eq:
  "t \<noteq> campaignPreElection \<Longrightarrow> campaign r t =
     do { r1 \<leftarrow> becomeCandidate r;
          let (res, r2) = poll r1 (r_id r1) True;
          if snd (snd res) = VoteWon then becomeLeader r2 else requestVotes r2 t MsgVote (r_Term r1) }"
proof (cases "becomeCandidate r")
  case None
  assume "t \<noteq> campaignPreElection"
  then show ?thesis unfolding campaign.simps [of r t] by (simp add: None)
next
  case (Some r1)
  obtain g rj res r2 where p: "poll r1 (r_id r1) True = ((g, rj, res), r2)" by (metis prod_cases3 surj_pair)
  assume "t \<noteq> campaignPreElection"
  then show ?thesis unfolding campaign.simps [of r t] requestVotes_def
    by (simp add: Some p insertionSort_sort sorted_sort_id)
qed

lemma campaign_pre_eq:
  "campaign r campaignPreElection =
     do { r1 \<leftarrow> becomePreCandidate r;
          let (res, r2) = poll r1 (r_id r1) True;
          if snd (snd res) = VoteWon then campaign r2 campaignElection
          else requestVotes r2 campaignPreElection MsgPreVote (add64 (r_Term r1) 1) }"
proof (cases "becomePreCandidate r")
  case None
  then show ?thesis unfolding campaign.simps [of r campaignPreElection] by simp
next
  case (Some r1)
  obtain g rj res r2 where p: "poll r1 (r_id r1) True = ((g, rj, res), r2)" by (metis prod_cases3 surj_pair)
  show ?thesis unfolding campaign.simps [of r campaignPreElection] requestVotes_def
    by (simp add: Some p insertionSort_sort sorted_sort_id)
qed

text \<open>A real campaign: a new term, voted for itself; a leader at once if its own vote is a quorum.\<close>

definition stands :: "raft \<Rightarrow> raft \<Rightarrow> bool" where
  "stands r r' \<longleftrightarrow> raft_mono r r' \<and> quiet r r' \<and> role_ok r' \<and> r_Term r < r_Term r' \<and> r_Vote r' = r_id r \<and>
     (r_state r' = StateCandidate \<and> yes_votes (pt_Votes (r_prs r')) \<subseteq> {r_id r} \<or>
      r_state r' = StateLeader \<and> is_joint_quorum (pt_Voters (r_prs r')) {r_id r})"

lemma yes_votes_RecordVote:
  "yes_votes (pt_Votes (RecordVote p v b)) \<subseteq> yes_votes (pt_Votes p) \<union> (if b then {v} else {})"
  by (auto simp: yes_votes_def RecordVote_lookup split: if_splits)

lemma tally_won:
  assumes "snd (snd (TallyVotes p)) = VoteWon" and "yes_votes (pt_Votes p) \<subseteq> A"
  shows "is_joint_quorum (pt_Voters p) A"
  using assms is_quorum_mono unfolding TallyVotes_result JointVoteResult_won_iff is_joint_quorum_def by blast

lemma campaign_real:
  assumes "campaign r t = Some r'" and "t \<noteq> campaignPreElection" and "r_Term r < MaxUint64"
  shows "stands r r' \<and> r_Term r' = Suc (r_Term r)"
proof -
  obtain r1 res r2 where c: "becomeCandidate r = Some r1" and p: "poll r1 (r_id r1) True = (res, r2)"
    and rest: "(if snd (snd res) = VoteWon then becomeLeader r2 else requestVotes r2 t MsgVote (r_Term r1)) = Some r'"
    using assms(1) campaign_real_eq [OF assms(2), of r] by (auto split: Option.bind_splits prod.splits)
  note f = becomeCandidate_fields [OF c] and m1 = becomeCandidate_mono [OF c assms(3)]
  have r2: "r2 = r1\<lparr>r_prs := RecordVote (r_prs r1) (r_id r) True\<rparr>" "res = TallyVotes (r_prs r2)"
    using poll_fields [OF p] f(1) by simp_all
  have v2: "yes_votes (pt_Votes (r_prs r2)) \<subseteq> {r_id r}"
    using yes_votes_RecordVote [of "r_prs r1" "r_id r" True] f(10) r2(1) by (auto simp: yes_votes_def)
  have m2: "raft_mono r r2" "quiet r r2" using m1 r2(1) by (simp_all add: raft_mono_def quiet_def)
  show ?thesis
  proof (cases "snd (snd res) = VoteWon")
    case True
    then have l: "leads r2 r'" using rest becomeLeader_leads by simp
    have q: "is_joint_quorum (pt_Voters (r_prs r2)) {r_id r}" using tally_won [OF _ v2] True r2(2) by simp
    have "raft_mono r r'" "quiet r r'" using l m2 raft_mono_trans quiet_trans unfolding leads_def by blast+
    then show ?thesis using l q f m1 r2(1) by (simp add: stands_def leads_def role_ok_def)
  next
    case False
    then have k: "raft_keep r2 r'" and s: "same_role r2 r'"
      using rest requestVotes_keep requestVotes_role by simp_all
    have "raft_mono r r'" "quiet r r'"
      using k m2 raft_mono_trans quiet_trans unfolding raft_keep_def raft_le_def by blast+
    then show ?thesis using s v2 f m1 r2(1) by (simp add: stands_def same_role_def role_ok_def)
  qed
qed

lemma stands_after: "raft_le r r1 \<Longrightarrow> stands r1 r' \<Longrightarrow> stands r r'"
  unfolding stands_def raft_le_def
  using raft_mono_trans [of r r1 r'] quiet_trans [of r r1 r'] by (auto simp: raft_mono_def)

lemma campaign_cases:
  assumes "campaign r t = Some r'" and "r_Term r < MaxUint64"
  shows "stands r r' \<or> raft_keep r r' \<and> r_state r' = StatePreCandidate"
proof (cases "t = campaignPreElection")
  case False
  then show ?thesis using campaign_real assms by blast
next
  case True
  obtain r1 res r2 where c: "becomePreCandidate r = Some r1" and p: "poll r1 (r_id r1) True = (res, r2)"
    and rest: "(if snd (snd res) = VoteWon then campaign r2 campaignElection
        else requestVotes r2 campaignPreElection MsgPreVote (add64 (r_Term r1) 1)) = Some r'"
    using assms(1) True campaign_pre_eq [of r] by (auto split: Option.bind_splits prod.splits)
  note f = becomePreCandidate_state [OF c]
  have k2: "raft_keep r r2" using becomePreCandidate_keep [OF c] poll_keep [OF p] f raft_keep_trans by auto
  have r2: "r_state r2 = StatePreCandidate" using poll_fields(1) [OF p] f by simp
  have "r_Term r2 < MaxUint64" using assms(2) k2 by (simp add: raft_keep_def)
  then have "campaign r2 campaignElection = Some r' \<Longrightarrow> stands r r'"
    using campaign_real stands_after [OF raft_keep_le [OF k2]] by blast
  moreover have "raft_keep r r' \<and> r_state r' = StatePreCandidate"
    if "requestVotes r2 campaignPreElection MsgPreVote (add64 (r_Term r1) 1) = Some r'"
    using requestVotes_keep [OF that] requestVotes_role [OF that] k2 r2 raft_keep_trans by (auto simp: same_role_def)
  ultimately show ?thesis using rest by (auto split: if_splits)
qed

lemma campaign_mono: "campaign r t = Some r' \<Longrightarrow> r_Term r < MaxUint64 \<Longrightarrow> raft_mono r r'"
  using campaign_cases by (auto simp: stands_def raft_keep_def raft_le_def)

subsection \<open>Leaders\<close>

lemma respondRead_keep: "respondRead r m = Some r' \<Longrightarrow> raft_keep r r'"
  by (auto simp: respondRead_def responseToReadIndexReq_def split: if_splits Option.bind_splits
      intro: send_chain)

lemma sendMsgReadIndexResponse_keep: "sendMsgReadIndexResponse r m = Some r' \<Longrightarrow> raft_keep r r'"
  by (auto simp: sendMsgReadIndexResponse_def split: Option.bind_splits readOnlyOption.splits
      intro: respondRead_keep keep_chain)

lemma sendReadResponses_keep: "foldM sendMsgReadIndexResponse r ms = Some r' \<Longrightarrow> raft_keep r r'"
  by (erule foldM_keep) (rule sendMsgReadIndexResponse_keep)

lemma releasePending_keep: "releasePendingReadIndexMessages r = Some r' \<Longrightarrow> raft_keep r r'"
  by (auto simp: releasePendingReadIndexMessages_def split: Option.bind_splits if_splits
      intro: raft_keep_after [OF sendReadResponses_keep])

lemma leaderReadIndex_keep: "leaderReadIndex r m = Some r' \<Longrightarrow> raft_keep r r'"
  by (auto simp: leaderReadIndex_def split: if_splits Option.bind_splits
      intro: respondRead_keep sendMsgReadIndexResponse_keep)

lemma leaderCheckQuorum_keep:
  assumes "leaderCheckQuorum r = Some r'"
  shows "raft_keep r r'"
proof -
  define r1 where "r1 = (case progressOf r (r_id r) of
      Some pr \<Rightarrow> setProgress r (r_id r) (pr\<lparr>pr_RecentActive := True\<rparr>) | None \<Rightarrow> r)"
  have k1: "raft_keep r r1" by (simp add: r1_def split: option.split)
  obtain r2 where r2: "(if \<not> QuorumActive (r_prs r1) then becomeFollower r1 (r_Term r1) 0 else Some r1) = Some r2"
    and r': "Some (r2\<lparr>r_prs := VisitUpdate (\<lambda>v pr. if v \<noteq> r_id r2 then pr\<lparr>pr_RecentActive := False\<rparr> else pr)
       (r_prs r2)\<rparr>) = Some r'"
    using assms unfolding leaderCheckQuorum_def r1_def [symmetric] Let_def bind_eq_Some_conv by blast
  have "raft_keep r1 r2" using r2 by (auto split: if_splits intro: becomeFollower_keep)
  then have "raft_keep r r2" using k1 raft_keep_trans by blast
  then show ?thesis using r' by auto
qed

lemma proposeConfChanges_keep: "proposeConfChanges r i es = Some (es', r') \<Longrightarrow> raft_keep r r'"
proof (induction es arbitrary: r i es')
  case (Cons e es)
  then show ?case
    by (auto split: Option.bind_splits option.splits if_splits intro: raft_keep_after [OF Cons.IH])
qed simp

lemma leaderProp_keep:
  assumes "leaderProp r m = Some (err, r')" and "m_Type m = MsgProp" shows "raft_keep r r'"
proof -
  consider "r' = r" | "send r (m\<lparr>m_To := r_leadTransferee r\<rparr>) = Some r'"
    | es r1 acc r2 where "proposeConfChanges r 0 (m_Entries m) = Some (es, r1)" "appendEntry r1 es = Some (acc, r2)"
        "r' = r2 \<or> bcastAppend r2 = Some r'"
    using assms(1) by (auto simp: leaderProp_def bind_eq_Some_conv split: if_split_asm)
  then show ?thesis
  proof cases
    case 2
    then show ?thesis using assms(2) send_keep by simp
  next
    case 3
    then show ?thesis using proposeConfChanges_keep appendEntry_keep bcastAppend_keep raft_keep_trans by metis
  qed simp
qed

lemma leaderAppRejected_keep: "leaderAppRejected r m pr = Some r' \<Longrightarrow> raft_keep r r'"
  by (auto simp: leaderAppRejected_def Let_def split: prod.splits bool.splits intro: keep_chain)

lemma leaderAppAcked_cases:
  assumes "leaderAppAcked r m pr = Some r'"
  obtains (stale) pr1 where "MaybeUpdate pr (m_Index m) = (False, pr1)" "r' = setProgress r (m_From m) pr1"
  | (acked) pr1 pr2 cm r1 r2 r3 pr3 where "MaybeUpdate pr (m_Index m) = (True, pr1)"
      "ackTransition pr1 (m_Index m) = Some pr2"
      "maybeCommit (setProgress r (m_From m) pr2) = Some (cm, r1)"
      "(if cm then releasePendingReadIndexMessages r1 \<bind> bcastAppend
        else if IsPaused pr then sendAppend r1 (m_From m) else Some r1) = Some r2"
      "sendAllAppends r2 (m_From m) = Some r3" "progressOf r3 (m_From m) = Some pr3"
      "(if m_From m = r_leadTransferee r3 \<and> pr_Match pr3 = lastIndex (r_raftLog r3)
        then sendTimeoutNow r3 (m_From m) else Some r3) = Some r'"
proof -
  obtain up pr1 where up: "MaybeUpdate pr (m_Index m) = (up, pr1)" by fastforce
  show ?thesis
  proof (cases up)
    case False
    then show ?thesis using assms up stale by (simp add: leaderAppAcked_def)
  next
    case True
    have upT: "MaybeUpdate pr (m_Index m) = (True, pr1)" using up True by simp
    note a = assms [unfolded leaderAppAcked_def Let_def upT prod.case bool.case]
    obtain pr2 where pr2: "ackTransition pr1 (m_Index m) = Some pr2"
      using a by (cases "ackTransition pr1 (m_Index m)") auto
    obtain cm r1 where c: "maybeCommit (setProgress r (m_From m) pr2) = Some (cm, r1)"
      using a pr2 by (cases "maybeCommit (setProgress r (m_From m) pr2)") auto
    obtain r2 where b: "(if cm then releasePendingReadIndexMessages r1 \<bind> bcastAppend
        else if IsPaused pr then sendAppend r1 (m_From m) else Some r1) = Some r2"
      using a pr2 c by (cases "if cm then releasePendingReadIndexMessages r1 \<bind> bcastAppend
        else if IsPaused pr then sendAppend r1 (m_From m) else Some r1") auto
    obtain r3 where s: "sendAllAppends r2 (m_From m) = Some r3"
      using a pr2 c b by (cases "sendAllAppends r2 (m_From m)") auto
    obtain pr3 where p: "progressOf r3 (m_From m) = Some pr3"
      using a pr2 c b s by (cases "progressOf r3 (m_From m)") auto
    show ?thesis using acked [OF _ pr2 c b s p] a pr2 c b s p up True by simp
  qed
qed

lemma leaderAppAcked_keep:
  assumes "leaderAppAcked r m pr = Some r'"
  shows "raft_keep r r'"
  using assms
proof (cases rule: leaderAppAcked_cases)
  case (acked pr1 pr2 cm r1 r2 r3 pr3)
  have "raft_keep r1 r2"
    using acked(4) by (auto split: if_splits Option.bind_splits
        intro: sendAppend_keep raft_keep_trans [OF releasePending_keep bcastAppend_keep])
  moreover have "raft_keep r3 r'" using acked(7) by (auto split: if_splits intro: sendTimeoutNow_keep)
  moreover have "raft_keep r r1" using raft_keep_trans [OF _ maybeCommit_keep [OF acked(3)]] by simp
  ultimately show ?thesis using sendAllAppends_keep [OF acked(5)] raft_keep_trans by blast
qed simp

lemma leaderAppResp_keep: "leaderAppResp r m pr = Some r' \<Longrightarrow> raft_keep r r'"
  by (auto simp: leaderAppResp_def Let_def split: if_splits intro: leaderAppRejected_keep leaderAppAcked_keep)

lemma answerRead_keep: "answerRead r rs = Some r' \<Longrightarrow> raft_keep r r'"
  by (auto simp: answerRead_def Let_def split: if_splits Option.bind_splits intro: send_keep)

lemma answerReads_keep: "foldM answerRead r rss = Some r' \<Longrightarrow> raft_keep r r'"
  by (erule foldM_keep) (rule answerRead_keep)

lemma ackRead_keep: "ackRead r m = Some r' \<Longrightarrow> raft_keep r r'"
  by (auto simp: ackRead_def Let_def split: if_splits prod.splits Option.bind_splits
      intro: raft_keep_after [OF answerReads_keep])

lemma updateNodeLatency_keep [simp]: "raft_keep a (updateNodeLatency r m) = raft_keep a r"
  by (simp add: updateNodeLatency_def Let_def)

lemma leaderHeartbeatResp_keep:
  assumes "leaderHeartbeatResp r m pr = Some r'"
  shows "raft_keep r r'"
proof -
  let ?r1 = "updateNodeLatency r m"
  obtain pr2 r3 where r3: "(if pr_Match pr2 < lastIndex (r_raftLog (setProgress ?r1 (m_From m) pr2))
        then sendAppend (setProgress ?r1 (m_From m) pr2) (m_From m)
        else Some (setProgress ?r1 (m_From m) pr2)) = Some r3"
      and a: "ackRead r3 m = Some r'"
    using assms unfolding leaderHeartbeatResp_def Let_def bind_eq_Some_conv by blast
  have "raft_keep (setProgress ?r1 (m_From m) pr2) r3"
    using r3 by (auto split: if_splits intro: sendAppend_keep)
  then have "raft_keep r r3" using raft_keep_trans [of r "setProgress ?r1 (m_From m) pr2" r3] by simp
  then show ?thesis using ackRead_keep [OF a] raft_keep_trans by blast
qed

lemma leaderTransferLeader_keep:
  assumes "leaderTransferLeader r m pr = Some r'"
  shows "raft_keep r r'"
proof -
  define r1 where "r1 = (if r_leadTransferee r \<noteq> 0 then abortLeaderTransfer r else r)"
  let ?r2 = "r1\<lparr>r_electionElapsed := 0, r_leadTransferee := m_From m\<rparr>"
  have k1: "raft_keep r r1" by (simp add: r1_def)
  have "r' = r \<or> r' = r1 \<or> sendTimeoutNow ?r2 (m_From m) = Some r' \<or> sendAppend ?r2 (m_From m) = Some r'"
    using assms unfolding leaderTransferLeader_def Let_def r1_def [symmetric] by (simp split: if_split_asm)
  then consider "r' = r" | "r' = r1" | "sendTimeoutNow ?r2 (m_From m) = Some r'" | "sendAppend ?r2 (m_From m) = Some r'"
    by blast
  then show ?thesis
  proof cases
    case 3
    then show ?thesis using k1 raft_keep_trans [OF _ sendTimeoutNow_keep [OF 3], of r] by simp
  next
    case 4
    then show ?thesis using k1 raft_keep_trans [OF _ sendAppend_keep [OF 4], of r] by simp
  qed (simp_all add: k1)
qed

lemma stepLeaderPeer_keep: "stepLeaderPeer r m pr = Some r' \<Longrightarrow> raft_keep r r'"
  by (auto simp: stepLeaderPeer_def leaderSnapStatus_def leaderUnreachable_def Let_def
      split: messageType.splits if_splits
      intro: leaderAppResp_keep leaderHeartbeatResp_keep leaderTransferLeader_keep)

lemma stepLeader_keep: "stepLeader r m = Some (err, r') \<Longrightarrow> raft_keep r r'"
  by (auto simp: stepLeader_def split: messageType.splits Option.bind_splits option.splits
      intro: bcastHeartbeat_keep leaderCheckQuorum_keep leaderProp_keep leaderReadIndex_keep stepLeaderPeer_keep)

end
