(* ===== verification/StepMono.thy ===== *)
theory StepMono
  imports RaftMono
begin

text \<open>
  \<open>raft_le\<close> for snapshots, configuration switches, the candidate and follower handlers, \<open>Step\<close> and the
  ticks.
\<close>

subsection \<open>Logs, snapshots, configurations\<close>

lemma handleAppendEntries_keep:
  assumes "handleAppendEntries r m = Some r'"
  shows "raft_keep r r'"
proof (cases "m_Index m < rl_committed (r_raftLog r)")
  case True
  then show ?thesis using assms by (auto simp: handleAppendEntries_def intro: send_keep)
next
  case False
  obtain res l where l: "maybeAppend (r_raftLog r) (m_Index m) (m_LogTerm m) (m_Commit m) (m_Entries m) = Some (res, l)"
    using assms False by (auto simp: handleAppendEntries_def bind_eq_Some_conv)
  have k: "raft_keep r (r\<lparr>r_raftLog := l\<rparr>)" using maybeAppend_mono [OF l] by (simp add: raft_keep_log)
  obtain msg where "send (r\<lparr>r_raftLog := l\<rparr>) msg = Some r'" "m_Type msg = MsgAppResp"
    using assms False l by (auto simp: handleAppendEntries_def bind_eq_Some_conv Let_def split: option.splits)
  then have "raft_keep (r\<lparr>r_raftLog := l\<rparr>) r'" by (intro send_keep) auto
  then show ?thesis using k raft_keep_trans by blast
qed

lemma handleHeartbeat_keep:
  assumes "handleHeartbeat r m = Some r'"
  shows "raft_keep r r'"
proof -
  obtain l msg where l: "commitTo (r_raftLog r) (m_Commit m) = Some l" "send (r\<lparr>r_raftLog := l\<rparr>) msg = Some r'"
      "m_Type msg = MsgHeartbeatResp"
    using assms by (auto simp: handleHeartbeat_def bind_eq_Some_conv Let_def)
  have "raft_keep r (r\<lparr>r_raftLog := l\<rparr>)" using commitTo_mono [OF l(1)] by (simp add: raft_keep_log)
  moreover have "raft_keep (r\<lparr>r_raftLog := l\<rparr>) r'" using l(2,3) by (intro send_keep) auto
  ultimately show ?thesis using raft_keep_trans by blast
qed

text \<open>The last steps of a configuration switch on a leader.\<close>

lemma probeAll_keep:
  "foldM (\<lambda>r v. do { (_, r') \<leftarrow> maybeSendAppend r v False; Some r' }) r vs = Some r' \<Longrightarrow> raft_keep r r'"
  by (erule foldM_keep) (auto simp: bind_eq_Some_conv intro: maybeSendAppend_keep)

text \<open>The configuration is set; only a leader of a populated one goes on to commit and probe.\<close>

definition configured :: "raft \<Rightarrow> trackerConfig \<Rightarrow> progressMap \<Rightarrow> raft" where
  "configured r cfg prs = (let r1 = r\<lparr>r_prs := (r_prs r)\<lparr>pt_Config := cfg, pt_Progress := prs\<rparr>\<rparr> in
     r1\<lparr>r_isLearner := (case progressOf r1 (r_id r1) of None \<Rightarrow> False | Some pr \<Rightarrow> pr_IsLearner pr)\<rparr>)"

lemma configured_fields [simp]: "r_state (configured r cfg prs) = r_state r" "r_raftLog (configured r cfg prs) = r_raftLog r"
  "raft_keep a (configured r cfg prs) = raft_keep a r"
  by (simp_all add: configured_def Let_def)

lemma switchToConfig_cases:
  assumes "switchToConfig r cfg prs = Some (cs, r')"
  obtains (set) "r' = configured r cfg prs"
  | (lead) c r3 r4 where "r_state r = StateLeader" "maybeCommit (configured r cfg prs) = Some (c, r3)"
      "(if c then bcastAppend r3
        else foldM (\<lambda>r v. do { (_, r') \<leftarrow> maybeSendAppend r v False; Some r' }) r3 (VisitIds (r_prs r3))) = Some r4"
      "r' = r4 \<or> r' = abortLeaderTransfer r4"
proof -
  define r1 where "r1 = r\<lparr>r_prs := (r_prs r)\<lparr>pt_Config := cfg, pt_Progress := prs\<rparr>\<rparr>"
  define r2 where "r2 = r1\<lparr>r_isLearner := (case progressOf r1 (r_id r1) of None \<Rightarrow> False | Some pr \<Rightarrow> pr_IsLearner pr)\<rparr>"
  have conf: "configured r cfg prs = r2" by (simp add: configured_def r1_def r2_def Let_def)
  show ?thesis
  proof (cases "(progressOf r1 (r_id r1) = None \<or> r_isLearner r2) \<and> r_state r2 = StateLeader \<or>
      r_state r2 \<noteq> StateLeader \<or> length (cs_Voters (ConfStateOf (r_prs r1))) = 0")
    case True
    then have "r' = r2" using assms unfolding switchToConfig_def Let_def r1_def [symmetric] r2_def [symmetric]
      by (simp split: if_split_asm)
    then show ?thesis using set conf by simp
  next
    case False
    let ?all = "\<lambda>c r3. if c then bcastAppend r3 else foldM (\<lambda>r v. do { (_, r') \<leftarrow> maybeSendAppend r v False; Some r' }) r3
        (VisitIds (r_prs r3))"
    have e: "do { (c, r3) \<leftarrow> maybeCommit r2; r4 \<leftarrow> ?all c r3;
          Some (ConfStateOf (r_prs r1), if progressOf r4 (r_leadTransferee r4) = None \<and> r_leadTransferee r4 \<noteq> 0
                  then abortLeaderTransfer r4 else r4) } = Some (cs, r')"
      using assms False unfolding switchToConfig_def Let_def r1_def [symmetric] r2_def [symmetric]
      by (simp split: if_split_asm)
    then obtain c r3 where c: "maybeCommit r2 = Some (c, r3)" by (cases "maybeCommit r2") auto
    with e obtain r4 where b: "?all c r3 = Some r4" by (cases "?all c r3") auto
    have f: "r' = r4 \<or> r' = abortLeaderTransfer r4" using e c b by auto
    have "r_state r = StateLeader" using False by (simp add: r1_def r2_def)
    then show ?thesis using lead c b f conf by simp
  qed
qed

lemma switchToConfig_keep:
  assumes "switchToConfig r cfg prs = Some (cs, r')"
  shows "raft_keep r r'"
  using assms
proof (cases rule: switchToConfig_cases)
  case (lead c r3 r4)
  have "raft_keep r3 r4" using lead(3) by (simp split: if_split_asm add: bcastAppend_keep probeAll_keep)
  moreover have "raft_keep r (configured r cfg prs)" by simp
  ultimately have "raft_keep r r4" using maybeCommit_keep [OF lead(2)] raft_keep_trans by blast
  then show ?thesis using lead(4) by auto
qed simp

text \<open>The ways a snapshot is dealt with.\<close>

abbreviation restoreBase :: "raft \<Rightarrow> snapshot \<Rightarrow> raft" where
  "restoreBase r s \<equiv> r\<lparr>r_raftLog := l_restore (r_raftLog r) s, r_prs := MakeProgressTracker (pt_MaxInflight (r_prs r))\<rparr>"

lemma restore_cases:
  assumes "restore r s = Some (b, r')"
  obtains (same) "\<not> b" "r' = r"
    | (down) "\<not> b" "r_state r \<noteq> StateFollower" "becomeFollower r (add64 (r_Term r) 1) 0 = Some r'"
    | (forward) l where "\<not> b" "commitTo (r_raftLog r) (snapIndex s) = Some l" "r' = r\<lparr>r_raftLog := l\<rparr>"
        "matchTerm (r_raftLog r) (snapIndex s) (snapTerm s) = Some True"
    | (restored) cfg prs cs r2 pr where "b" "rl_committed (r_raftLog r) < snapIndex s" "r_state r = StateFollower"
        "Restore \<lparr>chg_Tracker = r_prs (restoreBase r s), chg_LastIndex = lastIndex (r_raftLog (restoreBase r s))\<rparr>
           (md_ConfState (sn_Metadata s)) = Some (Inr (cfg, prs))"
        "switchToConfig (restoreBase r s) cfg prs = Some (cs, r2)"
        "ConfStateEquivalent (md_ConfState (sn_Metadata s)) cs" "r' = setProgress r2 (r_id r2) pr"
proof (cases "snapIndex s \<le> rl_committed (r_raftLog r) \<or> r_state r \<noteq> StateFollower \<or>
    r_id r \<notin> set (cs_Voters (md_ConfState (sn_Metadata s))) \<and> r_id r \<notin> set (cs_Learners (md_ConfState (sn_Metadata s)))")
  case True
  then show ?thesis using assms that(1,2) unfolding restore_def Let_def
    by (simp add: bind_eq_Some_conv split: if_split_asm)
next
  case False
  then have f: "\<not> snapIndex s \<le> rl_committed (r_raftLog r)" "\<not> r_state r \<noteq> StateFollower"
    "\<not> (r_id r \<notin> set (cs_Voters (md_ConfState (sn_Metadata s))) \<and> r_id r \<notin> set (cs_Learners (md_ConfState (sn_Metadata s))))"
    by blast+
  note a = assms [unfolded restore_def Let_def if_not_P [OF f(1)] if_not_P [OF f(2)] if_not_P [OF f(3)]]
  obtain same where same: "matchTerm (r_raftLog r) (snapIndex s) (snapTerm s) = Some same"
    using a by (cases "matchTerm (r_raftLog r) (snapIndex s) (snapTerm s)") auto
  show ?thesis
  proof (cases same)
    case True
    then show ?thesis using a same that(3) by (auto simp: bind_eq_Some_conv)
  next
    case ns: False
    let ?chg = "\<lparr>chg_Tracker = r_prs (restoreBase r s), chg_LastIndex = lastIndex (r_raftLog (restoreBase r s))\<rparr>"
    obtain res where res: "Restore ?chg (md_ConfState (sn_Metadata s)) = Some res"
      using a same ns by (cases "Restore ?chg (md_ConfState (sn_Metadata s))") auto
    obtain cfg prs where p: "res = Inr (cfg, prs)" using a same ns res by (cases res) auto
    obtain cs r2 where sw: "switchToConfig (restoreBase r s) cfg prs = Some (cs, r2)"
      using a same ns res p by (cases "switchToConfig (restoreBase r s) cfg prs") auto
    show ?thesis
      using a same ns res p sw that(4) [of cfg prs cs r2] f
      by (auto simp: bind_eq_Some_conv split: if_split_asm)
  qed
qed

lemma restore_le:
  assumes "restore r s = Some (b, r')" and "r_Term r < MaxUint64"
  shows "raft_le r r'"
  using assms(1)
proof (cases rule: restore_cases)
  case down
  then show ?thesis using assms(2) by (intro becomeFollower_le) (auto simp: MaxUint64_def)
next
  case forward
  then show ?thesis by (auto intro!: raft_keep_le raft_keep_log dest: commitTo_mono)
next
  case (restored cfg prs cs r2 pr)
  have "raft_keep r (restoreBase r s)" using restored(2,3) by (auto simp: l_restore_def raft_keep_def raft_le_defs)
  then have "raft_keep r r2" using switchToConfig_keep [OF restored(5)] by (rule raft_keep_trans)
  then have "raft_keep r r'" using restored(7) by simp
  then show ?thesis by (rule raft_keep_le)
qed simp

lemma handleSnapshot_le: "handleSnapshot r m = Some r' \<Longrightarrow> r_Term r < MaxUint64 \<Longrightarrow> raft_le r r'"
  unfolding handleSnapshot_def bind_eq_Some_conv
  by (auto split: if_splits dest!: restore_le send_keep intro: raft_le_trans raft_keep_le)

lemma applyConfChange_cases:
  assumes "applyConfChange r cc = Some (cs, r')"
  obtains cfg prs where "switchToConfig r cfg prs = Some (cs, r')"
    "(if LeaveJointCC cc then LeaveJoint \<lparr>chg_Tracker = r_prs r, chg_LastIndex = lastIndex (r_raftLog r)\<rparr>
      else do { (auto, okay) \<leftarrow> EnterJointCC cc;
                if okay then EnterJoint \<lparr>chg_Tracker = r_prs r, chg_LastIndex = lastIndex (r_raftLog r)\<rparr> auto (v2_Changes cc)
                else Simple \<lparr>chg_Tracker = r_prs r, chg_LastIndex = lastIndex (r_raftLog r)\<rparr> (v2_Changes cc) }) =
     Some (Inr (cfg, prs))"
proof -
  obtain res where res: "(if LeaveJointCC cc then LeaveJoint \<lparr>chg_Tracker = r_prs r, chg_LastIndex = lastIndex (r_raftLog r)\<rparr>
      else do { (auto, okay) \<leftarrow> EnterJointCC cc;
                if okay then EnterJoint \<lparr>chg_Tracker = r_prs r, chg_LastIndex = lastIndex (r_raftLog r)\<rparr> auto (v2_Changes cc)
                else Simple \<lparr>chg_Tracker = r_prs r, chg_LastIndex = lastIndex (r_raftLog r)\<rparr> (v2_Changes cc) }) = Some res"
    "(case res of Inl err \<Rightarrow> None | Inr (cfg, prs) \<Rightarrow> switchToConfig r cfg prs) = Some (cs, r')"
    using assms unfolding applyConfChange_def Let_def bind_eq_Some_conv by blast
  show ?thesis
  proof (cases res)
    case (Inr p)
    then show ?thesis using that [of "fst p" "snd p"] res by (cases p) simp
  qed (use res in simp)
qed

lemma applyConfChange_keep: "applyConfChange r cc = Some (cs, r') \<Longrightarrow> raft_keep r r'"
  by (erule applyConfChange_cases) (rule switchToConfig_keep)

subsection \<open>Followers and candidates\<close>

lemma followAnd_le:
  assumes "followAnd r m handle = Some (err, r')" and "r_Term r \<le> m_Term m"
    and "\<And>r1. handle r1 m = Some r' \<Longrightarrow> r_Term r1 = m_Term m \<Longrightarrow> raft_le r1 r'"
  shows "raft_le r r'"
proof -
  obtain r1 where r1: "becomeFollower r (m_Term m) (m_From m) = Some r1" "handle r1 m = Some r'"
    using assms(1) by (auto simp: followAnd_def bind_eq_Some_conv)
  then show ?thesis
    using becomeFollower_le [OF r1(1) assms(2)] becomeFollower_fields(2) [OF r1(1)] assms(3) raft_le_trans by blast
qed

text \<open>
  A vote counted: the node stays a candidate with this vote added at most, or it becomes the leader
  and the votes are a quorum.
\<close>

definition polled :: "raft \<Rightarrow> message \<Rightarrow> raft \<Rightarrow> bool" where
  "polled r m r' \<longleftrightarrow> raft_mono r r' \<and> quiet r r' \<and> role_ok r' \<and> r_state r = StateCandidate \<and>
     m_Type m = MsgVoteResp \<and> r_Term r' = r_Term r \<and> r_Vote r' = r_Vote r \<and>
     (let A = yes_votes (pt_Votes (r_prs r)) \<union> (if m_Reject m then {} else {m_From m}) in
      r_state r' = StateCandidate \<and> yes_votes (pt_Votes (r_prs r')) \<subseteq> A \<or>
      r_state r' = StateLeader \<and> is_joint_quorum (pt_Voters (r_prs r')) A)"

text \<open>The outcomes of a message handler: nothing that matters to elections, a campaign, a vote counted.\<close>

definition handled :: "raft \<Rightarrow> message \<Rightarrow> raft \<Rightarrow> bool" where
  "handled r m r' \<longleftrightarrow> raft_le r r' \<or> stands r r' \<or> polled r m r'"

lemma handled_refl [simp]: "handled r m r"
  by (simp add: handled_def)

lemma handled_mono: "handled r m r' \<Longrightarrow> raft_mono r r'"
  by (auto simp: handled_def stands_def polled_def raft_le_def)

lemma campaign_handled: "campaign r t = Some r' \<Longrightarrow> r_Term r < MaxUint64 \<Longrightarrow> handled r m r'"
  using campaign_cases raft_keep_le unfolding handled_def by blast

lemma candidateVoteResp_handled:
  assumes "candidateVoteResp r m = Some (err, r')" and T: "r_Term r < MaxUint64"
    and st: "r_state r \<in> {StateCandidate, StatePreCandidate}" and "role_ok r"
    and ty: "r_state r = StateCandidate \<Longrightarrow> m_Type m = MsgVoteResp"
  shows "handled r m r'"
proof -
  obtain g rj res r1 where p: "poll r (m_From m) (\<not> m_Reject m) = ((g, rj, res), r1)" by (metis prod_cases3 surj_pair)
  note f = poll_fields [OF p]
  have st1: "r_state r1 = r_state r" using f(1) by simp
  have m1: "raft_mono r r1" "quiet r r1" "role_ok r1" "r_Term r1 = r_Term r" "r_Vote r1 = r_Vote r"
    using f(1) \<open>role_ok r\<close> by (simp_all add: raft_mono_def quiet_def role_ok_def)
  let ?A = "yes_votes (pt_Votes (r_prs r)) \<union> (if m_Reject m then {} else {m_From m})"
  have A: "yes_votes (pt_Votes (r_prs r1)) \<subseteq> ?A"
    using yes_votes_RecordVote [of "r_prs r" "m_From m" "\<not> m_Reject m"] f(1) by auto
  have res: "res = snd (snd (TallyVotes (r_prs r1)))" using f by (simp add: prod_eq_iff)
  note b = assms(1) [unfolded candidateVoteResp_def p prod.case]
  have pre: "raft_keep r r1" if "r_state r = StatePreCandidate" using poll_keep [OF p] that by simp
  show ?thesis
  proof (cases res)
    case VotePending
    then have "r' = r1" using b by simp
    then show ?thesis using st ty A m1 pre st1 raft_keep_le by (auto simp: handled_def polled_def Let_def)
  next
    case VoteLost
    then have "becomeFollower r1 (r_Term r1) 0 = Some r'" using b by (auto simp: bind_eq_Some_conv)
    then have "raft_le r r'"
      using becomeFollower_fields m1(4,5) f(1) by (simp add: raft_le_defs)
    then show ?thesis by (simp add: handled_def)
  next
    case VoteWon
    show ?thesis
    proof (cases "r_state r = StatePreCandidate")
      case True
      then have "campaign r1 campaignElection = Some r'" using b VoteWon st1 by (auto simp: bind_eq_Some_conv)
      then have "stands r1 r'" using campaign_real m1(4) T by simp
      then show ?thesis using stands_after [OF raft_keep_le [OF pre [OF True]]] by (simp add: handled_def)
    next
      case False
      then obtain r2 where l: "becomeLeader r1 = Some r2" "bcastAppend r2 = Some r'"
        using b VoteWon st1 by (auto simp: bind_eq_Some_conv)
      note l2 = becomeLeader_leads [OF l(1)] and k = bcastAppend_keep [OF l(2)] and s = bcastAppend_role [OF l(2)]
      have "raft_mono r r'" "quiet r r'"
        using l2 k m1(1,2) raft_mono_trans quiet_trans unfolding leads_def raft_keep_def raft_le_def by meson+
      moreover have "is_joint_quorum (pt_Voters (r_prs r1)) ?A" using tally_won [OF _ A] VoteWon res by simp
      ultimately show ?thesis using False st ty l2 s m1(4,5) f(1)
        by (auto simp: handled_def polled_def leads_def same_role_def role_ok_def Let_def)
    qed
  qed
qed

lemma stepCandidate_handled:
  assumes "stepCandidate r m = Some (err, r')" and T: "r_Term r < MaxUint64"
    and "m_Type m \<in> {MsgApp, MsgHeartbeat, MsgSnap} \<Longrightarrow> r_Term r \<le> m_Term m" and "m_Term m < MaxUint64"
    and st: "r_state r \<in> {StateCandidate, StatePreCandidate}" and ok: "role_ok r"
  shows "handled r m r'"
proof -
  have le: "handled r m r'" if "raft_le r r'" using that by (simp add: handled_def)
  have h: "raft_le r1 r'" if "handleAppendEntries r1 m = Some r'" for r1
    using that handleAppendEntries_keep raft_keep_le by blast
  have hb: "raft_le r1 r'" if "handleHeartbeat r1 m = Some r'" for r1
    using that handleHeartbeat_keep raft_keep_le by blast
  have hs: "raft_le r1 r'" if "handleSnapshot r1 m = Some r'" "r_Term r1 = m_Term m" for r1
    using that handleSnapshot_le assms(4) by metis
  show ?thesis
    using assms(1) assms(3) unfolding stepCandidate_def Let_def
    by (cases "m_Type m")
      (auto split: if_splits intro: candidateVoteResp_handled [OF _ T st ok] le followAnd_le h hb hs)
qed

lemma stepFollower_handled:
  assumes "stepFollower r m = Some (err, r')" and "r_Term r < MaxUint64"
  shows "handled r m r'"
proof -
  let ?h = "r\<lparr>r_electionElapsed := 0, r_lead := m_From m\<rparr>"
  have h: "handled r m r'" if "raft_le ?h r'" using that by (simp add: handled_def raft_le_defs)
  have T: "r_Term ?h < MaxUint64" using assms(2) by simp
  have k: "handled r m r'" if "send r msg = Some r'" "\<not> isGrant msg" for msg
    using send_keep [OF that] raft_keep_le by (simp add: handled_def)
  have rs: "handled r m (r\<lparr>r_readStates := x\<rparr>)" for x by (simp add: handled_def raft_keep_le)
  show ?thesis
    using assms(1) unfolding stepFollower_def Let_def forwardToLeader_def
    by (cases "m_Type m")
      (auto simp: bind_eq_Some_conv split: if_splits list.splits
        intro: k rs campaign_handled [OF _ assms(2)] h handleSnapshot_le [OF _ T]
          raft_keep_le [OF handleAppendEntries_keep, THEN h] raft_keep_le [OF handleHeartbeat_keep, THEN h])
qed

subsection \<open>Step\<close>

text \<open>Comparing terms: only the message of a higher term raises the term, and never above it.\<close>

lemma stepTerm_le:
  assumes "stepTerm r m = Some (go, r')"
  shows "raft_le r r' \<and> r_Term r' \<le> max (r_Term r) (m_Term m) \<and>
    (go \<and> m_Term m \<noteq> 0 \<and> m_Type m \<in> {MsgApp, MsgHeartbeat, MsgSnap} \<longrightarrow> r_Term r' = m_Term m)"
proof -
  have keep: "raft_keep r r' \<Longrightarrow> raft_le r r' \<and> r_Term r' \<le> max (r_Term r) (m_Term m)"
    by (simp add: raft_keep_def)
  have lower: "raft_keep r r1" if "stepLowerTerm r m = Some r1" for r1
    using that by (auto simp: stepLowerTerm_def bind_eq_Some_conv split: if_splits intro: send_keep)
  have up: "raft_le r r' \<and> r_Term r' \<le> max (r_Term r) (m_Term m) \<and> r_Term r' = m_Term m"
    if "becomeFollower r (m_Term m) v = Some r'" "r_Term r < m_Term m" for v
    using becomeFollower_le [OF that(1)] becomeFollower_fields(2) [OF that(1)] that(2) by simp
  show ?thesis
  proof (cases "m_Term m = 0 \<or> m_Term m = r_Term r")
    case True
    then have "r' = r" using assms by (auto simp: stepTerm_def split: if_split_asm)
    then show ?thesis using True by auto
  next
    case False
    show ?thesis
    proof (cases "r_Term r < m_Term m")
      case True
      then have s: "stepHigherTerm r m = Some (go, r')" using assms False by (simp add: stepTerm_def)
      show ?thesis
        using s up [OF _ True] unfolding stepHigherTerm_def Let_def
        by (auto simp: bind_eq_Some_conv split: if_splits)
    next
      case lt: False
      then obtain r1 where "stepLowerTerm r m = Some r1" "go = False" "r' = r1"
        using assms False by (auto simp: stepTerm_def bind_eq_Some_conv)
      then show ?thesis using keep lower by auto
    qed
  qed
qed

lemma stepHup_campaign:
  assumes "stepHup r = Some r'" shows "r' = r \<or> (\<exists>t. campaign r t = Some r')"
proof (cases "r_state r \<noteq> StateLeader \<and> promotable r")
  case True
  obtain res where "sliceLog (r_raftLog r) (rl_applied (r_raftLog r) + 1) (rl_committed (r_raftLog r) + 1) noLimit = Some res"
    using assms True by (auto simp: stepHup_def bind_eq_Some_conv)
  then show ?thesis using assms True by (cases res) (auto simp: stepHup_def split: if_split_asm)
qed (use assms in \<open>auto simp: stepHup_def split: if_split_asm\<close>)

lemma stepHup_cases: "stepHup r = Some r' \<Longrightarrow> r_Term r < MaxUint64 \<Longrightarrow> raft_le r r' \<or> stands r r'"
  using stepHup_campaign campaign_cases raft_keep_le by fastforce

lemma bcastProbeRtt_keep: "bcastProbeRtt r = Some r' \<Longrightarrow> raft_keep r r'"
  unfolding bcastProbeRtt_def
  by (erule foldM_keep)
    (auto simp: Now_def Let_def sendRttProbeMsg_def split: if_splits option.splits intro: send_chain)

lemma calcRtt_keep: "calcRtt r v = Some r' \<Longrightarrow> raft_keep r r'"
  unfolding calcRtt_def Now_def Let_def
  by (auto simp: bind_eq_Some_conv split: if_splits dest!: Intn_fields)

text \<open>A vote is only recorded when none was cast, or for the same candidate again.\<close>

lemma stepVote_cases:
  assumes "stepVote r m = Some r'"
  obtains (granted) m' where "canVote r m" "isUpToDate (r_raftLog r) (m_Index m) (m_LogTerm m) = Some True"
      "r' = (if m_Type m = MsgVote then r\<lparr>r_msgs := r_msgs r @ [m'], r_electionElapsed := 0, r_Vote := m_From m\<rparr>
             else r\<lparr>r_msgs := r_msgs r @ [m']\<rparr>)"
      "m' = emptyMessage\<lparr>m_To := m_From m, m_Term := m_Term m,
              m_Type := (if m_Type m = MsgVote then MsgVoteResp else MsgPreVoteResp), m_From := r_id r\<rparr>"
      "m_Type m \<in> {MsgVote, MsgPreVote}"
  | (rejected) m' where "\<not> canVote r m \<or> isUpToDate (r_raftLog r) (m_Index m) (m_LogTerm m) = Some False"
      "r' = r\<lparr>r_msgs := r_msgs r @ [m']\<rparr>"
      "m' = emptyMessage\<lparr>m_To := m_From m, m_Term := r_Term r,
              m_Type := (if m_Type m = MsgVote then MsgVoteResp else MsgPreVoteResp), m_Reject := True, m_From := r_id r\<rparr>"
      "m_Type m \<in> {MsgVote, MsgPreVote}"
proof -
  obtain t g where t: "voteRespMsgType (m_Type m) = Some t"
    and g: "(if canVote r m then isUpToDate (r_raftLog r) (m_Index m) (m_LogTerm m) else Some False) = Some g"
    and e: "(if g then do {
            r1 \<leftarrow> send r (emptyMessage\<lparr>m_To := m_From m, m_Term := m_Term m, m_Type := t\<rparr>);
            Some (if m_Type m = MsgVote then r1\<lparr>r_electionElapsed := 0, r_Vote := m_From m\<rparr> else r1) }
          else send r (emptyMessage\<lparr>m_To := m_From m, m_Term := r_Term r, m_Type := t, m_Reject := True\<rparr>)) = Some r'"
    using assms unfolding stepVote_def bind_eq_Some_conv by blast
  have ty: "m_Type m \<in> {MsgVote, MsgPreVote}" "t = (if m_Type m = MsgVote then MsgVoteResp else MsgPreVoteResp)"
    using t by (simp_all add: voteRespMsgType_def split: messageType.splits if_splits)
  then have v: "isVoteMsg t" by (auto simp: isVoteMsg_def)
  show thesis
  proof (cases g)
    case True
    have c: "canVote r m" "isUpToDate (r_raftLog r) (m_Index m) (m_LogTerm m) = Some True"
      using g True by (simp_all split: if_splits)
    show thesis
      by (rule granted [OF c _ refl ty(1)])
        (use e True v ty in \<open>auto simp: send_def Let_def bind_eq_Some_conv split: if_splits\<close>)
  next
    case False
    have c: "\<not> canVote r m \<or> isUpToDate (r_raftLog r) (m_Index m) (m_LogTerm m) = Some False"
      using g False by (simp split: if_splits)
    show thesis
      by (rule rejected [OF c _ refl ty(1)])
        (use e False v ty in \<open>auto simp: send_def Let_def split: if_splits\<close>)
  qed
qed

text \<open>A vote granted: recorded as this node's vote, and the only grant sent.\<close>

definition granted :: "raft \<Rightarrow> message \<Rightarrow> raft \<Rightarrow> bool" where
  "granted r m r' \<longleftrightarrow> raft_mono r r' \<and> calm r r' \<and> r_Term r' = r_Term r \<and> m_Type m = MsgVote \<and>
     r_Vote r' = m_From m \<and> canVote r m \<and>
     isUpToDate (r_raftLog r) (m_Index m) (m_LogTerm m) = Some True \<and>
     (\<exists>m'. r_msgs r' = r_msgs r @ [m'] \<and> isGrant m' \<and> m_From m' = r_id r \<and> m_To m' = m_From m \<and> m_Term m' = m_Term m)"

lemma stepVote_outcome:
  assumes "stepVote r m = Some r'" shows "raft_le r r' \<or> granted r m r'"
  using assms
proof (cases rule: stepVote_cases)
  case g: (granted m')
  then have "r_Vote r \<noteq> 0 \<Longrightarrow> m_Type m = MsgVote \<Longrightarrow> m_From m = r_Vote r" by (auto simp: canVote_def)
  then show ?thesis using g
    by (cases "m_Type m = MsgVote") (auto simp: granted_def raft_le_defs)
next
  case rejected
  then show ?thesis by (auto simp: raft_le_defs)
qed

text \<open>The ways a step can end: at the term part, or in one of the handlers.\<close>

lemma Step_cases:
  assumes "Step r m = Some (err, r')"
  obtains (stop) "stepTerm r m = Some (False, r')"
    | (hup) r1 where "stepTerm r m = Some (True, r1)" "m_Type m = MsgHup" "stepHup r1 = Some r'"
    | (probeHup) r1 where "stepTerm r m = Some (True, r1)" "m_Type m = MsgProbeRttHup" "bcastProbeRtt r1 = Some r'"
    | (probe) r1 where "stepTerm r m = Some (True, r1)" "m_Type m = MsgProbeRtt"
        "send r1 (emptyMessage\<lparr>m_To := m_From m, m_Type := MsgProbeRttResp\<rparr>) = Some r'"
    | (probeResp) r1 where "stepTerm r m = Some (True, r1)" "m_Type m = MsgProbeRttResp"
        "calcRtt r1 (m_From m) = Some r'"
    | (vote) r1 where "stepTerm r m = Some (True, r1)" "m_Type m \<in> {MsgVote, MsgPreVote}" "stepVote r1 m = Some r'"
    | (other) r1 where "stepTerm r m = Some (True, r1)" "stepBy r1 m = Some (err, r')"
        "m_Type m \<notin> {MsgHup, MsgProbeRttHup, MsgProbeRtt, MsgProbeRttResp, MsgVote, MsgPreVote}"
proof -
  obtain go r1 where t: "stepTerm r m = Some (go, r1)"
    using assms by (cases "stepTerm r m") (simp_all add: Step_def, metis surj_pair)
  note body = assms [unfolded Step_def t bind.bind_lunit prod.case]
  show thesis
  proof (cases go)
    case False
    then show ?thesis using body t stop by simp
  next
    case go: True
    from go have ng: "\<not> \<not> go" by simp
    note b = body [unfolded if_not_P [OF ng]]
    show ?thesis
    proof (cases "m_Type m")
      case MsgHup
      then show ?thesis using b t go hup by (simp add: bind_eq_Some_conv)
    next
      case MsgProbeRttHup
      then show ?thesis using b t go probeHup by (simp add: bind_eq_Some_conv)
    next
      case MsgProbeRtt
      then show ?thesis using b t go probe by (simp add: bind_eq_Some_conv)
    next
      case MsgProbeRttResp
      then show ?thesis using b t go probeResp by (simp add: bind_eq_Some_conv)
    next
      case MsgVote
      then show ?thesis using b t go vote by (simp add: bind_eq_Some_conv)
    next
      case MsgPreVote
      then show ?thesis using b t go vote by (simp add: bind_eq_Some_conv)
    qed (use b t go other in simp_all)
  qed
qed

lemma stepBy_handled:
  assumes "stepBy r m = Some (err, r')" and T: "r_Term r < MaxUint64" and "m_Term m < MaxUint64"
    and "m_Type m \<in> {MsgApp, MsgHeartbeat, MsgSnap} \<Longrightarrow> r_Term r \<le> m_Term m" and ok: "role_ok r"
  shows "handled r m r'"
proof (cases "r_step r")
  case StepFollower
  then show ?thesis using assms(1) stepFollower_handled [OF _ T] by (simp add: stepBy_def)
next
  case StepCandidate
  then have "r_state r \<in> {StateCandidate, StatePreCandidate}" using ok by (simp add: role_ok_def)
  then show ?thesis
    using assms(1) StepCandidate stepCandidate_handled [OF _ T assms(4) assms(3) _ ok] by (simp add: stepBy_def)
next
  case StepLeader
  then show ?thesis using assms(1) stepLeader_keep raft_keep_le by (simp add: stepBy_def handled_def)
qed

text \<open>
  What a step does, in full: the term rule first; then the step returns, or a handler deals with the
  message, or a vote is granted.
\<close>

lemma Step_outcome:
  assumes "Step r m = Some (err, r')" and "r_Term r < MaxUint64" and "m_Term m < MaxUint64"
    and "m_Term m = 0 \<Longrightarrow> m_Type m \<notin> {MsgApp, MsgHeartbeat, MsgSnap}" and "role_ok r"
  obtains go r1 where "stepTerm r m = Some (go, r1)" "raft_le r r1" "r_Term r1 < MaxUint64"
    "handled r1 m r' \<or> granted r1 m r'" "\<not> go \<Longrightarrow> r' = r1"
proof -
  obtain go r1 where t: "stepTerm r m = Some (go, r1)"
    using assms(1) by (cases rule: Step_cases) blast+
  note le = stepTerm_le [OF t]
  have T1: "r_Term r1 < MaxUint64" using le assms(2,3) by linarith
  have ok1: "role_ok r1" using le assms(5) by (simp add: raft_le_def calm_def)
  have low: "r_Term r1 \<le> m_Term m" if "go" "m_Type m \<in> {MsgApp, MsgHeartbeat, MsgSnap}"
    using le assms(4) that by auto
  have keep: "handled r1 m r'" if "raft_keep r1 r'" using that raft_keep_le by (simp add: handled_def)
  have "handled r1 m r' \<or> granted r1 m r'"
    using assms(1)
  proof (cases rule: Step_cases)
    case stop
    then show ?thesis using t by simp
  next
    case hup
    then show ?thesis using t stepHup_cases [OF _ T1] by (auto simp: handled_def)
  next
    case probeHup
    then show ?thesis using t bcastProbeRtt_keep keep by simp
  next
    case probe
    then show ?thesis using t send_keep keep by simp
  next
    case probeResp
    then show ?thesis using t calcRtt_keep keep by simp
  next
    case vote
    then show ?thesis using t stepVote_outcome unfolding handled_def by simp blast
  next
    case other
    then show ?thesis using t stepBy_handled [OF _ T1 assms(3) low _] ok1 by simp
  qed
  moreover have "r' = r1" if "\<not> go"
    using assms(1) by (cases rule: Step_cases) (use that t in auto)
  ultimately show thesis using that t le T1 by blast
qed

lemma Step_mono:
  assumes "Step r m = Some (err, r')" and "r_Term r < MaxUint64" and "m_Term m < MaxUint64"
    and "m_Term m = 0 \<Longrightarrow> m_Type m \<notin> {MsgApp, MsgHeartbeat, MsgSnap}" and "role_ok r"
  shows "raft_mono r r'"
proof -
  obtain r1 where "raft_le r r1" "handled r1 m r' \<or> granted r1 m r'"
    using Step_outcome [OF assms] by blast
  then show ?thesis using raft_le_mono handled_mono raft_mono_trans unfolding granted_def by blast
qed

lemma Step_role_ok:
  assumes "Step r m = Some (err, r')" and "r_Term r < MaxUint64" and "m_Term m < MaxUint64"
    and "m_Term m = 0 \<Longrightarrow> m_Type m \<notin> {MsgApp, MsgHeartbeat, MsgSnap}" and "role_ok r"
  shows "role_ok r'"
proof -
  obtain r1 where "raft_le r r1" "handled r1 m r' \<or> granted r1 m r'"
    using Step_outcome [OF assms] by blast
  then show ?thesis using assms(5)
    unfolding granted_def handled_def stands_def polled_def raft_le_def calm_def by blast
qed

text \<open>What the term rule leaves of a request for a vote.\<close>

lemma stepTerm_vote:
  assumes "stepTerm r m = Some (True, r1)" and "m_Type m = MsgVote" and "m_Term m \<noteq> 0"
  shows "r_Term r1 = m_Term m"
  using assms becomeFollower_fields(2)
  by (auto simp: stepTerm_def stepHigherTerm_def Let_def bind_eq_Some_conv split: if_split_asm)

subsection \<open>Ticks\<close>

text \<open>The messages a tick steps, other than the one that starts a campaign, leave term and vote alone.\<close>

lemma stepBy_keep:
  assumes "stepBy r m = Some (err, r')" and "m_Type m \<in> {MsgBeat, MsgCheckQuorum, MsgTransferLeader}"
  shows "raft_keep r r'"
proof (cases "r_step r")
  case StepFollower
  then show ?thesis using assms send_keep
    by (auto simp: stepBy_def stepFollower_def forwardToLeader_def bind_eq_Some_conv split: if_splits)
next
  case StepCandidate
  then show ?thesis using assms by (auto simp: stepBy_def stepCandidate_def bind_eq_Some_conv split: if_splits)
next
  case StepLeader
  then show ?thesis using assms(1) stepLeader_keep by (simp add: stepBy_def)
qed

lemma stepLocal_keep:
  assumes "stepLocal r t = Some r'" and "t \<in> {MsgBeat, MsgCheckQuorum, MsgProbeRttHup}"
  shows "raft_keep r r'"
proof -
  let ?m = "emptyMessage\<lparr>m_From := r_id r, m_Type := t\<rparr>"
  obtain err where s: "Step r ?m = Some (err, r')" using assms(1) by (auto simp: stepLocal_def bind_eq_Some_conv)
  have t: "stepTerm r ?m = Some (True, r)" by (simp add: stepTerm_def emptyMessage_def)
  from s show ?thesis
  proof (cases rule: Step_cases)
    case probeHup
    then show ?thesis using t bcastProbeRtt_keep by simp
  next
    case other
    then show ?thesis using t assms(2) stepBy_keep [of r ?m err r'] by auto
  qed (use t assms(2) in auto)
qed

lemma stepLocal_hup:
  assumes "stepLocal r MsgHup = Some r'" and "r_Term r < MaxUint64"
  shows "raft_le r r' \<or> stands r r'"
proof -
  let ?m = "emptyMessage\<lparr>m_From := r_id r, m_Type := MsgHup\<rparr>"
  obtain err where s: "Step r ?m = Some (err, r')" using assms(1) by (auto simp: stepLocal_def bind_eq_Some_conv)
  have t: "stepTerm r ?m = Some (True, r)" by (simp add: stepTerm_def)
  from s show ?thesis
    by (cases rule: Step_cases) (use t stepHup_cases assms(2) in auto)
qed

lemma tickElection_cases:
  assumes "tickElection r = Some r'" and "r_Term r < MaxUint64"
  shows "raft_le r r' \<or> stands r r'"
proof -
  define r1 where "r1 = r\<lparr>r_electionElapsed := r_electionElapsed r + 1, r_rttprobeElapsed := r_rttprobeElapsed r + 1\<rparr>"
  have 1: "raft_keep r r1" by (simp add: r1_def)
  obtain r2 where p: "(if pastRttprobeTimeout r1 then stepLocal (r1\<lparr>r_rttprobeElapsed := 0\<rparr>) MsgProbeRttHup
                       else Some r1) = Some r2"
    and h: "(if promotable r2 \<and> pastElectionTimeout r2 then stepLocal (r2\<lparr>r_electionElapsed := 0\<rparr>) MsgHup
             else Some r2) = Some r'"
    using assms(1) unfolding tickElection_def Let_def bind_eq_Some_conv r1_def [symmetric] by blast
  have "raft_keep (r1\<lparr>r_rttprobeElapsed := 0\<rparr>) r2 \<or> r2 = r1"
    using p stepLocal_keep by (auto split: if_splits)
  then have 2: "raft_keep r r2"
    using raft_keep_trans [of r "r1\<lparr>r_rttprobeElapsed := 0\<rparr>" r2] 1 by auto
  then have 3: "raft_keep r (r2\<lparr>r_electionElapsed := 0\<rparr>)" by simp
  then have "r_Term (r2\<lparr>r_electionElapsed := 0\<rparr>) < MaxUint64" using assms(2) by (simp add: raft_keep_def)
  then have "raft_le (r2\<lparr>r_electionElapsed := 0\<rparr>) r' \<or> stands (r2\<lparr>r_electionElapsed := 0\<rparr>) r' \<or> r' = r2"
    using h stepLocal_hup [of "r2\<lparr>r_electionElapsed := 0\<rparr>" r'] by (auto split: if_splits)
  then show ?thesis using 2 3 stands_after raft_le_trans raft_keep_le by blast
qed

text \<open>The orders of range loops are drawn from the environment, which is all these change.\<close>

lemma rangeOrder_fields: "rangeOrder r ks = (xs, r') \<Longrightarrow> \<exists>e. r' = r\<lparr>r_env := e\<rparr>"
  by (auto simp: rangeOrder_def Let_def)

lemma bestNodeLoop_keep: "bestNodeLoop md n vs (best, income) r = Some (b, r') \<Longrightarrow> raft_keep r r'"
proof (induction vs arbitrary: best income r)
  case (Cons v vs)
  obtain order r1 where o: "rangeOrder r (sortedKeys (r_nodeLatency r)) = (order, r1)" by fastforce
  have "\<exists>best income q. (q = r \<or> q = r1) \<and> bestNodeLoop md n vs (best, income) q = Some (b, r')"
    using Cons.prems by (simp add: Let_def bind_eq_Some_conv o split: if_split_asm) blast+
  moreover have "raft_keep r r1" using rangeOrder_fields [OF o] by auto
  ultimately show ?case using Cons.IH raft_keep_trans raft_keep_refl by metis
qed simp

lemma considerTransfer_keep:
  assumes "considerTransfer r = Some r'" shows "raft_keep r r'"
proof -
  obtain bs r1 where c: "CalBetterNodes r = (bs, r1)" by fastforce
  then have 1: "raft_keep r r1"
    by (auto simp: CalBetterNodes_def Let_def split: if_splits prod.splits dest!: rangeOrder_fields)
  consider "r' = r \<or> r' = r1" | b r2 where "CalBestNode r1 bs = Some (b, r2)"
      "r' = r2 \<or> activeTransferLeadership r2 b = Some r'"
    using assms c by (auto simp: considerTransfer_def bind_eq_Some_conv split: if_splits)
  then show ?thesis
  proof cases
    case 1
    then show ?thesis using \<open>raft_keep r r1\<close> by auto
  next
    case 2
    then have "raft_keep r1 r2"
      by (auto simp: CalBestNode_def Let_def bind_eq_Some_conv split: if_splits dest: bestNodeLoop_keep)
    moreover have "raft_keep r2 r'"
      using 2(2) stepBy_keep by (fastforce simp: activeTransferLeadership_def bind_eq_Some_conv)
    ultimately show ?thesis using \<open>raft_keep r r1\<close> raft_keep_trans by blast
  qed
qed

lemma tickHeartbeat_keep:
  assumes "tickHeartbeat r = Some r'" shows "raft_keep r r'"
proof -
  define r1 where "r1 = r\<lparr>r_heartbeatElapsed := r_heartbeatElapsed r + 1, r_electionElapsed := r_electionElapsed r + 1,
    r_rttprobeElapsed := r_rttprobeElapsed r + 1, r_leaderTransferElapsed := r_leaderTransferElapsed r + 1\<rparr>"
  obtain r2 r3 r4 where
    2: "(if pastRttprobeTimeout r1 then stepLocal (r1\<lparr>r_rttprobeElapsed := 0\<rparr>) MsgProbeRttHup else Some r1) = Some r2"
    and 3: "(if pastLeaderTransferTimeout r2 then considerTransfer (r2\<lparr>r_leaderTransferElapsed := 0\<rparr>) else Some r2) = Some r3"
    and 4: "(if r_electionElapsed r3 \<ge> r_electionTimeout r3 then do {
                let q = r3\<lparr>r_electionElapsed := 0\<rparr>;
                q1 \<leftarrow> (if r_checkQuorum q then stepLocal q MsgCheckQuorum else Some q);
                Some (if r_state q1 = StateLeader \<and> r_leadTransferee q1 \<noteq> 0 then abortLeaderTransfer q1 else q1) }
              else Some r3) = Some r4"
    and 5: "(if r_state r4 \<noteq> StateLeader then Some r4
          else if r_heartbeatElapsed r4 \<ge> r_heartbeatTimeout r4
          then stepLocal (r4\<lparr>r_heartbeatElapsed := 0\<rparr>) MsgBeat
          else Some r4) = Some r'"
    using assms unfolding tickHeartbeat_def Let_def bind_eq_Some_conv r1_def [symmetric] by blast
  have up: "raft_keep a r'" if "raft_keep a b" "raft_keep b r'" for a b using raft_keep_trans that by blast
  have "raft_keep r r1" by (simp add: r1_def)
  moreover have "raft_keep r1 r2"
  proof (cases "pastRttprobeTimeout r1")
    case True
    then have "raft_keep (r1\<lparr>r_rttprobeElapsed := 0\<rparr>) r2" using 2 stepLocal_keep by simp
    then show ?thesis by (rule raft_keep_trans [rotated]) simp
  qed (use 2 in simp)
  moreover have "raft_keep r2 r3"
  proof (cases "pastLeaderTransferTimeout r2")
    case True
    then have "raft_keep (r2\<lparr>r_leaderTransferElapsed := 0\<rparr>) r3" using 3 considerTransfer_keep by simp
    then show ?thesis by (rule raft_keep_trans [rotated]) simp
  qed (use 3 in simp)
  moreover have "raft_keep r3 r4"
  proof (cases "r_electionElapsed r3 \<ge> r_electionTimeout r3")
    case True
    let ?q = "r3\<lparr>r_electionElapsed := 0\<rparr>"
    obtain q1 where q1: "(if r_checkQuorum ?q then stepLocal ?q MsgCheckQuorum else Some ?q) = Some q1"
      and r4: "r4 = (if r_state q1 = StateLeader \<and> r_leadTransferee q1 \<noteq> 0 then abortLeaderTransfer q1 else q1)"
      using 4 True by (auto simp: Let_def bind_eq_Some_conv)
    have "raft_keep ?q q1" using q1 stepLocal_keep by (auto split: if_splits)
    then have "raft_keep r3 q1" by (rule raft_keep_trans [rotated]) simp
    then show ?thesis using r4 by simp
  qed (use 4 in simp)
  moreover have "raft_keep r4 r'"
  proof (cases "r_state r4 = StateLeader \<and> r_heartbeatElapsed r4 \<ge> r_heartbeatTimeout r4")
    case True
    then have "raft_keep (r4\<lparr>r_heartbeatElapsed := 0\<rparr>) r'" using 5 stepLocal_keep by simp
    then show ?thesis by (rule raft_keep_trans [rotated]) simp
  qed (use 5 in \<open>auto split: if_splits\<close>)
  ultimately show ?thesis using up by blast
qed

lemma tick_cases: "tick r = Some r' \<Longrightarrow> r_Term r < MaxUint64 \<Longrightarrow> raft_le r r' \<or> stands r r'"
  using tickElection_cases tickHeartbeat_keep raft_keep_le by (auto simp: tick_def split: tickFunc.splits)

end
