(* ===== verification/Restart.thy ===== *)
theory Restart
  imports StepMono RawNode
begin

text \<open>
  What \<open>newRaft\<close> makes of a configuration: a follower with the term and the vote of the stored hard
  state; and what \<open>advance\<close> leaves alone.
\<close>

lemma validate_fields:
  assumes "validate c = Inr c'"
  shows "c_ID c' = c_ID c" "c_ID c \<noteq> 0" "c_Storage c' = c_Storage c"
    "0 < c_HeartbeatTick c" "c_HeartbeatTick c < c_ElectionTick c" "c_ElectionTick c' = c_ElectionTick c"
    "0 < c_MaxInflightMsgs c'" "c_MaxInflightMsgs c' = c_MaxInflightMsgs c"
    "c_ReadOnlyOption c = ReadOnlyLeaseBased \<Longrightarrow> c_CheckQuorum c"
  using assms by (auto simp: validate_def Let_def split: if_splits)

lemma switchToConfig_follower:
  assumes "switchToConfig r cfg prs = Some (cs, r')" and "r_state r \<noteq> StateLeader"
  shows "\<exists>b. r' = r\<lparr>r_prs := (r_prs r)\<lparr>pt_Config := cfg, pt_Progress := prs\<rparr>, r_isLearner := b\<rparr>"
  using assms by (auto simp: switchToConfig_def Let_def)

lemma initRaft_fields: "r_id (initRaft e c l) = c_ID c" "r_state (initRaft e c l) = StateFollower"
  "r_Term (initRaft e c l) = 0" "r_Vote (initRaft e c l) = 0" "r_msgs (initRaft e c l) = []"
  "r_raftLog (initRaft e c l) = l" "r_electionTimeout (initRaft e c l) = c_ElectionTick c"
  by (simp_all add: initRaft_def)

lemma newRaft_cases:
  assumes "newRaft e c0 = Some r'"
  obtains c st cs cfg prs cs' r1 r2 r3 where "validate c0 = Inr c" "c_Storage c0 = Some st"
    "startConfState c (snd (InitialState st)) = Some cs"
    "Restore \<lparr>chg_Tracker = r_prs (initRaft e c (newLogWithSize st (c_MaxCommittedSizePerReady c))),
       chg_LastIndex = lastIndex (newLogWithSize st (c_MaxCommittedSizePerReady c))\<rparr> cs = Some (Inr (cfg, prs))"
    "switchToConfig (initRaft e c (newLogWithSize st (c_MaxCommittedSizePerReady c))) cfg prs = Some (cs', r1)"
    "ConfStateEquivalent cs cs'"
    "(if \<not> IsEmptyHardState (fst (InitialState st)) then loadState r1 (fst (InitialState st)) else Some r1) = Some r2"
    "(if c_Applied c > 0 then do { l' \<leftarrow> appliedTo (r_raftLog r2) (c_Applied c); Some (r2\<lparr>r_raftLog := l'\<rparr>) }
      else Some r2) = Some r3"
    "becomeFollower r3 (r_Term r3) 0 = Some r'"
proof (cases "validate c0")
  case (Inl err)
  then show ?thesis using assms by (simp add: newRaft_def)
next
  case (Inr c)
  note b = assms [unfolded newRaft_def Inr sum.case]
  obtain st where st: "c_Storage c = Some st" using b by (cases "c_Storage c") auto
  let ?l = "newLogWithSize st (c_MaxCommittedSizePerReady c)"
  let ?ch = "\<lparr>chg_Tracker = r_prs (initRaft e c ?l), chg_LastIndex = lastIndex ?l\<rparr>"
  obtain hs cs0 where i: "InitialState st = (hs, cs0)" by fastforce
  obtain cs where cs: "startConfState c cs0 = Some cs" using b st i by (cases "startConfState c cs0") auto
  obtain res where res: "Restore ?ch cs = Some res" using b st i cs by (cases "Restore ?ch cs") auto
  obtain cfg prs where p: "res = Inr (cfg, prs)" using b st i cs res by (cases res) auto
  obtain cs' r1 where sw: "switchToConfig (initRaft e c ?l) cfg prs = Some (cs', r1)"
    using b st i cs res p by (cases "switchToConfig (initRaft e c ?l) cfg prs") auto
  have eq: "ConfStateEquivalent cs cs'"
    by (rule ccontr) (use b st i cs res p sw in simp)
  have e: "do { r2 \<leftarrow> (if \<not> IsEmptyHardState hs then loadState r1 hs else Some r1);
        r3 \<leftarrow> (if c_Applied c > 0 then do { l' \<leftarrow> appliedTo (r_raftLog r2) (c_Applied c); Some (r2\<lparr>r_raftLog := l'\<rparr>) }
              else Some r2);
        r4 \<leftarrow> becomeFollower r3 (r_Term r3) 0; _ \<leftarrow> lastTerm (r_raftLog r4); Some r4 } = Some r'"
    using b st i cs res p sw eq by simp
  obtain r2 r3 where 2: "(if \<not> IsEmptyHardState hs then loadState r1 hs else Some r1) = Some r2"
    and 3: "(if c_Applied c > 0 then do { l' \<leftarrow> appliedTo (r_raftLog r2) (c_Applied c); Some (r2\<lparr>r_raftLog := l'\<rparr>) }
              else Some r2) = Some r3"
    and 4: "becomeFollower r3 (r_Term r3) 0 = Some r'"
    using e unfolding bind_eq_Some_conv by auto
  have hs: "fst (InitialState st) = hs" "snd (InitialState st) = cs0" using i by simp_all
  show ?thesis
    by (rule that [OF Inr, of st cs cfg prs cs' r1 r2 r3])
      (use 2 3 4 eq st cs res p sw validate_fields(3) [OF Inr] in \<open>simp_all add: hs split: if_split_asm\<close>)
qed

lemma newRaft_fields:
  assumes "newRaft e c0 = Some r'" and "c_Storage c0 = Some st"
  shows "r_id r' = c_ID c0" "c_ID c0 \<noteq> 0" "r_Term r' = hs_Term (ms_hardState st)"
    "r_Vote r' = hs_Vote (ms_hardState st)" "r_state r' = StateFollower" "r_step r' = StepFollower" "r_msgs r' = []"
proof -
  have "r_id r' = c_ID c0 \<and> c_ID c0 \<noteq> 0 \<and> r_Term r' = hs_Term (ms_hardState st) \<and>
    r_Vote r' = hs_Vote (ms_hardState st) \<and> r_state r' = StateFollower \<and> r_step r' = StepFollower \<and> r_msgs r' = []"
    using assms(1)
  proof (cases rule: newRaft_cases)
    case (1 c st' cs cfg prs cs' r1 r2 r3)
    have st: "st' = st" using 1(2) assms(2) by simp
    have r1: "r_id r1 = c_ID c0 \<and> r_Term r1 = 0 \<and> r_Vote r1 = 0 \<and> r_msgs r1 = []"
      using switchToConfig_follower [OF 1(5)] validate_fields(1) [OF 1(1)] by (auto simp: initRaft_fields)
    have r2: "r_id r2 = c_ID c0 \<and> r_Term r2 = hs_Term (ms_hardState st) \<and> r_Vote r2 = hs_Vote (ms_hardState st) \<and> r_msgs r2 = []"
      using 1(7) r1 unfolding st InitialState_def
      by (auto simp: loadState_def IsEmptyHardState_def emptyHardState_def split: if_split_asm)
    have r3: "r_id r3 = r_id r2 \<and> r_Term r3 = r_Term r2 \<and> r_Vote r3 = r_Vote r2 \<and> r_msgs r3 = r_msgs r2"
      using 1(8) by (auto simp: bind_eq_Some_conv split: if_split_asm)
    show ?thesis using becomeFollower_fields [OF 1(9)] r2 r3 validate_fields(2) [OF 1(1)] by simp
  qed
  then show "r_id r' = c_ID c0" "c_ID c0 \<noteq> 0" "r_Term r' = hs_Term (ms_hardState st)"
    "r_Vote r' = hs_Vote (ms_hardState st)" "r_state r' = StateFollower" "r_step r' = StepFollower" "r_msgs r' = []"
    by blast+
qed

lemma autoLeave_keep: "autoLeave r = Some r' \<Longrightarrow> raft_keep r r'"
  by (auto simp: autoLeave_def Let_def bind_eq_Some_conv split: if_splits dest: appendEntry_keep)

lemma stableTo_committed: "stableTo l i t = Some l' \<Longrightarrow> rl_committed l' = rl_committed l"
  by (auto simp: stableTo_def bind_eq_Some_conv)

lemma appliedTo_committed: "appliedTo l i = Some l' \<Longrightarrow> rl_committed l' = rl_committed l"
  by (auto simp: appliedTo_def split: if_splits)

lemma stableSnapTo_committed: "rl_committed (stableSnapTo l i) = rl_committed l"
  by (simp add: stableSnapTo_def)

lemma advance_keep:
  assumes "advance r rd = Some r'" shows "raft_keep r r'"
proof -
  let ?i = "appliedCursor rd"
  obtain r1 r3 where a: "(if ?i > 0 then do {
                  l \<leftarrow> appliedTo (r_raftLog r) ?i;
                  let r' = r\<lparr>r_raftLog := l\<rparr>;
                  if tc_AutoLeave (pt_Config (r_prs r')) \<and> ?i \<ge> r_pendingConfIndex r' \<and> r_state r' = StateLeader
                  then autoLeave r' else Some r' }
                else Some r) = Some r1"
    and st: "(if length (rdy_Entries rd) > 0 then do {
                  let e = List.last (rdy_Entries rd);
                  l \<leftarrow> stableTo (r_raftLog (reduceUncommittedSize r1 (rdy_CommittedEntries rd))) (e_Index e) (e_Term e);
                  Some ((reduceUncommittedSize r1 (rdy_CommittedEntries rd))\<lparr>r_raftLog := l\<rparr>) }
                else Some (reduceUncommittedSize r1 (rdy_CommittedEntries rd))) = Some r3"
    and r': "Some (if \<not> IsEmptySnap (rdy_Snapshot rd)
                then r3\<lparr>r_raftLog := stableSnapTo (r_raftLog r3) (snapIndex (rdy_Snapshot rd))\<rparr> else r3) = Some r'"
    using assms unfolding advance_def Let_def bind_eq_Some_conv by blast
  have "raft_keep r r1"
  proof (cases "?i > 0")
    case True
    then obtain l where l: "appliedTo (r_raftLog r) ?i = Some l"
      "r1 = r\<lparr>r_raftLog := l\<rparr> \<or> autoLeave (r\<lparr>r_raftLog := l\<rparr>) = Some r1"
      using a by (auto simp: bind_eq_Some_conv Let_def split: if_splits)
    have "raft_keep r (r\<lparr>r_raftLog := l\<rparr>)" using appliedTo_committed [OF l(1)] by (simp add: raft_keep_log)
    then show ?thesis using l(2) autoLeave_keep raft_keep_trans by blast
  qed (use a in simp)
  then have 2: "raft_keep r (reduceUncommittedSize r1 (rdy_CommittedEntries rd))" by simp
  have "raft_keep r r3"
  proof (cases "length (rdy_Entries rd) > 0")
    case True
    then show ?thesis using st 2 by (auto simp: Let_def bind_eq_Some_conv stableTo_committed intro: raft_keep_log)
  qed (use st 2 in simp)
  then show ?thesis using r' by (auto simp: stableSnapTo_committed intro: raft_keep_log split: if_splits)
qed

end
