(* ===== verification/Election.thy ===== *)
theory Election
  imports Restart
begin

text \<open>
  Elections over a network. A cluster is its nodes, their hard states on disk, and the messages that
  were ever sent; nodes run \<open>Step\<close> and \<open>tick\<close>, hand over a \<open>Ready\<close> (the hard state is written before
  the messages leave, as the contract of \<open>Ready\<close> demands), and restart from what is on disk. Messages
  may be delivered late, in any order, more than once or never.

  Two histories, which no code reads, remember which vote a node cast in which term: in memory
  (\<open>cl_mem\<close>), and on disk (\<open>cl_hist\<close>).
\<close>

record cluster =
  cl_node :: "nat \<Rightarrow> raft"
  cl_disk :: "nat \<Rightarrow> hardState"
  cl_net :: "message set"
  cl_mem :: "nat \<Rightarrow> nat \<Rightarrow> nat option"
  cl_hist :: "nat \<Rightarrow> nat \<Rightarrow> nat option"

definition remember :: "(nat \<Rightarrow> nat option) \<Rightarrow> raft \<Rightarrow> nat \<Rightarrow> nat option" where
  "remember mem r = (if r_Vote r = 0 then mem else mem(r_Term r := Some (r_Vote r)))"

text \<open>A node moves to a new state.\<close>

definition moveTo :: "cluster \<Rightarrow> nat \<Rightarrow> raft \<Rightarrow> cluster" where
  "moveTo c i r = c\<lparr>cl_node := (cl_node c)(i := r), cl_mem := (cl_mem c)(i := remember (cl_mem c i) r)\<rparr>"

text \<open>The application writes the hard state of a \<open>Ready\<close> and then sends its messages.\<close>

definition handOver :: "cluster \<Rightarrow> nat \<Rightarrow> readState list \<Rightarrow> cluster" where
  "handOver c i rs = c\<lparr>cl_node := (cl_node c)(i := (cl_node c i)\<lparr>r_readStates := rs, r_msgs := []\<rparr>),
     cl_disk := (cl_disk c)(i := hardStateOf (cl_node c i)),
     cl_net := cl_net c \<union> set (r_msgs (cl_node c i)),
     cl_hist := (cl_hist c)(i := cl_mem c i)\<rparr>"

definition restarted :: "cluster \<Rightarrow> nat \<Rightarrow> raft \<Rightarrow> cluster" where
  "restarted c i r = c\<lparr>cl_node := (cl_node c)(i := r), cl_mem := (cl_mem c)(i := cl_hist c i)\<rparr>"

text \<open>What a node does on its own account: local messages and proposals, which carry no term.\<close>

definition isOwnMsg :: "message \<Rightarrow> bool" where
  "isOwnMsg m \<longleftrightarrow> m_Term m = 0 \<and> m_Type m \<in> {MsgHup, MsgBeat, MsgProp, MsgCheckQuorum, MsgUnreachable,
     MsgSnapStatus, MsgTransferLeader, MsgReadIndex, MsgProbeRttHup}"

text \<open>
  The steps of the nodes \<open>N\<close>, whose voters are \<open>C\<close> throughout: a step after which a node has other voters
  is not one of them. Terms stay below the overflow of 64 bits. Messages without a term are delivered as well (probes
  of nodes of term 0, forwarded proposals and reads), but for the five types that always carry one: \<open>send\<close>
  panics on a vote or its answer without a term, and only leaders, whose term is not 0, send the others.
\<close>

inductive cluster_step :: "nat set \<Rightarrow> jointConfig \<Rightarrow> cluster \<Rightarrow> cluster \<Rightarrow> bool"
  for N :: "nat set" and C :: jointConfig where
  deliver: "i \<in> N \<Longrightarrow> m \<in> cl_net c \<Longrightarrow> m_To m = i \<Longrightarrow>
    m_Term m \<noteq> 0 \<or> m_Type m \<notin> {MsgApp, MsgHeartbeat, MsgSnap, MsgVote, MsgVoteResp} \<Longrightarrow> Step (cl_node c i) m = Some (err, r') \<Longrightarrow>
    r_Term (cl_node c i) < MaxUint64 \<Longrightarrow> m_Term m < MaxUint64 \<Longrightarrow> pt_Voters (r_prs r') = C \<Longrightarrow>
    cluster_step N C c (moveTo c i r')"
| own: "i \<in> N \<Longrightarrow> isOwnMsg m \<Longrightarrow> Step (cl_node c i) m = Some (err, r') \<Longrightarrow>
    r_Term (cl_node c i) < MaxUint64 \<Longrightarrow> pt_Voters (r_prs r') = C \<Longrightarrow> cluster_step N C c (moveTo c i r')"
| clock: "i \<in> N \<Longrightarrow> tick (cl_node c i) = Some r' \<Longrightarrow> r_Term (cl_node c i) < MaxUint64 \<Longrightarrow>
    pt_Voters (r_prs r') = C \<Longrightarrow> cluster_step N C c (moveTo c i r')"
| progress: "i \<in> N \<Longrightarrow> advance (cl_node c i) rd = Some r' \<Longrightarrow> cluster_step N C c (moveTo c i r')"
| stored: "i \<in> N \<Longrightarrow> r' = (cl_node c i)\<lparr>r_raftLog := (r_raftLog (cl_node c i))\<lparr>rl_storage := st\<rparr>\<rparr> \<Longrightarrow>
    cluster_step N C c (moveTo c i r')"
| ready: "i \<in> N \<Longrightarrow> cluster_step N C c (handOver c i rs)"
| restart: "i \<in> N \<Longrightarrow> newRaft e cfg = Some r' \<Longrightarrow> c_ID cfg = i \<Longrightarrow> c_Storage cfg = Some st \<Longrightarrow>
    ms_hardState st = cl_disk c i \<Longrightarrow> pt_Voters (r_prs r') = C \<Longrightarrow> cluster_step N C c (restarted c i r')"

text \<open>A new cluster: every node fresh on an empty hard state, and no message sent.\<close>

definition newCluster :: "(nat \<Rightarrow> raft) \<Rightarrow> cluster" where
  "newCluster nodes = \<lparr>cl_node = nodes, cl_disk = (\<lambda>_. emptyHardState), cl_net = {},
     cl_mem = (\<lambda>_ _. None), cl_hist = (\<lambda>_ _. None)\<rparr>"

definition freshNode :: "nat \<Rightarrow> raft \<Rightarrow> bool" where
  "freshNode i r \<longleftrightarrow> (\<exists>e cfg st. newRaft e cfg = Some r \<and> c_ID cfg = i \<and> c_Storage cfg = Some st \<and>
     ms_hardState st = emptyHardState)"

inductive cluster_reach :: "nat set \<Rightarrow> jointConfig \<Rightarrow> cluster \<Rightarrow> bool"
  for N :: "nat set" and C :: jointConfig where
  start: "(\<And>i. i \<in> N \<Longrightarrow> freshNode i (nodes i)) \<Longrightarrow> cluster_reach N C (newCluster nodes)"
| step: "cluster_reach N C c \<Longrightarrow> cluster_step N C c c' \<Longrightarrow> cluster_reach N C c'"

subsection \<open>The invariant\<close>

text \<open>Votes for \<open>i\<close> in term \<open>t\<close> by all of \<open>A\<close>: on disk, or its own.\<close>

definition supports :: "(nat \<Rightarrow> nat \<Rightarrow> nat option) \<Rightarrow> nat \<Rightarrow> nat \<Rightarrow> nat set \<Rightarrow> bool" where
  "supports hist i t A \<longleftrightarrow> (\<forall>v \<in> A. v = i \<or> hist v t = Some i)"

definition votes_ok :: "(nat \<Rightarrow> nat option) \<Rightarrow> nat \<Rightarrow> nat \<Rightarrow> bool" where
  "votes_ok mem trm vote \<longleftrightarrow> (vote \<noteq> 0 \<longrightarrow> mem trm = Some vote) \<and>
     (\<forall>t v. mem t = Some v \<longrightarrow> v \<noteq> 0 \<and> t \<le> trm \<and> (t = trm \<longrightarrow> vote = v))"

definition grants_ok :: "(nat \<Rightarrow> nat \<Rightarrow> nat option) \<Rightarrow> message set \<Rightarrow> bool" where
  "grants_ok hist ms \<longleftrightarrow> (\<forall>m \<in> ms. isGrant m \<and> m_To m \<noteq> 0 \<longrightarrow> hist (m_From m) (m_Term m) = Some (m_To m))"

definition node_ok :: "jointConfig \<Rightarrow> (nat \<Rightarrow> nat \<Rightarrow> nat option) \<Rightarrow> nat \<Rightarrow> (nat \<Rightarrow> nat option) \<Rightarrow> raft \<Rightarrow> bool" where
  "node_ok C hist i mem r \<longleftrightarrow> r_id r = i \<and> role_ok r \<and> votes_ok mem (r_Term r) (r_Vote r) \<and>
     (\<forall>m \<in> set (r_msgs r). isGrant m \<and> m_To m \<noteq> 0 \<longrightarrow> m_From m = i \<and> mem (m_Term m) = Some (m_To m)) \<and>
     (r_state r = StateCandidate \<longrightarrow> r_Vote r = i \<and> supports hist i (r_Term r) (yes_votes (pt_Votes (r_prs r)))) \<and>
     (r_state r = StateLeader \<longrightarrow> r_Vote r = i \<and> (\<exists>A. is_joint_quorum C A \<and> supports hist i (r_Term r) A))"

definition cluster_inv :: "nat set \<Rightarrow> jointConfig \<Rightarrow> cluster \<Rightarrow> bool" where
  "cluster_inv N C c \<longleftrightarrow> 0 \<notin> N \<and> grants_ok (cl_hist c) (cl_net c) \<and>
     (\<forall>i \<in> N. node_ok C (cl_hist c) i (cl_mem c i) (cl_node c i) \<and>
        votes_ok (cl_hist c i) (hs_Term (cl_disk c i)) (hs_Vote (cl_disk c i))) \<and>
     (\<forall>i t v. cl_hist c i t = Some v \<longrightarrow> cl_mem c i t = Some v)"

lemma cluster_inv_node:
  assumes "cluster_inv N C c" and "i \<in> N"
  shows "i \<noteq> 0" "node_ok C (cl_hist c) i (cl_mem c i) (cl_node c i)"
    "votes_ok (cl_hist c i) (hs_Term (cl_disk c i)) (hs_Vote (cl_disk c i))"
  using assms unfolding cluster_inv_def by metis+

lemma supports_mono: "supports hist i t A \<Longrightarrow> (\<And>v. hist v t = Some i \<Longrightarrow> hist' v t = Some i) \<Longrightarrow> supports hist' i t A"
  by (auto simp: supports_def)

lemma votes_ok_remember:
  assumes ok: "votes_ok mem (r_Term r) (r_Vote r)" and mono: "raft_mono r r'"
  shows "votes_ok (remember mem r') (r_Term r') (r_Vote r')"
    and "mem t = Some v \<Longrightarrow> remember mem r' t = Some v"
proof -
  have T: "r_Term r \<le> r_Term r'" using mono by (simp add: raft_mono_def)
  have old: "v \<noteq> 0 \<and> t \<le> r_Term r' \<and> (t = r_Term r' \<longrightarrow> r_Vote r' = v)" if "mem t = Some v" for t v
  proof -
    have "v \<noteq> 0" "t \<le> r_Term r" "t = r_Term r \<longrightarrow> r_Vote r = v" using ok that by (auto simp: votes_ok_def)
    then show ?thesis using T mono by (auto simp: raft_mono_def)
  qed
  show "votes_ok (remember mem r') (r_Term r') (r_Vote r')"
    using old by (auto simp: votes_ok_def remember_def split: if_splits)
  show "mem t = Some v \<Longrightarrow> remember mem r' t = Some v"
    using old by (auto simp: remember_def)
qed

text \<open>Each outcome of a step keeps the invariant of the node.\<close>

lemma node_ok_le:
  assumes ok: "node_ok C hist i mem r" and le: "raft_le r r'" and i: "i \<noteq> 0"
  shows "node_ok C hist i (remember mem r') r'"
proof -
  have mono: "raft_mono r r'" and q: "quiet r r'" and c: "calm r r'" using le by (simp_all add: raft_le_def)
  have v: "votes_ok mem (r_Term r) (r_Vote r)" using ok by (simp add: node_ok_def)
  note r = votes_ok_remember [OF v mono]
  have msgs: "\<forall>m \<in> set (r_msgs r'). isGrant m \<and> m_To m \<noteq> 0 \<longrightarrow> m_From m = i \<and> remember mem r' (m_Term m) = Some (m_To m)"
    using ok q r(2) unfolding node_ok_def quiet_def by fastforce
  have vote: "r_Vote r' = r_Vote r" if "r_Term r' = r_Term r" "r_Vote r = i" "i \<noteq> 0"
    using mono that by (simp add: raft_mono_def)
  show ?thesis
    using ok c r(1) msgs mono vote i unfolding node_ok_def calm_def raft_mono_def by auto
qed

lemma node_ok_keep_msgs:
  assumes ok: "node_ok C hist i mem r" and mono: "raft_mono r r'" and q: "quiet r r'"
  shows "\<forall>m \<in> set (r_msgs r'). isGrant m \<and> m_To m \<noteq> 0 \<longrightarrow> m_From m = i \<and> remember mem r' (m_Term m) = Some (m_To m)"
    and "votes_ok (remember mem r') (r_Term r') (r_Vote r')" and "r_id r' = i"
proof -
  have v: "votes_ok mem (r_Term r) (r_Vote r)" using ok by (simp add: node_ok_def)
  note r = votes_ok_remember [OF v mono]
  show "\<forall>m \<in> set (r_msgs r'). isGrant m \<and> m_To m \<noteq> 0 \<longrightarrow> m_From m = i \<and> remember mem r' (m_Term m) = Some (m_To m)"
    using ok q r(2) unfolding node_ok_def quiet_def by fastforce
  show "votes_ok (remember mem r') (r_Term r') (r_Vote r')" by (rule r)
  show "r_id r' = i" using ok mono by (simp add: node_ok_def raft_mono_def)
qed

lemma node_ok_stands:
  assumes ok: "node_ok C hist i mem r" and st: "stands r r'" and C: "pt_Voters (r_prs r') = C"
  shows "node_ok C hist i (remember mem r') r'"
proof -
  have m: "raft_mono r r'" "quiet r r'" "role_ok r'" using st by (simp_all add: stands_def)
  note k = node_ok_keep_msgs [OF ok m(1,2)]
  have id: "r_id r = i" using ok by (simp add: node_ok_def)
  have "supports hist i t {i}" for t by (simp add: supports_def)
  then show ?thesis using k m(3) st id C unfolding node_ok_def stands_def supports_def by auto
qed

lemma node_ok_polled:
  assumes ok: "node_ok C hist i mem r" and p: "polled r m r'" and C: "pt_Voters (r_prs r') = C"
    and vote: "\<not> m_Reject m \<Longrightarrow> m_From m = i \<or> hist (m_From m) (r_Term r) = Some i"
  shows "node_ok C hist i (remember mem r') r'"
proof -
  have m: "raft_mono r r'" "quiet r r'" "role_ok r'" using p by (simp_all add: polled_def)
  note k = node_ok_keep_msgs [OF ok m(1,2)]
  have c: "r_state r = StateCandidate" "r_Term r' = r_Term r" "r_Vote r' = r_Vote r" using p by (simp_all add: polled_def)
  have o: "r_Vote r = i" "supports hist i (r_Term r) (yes_votes (pt_Votes (r_prs r)))" using ok c(1) by (simp_all add: node_ok_def)
  let ?A = "yes_votes (pt_Votes (r_prs r)) \<union> (if m_Reject m then {} else {m_From m})"
  have A: "supports hist i (r_Term r) ?A" using o(2) vote by (auto simp: supports_def)
  have "r_state r' = StateCandidate \<and> yes_votes (pt_Votes (r_prs r')) \<subseteq> ?A \<or>
      r_state r' = StateLeader \<and> is_joint_quorum C ?A"
    using p C by (simp add: polled_def Let_def)
  moreover have "supports hist i (r_Term r) B" if "B \<subseteq> ?A" for B using A that unfolding supports_def by blast
  ultimately show ?thesis using k m(3) c o A unfolding node_ok_def by auto
qed

lemma node_ok_granted:
  assumes ok: "node_ok C hist i mem r" and le: "raft_le r r1" and g: "granted r1 m r'"
    and trm: "m_Term m = r_Term r1" and i: "i \<noteq> 0"
  shows "node_ok C hist i (remember mem r') r'"
proof -
  have mono: "raft_mono r r'" using le g raft_mono_trans by (auto simp: raft_le_def granted_def)
  have calm: "calm r r'" using le g calm_trans by (auto simp: raft_le_def granted_def)
  have T: "r_Term r' = r_Term r1" "r_Vote r' = m_From m" using g by (simp_all add: granted_def)
  have v: "votes_ok mem (r_Term r) (r_Vote r)" using ok by (simp add: node_ok_def)
  note rem = votes_ok_remember [OF v mono]
  obtain ms where ms: "r_msgs r1 = r_msgs r @ ms" "\<forall>m \<in> set ms. \<not> isGrant m"
    using le by (auto simp: raft_le_def quiet_def)
  obtain m' where m': "r_msgs r' = r_msgs r1 @ [m']" "m_From m' = r_id r1" "m_To m' = m_From m" "m_Term m' = m_Term m"
    using g by (auto simp: granted_def)
  have id1: "r_id r1 = i" using ok le by (simp add: node_ok_def raft_le_def raft_mono_def)
  have "m_From x = i \<and> remember mem r' (m_Term x) = Some (m_To x)"
    if "x \<in> set (r_msgs r')" "isGrant x" "m_To x \<noteq> 0" for x
  proof (cases "x = m'")
    case True
    then show ?thesis using m' id1 trm T that(3) by (simp add: remember_def)
  next
    case False
    then have "x \<in> set (r_msgs r)" using that ms m'(1) by auto
    then show ?thesis using ok that rem(2) by (simp add: node_ok_def)
  qed
  moreover have "r_Vote r' = r_Vote r" if "r_Term r' = r_Term r" "r_Vote r = i"
    using mono that i by (simp add: raft_mono_def)
  ultimately show ?thesis using ok calm rem(1) mono unfolding node_ok_def calm_def raft_mono_def by auto
qed

subsection \<open>Preservation\<close>

text \<open>What the term rule leaves of the answer to a vote.\<close>

lemma stepTerm_voteResp:
  assumes "stepTerm r m = Some (True, r1)" and "m_Type m = MsgVoteResp" and "m_Term m \<noteq> 0"
    and "r_state r1 \<noteq> StateFollower"
  shows "r_Term r1 = m_Term m"
  using assms becomeFollower_fields(8)
  by (auto simp: stepTerm_def stepHigherTerm_def Let_def bind_eq_Some_conv split: if_split_asm)

lemma remember_again:
  "r_Term r' = r_Term r1 \<Longrightarrow> r_Vote r' = r_Vote r1 \<Longrightarrow> remember (remember mem r1) r' = remember mem r'"
  by (simp add: remember_def)

lemma node_ok_Step:
  assumes ok: "node_ok C hist i mem r" and step: "Step r m = Some (err, r')" and i: "i \<noteq> 0"
    and T: "r_Term r < MaxUint64" "m_Term m < MaxUint64"
    and local: "m_Term m = 0 \<Longrightarrow> m_Type m \<notin> {MsgApp, MsgHeartbeat, MsgSnap, MsgVote, MsgVoteResp}"
    and grant: "isGrant m \<Longrightarrow> m_Term m \<noteq> 0 \<Longrightarrow> hist (m_From m) (m_Term m) = Some i"
    and C: "pt_Voters (r_prs r') = C"
  shows "node_ok C hist i (remember mem r') r'"
proof -
  have role: "role_ok r" using ok by (simp add: node_ok_def)
  have loc: "m_Term m = 0 \<Longrightarrow> m_Type m \<notin> {MsgApp, MsgHeartbeat, MsgSnap}" using local by auto
  obtain go r1 where t: "stepTerm r m = Some (go, r1)" and le: "raft_le r r1" and T1: "r_Term r1 < MaxUint64"
    and out: "handled r1 m r' \<or> granted r1 m r'" and stop: "\<not> go \<Longrightarrow> r' = r1"
    using Step_outcome [OF step T loc role] by blast
  show ?thesis
  proof (cases go)
    case False
    then show ?thesis using stop node_ok_le [OF ok le i] by simp
  next
    case go: True
    consider "raft_le r1 r'" | "stands r1 r'" | "polled r1 m r'" | "granted r1 m r'"
      using out by (auto simp: handled_def)
    then show ?thesis
    proof cases
      case 1
      then show ?thesis using node_ok_le [OF ok _ i] raft_le_trans [OF le] by blast
    next
      case 2
      then show ?thesis using node_ok_stands [OF ok _ C] stands_after [OF le] by blast
    next
      case 3
      have c: "m_Type m = MsgVoteResp" "r_state r1 = StateCandidate" "r_Term r' = r_Term r1" "r_Vote r' = r_Vote r1"
        using 3 by (simp_all add: polled_def)
      have "m_Term m \<noteq> 0" using local c(1) by auto
      then have "m_From m = i \<or> hist (m_From m) (r_Term r1) = Some i" if "\<not> m_Reject m"
        using stepTerm_voteResp [of r m r1] t go c grant that by auto
      then show ?thesis using node_ok_polled [OF node_ok_le [OF ok le i] 3 C] remember_again c(3,4) by metis
    next
      case 4
      then have "m_Type m = MsgVote" by (simp add: granted_def)
      moreover have "m_Term m \<noteq> 0" using local calculation by auto
      ultimately have "m_Term m = r_Term r1" using stepTerm_vote t go by metis
      then show ?thesis using node_ok_granted [OF ok le 4 _ i] by blast
    qed
  qed
qed

lemma node_ok_hist:
  "node_ok C hist i mem r \<Longrightarrow> (\<And>v t w. hist v t = Some w \<Longrightarrow> hist' v t = Some w) \<Longrightarrow> node_ok C hist' i mem r"
  unfolding node_ok_def using supports_mono by metis

lemma cluster_inv_moveTo:
  assumes inv: "cluster_inv N C c" and i: "i \<in> N" and ok: "node_ok C (cl_hist c) i (remember (cl_mem c i) r') r'"
    and mono: "raft_mono (cl_node c i) r'"
  shows "cluster_inv N C (moveTo c i r')"
proof -
  have v: "votes_ok (cl_mem c i) (r_Term (cl_node c i)) (r_Vote (cl_node c i))"
    using cluster_inv_node(2) [OF inv i] by (simp add: node_ok_def)
  show ?thesis using inv ok votes_ok_remember(2) [OF v mono]
    by (auto simp: cluster_inv_def moveTo_def)
qed

lemma cluster_inv_handOver:
  assumes inv: "cluster_inv N C c" and i: "i \<in> N"
  shows "cluster_inv N C (handOver c i rs)"
proof -
  let ?h = "(cl_hist c)(i := cl_mem c i)"
  have grow: "?h v t = Some w" if "cl_hist c v t = Some w" for v t w
    using inv that by (auto simp: cluster_inv_def)
  note oki = cluster_inv_node(2) [OF inv i]
  have "grants_ok ?h (cl_net c)" using inv grow unfolding cluster_inv_def grants_ok_def by blast
  moreover have "grants_ok ?h (set (r_msgs (cl_node c i)))" using oki by (auto simp: node_ok_def grants_ok_def)
  ultimately have "grants_ok ?h (cl_net c \<union> set (r_msgs (cl_node c i)))" by (auto simp: grants_ok_def)
  moreover have "node_ok C ?h j (cl_mem c j) (cl_node c j)" if "j \<in> N" for j
    using cluster_inv_node(2) [OF inv that] grow node_ok_hist [of C "cl_hist c"] by blast
  moreover have "node_ok C ?h i (cl_mem c i) ((cl_node c i)\<lparr>r_readStates := rs, r_msgs := []\<rparr>)"
    using node_ok_hist [OF oki, of ?h] grow by (auto simp: node_ok_def role_ok_def)
  moreover have "votes_ok (cl_mem c i) (r_Term (cl_node c i)) (r_Vote (cl_node c i))" using oki by (simp add: node_ok_def)
  ultimately show ?thesis using inv by (simp add: cluster_inv_def handOver_def hardStateOf_def)
qed

lemma cluster_inv_restarted:
  assumes inv: "cluster_inv N C c" and i: "i \<in> N" and new: "newRaft e cfg = Some r'" "c_Storage cfg = Some st"
    and "c_ID cfg = i" and hs: "ms_hardState st = cl_disk c i"
  shows "cluster_inv N C (restarted c i r')"
proof -
  have "node_ok C (cl_hist c) i (cl_hist c i) r'"
    using newRaft_fields [OF new] hs \<open>c_ID cfg = i\<close> cluster_inv_node(3) [OF inv i] by (simp add: node_ok_def role_ok_def)
  then show ?thesis using inv by (simp add: cluster_inv_def restarted_def)
qed

lemma cluster_inv_step:
  assumes "cluster_step N C c c'" and inv: "cluster_inv N C c"
  shows "cluster_inv N C c'"
  using assms(1)
proof cases
  case (deliver i m err r')
  note n = cluster_inv_node [OF inv deliver(2)]
  have grant: "isGrant m \<Longrightarrow> cl_hist c (m_From m) (m_Term m) = Some i"
    using inv n(1) deliver(3,4) by (auto simp: cluster_inv_def grants_ok_def)
  have t0: "m_Type m \<notin> {MsgApp, MsgHeartbeat, MsgSnap, MsgVote, MsgVoteResp}" if "m_Term m = 0" using deliver(5) that by blast
  have t1: "m_Type m \<notin> {MsgApp, MsgHeartbeat, MsgSnap}" if "m_Term m = 0" using t0 [OF that] by simp
  have "role_ok (cl_node c i)" using n(2) by (simp add: node_ok_def)
  then have "raft_mono (cl_node c i) r'" using Step_mono [OF deliver(6-8)] t1 by blast
  moreover have "node_ok C (cl_hist c) i (remember (cl_mem c i) r') r'"
    using node_ok_Step [OF n(2) deliver(6) n(1) deliver(7,8) t0 _ deliver(9)] grant by blast
  ultimately show ?thesis using cluster_inv_moveTo [OF inv deliver(2)] deliver(1) by simp
next
  case (own i m err r')
  note n = cluster_inv_node [OF inv own(2)]
  have m: "m_Term m = 0" "m_Type m \<notin> {MsgApp, MsgHeartbeat, MsgSnap, MsgVote, MsgVoteResp}" "m_Term m < MaxUint64"
    using own(3) by (auto simp: isOwnMsg_def MaxUint64_def)
  have "raft_mono (cl_node c i) r'" using Step_mono [OF own(4,5) m(3)] m(2) n(2) by (simp add: node_ok_def)
  then show ?thesis
    using cluster_inv_moveTo [OF inv own(2)] node_ok_Step [OF n(2) own(4) n(1) own(5) m(3) _ _ own(6)] m own(1) by simp
next
  case (clock i r')
  note n = cluster_inv_node [OF inv clock(2)]
  have "raft_le (cl_node c i) r' \<or> stands (cl_node c i) r'" by (rule tick_cases [OF clock(3,4)])
  then have "node_ok C (cl_hist c) i (remember (cl_mem c i) r') r'" "raft_mono (cl_node c i) r'"
    using node_ok_le [OF n(2) _ n(1)] node_ok_stands [OF n(2) _ clock(5)] by (auto simp: raft_le_def stands_def)
  then show ?thesis using cluster_inv_moveTo [OF inv clock(2)] clock(1) by simp
next
  case (progress i rd r')
  note n = cluster_inv_node [OF inv progress(2)]
  have "raft_le (cl_node c i) r'" using advance_keep [OF progress(3)] raft_keep_le by blast
  then show ?thesis
    using cluster_inv_moveTo [OF inv progress(2)] node_ok_le [OF n(2) _ n(1)] raft_le_mono progress(1) by blast
next
  case (stored i r' st)
  note n = cluster_inv_node [OF inv stored(2)]
  have "raft_le (cl_node c i) r'" unfolding stored(3) by (simp add: raft_le_defs)
  then show ?thesis
    using cluster_inv_moveTo [OF inv stored(2)] node_ok_le [OF n(2) _ n(1)] raft_le_mono stored(1) by blast
next
  case (ready i rs)
  then show ?thesis using cluster_inv_handOver [OF inv] by simp
next
  case (restart i e cfg r' st)
  then show ?thesis using cluster_inv_restarted [OF inv] by simp
qed

lemma freshNode_fields:
  assumes "freshNode i r"
  shows "i \<noteq> 0" "r_id r = i" "r_Term r = 0" "r_Vote r = 0" "r_state r = StateFollower" "r_step r = StepFollower" "r_msgs r = []"
proof -
  obtain e cfg st where n: "newRaft e cfg = Some r" "c_Storage cfg = Some st" "c_ID cfg = i"
      "ms_hardState st = emptyHardState"
    using assms unfolding freshNode_def by blast
  show "i \<noteq> 0" "r_id r = i" "r_Term r = 0" "r_Vote r = 0" "r_state r = StateFollower" "r_step r = StepFollower" "r_msgs r = []"
    using newRaft_fields [OF n(1,2)] n(3,4) by (simp_all add: emptyHardState_def)
qed

lemma cluster_inv_start:
  assumes "\<And>i. i \<in> N \<Longrightarrow> freshNode i (nodes i)"
  shows "cluster_inv N C (newCluster nodes)"
proof -
  have "node_ok C (\<lambda>_ _. None) i (\<lambda>_. None) (nodes i)" if "i \<in> N" for i
    using freshNode_fields [OF assms [OF that]] by (simp add: node_ok_def role_ok_def votes_ok_def)
  moreover have "0 \<notin> N" using freshNode_fields(1) assms by blast
  ultimately show ?thesis by (simp add: cluster_inv_def newCluster_def grants_ok_def votes_ok_def emptyHardState_def)
qed

lemma cluster_inv_reach: "cluster_reach N C c \<Longrightarrow> cluster_inv N C c"
  by (induction rule: cluster_reach.induct) (auto intro: cluster_inv_start cluster_inv_step)

text \<open>Two leaders of one term are one node: their quorums share a voter, and it voted once.\<close>

lemma one_leader:
  assumes inv: "cluster_inv N C c" and C: "JointIDs C \<noteq> {||}" and i: "i \<in> N" "r_state (cl_node c i) = StateLeader"
    and j: "j \<in> N" "r_state (cl_node c j) = StateLeader" and t: "r_Term (cl_node c i) = r_Term (cl_node c j)"
  shows "i = j"
proof (rule ccontr)
  assume ne: "i \<noteq> j"
  let ?t = "r_Term (cl_node c j)"
  note ni = cluster_inv_node [OF inv i(1)] and nj = cluster_inv_node [OF inv j(1)]
  obtain A where A: "is_joint_quorum C A" "supports (cl_hist c) i ?t A" and vi: "r_Vote (cl_node c i) = i"
    using ni(2) i(2) t by (auto simp: node_ok_def)
  obtain B where B: "is_joint_quorum C B" "supports (cl_hist c) j ?t B" and vj: "r_Vote (cl_node c j) = j"
    using nj(2) j(2) by (auto simp: node_ok_def)
  have sub: "cl_mem c v ?t = Some w" if "cl_hist c v ?t = Some w" for v w
    using inv that by (simp add: cluster_inv_def)
  have "cl_mem c i ?t = Some i" "cl_mem c j ?t = Some j"
    using ni nj vi vj t by (simp_all add: node_ok_def votes_ok_def)
  then have own: "cl_hist c v ?t = Some w \<Longrightarrow> w = v" if "v = i \<or> v = j" for v w
    using sub [of v w] that by auto
  obtain v where v: "v \<in> A" "v \<in> B" using is_joint_quorum_common [OF C A(1) B(1)] by blast
  have "v = i \<or> cl_hist c v ?t = Some i" "v = j \<or> cl_hist c v ?t = Some j"
    using v A(2) B(2) by (auto simp: supports_def)
  then show False using own ne by (metis option.inject)
qed

end
