(* ===== verification/Samples.thy ===== *)
theory Samples
  imports NodeLoop Election "HOL-Library.Code_Target_Nat" "HOL-Library.Code_Target_Int"
begin

text \<open>
  Concrete nodes on which the theorems are instantiated: a three-voter cluster with the stand-ins for
  the codec, the random numbers, the clock and the map order that the model takes as parameters.
\<close>

text \<open>The constants of 64-bit arithmetic as literals, for execution.\<close>

lemma MaxUint64_code [code]: "MaxUint64 = 18446744073709551615"
  by (simp add: MaxUint64_def)

lemma add64_code [code]: "add64 a b = (a + b) mod 18446744073709551616"
  by (simp add: add64_def)

lemma sub64_code [code]: "sub64 a b = (if b \<le> a then a - b else a + 18446744073709551616 - b)"
  by (simp add: sub64_def)

lemma i64_code [code]: "i64 x = (x + 9223372036854775808) mod 18446744073709551616 - 9223372036854775808"
  by (simp add: i64_def)

definition sampleEnv :: env where
  "sampleEnv = \<lparr>env_codec = \<lparr>marshalConfChange = (\<lambda>_. ''v1''), unmarshalConfChange = (\<lambda>_. None),
      marshalConfChangeV2 = (\<lambda>_. ''v2''), unmarshalConfChangeV2 = (\<lambda>_. None)\<rparr>,
     env_rand = (\<lambda>n. n * 7), env_randPos = 0, env_clock = (\<lambda>n. int n * 1000000), env_clockPos = 0,
     env_order = (\<lambda>_ ks. ks), env_orderPos = 0\<rparr>"

definition sampleConfig :: "nat \<Rightarrow> config" where
  "sampleConfig v = \<lparr>c_ID = v, c_peers = [1, 2, 3], c_learners = [], c_ElectionTick = 10, c_HeartbeatTick = 1,
     c_RttprobeTick = 20, c_Storage = Some NewMemoryStorage, c_Applied = 0, c_MaxSizePerMsg = 1024,
     c_MaxCommittedSizePerReady = 0, c_MaxUncommittedEntriesSize = 0, c_MaxInflightMsgs = 4,
     c_CheckQuorum = False, c_PreVote = False, c_NetworkSimulation = False, c_ReadOnlyOption = ReadOnlySafe,
     c_DisableProposalForwarding = False\<rparr>"

text \<open>A fresh node of the cluster, as \<open>newRaft\<close> returns it (checked below by execution).\<close>

definition peerProgress :: "nat \<Rightarrow> nat \<Rightarrow> progressState \<Rightarrow> progress" where
  "peerProgress matched nxt st = \<lparr>pr_Match = matched, pr_Next = nxt, pr_State = st, pr_PendingSnapshot = 0,
     pr_RecentActive = False, pr_ProbeSent = False, pr_Inflights = NewInflights 4, pr_IsLearner = False\<rparr>"

definition sampleNode :: "nat \<Rightarrow> raft" where
  "sampleNode v = \<lparr>r_env = sampleEnv\<lparr>env_randPos := 1\<rparr>, r_id = v, r_Term = 0, r_Vote = 0, r_readStates = [],
   r_raftLog = newLogWithSize NewMemoryStorage 1024, r_maxMsgSize = 1024, r_maxUncommittedSize = MaxUint64,
   r_prs = \<lparr>pt_Config = emptyTrackerConfig\<lparr>tc_Voters := (Some {|3, 2, 1|}, None)\<rparr>,
     pt_Progress = fmap_of_list (map (\<lambda>w. (w, peerProgress 0 1 StateProbe)) [1, 2, 3]),
     pt_Votes = fmempty, pt_MaxInflight = 4\<rparr>,
   r_state = StateFollower, r_isLearner = False, r_msgs = [], r_lead = 0, r_leadTransferee = 0,
   r_pendingConfIndex = 0, r_uncommittedSize = 0, r_readOnly = newReadOnly ReadOnlySafe, r_electionElapsed = 0,
   r_heartbeatElapsed = 0, r_rttprobeElapsed = 100, r_leaderTransferElapsed = 0, r_checkQuorum = False,
   r_preVote = False, r_networkSimulation = False, r_testingVariable = False, r_heartbeatTimeout = 1,
   r_electionTimeout = 10, r_electionPenaltyTime = 0, r_randomizedElectionTimeout = 10,
   r_disableProposalForwarding = False, r_rttprobeTimeout = 20, r_leaderTransferTimeout = 1000,
   r_rttMap = fmempty, r_rttMap_old = fmempty, r_nodeLatency = fmempty, r_tick = TickElection, r_step = StepFollower,
   r_pendingReadIndexMessages = []\<rparr>"

definition hup :: message where
  "hup = emptyMessage\<lparr>m_Type := MsgHup\<rparr>"

definition voteReq :: "nat \<Rightarrow> nat \<Rightarrow> nat \<Rightarrow> message" where
  "voteReq v to t = emptyMessage\<lparr>m_Type := MsgVote, m_From := v, m_To := to, m_Term := t\<rparr>"

definition voteGrant :: "nat \<Rightarrow> nat \<Rightarrow> nat \<Rightarrow> message" where
  "voteGrant v to t = emptyMessage\<lparr>m_Type := MsgVoteResp, m_From := v, m_To := to, m_Term := t\<rparr>"

definition appendAck :: "nat \<Rightarrow> nat \<Rightarrow> nat \<Rightarrow> nat \<Rightarrow> message" where
  "appendAck v to t i = emptyMessage\<lparr>m_Type := MsgAppResp, m_From := v, m_To := to, m_Term := t, m_Index := i\<rparr>"

text \<open>Node 1 after it campaigned.\<close>

definition sampleCandidate :: raft where
  "sampleCandidate = (sampleNode 1)\<lparr>r_env := sampleEnv\<lparr>env_randPos := 2\<rparr>, r_Term := 1, r_Vote := 1,
     r_prs := (r_prs (sampleNode 1))\<lparr>pt_Votes := fmap_of_list [(1, True)]\<rparr>, r_state := StateCandidate,
     r_step := StepCandidate, r_randomizedElectionTimeout := 17, r_msgs := [voteReq 1 2 1, voteReq 1 3 1]\<rparr>"

text \<open>Node 1 as the leader of term 1, after the vote of node 2: it has appended an empty entry.\<close>

definition leaderEntry :: entry where
  "leaderEntry = emptyEntry\<lparr>e_Term := 1, e_Index := 1\<rparr>"

definition appendTo :: "nat \<Rightarrow> message" where
  "appendTo v = emptyMessage\<lparr>m_Type := MsgApp, m_From := 1, m_To := v, m_Term := 1, m_Entries := [leaderEntry]\<rparr>"

definition sampleLeader :: raft where
  "sampleLeader = sampleCandidate\<lparr>r_env := sampleEnv\<lparr>env_randPos := 3\<rparr>,
     r_raftLog := (r_raftLog (sampleNode 1))\<lparr>rl_unstable := \<lparr>us_snapshot = None, us_entries = [leaderEntry], us_offset = 1\<rparr>\<rparr>,
     r_prs := (r_prs (sampleNode 1))\<lparr>pt_Progress := fmap_of_list
       [(1, peerProgress 1 2 StateReplicate), (2, (peerProgress 0 1 StateProbe)\<lparr>pr_ProbeSent := True\<rparr>),
        (3, (peerProgress 0 1 StateProbe)\<lparr>pr_ProbeSent := True\<rparr>)]\<rparr>,
     r_state := StateLeader, r_step := StepLeader, r_tick := TickHeartbeat, r_lead := 1,
     r_randomizedElectionTimeout := 14, r_msgs := [voteReq 1 2 1, voteReq 1 3 1, appendTo 2, appendTo 3]\<rparr>"

text \<open>The leader after an acknowledgement of its first entry.\<close>

definition sampleCommitted :: raft where
  "sampleCommitted = sampleLeader\<lparr>r_raftLog := (r_raftLog sampleLeader)\<lparr>rl_committed := 1\<rparr>,
     r_prs := (r_prs sampleLeader)\<lparr>pt_Progress := fmap_of_list
       [(1, peerProgress 1 2 StateReplicate), (2, (peerProgress 1 2 StateReplicate)\<lparr>pr_RecentActive := True\<rparr>),
        (3, (peerProgress 0 1 StateProbe)\<lparr>pr_ProbeSent := True\<rparr>)]\<rparr>,
     r_msgs := r_msgs sampleLeader @ [(appendTo 2)\<lparr>m_Index := 1, m_LogTerm := 1, m_Entries := [], m_Commit := 1\<rparr>]\<rparr>"

text \<open>Node 2 after it voted for node 1.\<close>

definition sampleVoter :: raft where
  "sampleVoter = (sampleNode 2)\<lparr>r_env := sampleEnv\<lparr>env_randPos := 2\<rparr>, r_Term := 1, r_Vote := 1,
     r_randomizedElectionTimeout := 17, r_msgs := [voteGrant 2 1 1]\<rparr>"

text \<open>Reading the result of a call off an execution.\<close>

definition returns :: "'a option \<Rightarrow> bool" where
  "returns x = (case x of None \<Rightarrow> False | Some _ \<Rightarrow> True)"

lemma returns_the: "returns x \<Longrightarrow> x = Some (the x)"
  by (simp add: returns_def split: option.splits)

lemma returns_pair: "returns x \<Longrightarrow> x = Some (fst (the x), snd (the x))"
  by (simp add: returns_def split: option.splits)

text \<open>A run of the cluster: node 1 campaigns, node 2 votes for it, node 1 leads.\<close>

definition sampleVoters :: jointConfig where
  "sampleVoters = (Some {|1, 2, 3|}, None)"

definition stepped :: "cluster \<Rightarrow> nat \<Rightarrow> message \<Rightarrow> cluster" where
  "stepped c i m = moveTo c i (snd (the (Step (cl_node c i) m)))"

definition sampleRun :: "cluster list" where
  "sampleRun =
     (let c0 = newCluster sampleNode; c1 = stepped c0 1 hup; c2 = handOver c1 1 [];
          c3 = stepped c2 2 (voteReq 1 2 1); c4 = handOver c3 2 []; c5 = stepped c4 1 (voteGrant 2 1 1)
      in [c0, c1, c2, c3, c4, c5])"

text \<open>An execution: a state with every property of another is that state.\<close>

lemma executed:
  assumes "\<And>Q. Q a \<longrightarrow> Q b" shows "b = a"
  using assms [of "\<lambda>x. x = a"] by simp

lemma sampleNode_1: "newRaft sampleEnv (sampleConfig 1) = Some (sampleNode 1)"
  by (rule executed, code_simp, simp add: numeral_2_eq_2 numeral_3_eq_3)

lemma sampleNode_2: "newRaft sampleEnv (sampleConfig 2) = Some (sampleNode 2)"
  by (rule executed, code_simp, simp add: numeral_2_eq_2 numeral_3_eq_3)

lemma sampleNode_3: "newRaft sampleEnv (sampleConfig 3) = Some (sampleNode 3)"
  by (rule executed, code_simp, simp add: numeral_2_eq_2 numeral_3_eq_3)

lemma sampleNode_new: "i \<in> {1, 2, 3} \<Longrightarrow> newRaft sampleEnv (sampleConfig i) = Some (sampleNode i)"
  using sampleNode_1 sampleNode_2 sampleNode_3 by auto

lemma campaign_step: "Step (sampleNode 1) hup = Some (None, sampleCandidate)"
  by (rule executed, code_simp, simp add: numeral_2_eq_2 numeral_3_eq_3)

lemma vote_step: "Step (sampleNode 2) (voteReq 1 2 1) = Some (None, sampleVoter)"
  by (rule executed, code_simp, simp add: numeral_2_eq_2 numeral_3_eq_3)

lemma elected_step: "Step sampleCandidate (voteGrant 2 1 1) = Some (None, sampleLeader)"
  by (rule executed, code_simp, simp add: numeral_2_eq_2 numeral_3_eq_3)

lemma commit_step: "stepLeader sampleLeader (appendAck 2 1 1 1) = Some (None, sampleCommitted)"
  by (rule executed, code_simp, simp add: numeral_2_eq_2 numeral_3_eq_3)

lemma sampleNode_fresh:
  assumes "i \<in> {1, 2, 3}" shows "freshNode i (sampleNode i)"
proof -
  have "c_ID (sampleConfig i) = i" "c_Storage (sampleConfig i) = Some NewMemoryStorage"
    "ms_hardState NewMemoryStorage = emptyHardState"
    by (simp_all add: sampleConfig_def NewMemoryStorage_def)
  then show ?thesis using sampleNode_new [OF assms] unfolding freshNode_def by blast
qed

text \<open>Each step of the run, checked by execution.\<close>

definition canStep :: "cluster \<Rightarrow> nat \<Rightarrow> message \<Rightarrow> bool" where
  "canStep c i m \<longleftrightarrow> returns (Step (cl_node c i) m) \<and> r_Term (cl_node c i) < MaxUint64 \<and>
     pt_Voters (r_prs (snd (the (Step (cl_node c i) m)))) = sampleVoters"

lemma stepped_own: "canStep c i m \<Longrightarrow> i \<in> N \<Longrightarrow> isOwnMsg m \<Longrightarrow> cluster_step N sampleVoters c (stepped c i m)"
  unfolding canStep_def stepped_def using cluster_step.own returns_pair by blast

lemma stepped_deliver: "canStep c i m \<Longrightarrow> i \<in> N \<Longrightarrow> m \<in> cl_net c \<Longrightarrow> m_To m = i \<Longrightarrow> m_Term m \<noteq> 0 \<Longrightarrow>
    m_Term m < MaxUint64 \<Longrightarrow> cluster_step N sampleVoters c (stepped c i m)"
  unfolding canStep_def stepped_def using cluster_step.deliver [OF _ _ _ disjI1] returns_pair by blast

end
