(* ===== verification/SampleRun.thy ===== *)
theory SampleRun
  imports Samples
begin

text \<open>The run of \<open>Samples\<close> is a run of the cluster, checked step by step; a log and configurations on
  which the theorems about logs and configuration changes are instantiated.\<close>

lemma sampleRun_nth:
  "sampleRun ! 0 = newCluster sampleNode" "sampleRun ! 1 = stepped (sampleRun ! 0) 1 hup"
  "sampleRun ! 2 = handOver (sampleRun ! 1) 1 []" "sampleRun ! 3 = stepped (sampleRun ! 2) 2 (voteReq 1 2 1)"
  "sampleRun ! 4 = handOver (sampleRun ! 3) 2 []" "sampleRun ! 5 = stepped (sampleRun ! 4) 1 (voteGrant 2 1 1)"
  by (simp_all add: sampleRun_def Let_def numeral_eq_Suc)

lemma sampleRun_reach: "cluster_reach {1, 2, 3} sampleVoters (sampleRun ! 5)"
proof -
  have 1: "canStep (newCluster sampleNode) 1 hup" by code_simp
  have 2: "canStep (sampleRun ! 2) 2 (voteReq 1 2 1)" by code_simp
  have 3: "canStep (sampleRun ! 4) 1 (voteGrant 2 1 1)" by code_simp
  have q: "(voteReq 1 2 1) = hd (r_msgs (cl_node (sampleRun ! 1) 1))" "\<not> List.null (r_msgs (cl_node (sampleRun ! 1) 1))"
    "m_To (voteReq 1 2 1) = 2" "m_Term (voteReq 1 2 1) = 1" by code_simp+
  have g: "(voteGrant 2 1 1) = hd (r_msgs (cl_node (sampleRun ! 3) 2))" "\<not> List.null (r_msgs (cl_node (sampleRun ! 3) 2))"
    "m_To (voteGrant 2 1 1) = 1" "m_Term (voteGrant 2 1 1) = 1" by code_simp+
  have "(voteReq 1 2 1) \<in> set (r_msgs (cl_node (sampleRun ! 1) 1))" "(voteGrant 2 1 1) \<in> set (r_msgs (cl_node (sampleRun ! 3) 2))"
    unfolding q(1) g(1) using q(2) g(2) by (auto intro: hd_in_set)
  then have "(voteReq 1 2 1) \<in> cl_net (sampleRun ! 2)" "(voteGrant 2 1 1) \<in> cl_net (sampleRun ! 4)"
    by (simp_all add: sampleRun_nth(3,5) handOver_def)
  then have s: "cluster_step {1, 2, 3} sampleVoters (sampleRun ! 2) (sampleRun ! 3)"
      "cluster_step {1, 2, 3} sampleVoters (sampleRun ! 4) (sampleRun ! 5)"
    unfolding sampleRun_nth(4,6)
    using stepped_deliver [OF 2 _ _ q(3)] stepped_deliver [OF 3 _ _ g(3)] q(4) g(4)
    by (simp_all add: MaxUint64_def del: One_nat_def)
  have "isOwnMsg hup" by (simp add: isOwnMsg_def hup_def)
  then have s1: "cluster_step {1, 2, 3} sampleVoters (sampleRun ! 0) (sampleRun ! 1)"
    unfolding sampleRun_nth(1,2) by (rule stepped_own [OF 1, rotated]) simp
  have r0: "cluster_reach {1, 2, 3} sampleVoters (sampleRun ! 0)"
    unfolding sampleRun_nth(1) by (rule cluster_reach.start) (rule sampleNode_fresh)
  have s2: "cluster_step {1, 2, 3} sampleVoters (sampleRun ! 1) (sampleRun ! 2)"
    "cluster_step {1, 2, 3} sampleVoters (sampleRun ! 3) (sampleRun ! 4)"
    unfolding sampleRun_nth(3,5) by (auto intro: cluster_step.ready)
  note reach = cluster_reach.step
  show ?thesis by (rule reach [OF reach [OF reach [OF reach [OF reach [OF r0 s1] s2(1)] s(1)] s2(2)] s(2)])
qed

lemma sampleRun_leader: "r_state (cl_node (sampleRun ! 5) 1) = StateLeader"
  by code_simp

lemma sampleNode_log:
  assumes "i \<in> {1, 2, 3}" shows "log_inv (r_raftLog (sampleNode i))"
proof -
  have "r_raftLog (sampleNode 1) = newLogWithSize NewMemoryStorage 1024" 
    "r_raftLog (sampleNode 2) = newLogWithSize NewMemoryStorage 1024"
    "r_raftLog (sampleNode 3) = newLogWithSize NewMemoryStorage 1024" by code_simp+
  then show ?thesis using assms newLogWithSize_inv(1) [OF NewMemoryStorage_inv] by auto
qed

subsection \<open>A log\<close>

definition sampleEntry :: "nat \<Rightarrow> nat \<Rightarrow> entry" where
  "sampleEntry t i = emptyEntry\<lparr>e_Term := t, e_Index := i\<rparr>"

text \<open>Terms 1, 1 on disk and 2 in memory; the first entry is committed.\<close>

definition sampleStorage :: memoryStorage where
  "sampleStorage = NewMemoryStorage\<lparr>ms_rest := [sampleEntry 1 1, sampleEntry 1 2]\<rparr>"

definition sampleLog :: raftLog where
  "sampleLog = \<lparr>rl_storage = sampleStorage,
     rl_unstable = \<lparr>us_snapshot = None, us_entries = [sampleEntry 2 3], us_offset = 3\<rparr>,
     rl_committed = 1, rl_applied = 1, rl_maxNextEntsSize = 1024\<rparr>"

lemma sampleStorage_inv: "ms_inv sampleStorage"
  by code_simp

lemma sampleLog_inv: "log_inv sampleLog"
  by code_simp

lemma sampleLog_view: "view_inv sampleLog"
  using sampleLog_inv by (rule log_invD)

lemma sampleEntry_fields [simp]: "e_Term (sampleEntry t i) = t" "e_Index (sampleEntry t i) = i"
  by (simp_all add: sampleEntry_def)

lemma sampleLog_fields: "lastIndex sampleLog = 3" "rl_base sampleLog = 0" "rl_committed sampleLog = 1"
  "rl_applied sampleLog = 1" "rl_ents sampleLog = [sampleEntry 1 1, sampleEntry 1 2, sampleEntry 2 3]"
  by code_simp+

subsection \<open>Configurations\<close>

definition succeeds :: "ccResult \<Rightarrow> bool" where
  "succeeds x = (case x of Some (Inr _) \<Rightarrow> True | _ \<Rightarrow> False)"

lemma succeeds_pair: "succeeds x \<Longrightarrow> x = Some (Inr (fst (projr (the x)), snd (projr (the x))))"
  by (simp add: succeeds_def split: option.splits sum.splits)

lemma succeeds_result:
  assumes "succeeds x" and "\<exists>r. x = Some r \<and> (\<forall>cfg prs. r = Inr (cfg, prs) \<longrightarrow> P cfg prs)"
  shows "P (fst (projr (the x))) (snd (projr (the x)))"
proof -
  have x: "x = Some (Inr (fst (projr (the x)), snd (projr (the x))))" by (rule succeeds_pair [OF assms(1)])
  obtain r where r: "x = Some r" "\<forall>cfg prs. r = Inr (cfg, prs) \<longrightarrow> P cfg prs" using assms(2) by blast
  then have "r = Inr (fst (projr (the x)), snd (projr (the x)))" using x by simp
  then show ?thesis using r(2) by blast
qed

definition changerOf :: "ccResult \<Rightarrow> changer" where
  "changerOf x = \<lparr>chg_Tracker = (MakeProgressTracker 4)\<lparr>pt_Config := fst (projr (the x)),
     pt_Progress := snd (projr (the x))\<rparr>, chg_LastIndex = 1\<rparr>"

definition emptyChanger :: changer where
  "emptyChanger = \<lparr>chg_Tracker = MakeProgressTracker 4, chg_LastIndex = 1\<rparr>"

definition addNode :: "nat \<Rightarrow> confChangeSingle" where
  "addNode v = \<lparr>ccs_Type = ConfChangeAddNode, ccs_NodeID = v\<rparr>"

text \<open>One voter, and a joint configuration that replaces it by two others.\<close>

definition sampleChanger :: changer where
  "sampleChanger = changerOf (Simple emptyChanger [addNode 1])"

definition replaceVoter :: "confChangeSingle list" where
  "replaceVoter = [\<lparr>ccs_Type = ConfChangeRemoveNode, ccs_NodeID = 1\<rparr>, addNode 2, addNode 3]"

definition jointChanger :: changer where
  "jointChanger = changerOf (EnterJoint sampleChanger True replaceVoter)"

lemma changerOf_inv:
  assumes "succeeds x" and "\<exists>r. x = Some r \<and> (\<forall>cfg prs. r = Inr (cfg, prs) \<longrightarrow> conf_inv cfg prs \<and> Q cfg prs)"
  shows "changer_inv (changerOf x)"
  using succeeds_result [OF assms] by (simp add: changerOf_def changer_inv_def)

lemma emptyChanger_inv: "changer_inv emptyChanger"
  using conf_inv_empty by (simp add: emptyChanger_def changer_inv_def)

lemma Simple_sample: "succeeds (Simple emptyChanger [addNode 1])"
  by code_simp

lemma EnterJoint_sample: "succeeds (EnterJoint sampleChanger True replaceVoter)"
  by code_simp

lemma LeaveJoint_sample: "succeeds (LeaveJoint jointChanger)"
  by code_simp

lemma sampleChanger_inv: "changer_inv sampleChanger"
  unfolding sampleChanger_def by (rule changerOf_inv [OF Simple_sample Simple_inv [OF emptyChanger_inv]])

lemma jointChanger_inv: "changer_inv jointChanger"
  unfolding jointChanger_def by (rule changerOf_inv [OF EnterJoint_sample EnterJoint_inv [OF sampleChanger_inv]])

text \<open>An append of one entry, the leader's first.\<close>

definition sampleAppend :: message where
  "sampleAppend = emptyMessage\<lparr>m_Type := MsgApp, m_From := 1, m_To := 2, m_Term := 1, m_Entries := [sampleEntry 1 1]\<rparr>"

text \<open>A read request, a node wrapped for its application, and a set too small to be a quorum.\<close>

definition readRequest :: message where
  "readRequest = emptyMessage\<lparr>m_Type := MsgReadIndex, m_Entries := [emptyEntry\<lparr>e_Data := Some ''a''\<rparr>]\<rparr>"

definition rawNodeOf :: "raft \<Rightarrow> rawNode" where
  "rawNodeOf r = \<lparr>rn_raft = r, rn_prevSoftSt = softStateOf r, rn_prevHardSt = emptyHardState\<rparr>"

lemma not_quorum_of_one: "A \<subseteq> {1} \<Longrightarrow> \<not> is_joint_quorum sampleVoters A"
proof -
  assume "A \<subseteq> {1}"
  then have "card ({1, 2, 3} \<inter> A) \<le> card {1 :: nat}" by (intro card_mono) auto
  then show ?thesis by (simp add: sampleVoters_def is_joint_quorum_def is_quorum_def fcard.rep_eq)
qed

end
