(* ===== verification/Replication.thy ===== *)
theory Replication
  imports RaftLogOps RaftMono
begin

text \<open>
  What a leader does to its log and when it commits. Sending changes neither the log nor what is known
  to match (\<open>sent_only\<close>); every handler of \<open>stepLeader\<close> leaves a log that extends the old one, and its
  commit index moves only to an entry of the leader's own term that a quorum has acknowledged
  (\<open>leader_ok\<close>). The loop that sends appends until there is nothing left to send ends.
\<close>

subsection \<open>Reading the log for sending\<close>

lemma entriesFrom_eq:
  assumes inv: "view_inv l"
  shows "entriesFrom l i n = Some (if lastIndex l < i then Inr [] else if i \<le> rl_base l then Inl ErrCompacted
    else Inr (limitSize (drop (i - Suc (rl_base l)) (rl_ents l)) n))"
proof -
  have "i \<le> rl_base l \<Longrightarrow> i \<le> lastIndex l \<Longrightarrow> sliceLog l i (Suc (lastIndex l)) n = Some (Inl ErrCompacted)"
    by (simp add: sliceLog_def mustCheckOutOfBounds_def firstIndex_eq Let_def)
  moreover have "rl_base l < i \<Longrightarrow> i \<le> lastIndex l \<Longrightarrow>
      take (Suc (lastIndex l) - i) (drop (i - Suc (rl_base l)) (rl_ents l)) = drop (i - Suc (rl_base l)) (rl_ents l)"
    using lastIndex_eq [OF inv] by simp
  ultimately show ?thesis using sliceLog_ok [OF inv, of i "Suc (lastIndex l)" n] by (auto simp: entriesFrom_def)
qed

text \<open>The entries sent from index \<open>i\<close> on are numbered from \<open>i\<close> on.\<close>

lemma entriesFrom_last:
  assumes inv: "view_inv l" and ents: "entriesFrom l i n = Some (Inr es)" "es \<noteq> []"
  shows "i \<le> e_Index (List.last es)" and "e_Index (List.last es) \<le> lastIndex l" and "i \<le> lastIndex l"
proof -
  let ?d = "drop (i - Suc (rl_base l)) (rl_ents l)"
  have i: "i \<le> lastIndex l" "rl_base l < i" and es: "es = limitSize ?d n"
    using ents entriesFrom_eq [OF inv, of i n] by (auto split: if_splits)
  have len: "length (rl_ents l) = lastIndex l - rl_base l" using lastIndex_eq [OF inv] by simp
  have cont: "contiguous (i - 1) ?d"
    using contiguous_drop [OF rl_contiguous [OF inv], of "i - Suc (rl_base l)"] i len by simp
  obtain k where k: "es = take k ?d" "k \<le> length ?d" using es limitSize_take by metis
  have "contiguous (i - 1) es" using cont k(1) by auto
  then have "e_Index (es ! (length es - 1)) = i + (length es - 1)"
    using ents(2) i(2) unfolding contiguous_iff by simp
  then have "e_Index (List.last es) = i + (length es - 1)" by (simp add: last_conv_nth [OF ents(2)])
  moreover have "length es \<le> Suc (lastIndex l) - i" using k len i by simp
  ultimately show "i \<le> e_Index (List.last es)" "e_Index (List.last es) \<le> lastIndex l" "i \<le> lastIndex l"
    using i by simp_all
qed

subsection \<open>The loop that sends everything\<close>

text \<open>What is left to send to a peer.\<close>

definition unsent :: "raft \<Rightarrow> progress \<Rightarrow> nat" where
  "unsent r pr = (if pr_State pr = StateReplicate then Suc (lastIndex (r_raftLog r)) - pr_Next pr
     else if pr_ProbeSent pr then 0 else 1)"

text \<open>A message queued along with a new progress of its receiver.\<close>

definition pushed :: "raft \<Rightarrow> nat \<Rightarrow> progress \<Rightarrow> message \<Rightarrow> raft" where
  "pushed r to pr m = (setProgress r to pr)\<lparr>r_msgs := r_msgs r @ [m]\<rparr>"

lemma pushed_fields [simp]: "r_raftLog (pushed r to pr m) = r_raftLog r" "progressOf (pushed r to pr m) to = Some pr"
  by (simp_all add: pushed_def setProgress_def)

lemma send_append: "\<exists>m. send (setProgress r to p) (appendMsg r to pr t es) = Some (pushed r to p m)"
proof -
  have "\<exists>r1. send (setProgress r to p) (appendMsg r to pr t es) = Some r1"
    by (simp add: send_def appendMsg_def isVoteMsg_def)
  then obtain r1 where r1: "send (setProgress r to p) (appendMsg r to pr t es) = Some r1" by blast
  then obtain m where "r1 = (setProgress r to p)\<lparr>r_msgs := r_msgs r @ [m]\<rparr>" using send_cases [OF r1] by auto
  then show ?thesis using r1 by (auto simp: pushed_def)
qed

text \<open>One round: either nothing is sent and nothing changes, or less is left.\<close>

lemma maybeSendAppend_round:
  assumes inv: "view_inv (r_raftLog r)" and bound: "lastIndex (r_raftLog r) < MaxUint64"
    and pr: "progressOf r to = Some pr" and w: "inflights_inv (pr_Inflights pr)"
  shows "maybeSendAppend r to False = Some (False, r) \<or>
    (\<exists>r1 pr1. maybeSendAppend r to False = Some (True, r1) \<and> r_raftLog r1 = r_raftLog r \<and>
       progressOf r1 to = Some pr1 \<and> inflights_inv (pr_Inflights pr1) \<and> unsent r1 pr1 < unsent r pr)"
proof -
  let ?l = "r_raftLog r"
  obtain t where t: "termAt ?l (sub64 (pr_Next pr) 1) = Some (Inr t)" using termAt_eq [OF inv] by blast
  obtain e where e: "entriesFrom ?l (pr_Next pr) (r_maxMsgSize r) = Some e" using entriesFrom_eq [OF inv] by blast
  define es where "es = (case e of Inl _ \<Rightarrow> [] | Inr es \<Rightarrow> es)"
  show ?thesis
  proof (cases "IsPaused pr \<or> es = []")
    case True
    then show ?thesis using pr t e by (auto simp: maybeSendAppend_def Let_def es_def)
  next
    case False
    then have ne: "es \<noteq> []" and np: "\<not> IsPaused pr" and e': "e = Inr es"
      by (auto simp: es_def split: sum.splits)
    note last = entriesFrom_last [OF inv e [unfolded e'] ne]
    show ?thesis
    proof (cases "pr_State pr")
      case StateProbe
      let ?p = "pr\<lparr>pr_ProbeSent := True\<rparr>"
      obtain m where m: "send (setProgress r to ?p) (appendMsg r to pr t es) = Some (pushed r to ?p m)"
        using send_append by blast
      have "maybeSendAppend r to False = Some (True, pushed r to ?p m)"
        using pr np t e e' ne StateProbe m by (simp add: maybeSendAppend_def)
      moreover have "unsent (pushed r to ?p m) ?p < unsent r pr"
        using StateProbe np by (simp add: unsent_def IsPaused_def)
      ultimately show ?thesis using w by (intro disjI2 exI conjI) auto
    next
      case StateReplicate
      let ?i = "e_Index (List.last es)"
      have "\<not> FullInflights (pr_Inflights pr)" using np StateReplicate by (simp add: IsPaused_def)
      then obtain w' where w': "AddInflights (pr_Inflights pr) ?i = Some w'" "inflights_inv w'"
        using AddInflights_ok [OF w] by blast
      let ?p = "(OptimisticUpdate pr ?i)\<lparr>pr_Inflights := w'\<rparr>"
      obtain m where m: "send (setProgress r to ?p) (appendMsg r to pr t es) = Some (pushed r to ?p m)"
        using send_append by blast
      have "maybeSendAppend r to False = Some (True, pushed r to ?p m)"
        using pr np t e e' ne StateReplicate m w' by (simp add: maybeSendAppend_def OptimisticUpdate_def Let_def)
      moreover have "add64 ?i 1 = Suc ?i" using last(2) bound by (simp add: MaxUint64_def)
      then have "unsent (pushed r to ?p m) ?p < unsent r pr"
        using StateReplicate last by (simp add: unsent_def OptimisticUpdate_def)
      ultimately show ?thesis using w' by (intro disjI2 exI conjI) auto
    next
      case StateSnapshot
      then show ?thesis using np by (simp add: IsPaused_def)
    qed
  qed
qed

lemma sendAllAppends_ends:
  assumes "view_inv (r_raftLog r)" and "lastIndex (r_raftLog r) < MaxUint64"
    and "progressOf r to = Some pr" and "inflights_inv (pr_Inflights pr)"
  shows "\<exists>r'. sendAllAppends r to = Some r' \<and> maybeSendAppend r' to False = Some (False, r')"
  using assms
proof (induction "unsent r pr" arbitrary: r pr rule: less_induct)
  case less
  note unfold = sendAllAppends.simps [of r to]
  from maybeSendAppend_round [OF less.prems] show ?case
  proof
    assume "maybeSendAppend r to False = Some (False, r)"
    then show ?thesis by (simp add: unfold)
  next
    assume "\<exists>r1 pr1. maybeSendAppend r to False = Some (True, r1) \<and> r_raftLog r1 = r_raftLog r \<and>
       progressOf r1 to = Some pr1 \<and> inflights_inv (pr_Inflights pr1) \<and> unsent r1 pr1 < unsent r pr"
    then obtain r1 pr1 where r1: "maybeSendAppend r to False = Some (True, r1)" "r_raftLog r1 = r_raftLog r"
       "progressOf r1 to = Some pr1" "inflights_inv (pr_Inflights pr1)" "unsent r1 pr1 < unsent r pr" by blast
    then show ?thesis using less.hyps [of r1 pr1] less.prems(1,2) by (simp add: unfold)
  qed
qed

subsection \<open>Committing\<close>

definition quorum_at :: "raft \<Rightarrow> nat \<Rightarrow> bool" where
  "quorum_at r i \<longleftrightarrow> is_joint_quorum (pt_Voters (r_prs r)) {v. \<exists>pr. progressOf r v = Some pr \<and> i \<le> pr_Match pr}"

text \<open>The commit index stays, or moves to an entry of the current term that a quorum has.\<close>

definition commit_ok :: "raft \<Rightarrow> raft \<Rightarrow> bool" where
  "commit_ok r r' \<longleftrightarrow> rl_committed (r_raftLog r') = rl_committed (r_raftLog r) \<or>
     rl_committed (r_raftLog r) < rl_committed (r_raftLog r') \<and>
     rl_term (r_raftLog r') (rl_committed (r_raftLog r')) = r_Term r' \<and> quorum_at r' (rl_committed (r_raftLog r'))"

definition extends :: "raftLog \<Rightarrow> raftLog \<Rightarrow> bool" where
  "extends l l' \<longleftrightarrow> log_inv l' \<and> same_frame l l' \<and> (\<exists>es. rl_ents l' = rl_ents l @ es)"

definition leader_ok :: "raft \<Rightarrow> raft \<Rightarrow> bool" where
  "leader_ok r r' \<longleftrightarrow> extends (r_raftLog r) (r_raftLog r') \<and> commit_ok r r'"

lemma rl_term_known: "rl_term l i \<noteq> 0 \<Longrightarrow> log_inv l \<Longrightarrow> i \<le> lastIndex l"
  using log_invD [of l] by (auto simp: rl_term_def split: if_splits)

lemma maybeCommit_eq:
  assumes c: "maybeCommit r = Some (b, r')" and inv: "log_inv (r_raftLog r)" and t: "r_Term r \<noteq> 0"
    and ids: "JointIDs (pt_Voters (r_prs r)) \<noteq> {||}" and bound: "lastIndex (r_raftLog r) \<le> MaxUint64"
  shows "leader_ok r r'" and "rl_ents (r_raftLog r') = rl_ents (r_raftLog r)"
    and "b \<longleftrightarrow> rl_committed (r_raftLog r) < rl_committed (r_raftLog r')"
    and "r' = r\<lparr>r_raftLog := r_raftLog r'\<rparr>"
proof -
  let ?l = "r_raftLog r" and ?i = "Committed (r_prs r)"
  have "leader_ok r r' \<and> rl_ents (r_raftLog r') = rl_ents ?l \<and>
      (b \<longleftrightarrow> rl_committed ?l < rl_committed (r_raftLog r')) \<and> r' = r\<lparr>r_raftLog := r_raftLog r'\<rparr>"
  proof (cases "rl_committed ?l < ?i \<and> rl_term ?l ?i = r_Term r")
    case True
    then have r': "b" "r' = r\<lparr>r_raftLog := ?l\<lparr>rl_committed := ?i\<rparr>\<rparr>"
      using c l_maybeCommit_eq [OF inv t, of ?i] by (simp_all add: maybeCommit_def)
    have i: "?i \<le> lastIndex ?l" using True t rl_term_known [OF _ inv] by simp
    then have "quorum_at r ?i" using Committed_ge_iff [OF ids, of ?i] True bound by (simp add: quorum_at_def)
    moreover have "log_inv (?l\<lparr>rl_committed := ?i\<rparr>)"
      using inv True i log_invD [OF inv] by (simp add: log_inv_def)
    ultimately show ?thesis
      using True r' by (simp add: leader_ok_def extends_def commit_ok_def quorum_at_def same_frame_def)
  next
    case False
    then have "\<not> b" "r' = r"
      using c l_maybeCommit_eq [OF inv t, of ?i] by (auto simp: maybeCommit_def)
    then show ?thesis using inv by (simp add: leader_ok_def extends_def commit_ok_def same_frame_def)
  qed
  then show "leader_ok r r'" "rl_ents (r_raftLog r') = rl_ents ?l"
    "b \<longleftrightarrow> rl_committed ?l < rl_committed (r_raftLog r')" "r' = r\<lparr>r_raftLog := r_raftLog r'\<rparr>" by simp_all
qed

subsection \<open>Sending\<close>

definition sent_only :: "raft \<Rightarrow> raft \<Rightarrow> bool" where
  "sent_only r r' \<longleftrightarrow> r_raftLog r' = r_raftLog r \<and> r_Term r' = r_Term r \<and>
     pt_Config (r_prs r') = pt_Config (r_prs r) \<and>
     (\<forall>v. map_option pr_Match (progressOf r' v) = map_option pr_Match (progressOf r v))"

lemma sent_only_refl [simp]: "sent_only r r"
  by (simp add: sent_only_def)

lemma sent_only_trans: "sent_only a b \<Longrightarrow> sent_only b c \<Longrightarrow> sent_only a c"
  by (simp add: sent_only_def)

lemma sent_only_after: "sent_only b c \<Longrightarrow> sent_only a b \<Longrightarrow> sent_only a c"
  by (rule sent_only_trans)

lemma sent_only_updates [simp]:
  "sent_only a (r\<lparr>r_readOnly := x1\<rparr>) = sent_only a r"
  "sent_only a (r\<lparr>r_readStates := x2\<rparr>) = sent_only a r"
  "sent_only a (r\<lparr>r_pendingReadIndexMessages := x3\<rparr>) = sent_only a r"
  "sent_only a (r\<lparr>r_nodeLatency := x4\<rparr>) = sent_only a r"
  "sent_only a (r\<lparr>r_electionElapsed := x5\<rparr>) = sent_only a r"
  "sent_only a (r\<lparr>r_leadTransferee := x6\<rparr>) = sent_only a r"
  "sent_only a (r\<lparr>r_pendingConfIndex := x7\<rparr>) = sent_only a r"
  by (simp_all add: sent_only_def)

lemma sent_only_setProgress [simp]:
  "map_option pr_Match (progressOf r v) = Some (pr_Match pr) \<Longrightarrow> sent_only a (setProgress r v pr) = sent_only a r"
proof -
  assume m: "map_option pr_Match (progressOf r v) = Some (pr_Match pr)"
  have "map_option pr_Match (progressOf (setProgress r v pr) w) = map_option pr_Match (progressOf r w)" for w
    using m by (cases "w = v") auto
  moreover have "pt_Config (r_prs (setProgress r v pr)) = pt_Config (r_prs r)" by (simp add: setProgress_def)
  ultimately show ?thesis by (simp only: sent_only_def setProgress_fields)
qed

lemma acked_cong:
  assumes "\<And>v. map_option pr_Match (progressOf r' v) = map_option pr_Match (progressOf r v)"
  shows "{v. \<exists>pr. progressOf r' v = Some pr \<and> i \<le> pr_Match pr} = {v. \<exists>pr. progressOf r v = Some pr \<and> i \<le> pr_Match pr}"
proof -
  have "(\<exists>pr. progressOf s v = Some pr \<and> i \<le> pr_Match pr) \<longleftrightarrow> (\<exists>x. map_option pr_Match (progressOf s v) = Some x \<and> i \<le> x)"
    for s v by auto
  then show ?thesis by (simp only: assms)
qed

lemma sent_only_leader_ok: "sent_only r1 r' \<Longrightarrow> leader_ok r r1 \<Longrightarrow> leader_ok r r'"
  using acked_cong [of r' r1] unfolding sent_only_def leader_ok_def commit_ok_def quorum_at_def by simp

lemma leader_ok_refl: "log_inv (r_raftLog r) \<Longrightarrow> leader_ok r r"
  by (simp add: leader_ok_def extends_def commit_ok_def same_frame_def)

lemma same_log_leader_ok: "log_inv (r_raftLog r) \<Longrightarrow> r_raftLog r' = r_raftLog r \<Longrightarrow> leader_ok r r'"
  by (simp add: leader_ok_def extends_def commit_ok_def same_frame_def)

text \<open>Every sending operation.\<close>

lemma send_sent: "send r m = Some r' \<Longrightarrow> sent_only a r \<Longrightarrow> sent_only a r'"
  by (drule send_cases) (auto simp: sent_only_def)

lemma maybeSendAppend_sent: "maybeSendAppend r to b = Some (sent, r') \<Longrightarrow> sent_only r r'"
  by (auto simp: maybeSendAppend_def Let_def OptimisticUpdate_def BecomeSnapshot_def ResetState_def
      split: Option.bind_splits if_splits sum.splits progressState.splits intro: send_sent)

lemma sendAppend_sent: "sendAppend r to = Some r' \<Longrightarrow> sent_only r r'"
  by (auto simp: sendAppend_def split: Option.bind_splits intro: maybeSendAppend_sent)

lemma sendHeartbeat_sent: "sendHeartbeat r to ctx = Some r' \<Longrightarrow> sent_only r r'"
  by (auto simp: sendHeartbeat_def split: Option.bind_splits intro: send_sent)

lemma sendTimeoutNow_sent: "sendTimeoutNow r to = Some r' \<Longrightarrow> sent_only r r'"
  by (auto simp: sendTimeoutNow_def intro: send_sent)

lemma foldM_sent:
  assumes "foldM f r xs = Some r'" and "\<And>r x r'. f r x = Some r' \<Longrightarrow> sent_only r r'"
  shows "sent_only r r'"
  using foldM_rel [where R = sent_only, OF assms(1)] assms(2) sent_only_trans sent_only_refl by metis

lemma bcastAppend_sent: "bcastAppend r = Some r' \<Longrightarrow> sent_only r r'"
  unfolding bcastAppend_def by (erule foldM_sent) (auto split: if_splits intro: sendAppend_sent)

lemma bcastHeartbeatWithCtx_sent: "bcastHeartbeatWithCtx r ctx = Some r' \<Longrightarrow> sent_only r r'"
  unfolding bcastHeartbeatWithCtx_def by (erule foldM_sent) (auto split: if_splits intro: sendHeartbeat_sent)

lemma bcastHeartbeat_sent: "bcastHeartbeat r = Some r' \<Longrightarrow> sent_only r r'"
  by (auto simp: bcastHeartbeat_def Let_def split: if_splits intro: bcastHeartbeatWithCtx_sent)

lemma sendAllAppends_sent:
  assumes "sendAllAppends r to = Some r'"
  shows "sent_only r r'"
  using _ assms
proof (rule sendAllAppends.raw_induct [of "\<lambda>r to r'. sent_only r r'"])
  fix rec r to r'
  assume IH: "\<And>r to r'. rec r to = Some r' \<Longrightarrow> sent_only r r'"
    and body: "maybeSendAppend r to False \<bind> (\<lambda>(sent, r1). if sent then rec r1 to else Some r1) = Some r'"
  then obtain sent r1 where s: "maybeSendAppend r to False = Some (sent, r1)"
      "(if sent then rec r1 to else Some r1) = Some r'"
    by (auto split: Option.bind_splits)
  have "sent_only r1 r'" using s(2) IH by (auto split: if_splits)
  then show "sent_only r r'" using maybeSendAppend_sent [OF s(1)] sent_only_trans by blast
qed

lemma respondRead_sent: "respondRead r m = Some r' \<Longrightarrow> sent_only r r'"
  by (auto simp: respondRead_def responseToReadIndexReq_def split: Option.bind_splits if_splits intro: send_sent)

lemma sendMsgReadIndexResponse_sent: "sendMsgReadIndexResponse r m = Some r' \<Longrightarrow> sent_only r r'"
  by (auto simp: sendMsgReadIndexResponse_def split: readOnlyOption.splits Option.bind_splits
      intro: respondRead_sent sent_only_after [OF bcastHeartbeatWithCtx_sent])

lemma releasePending_sent: "releasePendingReadIndexMessages r = Some r' \<Longrightarrow> sent_only r r'"
  by (auto simp: releasePendingReadIndexMessages_def split: Option.bind_splits if_splits
      intro: sent_only_after [OF foldM_sent] sendMsgReadIndexResponse_sent)

lemma leaderReadIndex_sent: "leaderReadIndex r m = Some r' \<Longrightarrow> sent_only r r'"
  by (auto simp: leaderReadIndex_def split: Option.bind_splits if_splits intro: respondRead_sent sendMsgReadIndexResponse_sent)

lemma answerRead_sent: "answerRead r rs = Some r' \<Longrightarrow> sent_only r r'"
  by (auto simp: answerRead_def Let_def split: if_splits Option.bind_splits intro: send_sent)

lemma ackRead_sent: "ackRead r m = Some r' \<Longrightarrow> sent_only r r'"
  by (auto simp: ackRead_def Let_def split: if_splits prod.splits Option.bind_splits
      intro: sent_only_after [OF foldM_sent] answerRead_sent)

subsection \<open>The handlers of a leader\<close>

lemma ackTransition_match: "ackTransition pr i = Some pr' \<Longrightarrow> pr_Match pr' = pr_Match pr"
  by (auto simp: ackTransition_def BecomeReplicate_def BecomeProbe_def ResetState_def Let_def
      split: if_splits Option.bind_splits)

text \<open>A log that an own proposal extends.\<close>

lemma stampEntries_contiguous: "contiguous b (stampEntries t (Suc b) es)" "length (stampEntries t i es) = length es"
  by (induction es arbitrary: b i) simp_all

lemma appendLog_extends:
  assumes "appendLog l (stampEntries t (lastIndex l + 1) es) = Some (li, l')" and inv: "log_inv l"
  shows "extends l l'" and "rl_committed l' = rl_committed l"
    and "rl_ents l' = rl_ents l @ stampEntries t (lastIndex l + 1) es"
proof -
  let ?es = "stampEntries t (lastIndex l + 1) es"
  have "extends l l' \<and> rl_committed l' = rl_committed l \<and> rl_ents l' = rl_ents l @ ?es"
  proof (cases "?es = []")
    case True
    then show ?thesis using assms by (simp add: appendLog_def extends_def same_frame_def)
  next
    case False
    have cont: "contiguous (lastIndex l) ?es" using stampEntries_contiguous(1) by simp
    have "length (rl_ents l) = lastIndex l - rl_base l" using lastIndex_eq [OF log_invD(1) [OF inv]] by simp
    then show ?thesis
      using appendLog_ok [OF inv cont False log_invD(3) [OF inv]] assms(1) by (auto simp: extends_def)
  qed
  then show "extends l l'" "rl_committed l' = rl_committed l" "rl_ents l' = rl_ents l @ ?es" by simp_all
qed

lemma extends_trans: "extends a b \<Longrightarrow> extends b c \<Longrightarrow> extends a c"
  by (auto simp: extends_def same_frame_def)

lemma extends_lastIndex: "log_inv l \<Longrightarrow> extends l l' \<Longrightarrow> lastIndex l \<le> lastIndex l'"
  using lastIndex_eq log_invD(1) by (auto simp: extends_def same_frame_def)

lemma extends_leader_ok:
  "extends (r_raftLog r) (r_raftLog r1) \<Longrightarrow> rl_committed (r_raftLog r1) = rl_committed (r_raftLog r) \<Longrightarrow>
     leader_ok r1 r' \<Longrightarrow> leader_ok r r'"
  unfolding leader_ok_def commit_ok_def using extends_trans by simp

lemma extends_refl: "log_inv l \<Longrightarrow> extends l l"
  by (simp add: extends_def same_frame_def)

lemma maybeCommit_lastIndex: "maybeCommit r = Some (b, r') \<Longrightarrow> lastIndex (r_raftLog r') = lastIndex (r_raftLog r)"
  by (auto simp: maybeCommit_def l_maybeCommit_def commitTo_eq Let_def split: Option.bind_splits if_splits)

text \<open>What the handlers ask of the state of a leader.\<close>

definition leading :: "raft \<Rightarrow> bool" where
  "leading r \<longleftrightarrow> log_inv (r_raftLog r) \<and> r_Term r \<noteq> 0 \<and> JointIDs (pt_Voters (r_prs r)) \<noteq> {||}"

lemma leading_sent: "sent_only r r' \<Longrightarrow> leading r' = leading r"
  by (simp add: leading_def sent_only_def)

lemma appendEntry_leader:
  assumes "appendEntry r es = Some (b, r')" and ld: "leading r" and bound: "lastIndex (r_raftLog r') \<le> MaxUint64"
  shows "leader_ok r r'"
  using assms(1)
proof (cases rule: appendEntry_cases)
  case dropped
  then show ?thesis using increaseUncommittedSize_keep same_log_leader_ok ld unfolding leading_def by blast
next
  case (accepted r1 li l pr c)
  let ?r2 = "setProgress (r1\<lparr>r_raftLog := l\<rparr>) (r_id r) (snd (MaybeUpdate pr li))"
  have inv: "log_inv (r_raftLog r)" using ld by (simp add: leading_def)
  note l = appendLog_extends [OF accepted(3) inv]
  have same: "r_Term ?r2 = r_Term r" "pt_Config (r_prs ?r2) = pt_Config (r_prs r)" "r_raftLog ?r2 = l"
    using accepted(2) by (auto simp: increaseUncommittedSize_def Let_def setProgress_def split: if_splits)
  have "log_inv l" using l(1) by (simp add: extends_def)
  then have "leader_ok ?r2 r'"
    using maybeCommit_eq(1) [OF accepted(5)] same ld bound maybeCommit_lastIndex [OF accepted(5)]
    by (simp add: leading_def)
  then show ?thesis using extends_leader_ok [of r ?r2 r'] l(1,2) same(3) by simp
qed

lemma proposeConfChanges_sent: "proposeConfChanges r i es = Some (es', r') \<Longrightarrow> sent_only r r'"
proof (induction es arbitrary: r i es')
  case (Cons e es)
  then show ?case
    by (auto split: Option.bind_splits option.splits if_splits intro: sent_only_after [OF Cons.IH])
qed simp

lemma leader_ok_sent: "sent_only r r1 \<Longrightarrow> leader_ok r1 r' \<Longrightarrow> leader_ok r r'"
  by (simp add: leader_ok_def commit_ok_def sent_only_def)

lemma sent_leader_ok: "sent_only r r' \<Longrightarrow> log_inv (r_raftLog r) \<Longrightarrow> leader_ok r r'"
  by (simp add: same_log_leader_ok sent_only_def)

lemma leaderProp_leader:
  assumes "leaderProp r m = Some (err, r')" and ld: "leading r" and bound: "lastIndex (r_raftLog r') \<le> MaxUint64"
  shows "leader_ok r r'"
proof -
  have inv: "log_inv (r_raftLog r)" using ld by (simp add: leading_def)
  consider "r' = r" | "send r (m\<lparr>m_To := r_leadTransferee r\<rparr>) = Some r'"
    | es r1 acc r2 where "proposeConfChanges r 0 (m_Entries m) = Some (es, r1)" "appendEntry r1 es = Some (acc, r2)"
        "r' = r2 \<or> bcastAppend r2 = Some r'"
    using assms(1) by (auto simp: leaderProp_def bind_eq_Some_conv split: if_split_asm)
  then show ?thesis
  proof cases
    case 1
    then show ?thesis using leader_ok_refl [OF inv] by simp
  next
    case 2
    then have "sent_only r r'" by (rule send_sent) simp
    then show ?thesis using inv by (rule sent_leader_ok)
  next
    case 3
    have s: "sent_only r r1" by (rule proposeConfChanges_sent [OF 3(1)])
    have s2: "sent_only r2 r'" using 3(3) bcastAppend_sent by auto
    then have "lastIndex (r_raftLog r2) \<le> MaxUint64" using bound by (simp add: sent_only_def)
    then have "leader_ok r1 r2" using appendEntry_leader [OF 3(2)] leading_sent [OF s] ld by simp
    then show ?thesis using leader_ok_sent [OF s] sent_only_leader_ok [OF s2] by blast
  qed
qed

lemma leaderAppRejected_sent: "leaderAppRejected r m pr = Some r' \<Longrightarrow> map_option pr_Match (progressOf r (m_From m)) = Some (pr_Match pr) \<Longrightarrow>
    sent_only r r'"
proof -
  assume a: "leaderAppRejected r m pr = Some r'" and m: "map_option pr_Match (progressOf r (m_From m)) = Some (pr_Match pr)"
  obtain b pr1 where d: "MaybeDecrTo pr (m_Index m) (m_RejectHint m) = (b, pr1)" by fastforce
  then have "pr_Match pr1 = pr_Match pr" using MaybeDecrTo_match [of pr "m_Index m" "m_RejectHint m"] by simp
  moreover have "pr_Match (BecomeProbe pr1) = pr_Match pr1"
    by (simp add: BecomeProbe_def ResetState_def Let_def)
  ultimately show ?thesis using a m d
    by (auto simp: leaderAppRejected_def Let_def split: bool.splits intro: sent_only_after [OF sendAppend_sent])
qed

lemma leaderAppAcked_leader:
  assumes "leaderAppAcked r m pr = Some r'" and ld: "leading r" and bound: "lastIndex (r_raftLog r') \<le> MaxUint64"
  shows "leader_ok r r'"
  using assms(1)
proof (cases rule: leaderAppAcked_cases)
  case (stale pr1)
  then show ?thesis using ld same_log_leader_ok [of r r'] by (simp add: leading_def)
next
  case (acked pr1 pr2 cm r1 r2 r3 pr3)
  let ?r0 = "setProgress r (m_From m) pr2"
  have "sent_only r1 r2"
    using acked(4) by (auto split: if_splits Option.bind_splits
        intro: sendAppend_sent sent_only_trans [OF releasePending_sent bcastAppend_sent])
  moreover have "sent_only r3 r'" using acked(7) by (auto split: if_splits intro: sendTimeoutNow_sent)
  ultimately have s: "sent_only r1 r'" using sendAllAppends_sent [OF acked(5)] sent_only_trans by blast
  then have "lastIndex (r_raftLog ?r0) \<le> MaxUint64"
    using bound maybeCommit_lastIndex [OF acked(3)] by (simp add: sent_only_def)
  moreover have "pt_Config (r_prs ?r0) = pt_Config (r_prs r)" by (simp add: setProgress_def)
  ultimately have "leader_ok ?r0 r1" using maybeCommit_eq(1) [OF acked(3)] ld by (simp add: leading_def)
  then have "leader_ok r r1"
    using extends_leader_ok [of r ?r0 r1] extends_refl ld by (simp add: leading_def)
  then show ?thesis by (rule sent_only_leader_ok [OF s])
qed

lemma leaderHeartbeatResp_sent:
  assumes "leaderHeartbeatResp r m pr = Some r'" and m: "progressOf r (m_From m) = Some pr"
  shows "sent_only r r'"
proof -
  let ?pr1 = "pr\<lparr>pr_RecentActive := True, pr_ProbeSent := False\<rparr>" and ?r1 = "updateNodeLatency r m"
  obtain pr2 r3 where pr2: "(if pr_State ?pr1 = StateReplicate \<and> FullInflights (pr_Inflights ?pr1)
        then do { w \<leftarrow> FreeFirstOne (pr_Inflights ?pr1); Some (?pr1\<lparr>pr_Inflights := w\<rparr>) } else Some ?pr1) = Some pr2"
    and r3: "(if pr_Match pr2 < lastIndex (r_raftLog (setProgress ?r1 (m_From m) pr2))
        then sendAppend (setProgress ?r1 (m_From m) pr2) (m_From m)
        else Some (setProgress ?r1 (m_From m) pr2)) = Some r3" and a: "ackRead r3 m = Some r'"
    using assms unfolding leaderHeartbeatResp_def Let_def bind_eq_Some_conv by blast
  have match: "pr_Match pr2 = pr_Match pr" using pr2 by (auto split: if_splits Option.bind_splits)
  have "sent_only r ?r1" "progressOf ?r1 (m_From m) = Some pr"
    using m by (simp_all add: updateNodeLatency_def Let_def)
  then have "sent_only r (setProgress ?r1 (m_From m) pr2)" using match by simp
  moreover have "sent_only (setProgress ?r1 (m_From m) pr2) r3"
    using r3 by (auto split: if_splits intro: sendAppend_sent)
  ultimately show ?thesis using ackRead_sent [OF a] sent_only_trans by blast
qed

lemma leaderTransferLeader_sent:
  assumes "leaderTransferLeader r m pr = Some r'" shows "sent_only r r'"
proof -
  define r1 where "r1 = (if r_leadTransferee r \<noteq> 0 then abortLeaderTransfer r else r)"
  let ?r2 = "r1\<lparr>r_electionElapsed := 0, r_leadTransferee := m_From m\<rparr>"
  have k1: "sent_only r r1" by (simp add: r1_def abortLeaderTransfer_def)
  have "r' = r \<or> r' = r1 \<or> sendTimeoutNow ?r2 (m_From m) = Some r' \<or> sendAppend ?r2 (m_From m) = Some r'"
    using assms unfolding leaderTransferLeader_def Let_def r1_def [symmetric] by (simp split: if_split_asm)
  then have "r' = r \<or> r' = r1 \<or> sent_only ?r2 r'" using sendTimeoutNow_sent sendAppend_sent by blast
  moreover have "sent_only r ?r2" using k1 by simp
  then have "sent_only ?r2 r' \<Longrightarrow> sent_only r r'" by (rule sent_only_trans)
  ultimately show ?thesis using k1 by auto
qed

lemma leaderCheckQuorum_log:
  assumes "leaderCheckQuorum r = Some r'" shows "r_raftLog r' = r_raftLog r"
proof -
  define r1 where "r1 = (case progressOf r (r_id r) of
      Some pr \<Rightarrow> setProgress r (r_id r) (pr\<lparr>pr_RecentActive := True\<rparr>) | None \<Rightarrow> r)"
  obtain r2 where r2: "(if \<not> QuorumActive (r_prs r1) then becomeFollower r1 (r_Term r1) 0 else Some r1) = Some r2"
    and r': "Some (r2\<lparr>r_prs := VisitUpdate (\<lambda>v pr. if v \<noteq> r_id r2 then pr\<lparr>pr_RecentActive := False\<rparr> else pr)
       (r_prs r2)\<rparr>) = Some r'"
    using assms unfolding leaderCheckQuorum_def r1_def [symmetric] Let_def bind_eq_Some_conv by blast
  have "r_raftLog r2 = r_raftLog r1" using r2 becomeFollower_fields(4) by (auto split: if_splits)
  then show ?thesis using r' by (auto simp: r1_def split: option.splits)
qed

lemma stepLeaderPeer_leader:
  assumes "stepLeaderPeer r m pr = Some r'" and ld: "leading r" and bound: "lastIndex (r_raftLog r') \<le> MaxUint64"
    and pr: "progressOf r (m_From m) = Some pr"
  shows "leader_ok r r'"
proof -
  have inv: "log_inv (r_raftLog r)" using ld by (simp add: leading_def)
  consider (app) "leaderAppResp r m pr = Some r'" | (hb) "leaderHeartbeatResp r m pr = Some r'"
    | (tr) "leaderTransferLeader r m pr = Some r'" | (none) "r_raftLog r' = r_raftLog r"
    using assms(1) by (auto simp: stepLeaderPeer_def leaderSnapStatus_def leaderUnreachable_def Let_def
        split: messageType.splits if_splits)
  then show ?thesis
  proof cases
    case app
    then show ?thesis
      using leaderAppRejected_sent [of r m "pr\<lparr>pr_RecentActive := True\<rparr>" r'] leaderAppAcked_leader [OF _ ld bound]
        sent_leader_ok inv pr by (auto simp: leaderAppResp_def Let_def split: if_splits)
  next
    case hb
    then show ?thesis using leaderHeartbeatResp_sent [OF hb pr] inv by (simp add: sent_leader_ok)
  next
    case tr
    then show ?thesis using leaderTransferLeader_sent [OF tr] inv by (simp add: sent_leader_ok)
  next
    case none
    then show ?thesis using same_log_leader_ok inv by blast
  qed
qed

theorem stepLeader_ok:
  assumes "stepLeader r m = Some (err, r')" and ld: "leading r" and bound: "lastIndex (r_raftLog r') \<le> MaxUint64"
  shows "leader_ok r r'"
proof -
  have inv: "log_inv (r_raftLog r)" using ld by (simp add: leading_def)
  consider "bcastHeartbeat r = Some r'" | "leaderCheckQuorum r = Some r'" | "leaderProp r m = Some (err, r')"
    | "leaderReadIndex r m = Some r'" | "r' = r"
    | pr where "progressOf r (m_From m) = Some pr" "stepLeaderPeer r m pr = Some r'"
    using assms(1) by (auto simp: stepLeader_def split: messageType.splits Option.bind_splits option.splits)
  then show ?thesis
  proof cases
    case 1
    then show ?thesis using bcastHeartbeat_sent inv by (simp add: sent_leader_ok)
  next
    case 2
    then show ?thesis using leaderCheckQuorum_log same_log_leader_ok inv by blast
  next
    case 3
    then show ?thesis using leaderProp_leader ld bound by blast
  next
    case 4
    then show ?thesis using leaderReadIndex_sent inv by (simp add: sent_leader_ok)
  next
    case 5
    then show ?thesis using leader_ok_refl inv by simp
  next
    case 6
    then show ?thesis using stepLeaderPeer_leader ld bound by blast
  qed
qed

end
