(* ===== verification/RttFacts.thy ===== *)
theory RttFacts
  imports Replication
begin

text \<open>
  The measurements of round trips and what becomes of them: which value is stored, which value the
  \<open>median\<close> is, how the election timeout depends on it, and whom a leader can choose as its successor.
\<close>

subsection \<open>Integers are exact up to 53 bits\<close>

lemma roundHalfEven_int [simp]: "roundHalfEven (of_int n) = n"
  by (simp add: roundHalfEven_def)

lemma ratLog2_small:
  assumes "0 < n" and "n < 2 ^ 53"
  shows "ratLog2 (of_int n) \<le> 52"
proof -
  have q: "quotient_of (of_int n) = (n, 1)" by (simp add: quotient_of_int)
  have "bitlen n \<le> 53" using assms bitlen_le_iff_power [of n 53] by simp
  moreover have "bitlen (1 :: int) = 1" by (simp add: bitlen_def floorlog_def)
  ultimately show ?thesis by (simp add: ratLog2_def q Let_def)
qed

lemma floatOfInt_exact:
  assumes "\<bar>n\<bar> < 2 ^ 53"
  shows "floatOfInt n = of_int n"
proof (cases "n = 0")
  case False
  define k where "k = ratLog2 \<bar>of_int n\<bar>"
  have "ratLog2 (of_int \<bar>n\<bar>) \<le> 52" using assms False by (intro ratLog2_small) auto
  then have k: "k \<le> 52" by (simp add: k_def)
  obtain c :: int where c: "of_int n / pow2 (k - 52) = of_int c" and pos: "pow2 (k - 52) \<noteq> 0"
  proof (cases "k = 52")
    case True
    then show ?thesis using that [of n] by (simp add: pow2_def)
  next
    case False
    then show ?thesis using that [of "n * 2 ^ nat (52 - k)"] k by (simp add: pow2_def)
  qed
  have "of_int c * pow2 (k - 52) = of_int n" using c pos by (simp add: field_simps)
  then show ?thesis using False c by (simp add: floatOfInt_def float64_def k_def [symmetric] Let_def)
qed (simp add: floatOfInt_def float64_def)

subsection \<open>Truncating division is monotone\<close>

lemma sdiv_mono:
  assumes "a \<le> b" and "0 < c" shows "a sdiv c \<le> b sdiv (c :: int)"
proof -
  consider "0 \<le> a" | "a < 0" "0 \<le> b" | "b < 0" using assms(1) by linarith
  then show ?thesis
  proof cases
    case 1
    then show ?thesis using assms by (auto simp: signed_divide_int_def sgn_if zdiv_mono1 pos_imp_zdiv_nonneg_iff)
  next
    case 2
    then have "0 \<le> (- a) div c" "0 \<le> b div c" using assms(2) by (simp_all add: pos_imp_zdiv_nonneg_iff)
    then show ?thesis using 2 assms(2) by (auto simp: signed_divide_int_def sgn_if)
  next
    case 3
    have "(- b) div c \<le> (- a) div c" using assms by (simp add: zdiv_mono1)
    then show ?thesis using 3 assms by (auto simp: signed_divide_int_def sgn_if)
  qed
qed

lemma Min_sdiv_Max: "xs \<noteq> [] \<Longrightarrow> Min (set xs) sdiv 100 \<le> Max (set xs) sdiv (100 :: int)"
  by (rule sdiv_mono) (simp_all add: Min_le_iff)

subsection \<open>The median\<close>

lemma calculateMedian_Nil: "calculateMedian [] n = None"
  by (simp add: calculateMedian_def goIndex_def)

lemma calculateMedian_min:
  assumes "values \<noteq> []"
  shows "calculateMedian values n = Some (floatOfInt (Min (set values)))"
proof -
  have "sort values ! 0 = Min (set values)"
  proof -
    have "sort values \<noteq> []" using assms by (metis set_empty set_sort)
    then obtain x ys where xs: "sort values = x # ys" by (cases "sort values") auto
    have "sorted (x # ys)" by (metis xs sorted_sort)
    then have "Min (set (x # ys)) = x" by (intro Min_eqI) auto
    then show ?thesis using xs by (metis nth_Cons_0 set_sort)
  qed
  then show ?thesis using assms by (simp add: calculateMedian_def)
qed

subsection \<open>What a measurement does\<close>

lemma timeSub_range: "- (2 ^ 63) \<le> timeSub t s \<and> timeSub t s < 2 ^ 63"
  by (auto simp: timeSub_def split: option.splits)

lemma sdiv_thousand:
  assumes "- (2 ^ 63) \<le> t" and "t < 2 ^ 63"
  shows "- (2 ^ 59) \<le> t sdiv 1000" and "t sdiv 1000 \<le> (2 ^ 59 :: int)"
  using assms by (auto simp: signed_divide_int_def sgn_if abs_if)

lemma sdiv_cancel: "(10 * e) sdiv 10 = (e :: int)"
  by (simp add: signed_divide_int_def abs_mult sgn_mult sgn_mult_abs)

text \<open>The value stored is the new measurement alone: the weights 2 and 8 are both given to it.\<close>

lemma smoothed_eq:
  assumes "- (2 ^ 59) \<le> e" and "e \<le> (2 ^ 59 :: int)"
  shows "i64 (i64 (e * 2) + i64 (e * 8)) sdiv 10 = e"
proof -
  have "i64 (e * 2) = e * 2" "i64 (e * 8) = e * 8" "i64 (e * 2 + e * 8) = e * 2 + e * 8"
    using assms by (simp_all add: i64_small)
  then show ?thesis using sdiv_cancel [of e] by (simp add: algebra_simps)
qed

definition measured :: "raft \<Rightarrow> nat \<Rightarrow> int" where
  "measured r v = timeSub (fst (Now r)) (rtt_lastProbingTime (rttOf r v)) sdiv 1000"

lemma Now_fields: "Now r = (t, r1) \<Longrightarrow> r1 = r\<lparr>r_env := r_env r1\<rparr>"
  by (auto simp: Now_def Let_def)

text \<open>The steps of \<open>calcRtt\<close>: the maps after the measurement, then the election timeout.\<close>

definition rttAfter :: "raft \<Rightarrow> nat \<Rightarrow> raft" where
  "rttAfter r v = (snd (Now r))\<lparr>r_rttMap_old := fmupd v (rttOf r v) (r_rttMap_old r),
     r_rttMap := fmupd v ((rttOf r v)\<lparr>rtt_isProbed := False, rtt_timeStamp := measured r v\<rparr>) (r_rttMap r)\<rparr>"

lemma calcRtt_eq:
  "calcRtt r v = (let r2 = rttAfter r v; n = length (VoterNodes (r_prs r2)); values = rttValues r2 in
     if length values < n div 2
     then do { (k, r3) \<leftarrow> Intn r2 (r_electionTimeout r2);
               Some (r3\<lparr>r_randomizedElectionTimeout := r_electionTimeout r2 + k\<rparr>) }
     else do { median \<leftarrow> calculateMedian values n;
               let penalty = truncFloat median sdiv 100;
               Some (r2\<lparr>r_electionPenaltyTime := penalty,
                        r_randomizedElectionTimeout := r_electionTimeout r2 + penalty\<rparr>) })"
proof -
  obtain t r1 where n: "Now r = (t, r1)" by fastforce
  then have r1: "r1 = r\<lparr>r_env := r_env r1\<rparr>" by (rule Now_fields)
  have same: "rttOf r1 v = rttOf r v" "r_rttMap_old r1 = r_rttMap_old r" "r_rttMap r1 = r_rttMap r"
    by (subst r1, simp add: rttOf_def)+
  let ?e = "timeSub t (rtt_lastProbingTime (rttOf r v)) sdiv 1000"
  have e: "?e = measured r v" by (simp add: measured_def n)
  have "i64 (i64 (?e * 2) + i64 (?e * 8)) sdiv 10 = ?e"
    using smoothed_eq sdiv_thousand timeSub_range by blast
  then have sm: "i64 (i64 (measured r v * 2) + i64 (measured r v * 8)) sdiv 10 = measured r v" unfolding e .
  show ?thesis unfolding calcRtt_def n prod.case Let_def same e rttAfter_def snd_conv
    by (simp add: sm same cong: if_cong)
qed

lemma rttAfter_fields [simp]: "r_electionTimeout (rttAfter r v) = r_electionTimeout r"
  "r_prs (rttAfter r v) = r_prs r"
  "rttOf (rttAfter r v) w = (if w = v then (rttOf r v)\<lparr>rtt_isProbed := False, rtt_timeStamp := measured r v\<rparr> else rttOf r w)"
  "rttOldOf (rttAfter r v) v = rttOf r v"
  by (simp_all add: rttAfter_def Now_def Let_def rttOf_def rttOldOf_def)

lemma rttOf_updates [simp]: "rttOf (r\<lparr>r_env := e\<rparr>) w = rttOf r w"
  "rttOf (r\<lparr>r_randomizedElectionTimeout := x\<rparr>) w = rttOf r w"
  "rttOf (r\<lparr>r_electionPenaltyTime := y\<rparr>) w = rttOf r w" "rttOldOf (r\<lparr>r_env := e\<rparr>) w = rttOldOf r w"
  "rttOldOf (r\<lparr>r_randomizedElectionTimeout := x\<rparr>) w = rttOldOf r w"
  "rttOldOf (r\<lparr>r_electionPenaltyTime := y\<rparr>) w = rttOldOf r w"
  by (simp_all add: rttOf_def rttOldOf_def)

lemma Intn_range: "Intn r n = Some (k, r1) \<Longrightarrow> r1 = r\<lparr>r_env := r_env r1\<rparr> \<and> 0 \<le> k \<and> k < n"
  by (auto simp: Intn_def Let_def split: if_splits)

lemma calcRtt_returns:
  assumes "length (VoterNodes (r_prs r)) div 2 \<le> length (rttValues (rttAfter r v))"
    and "rttValues (rttAfter r v) \<noteq> []"
  shows "\<exists>r'. calcRtt r v = Some r'"
  using assms calculateMedian_min [OF assms(2)] by (simp add: calcRtt_eq Let_def)

lemma rttValues_after:
  assumes "measured r v \<noteq> 0"
  shows "measured r v \<in> set (rttValues (rttAfter r v))"
proof -
  have "v |\<in>| fmdom (r_rttMap (rttAfter r v))" by (simp add: rttAfter_def)
  then show ?thesis using assms by (force simp: rttValues_def)
qed

lemma rttValues_stored: "t \<in> set (rttValues (rttAfter r v)) \<Longrightarrow> t = measured r v \<or> (\<exists>w. t = rtt_timeStamp (rttOf r w))"
proof -
  assume "t \<in> set (rttValues (rttAfter r v))"
  then obtain w where "t = rtt_timeStamp (rttOf (rttAfter r v) w)" by (auto simp: rttValues_def simp del: rttAfter_fields)
  then show ?thesis by (cases "w = v") auto
qed

lemma rttAfter_old [simp]: "w \<noteq> v \<Longrightarrow> rttOldOf (rttAfter r v) w = rttOldOf r w" "r_electionPenaltyTime (rttAfter r v) = r_electionPenaltyTime r"
  by (simp_all add: rttAfter_def Now_def Let_def rttOldOf_def)

text \<open>The ways a measurement can end: too few values, and a random timeout; or a penalty.\<close>

lemma calcRtt_cases:
  assumes "calcRtt r v = Some r'"
  obtains e p t where "r' = (rttAfter r v)\<lparr>r_env := e, r_electionPenaltyTime := p, r_randomizedElectionTimeout := t\<rparr>"
    "if length (rttValues (rttAfter r v)) < length (VoterNodes (r_prs r)) div 2
     then p = r_electionPenaltyTime r \<and> r_electionTimeout r \<le> t \<and> t < 2 * r_electionTimeout r
     else rttValues (rttAfter r v) \<noteq> [] \<and> p = truncFloat (floatOfInt (Min (set (rttValues (rttAfter r v))))) sdiv 100 \<and> t = r_electionTimeout r + p"
proof (cases "length (rttValues (rttAfter r v)) < length (VoterNodes (r_prs r)) div 2")
  case True
  then obtain k r3 where k: "Intn (rttAfter r v) (r_electionTimeout r) = Some (k, r3)"
      "r' = r3\<lparr>r_randomizedElectionTimeout := r_electionTimeout r + k\<rparr>"
    using assms by (auto simp: calcRtt_eq Let_def bind_eq_Some_conv)
  have "0 \<le> k" "k < r_electionTimeout r" using Intn_range [OF k(1)] by simp_all
  moreover have r3: "r3 = (rttAfter r v)\<lparr>r_env := r_env r3\<rparr>" using Intn_range [OF k(1)] by simp
  have "r' = (rttAfter r v)\<lparr>r_env := r_env r3, r_electionPenaltyTime := r_electionPenaltyTime (rttAfter r v),
      r_randomizedElectionTimeout := r_electionTimeout r + k\<rparr>" unfolding k(2) by (subst (1) r3) simp
  ultimately show ?thesis using that [where e = "r_env r3" and p = "r_electionPenaltyTime (rttAfter r v)" and t = "r_electionTimeout r + k"] True by simp
next
  case False
  let ?vals = "rttValues (rttAfter r v)"
  have ne: "?vals \<noteq> []" using assms False by (auto simp: calcRtt_eq Let_def calculateMedian_Nil)
  then have "r' = (rttAfter r v)\<lparr>r_electionPenaltyTime := truncFloat (floatOfInt (Min (set ?vals))) sdiv 100,
        r_randomizedElectionTimeout := r_electionTimeout r + truncFloat (floatOfInt (Min (set ?vals))) sdiv 100\<rparr>"
    using assms False by (simp add: calcRtt_eq Let_def calculateMedian_min)
  then show ?thesis using that [where e = "r_env (rttAfter r v)"] ne False by simp
qed

lemma calcRtt_exact:
  assumes "calcRtt r v = Some r'" and "\<And>w. \<bar>rtt_timeStamp (rttOf r w)\<bar> < 2 ^ 53" and "\<bar>measured r v\<bar> < 2 ^ 53"
  shows "if length (rttValues r') < length (VoterNodes (r_prs r)) div 2
     then r_electionPenaltyTime r' = r_electionPenaltyTime r \<and> r_electionTimeout r \<le> r_randomizedElectionTimeout r' \<and>
       r_randomizedElectionTimeout r' < 2 * r_electionTimeout r
     else rttValues r' \<noteq> [] \<and> r_electionPenaltyTime r' = Min (set (rttValues r')) sdiv 100 \<and>
       r_randomizedElectionTimeout r' = r_electionTimeout r + r_electionPenaltyTime r'"
proof -
  let ?vals = "rttValues (rttAfter r v)"
  have "\<bar>Min (set ?vals)\<bar> < 2 ^ 53" if "?vals \<noteq> []"
    using rttValues_stored [of "Min (set ?vals)" r v] that assms(2,3) by auto
  then have tr: "truncFloat (floatOfInt (Min (set ?vals))) = Min (set ?vals)" if "?vals \<noteq> []"
    using that by (simp add: floatOfInt_exact truncFloat_def)
  show ?thesis using assms(1)
  proof (cases rule: calcRtt_cases)
    case (1 e p t)
    have "rttValues r' = ?vals" unfolding 1(1) by (simp add: rttValues_def)
    then show ?thesis using 1 tr by (auto split: if_split_asm)
  qed
qed

lemma calcRtt_all:
  assumes "calcRtt r v = Some r'"
  shows "rttOf r' w = (if w = v then (rttOf r v)\<lparr>rtt_isProbed := False, rtt_timeStamp := measured r v\<rparr> else rttOf r w)"
    and "rttOldOf r' w = (if w = v then rttOf r v else rttOldOf r w)"
  using assms by (cases rule: calcRtt_cases; simp)+

lemma calcRtt_total:
  assumes "0 < r_electionTimeout r" and "measured r v \<noteq> 0"
  shows "\<exists>r'. calcRtt r v = Some r'"
proof (cases "length (rttValues (rttAfter r v)) < length (VoterNodes (r_prs r)) div 2")
  case True
  then show ?thesis using assms by (auto simp: calcRtt_eq Let_def Intn_def)
next
  case False
  have "rttValues (rttAfter r v) \<noteq> []" using rttValues_after [OF assms(2)] by auto
  then show ?thesis using calcRtt_returns False by simp
qed

subsection \<open>The election timeout\<close>

lemma resetTimeout_cases:
  assumes "resetRandomizedElectionTimeout r = Some r'"
  shows "r_electionPenaltyTime r \<noteq> 0 \<Longrightarrow>
      r_randomizedElectionTimeout r' = r_electionTimeout r + r_electionPenaltyTime r \<and> r_env r' = r_env r"
    and "r_electionPenaltyTime r = 0 \<Longrightarrow> r_electionTimeout r \<le> r_randomizedElectionTimeout r' \<and>
      r_randomizedElectionTimeout r' < 2 * r_electionTimeout r"
proof -
  show "r_electionPenaltyTime r \<noteq> 0 \<Longrightarrow>
      r_randomizedElectionTimeout r' = r_electionTimeout r + r_electionPenaltyTime r \<and> r_env r' = r_env r"
    using assms by (auto simp: resetRandomizedElectionTimeout_def)
  show "r_electionPenaltyTime r = 0 \<Longrightarrow> r_electionTimeout r \<le> r_randomizedElectionTimeout r' \<and>
      r_randomizedElectionTimeout r' < 2 * r_electionTimeout r"
    using assms Intn_range by (fastforce simp: resetRandomizedElectionTimeout_def bind_eq_Some_conv)
qed

lemma resetTimeout_returns: "(\<exists>r'. resetRandomizedElectionTimeout r = Some r') \<longleftrightarrow>
    r_electionPenaltyTime r \<noteq> 0 \<or> 0 < r_electionTimeout r"
  by (auto simp: resetRandomizedElectionTimeout_def Intn_def Let_def)

subsection \<open>The choice of a successor\<close>

lemma bestNodeLoop_choice:
  "bestNodeLoop md n vs (best, income) r = Some (b, r') \<Longrightarrow> b = best \<or> b \<in> set vs"
proof (induction md n vs "(best, income)" r arbitrary: best income rule: bestNodeLoop.induct)
  case (2 md n v vs best income r)
  then show ?case
    by (fastforce simp: Let_def bind_eq_Some_conv split: if_split_asm prod.splits)
qed simp

lemma CalBestNode_choice: "CalBestNode r bs = Some (b, r') \<Longrightarrow> b = r_id r \<or> b \<in> set bs"
  by (auto simp: CalBestNode_def Let_def bind_eq_Some_conv dest: bestNodeLoop_choice split: if_split_asm)

text \<open>The average delay that a node has reported, and the leader's own.\<close>

definition reportedAvg :: "raft \<Rightarrow> nat \<Rightarrow> int" where
  "reportedAvg r v =
     sum64 (map (\<lambda>k. the (fmlookup (latencyOf r v) k)) (sortedKeys (latencyOf r v))) 0
       sdiv int (fcard (fmdom (latencyOf r v)))"

definition ownAvg :: "raft \<Rightarrow> int" where
  "ownAvg r = sum64 (rttValues r) 0 sdiv int (length (rttValues r))"

lemma CalBetterNodes_better:
  assumes "CalBetterNodes r = (bs, r')" and "v \<in> set bs"
  shows "reportedAvg r v < ownAvg r" and "rttValues r \<noteq> []"
  using assms by (auto simp: CalBetterNodes_def Let_def reportedAvg_def ownAvg_def split: if_split_asm prod.splits)

subsection \<open>When round trips count as longer\<close>

lemma roundHalfEven_nonpos: "x \<le> 0 \<Longrightarrow> roundHalfEven x \<le> 0"
proof -
  assume x: "x \<le> 0"
  show ?thesis
  proof (cases "x = 0")
    case True
    then show ?thesis by (simp add: roundHalfEven_def)
  next
    case False
    then have "\<lfloor>x\<rfloor> < 0" using x by simp
    then show ?thesis by (auto simp: roundHalfEven_def Let_def)
  qed
qed

lemma pow2_pos [simp]: "0 < pow2 k"
  by (simp add: pow2_def)

lemma float64_nonpos:
  assumes "x \<le> 0" shows "float64 x \<le> 0"
proof (cases "x = 0")
  case False
  define u where "u = pow2 (ratLog2 \<bar>x\<bar> - 52)"
  have u: "0 < u" by (simp add: u_def)
  then have "x / u \<le> 0" using assms by (simp add: divide_nonpos_pos)
  then have "of_int (roundHalfEven (x / u)) \<le> (0 :: rat)" using roundHalfEven_nonpos by simp
  then show ?thesis using False u by (simp add: float64_def u_def [symmetric] Let_def mult_nonpos_nonneg)
qed (simp add: float64_def)

lemma threshold_pos: "0 < float64 (3 / 10000)"
  by code_simp

lemma sum64_exact:
  assumes "\<bar>acc\<bar> + sum_list (map abs xs) < 2 ^ 63"
  shows "sum64 xs acc = acc + sum_list xs"
  using assms
proof (induction xs arbitrary: acc)
  case (Cons x xs)
  have "0 \<le> sum_list (map abs xs)" by (rule sum_list_nonneg) auto
  then have "i64 (acc + x) = acc + x" "\<bar>acc + x\<bar> + sum_list (map abs xs) < 2 ^ 63" using Cons.prems by (auto simp: i64_small)
  then show ?case using Cons.IH [of "acc + x"] by simp
qed simp


text \<open>The sums of the stored round trips, the ones before, and the guard of a hand-over in terms of them.\<close>

definition newTotal :: "raft \<Rightarrow> int" where
  "newTotal r = (\<Sum>v \<leftarrow> sortedKeys (r_rttMap r). rtt_timeStamp (rttOf r v))"

definition oldTotal :: "raft \<Rightarrow> int" where
  "oldTotal r = (\<Sum>v \<leftarrow> sortedKeys (r_rttMap r). rtt_timeStamp (rttOldOf r v))"

lemma deterioration_grown:
  assumes det: "Determine_network_deterioration r"
    and nonneg: "\<And>v. 0 \<le> rtt_timeStamp (rttOf r v)" "\<And>v. 0 \<le> rtt_timeStamp (rttOldOf r v)"
    and small: "newTotal r + oldTotal r < 2 ^ 53"
  shows "oldTotal r < newTotal r \<and> float64 (3 / 10000) \<le> float64 (of_int (newTotal r - oldTotal r) / of_int (newTotal r))"
proof -
  let ?vs = "sortedKeys (r_rttMap r)" and ?t = "\<lambda>v. rtt_timeStamp (rttOf r v)" and ?o = "\<lambda>v. rtt_timeStamp (rttOldOf r v)"
  have le: "(\<Sum>v \<leftarrow> vs. \<bar>i64 (?t v - ?o v)\<bar>) \<le> (\<Sum>v \<leftarrow> vs. ?t v) + (\<Sum>v \<leftarrow> vs. ?o v) \<and>
    (\<Sum>v \<leftarrow> vs. i64 (?t v - ?o v)) = (\<Sum>v \<leftarrow> vs. ?t v) - (\<Sum>v \<leftarrow> vs. ?o v)"
    if "(\<Sum>v \<leftarrow> vs. ?t v) + (\<Sum>v \<leftarrow> vs. ?o v) < 2 ^ 53" for vs
    using that
  proof (induction vs)
    case (Cons v vs)
    have s: "0 \<le> (\<Sum>v \<leftarrow> vs. ?t v)" "0 \<le> (\<Sum>v \<leftarrow> vs. ?o v)" using nonneg by (auto intro!: sum_list_nonneg)
    note n = nonneg(1) [of v] nonneg(2) [of v]
    have "i64 (?t v - ?o v) = ?t v - ?o v" using Cons.prems s n by (intro i64_small) auto
    then show ?case using Cons s n by auto
  qed simp
  note S = le [of ?vs, folded newTotal_def oldTotal_def, OF small]
  have s: "0 \<le> newTotal r" "0 \<le> oldTotal r" using nonneg by (auto simp: newTotal_def oldTotal_def intro!: sum_list_nonneg)
  have "sum64 (map (\<lambda>v. i64 (?t v - ?o v)) ?vs) 0 = newTotal r - oldTotal r"
    using sum64_exact [of 0 "map (\<lambda>v. i64 (?t v - ?o v)) ?vs"] S small by (simp add: comp_def)
  moreover have "sum64 (map ?t ?vs) 0 = newTotal r"
    using sum64_exact [of 0 "map ?t ?vs"] small s nonneg by (simp add: comp_def newTotal_def)
  ultimately have d: "newTotal r \<noteq> 0" "\<not> fdiv (floatOfInt (newTotal r - oldTotal r)) (floatOfInt (newTotal r)) < float64 (3 / 10000)"
    using det by (simp_all add: Determine_network_deterioration_def Let_def split: if_split_asm)
  have f: "floatOfInt (newTotal r - oldTotal r) = of_int (newTotal r - oldTotal r)" "floatOfInt (newTotal r) = of_int (newTotal r)"
    by (rule floatOfInt_exact, use small s in simp)+
  have g: "float64 (3 / 10000) \<le> float64 (of_int (newTotal r - oldTotal r) / of_int (newTotal r))"
    using d(2) f by (simp add: fdiv_def)
  have "\<not> of_int (newTotal r - oldTotal r) / of_int (newTotal r) \<le> (0 :: rat)"
    using float64_nonpos [of "of_int (newTotal r - oldTotal r) / of_int (newTotal r)"] g threshold_pos by linarith
  then have "oldTotal r < newTotal r" using s d(1) by (auto simp: field_simps not_le zero_less_divide_iff)
  then show ?thesis using g by simp
qed

subsection \<open>Handing over\<close>

text \<open>A proposal that reaches a leader that is handing over is forwarded, not dropped.\<close>

lemma leaderProp_forwards:
  assumes "m_Entries m \<noteq> []" and "progressOf r (r_id r) \<noteq> None" and "r_leadTransferee r \<noteq> 0"
    and "m_Type m = MsgProp" and "m_Term m = 0"
  shows "leaderProp r m = Some (None, r\<lparr>r_msgs := r_msgs r @ [m\<lparr>m_To := r_leadTransferee r, m_From := r_id r\<rparr>]\<rparr>)"
  using assms by (simp add: leaderProp_def send_def isVoteMsg_def)

text \<open>The search only consumes map orders.\<close>

definition env_only :: "raft \<Rightarrow> raft \<Rightarrow> bool" where
  "env_only r r' \<longleftrightarrow> (\<exists>e. r' = r\<lparr>r_env := e\<rparr>)"

lemma env_only_refl [simp]: "env_only r r"
  unfolding env_only_def by (rule exI [of _ "r_env r"]) simp

lemma env_only_trans: "env_only a b \<Longrightarrow> env_only b c \<Longrightarrow> env_only a c"
  by (auto simp: env_only_def)

lemma rangeOrder_env: "rangeOrder r ks = (xs, r') \<Longrightarrow> env_only r r'"
  by (auto simp: rangeOrder_def env_only_def Let_def)

lemma bestNodeLoop_env: "bestNodeLoop md n vs (best, income) r = Some (b, r') \<Longrightarrow> env_only r r'"
proof (induction vs arbitrary: best income r)
  case (Cons v vs)
  let ?vals = "sort (map (\<lambda>k. the (fmlookup (latencyOf r v) k)) (sortedKeys (latencyOf r v)))"
  show ?case
  proof (cases "length ?vals < n div 2")
    case True
    then show ?thesis using Cons by (simp add: Let_def)
  next
    case False
    obtain order r1 where o: "rangeOrder r (sortedKeys (r_nodeLatency r)) = (order, r1)" by fastforce
    obtain b1 i1 where "bestNodeLoop md n vs (b1, i1) r1 = Some (b, r')"
      using Cons.prems False o by (fastforce simp: Let_def bind_eq_Some_conv split: if_split_asm)
    then have "env_only r1 r'" by (rule Cons.IH)
    then show ?thesis using rangeOrder_env [OF o] env_only_trans by blast
  qed
qed simp

lemma CalBestNode_env: "CalBestNode r bs = Some (b, r') \<Longrightarrow> env_only r r'"
  by (auto simp: CalBestNode_def Let_def bind_eq_Some_conv dest: bestNodeLoop_env split: if_split_asm)

lemma CalBetterNodes_env: "CalBetterNodes r = (bs, r') \<Longrightarrow> env_only r r'"
  by (auto simp: CalBetterNodes_def Let_def dest: rangeOrder_env split: if_split_asm prod.splits)

lemma maybeSendAppend_transferee: "maybeSendAppend r to b = Some (sent, r') \<Longrightarrow> r_leadTransferee r' = r_leadTransferee r"
  by (auto simp: maybeSendAppend_def Let_def send_def setProgress_def split: Option.bind_splits if_splits sum.splits)

lemma leaderTransfer_target:
  assumes "leaderTransferLeader r m pr = Some r'" and "r_leadTransferee r' \<notin> {0, r_leadTransferee r}"
  shows "r_leadTransferee r' = m_From m" and "\<not> pr_IsLearner pr" and "m_From m \<noteq> r_id r"
  using assms
  by (auto simp: leaderTransferLeader_def Let_def abortLeaderTransfer_def sendTimeoutNow_def sendAppend_def
      send_def isVoteMsg_def dest!: maybeSendAppend_transferee split: if_split_asm Option.bind_splits)

text \<open>A leader hands over of its own accord only to a voter that reports a smaller average delay than its
  own, and only when its round trips have become longer.\<close>

lemma considerTransfer_target:
  assumes c: "considerTransfer r = Some r'" and st: "r_step r = StepLeader"
    and tr: "r_leadTransferee r' \<notin> {0, r_leadTransferee r}"
  shows "Determine_network_deterioration r" and "reportedAvg r (r_leadTransferee r') < ownAvg r"
    and "\<exists>pr. progressOf r (r_leadTransferee r') = Some pr \<and> \<not> pr_IsLearner pr" and "r_leadTransferee r' \<noteq> r_id r"
proof -
  obtain bs r1 where bs: "CalBetterNodes r = (bs, r1)" by fastforce
  note e1 = CalBetterNodes_env [OF bs]
  have det: "Determine_network_deterioration r" and rest: "(if length bs = 0 then Some r1
            else do { (b, r2) \<leftarrow> CalBestNode r1 bs;
                      if b = r_id r2 then Some r2 else activeTransferLeadership r2 b }) = Some r'"
    using c bs tr by (auto simp: considerTransfer_def split: if_split_asm)
  have "r' \<noteq> r1" using tr e1 by (auto simp: env_only_def)
  then obtain b r2 where b: "CalBestNode r1 bs = Some (b, r2)"
      "(if b = r_id r2 then Some r2 else activeTransferLeadership r2 b) = Some r'"
    using rest by (auto simp: bind_eq_Some_conv split: if_split_asm)
  have "env_only r r2" using e1 CalBestNode_env [OF b(1)] env_only_trans by blast
  then obtain e where r2: "r2 = r\<lparr>r_env := e\<rparr>" by (auto simp: env_only_def)
  have ne: "b \<noteq> r_id r" using b(2) tr r2 by auto
  then have "b \<in> set bs" using CalBestNode_choice [OF b(1)] e1 by (auto simp: env_only_def)
  note better = CalBetterNodes_better [OF bs this]
  let ?m = "emptyMessage\<lparr>m_Type := MsgTransferLeader, m_From := b, m_To := r_lead r2\<rparr>"
  obtain err where s: "stepLeader r2 ?m = Some (err, r')"
    using b(2) ne r2 st by (auto simp: activeTransferLeadership_def stepBy_def bind_eq_Some_conv)
  have "r' \<noteq> r2" using tr r2 by auto
  then obtain pr where pr: "progressOf r b = Some pr" "leaderTransferLeader r2 ?m pr = Some r'"
    using s r2 by (auto simp: stepLeader_def stepLeaderPeer_def bind_eq_Some_conv split: option.splits)
  have "r_leadTransferee r' \<notin> {0, r_leadTransferee r2}" using tr r2 by simp
  note t = leaderTransfer_target [OF pr(2) this]
  show "Determine_network_deterioration r" by (rule det)
  show "reportedAvg r (r_leadTransferee r') < ownAvg r" "\<exists>pr. progressOf r (r_leadTransferee r') = Some pr \<and> \<not> pr_IsLearner pr"
    "r_leadTransferee r' \<noteq> r_id r"
    using better(1) t pr(1) r2 by simp_all
qed

end
