(* ===== verification/VoteSafety.thy ===== *)
theory VoteSafety
  imports StepMono
begin

text \<open>
  What a granted vote and a new leader mean, read off the outcomes of \<open>Step\<close>: whom a node votes for and
  whose votes a leader has.
\<close>

lemma reset_log: "reset r t = Some r' \<Longrightarrow> r_raftLog r' = r_raftLog r"
  by (auto simp: reset_def Let_def resetRandomizedElectionTimeout_def Intn_def abortLeaderTransfer_def
      split: Option.bind_splits if_splits)

lemma becomeFollower_log: "becomeFollower r t lead = Some r' \<Longrightarrow> r_raftLog r' = r_raftLog r"
  by (auto simp: becomeFollower_def dest: reset_log split: Option.bind_splits)

lemma send_log: "send r m = Some r' \<Longrightarrow> r_raftLog r' = r_raftLog r"
  by (drule send_cases) auto

lemma stepTerm_log: "stepTerm r m = Some (go, r1) \<Longrightarrow> r_raftLog r1 = r_raftLog r"
  by (auto simp: stepTerm_def stepHigherTerm_def stepLowerTerm_def Let_def dest: becomeFollower_log send_log
      split: if_splits Option.bind_splits)

lemma handled_quiet: "handled r m r' \<Longrightarrow> quiet r r'"
  by (auto simp: handled_def raft_le_def stands_def polled_def)

text \<open>A request without a term is never granted: the answer could not be sent.\<close>

lemma Step_vote_zero:
  assumes "Step r m = Some (err, r')" and "m_Type m = MsgVote" and "m_Term m = 0"
    and ms: "r_msgs r' = r_msgs r @ ms" and g: "g \<in> set ms" "m_Type g = MsgVoteResp" "\<not> m_Reject g"
  shows False
proof -
  have "stepTerm r m = Some (True, r)" using assms(3) by (simp add: stepTerm_def)
  then have "stepVote r m = Some r'" using assms(1,2) by (simp add: Step_def bind_eq_Some_conv)
  then show False
    using assms by (auto simp: stepVote_def voteRespMsgType_def send_def isVoteMsg_def bind_eq_Some_conv Let_def split: if_splits)
qed

lemma Step_grant:
  assumes "Step r m = Some (err, r')" and "r_Term r < MaxUint64" and "m_Term m < MaxUint64"
    and "m_Term m = 0 \<Longrightarrow> m_Type m \<notin> {MsgApp, MsgHeartbeat, MsgSnap}" and "role_ok r"
    and ms: "r_msgs r' = r_msgs r @ ms" and g: "g \<in> set ms" "m_Type g = MsgVoteResp" "\<not> m_Reject g"
  shows "m_Type m = MsgVote \<and> m_To g = m_From m \<and> m_From g = r_id r \<and> r_Vote r' = m_From m \<and>
    isUpToDate (r_raftLog r) (m_Index m) (m_LogTerm m) = Some True"
    and "m_Term m \<noteq> 0 \<and> m_Term g = m_Term m \<and> r_Term r' = m_Term m \<and> r_Term r \<le> m_Term m"
    and "r_Term r = m_Term m \<Longrightarrow> r_Vote r \<in> {0, m_From m}"
proof -
  obtain go r1 where t: "stepTerm r m = Some (go, r1)" and le: "raft_le r r1"
    and out: "handled r1 m r' \<or> granted r1 m r'" and stop: "\<not> go \<Longrightarrow> r' = r1"
    using Step_outcome [OF assms(1-5)] by blast
  obtain ms1 where ms1: "r_msgs r1 = r_msgs r @ ms1" "\<forall>m \<in> set ms1. \<not> isGrant m"
    using le unfolding raft_le_def quiet_def by blast
  have gr: "granted r1 m r'"
  proof (rule ccontr)
    assume "\<not> granted r1 m r'"
    then obtain ms2 where "r_msgs r' = r_msgs r1 @ ms2" "\<forall>m \<in> set ms2. \<not> isGrant m"
      using out handled_quiet unfolding quiet_def by blast
    then show False using ms ms1 g by auto
  qed
  then obtain m' where m': "r_msgs r' = r_msgs r1 @ [m']" "m_From m' = r_id r1" "m_To m' = m_From m" "m_Term m' = m_Term m"
    unfolding granted_def by blast
  have gm: "g = m'" using ms ms1 m'(1) g by auto
  have mono: "r_id r1 = r_id r" "r_Term r \<le> r_Term r1" "raft_mono r r'"
    using le gr raft_mono_trans by (auto simp: raft_le_def raft_mono_def granted_def)
  show "m_Type m = MsgVote \<and> m_To g = m_From m \<and> m_From g = r_id r \<and> r_Vote r' = m_From m \<and>
    isUpToDate (r_raftLog r) (m_Index m) (m_LogTerm m) = Some True"
    using gr m' gm mono(1) stepTerm_log [OF t] unfolding granted_def by auto
  have "m_Term m \<noteq> 0" using Step_vote_zero [OF assms(1) _ _ ms g] gr unfolding granted_def by blast
  moreover have go using stop m'(1) by auto
  ultimately have T: "r_Term r1 = m_Term m" using stepTerm_vote [of r m r1] t gr unfolding granted_def by simp
  show "m_Term m \<noteq> 0 \<and> m_Term g = m_Term m \<and> r_Term r' = m_Term m \<and> r_Term r \<le> m_Term m"
    using \<open>m_Term m \<noteq> 0\<close> T gr m'(4) gm mono(2) unfolding granted_def by simp
  show "r_Vote r \<in> {0, m_From m}" if "r_Term r = m_Term m"
    using mono(3) gr T that unfolding granted_def raft_mono_def by auto
qed

lemma Step_leader:
  assumes "Step r m = Some (err, r')" and "r_Term r < MaxUint64" and "m_Term m < MaxUint64"
    and "m_Term m = 0 \<Longrightarrow> m_Type m \<notin> {MsgApp, MsgHeartbeat, MsgSnap}" and "role_ok r"
    and l: "r_state r' = StateLeader" "r_state r \<noteq> StateLeader"
  shows "is_joint_quorum (pt_Voters (r_prs r'))
    (insert (r_id r) (yes_votes (pt_Votes (r_prs r)) \<union> {v. v = m_From m \<and> m_Type m = MsgVoteResp \<and> \<not> m_Reject m}))"
proof -
  obtain go r1 where le: "raft_le r r1" and out: "handled r1 m r' \<or> granted r1 m r'"
    using Step_outcome [OF assms(1-5)] by blast
  have id: "r_id r1 = r_id r" using le by (simp add: raft_le_def raft_mono_def)
  have nl: "r_state r1 \<noteq> StateLeader" using le l(2) by (auto simp: raft_le_def calm_def)
  then have "stands r1 r' \<or> polled r1 m r'"
    using out l(1) unfolding handled_def granted_def raft_le_def calm_def by auto
  then obtain A where A: "is_joint_quorum (pt_Voters (r_prs r')) A"
    and sub: "A \<subseteq> {r_id r1} \<or> r_state r1 = StateCandidate \<and> m_Type m = MsgVoteResp \<and>
      A = yes_votes (pt_Votes (r_prs r1)) \<union> (if m_Reject m then {} else {m_From m})"
    using l(1) unfolding stands_def polled_def Let_def by auto
  have votes: "r_state r1 = StateCandidate \<Longrightarrow> pt_Votes (r_prs r1) = pt_Votes (r_prs r)"
    using le by (simp add: raft_le_def calm_def)
  have "A \<subseteq> insert (r_id r) (yes_votes (pt_Votes (r_prs r)) \<union> {v. v = m_From m \<and> m_Type m = MsgVoteResp \<and> \<not> m_Reject m})"
    using sub votes id by (auto split: if_splits)
  then show ?thesis using A is_quorum_mono unfolding is_joint_quorum_def by blast
qed

lemma tick_outcome:
  assumes "tick r = Some r'" and "r_Term r < MaxUint64"
  shows "r_id r' = r_id r \<and> r_Term r \<le> r_Term r' \<and>
    (r_Term r' = r_Term r \<and> r_Vote r \<noteq> 0 \<longrightarrow> r_Vote r' = r_Vote r) \<and>
    rl_committed (r_raftLog r) \<le> rl_committed (r_raftLog r') \<and>
    (r_state r' \<in> {StateCandidate, StateLeader} \<longrightarrow>
      r_state r = r_state r' \<and> r_Term r' = r_Term r \<or> r_Term r < r_Term r' \<and> r_Vote r' = r_id r)"
proof -
  have "raft_mono r r'" using tick_cases [OF assms] by (auto simp: raft_le_def stands_def)
  moreover have "r_state r' \<in> {StateCandidate, StateLeader} \<longrightarrow>
      r_state r = r_state r' \<and> r_Term r' = r_Term r \<or> r_Term r < r_Term r' \<and> r_Vote r' = r_id r"
    using tick_cases [OF assms]
  proof
    assume "raft_le r r'"
    then show ?thesis unfolding raft_le_def calm_def by simp
  qed (simp add: stands_def)
  ultimately show ?thesis unfolding raft_mono_def by blast
qed

end
