(* ===== verification/LogSafety.thy ===== *)
theory LogSafety
  imports RttFacts VoteSafety
begin

text \<open>
  What the log of a node never loses. Every operation keeps the invariant of the log, does not lower the
  commit index, and leaves every committed entry that is still in the log as it is (\<open>stable\<close>); a
  snapshot only replaces committed entries by a base beyond them. One lemma per operation, up to
  \<open>Step\<close> and \<open>tick\<close>.
\<close>

definition entry_at :: "raftLog \<Rightarrow> nat \<Rightarrow> entry" where
  "entry_at l i = rl_ents l ! (i - Suc (rl_base l))"

definition stable :: "raftLog \<Rightarrow> raftLog \<Rightarrow> bool" where
  "stable l l' \<longleftrightarrow> (log_inv l \<longrightarrow> log_inv l' \<and> rl_committed l \<le> rl_committed l' \<and> rl_base l \<le> rl_base l' \<and>
     (\<forall>i. rl_base l' < i \<and> i \<le> rl_committed l \<longrightarrow> entry_at l' i = entry_at l i))"

abbreviation logs :: "raft \<Rightarrow> raft \<Rightarrow> bool" where
  "logs r r' \<equiv> stable (r_raftLog r) (r_raftLog r')"

lemma stable_refl [simp]: "stable l l"
  by (simp add: stable_def)

lemma stable_trans: "stable a b \<Longrightarrow> stable b c \<Longrightarrow> stable a c"
  unfolding stable_def by (metis le_trans order_le_less_trans)

lemma stable_after: "stable b c \<Longrightarrow> stable a b \<Longrightarrow> stable a c"
  by (rule stable_trans)

lemma foldM_logs:
  assumes "foldM f r xs = Some r'" and "\<And>r x r'. f r x = Some r' \<Longrightarrow> logs r r'"
  shows "logs r r'"
  using foldM_rel [where R = logs, OF assms(1)] assms(2) stable_trans stable_refl by metis

lemma sent_only_logs: "sent_only r r' \<Longrightarrow> logs r r'"
  by (simp add: sent_only_def)

subsection \<open>The log operations\<close>

lemma stable_frame:
  assumes "log_inv l \<Longrightarrow> log_inv l' \<and> rl_committed l \<le> rl_committed l' \<and> rl_base l' = rl_base l \<and>
    take (rl_committed l - rl_base l) (rl_ents l') = take (rl_committed l - rl_base l) (rl_ents l)"
  shows "stable l l'"
  unfolding stable_def
proof (intro impI conjI allI)
  assume inv: "log_inv l"
  note a = assms [OF inv]
  show "log_inv l'" "rl_committed l \<le> rl_committed l'" "rl_base l \<le> rl_base l'" using a by simp_all
  fix i assume i: "rl_base l' < i \<and> i \<le> rl_committed l"
  then have k: "i - Suc (rl_base l) < rl_committed l - rl_base l" using a by auto
  have "rl_ents l' ! (i - Suc (rl_base l)) = rl_ents l ! (i - Suc (rl_base l))"
    using a nth_take [OF k, of "rl_ents l'"] nth_take [OF k, of "rl_ents l"] by simp
  then show "entry_at l' i = entry_at l i" using a by (simp add: entry_at_def)
qed

lemma commitTo_stable: "commitTo l c = Some l' \<Longrightarrow> stable l l'"
  by (rule stable_frame) (use commitTo_Some [of l c l'] in auto)

lemma l_maybeCommit_stable: "l_maybeCommit l i t = Some (b, l') \<Longrightarrow> stable l l'"
  by (auto simp: l_maybeCommit_def split: Option.bind_splits if_splits intro: commitTo_stable)

lemma extends_stable: "(log_inv l \<Longrightarrow> extends l l' \<and> rl_committed l' = rl_committed l) \<Longrightarrow> stable l l'"
proof (rule stable_frame)
  assume ext: "log_inv l \<Longrightarrow> extends l l' \<and> rl_committed l' = rl_committed l" and inv: "log_inv l"
  have "rl_committed l - rl_base l \<le> length (rl_ents l)"
    using log_invD(3) [OF inv] lastIndex_eq [OF log_invD(1) [OF inv]] by simp
  then show "log_inv l' \<and> rl_committed l \<le> rl_committed l' \<and> rl_base l' = rl_base l \<and>
    take (rl_committed l - rl_base l) (rl_ents l') = take (rl_committed l - rl_base l) (rl_ents l)"
    using ext inv by (auto simp: extends_def same_frame_def)
qed

lemma maybeAppend_stable:
  assumes "maybeAppend l index logTerm committed ents = Some (r, l')"
    and "contiguous index ents" and "index + length ents < 2 ^ 64"
  shows "stable l l'"
  by (rule stable_frame) (use maybeAppend_committed [OF _ assms(2,3,1)] in \<open>auto simp: same_frame_def\<close>)

lemma l_restore_stable:
  assumes "rl_committed l < snapIndex s" and "snapIndex s < 2 ^ 63"
  shows "stable l (l_restore l s)"
  unfolding stable_def
proof (intro impI)
  assume inv: "log_inv l"
  have "ms_inv (rl_storage l)" using log_invD(1) [OF inv] by (simp add: view_inv_def)
  then have r: "log_inv (l_restore l s)" "rl_base (l_restore l s) = snapIndex s"
    using l_restore_ok [of l s] log_invD(4) [OF inv] assms by simp_all
  have "rl_committed (l_restore l s) = snapIndex s" by (simp add: l_restore_def)
  then show "log_inv (l_restore l s) \<and> rl_committed l \<le> rl_committed (l_restore l s) \<and> rl_base l \<le> rl_base (l_restore l s) \<and>
      (\<forall>i. rl_base (l_restore l s) < i \<and> i \<le> rl_committed l \<longrightarrow> entry_at (l_restore l s) i = entry_at l i)"
    using r assms log_invD(2,3) [OF inv] by auto
qed

subsection \<open>Roles and campaigns\<close>

lemma maybeCommit_logs: "maybeCommit r = Some (b, r') \<Longrightarrow> logs r r'"
  by (auto simp: maybeCommit_def Let_def split: Option.bind_splits intro: l_maybeCommit_stable)

lemma appendEntry_logs:
  assumes "appendEntry r es = Some (b, r')" shows "logs r r'"
  using assms
proof (cases rule: appendEntry_cases)
  case dropped
  then show ?thesis using increaseUncommittedSize_keep by fastforce
next
  case (accepted r1 li l pr c)
  have "stable (r_raftLog r) l"
    using extends_stable appendLog_extends [OF accepted(3)] by blast
  then show ?thesis using maybeCommit_logs [OF accepted(5)] stable_trans by simp
qed

lemma becomeLeader_logs:
  assumes "becomeLeader r = Some r'" shows "logs r r'"
  using assms
proof (cases rule: becomeLeader_cases)
  case (1 r1 pr r4)
  have "r_raftLog (leaderBase r1 pr) = r_raftLog r" using reset_log [OF 1(1)] by (simp add: leaderBase_fields)
  moreover have "r_raftLog (reduceUncommittedSize r4 es) = r_raftLog r4" for es
    by (simp add: reduceUncommittedSize_def Let_def)
  ultimately show ?thesis using appendEntry_logs [OF 1(3)] 1(4) by simp
qed

lemma requestVotes_logs: "requestVotes r t vm trm = Some r' \<Longrightarrow> logs r r'"
  unfolding requestVotes_def
  by (erule foldM_logs) (auto simp: voteRequest_def split: if_splits Option.bind_splits dest: send_log)

lemma campaign_logs:
  assumes "campaign r t = Some r'" shows "logs r r'"
proof -
  have real: "logs r r'" if c: "campaign r t = Some r'" and t: "t \<noteq> campaignPreElection" for r t r'
  proof -
    obtain r1 res r2 where c: "becomeCandidate r = Some r1" and p: "poll r1 (r_id r1) True = (res, r2)"
      and rest: "(if snd (snd res) = VoteWon then becomeLeader r2 else requestVotes r2 t MsgVote (r_Term r1)) = Some r'"
      using c campaign_real_eq [OF t, of r] by (auto split: Option.bind_splits prod.splits)
    have "r_raftLog r2 = r_raftLog r" using becomeCandidate_fields(4) [OF c] poll_fields(1) [OF p] by simp
    moreover have "logs r2 r'" using rest by (auto split: if_splits intro: becomeLeader_logs requestVotes_logs)
    ultimately show ?thesis by simp
  qed
  show ?thesis
  proof (cases "t = campaignPreElection")
    case True
    obtain r1 res r2 where c: "becomePreCandidate r = Some r1" and p: "poll r1 (r_id r1) True = (res, r2)"
      and rest: "(if snd (snd res) = VoteWon then campaign r2 campaignElection
          else requestVotes r2 campaignPreElection MsgPreVote (add64 (r_Term r1) 1)) = Some r'"
      using assms True campaign_pre_eq [of r] by (auto split: Option.bind_splits prod.splits)
    have "r_raftLog r1 = r_raftLog r" using c by (auto simp: becomePreCandidate_def split: if_splits)
    then have "r_raftLog r2 = r_raftLog r" using poll_fields(1) [OF p] by simp
    moreover have "logs r2 r'" using rest real [of r2 campaignElection] by (auto split: if_splits intro: requestVotes_logs)
    ultimately show ?thesis by simp
  qed (use real assms in blast)
qed

subsection \<open>Handlers\<close>

text \<open>What a message must be like: the entries of an append follow its index without a gap, and indexes
  stay below the overflow.\<close>

definition msg_ok :: "message \<Rightarrow> bool" where
  "msg_ok m \<longleftrightarrow> contiguous (m_Index m) (m_Entries m) \<and> m_Index m + length (m_Entries m) < 2 ^ 64 \<and>
     snapIndex (m_Snapshot m) < 2 ^ 63"

lemma handleAppendEntries_logs:
  assumes "handleAppendEntries r m = Some r'" and "m_Type m = MsgApp \<Longrightarrow> msg_ok m" and "m_Type m = MsgApp"
  shows "logs r r'"
proof (cases "m_Index m < rl_committed (r_raftLog r)")
  case True
  then show ?thesis using assms(1) send_log by (fastforce simp: handleAppendEntries_def)
next
  case False
  then obtain res l where l: "maybeAppend (r_raftLog r) (m_Index m) (m_LogTerm m) (m_Commit m) (m_Entries m) = Some (res, l)"
    and "r_raftLog r' = l"
    using assms(1)
    by (auto simp: handleAppendEntries_def bind_eq_Some_conv Let_def dest!: send_log split: option.splits)
  then show ?thesis using maybeAppend_stable [OF l] assms(2,3) by (simp add: msg_ok_def)
qed

lemma handleHeartbeat_logs: "handleHeartbeat r m = Some r' \<Longrightarrow> logs r r'"
  by (auto simp: handleHeartbeat_def bind_eq_Some_conv Let_def dest!: send_log intro: commitTo_stable)

lemma probeAll_sent:
  "foldM (\<lambda>r v. do { (_, r') \<leftarrow> maybeSendAppend r v False; Some r' }) r vs = Some r' \<Longrightarrow> sent_only r r'"
  by (erule foldM_sent) (auto split: Option.bind_splits intro: maybeSendAppend_sent)

lemma switchToConfig_logs:
  assumes "switchToConfig r cfg prs = Some (cs, r')" shows "logs r r'"
  using assms
proof (cases rule: switchToConfig_cases)
  case (lead c r3 r4)
  have "sent_only r3 r4" using lead(3) by (auto split: if_splits intro: bcastAppend_sent probeAll_sent)
  then have "logs r r4" using maybeCommit_logs [OF lead(2)] by (simp add: sent_only_def)
  then show ?thesis using lead(4) by (auto simp: abortLeaderTransfer_def)
qed simp

lemma handleSnapshot_logs:
  assumes "handleSnapshot r m = Some r'" and ok: "snapIndex (m_Snapshot m) < 2 ^ 63"
  shows "logs r r'"
proof -
  obtain b r1 where r1: "restore r (m_Snapshot m) = Some (b, r1)" and log: "r_raftLog r' = r_raftLog r1"
    using assms(1) by (auto simp: handleSnapshot_def bind_eq_Some_conv dest: send_log split: if_splits)
  from r1 have "logs r r1"
  proof (cases rule: restore_cases)
    case down
    then show ?thesis using becomeFollower_fields(4) by fastforce
  next
    case (forward l)
    then show ?thesis using commitTo_stable by simp
  next
    case (restored cfg prs cs r2 pr)
    have "logs r (restoreBase r (m_Snapshot m))" using l_restore_stable [OF restored(2) ok] by simp
    then show ?thesis using switchToConfig_logs [OF restored(5)] restored(7) stable_trans by auto
  qed simp
  then show ?thesis using log by simp
qed

lemma candidateVoteResp_logs:
  assumes "candidateVoteResp r m = Some (err, r')" shows "logs r r'"
proof -
  obtain g rj res r1 where p: "poll r (m_From m) (\<not> m_Reject m) = ((g, rj, res), r1)" by (metis prod_cases3 surj_pair)
  have l: "r_raftLog r1 = r_raftLog r" using poll_fields(1) [OF p] by simp
  have bcast: "logs r1 r3" if "becomeLeader r1 = Some r2" "bcastAppend r2 = Some r3" for r2 r3
    using becomeLeader_logs [OF that(1)] sent_only_logs [OF bcastAppend_sent [OF that(2)]] stable_trans by blast
  have "logs r1 r'"
    using assms bcast becomeFollower_log campaign_logs unfolding candidateVoteResp_def p prod.case
    by (cases res) (auto simp: bind_eq_Some_conv split: if_split_asm)
  then show ?thesis using l by simp
qed

lemma followAnd_logs:
  assumes "followAnd r m handle = Some (err, r')" and "\<And>r1. handle r1 m = Some r' \<Longrightarrow> logs r1 r'"
  shows "logs r r'"
proof -
  obtain r1 where "becomeFollower r (m_Term m) (m_From m) = Some r1" "handle r1 m = Some r'"
    using assms(1) by (auto simp: followAnd_def bind_eq_Some_conv)
  then show ?thesis using becomeFollower_log assms(2) by metis
qed

lemma msg_okD: "m_Type m \<in> {MsgApp, MsgSnap} \<longrightarrow> msg_ok m \<Longrightarrow> m_Type m = MsgSnap \<Longrightarrow> snapIndex (m_Snapshot m) < 2 ^ 63"
  by (simp add: msg_ok_def)

lemma stepCandidate_logs:
  assumes "stepCandidate r m = Some (err, r')" and ok: "m_Type m \<in> {MsgApp, MsgSnap} \<longrightarrow> msg_ok m"
  shows "logs r r'"
proof -
  consider "r' = r" | "m_Type m = MsgApp" "followAnd r m handleAppendEntries = Some (err, r')"
    | "followAnd r m handleHeartbeat = Some (err, r')"
    | "m_Type m = MsgSnap" "followAnd r m handleSnapshot = Some (err, r')" | "candidateVoteResp r m = Some (err, r')"
    using assms(1) by (cases "m_Type m") (auto simp: stepCandidate_def Let_def split: if_splits)
  then show ?thesis
  proof cases
    case 2
    then show ?thesis using followAnd_logs handleAppendEntries_logs ok by blast
  next
    case 3
    then show ?thesis using followAnd_logs handleHeartbeat_logs by blast
  next
    case 4
    then show ?thesis using followAnd_logs handleSnapshot_logs msg_okD [OF ok] by blast
  qed (simp_all add: candidateVoteResp_logs)
qed

lemma stepFollower_logs:
  assumes "stepFollower r m = Some (err, r')" and ok: "m_Type m \<in> {MsgApp, MsgSnap} \<longrightarrow> msg_ok m"
  shows "logs r r'"
proof -
  let ?h = "r\<lparr>r_electionElapsed := 0, r_lead := m_From m\<rparr>"
  consider "r_raftLog r' = r_raftLog r" | "m_Type m = MsgApp" "handleAppendEntries ?h m = Some r'"
    | "handleHeartbeat ?h m = Some r'" | "m_Type m = MsgSnap" "handleSnapshot ?h m = Some r'"
    | t where "campaign r t = Some r'"
    using assms(1) unfolding stepFollower_def Let_def forwardToLeader_def
    by (cases "m_Type m") (auto simp: bind_eq_Some_conv dest: send_log split: if_splits list.splits)
  then show ?thesis
  proof cases
    case 2
    then have "logs ?h r'" using handleAppendEntries_logs [of ?h m r'] ok by blast
    then show ?thesis by simp
  next
    case 3
    then show ?thesis using handleHeartbeat_logs [of ?h m r'] by simp
  next
    case 4
    then show ?thesis using handleSnapshot_logs [of ?h m r'] msg_okD [OF ok] by simp
  next
    case 5
    then show ?thesis by (rule campaign_logs)
  qed simp
qed

lemma leaderProp_logs:
  assumes "leaderProp r m = Some (err, r')" shows "logs r r'"
proof -
  consider "r' = r" | "send r (m\<lparr>m_To := r_leadTransferee r\<rparr>) = Some r'"
    | es r1 acc r2 where "proposeConfChanges r 0 (m_Entries m) = Some (es, r1)" "appendEntry r1 es = Some (acc, r2)"
        "r' = r2 \<or> bcastAppend r2 = Some r'"
    using assms(1) by (auto simp: leaderProp_def bind_eq_Some_conv split: if_split_asm)
  then show ?thesis
  proof cases
    case 3
    then have "logs r r2" "logs r2 r'"
      using sent_only_logs [OF proposeConfChanges_sent [OF 3(1)]] appendEntry_logs [OF 3(2)] stable_trans
        sent_only_logs bcastAppend_sent by auto
    then show ?thesis by (rule stable_trans)
  qed (auto dest: send_log)
qed

lemma leaderAppAcked_logs:
  assumes "leaderAppAcked r m pr = Some r'" shows "logs r r'"
  using assms
proof (cases rule: leaderAppAcked_cases)
  case (acked pr1 pr2 cm r1 r2 r3 pr3)
  have "sent_only r1 r2"
    using acked(4) by (auto split: if_splits Option.bind_splits
        intro: sendAppend_sent sent_only_trans [OF releasePending_sent bcastAppend_sent])
  moreover have "sent_only r3 r'" using acked(7) by (auto split: if_splits intro: sendTimeoutNow_sent)
  ultimately have "sent_only r1 r'" using sendAllAppends_sent [OF acked(5)] sent_only_trans by blast
  then show ?thesis using maybeCommit_logs [OF acked(3)] by (simp add: sent_only_def)
qed simp

lemma stepLeader_logs:
  assumes "stepLeader r m = Some (err, r')" shows "logs r r'"
proof -
  consider "sent_only r r'" | "leaderCheckQuorum r = Some r'" | "leaderProp r m = Some (err, r')"
    | pr where "progressOf r (m_From m) = Some pr" "stepLeaderPeer r m pr = Some r'"
    using assms(1) bcastHeartbeat_sent leaderReadIndex_sent
    by (fastforce simp: stepLeader_def split: messageType.splits Option.bind_splits option.splits)
  then show ?thesis
  proof cases
    case 2
    then show ?thesis using leaderCheckQuorum_log by simp
  next
    case 4
    consider "leaderAppResp r m pr = Some r'" | "leaderHeartbeatResp r m pr = Some r'"
      | "leaderTransferLeader r m pr = Some r'" | "r_raftLog r' = r_raftLog r"
      using 4(2) by (auto simp: stepLeaderPeer_def leaderSnapStatus_def leaderUnreachable_def Let_def
          split: messageType.splits if_splits)
    then show ?thesis
    proof cases
      case 1
      then show ?thesis
        using leaderAppRejected_sent [of r m "pr\<lparr>pr_RecentActive := True\<rparr>" r'] leaderAppAcked_logs
          sent_only_logs 4(1) by (auto simp: leaderAppResp_def Let_def split: if_splits)
    qed (use leaderHeartbeatResp_sent 4(1) leaderTransferLeader_sent sent_only_logs in auto)
  qed (auto intro: sent_only_logs leaderProp_logs)
qed

subsection \<open>Step and tick\<close>

lemma stepBy_logs: "stepBy r m = Some (err, r') \<Longrightarrow> m_Type m \<in> {MsgApp, MsgSnap} \<longrightarrow> msg_ok m \<Longrightarrow> logs r r'"
  using stepLeader_logs stepCandidate_logs stepFollower_logs by (auto simp: stepBy_def split: stepFunc.splits)

lemma stepHup_logs:
  assumes "stepHup r = Some r'" shows "logs r r'"
proof -
  have "r' = r \<or> (\<exists>t. campaign r t = Some r')" using stepHup_campaign [OF assms] .
  then show ?thesis using campaign_logs by auto
qed

lemma bcastProbeRtt_logs: "bcastProbeRtt r = Some r' \<Longrightarrow> logs r r'"
  unfolding bcastProbeRtt_def
  by (erule foldM_logs) (auto simp: Now_def Let_def sendRttProbeMsg_def dest!: send_log split: if_splits option.splits)

lemma calcRtt_log: "calcRtt r v = Some r' \<Longrightarrow> r_raftLog r' = r_raftLog r"
  unfolding calcRtt_def Now_def Let_def by (auto simp: bind_eq_Some_conv split: if_splits dest!: Intn_fields)

lemma stepVote_log: "stepVote r m = Some r' \<Longrightarrow> r_raftLog r' = r_raftLog r"
  by (erule stepVote_cases) (auto split: if_splits)

theorem Step_logs:
  assumes "Step r m = Some (err, r')" and ok: "m_Type m \<in> {MsgApp, MsgSnap} \<longrightarrow> msg_ok m"
  shows "logs r r'"
  using assms(1)
proof (cases rule: Step_cases)
  case (hup r1)
  then show ?thesis using stepTerm_log stepHup_logs by metis
next
  case (probeHup r1)
  then show ?thesis using stepTerm_log bcastProbeRtt_logs by metis
next
  case (probe r1)
  then show ?thesis using stepTerm_log send_log by (metis stable_refl)
next
  case (probeResp r1)
  then show ?thesis using stepTerm_log calcRtt_log by (metis stable_refl)
next
  case (vote r1)
  then show ?thesis using stepTerm_log stepVote_log by (metis stable_refl)
next
  case (other r1)
  then show ?thesis using stepTerm_log stepBy_logs ok by metis
qed (use stepTerm_log in simp)

lemma stepLocal_logs: "stepLocal r t = Some r' \<Longrightarrow> t \<notin> {MsgApp, MsgSnap} \<Longrightarrow> logs r r'"
  using Step_logs [of r "emptyMessage\<lparr>m_From := r_id r, m_Type := t\<rparr>"] by (auto simp: stepLocal_def bind_eq_Some_conv)

lemma tickElection_logs:
  assumes "tickElection r = Some r'" shows "logs r r'"
proof -
  define r1 where "r1 = r\<lparr>r_electionElapsed := r_electionElapsed r + 1, r_rttprobeElapsed := r_rttprobeElapsed r + 1\<rparr>"
  obtain r2 where
    2: "(if pastRttprobeTimeout r1 then stepLocal (r1\<lparr>r_rttprobeElapsed := 0\<rparr>) MsgProbeRttHup else Some r1) = Some r2"
    and 3: "(if promotable r2 \<and> pastElectionTimeout r2 then stepLocal (r2\<lparr>r_electionElapsed := 0\<rparr>) MsgHup
          else Some r2) = Some r'"
    using assms unfolding tickElection_def Let_def bind_eq_Some_conv r1_def [symmetric] by blast
  have "logs r1 r2" using 2 stepLocal_logs [of "r1\<lparr>r_rttprobeElapsed := 0\<rparr>"] by (auto split: if_splits)
  moreover have "logs r2 r'" using 3 stepLocal_logs [of "r2\<lparr>r_electionElapsed := 0\<rparr>"] by (auto split: if_splits)
  ultimately show ?thesis using stable_trans by (simp add: r1_def)
qed

lemma considerTransfer_logs:
  assumes "considerTransfer r = Some r'" shows "logs r r'"
proof -
  have move: "logs r1 r'" if act: "activeTransferLeadership r1 v = Some r'" for r1 v
  proof -
    let ?m = "emptyMessage\<lparr>m_Type := MsgTransferLeader, m_From := v, m_To := r_lead r1\<rparr>"
    obtain err where "stepBy r1 ?m = Some (err, r')"
      using act by (auto simp: activeTransferLeadership_def bind_eq_Some_conv)
    then show ?thesis using stepBy_logs [of r1 ?m] by simp
  qed
  obtain bs r1 where bs: "CalBetterNodes r = (bs, r1)" by fastforce
  have e1: "r_raftLog r1 = r_raftLog r" using CalBetterNodes_env [OF bs] by (auto simp: env_only_def)
  have "r' = r \<or> r' = r1 \<or> (\<exists>b r2. CalBestNode r1 bs = Some (b, r2) \<and> (r' = r2 \<or> activeTransferLeadership r2 b = Some r'))"
    using assms bs by (auto simp: considerTransfer_def bind_eq_Some_conv split: if_split_asm)
  moreover have "r_raftLog r2 = r_raftLog r" if "CalBestNode r1 bs = Some (b, r2)" for b r2
    using CalBestNode_env [OF that] e1 by (auto simp: env_only_def)
  ultimately show ?thesis using move e1 by (metis stable_refl)
qed

lemma tickHeartbeat_logs:
  assumes "tickHeartbeat r = Some r'" shows "logs r r'"
proof -
  define r1 where "r1 = r\<lparr>r_heartbeatElapsed := r_heartbeatElapsed r + 1, r_electionElapsed := r_electionElapsed r + 1,
    r_rttprobeElapsed := r_rttprobeElapsed r + 1, r_leaderTransferElapsed := r_leaderTransferElapsed r + 1\<rparr>"
  obtain r2 r3 r4 where
    2: "(if pastRttprobeTimeout r1 then stepLocal (r1\<lparr>r_rttprobeElapsed := 0\<rparr>) MsgProbeRttHup else Some r1) = Some r2"
    and 3: "(if pastLeaderTransferTimeout r2 then considerTransfer (r2\<lparr>r_leaderTransferElapsed := 0\<rparr>) else Some r2) = Some r3"
    and 4: "(if r_electionElapsed r3 \<ge> r_electionTimeout r3 then do {
                let q = r3\<lparr>r_electionElapsed := 0\<rparr>;
                q1 \<leftarrow> (if r_checkQuorum q then stepLocal q MsgCheckQuorum else Some q);
                Some (if r_state q1 = StateLeader \<and> r_leadTransferee q1 \<noteq> 0 then abortLeaderTransfer q1 else q1) }
              else Some r3) = Some r4"
    and 5: "(if r_state r4 \<noteq> StateLeader then Some r4
          else if r_heartbeatElapsed r4 \<ge> r_heartbeatTimeout r4
          then stepLocal (r4\<lparr>r_heartbeatElapsed := 0\<rparr>) MsgBeat
          else Some r4) = Some r'"
    using assms unfolding tickHeartbeat_def Let_def bind_eq_Some_conv r1_def [symmetric] by blast
  have a: "logs r1 r2" using 2 stepLocal_logs [of "r1\<lparr>r_rttprobeElapsed := 0\<rparr>"] by (auto split: if_splits)
  have b: "logs r2 r3" using 3 considerTransfer_logs [of "r2\<lparr>r_leaderTransferElapsed := 0\<rparr>"] by (auto split: if_splits)
  have c: "logs r3 r4"
  proof (cases "r_electionElapsed r3 \<ge> r_electionTimeout r3")
    case True
    let ?q = "r3\<lparr>r_electionElapsed := 0\<rparr>"
    obtain q1 where q1: "(if r_checkQuorum ?q then stepLocal ?q MsgCheckQuorum else Some ?q) = Some q1"
      and "r4 = (if r_state q1 = StateLeader \<and> r_leadTransferee q1 \<noteq> 0 then abortLeaderTransfer q1 else q1)"
      using 4 True by (auto simp: Let_def bind_eq_Some_conv)
    then have "r_raftLog r4 = r_raftLog q1" by (simp add: abortLeaderTransfer_def)
    moreover have "logs ?q q1" using q1 stepLocal_logs [of ?q] by (auto split: if_splits)
    ultimately show ?thesis by simp
  qed (use 4 in simp)
  have d: "logs r4 r'" using 5 stepLocal_logs [of "r4\<lparr>r_heartbeatElapsed := 0\<rparr>"] by (auto split: if_splits)
  have "logs r1 r'" using a b c d stable_trans by blast
  then show ?thesis by (simp add: r1_def)
qed

theorem tick_logs: "tick r = Some r' \<Longrightarrow> logs r r'"
  using tickElection_logs tickHeartbeat_logs by (auto simp: tick_def split: tickFunc.splits)

end
