(* ===== verification/RoleFacts.thy ===== *)
theory RoleFacts
  imports LogSafety Restart
begin

text \<open>
  How a node comes into its role and loses it: what a node is when \<open>newRaft\<close> returns it, and when a
  leader that no longer hears from a quorum steps down.
\<close>

subsection \<open>The quorum check\<close>

definition activePeers :: "raft \<Rightarrow> nat set" where
  "activePeers r = {v. \<exists>pr. progressOf r v = Some pr \<and> \<not> pr_IsLearner pr \<and> (pr_RecentActive pr \<or> v = r_id r)}"

lemma leaderCheckQuorum_role:
  assumes "leaderCheckQuorum r = Some r'"
  shows "r_state r' = (if is_joint_quorum (pt_Voters (r_prs r)) (activePeers r) then r_state r else StateFollower)"
    and "r_Term r' = r_Term r"
    and "v \<noteq> r_id r \<Longrightarrow> progressOf r' v = Some pr \<Longrightarrow> \<not> pr_RecentActive pr"
proof -
  define r1 where "r1 = (case progressOf r (r_id r) of
      Some pr \<Rightarrow> setProgress r (r_id r) (pr\<lparr>pr_RecentActive := True\<rparr>) | None \<Rightarrow> r)"
  obtain r2 where r2: "(if \<not> QuorumActive (r_prs r1) then becomeFollower r1 (r_Term r1) 0 else Some r1) = Some r2"
    and r': "r2\<lparr>r_prs := VisitUpdate (\<lambda>v pr. if v \<noteq> r_id r2 then pr\<lparr>pr_RecentActive := False\<rparr> else pr)
       (r_prs r2)\<rparr> = r'"
    using assms unfolding leaderCheckQuorum_def r1_def [symmetric] Let_def bind_eq_Some_conv by blast
  have f1: "r_state r1 = r_state r" "r_Term r1 = r_Term r" "r_id r1 = r_id r" "pt_Voters (r_prs r1) = pt_Voters (r_prs r)"
    by (simp_all add: r1_def setProgress_def split: option.split)
  have "{v. \<exists>pr. progressOf r1 v = Some pr \<and> \<not> pr_IsLearner pr \<and> pr_RecentActive pr} = activePeers r"
    by (auto simp: r1_def activePeers_def split: option.splits if_splits)
  then have active: "QuorumActive (r_prs r1) \<longleftrightarrow> is_joint_quorum (pt_Voters (r_prs r)) (activePeers r)"
    unfolding QuorumActive_iff f1 by simp
  have f2: "r_state r2 = (if QuorumActive (r_prs r1) then r_state r1 else StateFollower)" "r_Term r2 = r_Term r1"
    "r_id r2 = r_id r1"
    using r2 becomeFollower_fields [of r1 "r_Term r1" 0 r2] by (auto split: if_splits)
  show "r_state r' = (if is_joint_quorum (pt_Voters (r_prs r)) (activePeers r) then r_state r else StateFollower)"
    "r_Term r' = r_Term r"
    using r' f1 f2 active by auto
  show "v \<noteq> r_id r \<Longrightarrow> progressOf r' v = Some pr \<Longrightarrow> \<not> pr_RecentActive pr"
    using r' f1 f2 by auto
qed

subsection \<open>A new node\<close>

lemma newRaft_config:
  assumes "newRaft e c = Some r'"
  shows "c_ID c \<noteq> 0" "0 < c_HeartbeatTick c" "c_HeartbeatTick c < c_ElectionTick c" "c_Storage c \<noteq> None"
    "0 < c_MaxInflightMsgs c" "c_ReadOnlyOption c = ReadOnlyLeaseBased \<Longrightarrow> c_CheckQuorum c"
proof -
  obtain c' where v: "validate c = Inr c'" and st: "c_Storage c \<noteq> None" using assms by (cases rule: newRaft_cases) auto
  note v = validate_fields [OF v]
  show "c_ID c \<noteq> 0" "0 < c_HeartbeatTick c" "c_HeartbeatTick c < c_ElectionTick c" "c_Storage c \<noteq> None"
    "0 < c_MaxInflightMsgs c" "c_ReadOnlyOption c = ReadOnlyLeaseBased \<Longrightarrow> c_CheckQuorum c"
    using v st by auto
qed

lemma loadState_log:
  assumes "loadState r st = Some r'" and "log_inv (r_raftLog r)" shows "log_inv (r_raftLog r')"
  using assms log_invD [OF assms(2)]
  by (auto simp: loadState_def log_inv_def split: if_splits)

lemma newRaft_log:
  assumes "newRaft e c = Some r'" and st: "c_Storage c = Some st" "ms_inv st"
  shows "log_inv (r_raftLog r')" and "rl_ents (r_raftLog r') = ms_rest st"
proof -
  have "log_inv (r_raftLog r') \<and> rl_ents (r_raftLog r') = ms_rest st"
    using assms(1)
  proof (cases rule: newRaft_cases)
    case (1 c' st' cs cfg prs cs' r1 r2 r3)
    have st': "st' = st" using 1(2) st(1) by simp
    let ?l = "newLogWithSize st (c_MaxCommittedSizePerReady c')"
    have r1: "r_raftLog r1 = ?l"
      using switchToConfig_follower [OF 1(5)] by (auto simp: initRaft_fields st')
    have l1: "log_inv (r_raftLog r1)" "rl_ents (r_raftLog r1) = ms_rest st"
      using newLogWithSize_inv [OF st(2)] by (simp_all add: r1)
    have l2: "log_inv (r_raftLog r2) \<and> rl_ents (r_raftLog r2) = ms_rest st"
    proof (cases "IsEmptyHardState (fst (InitialState st'))")
      case False
      then have ld: "loadState r1 (fst (InitialState st')) = Some r2" using 1(7) by simp
      then have "rl_ents (r_raftLog r2) = rl_ents (r_raftLog r1)" by (auto simp: loadState_def split: if_splits)
      then show ?thesis using loadState_log [OF ld] l1 by simp
    qed (use 1(7) l1 in simp)
    have "log_inv (r_raftLog r3) \<and> rl_ents (r_raftLog r3) = ms_rest st"
      using 1(8) l2 appliedTo_ok by (auto simp: bind_eq_Some_conv split: if_splits)
    then show ?thesis using becomeFollower_fields(4) [OF 1(9)] by simp
  qed
  then show "log_inv (r_raftLog r')" "rl_ents (r_raftLog r') = ms_rest st" by simp_all
qed

end
