(* ===== verification/ElectionTimeout.thy ===== *)
theory ElectionTimeout
  imports RoleFacts
begin

text \<open>
  Progress of elections: a node that may be elected and hears nothing waits for its election timeout,
  then campaigns in the next term and asks every other voter for its vote. Nothing on this path panics.
\<close>

subsection \<open>Asking for votes\<close>

definition voteRequestOf :: "raft \<Rightarrow> campaignType \<Rightarrow> nat \<Rightarrow> message" where
  "voteRequestOf r t v = emptyMessage\<lparr>m_Term := r_Term r, m_To := v, m_Type := MsgVote, m_From := r_id r,
     m_Index := lastIndex (r_raftLog r), m_LogTerm := rl_term (r_raftLog r) (lastIndex (r_raftLog r)),
     m_Context := (if t = campaignTransfer then campaignString t else [])\<rparr>"

lemma voteRequestOf_fields [simp]: "m_Type (voteRequestOf r t v) = MsgVote" "m_To (voteRequestOf r t v) = v"
  "m_From (voteRequestOf r t v) = r_id r" "m_Term (voteRequestOf r t v) = r_Term r"
  by (simp_all add: voteRequestOf_def)

lemma voteRequest_sends:
  assumes "view_inv (r_raftLog r)" and "r_Term r \<noteq> 0" and "v \<noteq> r_id r"
  shows "voteRequest r t MsgVote (r_Term r) v = Some (r\<lparr>r_msgs := r_msgs r @ [voteRequestOf r t v]\<rparr>)"
  using assms by (simp add: voteRequest_def lastTerm_eq send_def isVoteMsg_def voteRequestOf_def)

lemma voteRequests_sent:
  assumes "view_inv (r_raftLog r)" and "r_Term r \<noteq> 0"
  shows "foldM (\<lambda>s v. voteRequest s t MsgVote (r_Term r) v) r vs =
    Some (r\<lparr>r_msgs := r_msgs r @ map (voteRequestOf r t) (filter (\<lambda>v. v \<noteq> r_id r) vs)\<rparr>)"
  using assms
proof (induction vs arbitrary: r)
  case (Cons v vs)
  have own: "voteRequestOf (r\<lparr>r_msgs := ms\<rparr>) t = voteRequestOf r t" for ms
    by (simp add: voteRequestOf_def fun_eq_iff)
  have "voteRequest r t MsgVote (r_Term r) v = Some (if v = r_id r then r else r\<lparr>r_msgs := r_msgs r @ [voteRequestOf r t v]\<rparr>)"
    using voteRequest_sends [OF Cons.prems] by (simp add: voteRequest_def)
  then show ?case
    using Cons.IH [of r] Cons.IH [of "r\<lparr>r_msgs := r_msgs r @ [voteRequestOf r t v]\<rparr>"] Cons.prems own by auto
qed simp

lemma requestVotes_sent:
  assumes "view_inv (r_raftLog r)" and "r_Term r \<noteq> 0"
  shows "requestVotes r t MsgVote (r_Term r) =
    Some (r\<lparr>r_msgs := r_msgs r @ map (voteRequestOf r t)
      (filter (\<lambda>v. v \<noteq> r_id r) (sorted_list_of_fset (JointIDs (pt_Voters (r_prs r)))))\<rparr>)"
  unfolding requestVotes_def by (rule voteRequests_sent [OF assms])

subsection \<open>The campaign\<close>

definition canTimeOut :: "raft \<Rightarrow> bool" where
  "canTimeOut r \<longleftrightarrow> r_electionPenaltyTime r \<noteq> 0 \<or> 0 < r_electionTimeout r"

lemma reset_returns: "canTimeOut r \<Longrightarrow> \<exists>r'. reset r t = Some r'"
proof -
  assume r: "canTimeOut r"
  let ?r1 = "if r_Term r \<noteq> t then r\<lparr>r_Term := t, r_Vote := 0\<rparr> else r"
  have "\<exists>r3. resetRandomizedElectionTimeout (?r1\<lparr>r_lead := 0, r_electionElapsed := 0, r_heartbeatElapsed := 0\<rparr>) = Some r3"
    unfolding resetTimeout_returns using r by (simp add: canTimeOut_def)
  then show ?thesis by (auto simp: reset_def Let_def)
qed

text \<open>A node whose own vote is not a quorum asks the others.\<close>

lemma campaign_asks:
  assumes t: "t \<noteq> campaignPreElection" and trm: "r_Term r < MaxUint64" and st: "r_state r \<noteq> StateLeader"
    and can: "canTimeOut r" and inv: "view_inv (r_raftLog r)"
    and many: "\<not> is_joint_quorum (pt_Voters (r_prs r)) {r_id r}"
  shows "\<exists>r'. campaign r t = Some r' \<and> r_state r' = StateCandidate \<and>
    (\<forall>v. v |\<in>| JointIDs (pt_Voters (r_prs r)) \<and> v \<noteq> r_id r \<longrightarrow>
       (\<exists>m \<in> set (r_msgs r'). m_Type m = MsgVote \<and> m_To m = v \<and> m_From m = r_id r \<and> m_Term m = r_Term r'))"
proof -
  have "\<exists>r1. becomeCandidate r = Some r1"
    using st reset_returns [of "r\<lparr>r_step := StepCandidate\<rparr>" "add64 (r_Term r) 1"] can
    by (auto simp: becomeCandidate_def canTimeOut_def)
  then obtain r1 where c: "becomeCandidate r = Some r1" by blast
  note f = becomeCandidate_fields [OF c]
  obtain res r2 where p: "poll r1 (r_id r1) True = (res, r2)" by fastforce
  have r2: "r2 = r1\<lparr>r_prs := RecordVote (r_prs r1) (r_id r) True\<rparr>" "res = TallyVotes (r_prs r2)"
    using poll_fields [OF p] f(1) by simp_all
  have "yes_votes (pt_Votes (r_prs r2)) \<subseteq> {r_id r}"
    using yes_votes_RecordVote [of "r_prs r1" "r_id r" True] f(10) r2(1) by (auto simp: yes_votes_def)
  then have lost: "snd (snd res) \<noteq> VoteWon" using tally_won [of "r_prs r2"] many r2 f(9) by auto
  have Trm: "r_Term r2 = r_Term r1" "r_Term r1 = Suc (r_Term r)" using f(2) r2(1) trm by (simp_all add: MaxUint64_def)
  then have "requestVotes r2 t MsgVote (r_Term r2) = Some (r2\<lparr>r_msgs := r_msgs r2 @ map (voteRequestOf r2 t)
      (filter (\<lambda>v. v \<noteq> r_id r2) (sorted_list_of_fset (JointIDs (pt_Voters (r_prs r2)))))\<rparr>)"
    using requestVotes_sent [of r2 t] inv f(4) r2(1) by simp
  then obtain r' where r': "r' = r2\<lparr>r_msgs := r_msgs r2 @ map (voteRequestOf r2 t)
      (filter (\<lambda>v. v \<noteq> r_id r2) (sorted_list_of_fset (JointIDs (pt_Voters (r_prs r2)))))\<rparr>" "campaign r t = Some r'"
    using campaign_real_eq [OF t, of r] c p lost Trm(1) by simp
  have same: "pt_Voters (r_prs r2) = pt_Voters (r_prs r)" "r_id r2 = r_id r" "r_state r2 = StateCandidate"
    using f r2(1) by simp_all
  have "voteRequestOf r2 t v \<in> set (r_msgs r')" if "v |\<in>| JointIDs (pt_Voters (r_prs r))" "v \<noteq> r_id r" for v
    using that same r'(1) by simp
  moreover have "r_Term r' = r_Term r2" "r_state r' = StateCandidate" using r'(1) same by simp_all
  ultimately show ?thesis using r'(2) same(2) voteRequestOf_fields by metis
qed

subsection \<open>Waiting\<close>

text \<open>A voter that is no leader, asks for no pre-vote, has applied all that is committed and needs others.\<close>

definition waiting :: "raft \<Rightarrow> bool" where
  "waiting r \<longleftrightarrow> r_tick r = TickElection \<and> r_state r \<noteq> StateLeader \<and> promotable r \<and> \<not> r_preVote r \<and>
     r_Term r < MaxUint64 \<and> canTimeOut r \<and> log_inv (r_raftLog r) \<and>
     rl_applied (r_raftLog r) = rl_committed (r_raftLog r) \<and>
     \<not> is_joint_quorum (pt_Voters (r_prs r)) {r_id r}"

text \<open>What a probe of the round trips leaves as it is.\<close>

definition clockless :: "raft \<Rightarrow> raft" where
  "clockless r = r\<lparr>r_env := undefined, r_msgs := [], r_rttprobeElapsed := 0, r_rttMap := fmempty\<rparr>"

definition same_clock :: "raft \<Rightarrow> raft \<Rightarrow> bool" where
  "same_clock r r' \<longleftrightarrow> clockless r' = clockless r"

lemma same_clock_refl [simp]: "same_clock r r"
  by (simp add: same_clock_def)

lemma same_clock_trans: "same_clock a b \<Longrightarrow> same_clock b c \<Longrightarrow> same_clock a c"
  by (simp add: same_clock_def)

lemma clockless_fields [simp]: "waiting (clockless r) = waiting r" "r_id (clockless r) = r_id r"
  "r_Term (clockless r) = r_Term r" "r_Vote (clockless r) = r_Vote r" "r_electionElapsed (clockless r) = r_electionElapsed r"
  "pt_Voters (r_prs (clockless r)) = pt_Voters (r_prs r)" "promotable (clockless r) = promotable r"
  "r_randomizedElectionTimeout (clockless r) = r_randomizedElectionTimeout r"
  by (simp_all add: clockless_def waiting_def promotable_def canTimeOut_def)

lemma same_clock_fields:
  assumes "same_clock r r'"
  shows "waiting r' = waiting r" and "r_id r' = r_id r" and "r_Term r' = r_Term r" and "r_Vote r' = r_Vote r"
    and "r_electionElapsed r' = r_electionElapsed r" and "pt_Voters (r_prs r') = pt_Voters (r_prs r)"
    and "r_randomizedElectionTimeout r' = r_randomizedElectionTimeout r" and "promotable r' = promotable r"
  using assms unfolding same_clock_def by (metis clockless_fields)+

lemma bcastProbeRtt_returns: "\<exists>r'. bcastProbeRtt r = Some r' \<and> same_clock r r'"
  unfolding bcastProbeRtt_def
proof (rule foldM_total)
  fix s v assume s: "same_clock r s"
  obtain t s1 where n: "Now s = (t, s1)" by fastforce
  then have s1: "same_clock s (s1\<lparr>r_rttMap := m, r_msgs := ms\<rparr>)" for m ms
    by (auto simp: Now_def Let_def same_clock_def clockless_def)
  show "\<exists>s'. (if v = r_id s then Some s
        else case Now s of (now, r1) \<Rightarrow>
          (case fmlookup (r_rttMap r1) v of
             Some i \<Rightarrow> sendRttProbeMsg (r1\<lparr>r_rttMap :=
                 fmupd v (i\<lparr>rtt_isProbed := True, rtt_lastProbingTime := Some now\<rparr>) (r_rttMap r1)\<rparr>) v
           | None \<Rightarrow> sendRttProbeMsg (r1\<lparr>r_rttMap :=
                 fmupd v \<lparr>rtt_isProbed = True, rtt_lastProbingTime = Some now, rtt_timeStamp = 0\<rparr> (r_rttMap r1)\<rparr>) v)) = Some s' \<and>
      same_clock r s'"
    using s s1 same_clock_trans
    by (auto simp: n sendRttProbeMsg_def send_def isVoteMsg_def Let_def split: option.splits)
qed simp

lemma stepLocal_probe: "\<exists>r'. stepLocal r MsgProbeRttHup = Some r' \<and> same_clock r r'"
  using bcastProbeRtt_returns [of r] by (auto simp: stepLocal_def Step_def stepTerm_def)

lemma sliceLog_nothing:
  assumes "log_inv l" and "rl_applied l = rl_committed l"
  shows "sliceLog l (rl_applied l + 1) (rl_committed l + 1) n = Some (Inr [])"
proof -
  note v = log_invD [OF assms(1)]
  then have "firstIndex l = Suc (rl_base l)" "Suc (rl_base l) \<le> Suc (lastIndex l)"
    by (simp_all add: firstIndex_eq)
  then show ?thesis using v assms(2) by (simp add: sliceLog_def mustCheckOutOfBounds_def Let_def)
qed

lemma stepLocal_campaigns:
  assumes "waiting r" shows "stepLocal r MsgHup = campaign r campaignElection"
proof -
  have "stepHup r = campaign r campaignElection"
    using assms sliceLog_nothing [of "r_raftLog r"] by (auto simp: stepHup_def waiting_def numOfPendingConf_def)
  then show ?thesis by (auto simp: stepLocal_def Step_def stepTerm_def)
qed

text \<open>The two things a tick can do.\<close>

lemma tick_probe:
  fixes r :: raft
  defines "r1 \<equiv> r\<lparr>r_electionElapsed := r_electionElapsed r + 1, r_rttprobeElapsed := r_rttprobeElapsed r + 1\<rparr>"
  shows "\<exists>r2. (if pastRttprobeTimeout r1 then stepLocal (r1\<lparr>r_rttprobeElapsed := 0\<rparr>) MsgProbeRttHup else Some r1) = Some r2 \<and>
    same_clock (r\<lparr>r_electionElapsed := r_electionElapsed r + 1\<rparr>) r2"
proof -
  have "clockless (r1\<lparr>r_rttprobeElapsed := 0\<rparr>) = clockless (r\<lparr>r_electionElapsed := r_electionElapsed r + 1\<rparr>)"
    "clockless r1 = clockless (r\<lparr>r_electionElapsed := r_electionElapsed r + 1\<rparr>)"
    by (simp_all add: r1_def clockless_def)
  then show ?thesis using stepLocal_probe [of "r1\<lparr>r_rttprobeElapsed := 0\<rparr>"] by (auto simp: same_clock_def)
qed

lemma tickElection_eq:
  assumes "same_clock (r\<lparr>r_electionElapsed := r_electionElapsed r + 1\<rparr>) r2"
    and "(let r1 = r\<lparr>r_electionElapsed := r_electionElapsed r + 1, r_rttprobeElapsed := r_rttprobeElapsed r + 1\<rparr> in
      if pastRttprobeTimeout r1 then stepLocal (r1\<lparr>r_rttprobeElapsed := 0\<rparr>) MsgProbeRttHup else Some r1) = Some r2"
  shows "tickElection r = (if promotable r \<and> r_randomizedElectionTimeout r \<le> r_electionElapsed r + 1
    then stepLocal (r2\<lparr>r_electionElapsed := 0\<rparr>) MsgHup else Some r2)"
proof -
  have "promotable r2 = promotable r" "pastElectionTimeout r2 \<longleftrightarrow> r_randomizedElectionTimeout r \<le> r_electionElapsed r + 1"
    using same_clock_fields(5,7,8) [OF assms(1)] by (simp_all add: pastElectionTimeout_def promotable_def)
  then show ?thesis using assms(2) unfolding tickElection_def Let_def by simp
qed

lemma waiting_elapsed [simp]: "waiting (r\<lparr>r_electionElapsed := k\<rparr>) = waiting r"
  by (simp add: waiting_def promotable_def canTimeOut_def)

lemma tick_waits:
  assumes w: "waiting r" and less: "r_electionElapsed r + 1 < r_randomizedElectionTimeout r"
  shows "\<exists>r'. tick r = Some r' \<and> same_clock (r\<lparr>r_electionElapsed := r_electionElapsed r + 1\<rparr>) r'"
proof -
  obtain r2 where r2: "same_clock (r\<lparr>r_electionElapsed := r_electionElapsed r + 1\<rparr>) r2"
    "tickElection r = (if promotable r \<and> r_randomizedElectionTimeout r \<le> r_electionElapsed r + 1
      then stepLocal (r2\<lparr>r_electionElapsed := 0\<rparr>) MsgHup else Some r2)"
    using tick_probe [of r] tickElection_eq [of r] by (auto simp: Let_def)
  moreover have "r_tick r = TickElection" using w by (simp add: waiting_def)
  ultimately show ?thesis using less by (simp add: tick_def)
qed

definition asks_all :: "raft \<Rightarrow> raft \<Rightarrow> bool" where
  "asks_all r r' \<longleftrightarrow> r_Term r' = Suc (r_Term r) \<and> r_Vote r' = r_id r \<and> r_state r' = StateCandidate \<and>
     (\<forall>v. v |\<in>| JointIDs (pt_Voters (r_prs r)) \<and> v \<noteq> r_id r \<longrightarrow>
       (\<exists>m \<in> set (r_msgs r'). m_Type m = MsgVote \<and> m_To m = v \<and> m_From m = r_id r \<and> m_Term m = r_Term r'))"

lemma asks_all_same: "same_clock r r1 \<Longrightarrow> asks_all r1 r' = asks_all r r'"
  using same_clock_fields [of r r1] by (simp add: asks_all_def)

lemma waiting_asks:
  assumes w: "waiting r" shows "\<exists>r'. stepLocal r MsgHup = Some r' \<and> asks_all r r'"
proof -
  have *: "campaignElection \<noteq> campaignPreElection" "r_Term r < MaxUint64" "r_state r \<noteq> StateLeader" "canTimeOut r"
    "view_inv (r_raftLog r)" "\<not> is_joint_quorum (pt_Voters (r_prs r)) {r_id r}"
    using w by (simp_all add: waiting_def log_inv_def)
  obtain r' where "campaign r campaignElection = Some r'" "r_state r' = StateCandidate"
    "\<forall>v. v |\<in>| JointIDs (pt_Voters (r_prs r)) \<and> v \<noteq> r_id r \<longrightarrow>
       (\<exists>m \<in> set (r_msgs r'). m_Type m = MsgVote \<and> m_To m = v \<and> m_From m = r_id r \<and> m_Term m = r_Term r')"
    using campaign_asks [OF *] by blast
  then show ?thesis using campaign_real [OF _ *(1,2)] stepLocal_campaigns [OF w] by (auto simp: asks_all_def stands_def)
qed

lemma tick_campaigns:
  assumes w: "waiting r" and due: "r_randomizedElectionTimeout r \<le> r_electionElapsed r + 1"
  shows "\<exists>r'. tick r = Some r' \<and> asks_all r r'"
proof -
  obtain r2 where r2: "same_clock (r\<lparr>r_electionElapsed := r_electionElapsed r + 1\<rparr>) r2"
    "tickElection r = (if promotable r \<and> r_randomizedElectionTimeout r \<le> r_electionElapsed r + 1
      then stepLocal (r2\<lparr>r_electionElapsed := 0\<rparr>) MsgHup else Some r2)"
    using tick_probe [of r] tickElection_eq [of r] by (auto simp: Let_def)
  moreover have "r_tick r = TickElection" "promotable r" using w by (simp_all add: waiting_def)
  ultimately have t: "tick r = stepLocal (r2\<lparr>r_electionElapsed := 0\<rparr>) MsgHup" using due by (simp add: tick_def)
  have w2: "waiting (r2\<lparr>r_electionElapsed := 0\<rparr>)" using same_clock_fields(1) [OF r2(1)] w by simp
  have "asks_all (r2\<lparr>r_electionElapsed := 0\<rparr>) r' = asks_all r r'" for r'
    using same_clock_fields [OF r2(1)] by (simp add: asks_all_def)
  then show ?thesis using waiting_asks [OF w2] t by auto
qed

text \<open>A run of ticks with no message in between.\<close>

fun ticks :: "nat \<Rightarrow> raft \<Rightarrow> raft option" where
  "ticks 0 r = Some r"
| "ticks (Suc k) r = do { r1 \<leftarrow> tick r; ticks k r1 }"

lemma silence_campaigns:
  assumes "waiting r"
  shows "\<exists>k r'. int k \<le> max 1 (r_randomizedElectionTimeout r - r_electionElapsed r) \<and> ticks k r = Some r' \<and> asks_all r r'"
  using assms
proof (induction "nat (r_randomizedElectionTimeout r - r_electionElapsed r)" arbitrary: r rule: less_induct)
  case less
  show ?case
  proof (cases "r_electionElapsed r + 1 < r_randomizedElectionTimeout r")
    case True
    obtain r1 where r1: "tick r = Some r1" "same_clock (r\<lparr>r_electionElapsed := r_electionElapsed r + 1\<rparr>) r1"
      using tick_waits [OF less.prems True] by blast
    note f = same_clock_fields [OF r1(2)]
    have w1: "waiting r1" and lt: "nat (r_randomizedElectionTimeout r1 - r_electionElapsed r1) <
        nat (r_randomizedElectionTimeout r - r_electionElapsed r)"
      using f True less.prems by simp_all
    obtain k r' where k: "int k \<le> max 1 (r_randomizedElectionTimeout r1 - r_electionElapsed r1)"
      "ticks k r1 = Some r'" "asks_all r1 r'" using less.hyps [OF lt w1] by blast
    have "asks_all r r'" using k(3) f(2,3,6) by (auto simp: asks_all_def)
    moreover have "int (Suc k) \<le> max 1 (r_randomizedElectionTimeout r - r_electionElapsed r)" using k(1) f True by simp
    moreover have "ticks (Suc k) r = Some r'" using r1(1) k(2) by simp
    ultimately show ?thesis by blast
  next
    case False
    then obtain r' where "tick r = Some r'" "asks_all r r'" using tick_campaigns [OF less.prems] by auto
    then have "ticks 1 r = Some r'" "asks_all r r'" by simp_all
    then show ?thesis by (intro exI [of _ 1] exI [of _ r']) simp
  qed
qed

end
