(* ===== verification/SampleRtt.thy ===== *)
theory SampleRtt
  imports SampleRun ElectionTimeout
begin

text \<open>A leader with measured round trips, and a peer that reports shorter ones.\<close>

text \<open>Execution of the rounding: integers below 53 bits are exact, and the constants of the code.\<close>

lemma float64_code [code]:
  "float64 x = (case quotient_of x of (p, q) \<Rightarrow>
     if q = 1 \<and> \<bar>p\<bar> < 9007199254740992 then x
     else let ulp = pow2 (ratLog2 \<bar>x\<bar> - 52) in of_int (roundHalfEven (x / ulp)) * ulp)"
proof -
  obtain p q where pq: "quotient_of x = (p, q)" by fastforce
  show ?thesis
  proof (cases "q = 1 \<and> \<bar>p\<bar> < 9007199254740992")
    case True
    then have "x = of_int p" using quotient_of_div [OF pq] by simp
    moreover have "\<bar>p\<bar> < 2 ^ 53" using True by simp
    ultimately show ?thesis using floatOfInt_exact [of p] True pq by (simp add: floatOfInt_def)
  next
    case False
    then have "x \<noteq> 0" using pq by auto
    then show ?thesis unfolding pq prod.case if_not_P [OF False] by (simp add: float64_def)
  qed
qed

definition rttInfo :: "int \<Rightarrow> rttMetaInfo" where
  "rttInfo t = \<lparr>rtt_isProbed = True, rtt_lastProbingTime = Some 0, rtt_timeStamp = t\<rparr>"

definition farLeader :: raft where
  "farLeader = sampleLeader\<lparr>r_env := sampleEnv\<lparr>env_clockPos := 5\<rparr>,
     r_rttMap := fmap_of_list [(2, rttInfo 9000), (3, rttInfo 8000)],
     r_nodeLatency := fmap_of_list [(2, fmap_of_list [(1, 100), (3, 100)])]\<rparr>"

text \<open>It hands over to that peer, and measures a round trip of five milliseconds to it.\<close>

lemma farLeader_transfer:
  "\<exists>r'. considerTransfer farLeader = Some r' \<and> r_leadTransferee r' = 2"
proof -
  have "case considerTransfer farLeader of None \<Rightarrow> False | Some r' \<Rightarrow> r_leadTransferee r' = 2" by code_simp
  then show ?thesis by (auto split: option.splits)
qed

lemma farLeader_measured: "measured farLeader 2 = 5000" "rttValues (rttAfter farLeader 2) = [5000, 8000]"
  "length (VoterNodes (r_prs farLeader)) = 3" "r_electionTimeout farLeader = 10" "r_step farLeader = StepLeader"
  "r_leadTransferee farLeader = 0"
  by code_simp+

text \<open>The times stored there, and after an answer of the first peer.\<close>

lemma farLeader_maps: "r_rttMap farLeader = fmap_of_list [(2, rttInfo 9000), (3, rttInfo 8000)]" "r_rttMap_old farLeader = fmempty"
  by code_simp+

lemma farLeader_rtt: "rttOf farLeader v = (if v = 2 then rttInfo 9000 else if v = 3 then rttInfo 8000 else emptyRtt)"
  "rttOldOf farLeader v = emptyRtt"
  by (simp_all add: rttOf_def rttOldOf_def farLeader_maps)

lemma farLeader_old: "rtt_timeStamp (rttOf farLeader 2) = 9000"
  by (simp add: farLeader_rtt rttInfo_def)

lemma farLeader_times: "\<bar>rtt_timeStamp (rttOf farLeader w)\<bar> < 2 ^ 53"
  by (simp add: farLeader_rtt rttInfo_def emptyRtt_def)

lemma farLeader_nonneg: "0 \<le> rtt_timeStamp (rttOf farLeader v) \<and> 0 \<le> rtt_timeStamp (rttOldOf farLeader v)"
  by (simp add: farLeader_rtt rttInfo_def emptyRtt_def)

lemma farLeader_sums: "(\<Sum>v \<leftarrow> sortedKeys (r_rttMap farLeader). rtt_timeStamp (rttOf farLeader v)) = 17000"
  "(\<Sum>v \<leftarrow> sortedKeys (r_rttMap farLeader). rtt_timeStamp (rttOldOf farLeader v)) = 0"
  by code_simp+

lemma farLeader_answered: "calcRtt farLeader 2 = Some r' \<Longrightarrow> rttValues r' = [5000, 8000]"
proof (erule calcRtt_cases)
  fix e p t assume r': "r' = (rttAfter farLeader 2)\<lparr>r_env := e, r_electionPenaltyTime := p, r_randomizedElectionTimeout := t\<rparr>"
  have "rttValues r' = rttValues (rttAfter farLeader 2)" unfolding r' by (simp add: rttValues_def)
  then show "rttValues r' = [5000, 8000]" using farLeader_measured(2) by simp
qed

lemma sampleNode_waiting: "waiting (sampleNode 1)"
proof -
  have "r_tick (sampleNode 1) = TickElection" "r_state (sampleNode 1) \<noteq> StateLeader" "promotable (sampleNode 1)"
    "\<not> r_preVote (sampleNode 1)" "r_Term (sampleNode 1) < MaxUint64" "canTimeOut (sampleNode 1)"
    "rl_applied (r_raftLog (sampleNode 1)) = rl_committed (r_raftLog (sampleNode 1))"
    "pt_Voters (r_prs (sampleNode 1)) = sampleVoters" "r_id (sampleNode 1) = 1" by code_simp+
  then show ?thesis using sampleNode_log [of 1] not_quorum_of_one [of "{1}"] by (simp add: waiting_def)
qed

end
