(* ===== verification/NodeFacts.thy ===== *)
theory NodeFacts
  imports NodeLoop RaftLogOps
begin

text \<open>
  The interface to the application: \<open>HasReady\<close> says what the next \<open>Ready\<close> holds, an accepted and
  advanced \<open>Ready\<close> leaves nothing of it behind, and the goroutine alternates \<open>Ready\<close> and \<open>Advance\<close> and
  takes proposals only while it knows a leader.
\<close>

lemma emptyHardState_fields: "hs_Term emptyHardState = 0" "hs_Vote emptyHardState = 0" "hs_Commit emptyHardState = 0"
  by (simp_all add: emptyHardState_def)

lemma isHardStateEqual_iff [simp]: "isHardStateEqual a b \<longleftrightarrow> a = b"
  by (cases a; cases b) (simp add: isHardStateEqual_def)

lemma softStateEqual_iff [simp]: "softStateEqual a b \<longleftrightarrow> a = b"
  by (cases a; cases b) (simp add: softStateEqual_def)

text \<open>The announcement and the contents agree, but for an empty snapshot.\<close>

lemma HasReady_iff:
  assumes inv: "log_inv (r_raftLog (rn_raft rn))" and rd: "readyWithoutAccept rn = Some rd"
  shows "HasReady rn = containsUpdates rd"
proof -
  let ?r = "rn_raft rn"
  obtain es where es: "nextEnts (r_raftLog ?r) = Some es" "es \<noteq> [] \<longleftrightarrow> hasNextEnts (r_raftLog ?r)"
    using nextEnts_ok [OF inv] by blast
  have e: "IsEmptySnap emptySnapshot" by (simp add: IsEmptySnap_def emptySnapshot_def)
  show ?thesis
    using rd es unfolding readyWithoutAccept_def newReady_def HasReady_def containsUpdates_def Let_def
    by (auto simp: IsEmptyHardState_def e split: option.splits)
qed

text \<open>Accepting a \<open>Ready\<close> takes its soft state, read states and messages out of the next one.\<close>

lemma acceptReady_drained:
  assumes rd: "readyWithoutAccept rn = Some rd" and after: "readyWithoutAccept (acceptReady rn rd) = Some rd'"
  shows "rdy_SoftState rd' = None" "rdy_ReadStates rd' = []" "rdy_Messages rd' = []"
    "rdy_HardState rd' = rdy_HardState rd" "rdy_Entries rd' = rdy_Entries rd"
    "rdy_CommittedEntries rd' = rdy_CommittedEntries rd" "rdy_Snapshot rd' = rdy_Snapshot rd"
proof -
  let ?r = "rn_raft rn"
  have soft: "rn_prevSoftSt (acceptReady rn rd) = softStateOf ?r"
    using rd by (auto simp: readyWithoutAccept_def newReady_def acceptReady_def Let_def bind_eq_Some_conv
        split: option.splits if_split_asm)
  have hard: "rn_prevHardSt (acceptReady rn rd) = rn_prevHardSt rn"
    by (simp add: acceptReady_def Let_def split: option.splits)
  have raft: "softStateOf (rn_raft (acceptReady rn rd)) = softStateOf ?r" "hardStateOf (rn_raft (acceptReady rn rd)) = hardStateOf ?r"
    "r_raftLog (rn_raft (acceptReady rn rd)) = r_raftLog ?r" "r_msgs (rn_raft (acceptReady rn rd)) = []"
    by (simp_all add: acceptReady_def Let_def softStateOf_def hardStateOf_def split: option.splits)
  have reads: "r_readStates (rn_raft (acceptReady rn rd)) = []"
    using rd by (auto simp: readyWithoutAccept_def newReady_def acceptReady_def Let_def bind_eq_Some_conv split: option.splits)
  show "rdy_SoftState rd' = None" "rdy_ReadStates rd' = []" "rdy_Messages rd' = []"
    "rdy_HardState rd' = rdy_HardState rd" "rdy_Entries rd' = rdy_Entries rd"
    "rdy_CommittedEntries rd' = rdy_CommittedEntries rd" "rdy_Snapshot rd' = rdy_Snapshot rd"
    using rd after soft hard raft reads unfolding readyWithoutAccept_def newReady_def Let_def
    by (auto simp: bind_eq_Some_conv)
qed

subsection \<open>The goroutine\<close>

text \<open>The proposal channel is open only with a leader known.\<close>

definition loop_inv :: "nodeLoop \<Rightarrow> bool" where
  "loop_inv n \<longleftrightarrow> (nl_propc n \<longrightarrow> nl_lead n \<noteq> 0)"

lemma loopTop_cases:
  assumes "loopTop n = Some n1"
  shows "nl_rn n1 = nl_rn n" "nl_advancec n1 = nl_advancec n" "nl_stopped n1 = nl_stopped n"
    "nl_lead n1 = r_lead (rn_raft (nl_rn n))"
    "nl_advancec n \<Longrightarrow> \<not> nl_readyc n1 \<and> nl_rd n1 = nl_rd n"
    "\<not> nl_advancec n \<Longrightarrow> HasReady (nl_rn n) \<Longrightarrow> nl_readyc n1 \<and> readyWithoutAccept (nl_rn n) = Some (nl_rd n1)"
    "\<not> nl_advancec n \<Longrightarrow> \<not> HasReady (nl_rn n) \<Longrightarrow> nl_readyc n1 = nl_readyc n \<and> nl_rd n1 = nl_rd n"
    "loop_inv n \<Longrightarrow> nl_propc n1 \<Longrightarrow> nl_lead n1 \<noteq> 0"
proof -
  obtain q where q: "(if nl_advancec n then Some (n\<lparr>nl_readyc := False\<rparr>)
                else if HasReady (nl_rn n)
                then do { rd \<leftarrow> readyWithoutAccept (nl_rn n); Some (n\<lparr>nl_rd := rd, nl_readyc := True\<rparr>) }
                else Some n) = Some q"
    and n1: "Some (if nl_lead q \<noteq> r_lead (rn_raft (nl_rn q))
                then q\<lparr>nl_propc := hasLeader (rn_raft (nl_rn q)), nl_lead := r_lead (rn_raft (nl_rn q))\<rparr> else q) = Some n1"
    using assms unfolding loopTop_def Let_def bind_eq_Some_conv by blast
  have f: "nl_rn q = nl_rn n" "nl_advancec q = nl_advancec n" "nl_stopped q = nl_stopped n" "nl_lead q = nl_lead n"
    "nl_propc q = nl_propc n"
    "nl_advancec n \<Longrightarrow> \<not> nl_readyc q \<and> nl_rd q = nl_rd n"
    "\<not> nl_advancec n \<Longrightarrow> HasReady (nl_rn n) \<Longrightarrow> nl_readyc q \<and> readyWithoutAccept (nl_rn n) = Some (nl_rd q)"
    "\<not> nl_advancec n \<Longrightarrow> \<not> HasReady (nl_rn n) \<Longrightarrow> nl_readyc q = nl_readyc n \<and> nl_rd q = nl_rd n"
    using q by (auto simp: bind_eq_Some_conv split: if_split_asm)
  show "nl_rn n1 = nl_rn n" "nl_advancec n1 = nl_advancec n" "nl_stopped n1 = nl_stopped n"
    "nl_lead n1 = r_lead (rn_raft (nl_rn n))"
    "nl_advancec n \<Longrightarrow> \<not> nl_readyc n1 \<and> nl_rd n1 = nl_rd n"
    "\<not> nl_advancec n \<Longrightarrow> HasReady (nl_rn n) \<Longrightarrow> nl_readyc n1 \<and> readyWithoutAccept (nl_rn n) = Some (nl_rd n1)"
    "\<not> nl_advancec n \<Longrightarrow> \<not> HasReady (nl_rn n) \<Longrightarrow> nl_readyc n1 = nl_readyc n \<and> nl_rd n1 = nl_rd n"
    "loop_inv n \<Longrightarrow> nl_propc n1 \<Longrightarrow> nl_lead n1 \<noteq> 0"
    using n1 f by (auto simp: loop_inv_def hasLeader_def split: if_split_asm)
qed

lemma loopEvent_fields:
  assumes "loopEvent n e = Some n'"
  shows "nl_lead n' = nl_lead n" "nl_propc n' \<Longrightarrow> nl_propc n" "nl_readyc n' = nl_readyc n"
    "nl_advancec n' = (if e = EvReady then True else if e = EvAdvance then False else nl_advancec n)"
  using assms unfolding loopEvent_def confEvent_def Let_def
  by (auto simp: bind_eq_Some_conv split: nodeEvent.splits if_split_asm)

lemma loop_reach_inv: "loop_reach rn n \<Longrightarrow> loop_inv n"
proof (induction rule: loop_reach.induct)
  case start
  then show ?case by (simp add: loop_inv_def startLoop_def)
next
  case (step n e n2)
  obtain n1 where t: "loopTop n = Some n1" and ev: "loopEvent n1 e = Some n2"
    using step.hyps(2) by (auto elim: loop_stepE)
  show ?case
    using loopTop_cases(8) [OF t step.IH] loopEvent_fields(1,2) [OF ev] by (auto simp: loop_inv_def)
qed

text \<open>
  A \<open>Ready\<close> is handed over only when the one before has been advanced past, an \<open>Advance\<close> is taken only
  after a \<open>Ready\<close>, and a proposal only with a leader.
\<close>

lemma loop_step_discipline:
  assumes "loop_reach rn n" and "loop_step n e n2"
  shows "e = EvReady \<Longrightarrow> \<not> nl_advancec n \<and> nl_advancec n2" "e = EvAdvance \<Longrightarrow> nl_advancec n \<and> \<not> nl_advancec n2"
    "e \<notin> {EvReady, EvAdvance} \<Longrightarrow> nl_advancec n2 = nl_advancec n"
    "e = EvProp m \<Longrightarrow> r_lead (rn_raft (nl_rn n)) \<noteq> 0"
proof -
  obtain n1 where t: "loopTop n = Some n1" and en: "enabled n1 e" and ev: "loopEvent n1 e = Some n2"
    using assms(2) by (auto elim: loop_stepE)
  note f = loopTop_cases [OF t] and g = loopEvent_fields [OF ev]
  show "e = EvReady \<Longrightarrow> \<not> nl_advancec n \<and> nl_advancec n2"
    using en f(5) g(4) by (auto simp: enabled_def)
  show "e = EvAdvance \<Longrightarrow> nl_advancec n \<and> \<not> nl_advancec n2"
    using en f(2) g(4) by (auto simp: enabled_def)
  show "e \<notin> {EvReady, EvAdvance} \<Longrightarrow> nl_advancec n2 = nl_advancec n"
    using f(2) g(4) by auto
  show "e = EvProp m \<Longrightarrow> r_lead (rn_raft (nl_rn n)) \<noteq> 0"
    using en f(4) f(8) [OF loop_reach_inv [OF assms(1)]] by (auto simp: enabled_def)
qed

subsection \<open>Runs of the goroutine\<close>

text \<open>A run with the events that it handled.\<close>

inductive loop_run :: "rawNode \<Rightarrow> nodeEvent list \<Rightarrow> nodeLoop \<Rightarrow> bool" for rn :: rawNode where
  run_start: "loop_run rn [] (startLoop rn)"
| run_step: "loop_run rn es n \<Longrightarrow> loop_step n e n2 \<Longrightarrow> loop_run rn (es @ [e]) n2"

text \<open>Ready and Advance by turns, a Ready first; \<open>out\<close> is whether a Ready is outstanding.\<close>

fun alternates :: "bool \<Rightarrow> nodeEvent list \<Rightarrow> bool" where
  "alternates out [] = True"
| "alternates out (e # es) =
     (if e = EvReady then \<not> out \<and> alternates True es
      else if e = EvAdvance then out \<and> alternates False es else alternates out es)"

fun outstanding :: "bool \<Rightarrow> nodeEvent list \<Rightarrow> bool" where
  "outstanding out [] = out"
| "outstanding out (e # es) = outstanding (if e = EvReady then True else if e = EvAdvance then False else out) es"

lemma alternates_snoc: "alternates out (es @ [e]) \<longleftrightarrow> alternates out es \<and>
    (if e = EvReady then \<not> outstanding out es else if e = EvAdvance then outstanding out es else True)"
  by (induction es arbitrary: out) auto

lemma outstanding_snoc: "outstanding out (es @ [e]) =
    (if e = EvReady then True else if e = EvAdvance then False else outstanding out es)"
  by (induction es arbitrary: out) auto

lemma loop_run_reach: "loop_run rn es n \<Longrightarrow> loop_reach rn n"
  by (induction rule: loop_run.induct) (auto intro: loop_reach.intros)

lemma loop_run_alternates: "loop_run rn es n \<Longrightarrow> alternates False es \<and> nl_advancec n = outstanding False es"
proof (induction rule: loop_run.induct)
  case run_start
  then show ?case by (simp add: startLoop_def)
next
  case (run_step es n e n2)
  note d = loop_step_discipline [OF loop_run_reach [OF run_step.hyps(1)] run_step.hyps(2)]
  show ?case using run_step.IH d(1-3) by (auto simp: alternates_snoc outstanding_snoc)
qed

end
