(* ===== verification/ConfchangeText.thy ===== *)
theory ConfchangeText
  imports Raftpb
begin

text \<open>
  \<open>glee-etcd/raft/raftpb/confchange.go\<close>, the text form of configuration changes: \<open>v1 l2 r3 u4\<close> adds voter
  1 and learner 2, removes 3 and updates 4. What the code uses of the Go libraries \<open>strings\<close>, \<open>strconv\<close>
  and \<open>fmt\<close> is written out on ASCII strings (of white space \<open>TrimSpace\<close> knows more than ASCII has).
\<close>

datatype parseErr = ErrUnknownToken string | ErrUnknownInput string | ErrSyntax | ErrRange

subsection \<open>Decimal numbers\<close>

definition digitChar :: "nat \<Rightarrow> char" where
  "digitChar d = char_of (48 + d)"

definition digitVal :: "char \<Rightarrow> nat option" where
  "digitVal c = (let k = of_char c :: nat in if 48 \<le> k \<and> k \<le> 57 then Some (k - 48) else None)"

text \<open>\<open>%d\<close>\<close>

fun decimal :: "nat \<Rightarrow> string" where
  "decimal n = (if n < 10 then [digitChar n] else decimal (n div 10) @ [digitChar (n mod 10)])"

declare decimal.simps [simp del]

text \<open>\<open>strconv.ParseUint(s, 10, 64)\<close>\<close>

fun parseDigits :: "string \<Rightarrow> nat \<Rightarrow> parseErr + nat" where
  "parseDigits [] n = Inr n"
| "parseDigits (c # cs) n =
     (case digitVal c of
        None \<Rightarrow> Inl ErrSyntax
      | Some d \<Rightarrow> if n * 10 + d > MaxUint64 then Inl ErrRange else parseDigits cs (n * 10 + d))"

definition ParseUint :: "string \<Rightarrow> parseErr + nat" where
  "ParseUint s = (if s = [] then Inl ErrSyntax else parseDigits s 0)"

lemma digitVal_digitChar [simp]: "d < 10 \<Longrightarrow> digitVal (digitChar d) = Some d"
  by (simp add: digitVal_def digitChar_def)

lemma parseDigits_decimal: "n \<le> MaxUint64 \<Longrightarrow> parseDigits (decimal n @ cs) 0 = parseDigits cs n"
proof (induction n arbitrary: cs rule: decimal.induct)
  case (1 n)
  show ?case
  proof (cases "n < 10")
    case False
    have "n div 10 \<le> MaxUint64" using "1.prems" by simp
    then have "parseDigits (decimal (n div 10) @ digitChar (n mod 10) # cs) 0 = parseDigits (digitChar (n mod 10) # cs) (n div 10)"
      using "1.IH" [OF False] by blast
    moreover have "n div 10 * 10 + n mod 10 = n" by simp
    ultimately show ?thesis using False "1.prems" by (simp add: decimal.simps [of n])
  qed (use "1.prems" in \<open>simp add: decimal.simps [of n]\<close>)
qed

lemma decimal_nonempty [simp]: "decimal n \<noteq> []"
  by (simp add: decimal.simps [of n])

lemma ParseUint_decimal [simp]: "n \<le> MaxUint64 \<Longrightarrow> ParseUint (decimal n) = Inr n"
  using parseDigits_decimal [of n "[]"] by (simp add: ParseUint_def)

lemma ParseUint_range: "ParseUint s = Inr n \<Longrightarrow> n \<le> MaxUint64"
proof -
  have "parseDigits s k = Inr n \<Longrightarrow> k \<le> MaxUint64 \<Longrightarrow> n \<le> MaxUint64" for k
    by (induction s k rule: parseDigits.induct) (auto split: option.splits if_splits)
  then show "ParseUint s = Inr n \<Longrightarrow> n \<le> MaxUint64" by (simp add: ParseUint_def split: if_splits)
qed

subsection \<open>Splitting\<close>

definition isSpace :: "char \<Rightarrow> bool" where
  "isSpace c \<longleftrightarrow> (of_char c :: nat) \<in> {9, 10, 11, 12, 13, 32}"

definition TrimSpace :: "string \<Rightarrow> string" where
  "TrimSpace s = rev (dropWhile isSpace (rev (dropWhile isSpace s)))"

text \<open>\<open>strings.Split(s, " ")\<close>: the pieces between single spaces, empty ones included.\<close>

fun splitSpace :: "string \<Rightarrow> string list" where
  "splitSpace [] = [[]]"
| "splitSpace (c # cs) =
     (if c = CHR '' '' then [] # splitSpace cs
      else case splitSpace cs of [] \<Rightarrow> [[c]] | t # ts \<Rightarrow> (c # t) # ts)"

subsection \<open>Parsing and printing\<close>

definition parseToken :: "string \<Rightarrow> parseErr + confChangeSingle" where
  "parseToken tok =
     (if length tok < 2 then Inl (ErrUnknownToken tok)
      else
        let id = (\<lambda>t. case ParseUint (tl tok) of Inl e \<Rightarrow> Inl e | Inr v \<Rightarrow> Inr \<lparr>ccs_Type = t, ccs_NodeID = v\<rparr>) in
        if hd tok = CHR ''v'' then id ConfChangeAddNode
        else if hd tok = CHR ''l'' then id ConfChangeAddLearnerNode
        else if hd tok = CHR ''r'' then id ConfChangeRemoveNode
        else if hd tok = CHR ''u'' then id ConfChangeUpdateNode
        else Inl (ErrUnknownInput tok))"

fun parseTokens :: "string list \<Rightarrow> parseErr + confChangeSingle list" where
  "parseTokens [] = Inr []"
| "parseTokens (tok # toks) =
     (case parseToken tok of
        Inl e \<Rightarrow> Inl e
      | Inr cc \<Rightarrow> (case parseTokens toks of Inl e \<Rightarrow> Inl e | Inr ccs \<Rightarrow> Inr (cc # ccs)))"

definition ConfChangesFromString :: "string \<Rightarrow> parseErr + confChangeSingle list" where
  "ConfChangesFromString s =
     (let toks = splitSpace (TrimSpace s) in parseTokens (if hd toks = [] then [] else toks))"

definition typeString :: "confChangeType \<Rightarrow> string" where
  "typeString t = (case t of
       ConfChangeAddNode \<Rightarrow> ''v''
     | ConfChangeAddLearnerNode \<Rightarrow> ''l''
     | ConfChangeRemoveNode \<Rightarrow> ''r''
     | ConfChangeUpdateNode \<Rightarrow> ''u''
     | ConfChangeTypeOther _ \<Rightarrow> ''unknown'')"

text \<open>The loop of the printer, from position \<open>i\<close> on.\<close>

fun printFrom :: "nat \<Rightarrow> confChangeSingle list \<Rightarrow> string" where
  "printFrom i [] = []"
| "printFrom i (cc # ccs) =
     (if i > 0 then '' '' else []) @ typeString (ccs_Type cc) @ decimal (ccs_NodeID cc) @ printFrom (i + 1) ccs"

definition ConfChangesToString :: "confChangeSingle list \<Rightarrow> string" where
  "ConfChangesToString ccs = printFrom 0 ccs"

subsection \<open>The round trip\<close>

definition printable :: "confChangeSingle \<Rightarrow> bool" where
  "printable cc \<longleftrightarrow> ccs_NodeID cc \<le> MaxUint64 \<and>
     ccs_Type cc \<in> {ConfChangeAddNode, ConfChangeAddLearnerNode, ConfChangeRemoveNode, ConfChangeUpdateNode}"

definition token :: "confChangeSingle \<Rightarrow> string" where
  "token cc = typeString (ccs_Type cc) @ decimal (ccs_NodeID cc)"

lemma parseToken_token: "printable cc \<Longrightarrow> parseToken (token cc) = Inr cc"
  by (cases "decimal (ccs_NodeID cc)") (auto simp: printable_def token_def typeString_def parseToken_def Let_def
      dest: ParseUint_decimal)

text \<open>No character of a token is white space.\<close>

lemma digitChar_not_space: "d < 10 \<Longrightarrow> \<not> isSpace (digitChar d)"
  by (auto simp: isSpace_def digitChar_def)

lemma decimal_not_space: "c \<in> set (decimal n) \<Longrightarrow> \<not> isSpace c"
proof (induction n rule: decimal.induct)
  case (1 n)
  then show ?case using digitChar_not_space
    by (cases "n < 10") (auto simp: decimal.simps [of n])
qed

lemma token_not_space: "printable cc \<Longrightarrow> c \<in> set (token cc) \<Longrightarrow> \<not> isSpace c"
  using decimal_not_space by (auto simp: printable_def token_def typeString_def isSpace_def)

lemma token_no_blank: "printable cc \<Longrightarrow> c \<in> set (token cc) \<Longrightarrow> c \<noteq> CHR '' ''"
  using token_not_space [of cc c] by (auto simp: isSpace_def)

lemma splitSpace_nonempty [simp]: "splitSpace s \<noteq> []"
  by (cases s) (auto split: list.splits)

lemma splitSpace_token: "(\<And>c. c \<in> set t \<Longrightarrow> c \<noteq> CHR '' '') \<Longrightarrow> splitSpace (t @ s) =
    (case splitSpace s of [] \<Rightarrow> [t] | u # us \<Rightarrow> (t @ u) # us)"
  by (induction t) (auto split: list.splits)

lemma token_nonempty [simp]: "token cc \<noteq> []"
  by (simp add: token_def)

lemma printFrom_Cons: "printFrom i (cc # ccs) = (if i > 0 then '' '' else []) @ token cc @ printFrom (Suc i) ccs"
  by (simp add: token_def)

lemma splitSpace_printed:
  "\<forall>c \<in> set (cc # ccs). printable c \<Longrightarrow> splitSpace (token cc @ printFrom (Suc i) ccs) = map token (cc # ccs)"
proof (induction ccs arbitrary: cc i)
  case Nil
  then have "\<And>c. c \<in> set (token cc) \<Longrightarrow> c \<noteq> CHR '' ''" using token_no_blank by auto
  then show ?case using splitSpace_token [of "token cc" "[]"] by simp
next
  case (Cons d ccs)
  then have "\<And>c. c \<in> set (token cc) \<Longrightarrow> c \<noteq> CHR '' ''" using token_no_blank by auto
  then show ?case using Cons.IH [of d "Suc i"] Cons.prems by (simp add: splitSpace_token printFrom_Cons del: printFrom.simps)
qed

lemma dropWhile_hd: "s = [] \<or> \<not> P (hd s) \<Longrightarrow> dropWhile P s = s"
  by (cases s) auto

lemma TrimSpace_id: "s = [] \<or> \<not> isSpace (hd s) \<and> \<not> isSpace (List.last s) \<Longrightarrow> TrimSpace s = s"
  using dropWhile_hd [of s isSpace] dropWhile_hd [of "rev s" isSpace] by (auto simp: TrimSpace_def hd_rev)

lemma printFrom_last: "ccs \<noteq> [] \<Longrightarrow> \<forall>c \<in> set ccs. printable c \<Longrightarrow> printFrom i ccs \<noteq> [] \<and> \<not> isSpace (List.last (printFrom i ccs))"
proof (induction ccs arbitrary: i)
  case (Cons cc ccs)
  have "List.last (token cc) \<in> set (token cc)" by simp
  then have "\<not> isSpace (List.last (token cc))" using token_not_space Cons.prems by auto
  then show ?case using Cons by (cases "ccs = []") (auto simp: printFrom_Cons simp del: printFrom.simps(2))
qed simp

lemma parseTokens_tokens: "\<forall>c \<in> set ccs. printable c \<Longrightarrow> parseTokens (map token ccs) = Inr ccs"
  by (induction ccs) (simp_all add: parseToken_token)

lemma FromString_ToString:
  assumes "\<forall>c \<in> set ccs. printable c"
  shows "ConfChangesFromString (ConfChangesToString ccs) = Inr ccs"
proof (cases ccs)
  case Nil
  then show ?thesis by (simp add: ConfChangesFromString_def ConfChangesToString_def TrimSpace_def)
next
  case (Cons cc rest)
  let ?s = "printFrom 0 (cc # rest)"
  have s: "?s = token cc @ printFrom (Suc 0) rest" by (simp add: printFrom_Cons del: printFrom.simps)
  have "hd ?s = hd (token cc)" unfolding s by simp
  then have "\<not> isSpace (hd ?s)" using token_not_space [of cc "hd (token cc)"] assms Cons by simp
  then have "TrimSpace ?s = ?s" using TrimSpace_id printFrom_last [of "cc # rest" 0] assms Cons by blast
  moreover have "splitSpace ?s = map token (cc # rest)" unfolding s using splitSpace_printed assms Cons by blast
  ultimately have "splitSpace (TrimSpace ?s) = map token (cc # rest)" by simp
  then show ?thesis using parseTokens_tokens [OF assms] Cons
    unfolding ConfChangesFromString_def ConfChangesToString_def Let_def by simp
qed

text \<open>Whatever is parsed can be printed again.\<close>

lemma parseToken_printable: "parseToken tok = Inr cc \<Longrightarrow> printable cc"
  by (auto simp: parseToken_def Let_def printable_def dest: ParseUint_range split: if_splits sum.splits)

lemma parseTokens_printable: "parseTokens toks = Inr ccs \<Longrightarrow> \<forall>c \<in> set ccs. printable c"
  by (induction toks arbitrary: ccs) (auto dest: parseToken_printable split: sum.splits)

lemma FromString_printable: "ConfChangesFromString s = Inr ccs \<Longrightarrow> \<forall>c \<in> set ccs. printable c"
  using parseTokens_printable unfolding ConfChangesFromString_def Let_def by blast

end
