(* ===== verification/WindowFacts.thy ===== *)
theory WindowFacts
  imports Progress Raftpb
begin

text \<open>Runs of the inflight window, which is a bounded queue, and the prefix that \<open>limitSize\<close> returns.\<close>

subsection \<open>Runs of a window\<close>

text \<open>The operations on a window, and the queue that they stand for: bounded lists, with a flag that says whether
  an index was ever added (\<open>FreeFirstOne\<close> on an empty window reads the buffer, and panics on a fresh one).\<close>

datatype windowOp = WAdd nat | WFree nat | WFreeFirst | WReset

fun windowStep :: "inflights \<Rightarrow> windowOp \<Rightarrow> inflights option" where
  "windowStep w (WAdd x) = AddInflights w x"
| "windowStep w (WFree to) = FreeLE w to"
| "windowStep w WFreeFirst = FreeFirstOne w"
| "windowStep w WReset = Some (resetInflights w)"

fun queueStep :: "nat \<Rightarrow> bool \<times> nat list \<Rightarrow> windowOp \<Rightarrow> (bool \<times> nat list) option" where
  "queueStep n (used, q) (WAdd x) = (if length q = n then None else Some (True, q @ [x]))"
| "queueStep n (used, q) (WFree to) = Some (used, dropWhile (\<lambda>x. x \<le> to) q)"
| "queueStep n (used, q) WFreeFirst = (case q of
     [] \<Rightarrow> if used then Some (used, []) else None
   | x # _ \<Rightarrow> Some (used, dropWhile (\<lambda>y. y \<le> x) q))"
| "queueStep n (used, q) WReset = Some (used, [])"

text \<open>The ring buffer implements the queue.\<close>

definition implements :: "nat \<Rightarrow> inflights \<Rightarrow> bool \<times> nat list \<Rightarrow> bool" where
  "implements n w a \<longleftrightarrow> inflights_inv w \<and> in_size w = n \<and> ring_contents w = snd a \<and> (in_buffer w \<noteq> [] \<longleftrightarrow> fst a)"

lemma FreeLE_buffer: "FreeLE w to = Some w' \<Longrightarrow> in_buffer w' = in_buffer w"
  by (auto simp: FreeLE_def bind_eq_Some_conv Let_def split: if_splits)

lemma AddInflights_buffer: "AddInflights w x = Some w' \<Longrightarrow> in_buffer w' \<noteq> []"
  by (auto simp: AddInflights_def Let_def split: if_splits)

lemma FreeFirstOne_cases:
  assumes "inflights_inv w"
  shows "FreeFirstOne w = (case ring_contents w of
     [] \<Rightarrow> if in_buffer w \<noteq> [] then Some w else None | x # _ \<Rightarrow> FreeLE w x)"
proof (cases "in_count w = 0")
  case True
  then have "in_start w = 0" "ring_contents w = []" using assms by (simp_all add: inflights_inv_def ring_contents_def)
  then show ?thesis using True by (simp add: FreeFirstOne_def FreeLE_def goIndex_def)
next
  case False
  have lt: "in_start w < length (in_buffer w)" and st: "in_start w < in_size w"
    using live_index [OF assms, of 0] assms False by (auto simp: inflights_inv_def)
  have "ring_contents w = in_buffer w ! in_start w # tl (ring_contents w)"
    using False st by (cases "in_count w") (simp_all add: ring_contents_def map_upt_Suc_shift del: upt_Suc)
  then show ?thesis using lt by (cases "ring_contents w") (auto simp: FreeFirstOne_def)
qed

lemma windowStep_implements:
  assumes "implements n w a"
  shows "rel_option (implements n) (windowStep w op) (queueStep n a op)"
proof -
  obtain used q where a: "a = (used, q)" by (cases a)
  have i: "inflights_inv w" "in_size w = n" "ring_contents w = q" "in_buffer w \<noteq> [] \<longleftrightarrow> used"
    using assms by (simp_all add: implements_def a)
  have free: "rel_option (implements n) (FreeLE w to) (Some (used, dropWhile (\<lambda>x. x \<le> to) q))" for to
  proof -
    obtain w' where w': "FreeLE w to = Some w'" using ring.free_ok [OF i(1)] by blast
    then show ?thesis using ring.free_SomeD [OF i(1) w'] FreeLE_buffer [OF w'] i by (simp add: implements_def)
  qed
  show ?thesis
  proof (cases op)
    case (WAdd x)
    show ?thesis
    proof (cases "length q = n")
      case True
      then have "AddInflights w x = None" using ring.full_iff [OF i(1)] ring.add_full i by simp
      then show ?thesis using True by (simp add: WAdd a)
    next
      case False
      then obtain w' where w': "AddInflights w x = Some w'" "inflights_inv w'" "ring_contents w' = q @ [x]" "in_size w' = n"
        using ring.full_iff [OF i(1)] ring.add_ok [OF i(1), of x] i by auto
      then show ?thesis using False AddInflights_buffer by (auto simp: WAdd a implements_def)
    qed
  next
    case (WFree to)
    then show ?thesis using free by (simp add: a)
  next
    case WFreeFirst
    show ?thesis
    proof (cases q)
      case Nil
      then show ?thesis using assms FreeFirstOne_cases [OF i(1)] i by (cases used) (simp_all add: WFreeFirst a)
    next
      case (Cons x q')
      then have "FreeFirstOne w = FreeLE w x" using FreeFirstOne_cases [OF i(1)] i(3) by simp
      moreover have "queueStep n a op = Some (used, dropWhile (\<lambda>y. y \<le> x) q)" by (simp add: WFreeFirst a Cons)
      ultimately show ?thesis using free [of x] by (simp add: WFreeFirst)
    qed
  next
    case WReset
    then show ?thesis using i by (auto simp: a implements_def resetInflights_def ring_contents_def inflights_inv_def)
  qed
qed

lemma window_runs:
  "implements n w a \<Longrightarrow> rel_option (implements n) (foldM windowStep w ops) (foldM (queueStep n) a ops)"
proof (induction ops arbitrary: w a)
  case (Cons op ops)
  then show ?case using windowStep_implements [OF Cons.prems, of op]
    by (cases "windowStep w op"; cases "queueStep n a op") auto
qed simp

lemma fresh_implements: "implements n (NewInflights n) (False, [])"
  by (simp add: implements_def) (simp add: NewInflights_def)

lemma window_queue:
  "case foldM (queueStep n) (False, []) ops of
     None \<Rightarrow> foldM windowStep (NewInflights n) ops = None
   | Some (used, q) \<Rightarrow> \<exists>w. foldM windowStep (NewInflights n) ops = Some w \<and> ring_contents w = q \<and>
       CountInflights w = length q \<and> (FullInflights w \<longleftrightarrow> length q = n)"
proof -
  note run = window_runs [OF fresh_implements, of n ops]
  show ?thesis
  proof (cases "foldM (queueStep n) (False, []) ops")
    case None
    then show ?thesis using run by simp
  next
    case (Some a)
    then obtain w where w: "foldM windowStep (NewInflights n) ops = Some w" "implements n w a"
      using run by (auto simp: option_rel_Some2)
    obtain used q where a: "a = (used, q)" by (rule prod.exhaust)
    have i: "in_size w = n" "ring_contents w = q" using w(2) by (simp_all add: implements_def a)
    then have "in_count w = length q" using length_ring_contents [of w] by simp
    then show ?thesis using Some w(1) i by (auto simp: a CountInflights_def FullInflights_def)
  qed
qed

subsection \<open>Limits\<close>

lemma limitSize_longest:
  assumes "ents \<noteq> []"
  shows "\<exists>n. limitSize ents maxSize = take n ents \<and> 0 < n \<and> n \<le> length ents \<and>
    (n = 1 \<or> sum_list (map EntrySize (take n ents)) \<le> maxSize) \<and>
    (n = length ents \<or> maxSize < sum_list (map EntrySize (take (Suc n) ents)))"
proof -
  obtain e es where ents: "ents = e # es" using assms by (cases ents) auto
  define n where "n = limitFrom es (EntrySize e) 1 maxSize"
  have n: "0 < n" "n \<le> length ents"
    using limitFrom_bounds [of 1 es "EntrySize e" maxSize] by (simp_all add: n_def ents)
  then obtain k where k: "n = Suc k" by (cases n) auto
  then have lf: "limitFrom es (EntrySize e) (Suc 0) maxSize = Suc k" by (simp add: n_def)
  have "n = 1 \<or> sum_list (map EntrySize (take n ents)) \<le> maxSize"
  proof (cases "EntrySize e \<le> maxSize")
    case True
    then have "EntrySize e + sum_list (map EntrySize (take k es)) \<le> maxSize"
      using limitFrom_size [of "EntrySize e" maxSize es 1] by (simp add: lf)
    then show ?thesis by (simp add: k ents)
  next
    case False
    then have "n = 1" by (cases es) (simp_all add: n_def Let_def)
    then show ?thesis by simp
  qed
  moreover have "n = length ents \<or> maxSize < sum_list (map EntrySize (take (Suc n) ents))"
  proof (cases "k < length es")
    case True
    then have "maxSize < EntrySize e + sum_list (map EntrySize (take (Suc k) es))"
      by (rule limitFrom_maximal [of _ _ _ 1]) (simp add: lf)
    then show ?thesis by (simp add: k ents)
  next
    case False
    then show ?thesis using n(2) by (simp add: k ents)
  qed
  moreover have "limitSize ents maxSize = take n ents" by (simp add: limitSize_def ents n_def)
  ultimately show ?thesis using n by blast
qed

end
