(* ===== verification/BigEndian.thy ===== *)
theory BigEndian
  imports GoPrelude
begin

text \<open>
  What the code uses of the Go packages \<open>encoding/binary\<close> and \<open>bytes\<close>: numbers of eight bytes, the most
  significant first, and the lexicographic order. A byte is a character.
\<close>

text \<open>\<open>binary.BigEndian.PutUint64\<close> and \<open>Uint64\<close>, on the value modulo \<open>2 ^ 64\<close>.\<close>

definition byteAt :: "nat \<Rightarrow> nat \<Rightarrow> char" where
  "byteAt i n = char_of (n div 256 ^ i)"

definition PutUint64 :: "nat \<Rightarrow> string" where
  "PutUint64 n = map (\<lambda>i. byteAt i n) [7, 6, 5, 4, 3, 2, 1, 0]"

definition Uint64 :: "string \<Rightarrow> nat" where
  "Uint64 s = foldl (\<lambda>a c. a * 256 + of_char c) 0 (take 8 s)"

text \<open>\<open>bytes.Compare(a, b) == -1\<close>\<close>

fun bytesLess :: "string \<Rightarrow> string \<Rightarrow> bool" where
  "bytesLess a [] = False"
| "bytesLess [] (c # b) = True"
| "bytesLess (d # a) (c # b) =
     ((of_char d :: nat) < of_char c \<or> d = c \<and> bytesLess a b)"

subsection \<open>Round trip and order\<close>

fun bigEndian :: "nat \<Rightarrow> nat \<Rightarrow> string" where
  "bigEndian 0 n = []"
| "bigEndian (Suc k) n = byteAt k n # bigEndian k n"

lemma PutUint64_bigEndian: "PutUint64 n = bigEndian 8 n"
  by (simp add: PutUint64_def numeral_eq_Suc)

lemma bigEndian_length [simp]: "length (bigEndian k n) = k"
  by (induction k) auto

lemma PutUint64_length [simp]: "length (PutUint64 n) = 8"
  by (simp add: PutUint64_bigEndian)

lemma byteAt_val: "of_char (byteAt i n) = (n div 256 ^ i) mod (256 :: nat)"
  by (simp add: byteAt_def)

lemma bigEndian_value:
  "foldl (\<lambda>a c. a * 256 + of_char c) acc (bigEndian k n) = acc * 256 ^ k + n mod 256 ^ k"
proof (induction k arbitrary: acc)
  case (Suc k)
  have "n mod (256 ^ k * 256) = 256 ^ k * (n div 256 ^ k mod 256) + n mod 256 ^ k"
    by (simp add: mod_mult2_eq)
  then show ?case using Suc.IH [of "acc * 256 + n div 256 ^ k mod 256"]
    by (simp add: byteAt_val algebra_simps)
qed simp

lemma Uint64_PutUint64: "n < 2 ^ 64 \<Longrightarrow> Uint64 (PutUint64 n @ s) = n"
  using bigEndian_value [of 0 8 n] by (simp add: Uint64_def PutUint64_bigEndian)

lemma bigEndian_mod: "bigEndian k (n mod 256 ^ m) = bigEndian k n" if "k \<le> m"
  using that
proof (induction k)
  case (Suc k)
  have "(256 :: nat) ^ m = 256 ^ k * 256 ^ (m - k)" using Suc.prems by (simp flip: power_add)
  then have "n mod 256 ^ m div 256 ^ k = n div 256 ^ k mod 256 ^ (m - k)" by (simp add: mod_mult2_eq)
  moreover have "(256 :: nat) dvd 256 ^ (m - k)" using Suc.prems by simp
  ultimately have "n mod 256 ^ m div 256 ^ k mod 256 = n div 256 ^ k mod 256" by (simp add: mod_mod_cancel)
  then have "of_char (byteAt k (n mod 256 ^ m)) = (of_char (byteAt k n) :: nat)" unfolding byteAt_val .
  then show ?case using Suc by simp
qed simp

lemma less_div_mod: "(a :: nat) < b \<longleftrightarrow> a div p < b div p \<or> a div p = b div p \<and> a mod p < b mod p"
proof (cases "a div p" "b div p" rule: linorder_cases)
  case less
  then have "\<not> b \<le> a" using div_le_mono [of b a p] by linarith
  then show ?thesis using less by simp
next
  case equal
  have "a = a div p * p + a mod p" "b = b div p * p + b mod p" by simp_all
  then show ?thesis using equal by (metis nat_add_left_cancel_less less_irrefl)
next
  case greater
  then have "\<not> a \<le> b" using div_le_mono [of a b p] by linarith
  then show ?thesis using greater by simp
qed

lemma bigEndian_less:
  assumes "a < 256 ^ k" and "b < 256 ^ k"
  shows "bytesLess (bigEndian k a @ x) (bigEndian k b @ y) \<longleftrightarrow> a < b \<or> a = b \<and> bytesLess x y"
  using assms
proof (induction k arbitrary: a b)
  case (Suc k)
  let ?p = "256 ^ k :: nat"
  have d: "a div ?p < 256" "b div ?p < 256" using Suc.prems by (simp_all add: less_mult_imp_div_less)
  have c: "of_char (byteAt k a) = a div ?p" "of_char (byteAt k b) = b div ?p" using d by (simp_all add: byteAt_val)
  have r: "bytesLess (bigEndian k a @ x) (bigEndian k b @ y) \<longleftrightarrow>
      a mod ?p < b mod ?p \<or> a mod ?p = b mod ?p \<and> bytesLess x y"
    using Suc.IH [of "a mod ?p" "b mod ?p"] by (simp add: bigEndian_mod)
  have e: "byteAt k a = byteAt k b \<longleftrightarrow> a div ?p = b div ?p" using c by (metis of_char_eq_iff)
  note less_div_mod [of a b ?p]
  moreover have "a = b \<longleftrightarrow> a div ?p = b div ?p \<and> a mod ?p = b mod ?p" by (metis div_mult_mod_eq)
  ultimately show ?case using c r e by auto
qed simp

subsection \<open>A strict linear order\<close>

lemma bytesLess_irrefl [simp]: "\<not> bytesLess a a"
  by (induction a) auto

lemma bytesLess_trans: "bytesLess a b \<Longrightarrow> bytesLess b c \<Longrightarrow> bytesLess a c"
proof (induction a b arbitrary: c rule: bytesLess.induct)
  case (2 x b)
  then show ?case by (cases c) auto
next
  case (3 d a x b)
  then show ?case by (cases c) auto
qed simp

lemma bytesLess_linear: "bytesLess a b \<or> a = b \<or> bytesLess b a"
proof (induction a b rule: bytesLess.induct)
  case (1 a)
  show ?case by (cases a) auto
next
  case (3 d a c b)
  have "(of_char d :: nat) < of_char c \<or> d = c \<or> (of_char c :: nat) < of_char d"
    by (metis linorder_neqE_nat of_char_eq_iff)
  then show ?case using 3 by auto
qed simp

lemma bytesLess_asym: "bytesLess a b \<Longrightarrow> \<not> bytesLess b a"
  using bytesLess_trans bytesLess_irrefl by blast

lemma bytesLess_Nil [simp]: "bytesLess [] k \<longleftrightarrow> k \<noteq> []"
  by (cases k) auto

end
