(* ===== verification/KeyIndex.thy ===== *)
theory KeyIndex
  imports BigEndian
begin

text \<open>
  \<open>glee-etcd/mvcc/revision.go\<close> and \<open>key_index.go\<close>: the revisions of one key of the multi-version store, in
  generations that a tombstone ends. Revisions are pairs of \<open>int64\<close>; \<open>None\<close> is a panic.
\<close>

subsection \<open>Revisions\<close>

datatype revision = Revision (rev_main: int) (rev_sub: int)

definition GreaterThan :: "revision \<Rightarrow> revision \<Rightarrow> bool" where
  "GreaterThan a b \<longleftrightarrow>
     (if rev_main a > rev_main b then True
      else if rev_main a < rev_main b then False
      else rev_sub a > rev_sub b)"

instantiation revision :: linorder
begin

definition less_revision :: "revision \<Rightarrow> revision \<Rightarrow> bool" where
  "a < b \<longleftrightarrow> GreaterThan b a"

definition less_eq_revision :: "revision \<Rightarrow> revision \<Rightarrow> bool" where
  "a \<le> b \<longleftrightarrow> \<not> GreaterThan a b"

instance
  by standard (auto simp: less_revision_def less_eq_revision_def GreaterThan_def intro: revision.expand split: if_splits)

end

lemma less_main: "rev_main a < rev_main b \<Longrightarrow> a < b"
  by (simp add: less_revision_def GreaterThan_def)

lemma GreaterThan_less [simp]: "GreaterThan a b \<longleftrightarrow> b < a"
  by (simp add: less_revision_def)

lemma le_main: "a \<le> b \<Longrightarrow> rev_main a \<le> rev_main b"
  using less_main [of b a] by fastforce

text \<open>Conversions of \<open>int64\<close> and \<open>uint64\<close>, and the seventeen bytes of a revision.\<close>

definition toUint64 :: "int \<Rightarrow> nat" where
  "toUint64 x = nat (x mod 2 ^ 64)"

definition toInt64 :: "nat \<Rightarrow> int" where
  "toInt64 n = i64 (int n)"

definition revToBytes :: "revision \<Rightarrow> string" where
  "revToBytes r = PutUint64 (toUint64 (rev_main r)) @ ''_'' @ PutUint64 (toUint64 (rev_sub r))"

text \<open>A slice that is too short is a panic.\<close>

definition bytesToRev :: "string \<Rightarrow> revision option" where
  "bytesToRev bytes =
     (if length bytes < 17 then None
      else Some (Revision (toInt64 (Uint64 (take 8 bytes))) (toInt64 (Uint64 (drop 9 bytes)))))"

subsection \<open>Generations\<close>

record generation =
  g_ver :: int
  g_created :: revision
  g_revs :: "revision list"

definition zeroRevision :: revision where
  "zeroRevision = Revision 0 0"

definition emptyGeneration :: generation where
  "emptyGeneration = \<lparr>g_ver = 0, g_created = zeroRevision, g_revs = []\<rparr>"

definition gIsEmpty :: "generation \<Rightarrow> bool" where
  "gIsEmpty g \<longleftrightarrow> length (g_revs g) = 0"

text \<open>The walk from the last revision down; the visitor threads a state, and \<open>-1\<close> says that it never stopped.\<close>

fun walkDown :: "(revision \<Rightarrow> 's \<Rightarrow> bool \<times> 's) \<Rightarrow> revision list \<Rightarrow> 's \<Rightarrow> int \<times> 's" where
  "walkDown f [] s = (-1, s)"
| "walkDown f (r # below) s =
     (case f r s of (ok, s1) \<Rightarrow> if \<not> ok then (int (length below), s1) else walkDown f below s1)"

definition walk :: "generation \<Rightarrow> (revision \<Rightarrow> 's \<Rightarrow> bool \<times> 's) \<Rightarrow> 's \<Rightarrow> int \<times> 's" where
  "walk g f s = walkDown f (rev (g_revs g)) s"

definition gEqual :: "generation \<Rightarrow> generation \<Rightarrow> bool" where
  "gEqual g b \<longleftrightarrow>
     (if g_ver g \<noteq> g_ver b then False
      else if length (g_revs g) \<noteq> length (g_revs b) then False
      else \<forall>i < length (g_revs g). g_revs g ! i = g_revs b ! i)"

subsection \<open>The index of a key\<close>

record keyIndex =
  ki_key :: string
  ki_modified :: revision
  ki_generations :: "generation list"

datatype mvccErr = ErrRevisionNotFound

definition newKeyIndex :: "string \<Rightarrow> keyIndex" where
  "newKeyIndex key = \<lparr>ki_key = key, ki_modified = zeroRevision, ki_generations = []\<rparr>"

definition kiIsEmpty :: "keyIndex \<Rightarrow> bool" where
  "kiIsEmpty ki \<longleftrightarrow> length (ki_generations ki) = 1 \<and> gIsEmpty (ki_generations ki ! 0)"

text \<open>A revision at the end of the last generation.\<close>

definition gPut :: "generation \<Rightarrow> revision \<Rightarrow> generation" where
  "gPut g r =
     (let g1 = (if length (g_revs g) = 0 then g\<lparr>g_created := r\<rparr> else g)
      in g1\<lparr>g_revs := g_revs g1 @ [r], g_ver := i64 (g_ver g1 + 1)\<rparr>)"

definition kiPut :: "keyIndex \<Rightarrow> int \<Rightarrow> int \<Rightarrow> keyIndex option" where
  "kiPut ki main sub =
     (let r = Revision main sub in
      if \<not> GreaterThan r (ki_modified ki) then None
      else
        let gens = (if length (ki_generations ki) = 0 then [emptyGeneration] else ki_generations ki);
            n = length gens - 1
        in Some (ki\<lparr>ki_generations := gens[n := gPut (gens ! n) r], ki_modified := r\<rparr>))"

definition kiRestore :: "keyIndex \<Rightarrow> revision \<Rightarrow> revision \<Rightarrow> int \<Rightarrow> keyIndex option" where
  "kiRestore ki created modified ver =
     (if length (ki_generations ki) \<noteq> 0 then None
      else Some (ki\<lparr>ki_modified := modified,
        ki_generations := [\<lparr>g_ver = ver, g_created = created, g_revs = [modified]\<rparr>]\<rparr>))"

definition kiTombstone :: "keyIndex \<Rightarrow> int \<Rightarrow> int \<Rightarrow> (mvccErr option \<times> keyIndex) option" where
  "kiTombstone ki main sub =
     (if kiIsEmpty ki then None
      else do {
        g \<leftarrow> (if ki_generations ki = [] then None else Some (List.last (ki_generations ki)));
        if gIsEmpty g then Some (Some ErrRevisionNotFound, ki)
        else do {
          ki1 \<leftarrow> kiPut ki main sub;
          Some (None, ki1\<lparr>ki_generations := ki_generations ki1 @ [emptyGeneration]\<rparr>) } })"

text \<open>The generation that is alive at a revision, from the last one down: \<open>cg\<close> counts what is left.\<close>

fun findGenerationFrom :: "generation list \<Rightarrow> nat \<Rightarrow> int \<Rightarrow> nat \<Rightarrow> nat option" where
  "findGenerationFrom gens lastg at 0 = None"
| "findGenerationFrom gens lastg at (Suc cg) =
     (let g = gens ! cg in
      if length (g_revs g) = 0 then findGenerationFrom gens lastg at cg
      else if cg \<noteq> lastg \<and> rev_main (g_revs g ! (length (g_revs g) - 1)) \<le> at then None
      else if rev_main (g_revs g ! 0) \<le> at then Some cg
      else findGenerationFrom gens lastg at cg)"

definition findGeneration :: "keyIndex \<Rightarrow> int \<Rightarrow> generation option" where
  "findGeneration ki at =
     (let n = length (ki_generations ki) in
      map_option (\<lambda>cg. ki_generations ki ! cg) (findGenerationFrom (ki_generations ki) (n - 1) at n))"

definition kiGet :: "keyIndex \<Rightarrow> int \<Rightarrow> (mvccErr + revision \<times> revision \<times> int) option" where
  "kiGet ki atRev =
     (if kiIsEmpty ki then None
      else case findGeneration ki atRev of
        None \<Rightarrow> Some (Inl ErrRevisionNotFound)
      | Some g \<Rightarrow>
          if gIsEmpty g then Some (Inl ErrRevisionNotFound)
          else case walk g (\<lambda>r s. (rev_main r > atRev, s)) () of (n, _) \<Rightarrow>
            if n \<noteq> -1 then
              Some (Inr (g_revs g ! nat n, g_created g, i64 (g_ver g - i64 (int (length (g_revs g)) - n - 1))))
            else Some (Inl ErrRevisionNotFound))"

text \<open>\<open>since\<close>: where to start, then the revisions in order, of equal main revisions the last one.\<close>

fun sinceStart :: "generation list \<Rightarrow> revision \<Rightarrow> nat \<Rightarrow> nat" where
  "sinceStart gens since 0 = 0"
| "sinceStart gens since (Suc gi) =
     (let g = gens ! Suc gi in
      if gIsEmpty g then sinceStart gens since gi
      else if GreaterThan since (g_created g) then Suc gi
      else sinceStart gens since gi)"

definition sinceRev :: "revision \<Rightarrow> revision list \<times> int \<Rightarrow> revision \<Rightarrow> (revision list \<times> int) option" where
  "sinceRev since acc r =
     (case acc of (revs, lst) \<Rightarrow>
        if GreaterThan since r then Some (revs, lst)
        else if rev_main r = lst then (if revs = [] then None else Some (butlast revs @ [r], lst))
        else Some (revs @ [r], rev_main r))"

definition kiSince :: "keyIndex \<Rightarrow> int \<Rightarrow> revision list option" where
  "kiSince ki at =
     (if kiIsEmpty ki then None
      else if ki_generations ki = [] then None
      else
        let since = Revision at 0;
            gi = sinceStart (ki_generations ki) since (length (ki_generations ki) - 1)
        in map_option fst (foldM (sinceRev since) ([], 0) (concat (map g_revs (drop gi (ki_generations ki))))))"

subsection \<open>Compaction\<close>

text \<open>The first generation that ends after \<open>atRev\<close>; a generation before the last one must not be empty.\<close>

fun compactGen :: "generation list \<Rightarrow> int \<Rightarrow> nat \<Rightarrow> nat option" where
  "compactGen [] atRev genIdx = None"
| "compactGen [g] atRev genIdx = Some genIdx"
| "compactGen (g # gs) atRev genIdx =
     (if g_revs g = [] then None
      else if rev_main (List.last (g_revs g)) > atRev then Some genIdx
      else compactGen gs atRev (genIdx + 1))"

definition doCompact :: "keyIndex \<Rightarrow> int \<Rightarrow> revision fset \<Rightarrow> (nat \<times> int \<times> revision fset) option" where
  "doCompact ki atRev available =
     do { genIdx \<leftarrow> compactGen (ki_generations ki) atRev 0;
          let (revIndex, av) = walk (ki_generations ki ! genIdx)
                (\<lambda>r av. if rev_main r \<le> atRev then (False, finsert r av) else (True, av)) available;
          Some (genIdx, revIndex, av) }"

definition kiCompact :: "keyIndex \<Rightarrow> int \<Rightarrow> revision fset \<Rightarrow> (keyIndex \<times> revision fset) option" where
  "kiCompact ki atRev available =
     (if kiIsEmpty ki then None
      else do {
        (genIdx, revIndex, av) \<leftarrow> doCompact ki atRev available;
        let gens = ki_generations ki;
        let g = gens ! genIdx;
        if gIsEmpty g then Some (ki\<lparr>ki_generations := drop genIdx gens\<rparr>, av)
        else
          let g1 = (if revIndex \<noteq> -1 then g\<lparr>g_revs := drop (nat revIndex) (g_revs g)\<rparr> else g);
              gens1 = gens[genIdx := g1]
          in if length (g_revs g1) = 1 \<and> genIdx \<noteq> length gens - 1
             then Some (ki\<lparr>ki_generations := drop (genIdx + 1) gens1\<rparr>, av |-| {|g_revs g1 ! 0|})
             else Some (ki\<lparr>ki_generations := drop genIdx gens1\<rparr>, av) })"

definition kiKeep :: "keyIndex \<Rightarrow> int \<Rightarrow> revision fset \<Rightarrow> revision fset option" where
  "kiKeep ki atRev available =
     (if kiIsEmpty ki then Some available
      else do {
        (genIdx, revIndex, av) \<leftarrow> doCompact ki atRev available;
        let g = ki_generations ki ! genIdx;
        if \<not> gIsEmpty g \<and> revIndex = int (length (g_revs g)) - 1 \<and> genIdx \<noteq> length (ki_generations ki) - 1
        then Some (av |-| {|g_revs g ! nat revIndex|})
        else Some av })"

subsection \<open>Comparison\<close>

definition kiLess :: "keyIndex \<Rightarrow> keyIndex \<Rightarrow> bool" where
  "kiLess ki b = bytesLess (ki_key ki) (ki_key b)"

definition kiEqual :: "keyIndex \<Rightarrow> keyIndex \<Rightarrow> bool" where
  "kiEqual ki b \<longleftrightarrow>
     (if ki_key ki \<noteq> ki_key b then False
      else if ki_modified ki \<noteq> ki_modified b then False
      else if length (ki_generations ki) \<noteq> length (ki_generations b) then False
      else \<forall>i < length (ki_generations ki). gEqual (ki_generations ki ! i) (ki_generations b ! i))"

lemma Revision_less: "Revision m s < Revision m' s' \<longleftrightarrow> m < m' \<or> m = m' \<and> s < s'"
  unfolding less_revision_def GreaterThan_def by auto

lemma Revision_le: "Revision m s \<le> Revision m' s' \<longleftrightarrow> m < m' \<or> m = m' \<and> s \<le> s'"
  unfolding le_less Revision_less by auto

end
