(* ===== verification/RevisionBytes.thy ===== *)
theory RevisionBytes
  imports KeyIndex
begin

text \<open>
  Revisions as keys of the backend: seventeen bytes from which the revision can be read again, and which
  sort as the revisions do.
\<close>

subsection \<open>Revisions\<close>

definition in_int64 :: "int \<Rightarrow> bool" where
  "in_int64 x \<longleftrightarrow> - (2 ^ 63) \<le> x \<and> x < 2 ^ 63"

lemma toInt64_toUint64: "in_int64 x \<Longrightarrow> toInt64 (toUint64 x) = x"
proof -
  assume "in_int64 x"
  moreover have "int (toUint64 x) = x mod 2 ^ 64" by (simp add: toUint64_def)
  ultimately show ?thesis by (simp add: toInt64_def i64_def in_int64_def mod_add_left_eq)
qed

lemma toUint64_less: "toUint64 x < 2 ^ 64"
  by (simp add: toUint64_def nat_less_iff)

theorem bytesToRev_revToBytes:
  assumes "in_int64 (rev_main r)" and "in_int64 (rev_sub r)"
  shows "bytesToRev (revToBytes r) = Some r"
proof -
  have "Uint64 (PutUint64 (toUint64 x) @ ys) = toUint64 x" for x ys by (rule Uint64_PutUint64 [OF toUint64_less])
  from this [of _ "[]"] show ?thesis using assms toInt64_toUint64 by (simp add: bytesToRev_def revToBytes_def)
qed

theorem revToBytes_less:
  assumes "in_int64 (rev_main r)" "in_int64 (rev_sub r)" "0 \<le> rev_main r" "0 \<le> rev_sub r"
    and "in_int64 (rev_main s)" "in_int64 (rev_sub s)" "0 \<le> rev_main s" "0 \<le> rev_sub s"
  shows "bytesLess (revToBytes r) (revToBytes s) \<longleftrightarrow> r < s"
proof -
  have v: "toUint64 x = nat x" if "in_int64 x" "0 \<le> x" for x
    using that by (simp add: toUint64_def in_int64_def)
  have lt: "toUint64 z < 256 ^ 8" for z using toUint64_less [of z] by simp
  have tail: "bytesLess (bigEndian 8 (toUint64 x)) (bigEndian 8 (toUint64 y)) \<longleftrightarrow> toUint64 x < toUint64 y" for x y
    using bigEndian_less [OF lt lt, where x = "[]" and y = "[]"] by (simp only: append_Nil2 bytesLess.simps simp_thms)
  have "bytesLess (''_'' @ x) (''_'' @ y) = bytesLess x y" for x y by simp
  then have "bytesLess (revToBytes r) (revToBytes s) \<longleftrightarrow> toUint64 (rev_main r) < toUint64 (rev_main s) \<or>
      toUint64 (rev_main r) = toUint64 (rev_main s) \<and> toUint64 (rev_sub r) < toUint64 (rev_sub s)"
    unfolding revToBytes_def PutUint64_bigEndian bigEndian_less [OF lt lt] by (simp add: tail)
  then show ?thesis
    unfolding less_revision_def GreaterThan_def v [OF assms(1,3)] v [OF assms(2,4)] v [OF assms(5,7)] v [OF assms(6,8)]
    using assms by auto
qed

end
