(* ===== verification/MsgCodec.thy ===== *)
theory MsgCodec
  imports Raftpb BigEndian
begin

text \<open>
  \<open>glee-etcd/etcdserver/api/rafthttp\<close>: how raft messages travel between members, \<open>msg_codec.go\<close> for all
  messages and \<open>msgappv2_codec.go\<close> for the appends of a leader, whose predictable fields are left out.
  The generated marshalling is the parameter \<open>protoCodec\<close>. A writer is a function of its state, a reader
  is the string of the bytes still to come. \<open>None\<close> is a panic; a failed call returns its error.
\<close>

record protoCodec =
  pc_marshalEntry :: "entry \<Rightarrow> string"
  pc_unmarshalEntry :: "string \<Rightarrow> entry option"
  pc_marshalMessage :: "message \<Rightarrow> string"
  pc_unmarshalMessage :: "string \<Rightarrow> message option"
  pc_sizeMessage :: "message \<Rightarrow> nat"

datatype ioErr = ErrWrite string | ErrEOF | ErrUnexpectedEOF | ErrParseType nat | ErrExceedSizeLimit | ErrUnmarshal

type_synonym 'w writer = "'w \<Rightarrow> string \<Rightarrow> ioErr option \<times> 'w"

text \<open>\<open>io.ReadFull\<close> of \<open>n\<close> bytes: all of them, or an error and the rest is gone.\<close>

definition ReadFull :: "string \<Rightarrow> nat \<Rightarrow> (ioErr + string) \<times> string" where
  "ReadFull s n =
     (if n \<le> length s then (Inr (take n s), drop n s)
      else (Inl (if s = [] then ErrEOF else ErrUnexpectedEOF), []))"

text \<open>\<open>make([]T, int(n))\<close> panics when the slice would not fit into the address space of a process, which has
  48 bits on the 64-bit platforms of the program; a negative \<open>int\<close> is larger than that. An entry takes 80 bytes.\<close>

definition maxAlloc :: nat where
  "maxAlloc = 2 ^ 48"

definition canMake :: "nat \<Rightarrow> nat \<Rightarrow> bool" where
  "canMake elemSize n \<longleftrightarrow> n * elemSize \<le> maxAlloc"

definition byteBytes :: nat where
  "byteBytes = 1"

definition entryStructBytes :: nat where
  "entryStructBytes = 80"

lemmas make_defs = canMake_def maxAlloc_def byteBytes_def entryStructBytes_def

subsection \<open>All messages\<close>

definition encodeMessage :: "protoCodec \<Rightarrow> 'w writer \<Rightarrow> 'w \<Rightarrow> message \<Rightarrow> ioErr option \<times> 'w" where
  "encodeMessage pc write w m =
     (case write w (PutUint64 (pc_sizeMessage pc m)) of
        (Some err, w1) \<Rightarrow> (Some err, w1)
      | (None, w1) \<Rightarrow> write w1 (pc_marshalMessage pc m))"

definition readBytesLimit :: nat where
  "readBytesLimit = 512 * 1024 * 1024"

definition decodeLimit :: "protoCodec \<Rightarrow> nat \<Rightarrow> string \<Rightarrow> ((ioErr + message) \<times> string) option" where
  "decodeLimit pc numBytes s =
     (case ReadFull s 8 of
        (Inl err, s1) \<Rightarrow> Some (Inl err, s1)
      | (Inr b, s1) \<Rightarrow>
          let l = Uint64 b in
          if l > numBytes then Some (Inl ErrExceedSizeLimit, s1)
          else if \<not> canMake byteBytes l then None
          else case ReadFull s1 l of
            (Inl err, s2) \<Rightarrow> Some (Inl err, s2)
          | (Inr buf, s2) \<Rightarrow>
              (case pc_unmarshalMessage pc buf of
                 None \<Rightarrow> Some (Inl ErrUnmarshal, s2)
               | Some m \<Rightarrow> Some (Inr m, s2)))"

definition decodeMessage :: "protoCodec \<Rightarrow> string \<Rightarrow> ((ioErr + message) \<times> string) option" where
  "decodeMessage pc s = decodeLimit pc readBytesLimit s"

subsection \<open>Appends\<close>

definition linkHeartbeatMessage :: message where
  "linkHeartbeatMessage = emptyMessage\<lparr>m_Type := MsgHeartbeat\<rparr>"

definition isLinkHeartbeatMessage :: "message \<Rightarrow> bool" where
  "isLinkHeartbeatMessage m \<longleftrightarrow> m_Type m = MsgHeartbeat \<and> m_From m = 0 \<and> m_To m = 0"

definition msgAppV2BufSize :: nat where
  "msgAppV2BufSize = 1024 * 1024"

record msgAppV2Encoder =
  enc_term :: nat
  enc_index :: nat

definition newMsgAppV2Encoder :: msgAppV2Encoder where
  "newMsgAppV2Encoder = \<lparr>enc_term = 0, enc_index = 0\<rparr>"

definition typeByte :: "nat \<Rightarrow> string" where
  "typeByte t = [char_of t]"

text \<open>The loop over the entries; the index counts those that were written.\<close>

fun encodeEntries :: "protoCodec \<Rightarrow> 'w writer \<Rightarrow> entry list \<Rightarrow> msgAppV2Encoder \<Rightarrow> 'w \<Rightarrow>
    ioErr option \<times> msgAppV2Encoder \<times> 'w" where
  "encodeEntries pc write [] enc w = (None, enc, w)"
| "encodeEntries pc write (e # es) enc w =
     (case write w (PutUint64 (EntrySize e)) of
        (Some err, w1) \<Rightarrow> (Some err, enc, w1)
      | (None, w1) \<Rightarrow>
          let n = EntrySize e;
              b = (if n < msgAppV2BufSize then take n (pc_marshalEntry pc e) else pc_marshalEntry pc e)
          in case write w1 b of
            (Some err, w2) \<Rightarrow> (Some err, enc, w2)
          | (None, w2) \<Rightarrow> encodeEntries pc write es (enc\<lparr>enc_index := add64 (enc_index enc) 1\<rparr>) w2)"

text \<open>The index after the entries of a message that was sent as a whole.\<close>

definition lastIndexOf :: "message \<Rightarrow> nat" where
  "lastIndexOf m = (if length (m_Entries m) > 0 then e_Index (List.last (m_Entries m)) else m_Index m)"

definition encodeV2 :: "protoCodec \<Rightarrow> 'w writer \<Rightarrow> msgAppV2Encoder \<Rightarrow> 'w \<Rightarrow> message \<Rightarrow>
    ioErr option \<times> msgAppV2Encoder \<times> 'w" where
  "encodeV2 pc write enc w m =
     (if isLinkHeartbeatMessage m then
        case write w (typeByte 0) of (err, w1) \<Rightarrow> (err, enc, w1)
      else if enc_index enc = m_Index m \<and> enc_term enc = m_LogTerm m \<and> m_LogTerm m = m_Term m then
        case write w (typeByte 1) of
          (Some err, w1) \<Rightarrow> (Some err, enc, w1)
        | (None, w1) \<Rightarrow>
          (case write w1 (PutUint64 (length (m_Entries m))) of
             (Some err, w2) \<Rightarrow> (Some err, enc, w2)
           | (None, w2) \<Rightarrow>
             (case encodeEntries pc write (m_Entries m) enc w2 of
                (Some err, enc1, w3) \<Rightarrow> (Some err, enc1, w3)
              | (None, enc1, w3) \<Rightarrow>
                  (case write w3 (PutUint64 (m_Commit m)) of (err, w4) \<Rightarrow> (err, enc1, w4))))
      else
        case write w (typeByte 2) of
          (Some err, w1) \<Rightarrow> (Some err, enc, w1)
        | (None, w1) \<Rightarrow>
          (case write w1 (PutUint64 (pc_sizeMessage pc m)) of
             (Some err, w2) \<Rightarrow> (Some err, enc, w2)
           | (None, w2) \<Rightarrow>
             (case write w2 (pc_marshalMessage pc m) of
                (Some err, w3) \<Rightarrow> (Some err, enc, w3)
              | (None, w3) \<Rightarrow> (None, enc\<lparr>enc_term := m_Term m, enc_index := lastIndexOf m\<rparr>, w3))))"

record msgAppV2Decoder =
  dec_local :: nat
  dec_remote :: nat
  dec_term :: nat
  dec_index :: nat

definition newMsgAppV2Decoder :: "nat \<Rightarrow> nat \<Rightarrow> msgAppV2Decoder" where
  "newMsgAppV2Decoder lcl remote = \<lparr>dec_local = lcl, dec_remote = remote, dec_term = 0, dec_index = 0\<rparr>"

type_synonym 'a decoded = "((ioErr + 'a) \<times> msgAppV2Decoder \<times> string) option"

text \<open>The loop over \<open>k\<close> entries. The buffer is the decoder's own for a small entry, a new one otherwise.\<close>

fun decodeEntries :: "protoCodec \<Rightarrow> nat \<Rightarrow> msgAppV2Decoder \<Rightarrow> string \<Rightarrow> entry list decoded" where
  "decodeEntries pc 0 dec s = Some (Inr [], dec, s)"
| "decodeEntries pc (Suc k) dec s =
     (case ReadFull s 8 of
        (Inl err, s1) \<Rightarrow> Some (Inl err, dec, s1)
      | (Inr b, s1) \<Rightarrow>
          let size = Uint64 b in
          if \<not> (size < msgAppV2BufSize) \<and> \<not> canMake byteBytes size then None
          else case ReadFull s1 size of
            (Inl err, s2) \<Rightarrow> Some (Inl err, dec, s2)
          | (Inr buf, s2) \<Rightarrow>
              (case pc_unmarshalEntry pc buf of
                 None \<Rightarrow> None
               | Some e \<Rightarrow>
                   (case decodeEntries pc k (dec\<lparr>dec_index := add64 (dec_index dec) 1\<rparr>) s2 of
                      Some (Inr es, d) \<Rightarrow> Some (Inr (e # es), d)
                    | res \<Rightarrow> res)))"

definition decodeAppEntries :: "protoCodec \<Rightarrow> msgAppV2Decoder \<Rightarrow> string \<Rightarrow> message decoded" where
  "decodeAppEntries pc dec s =
     (let m = emptyMessage\<lparr>m_Type := MsgApp, m_From := dec_remote dec, m_To := dec_local dec,
                m_Term := dec_term dec, m_LogTerm := dec_term dec, m_Index := dec_index dec\<rparr> in
      case ReadFull s 8 of
        (Inl err, s1) \<Rightarrow> Some (Inl err, dec, s1)
      | (Inr b, s1) \<Rightarrow>
          let l = Uint64 b in
          if \<not> canMake entryStructBytes l then None
          else case decodeEntries pc l dec s1 of
            None \<Rightarrow> None
          | Some (Inl err, d) \<Rightarrow> Some (Inl err, d)
          | Some (Inr es, dec1, s2) \<Rightarrow>
              (case ReadFull s2 8 of
                 (Inl err, s3) \<Rightarrow> Some (Inl err, dec1, s3)
               | (Inr c, s3) \<Rightarrow> Some (Inr (m\<lparr>m_Entries := es, m_Commit := Uint64 c\<rparr>), dec1, s3)))"

definition decodeApp :: "protoCodec \<Rightarrow> msgAppV2Decoder \<Rightarrow> string \<Rightarrow> message decoded" where
  "decodeApp pc dec s =
     (case ReadFull s 8 of
        (Inl err, s1) \<Rightarrow> Some (Inl err, dec, s1)
      | (Inr b, s1) \<Rightarrow>
          let size = Uint64 b in
          if \<not> canMake byteBytes size then None
          else case ReadFull s1 size of
            (Inl err, s2) \<Rightarrow> Some (Inl err, dec, s2)
          | (Inr buf, s2) \<Rightarrow>
              (case pc_unmarshalMessage pc buf of
                 None \<Rightarrow> None
               | Some m \<Rightarrow> Some (Inr m, dec\<lparr>dec_term := m_Term m, dec_index := lastIndexOf m\<rparr>, s2)))"

definition decodeV2 :: "protoCodec \<Rightarrow> msgAppV2Decoder \<Rightarrow> string \<Rightarrow> message decoded" where
  "decodeV2 pc dec s =
     (case ReadFull s 1 of
        (Inl err, s1) \<Rightarrow> Some (Inl err, dec, s1)
      | (Inr b, s1) \<Rightarrow>
          let t = of_char (hd b) :: nat in
          if t = 0 then Some (Inr linkHeartbeatMessage, dec, s1)
          else if t = 1 then decodeAppEntries pc dec s1
          else if t = 2 then decodeApp pc dec s1
          else Some (Inl (ErrParseType t), dec, s1))"

subsection \<open>What the peers agree on\<close>

text \<open>The documented behaviour of the generated code on a message: reading inverts writing, and sizes are
  lengths, which fit an \<open>int\<close>.\<close>

definition carries_entry :: "protoCodec \<Rightarrow> entry \<Rightarrow> bool" where
  "carries_entry pc e \<longleftrightarrow> pc_unmarshalEntry pc (pc_marshalEntry pc e) = Some e \<and>
     length (pc_marshalEntry pc e) = EntrySize e \<and> EntrySize e \<le> maxAlloc"

definition carries :: "protoCodec \<Rightarrow> message \<Rightarrow> bool" where
  "carries pc m \<longleftrightarrow> pc_unmarshalMessage pc (pc_marshalMessage pc m) = Some m \<and>
     length (pc_marshalMessage pc m) = pc_sizeMessage pc m \<and> pc_sizeMessage pc m \<le> maxAlloc \<and>
     (\<forall>e \<in> set (m_Entries m). carries_entry pc e)"

text \<open>A writer that never fails.\<close>

definition appendWriter :: "string writer" where
  "appendWriter w b = (None, w @ b)"

definition in_sync :: "msgAppV2Encoder \<Rightarrow> msgAppV2Decoder \<Rightarrow> bool" where
  "in_sync enc dec \<longleftrightarrow> dec_term dec = enc_term enc \<and> dec_index dec = enc_index enc"

text \<open>The messages of the stream: keep-alives, and appends to this peer, with numbers that fit.\<close>

definition streamable :: "msgAppV2Decoder \<Rightarrow> message \<Rightarrow> bool" where
  "streamable dec m \<longleftrightarrow> m = linkHeartbeatMessage \<or>
     m = emptyMessage\<lparr>m_Type := MsgApp, m_From := dec_remote dec, m_To := dec_local dec, m_Term := m_Term m,
       m_LogTerm := m_LogTerm m, m_Index := m_Index m, m_Entries := m_Entries m, m_Commit := m_Commit m\<rparr> \<and>
     m_Commit m < 2 ^ 64 \<and> length (m_Entries m) * entryStructBytes \<le> maxAlloc"

subsection \<open>What is written\<close>

lemma appendWriter_eq: "appendWriter w b = (None, w @ b)"
  by (simp add: appendWriter_def)

definition entryBytes :: "protoCodec \<Rightarrow> entry \<Rightarrow> string" where
  "entryBytes pc e = PutUint64 (EntrySize e) @ pc_marshalEntry pc e"

fun bump :: "nat \<Rightarrow> nat \<Rightarrow> nat" where
  "bump 0 i = i"
| "bump (Suc k) i = bump k (add64 i 1)"

lemma encodeEntries_bytes:
  "\<forall>e \<in> set es. carries_entry pc e \<Longrightarrow> encodeEntries pc appendWriter es enc w =
     (None, enc\<lparr>enc_index := bump (length es) (enc_index enc)\<rparr>, w @ concat (map (entryBytes pc) es))"
  by (induction es arbitrary: enc w) (auto simp: carries_entry_def entryBytes_def appendWriter_eq Let_def)

definition appBytes :: "protoCodec \<Rightarrow> message \<Rightarrow> string" where
  "appBytes pc m = typeByte 2 @ PutUint64 (pc_sizeMessage pc m) @ pc_marshalMessage pc m"

definition appEntriesBytes :: "protoCodec \<Rightarrow> message \<Rightarrow> string" where
  "appEntriesBytes pc m = typeByte 1 @ PutUint64 (length (m_Entries m)) @
     concat (map (entryBytes pc) (m_Entries m)) @ PutUint64 (m_Commit m)"

text \<open>The three forms of a message on the stream.\<close>

definition follows :: "msgAppV2Encoder \<Rightarrow> message \<Rightarrow> bool" where
  "follows enc m \<longleftrightarrow> enc_index enc = m_Index m \<and> enc_term enc = m_LogTerm m \<and> m_LogTerm m = m_Term m"

definition messageBytes :: "protoCodec \<Rightarrow> msgAppV2Encoder \<Rightarrow> message \<Rightarrow> string" where
  "messageBytes pc enc m =
     (if isLinkHeartbeatMessage m then typeByte 0
      else if follows enc m then appEntriesBytes pc m else appBytes pc m)"

definition encoderAfter :: "msgAppV2Encoder \<Rightarrow> message \<Rightarrow> msgAppV2Encoder" where
  "encoderAfter enc m =
     (if isLinkHeartbeatMessage m then enc
      else if follows enc m then enc\<lparr>enc_index := bump (length (m_Entries m)) (enc_index enc)\<rparr>
      else enc\<lparr>enc_term := m_Term m, enc_index := lastIndexOf m\<rparr>)"

lemma encodeV2_bytes:
  assumes "carries pc m"
  shows "encodeV2 pc appendWriter enc w m = (None, encoderAfter enc m, w @ messageBytes pc enc m)"
proof -
  have "\<forall>e \<in> set (m_Entries m). carries_entry pc e" using assms by (simp add: carries_def)
  from encodeEntries_bytes [OF this] show ?thesis
    by (simp add: encodeV2_def messageBytes_def encoderAfter_def follows_def appEntriesBytes_def appBytes_def appendWriter_eq)
qed

subsection \<open>What is read\<close>

lemma ReadFull_append [simp]: "length b = n \<Longrightarrow> ReadFull (b @ s) n = (Inr b, s)"
  by (simp add: ReadFull_def)

lemma ReadFull_short: "length s < n \<Longrightarrow> \<exists>err. ReadFull s n = (Inl err, []) \<and> err \<in> {ErrEOF, ErrUnexpectedEOF}"
  by (simp add: ReadFull_def)

lemma Uint64_written [simp]: "n < 2 ^ 64 \<Longrightarrow> Uint64 (PutUint64 n) = n"
  using Uint64_PutUint64 [of n "[]"] by simp

lemma decodeEntries_bytes:
  "\<forall>e \<in> set es. carries_entry pc e \<Longrightarrow> decodeEntries pc (length es) dec (concat (map (entryBytes pc) es) @ s) =
     Some (Inr es, dec\<lparr>dec_index := bump (length es) (dec_index dec)\<rparr>, s)"
  by (induction es arbitrary: dec) (auto simp: carries_entry_def entryBytes_def make_defs)

lemma typeByte_simps [simp]: "length (typeByte t) = 1" "t < 256 \<Longrightarrow> of_char (hd (typeByte t)) = t"
  by (simp_all add: typeByte_def)

text \<open>One message: the reader gets it back, and both sides have moved on together.\<close>

lemma decodeV2_bytes:
  assumes m: "carries pc m" "streamable dec m" and sync: "in_sync enc dec"
  shows "\<exists>dec'. decodeV2 pc dec (messageBytes pc enc m @ s) = Some (Inr m, dec', s) \<and> in_sync (encoderAfter enc m) dec' \<and>
    dec_local dec' = dec_local dec \<and> dec_remote dec' = dec_remote dec"
proof (cases "m = linkHeartbeatMessage")
  case True
  then have "isLinkHeartbeatMessage m" by (simp add: isLinkHeartbeatMessage_def linkHeartbeatMessage_def emptyMessage_def)
  then show ?thesis using True sync
    by (auto simp: decodeV2_def messageBytes_def encoderAfter_def)
next
  case False
  then have app: "m = emptyMessage\<lparr>m_Type := MsgApp, m_From := dec_remote dec, m_To := dec_local dec, m_Term := m_Term m,
       m_LogTerm := m_LogTerm m, m_Index := m_Index m, m_Entries := m_Entries m, m_Commit := m_Commit m\<rparr>"
    and fits: "m_Commit m < 2 ^ 64" "length (m_Entries m) * entryStructBytes \<le> maxAlloc" using m(2) by (simp_all add: streamable_def)
  have "m_Type m = MsgApp" by (subst app) simp
  then have nohb: "\<not> isLinkHeartbeatMessage m" by (simp add: isLinkHeartbeatMessage_def)
  show ?thesis
  proof (cases "follows enc m")
    case True
    then have d: "dec_term dec = m_Term m" "dec_index dec = m_Index m" "m_LogTerm m = m_Term m"
      using sync by (simp_all add: follows_def in_sync_def)
    let ?m = "emptyMessage\<lparr>m_Type := MsgApp, m_From := dec_remote dec, m_To := dec_local dec,
      m_Term := dec_term dec, m_LogTerm := dec_term dec, m_Index := dec_index dec\<rparr>"
    have "?m\<lparr>m_Entries := m_Entries m, m_Commit := m_Commit m\<rparr> = m" unfolding d by (subst (3) app) (simp add: d(3))
    moreover have "\<forall>e \<in> set (m_Entries m). carries_entry pc e" using m(1) by (simp add: carries_def)
    ultimately show ?thesis using True nohb fits sync decodeEntries_bytes [of "m_Entries m" pc dec "PutUint64 (m_Commit m) @ s"]
      by (simp add: decodeV2_def decodeAppEntries_def messageBytes_def appEntriesBytes_def encoderAfter_def make_defs in_sync_def Let_def)
  next
    case nofollow: False
    then show ?thesis using nohb m(1)
      by (simp add: decodeV2_def decodeApp_def messageBytes_def appBytes_def encoderAfter_def carries_def make_defs in_sync_def Let_def)
  qed
qed

text \<open>A stream of messages.\<close>

fun encodeAll :: "protoCodec \<Rightarrow> 'w writer \<Rightarrow> msgAppV2Encoder \<Rightarrow> 'w \<Rightarrow> message list \<Rightarrow> ioErr option \<times> 'w" where
  "encodeAll pc write enc w [] = (None, w)"
| "encodeAll pc write enc w (m # ms) =
     (case encodeV2 pc write enc w m of (Some err, enc1, w1) \<Rightarrow> (Some err, w1) | (None, enc1, w1) \<Rightarrow> encodeAll pc write enc1 w1 ms)"

fun decodeAll :: "protoCodec \<Rightarrow> nat \<Rightarrow> msgAppV2Decoder \<Rightarrow> string \<Rightarrow> (message list \<times> string) option" where
  "decodeAll pc 0 dec s = Some ([], s)"
| "decodeAll pc (Suc k) dec s =
     (case decodeV2 pc dec s of
        Some (Inr m, dec1, s1) \<Rightarrow> map_option (\<lambda>(ms, s2). (m # ms, s2)) (decodeAll pc k dec1 s1)
      | _ \<Rightarrow> None)"

lemma encodeAll_appends:
  assumes "\<forall>m \<in> set ms. carries pc m"
  shows "\<exists>b. \<forall>w. encodeAll pc appendWriter enc w ms = (None, w @ b)"
  using assms
proof (induction ms arbitrary: enc)
  case (Cons m ms)
  obtain b where "\<forall>w. encodeAll pc appendWriter (encoderAfter enc m) w ms = (None, w @ b)"
    using Cons.IH [of "encoderAfter enc m"] Cons.prems by auto
  then show ?case using Cons.prems by (intro exI [of _ "messageBytes pc enc m @ b"]) (simp add: encodeV2_bytes)
qed simp

lemma stream_round_trip:
  assumes "\<forall>m \<in> set ms. carries pc m \<and> streamable dec m" and "in_sync enc dec"
  shows "\<exists>b. encodeAll pc appendWriter enc [] ms = (None, b) \<and> decodeAll pc (length ms) dec (b @ s) = Some (ms, s)"
  using assms
proof (induction ms arbitrary: enc dec)
  case (Cons m ms)
  have m: "carries pc m" "streamable dec m" using Cons.prems(1) by simp_all
  obtain b where b: "\<And>w. encodeAll pc appendWriter (encoderAfter enc m) w ms = (None, w @ b)"
    using encodeAll_appends [of ms pc "encoderAfter enc m"] Cons.prems(1) by auto
  obtain dec1 where d: "decodeV2 pc dec (messageBytes pc enc m @ b @ s) = Some (Inr m, dec1, b @ s)"
    "in_sync (encoderAfter enc m) dec1" "dec_local dec1 = dec_local dec" "dec_remote dec1 = dec_remote dec"
    using decodeV2_bytes [OF m Cons.prems(2), of "b @ s"] by blast
  have "\<forall>x \<in> set ms. carries pc x \<and> streamable dec1 x" using Cons.prems(1) d(3,4) by (simp add: streamable_def)
  then have "decodeAll pc (length ms) dec1 (b @ s) = Some (ms, s)" using Cons.IH [OF _ d(2)] b by fastforce
  then show ?case using d(1) b m(1) by (simp add: encodeV2_bytes)
qed simp

subsection \<open>A stream that breaks off\<close>

definition eof :: "ioErr set" where
  "eof = {ErrEOF, ErrUnexpectedEOF}"

lemma ReadFull_eof: "length s < n \<Longrightarrow> \<exists>err \<in> eof. ReadFull s n = (Inl err, [])"
  by (simp add: ReadFull_def eof_def)

lemma ReadFull_take:
  assumes "length b = n"
  shows "ReadFull (take k (b @ s)) n = (Inr b, take (k - n) s) \<and> n \<le> k \<or>
    (\<exists>err \<in> eof. ReadFull (take k (b @ s)) n = (Inl err, []) \<and> k < n)"
proof (cases "k < n")
  case True
  then have "length (take k (b @ s)) < n" by simp
  then show ?thesis using True ReadFull_eof by blast
next
  case False
  then have "take k (b @ s) = b @ take (k - n) s" using assms by simp
  then show ?thesis using assms False by simp
qed

text \<open>A result that is an error of the reader, or that leaves less than eight bytes.\<close>

lemma decodeEntries_truncated:
  assumes "\<forall>e \<in> set es. carries_entry pc e" and "k < length (concat (map (entryBytes pc) es) @ c)" and "length c = 8"
  shows "(\<exists>err \<in> eof. \<exists>d. decodeEntries pc (length es) dec (take k (concat (map (entryBytes pc) es) @ c)) = Some (Inl err, d, [])) \<or>
    (\<exists>d r. decodeEntries pc (length es) dec (take k (concat (map (entryBytes pc) es) @ c)) = Some (Inr es, d, r) \<and> length r < 8)"
  using assms
proof (induction es arbitrary: dec k)
  case Nil
  then show ?case by simp
next
  case (Cons e es)
  let ?rest = "concat (map (entryBytes pc) es) @ c"
  have e: "pc_unmarshalEntry pc (pc_marshalEntry pc e) = Some e" "length (pc_marshalEntry pc e) = EntrySize e"
    "EntrySize e \<le> maxAlloc" using Cons.prems(1) by (simp_all add: carries_entry_def)
  have b: "concat (map (entryBytes pc) (e # es)) @ c = PutUint64 (EntrySize e) @ pc_marshalEntry pc e @ ?rest"
    by (simp add: entryBytes_def)
  have v: "Uint64 (PutUint64 (EntrySize e)) = EntrySize e" "canMake byteBytes (EntrySize e)" using e(3) by (simp_all add: make_defs)
  show ?case
  proof (cases "k < 8 + EntrySize e")
    case True
    then show ?thesis using ReadFull_take [of "PutUint64 (EntrySize e)" 8 k "pc_marshalEntry pc e @ ?rest"]
        ReadFull_take [OF e(2), of "k - 8" ?rest] v unfolding b by (auto simp: Let_def)
  next
    case False
    let ?k = "k - 8 - EntrySize e"
    have r1: "ReadFull (take k (PutUint64 (EntrySize e) @ pc_marshalEntry pc e @ ?rest)) 8 =
        (Inr (PutUint64 (EntrySize e)), take (k - 8) (pc_marshalEntry pc e @ ?rest))"
      using ReadFull_take [of "PutUint64 (EntrySize e)" 8 k "pc_marshalEntry pc e @ ?rest"] False by auto
    have r2: "ReadFull (take (k - 8) (pc_marshalEntry pc e @ ?rest)) (EntrySize e) = (Inr (pc_marshalEntry pc e), take ?k ?rest)"
      using ReadFull_take [OF e(2), of "k - 8" ?rest] False by auto
    have "?k < length ?rest" using Cons.prems(2) b False e(2) by simp
    from Cons.IH [OF _ this Cons.prems(3), of "dec\<lparr>dec_index := add64 (dec_index dec) 1\<rparr>"] show ?thesis
      using Cons.prems(1) r1 r2 v e(1) unfolding b by (auto simp: Let_def)
  qed
qed

lemma decodeV2_truncated:
  assumes m: "carries pc m" "streamable dec m" and k: "k < length (messageBytes pc enc m)"
  shows "\<exists>err \<in> eof. \<exists>d. decodeV2 pc dec (take k (messageBytes pc enc m)) = Some (Inl err, d, [])"
proof (cases "k = 0")
  case True
  then show ?thesis by (simp add: decodeV2_def ReadFull_def eof_def)
next
  case False
  obtain t rest where b: "messageBytes pc enc m = typeByte t @ rest" "t = 0 \<and> rest = [] \<or>
      t = 1 \<and> rest = PutUint64 (length (m_Entries m)) @ concat (map (entryBytes pc) (m_Entries m)) @ PutUint64 (m_Commit m) \<and> m \<noteq> linkHeartbeatMessage \<or>
      t = 2 \<and> rest = PutUint64 (pc_sizeMessage pc m) @ pc_marshalMessage pc m"
  proof -
    have "isLinkHeartbeatMessage linkHeartbeatMessage"
      by (simp add: isLinkHeartbeatMessage_def linkHeartbeatMessage_def emptyMessage_def)
    then consider "messageBytes pc enc m = typeByte 0" | "m \<noteq> linkHeartbeatMessage" "messageBytes pc enc m = appEntriesBytes pc m"
      | "messageBytes pc enc m = appBytes pc m" unfolding messageBytes_def by (metis (full_types))
    then show ?thesis
      by cases (use that in \<open>force simp: appBytes_def appEntriesBytes_def\<close>)+
  qed
  have r: "ReadFull (take k (typeByte t @ rest)) 1 = (Inr (typeByte t), take (k - 1) rest)"
    using ReadFull_take [of "typeByte t" 1 k rest] False by auto
  have k1: "k - 1 < length rest" using k False unfolding b(1) by simp
  from b(2) show ?thesis
  proof (elim disjE conjE)
    assume "t = 0" "rest = []"
    then show ?thesis using k1 by simp
  next
    assume t: "t = 1" and nohb: "m \<noteq> linkHeartbeatMessage"
      and rest: "rest = PutUint64 (length (m_Entries m)) @ concat (map (entryBytes pc) (m_Entries m)) @ PutUint64 (m_Commit m)"
    let ?tail = "concat (map (entryBytes pc) (m_Entries m)) @ PutUint64 (m_Commit m)"
    have fits: "length (m_Entries m) * entryStructBytes \<le> maxAlloc" and es: "\<forall>e \<in> set (m_Entries m). carries_entry pc e"
      using m nohb by (simp_all add: streamable_def carries_def)
    have d: "decodeV2 pc dec (take k (messageBytes pc enc m)) = decodeAppEntries pc dec (take (k - 1) rest)"
      using r t by (simp add: decodeV2_def b(1))
    show ?thesis
    proof (cases "k - 1 < 8")
      case True
      then show ?thesis using ReadFull_take [of "PutUint64 (length (m_Entries m))" 8 "k - 1" ?tail]
        unfolding d unfolding rest by (auto simp: decodeAppEntries_def Let_def)
    next
      case False
      have r1: "ReadFull (take (k - 1) rest) 8 = (Inr (PutUint64 (length (m_Entries m))), take (k - 1 - 8) ?tail)"
        using ReadFull_take [of "PutUint64 (length (m_Entries m))" 8 "k - 1" ?tail] False unfolding rest by auto
      have "k - 1 - 8 < length ?tail" using k1 False unfolding rest by simp
      from decodeEntries_truncated [OF es this PutUint64_length, of dec] show ?thesis
      proof (elim disjE bexE exE conjE)
        fix err d' assume "err \<in> eof" "decodeEntries pc (length (m_Entries m)) dec (take (k - 1 - 8) ?tail) = Some (Inl err, d', [])"
        then show ?thesis using d r1 fits by (auto simp: decodeAppEntries_def Let_def make_defs)
      next
        fix d' s assume "decodeEntries pc (length (m_Entries m)) dec (take (k - 1 - 8) ?tail) = Some (Inr (m_Entries m), d', s)" "length s < 8"
        then show ?thesis using d r1 fits ReadFull_eof [of s 8] by (auto simp: decodeAppEntries_def Let_def make_defs)
      qed
    qed
  next
    assume t: "t = 2" and rest: "rest = PutUint64 (pc_sizeMessage pc m) @ pc_marshalMessage pc m"
    have c: "length (pc_marshalMessage pc m) = pc_sizeMessage pc m" "pc_sizeMessage pc m \<le> maxAlloc" using m(1) by (simp_all add: carries_def)
    have d: "decodeV2 pc dec (take k (messageBytes pc enc m)) = decodeApp pc dec (take (k - 1) rest)"
      using r t by (simp add: decodeV2_def b(1))
    have "k - 1 - 8 < length (pc_marshalMessage pc m) \<or> k - 1 < 8" using k1 unfolding rest by auto
    then show ?thesis
      using ReadFull_take [of "PutUint64 (pc_sizeMessage pc m)" 8 "k - 1" "pc_marshalMessage pc m"] c
        ReadFull_eof [of "take (k - 1 - 8) (pc_marshalMessage pc m)" "pc_sizeMessage pc m"]
      unfolding d unfolding rest by (auto simp: decodeApp_def Let_def make_defs)
  qed
qed

subsection \<open>The general codec\<close>

lemma encodeMessage_bytes:
  "encodeMessage pc appendWriter w m = (None, w @ PutUint64 (pc_sizeMessage pc m) @ pc_marshalMessage pc m)"
  by (simp add: encodeMessage_def appendWriter_eq)

lemma decodeMessage_bytes:
  assumes "carries pc m"
  shows "decodeMessage pc (PutUint64 (pc_sizeMessage pc m) @ pc_marshalMessage pc m @ s) =
    Some (if pc_sizeMessage pc m \<le> readBytesLimit then (Inr m, s) else (Inl ErrExceedSizeLimit, pc_marshalMessage pc m @ s))"
  using assms by (simp add: decodeMessage_def decodeLimit_def carries_def make_defs Let_def)

end
