(* ===== verification/KeyIndexFacts.thy ===== *)
theory KeyIndexFacts
  imports KeyIndex
begin

text \<open>
  What an index of revisions means: the history of a key, a list of puts and tombstones. Reading at a
  revision, putting, deleting and compacting are refined to the operations on histories.
\<close>

subsection \<open>Histories\<close>

text \<open>A put with the revision that created the key and the version, or a tombstone.\<close>

type_synonym event = "revision \<times> (revision \<times> int) option"

definition latest :: "event list \<Rightarrow> int \<Rightarrow> event option" where
  "latest h t = (let es = filter (\<lambda>e. rev_main (fst e) \<le> t) h in if es = [] then None else Some (List.last es))"

definition h_get :: "event list \<Rightarrow> int \<Rightarrow> (revision \<times> revision \<times> int) option" where
  "h_get h t = (case latest h t of Some (r, Some (c, v)) \<Rightarrow> Some (r, c, v) | _ \<Rightarrow> None)"

definition h_put :: "event list \<Rightarrow> revision \<Rightarrow> event list" where
  "h_put h r = h @ [(r, Some (if h = [] then (r, 1)
     else case snd (List.last h) of None \<Rightarrow> (r, 1) | Some (c, v) \<Rightarrow> (c, v + 1)))]"

lemma latest_append:
  "latest (g @ h) t = (if \<exists>e \<in> set h. rev_main (fst e) \<le> t then latest h t else latest g t)"
proof -
  have "filter (\<lambda>e. rev_main (fst e) \<le> t) h = [] \<longleftrightarrow> \<not> (\<exists>e \<in> set h. rev_main (fst e) \<le> t)"
    by (auto simp: filter_empty_conv)
  then show ?thesis by (auto simp: latest_def Let_def)
qed

lemma latest_None: "(\<And>e. e \<in> set h \<Longrightarrow> \<not> rev_main (fst e) \<le> t) \<Longrightarrow> latest h t = None"
  by (simp add: latest_def filter_empty_conv)

lemma latest_Cons_later:
  "(\<And>e. e \<in> set h \<Longrightarrow> \<not> rev_main (fst e) \<le> t) \<Longrightarrow> rev_main (fst e) \<le> t \<Longrightarrow> latest (e # h) t = Some e"
  by (simp add: latest_def filter_False)

lemma latest_nth:
  assumes "k < length h" and "rev_main (fst (h ! k)) \<le> t"
    and "\<And>j. k < j \<Longrightarrow> j < length h \<Longrightarrow> \<not> rev_main (fst (h ! j)) \<le> t"
  shows "latest h t = Some (h ! k)"
proof -
  have "\<not> rev_main (fst e) \<le> t" if e: "e \<in> set (drop (Suc k) h)" for e
  proof -
    obtain i where "i < length (drop (Suc k) h)" "e = drop (Suc k) h ! i" using e by (metis in_set_conv_nth)
    then show ?thesis using assms(3) [of "Suc k + i"] by simp
  qed
  then have "latest (h ! k # drop (Suc k) h) t = Some (h ! k)" using latest_Cons_later assms(2) by blast
  moreover have "\<exists>e \<in> set (h ! k # drop (Suc k) h). rev_main (fst e) \<le> t" using assms(2) by simp
  ultimately show ?thesis using latest_append [of "take k h" "h ! k # drop (Suc k) h" t]
    id_take_nth_drop [OF assms(1)] by simp
qed

subsection \<open>The history of an index\<close>

definition genEvent :: "generation \<Rightarrow> nat \<Rightarrow> event" where
  "genEvent g k = (g_revs g ! k, Some (g_created g, g_ver g - int (length (g_revs g) - k - 1)))"

definition openHist :: "generation \<Rightarrow> event list" where
  "openHist g = map (genEvent g) [0..<length (g_revs g)]"

definition closedHist :: "generation \<Rightarrow> event list" where
  "closedHist g = butlast (openHist g) @ [(List.last (g_revs g), None)]"

fun histOf :: "generation list \<Rightarrow> event list" where
  "histOf [] = []"
| "histOf (g # gs) = (if gs = [] then openHist g else closedHist g @ histOf gs)"

definition history :: "keyIndex \<Rightarrow> event list" where
  "history ki = histOf (ki_generations ki)"

lemma histOf_append: "bs \<noteq> [] \<Longrightarrow> histOf (as @ bs) = concat (map closedHist as) @ histOf bs"
  by (induction as) auto

definition allRevs :: "generation list \<Rightarrow> revision list" where
  "allRevs gens = concat (map g_revs gens)"

definition gen_ok :: "generation \<Rightarrow> bool" where
  "gen_ok g \<longleftrightarrow> int (length (g_revs g)) \<le> g_ver g \<and> g_ver g < 2 ^ 63 \<and> (g_revs g = [] \<longrightarrow> g_ver g = 0)"

text \<open>Revisions ascend; a generation that has ended holds a put and its tombstone at least.\<close>

definition ki_inv :: "keyIndex \<Rightarrow> bool" where
  "ki_inv ki \<longleftrightarrow> ki_generations ki \<noteq> [] \<and> (\<forall>g \<in> set (ki_generations ki). gen_ok g) \<and>
     (\<forall>g \<in> set (butlast (ki_generations ki)). 2 \<le> length (g_revs g)) \<and>
     sorted_wrt (<) (allRevs (ki_generations ki)) \<and>
     (\<forall>r \<in> set (allRevs (ki_generations ki)). r \<le> ki_modified ki)"

lemma openHist_length [simp]: "length (openHist g) = length (g_revs g)"
  by (simp add: openHist_def)

lemma openHist_nth [simp]: "k < length (g_revs g) \<Longrightarrow> openHist g ! k = genEvent g k"
  by (simp add: openHist_def)

lemma openHist_revs: "map fst (openHist g) = g_revs g"
  by (rule nth_equalityI) (simp_all add: genEvent_def)

lemma closedHist_revs: "g_revs g \<noteq> [] \<Longrightarrow> map fst (closedHist g) = g_revs g"
  using openHist_revs [of g] by (simp add: closedHist_def map_butlast)

lemma closedHist_length: "g_revs g \<noteq> [] \<Longrightarrow> length (closedHist g) = length (g_revs g)"
  using closedHist_revs [of g] by (metis length_map)

lemma closedHist_nth: "Suc k < length (g_revs g) \<Longrightarrow> closedHist g ! k = genEvent g k"
proof -
  assume "Suc k < length (g_revs g)"
  then have "k < length (butlast (openHist g))" "k < length (g_revs g)" by simp_all
  then show ?thesis by (simp only: closedHist_def nth_append if_True nth_butlast openHist_nth)
qed

lemma sorted_main:
  assumes "sorted_wrt (<) (xs :: revision list)" and "i \<le> j" and "j < length xs"
  shows "rev_main (xs ! i) \<le> rev_main (xs ! j)"
  using assms le_main [of "xs ! i" "xs ! j"] sorted_wrt_nth_less [OF assms(1), of i j]
  by (cases "i = j") auto

subsection \<open>Walking down\<close>

lemma walkDown_stops:
  assumes "walkDown (\<lambda>r s. (\<not> P r, s)) (rev xs) s = (n, s1)"
  shows "(n = -1 \<and> (\<forall>x \<in> set xs. \<not> P x)) \<or>
    (\<exists>k < length xs. n = int k \<and> P (xs ! k) \<and> (\<forall>j. k < j \<and> j < length xs \<longrightarrow> \<not> P (xs ! j)))"
  using assms
proof (induction xs arbitrary: n rule: rev_induct)
  case (snoc x xs)
  show ?case
  proof (cases "P x")
    case True
    then have "n = int (length xs)" using snoc.prems by simp
    then show ?thesis using True by (intro disjI2 exI [of _ "length xs"]) auto
  next
    case False
    then have "walkDown (\<lambda>r s. (\<not> P r, s)) (rev xs) s = (n, s1)" using snoc.prems by simp
    then show ?thesis using snoc.IH False by (fastforce simp: nth_append less_Suc_eq)
  qed
qed simp

subsection \<open>Reading\<close>

text \<open>Within a generation: the walk finds the event that is the latest.\<close>

lemma gen_events_after:
  assumes "sorted_wrt (<) (g_revs g)" and "g_revs g \<noteq> []" and "t < rev_main (g_revs g ! 0)" and "r \<in> set (g_revs g)"
  shows "\<not> rev_main r \<le> t"
proof -
  obtain i where "i < length (g_revs g)" "r = g_revs g ! i" using assms(4) by (metis in_set_conv_nth)
  then show ?thesis using sorted_main [OF assms(1), of 0 i] assms(3) by simp
qed

lemma walk_found:
  assumes "sorted_wrt (<) (g_revs g)" and "g_revs g \<noteq> []" and "rev_main (g_revs g ! 0) \<le> t"
  shows "\<exists>k < length (g_revs g). walk g (\<lambda>r s. (rev_main r > t, s)) () = (int k, ()) \<and> rev_main (g_revs g ! k) \<le> t \<and>
    (\<forall>j. k < j \<and> j < length (g_revs g) \<longrightarrow> \<not> rev_main (g_revs g ! j) \<le> t)"
proof -
  obtain n s1 where w: "walkDown (\<lambda>r s. (\<not> rev_main r \<le> t, s)) (rev (g_revs g)) () = (n, s1)" by (metis surj_pair)
  moreover have "\<exists>x \<in> set (g_revs g). rev_main x \<le> t" using assms(2,3) nth_mem by force
  ultimately obtain k where "k < length (g_revs g)" "n = int k" "rev_main (g_revs g ! k) \<le> t"
    "\<forall>j. k < j \<and> j < length (g_revs g) \<longrightarrow> \<not> rev_main (g_revs g ! j) \<le> t"
    using walkDown_stops [OF w] by blast
  then show ?thesis using w unfolding walk_def not_le by auto
qed

text \<open>What \<open>kiGet\<close> makes of the generation that was found.\<close>

definition readGen :: "generation \<Rightarrow> int \<Rightarrow> mvccErr + revision \<times> revision \<times> int" where
  "readGen g t = (case walk g (\<lambda>r s. (rev_main r > t, s)) () of (n, _) \<Rightarrow>
     if n \<noteq> -1 then Inr (g_revs g ! nat n, g_created g, i64 (g_ver g - i64 (int (length (g_revs g)) - n - 1)))
     else Inl ErrRevisionNotFound)"

definition asResult :: "(revision \<times> revision \<times> int) option \<Rightarrow> mvccErr + revision \<times> revision \<times> int" where
  "asResult x = (case x of None \<Rightarrow> Inl ErrRevisionNotFound | Some y \<Rightarrow> Inr y)"

lemma readGen_nth:
  assumes "gen_ok g" and "k < length (g_revs g)" and "walk g (\<lambda>r s. (rev_main r > t, s)) () = (int k, ())"
  shows "readGen g t = Inr (g_revs g ! k, g_created g, g_ver g - int (length (g_revs g) - k - 1))"
proof -
  let ?d = "int (length (g_revs g)) - int k - 1"
  have d: "?d = int (length (g_revs g) - k - 1)" "0 \<le> ?d" "?d < 2 ^ 63" "?d \<le> g_ver g" "g_ver g < 2 ^ 63"
    using assms(1,2) by (auto simp: gen_ok_def)
  then have "i64 (g_ver g - i64 ?d) = g_ver g - ?d" by simp
  then show ?thesis using assms(3) d(1) by (simp add: readGen_def)
qed

lemma readGen_open:
  assumes "gen_ok g" and "sorted_wrt (<) (g_revs g)" and "g_revs g \<noteq> []" and "rev_main (g_revs g ! 0) \<le> t"
  shows "asResult (h_get (openHist g) t) = readGen g t"
proof -
  obtain k where k: "k < length (g_revs g)" "walk g (\<lambda>r s. (rev_main r > t, s)) () = (int k, ())"
    "rev_main (g_revs g ! k) \<le> t" "\<forall>j. k < j \<and> j < length (g_revs g) \<longrightarrow> \<not> rev_main (g_revs g ! j) \<le> t"
    using walk_found [OF assms(2-4)] by blast
  have "latest (openHist g) t = Some (openHist g ! k)" using k by (intro latest_nth) (auto simp: genEvent_def)
  then show ?thesis using readGen_nth [OF assms(1) k(1,2)] k(1) by (simp add: h_get_def genEvent_def asResult_def)
qed

lemma readGen_closed:
  assumes "gen_ok g" and "sorted_wrt (<) (g_revs g)" and "g_revs g \<noteq> []" and "rev_main (g_revs g ! 0) \<le> t"
    and tomb: "t < rev_main (List.last (g_revs g))"
  shows "asResult (h_get (closedHist g) t) = readGen g t"
proof -
  obtain k where k: "k < length (g_revs g)" "walk g (\<lambda>r s. (rev_main r > t, s)) () = (int k, ())"
    "rev_main (g_revs g ! k) \<le> t" "\<forall>j. k < j \<and> j < length (g_revs g) \<longrightarrow> \<not> rev_main (g_revs g ! j) \<le> t"
    using walk_found [OF assms(2-4)] by blast
  have "k \<noteq> length (g_revs g) - 1" using tomb k(3) assms(3) by (auto simp: last_conv_nth)
  then have sk: "Suc k < length (g_revs g)" using k(1) by simp
  have revs: "fst (closedHist g ! j) = g_revs g ! j" if "j < length (g_revs g)" for j
    using closedHist_revs [OF assms(3)] that by (metis length_map nth_map)
  have "latest (closedHist g) t = Some (closedHist g ! k)"
    using k revs closedHist_length [OF assms(3)] by (intro latest_nth) auto
  then show ?thesis using readGen_nth [OF assms(1) k(1,2)] closedHist_nth [OF sk]
    by (simp add: h_get_def genEvent_def asResult_def)
qed

text \<open>The search through the generations that have ended.\<close>

lemma findGeneration_closed:
  assumes "\<forall>g \<in> set cs. gen_ok g \<and> sorted_wrt (<) (g_revs g) \<and> g_revs g \<noteq> []" and "length cs \<le> lastg"
    and "sorted_wrt (<) (allRevs cs)"
  shows "asResult (h_get (concat (map closedHist cs)) t) =
    (case findGenerationFrom (cs @ gs) lastg t (length cs) of
       None \<Rightarrow> Inl ErrRevisionNotFound | Some k \<Rightarrow> readGen ((cs @ gs) ! k) t)"
  using assms
proof (induction cs arbitrary: gs rule: rev_induct)
  case Nil
  then show ?case by (simp add: h_get_def latest_def asResult_def)
next
  case (snoc c cs)
  have c: "gen_ok c" "sorted_wrt (<) (g_revs c)" "g_revs c \<noteq> []" using snoc.prems(1) by simp_all
  have ne: "length cs \<noteq> lastg" using snoc.prems(2) by simp
  have nth: "(cs @ c # gs) ! length cs = c" and eq: "(cs @ [c]) @ gs = cs @ c # gs" by simp_all
  have lst: "List.last (g_revs c) = g_revs c ! (length (g_revs c) - 1)" using c(3) by (simp add: last_conv_nth)
  have "List.last (g_revs c) = fst (List.last (closedHist c))" "closedHist c \<noteq> []" by (simp_all add: closedHist_def)
  then have mem: "\<exists>e \<in> set (closedHist c). fst e = List.last (g_revs c)" by (metis last_in_set)
  show ?case
  proof (cases "rev_main (List.last (g_revs c)) \<le> t")
    case True
    then have "latest (closedHist c) t = Some (List.last (g_revs c), None)"
      by (simp add: closedHist_def latest_append latest_def)
    then have "h_get (concat (map closedHist (cs @ [c]))) t = None"
      using mem True by (auto simp: h_get_def latest_append)
    then show ?thesis using True lst c(3) ne nth unfolding eq by (simp add: asResult_def Let_def)
  next
    case False
    show ?thesis
    proof (cases "rev_main (g_revs c ! 0) \<le> t")
      case hd: True
      have "fst (closedHist c ! 0) = g_revs c ! 0" "closedHist c ! 0 \<in> set (closedHist c)"
        using closedHist_revs [OF c(3)] closedHist_length [OF c(3)] c(3) by (metis length_greater_0_conv length_map nth_map, simp)
      then have "h_get (concat (map closedHist (cs @ [c]))) t = h_get (closedHist c) t"
        using hd by (auto simp: h_get_def latest_append)
      then show ?thesis using readGen_closed [OF c hd] False hd lst c(3) ne nth unfolding eq by (simp add: Let_def)
    next
      case late: False
      have "\<not> rev_main (fst e) \<le> t" if "e \<in> set (closedHist c)" for e
        using gen_events_after [OF c(2,3), of t "fst e"] late that closedHist_revs [OF c(3)] by (metis image_eqI not_le set_map)
      then have "h_get (concat (map closedHist (cs @ [c]))) t = h_get (concat (map closedHist cs)) t"
        by (auto simp: h_get_def latest_append)
      moreover have "asResult (h_get (concat (map closedHist cs)) t) =
          (case findGenerationFrom (cs @ c # gs) lastg t (length cs) of
             None \<Rightarrow> Inl ErrRevisionNotFound | Some k \<Rightarrow> readGen ((cs @ c # gs) ! k) t)"
        using snoc.prems by (intro snoc.IH) (simp_all add: allRevs_def sorted_wrt_append)
      ultimately show ?thesis using late False lst c(3) ne nth unfolding eq by (simp add: Let_def)
    qed
  qed
qed

lemma ki_inv_split:
  assumes "ki_inv ki"
  obtains cs g where "ki_generations ki = cs @ [g]" "\<forall>c \<in> set cs. gen_ok c \<and> sorted_wrt (<) (g_revs c) \<and> 2 \<le> length (g_revs c)"
    "gen_ok g" "sorted_wrt (<) (g_revs g)" "sorted_wrt (<) (allRevs cs)"
    "\<forall>r \<in> set (allRevs cs). \<forall>s \<in> set (g_revs g). r < s"
    "history ki = concat (map closedHist cs) @ openHist g"
proof -
  obtain cs g where gens: "ki_generations ki = cs @ [g]" using assms by (metis ki_inv_def rev_exhaust)
  have sorted: "sorted_wrt (<) (allRevs (cs @ [g]))" using assms gens by (simp add: ki_inv_def)
  then have s: "sorted_wrt (<) (g_revs g)" "sorted_wrt (<) (allRevs cs)"
    "\<forall>r \<in> set (allRevs cs). \<forall>s \<in> set (g_revs g). r < s"
    by (auto simp: allRevs_def sorted_wrt_append)
  have "sorted_wrt (<) (g_revs c)" if c: "c \<in> set cs" for c
  proof -
    obtain as bs where "cs = as @ c # bs" using c by (metis split_list)
    then show ?thesis using s(2) by (simp add: allRevs_def sorted_wrt_append)
  qed
  then have "\<forall>c \<in> set cs. gen_ok c \<and> sorted_wrt (<) (g_revs c) \<and> 2 \<le> length (g_revs c)" "gen_ok g"
    "history ki = concat (map closedHist cs) @ openHist g"
    using assms gens by (simp_all add: ki_inv_def history_def histOf_append)
  then show ?thesis using that gens s by blast
qed

theorem kiGet_history:
  assumes "ki_inv ki" and "\<not> kiIsEmpty ki"
  shows "kiGet ki t = Some (asResult (h_get (history ki) t))"
proof -
  obtain cs g where k: "ki_generations ki = cs @ [g]" "\<forall>c \<in> set cs. gen_ok c \<and> sorted_wrt (<) (g_revs c) \<and> 2 \<le> length (g_revs c)"
    "gen_ok g" "sorted_wrt (<) (g_revs g)" "sorted_wrt (<) (allRevs cs)"
    "history ki = concat (map closedHist cs) @ openHist g"
    using ki_inv_split [OF assms(1)] by metis
  have closed: "\<forall>c \<in> set cs. gen_ok c \<and> sorted_wrt (<) (g_revs c) \<and> g_revs c \<noteq> []" using k(2) by fastforce
  note rest = findGeneration_closed [OF closed, of "length cs" t "[g]"]
  have found: "kiGet ki t = Some (case findGenerationFrom (cs @ [g]) (length cs) t (Suc (length cs)) of
      None \<Rightarrow> Inl ErrRevisionNotFound | Some j \<Rightarrow> if gIsEmpty ((cs @ [g]) ! j) then Inl ErrRevisionNotFound else readGen ((cs @ [g]) ! j) t)"
    using assms(2) k(1) by (simp add: kiGet_def findGeneration_def readGen_def split: option.split prod.split)
  have nonempty: "findGenerationFrom gs l t n = Some j \<Longrightarrow> \<not> gIsEmpty (gs ! j)" for gs l n j
    by (induction gs l t n rule: findGenerationFrom.induct) (auto simp: Let_def gIsEmpty_def split: if_splits)
  have found': "kiGet ki t = Some (case findGenerationFrom (cs @ [g]) (length cs) t (Suc (length cs)) of
      None \<Rightarrow> Inl ErrRevisionNotFound | Some j \<Rightarrow> readGen ((cs @ [g]) ! j) t)"
    unfolding found
    by (cases "findGenerationFrom (cs @ [g]) (length cs) t (Suc (length cs))") (auto dest: nonempty simp del: findGenerationFrom.simps)
  show ?thesis
  proof (cases "g_revs g \<noteq> [] \<and> rev_main (g_revs g ! 0) \<le> t")
    case True
    then have "genEvent g 0 \<in> set (openHist g)" "rev_main (fst (genEvent g 0)) \<le> t"
      using nth_mem [of 0 "openHist g"] by (simp_all add: genEvent_def)
    then have "\<exists>e \<in> set (openHist g). rev_main (fst e) \<le> t" by blast
    then have "h_get (history ki) t = h_get (openHist g) t" by (simp add: k(6) h_get_def latest_append)
    then show ?thesis using readGen_open [OF k(3,4)] True found' by (simp add: Let_def)
  next
    case False
    have "\<not> rev_main (fst e) \<le> t" if "e \<in> set (openHist g)" for e
      using gen_events_after [OF k(4), of t "fst e"] False that openHist_revs [of g] by (metis image_eqI not_le set_map list.set_cases list.discI)
    then have "h_get (history ki) t = h_get (concat (map closedHist cs)) t" by (auto simp: k(6) h_get_def latest_append)
    then show ?thesis using rest k(5) False found' by (auto simp: Let_def)
  qed
qed

subsection \<open>Writing\<close>

text \<open>A put at the end of the open generation.\<close>

lemma gPut_revs [simp]: "g_revs (gPut g r) = g_revs g @ [r]"
  by (simp add: gPut_def Let_def)

lemma openHist_gPut:
  assumes "gen_ok g" and "g_ver g < 2 ^ 63 - 1"
  shows "openHist (gPut g r) = openHist g @ [(r, Some (if g_revs g = [] then (r, 1) else (g_created g, g_ver g + 1)))]"
proof (rule nth_equalityI)
  have v: "i64 (g_ver g + 1) = g_ver g + 1" using assms by (simp add: gen_ok_def)
  fix k assume k: "k < length (openHist (gPut g r))"
  then have "k < length (g_revs g) \<or> k = length (g_revs g)" by auto
  then show "openHist (gPut g r) ! k =
      (openHist g @ [(r, Some (if g_revs g = [] then (r, 1) else (g_created g, g_ver g + 1)))]) ! k"
    using assms(1) v by (auto simp: gPut_def Let_def genEvent_def nth_append of_nat_diff gen_ok_def)
qed simp

lemma gPut_ok: "gen_ok g \<Longrightarrow> g_ver g < 2 ^ 63 - 1 \<Longrightarrow> gen_ok (gPut g r)"
  by (simp add: gen_ok_def gPut_def Let_def)

text \<open>The room that a put needs: the version is an \<open>int64\<close>.\<close>

definition has_room :: "keyIndex \<Rightarrow> bool" where
  "has_room ki \<longleftrightarrow> g_ver (List.last (ki_generations ki)) < 2 ^ 63 - 1"

lemma kiPut_eq:
  assumes "ki_generations ki = cs @ [g]" and "ki_modified ki < Revision m s"
  shows "kiPut ki m s = Some (ki\<lparr>ki_generations := cs @ [gPut g (Revision m s)], ki_modified := Revision m s\<rparr>)"
  using assms by (simp add: kiPut_def Let_def)

lemma last_openHist: "g_revs g \<noteq> [] \<Longrightarrow> snd (List.last (openHist g)) = Some (g_created g, g_ver g)"
  using openHist_length [of g] by (subst last_conv_nth) (auto simp: genEvent_def simp del: openHist_length)

lemma closedHist_last: "snd (List.last (closedHist g)) = None" and closedHist_nonempty [simp]: "closedHist g \<noteq> []"
  by (simp_all add: closedHist_def)

lemma closed_last: "concat (map closedHist cs) = [] \<or> snd (List.last (concat (map closedHist cs))) = None"
  using closedHist_last closedHist_nonempty by (induction cs rule: rev_induct) auto

lemma h_put_open:
  assumes "gen_ok g" and "g_ver g < 2 ^ 63 - 1"
  shows "concat (map closedHist cs) @ openHist (gPut g r) = h_put (concat (map closedHist cs) @ openHist g) r"
proof (cases "g_revs g = []")
  case True
  then have "openHist g = []" by (simp add: openHist_def)
  then show ?thesis using True openHist_gPut [OF assms, of r] closed_last [of cs] by (auto simp: h_put_def)
next
  case False
  then have "openHist g \<noteq> []" using openHist_length [of g] by (metis length_0_conv)
  then show ?thesis using False openHist_gPut [OF assms, of r] last_openHist [OF False]
    by (simp add: h_put_def)
qed

lemma appended_inv:
  assumes inv: "ki_inv ki" and less: "ki_modified ki < r" and all: "allRevs gens = allRevs (ki_generations ki) @ [r]"
    and "gens \<noteq> []" and "\<forall>c \<in> set gens. gen_ok c" and "\<forall>c \<in> set (butlast gens). 2 \<le> length (g_revs c)"
  shows "ki_inv (ki\<lparr>ki_generations := gens, ki_modified := r\<rparr>)"
proof -
  have below: "x < r" if "x \<in> set (allRevs (ki_generations ki))" for x
    using inv that less by (auto simp: ki_inv_def)
  have "sorted_wrt (<) (allRevs (ki_generations ki) @ [r])"
    using inv below by (simp add: ki_inv_def sorted_wrt_append)
  moreover have "\<forall>x \<in> set (allRevs (ki_generations ki) @ [r]). x \<le> r" using below by fastforce
  ultimately show ?thesis using assms(4-6) unfolding ki_inv_def by (simp add: all)
qed

theorem kiPut_history:
  assumes inv: "ki_inv ki" and room: "has_room ki" and less: "ki_modified ki < Revision m s"
  shows "\<exists>ki'. kiPut ki m s = Some ki' \<and> ki_inv ki' \<and> history ki' = h_put (history ki) (Revision m s) \<and>
    ki_modified ki' = Revision m s"
proof -
  obtain cs g where k: "ki_generations ki = cs @ [g]" "gen_ok g" "history ki = concat (map closedHist cs) @ openHist g"
    using ki_inv_split [OF inv] by metis
  have g: "g_ver g < 2 ^ 63 - 1" using room k(1) by (simp add: has_room_def)
  let ?ki = "ki\<lparr>ki_generations := cs @ [gPut g (Revision m s)], ki_modified := Revision m s\<rparr>"
  have "history ?ki = h_put (history ki) (Revision m s)"
    using h_put_open [OF k(2) g] k(3) by (simp add: history_def histOf_append)
  moreover have "ki_inv ?ki"
  proof (rule appended_inv [OF inv less])
    show "allRevs (cs @ [gPut g (Revision m s)]) = allRevs (ki_generations ki) @ [Revision m s]" by (simp add: k(1) allRevs_def)
  qed (use inv k(1) gPut_ok [OF k(2) g] in \<open>auto simp: ki_inv_def\<close>)
  ultimately show ?thesis using kiPut_eq [OF k(1) less] by auto
qed

text \<open>A put that does not come after all that was put before is a panic.\<close>

lemma kiPut_panics: "\<not> ki_modified ki < Revision m s \<Longrightarrow> kiPut ki m s = None"
  by (simp add: kiPut_def)

lemma kiPut_fresh:
  assumes "zeroRevision < Revision m s"
  shows "\<exists>ki. kiPut (newKeyIndex key) m s = Some ki \<and> ki_inv ki \<and> history ki = h_put [] (Revision m s) \<and> \<not> kiIsEmpty ki"
  using assms by (simp add: kiPut_def Let_def newKeyIndex_def ki_inv_def gPut_def emptyGeneration_def gen_ok_def allRevs_def
      history_def openHist_def genEvent_def h_put_def kiIsEmpty_def gIsEmpty_def)

text \<open>A tombstone ends the generation; of a key that is deleted already it is refused.\<close>

theorem kiTombstone_history:
  assumes inv: "ki_inv ki" and ne: "\<not> kiIsEmpty ki" and room: "has_room ki" and less: "ki_modified ki < Revision m s"
  shows "if history ki = [] \<or> snd (List.last (history ki)) = None then kiTombstone ki m s = Some (Some ErrRevisionNotFound, ki)
    else \<exists>ki'. kiTombstone ki m s = Some (None, ki') \<and> ki_inv ki' \<and> history ki' = history ki @ [(Revision m s, None)]"
proof -
  obtain cs g where k: "ki_generations ki = cs @ [g]" "gen_ok g" "history ki = concat (map closedHist cs) @ openHist g"
    using ki_inv_split [OF inv] by metis
  have g: "g_ver g < 2 ^ 63 - 1" using room k(1) by (simp add: has_room_def)
  let ?r = "Revision m s"
  let ?ki = "ki\<lparr>ki_generations := cs @ [gPut g ?r, emptyGeneration], ki_modified := ?r\<rparr>"
  show ?thesis
  proof (cases "g_revs g = []")
    case True
    then have "openHist g = []" by (simp add: openHist_def)
    then show ?thesis using True k ne closed_last [of cs] by (simp add: kiTombstone_def gIsEmpty_def)
  next
    case False
    have nonempty: "openHist g \<noteq> []" using False openHist_length [of g] by (metis length_0_conv)
    have "closedHist (gPut g ?r) = openHist g @ [(?r, None)]"
      using openHist_gPut [OF k(2) g, of ?r] by (simp add: closedHist_def)
    then have "history ?ki = history ki @ [(?r, None)]"
      using k(3) by (simp add: history_def histOf_append openHist_def emptyGeneration_def)
    moreover have "ki_inv ?ki"
    proof (rule appended_inv [OF inv less])
      show "allRevs (cs @ [gPut g ?r, emptyGeneration]) = allRevs (ki_generations ki) @ [?r]"
        by (simp add: k(1) allRevs_def emptyGeneration_def)
      show "\<forall>c \<in> set (cs @ [gPut g ?r, emptyGeneration]). gen_ok c"
        using inv k(1) gPut_ok [OF k(2) g] by (auto simp: ki_inv_def gen_ok_def emptyGeneration_def)
    qed (use inv k(1) False in \<open>auto simp: ki_inv_def butlast_append Suc_le_eq\<close>)
    moreover have "kiTombstone ki m s = Some (None, ?ki)"
      using ne k(1) False kiPut_eq [OF k(1) less] by (simp add: kiTombstone_def gIsEmpty_def)
    moreover have "snd (List.last (history ki)) \<noteq> None" using k(3) nonempty last_openHist [OF False] by simp
    moreover have "history ki \<noteq> []" using k(3) nonempty by simp
    ultimately show ?thesis by auto
  qed
qed

subsection \<open>Compacting\<close>

lemma compactGen_ends:
  assumes "\<forall>c \<in> set cs. g_revs c \<noteq> []"
  shows "\<exists>as x bs. cs @ [g] = as @ x # bs \<and> compactGen (cs @ [g]) t m = Some (m + length as) \<and>
    (\<forall>c \<in> set as. rev_main (List.last (g_revs c)) \<le> t) \<and> (bs \<noteq> [] \<longrightarrow> t < rev_main (List.last (g_revs x)))"
  using assms
proof (induction cs arbitrary: m)
  case Nil
  show ?case by (intro exI [of _ "[]"] exI [of _ g]) simp
next
  case (Cons c cs)
  obtain y ys where ys: "cs @ [g] = y # ys" by (cases "cs @ [g]") auto
  show ?case
  proof (cases "rev_main (List.last (g_revs c)) > t")
    case True
    then have "compactGen ((c # cs) @ [g]) t m = Some (m + length ([] :: generation list))"
      using Cons.prems ys by simp
    then show ?thesis using True by (intro exI [of _ "[]"] exI [of _ c] exI [of _ "cs @ [g]"]) simp
  next
    case False
    have rec: "compactGen ((c # cs) @ [g]) t m = compactGen (cs @ [g]) t (m + 1)"
      using Cons.prems ys False by simp
    obtain as x bs where IH: "cs @ [g] = as @ x # bs" "compactGen (cs @ [g]) t (m + 1) = Some (m + 1 + length as)"
      "\<forall>c \<in> set as. rev_main (List.last (g_revs c)) \<le> t" "bs \<noteq> [] \<longrightarrow> t < rev_main (List.last (g_revs x))"
      using Cons.IH [of "m + 1"] Cons.prems by auto
    then have "compactGen ((c # cs) @ [g]) t m = Some (m + length (c # as))" using rec by simp
    then show ?thesis using IH False by (intro exI [of _ "c # as"] exI [of _ x] exI [of _ bs]) simp
  qed
qed

lemma walkDown_marks:
  assumes "walkDown (\<lambda>r av. if P r then (False, finsert r av) else (True, av)) (rev xs) av = (n, av1)"
  shows "(n = -1 \<and> av1 = av \<and> (\<forall>x \<in> set xs. \<not> P x)) \<or>
    (\<exists>k < length xs. n = int k \<and> P (xs ! k) \<and> av1 = finsert (xs ! k) av \<and> (\<forall>j. k < j \<and> j < length xs \<longrightarrow> \<not> P (xs ! j)))"
  using assms
proof (induction xs arbitrary: n rule: rev_induct)
  case (snoc x xs)
  show ?case
  proof (cases "P x")
    case True
    then have "n = int (length xs)" "av1 = finsert x av" using snoc.prems by auto
    then show ?thesis using True by (intro disjI2 exI [of _ "length xs"]) auto
  next
    case False
    then have "walkDown (\<lambda>r av. if P r then (False, finsert r av) else (True, av)) (rev xs) av = (n, av1)"
      using snoc.prems by simp
    then show ?thesis using snoc.IH False by (fastforce simp: nth_append less_Suc_eq)
  qed
qed simp

text \<open>Dropping the first revisions of a generation drops their events.\<close>

definition cut :: "generation \<Rightarrow> nat \<Rightarrow> generation" where
  "cut g k = g\<lparr>g_revs := drop k (g_revs g)\<rparr>"

lemma cut_revs [simp]: "g_revs (cut g k) = drop k (g_revs g)"
  by (simp add: cut_def)

lemma openHist_cut: "k < length (g_revs g) \<Longrightarrow> openHist (cut g k) = drop k (openHist g)"
  by (rule nth_equalityI) (simp_all add: genEvent_def cut_def)

lemma closedHist_cut: "k < length (g_revs g) \<Longrightarrow> closedHist (cut g k) = drop k (closedHist g)"
  using openHist_cut [of k g] openHist_length [of g]
  by (simp add: closedHist_def butlast_drop del: openHist_length)

lemma histOf_cut: "k < length (g_revs g) \<Longrightarrow> histOf (cut g k # gs) = drop k (histOf (g # gs))"
proof -
  assume k: "k < length (g_revs g)"
  then have "length (closedHist g) = length (g_revs g)" by (intro closedHist_length) auto
  then show ?thesis using openHist_cut [OF k] closedHist_cut [OF k] k by simp
qed

lemma histOf_nth:
  assumes "k < length (g_revs g)" and "gs \<noteq> [] \<Longrightarrow> Suc k < length (g_revs g)"
  shows "histOf (g # gs) ! k = genEvent g k" and "k < length (histOf (g # gs))"
proof -
  have "g_revs g \<noteq> []" using assms(1) by auto
  then show "histOf (g # gs) ! k = genEvent g k" "k < length (histOf (g # gs))"
    using assms closedHist_nth [of k g] closedHist_length [of g] by (auto simp: nth_append)
qed

text \<open>Generations that ended by the revision show nothing at it or later.\<close>

lemma ended_shows_nothing:
  assumes "\<forall>c \<in> set cs. rev_main (List.last (g_revs c)) \<le> t"
  shows "h_get (concat (map closedHist cs)) t = None"
  using assms
proof (induction cs rule: rev_induct)
  case (snoc c cs)
  then have "latest (closedHist c) t = Some (List.last (g_revs c), None)" "\<exists>e \<in> set (closedHist c). rev_main (fst e) \<le> t"
    by (simp_all add: closedHist_def latest_append latest_def)
  then show ?case by (simp add: h_get_def latest_append)
qed (simp add: h_get_def latest_def)

text \<open>A history whose first part shows nothing can be dropped down to an event that is not later.\<close>

lemma h_get_suffix:
  assumes "(\<forall>e \<in> set suf. \<not> rev_main (fst e) \<le> t) \<longrightarrow> h_get pre t = None"
  shows "h_get (pre @ suf) t = h_get suf t"
proof (cases "\<exists>e \<in> set suf. rev_main (fst e) \<le> t")
  case False
  then have "h_get suf t = None" "h_get (pre @ suf) t = h_get pre t"
    by (auto simp: h_get_def latest_append latest_None)
  then show ?thesis using assms False by auto
qed (simp add: h_get_def latest_append)

text \<open>What compaction finds: the generation \<open>x\<close> it keeps from, and the event in it from which on.\<close>

lemma doCompact_finds:
  assumes inv: "ki_inv ki"
  obtains as x bs where "ki_generations ki = as @ x # bs" "\<forall>c \<in> set as. rev_main (List.last (g_revs c)) \<le> t"
    "doCompact ki t av = Some (length as, -1, av)" "\<forall>r \<in> set (g_revs x). \<not> rev_main r \<le> t"
    "bs \<noteq> [] \<longrightarrow> 2 \<le> length (g_revs x)"
  | as x bs k where "ki_generations ki = as @ x # bs" "\<forall>c \<in> set as. rev_main (List.last (g_revs c)) \<le> t"
    "k < length (g_revs x)" "doCompact ki t av = Some (length as, int k, finsert (g_revs x ! k) av)"
    "rev_main (g_revs x ! k) \<le> t" "\<forall>j. k < j \<and> j < length (g_revs x) \<longrightarrow> \<not> rev_main (g_revs x ! j) \<le> t"
    "bs \<noteq> [] \<longrightarrow> Suc k < length (g_revs x)"
proof -
  obtain cs g where gens: "ki_generations ki = cs @ [g]" using inv by (metis ki_inv_def rev_exhaust)
  have "\<forall>c \<in> set cs. g_revs c \<noteq> []" using inv gens by (force simp: ki_inv_def)
  from compactGen_ends [OF this, of g t 0] obtain as x bs where c: "cs @ [g] = as @ x # bs"
    "compactGen (cs @ [g]) t 0 = Some (length as)" "\<forall>c \<in> set as. rev_main (List.last (g_revs c)) \<le> t"
    "bs \<noteq> [] \<longrightarrow> t < rev_main (List.last (g_revs x))" by auto
  have x2: "bs \<noteq> [] \<longrightarrow> 2 \<le> length (g_revs x)"
  proof
    assume "bs \<noteq> []"
    then have "x \<in> set (butlast (ki_generations ki))" by (simp add: gens c(1) butlast_append)
    then show "2 \<le> length (g_revs x)" using inv by (simp add: ki_inv_def)
  qed
  have gens': "ki_generations ki = as @ x # bs" using gens c(1) by simp
  have nth: "(cs @ [g]) ! length as = x" unfolding c(1) by simp
  obtain n av1 where w: "walkDown (\<lambda>r av. if rev_main r \<le> t then (False, finsert r av) else (True, av)) (rev (g_revs x)) av = (n, av1)"
    by (rule prod.exhaust)
  have d: "doCompact ki t av = Some (length as, n, av1)" using c(2) w nth by (simp add: doCompact_def gens walk_def)
  from walkDown_marks [OF w] show ?thesis
  proof (elim disjE exE conjE)
    assume "n = -1" "av1 = av" "\<forall>r \<in> set (g_revs x). \<not> rev_main r \<le> t"
    then show ?thesis using d by (intro that(1) [OF gens' c(3) _ _ x2]) simp_all
  next
    fix k assume k: "k < length (g_revs x)" "n = int k" "rev_main (g_revs x ! k) \<le> t" "av1 = finsert (g_revs x ! k) av"
      "\<forall>j. k < j \<and> j < length (g_revs x) \<longrightarrow> \<not> rev_main (g_revs x ! j) \<le> t"
    have "bs \<noteq> [] \<longrightarrow> Suc k < length (g_revs x)"
    proof
      assume "bs \<noteq> []"
      then have "t < rev_main (g_revs x ! (length (g_revs x) - 1))" using c(4) k(1) by (subst (asm) last_conv_nth) auto
      then have "k \<noteq> length (g_revs x) - 1" using k(3) by auto
      then show "Suc k < length (g_revs x)" using k(1) by simp
    qed
    moreover have "doCompact ki t av = Some (length as, int k, finsert (g_revs x ! k) av)" using d k(2,4) by simp
    ultimately show ?thesis by (intro that(2) [OF gens' c(3) k(1) _ k(3,5)])
  qed
qed

text \<open>The revision that a reader at \<open>t\<close> sees, added to a set.\<close>

definition seen :: "event list \<Rightarrow> int \<Rightarrow> revision fset \<Rightarrow> revision fset" where
  "seen h t av = (case h_get h t of None \<Rightarrow> av | Some (r, _, _) \<Rightarrow> finsert r av)"

lemma histOf_revs: "\<forall>c \<in> set (butlast gens). g_revs c \<noteq> [] \<Longrightarrow> map fst (histOf gens) = allRevs gens"
proof (induction gens)
  case (Cons g gs)
  then show ?case using openHist_revs [of g] closedHist_revs [of g] by (cases "gs = []") (auto simp: allRevs_def)
qed (simp add: allRevs_def)

lemma later_events:
  assumes "sorted_wrt (<) (map fst (h :: event list))" and "i < length h" and "\<not> rev_main (fst (h ! i)) \<le> t" and "i \<le> j" and "j < length h"
  shows "\<not> rev_main (fst (h ! j)) \<le> t"
  using sorted_main [OF assms(1), of i j] assms by simp

lemma histOf_fst:
  "j < length (g_revs x) \<Longrightarrow> fst (histOf (x # bs) ! j) = g_revs x ! j \<and> j < length (histOf (x # bs))"
proof -
  assume j: "j < length (g_revs x)"
  then have ne: "g_revs x \<noteq> []" by auto
  have "fst (closedHist x ! j) = g_revs x ! j"
    using closedHist_revs [OF ne] closedHist_length [OF ne] j by (metis nth_map)
  then show ?thesis using j closedHist_length [OF ne] by (simp add: genEvent_def nth_append)
qed

lemma ki_inv_from:
  assumes inv: "ki_inv ki" and gens: "ki_generations ki = as @ x # bs"
    and k: "k = 0 \<or> k < length (g_revs x)" "bs \<noteq> [] \<longrightarrow> Suc k < length (g_revs x)"
  shows "ki_inv (ki\<lparr>ki_generations := cut x k # bs\<rparr>)"
proof -
  have all: "allRevs (ki_generations ki) = allRevs as @ take k (g_revs x) @ allRevs (cut x k # bs)"
    by (simp add: gens allRevs_def)
  then have "sorted_wrt (<) (allRevs (cut x k # bs))" "\<forall>r \<in> set (allRevs (cut x k # bs)). r \<le> ki_modified ki"
    using inv by (auto simp: ki_inv_def sorted_wrt_append)
  moreover have "gen_ok (cut x k)" using inv gens k(1) by (auto simp: ki_inv_def gen_ok_def cut_def)
  ultimately show ?thesis using inv gens k(2) by (auto simp: ki_inv_def butlast_append)
qed

lemma ki_inv_sorted:
  assumes "ki_inv ki" and "ki_generations ki = as @ gs" and "gs \<noteq> []"
  shows "sorted_wrt (<) (map fst (histOf gs))"
proof -
  have "\<forall>c \<in> set (butlast gs). g_revs c \<noteq> []" using assms by (force simp: ki_inv_def butlast_append)
  then show ?thesis using assms histOf_revs [of gs] by (simp add: ki_inv_def allRevs_def sorted_wrt_append)
qed

lemma kiCompact_history:
  assumes inv: "ki_inv ki" and ne: "\<not> kiIsEmpty ki"
  obtains ki' where "kiCompact ki t av = Some (ki', seen (history ki) t av)" "kiKeep ki t av = Some (seen (history ki) t av)"
    "ki_inv ki'" "ki_key ki' = ki_key ki" "ki_modified ki' = ki_modified ki"
    "\<And>t'. t \<le> t' \<Longrightarrow> h_get (history ki') t' = h_get (history ki) t'"
    "\<And>e. e \<in> set (history ki') \<Longrightarrow> e \<in> set (history ki)"
    "\<forall>e \<in> set (tl (history ki')). t < rev_main (fst e)"
  using inv
proof (cases rule: doCompact_finds [where t = t and av = av])
  case (1 as x bs)
  let ?H = "histOf (x # bs)"
  have h: "history ki = concat (map closedHist as) @ ?H" by (simp add: history_def 1(1) histOf_append del: histOf.simps)
  have late: "\<not> rev_main (fst e) \<le> t" if e: "e \<in> set ?H" for e
  proof (cases "g_revs x = []")
    case True
    then show ?thesis using e 1(5) by (auto simp: openHist_def)
  next
    case False
    obtain j where j: "j < length ?H" "e = ?H ! j" using e by (metis in_set_conv_nth)
    have "fst (?H ! 0) = g_revs x ! 0" "0 < length ?H" using histOf_fst [of 0 x bs] False by auto
    then show ?thesis using later_events [OF ki_inv_sorted [OF inv 1(1)], of 0 t j] j 1(4) False by simp
  qed
  have get: "h_get ?H t' = h_get (history ki) t'" if "t \<le> t'" for t'
    unfolding h using 1(2) that by (intro h_get_suffix [symmetric]) (auto intro!: ended_shows_nothing)
  have "h_get (history ki) t = None" using get [of t] late latest_None [of ?H t] by (simp add: h_get_def)
  then have sn: "seen (history ki) t av = av" by (simp add: seen_def)
  have nth: "(as @ x # bs) ! length as = x" by simp
  have len: "bs \<noteq> [] \<Longrightarrow> length (g_revs x) \<noteq> Suc 0" using 1(5) by auto
  have c: "kiCompact ki t av = Some (ki\<lparr>ki_generations := x # bs\<rparr>, av)"
    using ne 1(3) nth len by (auto simp: kiCompact_def 1(1) Let_def gIsEmpty_def)
  have k: "kiKeep ki t av = Some av" using ne 1(3) nth len by (auto simp: kiKeep_def 1(1) Let_def gIsEmpty_def)
  have "cut x 0 = x" by (simp add: cut_def)
  then have "ki_inv (ki\<lparr>ki_generations := x # bs\<rparr>)" using ki_inv_from [OF inv 1(1), of 0] 1(5) by auto
  moreover have "\<forall>e \<in> set (tl ?H). t < rev_main (fst e)" using late by (cases ?H) (auto simp: not_le)
  moreover have "history (ki\<lparr>ki_generations := x # bs\<rparr>) = ?H" by (simp add: history_def del: histOf.simps)
  ultimately show ?thesis using that [of "ki\<lparr>ki_generations := x # bs\<rparr>"] c k sn get h by (simp del: histOf.simps)
next
  case (2 as x bs k)
  let ?H = "histOf (x # bs)"
  have h: "history ki = concat (map closedHist as) @ ?H" by (simp add: history_def 2(1) histOf_append del: histOf.simps)
  have nk: "?H ! k = genEvent x k" "k < length ?H" using histOf_nth [of k x bs] 2(3,7) by auto
  have now: "rev_main (fst (?H ! k)) \<le> t" using nk 2(5) by (simp add: genEvent_def)
  have late: "\<not> rev_main (fst (?H ! j)) \<le> t" if j: "k < j" "j < length ?H" for j
  proof -
    have sk: "Suc k < length (g_revs x)" using j 2(3,7) by (cases "bs = []") auto
    then have "\<not> rev_main (fst (?H ! Suc k)) \<le> t" using 2(6) histOf_fst [OF sk, of bs] by simp
    then show ?thesis using later_events [OF ki_inv_sorted [OF inv 2(1)], of "Suc k" t j] j by simp
  qed
  let ?ki = "ki\<lparr>ki_generations := cut x k # bs\<rparr>"
  have H': "history ?ki = drop k ?H" using histOf_cut [OF 2(3), of bs] by (simp add: history_def del: histOf.simps)
  have split: "history ki = (concat (map closedHist as) @ take k ?H) @ drop k ?H" unfolding h by simp
  have first: "drop k ?H = ?H ! k # drop (Suc k) ?H" using nk(2) by (simp add: Cons_nth_drop_Suc del: histOf.simps)
  have get: "h_get (drop k ?H) t' = h_get (history ki) t'" if "t \<le> t'" for t'
    unfolding split using now that first by (intro h_get_suffix [symmetric]) (auto simp del: histOf.simps)
  have "latest ?H t = Some (?H ! k)" using nk(2) now late by (rule latest_nth)
  then have "latest (history ki) t = Some (genEvent x k)"
    unfolding h using nk now nth_mem [OF nk(2)] by (auto simp: latest_append simp del: histOf.simps)
  then have sn: "seen (history ki) t av = finsert (g_revs x ! k) av" by (simp add: seen_def h_get_def genEvent_def)
  have tl: "\<forall>e \<in> set (drop (Suc k) ?H). t < rev_main (fst e)"
  proof
    fix e assume "e \<in> set (drop (Suc k) ?H)"
    then obtain i where "i < length (drop (Suc k) ?H)" "e = drop (Suc k) ?H ! i" by (metis in_set_conv_nth)
    then show "t < rev_main (fst e)" using late [of "Suc k + i"] by (simp add: not_le del: histOf.simps)
  qed
  have nth: "(as @ x # bs) ! length as = x" "(as @ x # bs)[length as := y] = as @ y # bs" for y by simp_all
  have cutx: "x\<lparr>g_revs := drop k (g_revs x)\<rparr> = cut x k" by (simp add: cut_def)
  have c: "kiCompact ki t av = Some (?ki, finsert (g_revs x ! k) av)"
    using ne 2(3,4,7) nth by (auto simp: kiCompact_def 2(1) Let_def gIsEmpty_def cutx)
  have k: "kiKeep ki t av = Some (finsert (g_revs x ! k) av)"
    using ne 2(3,4,7) nth(1) by (auto simp: kiKeep_def 2(1) Let_def gIsEmpty_def)
  show ?thesis
  proof (rule that [of ?ki])
    show "ki_inv ?ki" using ki_inv_from [OF inv 2(1) _ 2(7)] 2(3) by blast
    show "e \<in> set (history ki)" if "e \<in> set (history ?ki)" for e
      using that in_set_dropD [of e k ?H] unfolding h H' by (simp del: histOf.simps)
  qed (use c k sn get H' tl first in \<open>simp_all del: histOf.simps\<close>)
qed

end
