(* ===== verification/TreeIndex.thy ===== *)
theory TreeIndex
  imports KeyIndexFacts
begin

text \<open>
  \<open>glee-etcd/mvcc/index.go\<close>: the index of all keys, over a B-tree of the package \<open>google/btree\<close>, which is the
  parameter \<open>btreeOps\<close>. Its items are pointers to key indexes; a change of an item in place, which leaves
  the key as it is, is written as replacing the item by the changed one.
\<close>

record 't btreeOps =
  bt_Get :: "'t \<Rightarrow> keyIndex \<Rightarrow> keyIndex option"
  bt_ReplaceOrInsert :: "'t \<Rightarrow> keyIndex \<Rightarrow> 't"
  bt_Delete :: "'t \<Rightarrow> keyIndex \<Rightarrow> keyIndex option \<times> 't"
  bt_Len :: "'t \<Rightarrow> nat"
  bt_Ascend :: "'t \<Rightarrow> keyIndex list"
  bt_AscendGreaterOrEqual :: "'t \<Rightarrow> keyIndex \<Rightarrow> keyIndex list"

definition tiPut :: "'t btreeOps \<Rightarrow> 't \<Rightarrow> string \<Rightarrow> revision \<Rightarrow> 't option" where
  "tiPut B t key r =
     (let keyi = newKeyIndex key in
      case bt_Get B t keyi of
        None \<Rightarrow> do { keyi1 \<leftarrow> kiPut keyi (rev_main r) (rev_sub r); Some (bt_ReplaceOrInsert B t keyi1) }
      | Some okeyi \<Rightarrow> do { okeyi1 \<leftarrow> kiPut okeyi (rev_main r) (rev_sub r); Some (bt_ReplaceOrInsert B t okeyi1) })"

definition tiKeyIndex :: "'t btreeOps \<Rightarrow> 't \<Rightarrow> keyIndex \<Rightarrow> keyIndex option" where
  "tiKeyIndex B t keyi = bt_Get B t keyi"

definition tiGet :: "'t btreeOps \<Rightarrow> 't \<Rightarrow> string \<Rightarrow> int \<Rightarrow> (mvccErr + revision \<times> revision \<times> int) option" where
  "tiGet B t key atRev =
     (case tiKeyIndex B t (newKeyIndex key) of
        None \<Rightarrow> Some (Inl ErrRevisionNotFound)
      | Some keyi \<Rightarrow> kiGet keyi atRev)"

text \<open>The items that \<open>visit\<close> hands to a visitor that never stops it; an empty end is no bound.\<close>

definition visited :: "'t btreeOps \<Rightarrow> 't \<Rightarrow> string \<Rightarrow> string \<Rightarrow> keyIndex list" where
  "visited B t key en =
     takeWhile (\<lambda>item. \<not> (length en > 0 \<and> \<not> kiLess item (newKeyIndex en))) (bt_AscendGreaterOrEqual B t (newKeyIndex key))"

text \<open>The visitors; the error of \<open>kiGet\<close> means that the key does not exist at the revision.\<close>

definition visitRevisions :: "int \<Rightarrow> int \<Rightarrow> revision list \<times> nat \<Rightarrow> keyIndex \<Rightarrow> (revision list \<times> nat) option" where
  "visitRevisions atRev limit acc ki =
     (case acc of (revs, cnt) \<Rightarrow>
        do { res \<leftarrow> kiGet ki atRev;
             Some (case res of
               Inr (r, _, _) \<Rightarrow> (if limit \<le> 0 \<or> int (length revs) < limit then revs @ [r] else revs, cnt + 1)
             | Inl _ \<Rightarrow> (revs, cnt)) })"

definition tiRevisions :: "'t btreeOps \<Rightarrow> 't \<Rightarrow> string \<Rightarrow> string option \<Rightarrow> int \<Rightarrow> int \<Rightarrow> (revision list \<times> nat) option" where
  "tiRevisions B t key en atRev limit =
     (case en of
        None \<Rightarrow> do { res \<leftarrow> tiGet B t key atRev; Some (case res of Inl _ \<Rightarrow> ([], 0) | Inr (r, _, _) \<Rightarrow> ([r], 1)) }
      | Some e \<Rightarrow> foldM (visitRevisions atRev limit) ([], 0) (visited B t key e))"

definition visitCount :: "int \<Rightarrow> nat \<Rightarrow> keyIndex \<Rightarrow> nat option" where
  "visitCount atRev cnt ki =
     do { res \<leftarrow> kiGet ki atRev; Some (case res of Inr _ \<Rightarrow> cnt + 1 | Inl _ \<Rightarrow> cnt) }"

definition tiCountRevisions :: "'t btreeOps \<Rightarrow> 't \<Rightarrow> string \<Rightarrow> string option \<Rightarrow> int \<Rightarrow> nat option" where
  "tiCountRevisions B t key en atRev =
     (case en of
        None \<Rightarrow> do { res \<leftarrow> tiGet B t key atRev; Some (case res of Inl _ \<Rightarrow> 0 | Inr _ \<Rightarrow> 1) }
      | Some e \<Rightarrow> foldM (visitCount atRev) 0 (visited B t key e))"

definition visitRange :: "int \<Rightarrow> string list \<times> revision list \<Rightarrow> keyIndex \<Rightarrow> (string list \<times> revision list) option" where
  "visitRange atRev acc ki =
     (case acc of (keys, revs) \<Rightarrow>
        do { res \<leftarrow> kiGet ki atRev;
             Some (case res of Inr (r, _, _) \<Rightarrow> (keys @ [ki_key ki], revs @ [r]) | Inl _ \<Rightarrow> (keys, revs)) })"

definition tiRange :: "'t btreeOps \<Rightarrow> 't \<Rightarrow> string \<Rightarrow> string option \<Rightarrow> int \<Rightarrow> (string list \<times> revision list) option" where
  "tiRange B t key en atRev =
     (case en of
        None \<Rightarrow> do { res \<leftarrow> tiGet B t key atRev; Some (case res of Inl _ \<Rightarrow> ([], []) | Inr (r, _, _) \<Rightarrow> ([key], [r])) }
      | Some e \<Rightarrow> foldM (visitRange atRev) ([], []) (visited B t key e))"

definition tiTombstone :: "'t btreeOps \<Rightarrow> 't \<Rightarrow> string \<Rightarrow> revision \<Rightarrow> (mvccErr option \<times> 't) option" where
  "tiTombstone B t key r =
     (case bt_Get B t (newKeyIndex key) of
        None \<Rightarrow> Some (Some ErrRevisionNotFound, t)
      | Some ki \<Rightarrow>
          do { (err, ki1) \<leftarrow> kiTombstone ki (rev_main r) (rev_sub r); Some (err, bt_ReplaceOrInsert B t ki1) })"

definition tiRangeSince :: "'t btreeOps \<Rightarrow> 't \<Rightarrow> string \<Rightarrow> string option \<Rightarrow> int \<Rightarrow> revision list option" where
  "tiRangeSince B t key en r =
     (case en of
        None \<Rightarrow> (case bt_Get B t (newKeyIndex key) of None \<Rightarrow> Some [] | Some keyi \<Rightarrow> kiSince keyi r)
      | Some e \<Rightarrow>
          do { revs \<leftarrow> foldM (\<lambda>revs ki. do { s \<leftarrow> kiSince ki r; Some (revs @ s) }) [] (visited B t key e);
               Some (sort revs) })"

text \<open>One step of the compaction: an index that became empty is deleted, which must not fail.\<close>

definition compactItem :: "'t btreeOps \<Rightarrow> int \<Rightarrow> 't \<times> revision fset \<Rightarrow> keyIndex \<Rightarrow> ('t \<times> revision fset) option" where
  "compactItem B r acc keyi =
     (case acc of (t, available) \<Rightarrow>
        do { (keyi1, available1) \<leftarrow> kiCompact keyi r available;
             if kiIsEmpty keyi1 then
               case bt_Delete B (bt_ReplaceOrInsert B t keyi1) keyi1 of
                 (None, _) \<Rightarrow> None
               | (Some _, t1) \<Rightarrow> Some (t1, available1)
             else Some (bt_ReplaceOrInsert B t keyi1, available1) })"

definition tiCompact :: "'t btreeOps \<Rightarrow> 't \<Rightarrow> int \<Rightarrow> ('t \<times> revision fset) option" where
  "tiCompact B t r = foldM (compactItem B r) (t, {||}) (bt_Ascend B t)"

definition tiKeep :: "'t btreeOps \<Rightarrow> 't \<Rightarrow> int \<Rightarrow> revision fset option" where
  "tiKeep B t r = foldM (\<lambda>available keyi. kiKeep keyi r available) {||} (bt_Ascend B t)"

definition tiInsert :: "'t btreeOps \<Rightarrow> 't \<Rightarrow> keyIndex \<Rightarrow> 't" where
  "tiInsert B t ki = bt_ReplaceOrInsert B t ki"

text \<open>An item that the other tree does not have is a panic (a nil interface is asserted).\<close>

fun equalItems :: "'t btreeOps \<Rightarrow> keyIndex list \<Rightarrow> 't \<Rightarrow> bool option" where
  "equalItems B [] b = Some True"
| "equalItems B (aki # items) b =
     do { bki \<leftarrow> bt_Get B b aki; if \<not> kiEqual aki bki then Some False else equalItems B items b }"

definition tiEqual :: "'t btreeOps \<Rightarrow> 't \<Rightarrow> 't \<Rightarrow> bool option" where
  "tiEqual B t b = (if bt_Len B t \<noteq> bt_Len B b then Some False else equalItems B (bt_Ascend B t) b)"

subsection \<open>The documented behaviour of the tree\<close>

fun insertItem :: "keyIndex \<Rightarrow> keyIndex list \<Rightarrow> keyIndex list" where
  "insertItem x [] = [x]"
| "insertItem x (y # ys) =
     (if kiLess x y then x # y # ys else if ki_key y = ki_key x then x # ys else y # insertItem x ys)"

definition findItem :: "string \<Rightarrow> keyIndex list \<Rightarrow> keyIndex option" where
  "findItem key xs = find (\<lambda>i. ki_key i = key) xs"

definition btree_ok :: "'t btreeOps \<Rightarrow> ('t \<Rightarrow> keyIndex list) \<Rightarrow> bool" where
  "btree_ok B items \<longleftrightarrow>
     (\<forall>t k. bt_Get B t k = findItem (ki_key k) (items t)) \<and>
     (\<forall>t k. items (bt_ReplaceOrInsert B t k) = insertItem k (items t)) \<and>
     (\<forall>t k. fst (bt_Delete B t k) = findItem (ki_key k) (items t) \<and>
        items (snd (bt_Delete B t k)) = filter (\<lambda>i. ki_key i \<noteq> ki_key k) (items t)) \<and>
     (\<forall>t. bt_Len B t = length (items t)) \<and> (\<forall>t. bt_Ascend B t = items t) \<and>
     (\<forall>t k. bt_AscendGreaterOrEqual B t k = filter (\<lambda>i. \<not> kiLess i k) (items t))"

text \<open>A tree that is a sorted list.\<close>

definition listTree :: "keyIndex list btreeOps" where
  "listTree = \<lparr>bt_Get = (\<lambda>t k. findItem (ki_key k) t), bt_ReplaceOrInsert = (\<lambda>t k. insertItem k t),
     bt_Delete = (\<lambda>t k. (findItem (ki_key k) t, filter (\<lambda>i. ki_key i \<noteq> ki_key k) t)), bt_Len = length,
     bt_Ascend = (\<lambda>t. t), bt_AscendGreaterOrEqual = (\<lambda>t k. filter (\<lambda>i. \<not> kiLess i k) t)\<rparr>"

lemma listTree_ok: "btree_ok listTree (\<lambda>t. t)"
  by (simp add: btree_ok_def listTree_def)

subsection \<open>Lists of items\<close>

lemma findItem_simps [simp]: "findItem key [] = None"
  "findItem key (x # xs) = (if ki_key x = key then Some x else findItem key xs)"
  by (simp_all add: findItem_def)

lemma findItem_insert: "findItem key (insertItem x xs) = (if ki_key x = key then Some x else findItem key xs)"
  by (induction xs) auto

lemma findItem_filter: "findItem key (filter (\<lambda>i. ki_key i \<noteq> k) xs) = (if key = k then None else findItem key xs)"
  by (induction xs) auto

lemma findItem_mem: "findItem key xs = Some x \<Longrightarrow> x \<in> set xs \<and> ki_key x = key"
  by (induction xs) (auto split: if_splits)

definition sorted_items :: "keyIndex list \<Rightarrow> bool" where
  "sorted_items xs \<longleftrightarrow> sorted_wrt kiLess xs"

lemma set_insertItem: "set (insertItem x xs) \<subseteq> insert x (set xs)"
  by (induction xs) auto

lemma sorted_insertItem: "sorted_items xs \<Longrightarrow> sorted_items (insertItem x xs)"
proof (induction xs)
  case (Cons y ys)
  have trans: "kiLess a b \<Longrightarrow> kiLess b c \<Longrightarrow> kiLess a c" for a b c using bytesLess_trans by (simp add: kiLess_def)
  have key: "ki_key y = ki_key x \<Longrightarrow> kiLess y z = kiLess x z" for z by (simp add: kiLess_def)
  have gt: "\<not> kiLess x y \<Longrightarrow> ki_key y \<noteq> ki_key x \<Longrightarrow> kiLess y x" using bytesLess_linear [of "ki_key x" "ki_key y"] by (auto simp: kiLess_def)
  show ?case using Cons set_insertItem [of x ys] trans [of x y] key gt by (auto simp: sorted_items_def)
qed (simp add: sorted_items_def)

lemma sorted_find:
  assumes "sorted_items xs" and "x \<in> set xs"
  shows "findItem (ki_key x) xs = Some x"
  using assms by (induction xs) (auto simp: sorted_items_def kiLess_def)

lemma sorted_filter_items: "sorted_items xs \<Longrightarrow> sorted_items (filter P xs)"
  by (simp add: sorted_items_def sorted_wrt_filter)

subsection \<open>The store of histories\<close>

definition ti_inv :: "('t \<Rightarrow> keyIndex list) \<Rightarrow> 't \<Rightarrow> bool" where
  "ti_inv items t \<longleftrightarrow> sorted_items (items t) \<and> (\<forall>ki \<in> set (items t). ki_inv ki \<and> \<not> kiIsEmpty ki)"

definition histAt :: "('t \<Rightarrow> keyIndex list) \<Rightarrow> 't \<Rightarrow> string \<Rightarrow> event list" where
  "histAt items t key = (case findItem key (items t) of None \<Rightarrow> [] | Some ki \<Rightarrow> history ki)"

lemma h_get_Nil [simp]: "h_get [] t = None"
  by (simp add: h_get_def latest_def)

lemma tiGet_history:
  assumes "btree_ok B items" and "ti_inv items t"
  shows "tiGet B t key r = Some (asResult (h_get (histAt items t key) r))"
proof (cases "findItem key (items t)")
  case None
  then show ?thesis using assms(1) by (simp add: tiGet_def tiKeyIndex_def btree_ok_def newKeyIndex_def histAt_def asResult_def)
next
  case (Some ki)
  then have "ki_inv ki" "\<not> kiIsEmpty ki" using assms(2) findItem_mem by (auto simp: ti_inv_def)
  then show ?thesis using assms(1) Some kiGet_history
    by (simp add: tiGet_def tiKeyIndex_def btree_ok_def newKeyIndex_def histAt_def)
qed

lemma ti_inv_insert:
  assumes "btree_ok B items" and "ti_inv items t" and "ki_inv ki" and "\<not> kiIsEmpty ki"
  shows "ti_inv items (bt_ReplaceOrInsert B t ki)"
    and "histAt items (bt_ReplaceOrInsert B t ki) key = (if key = ki_key ki then history ki else histAt items t key)"
proof -
  have i: "items (bt_ReplaceOrInsert B t ki) = insertItem ki (items t)" using assms(1) by (simp add: btree_ok_def)
  show "ti_inv items (bt_ReplaceOrInsert B t ki)"
    using assms(2-) sorted_insertItem set_insertItem [of ki "items t"] unfolding ti_inv_def i by blast
  show "histAt items (bt_ReplaceOrInsert B t ki) key = (if key = ki_key ki then history ki else histAt items t key)"
    by (simp add: histAt_def i findItem_insert)
qed

text \<open>A revision that comes after everything in the index of a key, and a version that does not overflow.\<close>

definition fits :: "('t \<Rightarrow> keyIndex list) \<Rightarrow> 't \<Rightarrow> string \<Rightarrow> revision \<Rightarrow> bool" where
  "fits items t key r \<longleftrightarrow> zeroRevision < r \<and>
     (\<forall>ki. findItem key (items t) = Some ki \<longrightarrow> has_room ki \<and> ki_modified ki < r)"

lemma kiPut_key: "kiPut ki m s = Some ki' \<Longrightarrow> ki_key ki' = ki_key ki"
  by (auto simp: kiPut_def Let_def split: if_splits)

lemma history_nonempty: "history ki \<noteq> [] \<Longrightarrow> \<not> kiIsEmpty ki"
proof
  assume "history ki \<noteq> []" and "kiIsEmpty ki"
  moreover then obtain g where "ki_generations ki = [g]" "g_revs g = []"
    by (auto simp: kiIsEmpty_def gIsEmpty_def length_Suc_conv)
  ultimately show False by (simp add: history_def openHist_def)
qed

lemma tiPut_history:
  assumes B: "btree_ok B items" and inv: "ti_inv items t" and fits: "fits items t key r"
  shows "\<exists>t'. tiPut B t key r = Some t' \<and> ti_inv items t' \<and>
    histAt items t' k = (if k = key then h_put (histAt items t key) r else histAt items t k)"
proof (cases "findItem key (items t)")
  case None
  have "zeroRevision < Revision (rev_main r) (rev_sub r)" using fits by (simp add: fits_def)
  from kiPut_fresh [OF this, of key] obtain ki where ki: "kiPut (newKeyIndex key) (rev_main r) (rev_sub r) = Some ki" "ki_inv ki"
    "history ki = h_put [] r" "\<not> kiIsEmpty ki" by auto
  have "ki_key ki = key" using kiPut_key [OF ki(1)] by (simp add: newKeyIndex_def)
  then show ?thesis using ki ti_inv_insert [OF B inv ki(2,4)] None B
    by (simp add: tiPut_def btree_ok_def newKeyIndex_def histAt_def)
next
  case (Some ki)
  then have k: "ki_inv ki" "ki_key ki = key" "has_room ki" "ki_modified ki < Revision (rev_main r) (rev_sub r)"
    using inv fits findItem_mem [OF Some] by (simp_all add: ti_inv_def fits_def)
  from kiPut_history [OF k(1,3,4)] obtain ki' where ki': "kiPut ki (rev_main r) (rev_sub r) = Some ki'" "ki_inv ki'"
    "history ki' = h_put (history ki) r" by auto
  have "\<not> kiIsEmpty ki'" by (rule history_nonempty) (simp add: ki'(3) h_put_def)
  moreover have "ki_key ki' = key" using kiPut_key [OF ki'(1)] k(2) by simp
  ultimately show ?thesis using ki' ti_inv_insert [OF B inv ki'(2)] Some B
    by (simp add: tiPut_def btree_ok_def newKeyIndex_def histAt_def)
qed

lemma tiTombstone_history:
  assumes B: "btree_ok B items" and inv: "ti_inv items t" and fits: "fits items t key r"
  shows "if histAt items t key = [] \<or> snd (List.last (histAt items t key)) = None
    then \<exists>t'. tiTombstone B t key r = Some (Some ErrRevisionNotFound, t') \<and> ti_inv items t' \<and> histAt items t' = histAt items t
    else \<exists>t'. tiTombstone B t key r = Some (None, t') \<and> ti_inv items t' \<and>
      histAt items t' = (histAt items t)(key := histAt items t key @ [(r, None)])"
proof (cases "findItem key (items t)")
  case None
  then show ?thesis using B inv by (simp add: tiTombstone_def btree_ok_def newKeyIndex_def histAt_def)
next
  case (Some ki)
  then have k: "ki_inv ki" "\<not> kiIsEmpty ki" "has_room ki" "ki_modified ki < Revision (rev_main r) (rev_sub r)" "ki_key ki = key"
    using inv fits findItem_mem [OF Some] by (simp_all add: ti_inv_def fits_def)
  have h: "histAt items t key = history ki" using Some by (simp add: histAt_def)
  have get: "bt_Get B t (newKeyIndex key) = Some ki" using B Some by (simp add: btree_ok_def newKeyIndex_def)
  show ?thesis
  proof (cases "history ki = [] \<or> snd (List.last (history ki)) = None")
    case True
    then have "tiTombstone B t key r = Some (Some ErrRevisionNotFound, bt_ReplaceOrInsert B t ki)"
      using kiTombstone_history [OF k(1-4)] get by (simp add: tiTombstone_def)
    moreover have "histAt items (bt_ReplaceOrInsert B t ki) = histAt items t"
      using ti_inv_insert(2) [OF B inv k(1,2)] h k(5) by auto
    ultimately show ?thesis using True ti_inv_insert(1) [OF B inv k(1,2)] h by simp
  next
    case False
    then obtain ki' where ki': "kiTombstone ki (rev_main r) (rev_sub r) = Some (None, ki')" "ki_inv ki'"
      "history ki' = history ki @ [(r, None)]" using kiTombstone_history [OF k(1-4)] by auto
    have ne: "\<not> kiIsEmpty ki'" by (rule history_nonempty) (simp add: ki'(3))
    have "ki_key ki' = key"
      using ki'(1) k(5) kiPut_key by (force simp: kiTombstone_def bind_eq_Some_conv split: if_splits)
    then have "histAt items (bt_ReplaceOrInsert B t ki') = (histAt items t)(key := histAt items t key @ [(r, None)])"
      using ti_inv_insert(2) [OF B inv ki'(2) ne] h ki'(3) by auto
    moreover have "tiTombstone B t key r = Some (None, bt_ReplaceOrInsert B t ki')" using get ki'(1) by (simp add: tiTombstone_def)
    ultimately show ?thesis using False ti_inv_insert(1) [OF B inv ki'(2) ne] h by auto
  qed
qed

subsection \<open>Ranges\<close>

lemma takeWhile_sorted:
  assumes "sorted_wrt R xs" and "\<And>x y. R x y \<Longrightarrow> P y \<Longrightarrow> P x"
  shows "takeWhile P xs = filter P xs"
  using assms(1)
proof (induction xs)
  case (Cons x xs)
  show ?case
  proof (cases "P x")
    case False
    then have "filter P xs = []" using Cons.prems assms(2) by (auto simp: filter_empty_conv)
    then show ?thesis using False by simp
  qed (use Cons in simp)
qed simp

definition in_range :: "string \<Rightarrow> string \<Rightarrow> string \<Rightarrow> bool" where
  "in_range key en k \<longleftrightarrow> \<not> bytesLess k key \<and> (en = [] \<or> bytesLess k en)"

lemma visited_filter:
  assumes "btree_ok B items" and "ti_inv items t"
  shows "visited B t key en = filter (\<lambda>i. in_range key en (ki_key i)) (items t)"
proof -
  let ?P = "\<lambda>i. \<not> (length en > 0 \<and> \<not> kiLess i (newKeyIndex en))"
  have "sorted_wrt kiLess (filter (\<lambda>i. \<not> kiLess i (newKeyIndex key)) (items t))"
    using assms(2) sorted_filter_items by (simp add: ti_inv_def sorted_items_def)
  then have "takeWhile ?P (filter (\<lambda>i. \<not> kiLess i (newKeyIndex key)) (items t)) =
      filter ?P (filter (\<lambda>i. \<not> kiLess i (newKeyIndex key)) (items t))"
    by (rule takeWhile_sorted) (auto simp: kiLess_def newKeyIndex_def intro: bytesLess_trans)
  moreover have "visited B t key en = takeWhile ?P (filter (\<lambda>i. \<not> kiLess i (newKeyIndex key)) (items t))"
    using assms(1) by (simp add: visited_def btree_ok_def)
  ultimately show ?thesis by (simp add: kiLess_def newKeyIndex_def in_range_def conj_commute conj_disj_distribL)
qed

definition shown :: "int \<Rightarrow> keyIndex \<Rightarrow> revision option" where
  "shown r ki = map_option fst (h_get (history ki) r)"

lemma visitRange_all:
  assumes "\<forall>ki \<in> set kis. ki_inv ki \<and> \<not> kiIsEmpty ki"
  shows "foldM (visitRange r) (keys, revs) kis =
    Some (keys @ map ki_key (filter (\<lambda>ki. shown r ki \<noteq> None) kis), revs @ map (\<lambda>ki. the (shown r ki)) (filter (\<lambda>ki. shown r ki \<noteq> None) kis))"
  using assms
  by (induction kis arbitrary: keys revs)
    (auto simp: visitRange_def kiGet_history asResult_def shown_def split: option.splits)

text \<open>A range read: the keys of the range that exist at the revision, in order, each with its revision.\<close>

lemma tiRange_shows:
  assumes B: "btree_ok B items" and inv: "ti_inv items t"
  shows "\<exists>keys revs. tiRange B t key (Some en) r = Some (keys, revs) \<and> sorted_wrt bytesLess keys \<and> length revs = length keys \<and>
    (\<forall>k v. (k, v) \<in> set (zip keys revs) \<longleftrightarrow> in_range key en k \<and> map_option fst (h_get (histAt items t k) r) = Some v)"
proof -
  let ?kis = "filter (\<lambda>ki. shown r ki \<noteq> None) (filter (\<lambda>i. in_range key en (ki_key i)) (items t))"
  let ?keys = "map ki_key ?kis" and ?revs = "map (\<lambda>ki. the (shown r ki)) ?kis"
  have ok: "\<forall>ki \<in> set (filter (\<lambda>i. in_range key en (ki_key i)) (items t)). ki_inv ki \<and> \<not> kiIsEmpty ki"
    using inv by (simp add: ti_inv_def)
  have "tiRange B t key (Some en) r = Some (?keys, ?revs)"
    unfolding tiRange_def option.case visited_filter [OF B inv] visitRange_all [OF ok] by simp
  moreover have "sorted_wrt bytesLess ?keys"
    using inv sorted_filter_items by (simp add: ti_inv_def sorted_items_def sorted_wrt_map flip: kiLess_def)
  moreover have "(k, v) \<in> set (zip ?keys ?revs) \<longleftrightarrow> in_range key en k \<and> map_option fst (h_get (histAt items t k) r) = Some v" for k v
  proof -
    have z: "zip ?keys ?revs = map (\<lambda>ki. (ki_key ki, the (shown r ki))) ?kis" by (simp add: zip_map_map zip_same_conv_map)
    have srt: "sorted_items (items t)" using inv by (simp add: ti_inv_def)
    show ?thesis
    proof
      assume "(k, v) \<in> set (zip ?keys ?revs)"
      then obtain ki where "ki \<in> set (items t)" "ki_key ki = k" "in_range key en k" "shown r ki = Some v" unfolding z by auto
      then show "in_range key en k \<and> map_option fst (h_get (histAt items t k) r) = Some v"
        using sorted_find [OF srt] by (auto simp: histAt_def shown_def)
    next
      assume *: "in_range key en k \<and> map_option fst (h_get (histAt items t k) r) = Some v"
      then obtain ki where "findItem k (items t) = Some ki" by (cases "findItem k (items t)") (auto simp: histAt_def)
      then show "(k, v) \<in> set (zip ?keys ?revs)"
        unfolding z using * findItem_mem [of k "items t" ki] by (force simp: histAt_def shown_def)
    qed
  qed
  ultimately show ?thesis by (intro exI [of _ ?keys] exI [of _ ?revs]) simp
qed

subsection \<open>Compaction of the whole index\<close>

lemma kiIsEmpty_history: "kiIsEmpty ki \<Longrightarrow> history ki = []"
  using history_nonempty by blast

lemma compactItem_step:
  assumes B: "btree_ok B items" and inv: "ti_inv items t" and ki: "findItem (ki_key ki) (items t) = Some ki"
  shows "\<exists>t'. compactItem B r (t, av) ki = Some (t', seen (history ki) r av) \<and> kiKeep ki r av = Some (seen (history ki) r av) \<and>
    ti_inv items t' \<and> (\<forall>key. key \<noteq> ki_key ki \<longrightarrow> findItem key (items t') = findItem key (items t)) \<and>
    (\<forall>key r'. r \<le> r' \<longrightarrow> h_get (histAt items t' key) r' = h_get (histAt items t key) r')"
proof -
  have k: "ki_inv ki" "\<not> kiIsEmpty ki" using inv findItem_mem [OF ki] by (simp_all add: ti_inv_def)
  from kiCompact_history [OF k, of r av] obtain ki' where c: "kiCompact ki r av = Some (ki', seen (history ki) r av)"
    "kiKeep ki r av = Some (seen (history ki) r av)" "ki_inv ki'" "ki_key ki' = ki_key ki"
    and same: "\<And>r'. r \<le> r' \<Longrightarrow> h_get (history ki') r' = h_get (history ki) r'" by metis
  let ?t = "bt_ReplaceOrInsert B t ki'"
  have i: "items ?t = insertItem ki' (items t)" using B by (simp add: btree_ok_def)
  show ?thesis
  proof (cases "kiIsEmpty ki'")
    case False
    have "compactItem B r (t, av) ki = Some (?t, seen (history ki) r av)" using c(1) False by (simp add: compactItem_def)
    moreover have "findItem key (items ?t) = findItem key (items t)" if "key \<noteq> ki_key ki" for key
      using that c(4) by (simp add: i findItem_insert)
    moreover have "h_get (histAt items ?t key) r' = h_get (histAt items t key) r'" if "r \<le> r'" for key r'
      using ti_inv_insert(2) [OF B inv c(3) False] same [OF that] ki c(4) by (simp add: histAt_def)
    ultimately show ?thesis using c(2) ti_inv_insert(1) [OF B inv c(3) False] by blast
  next
    case True
    have "fst (bt_Delete B ?t ki') = Some ki'"
      "items (snd (bt_Delete B ?t ki')) = filter (\<lambda>j. ki_key j \<noteq> ki_key ki') (insertItem ki' (items t))"
      using B by (simp_all add: btree_ok_def findItem_insert)
    then obtain t1 where d: "bt_Delete B ?t ki' = (Some ki', t1)"
      and i1: "items t1 = filter (\<lambda>j. ki_key j \<noteq> ki_key ki') (insertItem ki' (items t))" by (metis prod.collapse)
    have f: "findItem key (items t1) = (if key = ki_key ki then None else findItem key (items t))" for key
      using c(4) by (simp add: i1 findItem_filter findItem_insert)
    have "compactItem B r (t, av) ki = Some (t1, seen (history ki) r av)" using c(1) True d by (simp add: compactItem_def)
    moreover have "ti_inv items t1"
      using inv sorted_filter_items sorted_insertItem set_insertItem [of ki' "items t"] by (auto simp: ti_inv_def i1)
    moreover have "h_get (histAt items t1 key) r' = h_get (histAt items t key) r'" if "r \<le> r'" for key r'
      using same [OF that] kiIsEmpty_history [OF True] ki by (auto simp: histAt_def f)
    ultimately show ?thesis using c(2) f by metis
  qed
qed

lemma compact_items:
  assumes B: "btree_ok B items" and inv: "ti_inv items t" and "sorted_items kis"
    and "\<forall>ki \<in> set kis. findItem (ki_key ki) (items t) = Some ki"
  shows "\<exists>t'. foldM (compactItem B r) (t, av) kis = Some (t', fold (\<lambda>ki. seen (history ki) r) kis av) \<and>
    foldM (\<lambda>av ki. kiKeep ki r av) av kis = Some (fold (\<lambda>ki. seen (history ki) r) kis av) \<and> ti_inv items t' \<and>
    (\<forall>key r'. r \<le> r' \<longrightarrow> h_get (histAt items t' key) r' = h_get (histAt items t key) r')"
  using assms(2-)
proof (induction kis arbitrary: t av)
  case (Cons ki kis)
  obtain t1 where t1: "compactItem B r (t, av) ki = Some (t1, seen (history ki) r av)" "kiKeep ki r av = Some (seen (history ki) r av)"
    "ti_inv items t1" "\<forall>key. key \<noteq> ki_key ki \<longrightarrow> findItem key (items t1) = findItem key (items t)"
    "\<forall>key r'. r \<le> r' \<longrightarrow> h_get (histAt items t1 key) r' = h_get (histAt items t key) r'"
    using compactItem_step [OF B Cons.prems(1)] Cons.prems(3) by (meson list.set_intros(1))
  have "ki_key j \<noteq> ki_key ki" if "j \<in> set kis" for j
    using Cons.prems(2) that by (auto simp: sorted_items_def kiLess_def)
  then have "\<forall>j \<in> set kis. findItem (ki_key j) (items t1) = Some j" using Cons.prems(3) t1(4) by simp
  moreover have "sorted_items kis" using Cons.prems(2) by (simp add: sorted_items_def)
  ultimately obtain t' where "foldM (compactItem B r) (t1, seen (history ki) r av) kis =
      Some (t', fold (\<lambda>ki. seen (history ki) r) kis (seen (history ki) r av))"
    "foldM (\<lambda>av ki. kiKeep ki r av) (seen (history ki) r av) kis = Some (fold (\<lambda>ki. seen (history ki) r) kis (seen (history ki) r av))"
    "ti_inv items t'" "\<forall>key r'. r \<le> r' \<longrightarrow> h_get (histAt items t' key) r' = h_get (histAt items t1 key) r'"
    using Cons.IH [OF t1(3)] by blast
  then show ?case using t1 by simp
qed simp

lemma fold_seen: "fset (fold (\<lambda>ki. seen (history ki) r) kis av) =
    fset av \<union> {v. \<exists>ki \<in> set kis. map_option fst (h_get (history ki) r) = Some v}"
  by (induction kis arbitrary: av) (auto simp: seen_def split: option.splits)

theorem tiCompact_keeps:
  assumes B: "btree_ok B items" and inv: "ti_inv items t"
  shows "\<exists>t' av. tiCompact B t r = Some (t', av) \<and> tiKeep B t r = Some av \<and> ti_inv items t' \<and>
    (\<forall>key r'. r \<le> r' \<longrightarrow> h_get (histAt items t' key) r' = h_get (histAt items t key) r') \<and>
    fset av = {v. \<exists>key. map_option fst (h_get (histAt items t key) r) = Some v}"
proof -
  have srt: "sorted_items (items t)" using inv by (simp add: ti_inv_def)
  have asc: "bt_Ascend B t = items t" using B by (simp add: btree_ok_def)
  have "\<forall>ki \<in> set (items t). findItem (ki_key ki) (items t) = Some ki" using sorted_find [OF srt] by blast
  from compact_items [OF B inv srt this, of r "{||}"] obtain t' where t': "tiCompact B t r = Some (t', fold (\<lambda>ki. seen (history ki) r) (items t) {||})"
    "tiKeep B t r = Some (fold (\<lambda>ki. seen (history ki) r) (items t) {||})" "ti_inv items t'"
    "\<forall>key r'. r \<le> r' \<longrightarrow> h_get (histAt items t' key) r' = h_get (histAt items t key) r'"
    unfolding tiCompact_def tiKeep_def asc by blast
  have "(\<exists>ki \<in> set (items t). map_option fst (h_get (history ki) r) = Some v) \<longleftrightarrow>
      (\<exists>key. map_option fst (h_get (histAt items t key) r) = Some v)" for v
    using sorted_find [OF srt] findItem_mem by (fastforce simp: histAt_def split: option.splits)
  then have "fset (fold (\<lambda>ki. seen (history ki) r) (items t) {||}) = {v. \<exists>key. map_option fst (h_get (histAt items t key) r) = Some v}"
    using fold_seen [of r "items t" "{||}"] by simp
  then show ?thesis using t' by blast
qed

end
