(* ===== verification/SampleStreams.thy ===== *)
theory SampleStreams
  imports MsgCodec TreeIndex
begin

text \<open>
  Concrete messages and a codec that carries them, and a small index of keys.
\<close>

definition firstEntry :: entry where
  "firstEntry = \<lparr>e_Type = EntryNormal, e_Term = 1, e_Index = 1, e_Data = Some ''x''\<rparr>"

definition secondEntry :: entry where
  "secondEntry = \<lparr>e_Type = EntryNormal, e_Term = 1, e_Index = 2, e_Data = Some ''y''\<rparr>"

definition firstApp :: message where
  "firstApp = emptyMessage\<lparr>m_Type := MsgApp, m_From := 1, m_To := 2, m_Term := 1, m_Entries := [firstEntry]\<rparr>"

definition secondApp :: message where
  "secondApp = emptyMessage\<lparr>m_Type := MsgApp, m_From := 1, m_To := 2, m_Term := 1, m_LogTerm := 1, m_Index := 1,
     m_Entries := [secondEntry], m_Commit := 1\<rparr>"

text \<open>A codec for these two messages.\<close>

definition pairCodec :: protoCodec where
  "pairCodec = \<lparr>
     pc_marshalEntry = (\<lambda>e. (if e = firstEntry then CHR ''1'' else CHR ''2'') # replicate (EntrySize e - 1) CHR ''.''),
     pc_unmarshalEntry = (\<lambda>s. Some (if hd s = CHR ''1'' then firstEntry else secondEntry)),
     pc_marshalMessage = (\<lambda>m. if m = firstApp then ''1'' else ''2''),
     pc_unmarshalMessage = (\<lambda>s. Some (if s = ''1'' then firstApp else secondApp)),
     pc_sizeMessage = (\<lambda>_. 1)\<rparr>"

lemma entry_sizes: "EntrySize firstEntry = 9" "EntrySize secondEntry = 9"
  by code_simp+

lemma pairCodec_carries: "carries pairCodec firstApp" "carries pairCodec secondApp"
proof -
  have "firstEntry \<noteq> secondEntry" by (simp add: firstEntry_def secondEntry_def)
  then have "carries_entry pairCodec firstEntry" "carries_entry pairCodec secondEntry"
    by (auto simp: carries_entry_def pairCodec_def entry_sizes maxAlloc_def)
  moreover have "firstApp \<noteq> secondApp" by (simp add: firstApp_def secondApp_def emptyMessage_def)
  moreover have "m_Entries firstApp = [firstEntry]" "m_Entries secondApp = [secondEntry]"
    by (simp_all add: firstApp_def secondApp_def)
  ultimately show "carries pairCodec firstApp" "carries pairCodec secondApp"
    by (auto simp: carries_def pairCodec_def maxAlloc_def)
qed

lemma apps_streamable:
  "streamable (newMsgAppV2Decoder 2 1) firstApp" "streamable (newMsgAppV2Decoder 2 1) secondApp"
  by (simp_all add: streamable_def entryStructBytes_def maxAlloc_def firstApp_def secondApp_def emptyMessage_def newMsgAppV2Decoder_def)

text \<open>An index in which one key was put twice, deleted and put again, and another was put once.\<close>

definition sampleTree :: "keyIndex list" where
  "sampleTree =
     [\<lparr>ki_key = ''a'', ki_modified = Revision 6 0, ki_generations =
         [\<lparr>g_ver = 3, g_created = Revision 2 0, g_revs = [Revision 2 0, Revision 4 0, Revision 5 0]\<rparr>,
          \<lparr>g_ver = 1, g_created = Revision 6 0, g_revs = [Revision 6 0]\<rparr>]\<rparr>,
      \<lparr>ki_key = ''b'', ki_modified = Revision 3 0, ki_generations =
         [\<lparr>g_ver = 1, g_created = Revision 3 0, g_revs = [Revision 3 0]\<rparr>]\<rparr>]"

lemma sampleTree_inv: "ti_inv (\<lambda>t. t) sampleTree"
  by (simp add: sampleTree_def ti_inv_def sorted_items_def kiLess_def ki_inv_def gen_ok_def allRevs_def kiIsEmpty_def
      gIsEmpty_def Revision_less Revision_le)

end
