(* ===== verification/LeaseQueue.thy ===== *)
theory LeaseQueue
  imports GoPrelude
begin

text \<open>
  \<open>glee-etcd/lease/lease_queue.go\<close>: the heap of leases by time, over \<open>container/heap\<close>, and the notifier of
  expired leases. The field \<open>index\<close> of an item is its position in the queue, and the map of the notifier
  points to the items of its queue, one for a lease; it is the set of their identities.
\<close>

record leaseWithTime =
  lt_id :: int
  lt_time :: int

type_synonym leaseQueue = "leaseWithTime list"

definition queueLess :: "leaseQueue \<Rightarrow> nat \<Rightarrow> nat \<Rightarrow> bool" where
  "queueLess pq i j \<longleftrightarrow> lt_time (pq ! i) < lt_time (pq ! j)"

definition queueSwap :: "leaseQueue \<Rightarrow> nat \<Rightarrow> nat \<Rightarrow> leaseQueue" where
  "queueSwap pq i j = pq[i := pq ! j, j := pq ! i]"

definition queuePush :: "leaseQueue \<Rightarrow> leaseWithTime \<Rightarrow> leaseQueue" where
  "queuePush pq x = pq @ [x]"

text \<open>The last item and the others; the queue is not empty.\<close>

definition queuePop :: "leaseQueue \<Rightarrow> leaseWithTime \<times> leaseQueue" where
  "queuePop pq = (List.last pq, butlast pq)"

subsection \<open>The heap of the standard library\<close>

function heapUp :: "leaseQueue \<Rightarrow> nat \<Rightarrow> leaseQueue" where
  "heapUp h j =
     (let i = (j - 1) div 2 in
      if i = j \<or> \<not> queueLess h j i then h else heapUp (queueSwap h i j) i)"
  by pat_completeness auto
termination
  by (relation "measure snd") auto

text \<open>\<open>down(h, i0, n)\<close> returns whether it moved the item.\<close>

function heapDown :: "leaseQueue \<Rightarrow> nat \<Rightarrow> nat \<Rightarrow> leaseQueue \<times> nat" where
  "heapDown h i n =
     (let j1 = 2 * i + 1 in
      if j1 \<ge> n then (h, i)
      else let j = (if j1 + 1 < n \<and> queueLess h (j1 + 1) j1 then j1 + 1 else j1) in
        if \<not> queueLess h j i then (h, i) else heapDown (queueSwap h i j) j n)"
  by pat_completeness auto
termination
  by (relation "measure (\<lambda>(h, i, n). n - i)") (auto simp: Let_def split: if_splits)

declare heapUp.simps [simp del] heapDown.simps [simp del]

definition heapPush :: "leaseQueue \<Rightarrow> leaseWithTime \<Rightarrow> leaseQueue" where
  "heapPush h x = (let h1 = queuePush h x in heapUp h1 (length h1 - 1))"

definition heapPop :: "leaseQueue \<Rightarrow> (leaseWithTime \<times> leaseQueue) option" where
  "heapPop h =
     (if h = [] then None
      else let n = length h - 1; h1 = queueSwap h 0 n in Some (queuePop (fst (heapDown h1 0 n))))"

definition heapFix :: "leaseQueue \<Rightarrow> nat \<Rightarrow> leaseQueue" where
  "heapFix h i = (case heapDown h i (length h) of (h1, i1) \<Rightarrow> if i1 > i then h1 else heapUp h1 i)"

definition heapInit :: "leaseQueue \<Rightarrow> leaseQueue" where
  "heapInit h = foldl (\<lambda>h i. fst (heapDown h i (length h))) h (List.rev [0..<length h div 2])"

subsection \<open>The notifier\<close>

record leaseExpiredNotifier =
  ln_m :: "int fset"
  ln_queue :: leaseQueue

definition newLeaseExpiredNotifier :: leaseExpiredNotifier where
  "newLeaseExpiredNotifier = \<lparr>ln_m = {||}, ln_queue = []\<rparr>"

definition InitNotifier :: "leaseExpiredNotifier \<Rightarrow> leaseExpiredNotifier" where
  "InitNotifier mq =
     (let q = heapInit (ln_queue mq) in \<lparr>ln_m = fset_of_list (map lt_id q), ln_queue = q\<rparr>)"

text \<open>The position of the item of a lease.\<close>

fun indexOf :: "leaseQueue \<Rightarrow> int \<Rightarrow> nat" where
  "indexOf [] x = 0"
| "indexOf (i # q) x = (if lt_id i = x then 0 else Suc (indexOf q x))"

definition RegisterOrUpdate :: "leaseExpiredNotifier \<Rightarrow> leaseWithTime \<Rightarrow> leaseExpiredNotifier" where
  "RegisterOrUpdate mq item =
     (let q = ln_queue mq in
      if lt_id item |\<in>| ln_m mq then
        let i = indexOf q (lt_id item) in mq\<lparr>ln_queue := heapFix (q[i := (q ! i)\<lparr>lt_time := lt_time item\<rparr>]) i\<rparr>
      else mq\<lparr>ln_queue := heapPush q item, ln_m := finsert (lt_id item) (ln_m mq)\<rparr>)"

definition Unregister :: "leaseExpiredNotifier \<Rightarrow> (leaseWithTime \<times> leaseExpiredNotifier) option" where
  "Unregister mq =
     do { (item, q) \<leftarrow> heapPop (ln_queue mq);
          Some (item, mq\<lparr>ln_queue := q, ln_m := ln_m mq |-| {|lt_id item|}\<rparr>) }"

definition NotifierLen :: "leaseExpiredNotifier \<Rightarrow> nat" where
  "NotifierLen mq = fcard (ln_m mq)"

definition Poll :: "leaseExpiredNotifier \<Rightarrow> leaseWithTime option" where
  "Poll mq = (if NotifierLen mq = 0 then None else Some (ln_queue mq ! 0))"

end
