(* ===== verification/Backend.thy ===== *)
theory Backend
  imports BigEndian "HOL-Library.AList"
begin

text \<open>
  \<open>glee-etcd/mvcc/backend\<close>: the batching transaction over a bolt database (\<open>batch_tx.go\<close>), the buffers
  through which its writes become readable before they are committed (\<open>tx_buffer.go\<close>), and the
  readers (\<open>read_tx.go\<close>, \<open>ConcurrentReadTx\<close> of \<open>backend.go\<close>). The package \<open>bbolt\<close> is the parameter \<open>boltOps\<close>; a
  transaction is its content. \<open>None\<close> is a panic or a fatal error. Each function is a step; the locks make
  it one.
\<close>

type_synonym pairs = "(string \<times> string) list"

text \<open>A cursor is the list of the pairs from its position on. A failing call is \<open>None\<close>.\<close>

record 'd boltOps =
  bolt_hasBucket :: "'d \<Rightarrow> string \<Rightarrow> bool"
  bolt_CreateBucket :: "'d \<Rightarrow> string \<Rightarrow> 'd option"
  bolt_Put :: "'d \<Rightarrow> string \<Rightarrow> string \<Rightarrow> string \<Rightarrow> 'd option"
  bolt_Delete :: "'d \<Rightarrow> string \<Rightarrow> string \<Rightarrow> 'd option"
  bolt_Seek :: "'d \<Rightarrow> string \<Rightarrow> string \<Rightarrow> pairs"
  bolt_ForEach :: "'d \<Rightarrow> string \<Rightarrow> pairs"
  bolt_Commit :: "'d \<Rightarrow> 'd option"
  sort_Sort :: "pairs \<Rightarrow> pairs"

text \<open>\<open>endKey\<close> of a range may be \<open>nil\<close>.\<close>

type_synonym endKey = "string option"

definition endBytes :: "endKey \<Rightarrow> string" where
  "endBytes en = (case en of None \<Rightarrow> [] | Some s \<Rightarrow> s)"

definition MaxInt64 :: int where
  "MaxInt64 = 2 ^ 63 - 1"

subsection \<open>Buffers\<close>

text \<open>Cells beyond \<open>used\<close> hold what was there before.\<close>

record bucketBuffer =
  bb_buf :: pairs
  bb_used :: nat

definition bucketBufferInitialSize :: nat where
  "bucketBufferInitialSize = 512"

definition newBucketBuffer :: bucketBuffer where
  "newBucketBuffer = \<lparr>bb_buf = replicate bucketBufferInitialSize ([], []), bb_used = 0\<rparr>"

text \<open>\<open>sort.Search\<close>\<close>

function searchBetween :: "nat \<Rightarrow> nat \<Rightarrow> (nat \<Rightarrow> bool) \<Rightarrow> nat" where
  "searchBetween i j f =
     (if i < j then let h = (i + j) div 2 in if \<not> f h then searchBetween (h + 1) j f else searchBetween i h f
      else i)"
  by pat_completeness auto
termination
  by (relation "measure (\<lambda>(i, j, f). j - i)") (auto simp: Let_def)

declare searchBetween.simps [simp del]

definition bbRange :: "bucketBuffer \<Rightarrow> string \<Rightarrow> endKey \<Rightarrow> int \<Rightarrow> pairs option" where
  "bbRange bb key en limit =
     (let idx = searchBetween 0 (bb_used bb) (\<lambda>i. \<not> bytesLess (fst (bb_buf bb ! i)) key) in
      if \<not> idx < length (bb_buf bb) then None
      else if length (endBytes en) = 0 then Some (if key = fst (bb_buf bb ! idx) then [bb_buf bb ! idx] else [])
      else if \<not> bytesLess (fst (bb_buf bb ! idx)) (endBytes en) then Some []
      else Some (take (nat limit) (takeWhile (\<lambda>p. bytesLess (fst p) (endBytes en)) (drop idx (take (bb_used bb) (bb_buf bb))))))"

definition bbForEach :: "bucketBuffer \<Rightarrow> pairs" where
  "bbForEach bb = take (bb_used bb) (bb_buf bb)"

definition bbAdd :: "bucketBuffer \<Rightarrow> string \<times> string \<Rightarrow> bucketBuffer option" where
  "bbAdd bb p =
     (if \<not> bb_used bb < length (bb_buf bb) then None
      else let buf = (bb_buf bb)[bb_used bb := p]; used = bb_used bb + 1 in
        Some \<lparr>bb_buf = (if used = length buf then buf @ replicate (3 * length buf div 2 - length buf) ([], []) else buf),
          bb_used = used\<rparr>)"

text \<open>\<open>sort.Stable\<close> of the cells in use.\<close>

fun insertPair :: "string \<times> string \<Rightarrow> pairs \<Rightarrow> pairs" where
  "insertPair p [] = [p]"
| "insertPair p (q # qs) = (if bytesLess (fst q) (fst p) then q # insertPair p qs else p # q # qs)"

definition stableSort :: "pairs \<Rightarrow> pairs" where
  "stableSort ps = foldr insertPair ps []"

definition sortUsed :: "(pairs \<Rightarrow> pairs) \<Rightarrow> bucketBuffer \<Rightarrow> bucketBuffer" where
  "sortUsed srt bb = bb\<lparr>bb_buf := srt (take (bb_used bb) (bb_buf bb)) @ drop (bb_used bb) (bb_buf bb)\<rparr>"

text \<open>The loop that removes duplicates, at the read index \<open>ridx\<close>.\<close>

definition dedupStep :: "pairs \<times> nat \<Rightarrow> nat \<Rightarrow> pairs \<times> nat" where
  "dedupStep acc ridx =
     (case acc of (buf, widx) \<Rightarrow>
        let widx1 = (if fst (buf ! ridx) \<noteq> fst (buf ! widx) then widx + 1 else widx) in (buf[widx1 := buf ! ridx], widx1))"

definition bbDedup :: "bucketBuffer \<Rightarrow> bucketBuffer" where
  "bbDedup bb =
     (case foldl dedupStep (bb_buf bb, 0) [1..<bb_used bb] of (buf, widx) \<Rightarrow> \<lparr>bb_buf = buf, bb_used = widx + 1\<rparr>)"

definition bbMerge :: "bucketBuffer \<Rightarrow> bucketBuffer \<Rightarrow> bucketBuffer option" where
  "bbMerge bb src =
     do { bb1 \<leftarrow> foldM bbAdd bb (take (bb_used src) (bb_buf src));
          if bb_used bb1 = bb_used src then Some bb1
          else if bytesLess (fst (bb_buf bb1 ! (bb_used bb1 - bb_used src - 1))) (fst (bb_buf src ! 0)) then Some bb1
          else Some (bbDedup (sortUsed stableSort bb1)) }"

type_synonym buckets = "(string \<times> bucketBuffer) list"

record txWriteBuffer =
  tw_buckets :: buckets
  tw_seq :: bool

record txReadBuffer =
  tr_buckets :: buckets
  tr_bufVersion :: nat

definition bufReset :: "buckets \<Rightarrow> buckets" where
  "bufReset bs = map (\<lambda>(k, v). (k, v\<lparr>bb_used := 0\<rparr>)) (filter (\<lambda>(k, v). bb_used v \<noteq> 0) bs)"

definition putSeq :: "txWriteBuffer \<Rightarrow> string \<Rightarrow> string \<Rightarrow> string \<Rightarrow> txWriteBuffer option" where
  "putSeq w bucket k v =
     (let b = (case map_of (tw_buckets w) bucket of None \<Rightarrow> newBucketBuffer | Some b \<Rightarrow> b) in
      do { b1 \<leftarrow> bbAdd b (k, v); Some (w\<lparr>tw_buckets := AList.update bucket b1 (tw_buckets w)\<rparr>) })"

definition bufPut :: "txWriteBuffer \<Rightarrow> string \<Rightarrow> string \<Rightarrow> string \<Rightarrow> txWriteBuffer option" where
  "bufPut w bucket k v = putSeq (w\<lparr>tw_seq := False\<rparr>) bucket k v"

text \<open>One bucket of \<open>writeback\<close>; the buckets are independent of one another.\<close>

definition writebackBucket :: "(pairs \<Rightarrow> pairs) \<Rightarrow> bool \<Rightarrow> buckets \<times> buckets \<Rightarrow> string \<times> bucketBuffer \<Rightarrow> (buckets \<times> buckets) option" where
  "writebackBucket srt seq acc kwb =
     (case (acc, kwb) of ((w, r), (k, wb)) \<Rightarrow>
        (case map_of r k of
           None \<Rightarrow> Some (AList.delete k w, AList.update k wb r)
         | Some rb \<Rightarrow>
             (let wb1 = (if \<not> seq \<and> bb_used wb > 1 then sortUsed srt wb else wb) in
              do { rb1 \<leftarrow> bbMerge rb wb1; Some (AList.update k wb1 w, AList.update k rb1 r) })))"

definition writeback :: "(pairs \<Rightarrow> pairs) \<Rightarrow> txWriteBuffer \<Rightarrow> txReadBuffer \<Rightarrow> (txWriteBuffer \<times> txReadBuffer) option" where
  "writeback srt w r =
     do { (wb, rb) \<leftarrow> foldM (writebackBucket srt (tw_seq w)) (tw_buckets w, tr_buckets r) (tw_buckets w);
          Some (w\<lparr>tw_buckets := bufReset wb\<rparr>, \<lparr>tr_buckets = rb, tr_bufVersion = add64 (tr_bufVersion r) 1\<rparr>) }"

definition trRange :: "txReadBuffer \<Rightarrow> string \<Rightarrow> string \<Rightarrow> endKey \<Rightarrow> int \<Rightarrow> pairs option" where
  "trRange r bucketName key en limit =
     (case map_of (tr_buckets r) bucketName of None \<Rightarrow> Some [] | Some b \<Rightarrow> bbRange b key en limit)"

definition trForEach :: "txReadBuffer \<Rightarrow> string \<Rightarrow> pairs" where
  "trForEach r bucketName = (case map_of (tr_buckets r) bucketName of None \<Rightarrow> [] | Some b \<Rightarrow> bbForEach b)"

definition unsafeCopy :: "txReadBuffer \<Rightarrow> txReadBuffer" where
  "unsafeCopy r = r\<lparr>tr_bufVersion := 0\<rparr>"

subsection \<open>The backend\<close>

text \<open>\<open>be_db\<close> is what is on disk. The cache of bucket pointers of a reader, which are those of its
  transaction, is left out, and so are the wait groups.\<close>

record 'd backend =
  be_db :: 'd
  be_tx :: "'d option"
  be_closed :: bool
  be_pending :: nat
  be_buf :: txWriteBuffer
  be_readBuf :: txReadBuffer
  be_readTx :: "'d option"
  be_cacheBuf :: "txReadBuffer option"
  be_cacheVersion :: nat
  be_batchLimit :: nat
  be_commits :: nat

text \<open>The transaction to write to; after \<open>CommitAndStop\<close> it is closed.\<close>

definition liveTx :: "'d backend \<Rightarrow> 'd option" where
  "liveTx be = (if be_closed be then None else be_tx be)"

definition UnsafeCreateBucket :: "'d boltOps \<Rightarrow> 'd backend \<Rightarrow> string \<Rightarrow> 'd backend option" where
  "UnsafeCreateBucket B be name =
     do { d \<leftarrow> liveTx be; d1 \<leftarrow> bolt_CreateBucket B d name; Some (be\<lparr>be_tx := Some d1, be_pending := be_pending be + 1\<rparr>) }"

definition unsafePut :: "'d boltOps \<Rightarrow> 'd backend \<Rightarrow> string \<Rightarrow> string \<Rightarrow> string \<Rightarrow> 'd backend option" where
  "unsafePut B be bucketName key v =
     do { d \<leftarrow> liveTx be;
          if \<not> bolt_hasBucket B d bucketName then None
          else do { d1 \<leftarrow> bolt_Put B d bucketName key v; Some (be\<lparr>be_tx := Some d1, be_pending := be_pending be + 1\<rparr>) } }"

definition UnsafePut :: "'d boltOps \<Rightarrow> 'd backend \<Rightarrow> string \<Rightarrow> string \<Rightarrow> string \<Rightarrow> 'd backend option" where
  "UnsafePut B be bucketName key v =
     do { be1 \<leftarrow> unsafePut B be bucketName key v;
          w \<leftarrow> bufPut (be_buf be1) bucketName key v; Some (be1\<lparr>be_buf := w\<rparr>) }"

definition UnsafeSeqPut :: "'d boltOps \<Rightarrow> 'd backend \<Rightarrow> string \<Rightarrow> string \<Rightarrow> string \<Rightarrow> 'd backend option" where
  "UnsafeSeqPut B be bucketName key v =
     do { be1 \<leftarrow> unsafePut B be bucketName key v;
          w \<leftarrow> putSeq (be_buf be1) bucketName key v; Some (be1\<lparr>be_buf := w\<rparr>) }"

definition unsafeRange :: "'d boltOps \<Rightarrow> 'd \<Rightarrow> string \<Rightarrow> string \<Rightarrow> endKey \<Rightarrow> int \<Rightarrow> pairs" where
  "unsafeRange B d bucketName key en limit =
     (let limit1 = (if limit \<le> 0 then MaxInt64 else limit);
          isMatch = (if length (endBytes en) > 0 then (\<lambda>b. bytesLess b (endBytes en)) else (\<lambda>b. b = key));
          limit2 = (if length (endBytes en) > 0 then limit1 else 1)
      in take (nat limit2) (takeWhile (\<lambda>p. isMatch (fst p)) (bolt_Seek B d bucketName key)))"

definition UnsafeRange :: "'d boltOps \<Rightarrow> 'd backend \<Rightarrow> string \<Rightarrow> string \<Rightarrow> endKey \<Rightarrow> int \<Rightarrow> pairs option" where
  "UnsafeRange B be bucketName key en limit =
     do { d \<leftarrow> liveTx be;
          if \<not> bolt_hasBucket B d bucketName then None else Some (unsafeRange B d bucketName key en limit) }"

definition UnsafeDelete :: "'d boltOps \<Rightarrow> 'd backend \<Rightarrow> string \<Rightarrow> string \<Rightarrow> 'd backend option" where
  "UnsafeDelete B be bucketName key =
     do { d \<leftarrow> liveTx be;
          if \<not> bolt_hasBucket B d bucketName then None
          else do { d1 \<leftarrow> bolt_Delete B d bucketName key; Some (be\<lparr>be_tx := Some d1, be_pending := be_pending be + 1\<rparr>) } }"

text \<open>The pairs that \<open>unsafeForEach\<close> visits, if no visitor stops it.\<close>

definition unsafeForEach :: "'d boltOps \<Rightarrow> 'd \<Rightarrow> string \<Rightarrow> pairs" where
  "unsafeForEach B d bucketName = (if bolt_hasBucket B d bucketName then bolt_ForEach B d bucketName else [])"

definition UnsafeForEach :: "'d boltOps \<Rightarrow> 'd backend \<Rightarrow> string \<Rightarrow> pairs option" where
  "UnsafeForEach B be bucketName = do { d \<leftarrow> liveTx be; Some (unsafeForEach B d bucketName) }"

text \<open>\<open>begin\<close>: a transaction shows what was committed last.\<close>

definition beginTx :: "'d backend \<Rightarrow> 'd" where
  "beginTx be = be_db be"

definition batchCommit :: "'d boltOps \<Rightarrow> bool \<Rightarrow> 'd backend \<Rightarrow> 'd backend option" where
  "batchCommit B stop be =
     (case be_tx be of
        None \<Rightarrow> Some (if stop then be else be\<lparr>be_tx := Some (beginTx be)\<rparr>)
      | Some d \<Rightarrow>
          if be_pending be = 0 \<and> \<not> stop then Some be
          else if be_closed be then None
          else do { d1 \<leftarrow> bolt_Commit B d;
                    let be1 = be\<lparr>be_db := d1, be_commits := be_commits be + 1, be_pending := 0\<rparr> in
                    Some (if stop then be1\<lparr>be_closed := True\<rparr> else be1\<lparr>be_tx := Some (beginTx be1)\<rparr>) })"

definition readReset :: "'d backend \<Rightarrow> 'd backend" where
  "readReset be =
     be\<lparr>be_readBuf := (be_readBuf be)\<lparr>tr_buckets := bufReset (tr_buckets (be_readBuf be))\<rparr>, be_readTx := None\<rparr>"

definition unsafeCommit :: "'d boltOps \<Rightarrow> bool \<Rightarrow> 'd backend \<Rightarrow> 'd backend option" where
  "unsafeCommit B stop be =
     do { be1 \<leftarrow> batchCommit B stop (if be_readTx be \<noteq> None then readReset be else be);
          Some (if stop then be1 else be1\<lparr>be_readTx := Some (beginTx be1)\<rparr>) }"

text \<open>\<open>Unlock\<close> of the buffered transaction, and the \<open>Unlock\<close> of the one below it, which commits through its
  own \<open>commit\<close> if something is still pending then.\<close>

definition batchUnlock :: "'d boltOps \<Rightarrow> 'd backend \<Rightarrow> 'd backend option" where
  "batchUnlock B be = (if be_pending be \<ge> be_batchLimit be then batchCommit B False be else Some be)"

definition Unlock :: "'d boltOps \<Rightarrow> 'd backend \<Rightarrow> 'd backend option" where
  "Unlock B be =
     do { be1 \<leftarrow> (if be_pending be \<noteq> 0 then
                  do { (w, r) \<leftarrow> writeback (sort_Sort B) (be_buf be) (be_readBuf be);
                       let be1 = be\<lparr>be_buf := w, be_readBuf := r\<rparr> in
                       if be_pending be1 \<ge> be_batchLimit be1 then unsafeCommit B False be1 else Some be1 }
                else Some be);
          batchUnlock B be1 }"

definition CommitTx :: "'d boltOps \<Rightarrow> 'd backend \<Rightarrow> 'd backend option" where
  "CommitTx B be = do { be1 \<leftarrow> unsafeCommit B False be; Unlock B be1 }"

definition CommitAndStop :: "'d boltOps \<Rightarrow> 'd backend \<Rightarrow> 'd backend option" where
  "CommitAndStop B be = do { be1 \<leftarrow> unsafeCommit B True be; Unlock B be1 }"

definition ForceCommit :: "'d boltOps \<Rightarrow> 'd backend \<Rightarrow> 'd backend option" where
  "ForceCommit B be = CommitTx B be"

text \<open>A backend over what a database file holds.\<close>

definition newBackend :: "'d boltOps \<Rightarrow> nat \<Rightarrow> 'd \<Rightarrow> 'd backend option" where
  "newBackend B batchLimit db =
     CommitTx B \<lparr>be_db = db, be_tx = None, be_closed = False, be_pending = 0, be_buf = \<lparr>tw_buckets = [], tw_seq = True\<rparr>,
       be_readBuf = \<lparr>tr_buckets = [], tr_bufVersion = 0\<rparr>, be_readTx = None, be_cacheBuf = None, be_cacheVersion = 0,
       be_batchLimit = batchLimit, be_commits = 0\<rparr>"

subsection \<open>Readers\<close>

record 'd readTx =
  rt_buf :: txReadBuffer
  rt_tx :: "'d option"

definition ReadTx :: "'d backend \<Rightarrow> 'd readTx" where
  "ReadTx be = \<lparr>rt_buf = be_readBuf be, rt_tx = be_readTx be\<rparr>"

definition ConcurrentReadTx :: "'d backend \<Rightarrow> 'd readTx \<times> 'd backend" where
  "ConcurrentReadTx be =
     (let ver = tr_bufVersion (be_readBuf be);
          buf = (case be_cacheBuf be of
                   None \<Rightarrow> unsafeCopy (be_readBuf be)
                 | Some c \<Rightarrow> if be_cacheVersion be \<noteq> ver then unsafeCopy (be_readBuf be) else c)
      in (\<lparr>rt_buf = buf, rt_tx = be_readTx be\<rparr>, be\<lparr>be_cacheBuf := Some buf, be_cacheVersion := ver\<rparr>))"

text \<open>\<open>UnsafeRange\<close> and \<open>UnsafeForEach\<close> of both kinds of reader.\<close>

definition safeRangeBucket :: string where
  "safeRangeBucket = ''key''"

definition readRange :: "'d boltOps \<Rightarrow> 'd readTx \<Rightarrow> string \<Rightarrow> string \<Rightarrow> endKey \<Rightarrow> int \<Rightarrow> pairs option" where
  "readRange B rt bucketName key en limit =
     (let limit1 = (if en = None then 1 else limit);
          limit2 = (if limit1 \<le> 0 then MaxInt64 else limit1) in
      if limit2 > 1 \<and> bucketName \<noteq> safeRangeBucket then None
      else do { ps \<leftarrow> trRange (rt_buf rt) bucketName key en limit2;
                if int (length ps) = limit2 then Some ps
                else do { d \<leftarrow> rt_tx rt;
                          if \<not> bolt_hasBucket B d bucketName then Some ps
                          else Some (unsafeRange B d bucketName key en (limit2 - int (length ps)) @ ps) } })"

definition readForEach :: "'d boltOps \<Rightarrow> 'd readTx \<Rightarrow> string \<Rightarrow> pairs option" where
  "readForEach B rt bucketName =
     (let ps = trForEach (rt_buf rt) bucketName in
      do { d \<leftarrow> rt_tx rt; Some (filter (\<lambda>p. fst p \<notin> fst ` set ps) (unsafeForEach B d bucketName) @ ps) })"

end
