(* ===== verification/Lessor.thy ===== *)
theory Lessor
  imports LeaseQueue Backend Float64
begin

text \<open>
  \<open>glee-etcd/lease/lessor.go\<close>: leases, the keys attached to them, and their expiry on the primary. Times are
  nanoseconds; \<open>now\<close> is what \<open>time.Now()\<close> returns during a call, \<open>clock\<close> the readings of a loop, one after another. The generated marshalling of a
  lease is the parameter \<open>leaseCodec\<close>. The checkpointer proposes to the consensus log; a function returns
  the requests that it makes to it. A map is walked in the order of its keys. \<open>None\<close> is a panic.
\<close>

definition NoLease :: int where
  "NoLease = 0"

definition MaxLeaseTTL :: int where
  "MaxLeaseTTL = 9000000000"

definition Second :: int where
  "Second = 1000000000"

definition leaseBucketName :: string where
  "leaseBucketName = ''lease''"

definition leaseRevokeRate :: nat where
  "leaseRevokeRate = 1000"

definition leaseCheckpointRate :: nat where
  "leaseCheckpointRate = 1000"

definition maxLeaseCheckpointBatchSize :: nat where
  "maxLeaseCheckpointBatchSize = 1000"

datatype leaseErr = ErrNotPrimary | ErrLeaseNotFound | ErrLeaseExists | ErrLeaseTTLTooLarge

text \<open>No expiry is \<open>forever\<close>. The item set has no duplicates.\<close>

record lease =
  l_ID :: int
  l_ttl :: int
  l_remainingTTL :: int
  l_expiry :: "int option"
  l_itemSet :: "string list"
  l_revoked :: bool

definition NewLease :: "int \<Rightarrow> int \<Rightarrow> lease" where
  "NewLease i ttl = \<lparr>l_ID = i, l_ttl = ttl, l_remainingTTL = 0, l_expiry = None, l_itemSet = [], l_revoked = False\<rparr>"

definition RemainingTTL :: "lease \<Rightarrow> int" where
  "RemainingTTL l = (if l_remainingTTL l > 0 then l_remainingTTL l else l_ttl l)"

definition refresh :: "int \<Rightarrow> int \<Rightarrow> lease \<Rightarrow> lease" where
  "refresh now ext l = l\<lparr>l_expiry := Some (now + i64 (ext + i64 (RemainingTTL l * Second)))\<rparr>"

definition forever :: "lease \<Rightarrow> lease" where
  "forever l = l\<lparr>l_expiry := None\<rparr>"

text \<open>\<open>time.Until\<close> saturates.\<close>

definition Remaining :: "int \<Rightarrow> lease \<Rightarrow> int" where
  "Remaining now l = (case l_expiry l of None \<Rightarrow> MaxInt64 | Some t \<Rightarrow> max (- (2 ^ 63)) (min MaxInt64 (t - now)))"

definition expired :: "int \<Rightarrow> lease \<Rightarrow> bool" where
  "expired now l \<longleftrightarrow> Remaining now l \<le> 0"

text \<open>\<open>l.expiry.UnixNano()\<close>, which wraps; of the zero time it is not asked.\<close>

definition UnixNano :: "lease \<Rightarrow> int" where
  "UnixNano l = (case l_expiry l of None \<Rightarrow> 0 | Some t \<Rightarrow> i64 t)"

text \<open>\<open>l.Keys()\<close>, sorted as strings.\<close>

fun insertKey :: "string \<Rightarrow> string list \<Rightarrow> string list" where
  "insertKey k [] = [k]"
| "insertKey k (j # js) = (if bytesLess j k then j # insertKey k js else k # j # js)"

definition sortedItems :: "lease \<Rightarrow> string list" where
  "sortedItems l = foldr insertKey (l_itemSet l) []"

subsection \<open>The lessor\<close>

record lessor =
  le_demotec :: bool
  le_leaseMap :: "(int, lease) fmap"
  le_leaseExpiredNotifier :: leaseExpiredNotifier
  le_leaseCheckpointHeap :: leaseQueue
  le_itemMap :: "(string, int) fmap"
  le_rd :: bool
  le_cp :: bool
  le_minLeaseTTL :: int
  le_expiredC :: "lease list list"
  le_checkpointInterval :: int
  le_expiredLeaseRetryInterval :: int
  le_checkpointPersist :: bool
  le_clusterV36 :: bool

record leaseCodec =
  lc_marshal :: "int \<times> int \<times> int \<Rightarrow> string"
  lc_unmarshal :: "string \<Rightarrow> (int \<times> int \<times> int) option"

definition int64ToBytes :: "int \<Rightarrow> string" where
  "int64ToBytes n = PutUint64 (nat (n mod 2 ^ 64))"

definition persistTo :: "leaseCodec \<Rightarrow> 'd boltOps \<Rightarrow> 'd backend \<Rightarrow> lease \<Rightarrow> 'd backend option" where
  "persistTo lc B be l =
     do { be1 \<leftarrow> UnsafePut B be leaseBucketName (int64ToBytes (l_ID l)) (lc_marshal lc (l_ID l, l_ttl l, l_remainingTTL l));
          Unlock B be1 }"

definition isPrimary :: "lessor \<Rightarrow> bool" where
  "isPrimary le \<longleftrightarrow> le_demotec le"

definition SetRangeDeleter :: "lessor \<Rightarrow> bool \<Rightarrow> lessor" where
  "SetRangeDeleter le rd = le\<lparr>le_rd := rd\<rparr>"

definition SetCheckpointer :: "lessor \<Rightarrow> bool \<Rightarrow> lessor" where
  "SetCheckpointer le cp = le\<lparr>le_cp := cp\<rparr>"

definition setLease :: "lessor \<Rightarrow> lease \<Rightarrow> lessor" where
  "setLease le l = le\<lparr>le_leaseMap := fmupd (l_ID l) l (le_leaseMap le)\<rparr>"

definition registerExpiry :: "lessor \<Rightarrow> lease \<Rightarrow> lessor" where
  "registerExpiry le l = le\<lparr>le_leaseExpiredNotifier :=
     RegisterOrUpdate (le_leaseExpiredNotifier le) \<lparr>lt_id = l_ID l, lt_time = UnixNano l\<rparr>\<rparr>"

text \<open>\<open>Duration.Seconds\<close>\<close>

definition Seconds :: "int \<Rightarrow> rat" where
  "Seconds d = fadd (floatOfInt (d sdiv Second)) (fdiv (floatOfInt (d smod Second)) (floatOfInt Second))"

definition scheduleCheckpointIfNeeded :: "int \<Rightarrow> lessor \<Rightarrow> lease \<Rightarrow> lessor" where
  "scheduleCheckpointIfNeeded now le l =
     (if \<not> le_cp le then le
      else if RemainingTTL l > truncFloat (Seconds (le_checkpointInterval le)) then
        le\<lparr>le_leaseCheckpointHeap := heapPush (le_leaseCheckpointHeap le)
             \<lparr>lt_id = l_ID l, lt_time = i64 (now + le_checkpointInterval le)\<rparr>\<rparr>
      else le)"

definition Grant :: "leaseCodec \<Rightarrow> 'd boltOps \<Rightarrow> int \<Rightarrow> lessor \<Rightarrow> 'd backend \<Rightarrow> int \<Rightarrow> int \<Rightarrow>
    ((leaseErr + lease) \<times> lessor \<times> 'd backend) option" where
  "Grant lc B now le be i ttl =
     (if i = NoLease then Some (Inl ErrLeaseNotFound, le, be)
      else if ttl > MaxLeaseTTL then Some (Inl ErrLeaseTTLTooLarge, le, be)
      else if fmlookup (le_leaseMap le) i \<noteq> None then Some (Inl ErrLeaseExists, le, be)
      else
        let l = NewLease i (if ttl < le_minLeaseTTL le then le_minLeaseTTL le else ttl);
            l1 = (if isPrimary le then refresh now 0 l else forever l);
            le1 = setLease le l1 in
        do { be1 \<leftarrow> persistTo lc B be l1;
             Some (Inr l1, if isPrimary le1 then scheduleCheckpointIfNeeded now (registerExpiry le1 l1) l1 else le1, be1) })"

definition shouldPersistCheckpoints :: "lessor \<Rightarrow> bool" where
  "shouldPersistCheckpoints le \<longleftrightarrow> le_checkpointPersist le \<or> le_clusterV36 le"

definition Checkpoint :: "leaseCodec \<Rightarrow> 'd boltOps \<Rightarrow> int \<Rightarrow> lessor \<Rightarrow> 'd backend \<Rightarrow> int \<Rightarrow> int \<Rightarrow> (lessor \<times> 'd backend) option" where
  "Checkpoint lc B now le be i remainingTTL =
     (case fmlookup (le_leaseMap le) i of
        None \<Rightarrow> Some (le, be)
      | Some l \<Rightarrow>
          let l1 = l\<lparr>l_remainingTTL := remainingTTL\<rparr>; le1 = setLease le l1 in
          do { be1 \<leftarrow> (if shouldPersistCheckpoints le1 then persistTo lc B be l1 else Some be);
               Some (if isPrimary le1 then scheduleCheckpointIfNeeded now le1 l1 else le1, be1) })"

text \<open>What ends the wait of a renewal for an expired lease: its revocation, a demotion, or a stop.\<close>

datatype renewWait = WaitRevoked | WaitDemoted | WaitStopped

text \<open>
  A renewal takes the lock twice. The first time it finds the lease, and what is to be asked of the checkpointer;
  the second time it refreshes the lease and registers its expiry. Meanwhile others may change the lessor:
  \<open>l\<close> is the lease as it is then, and \<open>held\<close> whether it is still in the map.
\<close>

definition renewBegin :: "int \<Rightarrow> renewWait \<Rightarrow> lessor \<Rightarrow> int \<Rightarrow> leaseErr + lease \<times> (int \<times> int) list" where
  "renewBegin now wait le i =
     (if \<not> isPrimary le then Inl ErrNotPrimary
      else case fmlookup (le_leaseMap le) i of
        None \<Rightarrow> Inl ErrLeaseNotFound
      | Some l \<Rightarrow>
          if expired now l then
            Inl (case wait of WaitRevoked \<Rightarrow> ErrLeaseNotFound | WaitDemoted \<Rightarrow> ErrNotPrimary | WaitStopped \<Rightarrow> ErrNotPrimary)
          else Inr (l, if le_cp le \<and> l_remainingTTL l > 0 then [(l_ID l, 0)] else []))"

definition renewEnd :: "int \<Rightarrow> bool \<Rightarrow> lessor \<Rightarrow> lease \<Rightarrow> int \<times> lessor" where
  "renewEnd now held le l =
     (let l1 = refresh now 0 l in (l_ttl l1, registerExpiry (if held then setLease le l1 else le) l1))"

text \<open>The whole call, with what happens between its two parts, the request to the checkpointer included.\<close>

definition Renew :: "int \<Rightarrow> int \<Rightarrow> renewWait \<Rightarrow> ((int \<times> int) list \<Rightarrow> lessor \<Rightarrow> lessor \<times> lease \<times> bool) \<Rightarrow> lessor \<Rightarrow> int \<Rightarrow>
    (leaseErr + int) \<times> lessor" where
  "Renew now now' wait between le i =
     (case renewBegin now wait le i of
        Inl e \<Rightarrow> (Inl e, le)
      | Inr (l, cps) \<Rightarrow>
          (case between cps le of (le1, l1, held) \<Rightarrow>
             (case renewEnd now' held le1 l1 of (ttl, le2) \<Rightarrow> (Inr ttl, le2))))"

definition Lookup :: "lessor \<Rightarrow> int \<Rightarrow> lease option" where
  "Lookup le i = fmlookup (le_leaseMap le) i"

definition unsafeLeases :: "lessor \<Rightarrow> lease list" where
  "unsafeLeases le = map (\<lambda>i. the (fmlookup (le_leaseMap le) i)) (sortedKeys (le_leaseMap le))"

definition Leases :: "int \<Rightarrow> lessor \<Rightarrow> lease list" where
  "Leases now le = sort_key (Remaining now) (unsafeLeases le)"

subsection \<open>Promotion and demotion\<close>

definition refreshLease :: "int \<Rightarrow> int \<Rightarrow> int \<Rightarrow> lessor \<Rightarrow> int \<Rightarrow> lessor" where
  "refreshLease now now' ext le i =
     (case fmlookup (le_leaseMap le) i of
        None \<Rightarrow> le
      | Some l \<Rightarrow> let l1 = refresh now ext l in scheduleCheckpointIfNeeded now' (registerExpiry (setLease le l1) l1) l1)"

text \<open>The first loop. \<open>clock\<close> gives the readings of the clock, in the order in which they are made; \<open>n\<close> of
  them have been made.\<close>

fun refreshAll :: "(nat \<Rightarrow> int) \<Rightarrow> int \<Rightarrow> nat \<Rightarrow> int list \<Rightarrow> lessor \<Rightarrow> lessor" where
  "refreshAll clock ext n [] le = le"
| "refreshAll clock ext n (i # is) le = refreshAll clock ext (n + 2) is (refreshLease (clock n) (clock (n + 1)) ext le i)"

text \<open>The loop that spreads leases which would expire together.\<close>

definition targetExpiresPerSecond :: nat where
  "targetExpiresPerSecond = (3 * leaseRevokeRate) div 4"

definition rateDelay :: "nat \<Rightarrow> int \<Rightarrow> int" where
  "rateDelay expires ahead =
     truncFloat (fsub (fmul (floatOfInt Second) (fdiv (floatOfInt (int expires)) (floatOfInt (int targetExpiresPerSecond))))
       (floatOfInt ahead))"

fun spread :: "(nat \<Rightarrow> int) \<Rightarrow> nat \<Rightarrow> int \<Rightarrow> lease list \<Rightarrow> int \<Rightarrow> int \<Rightarrow> nat \<Rightarrow> lessor \<Rightarrow> lessor" where
  "spread clock n ext [] baseWindow nextWindow expires le = le"
| "spread clock n ext (l # ls) baseWindow nextWindow expires le =
     (let remaining = Remaining (clock n) l in
      if remaining > nextWindow then spread clock (n + 1) ext ls remaining (i64 (remaining + Second)) 1 le
      else
        let expires1 = expires + 1 in
        if expires1 \<le> targetExpiresPerSecond then spread clock (n + 1) ext ls baseWindow nextWindow expires1 le
        else
          let delay = rateDelay expires1 (i64 (remaining - baseWindow)) in
          spread clock (n + 3) ext ls baseWindow (i64 (baseWindow + delay)) expires1
            (refreshLease (clock (n + 1)) (clock (n + 2)) (i64 (delay + ext)) le (l_ID l)))"

text \<open>The comparisons of the sort are made at one reading.\<close>

definition Promote :: "(nat \<Rightarrow> int) \<Rightarrow> int \<Rightarrow> lessor \<Rightarrow> lessor" where
  "Promote clock ext le =
     (let ks = sortedKeys (le_leaseMap le); n = 2 * length ks;
          le1 = refreshAll clock ext 0 ks (le\<lparr>le_demotec := True\<rparr>) in
      if fcard (fmdom (le_leaseMap le1)) < leaseRevokeRate then le1
      else
        let leases = sort_key (Remaining (clock n)) (unsafeLeases le1); baseWindow = Remaining (clock (n + 1)) (leases ! 0) in
        spread clock (n + 2) ext leases baseWindow (i64 (baseWindow + Second)) 0 le1)"

definition Demote :: "lessor \<Rightarrow> lessor" where
  "Demote le =
     le\<lparr>le_leaseMap := fmmap forever (le_leaseMap le), le_leaseCheckpointHeap := [],
        le_leaseExpiredNotifier := newLeaseExpiredNotifier, le_demotec := False\<rparr>"

subsection \<open>Items\<close>

definition attachItem :: "int \<Rightarrow> lessor \<times> lease \<Rightarrow> string \<Rightarrow> lessor \<times> lease" where
  "attachItem i acc it =
     (case acc of (le, l) \<Rightarrow> (le\<lparr>le_itemMap := fmupd it i (le_itemMap le)\<rparr>, l\<lparr>l_itemSet := List.insert it (l_itemSet l)\<rparr>))"

definition Attach :: "lessor \<Rightarrow> int \<Rightarrow> string list \<Rightarrow> leaseErr option \<times> lessor" where
  "Attach le i its =
     (case fmlookup (le_leaseMap le) i of
        None \<Rightarrow> (Some ErrLeaseNotFound, le)
      | Some l \<Rightarrow> (case foldl (attachItem i) (le, l) its of (le1, l1) \<Rightarrow> (None, le1\<lparr>le_leaseMap := fmupd i l1 (le_leaseMap le1)\<rparr>)))"

definition GetLease :: "lessor \<Rightarrow> string \<Rightarrow> int" where
  "GetLease le it = (case fmlookup (le_itemMap le) it of None \<Rightarrow> NoLease | Some i \<Rightarrow> i)"

definition detachItem :: "lessor \<times> lease \<Rightarrow> string \<Rightarrow> lessor \<times> lease" where
  "detachItem acc it =
     (case acc of (le, l) \<Rightarrow> (le\<lparr>le_itemMap := fmdrop it (le_itemMap le)\<rparr>, l\<lparr>l_itemSet := filter (\<lambda>k. k \<noteq> it) (l_itemSet l)\<rparr>))"

definition Detach :: "lessor \<Rightarrow> int \<Rightarrow> string list \<Rightarrow> leaseErr option \<times> lessor" where
  "Detach le i its =
     (case fmlookup (le_leaseMap le) i of
        None \<Rightarrow> (Some ErrLeaseNotFound, le)
      | Some l \<Rightarrow> (case foldl detachItem (le, l) its of (le1, l1) \<Rightarrow> (None, le1\<lparr>le_leaseMap := fmupd i l1 (le_leaseMap le1)\<rparr>)))"

subsection \<open>Expiry\<close>

definition expireExists :: "int \<Rightarrow> lessor \<Rightarrow> (lease option \<times> bool \<times> bool \<times> lessor) option" where
  "expireExists now le =
     (case Poll (le_leaseExpiredNotifier le) of
        None \<Rightarrow> Some (None, False, False, le)
      | Some item \<Rightarrow>
          (case fmlookup (le_leaseMap le) (lt_id item) of
             None \<Rightarrow> do { (_, mq) \<leftarrow> Unregister (le_leaseExpiredNotifier le);
                          Some (None, False, True, le\<lparr>le_leaseExpiredNotifier := mq\<rparr>) }
           | Some l \<Rightarrow>
               if i64 now < lt_time item then Some (Some l, False, False, le)
               else Some (Some l, True, False, le\<lparr>le_leaseExpiredNotifier :=
                      RegisterOrUpdate (le_leaseExpiredNotifier le) (item\<lparr>lt_time := i64 (now + le_expiredLeaseRetryInterval le)\<rparr>)\<rparr>)))"

text \<open>The rounds of the loop read the clock twice each.\<close>

partial_function (option) findExpiredLoop ::
    "(nat \<Rightarrow> int) \<Rightarrow> nat \<Rightarrow> nat \<Rightarrow> lease list \<Rightarrow> lessor \<Rightarrow> (lease list \<times> lessor) option" where
  "findExpiredLoop clock n limit leases le =
     (case expireExists (clock (2 * n)) le of
        None \<Rightarrow> None
      | Some (l, ok, nxt, le1) \<Rightarrow>
          if \<not> ok \<and> \<not> nxt then Some (leases, le1)
          else if \<not> ok \<or> nxt then findExpiredLoop clock (n + 1) limit leases le1
          else if expired (clock (2 * n + 1)) (the l) then
            if length (leases @ [the l]) = limit then Some (leases @ [the l], le1)
            else findExpiredLoop clock (n + 1) limit (leases @ [the l]) le1
          else findExpiredLoop clock (n + 1) limit leases le1)"

definition findExpiredLeases :: "(nat \<Rightarrow> int) \<Rightarrow> nat \<Rightarrow> lessor \<Rightarrow> (lease list \<times> lessor) option" where
  "findExpiredLeases clock limit le = findExpiredLoop clock 0 limit [] le"

text \<open>The channel of expired leases has room for sixteen lists; a list that finds none is dropped.\<close>

definition revokeExpiredLeases :: "(nat \<Rightarrow> int) \<Rightarrow> lessor \<Rightarrow> lessor option" where
  "revokeExpiredLeases clock le =
     (if \<not> isPrimary le then Some le
      else case findExpiredLeases clock (leaseRevokeRate div 2) le of
        None \<Rightarrow> None
      | Some (ls, le1) \<Rightarrow>
          Some (if ls \<noteq> [] \<and> length (le_expiredC le1) < 16 then le1\<lparr>le_expiredC := le_expiredC le1 @ [ls]\<rparr> else le1))"

text \<open>The remaining seconds that are recorded for a lease whose checkpoint is due.\<close>

definition dueCheckpoint :: "int \<Rightarrow> lease \<Rightarrow> int option" where
  "dueCheckpoint now l =
     (case l_expiry l of
        None \<Rightarrow> None
      | Some t \<Rightarrow>
          if \<not> now < t then None
          else let remaining = \<lceil>Seconds (min MaxInt64 (t - now))\<rceil> in
            if remaining \<ge> l_ttl l then None else Some remaining)"

function dueLoop :: "int \<Rightarrow> nat \<Rightarrow> (int \<times> int) list \<Rightarrow> lessor \<Rightarrow> (int \<times> int) list \<times> lessor" where
  "dueLoop now limit cps le =
     (case heapPop (le_leaseCheckpointHeap le) of
        None \<Rightarrow> (cps, le)
      | Some (_, h) \<Rightarrow>
          let lt = le_leaseCheckpointHeap le ! 0; le1 = le\<lparr>le_leaseCheckpointHeap := h\<rparr> in
          if \<not> length cps < limit \<or> lt_time lt > i64 now then (cps, le)
          else dueLoop now limit
            (case fmlookup (le_leaseMap le) (lt_id lt) of
               None \<Rightarrow> cps
             | Some l \<Rightarrow> (case dueCheckpoint now l of None \<Rightarrow> cps | Some c \<Rightarrow> cps @ [(lt_id lt, c)])) le1)"
  by pat_completeness auto

lemma length_heapDown [simp]: "length (fst (heapDown h i n)) = length h"
  by (induction h i n rule: heapDown.induct) (subst heapDown.simps, auto simp: Let_def queueSwap_def)

termination dueLoop
  by (relation "measure (\<lambda>(now, limit, cps, le). length (le_leaseCheckpointHeap le))")
    (auto simp: heapPop_def queuePop_def queueSwap_def Let_def split: if_splits)

declare dueLoop.simps [simp del]

definition findDueScheduledCheckpoints :: "int \<Rightarrow> nat \<Rightarrow> lessor \<Rightarrow> (int \<times> int) list \<times> lessor" where
  "findDueScheduledCheckpoints now limit le = (if \<not> le_cp le then ([], le) else dueLoop now limit [] le)"

text \<open>The batches that are submitted, in \<open>k\<close> rounds at most; the \<open>i\<close>-th reads the clock anew.\<close>

fun checkpointRounds :: "(nat \<Rightarrow> int) \<Rightarrow> nat \<Rightarrow> nat \<Rightarrow> lessor \<Rightarrow> (int \<times> int) list list \<times> lessor" where
  "checkpointRounds clock 0 i le = ([], le)"
| "checkpointRounds clock (Suc k) i le =
     (case (if isPrimary le then findDueScheduledCheckpoints (clock i) maxLeaseCheckpointBatchSize le else ([], le)) of
        (cps, le1) \<Rightarrow>
          if length cps < maxLeaseCheckpointBatchSize then (if cps = [] then [] else [cps], le1)
          else case checkpointRounds clock k (i + 1) le1 of (css, le2) \<Rightarrow> (cps # css, le2))"

definition checkpointScheduledLeases :: "(nat \<Rightarrow> int) \<Rightarrow> lessor \<Rightarrow> (int \<times> int) list list \<times> lessor" where
  "checkpointScheduledLeases clock le = checkpointRounds clock (leaseCheckpointRate div 2) 0 le"

subsection \<open>Recovery\<close>

text \<open>A lease as it is read from the backend; its items are attached again when the keys are restored.\<close>

definition recoveredLease :: "int \<Rightarrow> int \<times> int \<times> int \<Rightarrow> lease" where
  "recoveredLease minTTL lpb =
     (case lpb of (i, ttl, remaining) \<Rightarrow>
        (NewLease i (if ttl < minTTL then minTTL else ttl))\<lparr>l_remainingTTL := remaining\<rparr>)"

definition unsafeGetAllLeases :: "leaseCodec \<Rightarrow> pairs \<Rightarrow> (int \<times> int \<times> int) list option" where
  "unsafeGetAllLeases lc ps = foldM (\<lambda>ls p. do { lpb \<leftarrow> lc_unmarshal lc (snd p); Some (ls @ [lpb]) }) [] ps"

definition initAndRecover :: "leaseCodec \<Rightarrow> 'd boltOps \<Rightarrow> lessor \<Rightarrow> 'd backend \<Rightarrow> (lessor \<times> 'd backend) option" where
  "initAndRecover lc B le be =
     do { be1 \<leftarrow> UnsafeCreateBucket B be leaseBucketName;
          ps \<leftarrow> UnsafeForEach B be1 leaseBucketName;
          lpbs \<leftarrow> unsafeGetAllLeases lc ps;
          be2 \<leftarrow> Unlock B be1;
          let le1 = foldl (\<lambda>le lpb. setLease le (recoveredLease (le_minLeaseTTL le) lpb)) le lpbs;
              le2 = le1\<lparr>le_leaseExpiredNotifier := InitNotifier (le_leaseExpiredNotifier le1),
                        le_leaseCheckpointHeap := heapInit (le_leaseCheckpointHeap le1)\<rparr> in
          do { be3 \<leftarrow> ForceCommit B be2; Some (le2, be3) } }"

record lessorConfig =
  lcf_MinLeaseTTL :: int
  lcf_CheckpointInterval :: int
  lcf_ExpiredLeasesRetryInterval :: int
  lcf_CheckpointPersist :: bool

definition defaultLeaseCheckpointInterval :: int where
  "defaultLeaseCheckpointInterval = 5 * 60 * Second"

definition defaultExpiredleaseRetryInterval :: int where
  "defaultExpiredleaseRetryInterval = 3 * Second"

definition newLessor :: "leaseCodec \<Rightarrow> 'd boltOps \<Rightarrow> 'd backend \<Rightarrow> bool \<Rightarrow> lessorConfig \<Rightarrow> (lessor \<times> 'd backend) option" where
  "newLessor lc B be clusterV36 cfg =
     initAndRecover lc B
       \<lparr>le_demotec = False, le_leaseMap = fmempty, le_leaseExpiredNotifier = newLeaseExpiredNotifier,
        le_leaseCheckpointHeap = [], le_itemMap = fmempty, le_rd = False, le_cp = False,
        le_minLeaseTTL = lcf_MinLeaseTTL cfg, le_expiredC = [],
        le_checkpointInterval =
          (if lcf_CheckpointInterval cfg = 0 then defaultLeaseCheckpointInterval else lcf_CheckpointInterval cfg),
        le_expiredLeaseRetryInterval =
          (if lcf_ExpiredLeasesRetryInterval cfg = 0 then defaultExpiredleaseRetryInterval
           else lcf_ExpiredLeasesRetryInterval cfg),
        le_checkpointPersist = lcf_CheckpointPersist cfg, le_clusterV36 = clusterV36\<rparr> be"

definition RecoverLessor :: "leaseCodec \<Rightarrow> 'd boltOps \<Rightarrow> lessor \<Rightarrow> 'd backend \<Rightarrow> bool \<Rightarrow> (lessor \<times> 'd backend) option" where
  "RecoverLessor lc B le be rd =
     initAndRecover lc B (le\<lparr>le_rd := rd, le_leaseMap := fmempty, le_itemMap := fmempty\<rparr>) be"

end
