(* ===== verification/KvStore.thy ===== *)
theory KvStore
  imports TreeIndex Lessor
begin

text \<open>
  \<open>glee-etcd/mvcc/kvstore_txn.go\<close>, \<open>kvstore.go\<close> and \<open>kvstore_compaction.go\<close>: the multi-version store, over the
  index of all keys, the backend and the lessor. The generated marshalling of a pair is the parameter
  \<open>kvCodec\<close>. \<open>None\<close> is a panic or a fatal error. Metrics, traces and hashes have no effect on the state.
\<close>

record keyValue =
  kv_Key :: string
  kv_CreateRevision :: int
  kv_ModRevision :: int
  kv_Version :: int
  kv_Value :: string
  kv_Lease :: int

record kvCodec =
  kc_marshal :: "keyValue \<Rightarrow> string"
  kc_unmarshal :: "string \<Rightarrow> keyValue option"

text \<open>What the store takes from outside: bolt, the B-tree and its empty tree, the codecs.\<close>

record ('d, 't) kvEnv =
  ke_bolt :: "'d boltOps"
  ke_btree :: "'t btreeOps"
  ke_newTree :: 't
  ke_kv :: kvCodec
  ke_lease :: leaseCodec

datatype kvErr = ErrCompacted | ErrFutureRev

definition keyBucketName :: string where
  "keyBucketName = ''key''"

definition metaBucketName :: string where
  "metaBucketName = ''meta''"

definition consistentIndexKeyName :: string where
  "consistentIndexKeyName = ''consistent_index''"

definition scheduledCompactKeyName :: string where
  "scheduledCompactKeyName = ''scheduledCompactRev''"

definition finishedCompactKeyName :: string where
  "finishedCompactKeyName = ''finishedCompactRev''"

definition revBytesLen :: nat where
  "revBytesLen = 17"

definition markTombstone :: char where
  "markTombstone = CHR ''t''"

definition appendMarkTombstone :: "string \<Rightarrow> string option" where
  "appendMarkTombstone b = (if length b \<noteq> revBytesLen then None else Some (b @ [markTombstone]))"

definition isTombstone :: "string \<Rightarrow> bool" where
  "isTombstone b \<longleftrightarrow> length b = revBytesLen + 1 \<and> b ! revBytesLen = markTombstone"

text \<open>The store. \<open>st_ig\<close> is what the getter of the consistent index returns, if there is one; \<open>st_lg\<close> tells
  whether there is a logger, since some errors are fatal only then.\<close>

record ('d, 't) kvStore =
  st_be :: "'d backend"
  st_le :: "lessor option"
  st_kvindex :: 't
  st_currentRev :: int
  st_compactMainRev :: int
  st_consistentIndex :: nat
  st_batchLimit :: int
  st_ig :: "nat option"
  st_lg :: bool

subsection \<open>Reading\<close>

record rangeOptions =
  ro_Limit :: int
  ro_Rev :: int
  ro_Count :: bool

record rangeResult =
  rr_KVs :: "keyValue list"
  rr_Rev :: int
  rr_Count :: int

text \<open>The value of a revision, read with \<open>UnsafeRange\<close> of the transaction.\<close>

definition readRevision :: "('d, 't) kvEnv \<Rightarrow> (string \<Rightarrow> pairs option) \<Rightarrow> revision \<Rightarrow> keyValue option" where
  "readRevision E rng r =
     do { vs \<leftarrow> rng (revToBytes r);
          if length vs \<noteq> 1 then None else kc_unmarshal (ke_kv E) (snd (vs ! 0)) }"

definition rangeKeys :: "('d, 't) kvEnv \<Rightarrow> ('d, 't) kvStore \<Rightarrow> (string \<Rightarrow> pairs option) \<Rightarrow> string \<Rightarrow> string option \<Rightarrow> int \<Rightarrow>
    rangeOptions \<Rightarrow> (rangeResult \<times> kvErr option) option" where
  "rangeKeys E s rng key en curRev ro =
     (if ro_Rev ro > curRev then Some (\<lparr>rr_KVs = [], rr_Rev = curRev, rr_Count = -1\<rparr>, Some ErrFutureRev)
      else
        let r = (if ro_Rev ro \<le> 0 then curRev else ro_Rev ro) in
        if r < st_compactMainRev s then Some (\<lparr>rr_KVs = [], rr_Rev = 0, rr_Count = -1\<rparr>, Some ErrCompacted)
        else if ro_Count ro then
          do { total \<leftarrow> tiCountRevisions (ke_btree E) (st_kvindex s) key en r;
               Some (\<lparr>rr_KVs = [], rr_Rev = curRev, rr_Count = int total\<rparr>, None) }
        else
          do { (revpairs, total) \<leftarrow> tiRevisions (ke_btree E) (st_kvindex s) key en r (ro_Limit ro);
               if length revpairs = 0 then Some (\<lparr>rr_KVs = [], rr_Rev = curRev, rr_Count = int total\<rparr>, None)
               else
                 let limit = (if ro_Limit ro \<le> 0 \<or> ro_Limit ro > int (length revpairs) then length revpairs else nat (ro_Limit ro)) in
                 do { kvs \<leftarrow> foldM (\<lambda>kvs r. do { kv \<leftarrow> readRevision E rng r; Some (kvs @ [kv]) }) [] (take limit revpairs);
                      Some (\<lparr>rr_KVs = kvs, rr_Rev = curRev, rr_Count = int total\<rparr>, None) } })"

text \<open>A read transaction: the reader and the revisions at its beginning.\<close>

record 'd storeTxnRead =
  tr_tx :: "'d readTx"
  tr_firstRev :: int
  tr_rev :: int

definition ReadTxn :: "('d, 't) kvStore \<Rightarrow> 'd storeTxnRead \<times> ('d, 't) kvStore" where
  "ReadTxn s =
     (case ConcurrentReadTx (st_be s) of (rt, be) \<Rightarrow>
        (\<lparr>tr_tx = rt, tr_firstRev = st_compactMainRev s, tr_rev = st_currentRev s\<rparr>, s\<lparr>st_be := be\<rparr>))"

definition RangeRead :: "('d, 't) kvEnv \<Rightarrow> ('d, 't) kvStore \<Rightarrow> 'd storeTxnRead \<Rightarrow> string \<Rightarrow> string option \<Rightarrow> rangeOptions \<Rightarrow>
    (rangeResult \<times> kvErr option) option" where
  "RangeRead E s tr key en ro =
     rangeKeys E s (\<lambda>k. readRange (ke_bolt E) (tr_tx tr) keyBucketName k None 0) key en (tr_rev tr) ro"

subsection \<open>Writing\<close>

text \<open>A write transaction holds the lock of the backend's transaction from \<open>Write\<close> to \<open>End\<close>.\<close>

record storeTxnWrite =
  tw_beginRev :: int
  tw_changes :: "keyValue list"

definition WriteTxn :: "('d, 't) kvStore \<Rightarrow> storeTxnWrite" where
  "WriteTxn s = \<lparr>tw_beginRev = st_currentRev s, tw_changes = []\<rparr>"

definition RangeWrite :: "('d, 't) kvEnv \<Rightarrow> ('d, 't) kvStore \<Rightarrow> storeTxnWrite \<Rightarrow> string \<Rightarrow> string option \<Rightarrow> rangeOptions \<Rightarrow>
    (rangeResult \<times> kvErr option) option" where
  "RangeWrite E s tw key en ro =
     rangeKeys E s (\<lambda>k. UnsafeRange (ke_bolt E) (st_be s) keyBucketName k None 0) key en
       (if length (tw_changes tw) > 0 then i64 (tw_beginRev tw + 1) else tw_beginRev tw) ro"

definition leaseOf :: "('d, 't) kvStore \<Rightarrow> string \<Rightarrow> int option" where
  "leaseOf s key = do { le \<leftarrow> st_le s; Some (GetLease le key) }"

text \<open>Detaching a key from the lease that it had: an error is fatal if there is a logger.\<close>

definition detachOld :: "('d, 't) kvStore \<Rightarrow> int \<Rightarrow> string \<Rightarrow> ('d, 't) kvStore option" where
  "detachOld s oldLease key =
     (if oldLease = NoLease then Some s
      else do { le \<leftarrow> st_le s;
                (case Detach le oldLease [key] of (err, le1) \<Rightarrow>
                   if err \<noteq> None \<and> st_lg s then None else Some (s\<lparr>st_le := Some le1\<rparr>)) })"

definition attachNew :: "('d, 't) kvStore \<Rightarrow> int \<Rightarrow> string \<Rightarrow> ('d, 't) kvStore option" where
  "attachNew s leaseID key =
     (if leaseID = NoLease then Some s
      else do { le \<leftarrow> st_le s;
                (case Attach le leaseID [key] of (err, le1) \<Rightarrow>
                   if err \<noteq> None then None else Some (s\<lparr>st_le := Some le1\<rparr>)) })"

definition tw_put :: "('d, 't) kvEnv \<Rightarrow> ('d, 't) kvStore \<Rightarrow> storeTxnWrite \<Rightarrow> string \<Rightarrow> string \<Rightarrow> int \<Rightarrow>
    (('d, 't) kvStore \<times> storeTxnWrite) option" where
  "tw_put E s tw key v leaseID =
     (let r = i64 (tw_beginRev tw + 1) in
      do { res \<leftarrow> tiGet (ke_btree E) (st_kvindex s) key r;
           (c, ver, oldLease) \<leftarrow> (case res of
              Inr (_, created, ver) \<Rightarrow> do { old \<leftarrow> leaseOf s key; Some (rev_main created, ver, old) }
            | Inl _ \<Rightarrow> Some (r, 0, NoLease));
           let idxRev = Revision r (int (length (tw_changes tw)));
               kv = \<lparr>kv_Key = key, kv_CreateRevision = c, kv_ModRevision = r, kv_Version = i64 (ver + 1), kv_Value = v, kv_Lease = leaseID\<rparr> in
           do { be1 \<leftarrow> UnsafeSeqPut (ke_bolt E) (st_be s) keyBucketName (revToBytes idxRev) (kc_marshal (ke_kv E) kv);
                t1 \<leftarrow> tiPut (ke_btree E) (st_kvindex s) key idxRev;
                s1 \<leftarrow> detachOld (s\<lparr>st_be := be1, st_kvindex := t1\<rparr>) oldLease key;
                s2 \<leftarrow> attachNew s1 leaseID key;
                Some (s2, tw\<lparr>tw_changes := tw_changes tw @ [kv]\<rparr>) } })"

definition Put :: "('d, 't) kvEnv \<Rightarrow> ('d, 't) kvStore \<Rightarrow> storeTxnWrite \<Rightarrow> string \<Rightarrow> string \<Rightarrow> int \<Rightarrow>
    (int \<times> ('d, 't) kvStore \<times> storeTxnWrite) option" where
  "Put E s tw key v leaseID =
     do { (s1, tw1) \<leftarrow> tw_put E s tw key v leaseID; Some (i64 (tw_beginRev tw + 1), s1, tw1) }"

definition tw_delete :: "('d, 't) kvEnv \<Rightarrow> ('d, 't) kvStore \<times> storeTxnWrite \<Rightarrow> string \<Rightarrow> (('d, 't) kvStore \<times> storeTxnWrite) option" where
  "tw_delete E acc key =
     (case acc of (s, tw) \<Rightarrow>
        let idxRev = Revision (i64 (tw_beginRev tw + 1)) (int (length (tw_changes tw)));
            kv = \<lparr>kv_Key = key, kv_CreateRevision = 0, kv_ModRevision = 0, kv_Version = 0, kv_Value = [], kv_Lease = 0\<rparr> in
        do { ibytes \<leftarrow> appendMarkTombstone (revToBytes idxRev);
             be1 \<leftarrow> UnsafeSeqPut (ke_bolt E) (st_be s) keyBucketName ibytes (kc_marshal (ke_kv E) kv);
             (err, t1) \<leftarrow> tiTombstone (ke_btree E) (st_kvindex s) key idxRev;
             if err \<noteq> None then None
             else do { leaseID \<leftarrow> leaseOf s key;
                       s1 \<leftarrow> detachOld (s\<lparr>st_be := be1, st_kvindex := t1\<rparr>) leaseID key;
                       Some (s1, tw\<lparr>tw_changes := tw_changes tw @ [kv]\<rparr>) } })"

definition tw_deleteRange :: "('d, 't) kvEnv \<Rightarrow> ('d, 't) kvStore \<Rightarrow> storeTxnWrite \<Rightarrow> string \<Rightarrow> string option \<Rightarrow>
    (int \<times> ('d, 't) kvStore \<times> storeTxnWrite) option" where
  "tw_deleteRange E s tw key en =
     (let rrev = (if length (tw_changes tw) > 0 then i64 (tw_beginRev tw + 1) else tw_beginRev tw) in
      do { (keys, _) \<leftarrow> tiRange (ke_btree E) (st_kvindex s) key en rrev;
           if length keys = 0 then Some (0, s, tw)
           else do { (s1, tw1) \<leftarrow> foldM (tw_delete E) (s, tw) keys; Some (int (length keys), s1, tw1) } })"

definition DeleteRange :: "('d, 't) kvEnv \<Rightarrow> ('d, 't) kvStore \<Rightarrow> storeTxnWrite \<Rightarrow> string \<Rightarrow> string option \<Rightarrow>
    (int \<times> int \<times> ('d, 't) kvStore \<times> storeTxnWrite) option" where
  "DeleteRange E s tw key en =
     do { (n, s1, tw1) \<leftarrow> tw_deleteRange E s tw key en;
          Some (if n \<noteq> 0 \<or> length (tw_changes tw1) > 0 then (n, i64 (tw_beginRev tw1 + 1), s1, tw1) else (0, tw_beginRev tw1, s1, tw1)) }"

text \<open>The code writes the index into a slice that the store keeps (\<open>bytesBuf8\<close>) and hands that slice to the backend, so
  that a save also changes the values of earlier saves that are still held in buffers or in the transaction. Here
  each save has a value of its own. The key is the same each time, so the database ends with the last value either
  way; only a reader with an old copy of the buffer could tell, and no reader modelled asks for this key.\<close>

definition saveIndex :: "('d, 't) kvEnv \<Rightarrow> ('d, 't) kvStore \<Rightarrow> ('d, 't) kvStore option" where
  "saveIndex E s =
     (case st_ig s of
        None \<Rightarrow> Some s
      | Some ci \<Rightarrow>
          do { be1 \<leftarrow> UnsafePut (ke_bolt E) (st_be s) metaBucketName consistentIndexKeyName (PutUint64 ci);
               Some (s\<lparr>st_be := be1, st_consistentIndex := ci\<rparr>) })"

definition EndWrite :: "('d, 't) kvEnv \<Rightarrow> ('d, 't) kvStore \<Rightarrow> storeTxnWrite \<Rightarrow> ('d, 't) kvStore option" where
  "EndWrite E s tw =
     do { s1 \<leftarrow> (if length (tw_changes tw) \<noteq> 0 then
                  do { s1 \<leftarrow> saveIndex E s; Some (s1\<lparr>st_currentRev := i64 (st_currentRev s1 + 1)\<rparr>) }
                else Some s);
          be1 \<leftarrow> Unlock (ke_bolt E) (st_be s1);
          Some (s1\<lparr>st_be := be1\<rparr>) }"

subsection \<open>Revoking a lease\<close>

text \<open>\<open>Revoke\<close> of the lessor, whose range deleter opens a write transaction of the store: the keys of the
  lease are deleted in it, and the lease in the same backend transaction.\<close>

definition revokeKeys :: "('d, 't) kvEnv \<Rightarrow> ('d, 't) kvStore \<times> storeTxnWrite \<Rightarrow> string \<Rightarrow> (('d, 't) kvStore \<times> storeTxnWrite) option" where
  "revokeKeys E acc key =
     (case acc of (s, tw) \<Rightarrow> do { (_, _, s1, tw1) \<leftarrow> DeleteRange E s tw key None; Some (s1, tw1) })"

definition Revoke :: "('d, 't) kvEnv \<Rightarrow> ('d, 't) kvStore \<Rightarrow> int \<Rightarrow> (leaseErr option \<times> ('d, 't) kvStore) option" where
  "Revoke E s i =
     do { le \<leftarrow> st_le s;
          case fmlookup (le_leaseMap le) i of
            None \<Rightarrow> Some (Some ErrLeaseNotFound, s)
          | Some l \<Rightarrow>
              if l_revoked l then None
              else if \<not> le_rd le then Some (None, s\<lparr>st_le := Some (setLease le (l\<lparr>l_revoked := True\<rparr>))\<rparr>)
              else do {
                (s1, tw1) \<leftarrow> foldM (revokeKeys E) (s, WriteTxn s) (sortedItems l);
                le1 \<leftarrow> st_le s1;
                be1 \<leftarrow> UnsafeDelete (ke_bolt E) (st_be s1) leaseBucketName (int64ToBytes (l_ID l));
                s2 \<leftarrow> EndWrite E (s1\<lparr>st_le := Some (le1\<lparr>le_leaseMap := fmdrop (l_ID l) (le_leaseMap le1)\<rparr>), st_be := be1\<rparr>) tw1;
                Some (None, s2) } }"

subsection \<open>Compaction\<close>

definition updateCompactRev :: "('d, 't) kvEnv \<Rightarrow> ('d, 't) kvStore \<Rightarrow> int \<Rightarrow> (kvErr option \<times> ('d, 't) kvStore) option" where
  "updateCompactRev E s r =
     (if r \<le> st_compactMainRev s then Some (Some ErrCompacted, s)
      else if r > st_currentRev s then Some (Some ErrFutureRev, s)
      else do { be1 \<leftarrow> UnsafePut (ke_bolt E) (st_be s) metaBucketName scheduledCompactKeyName (revToBytes (Revision r 0));
                be2 \<leftarrow> Unlock (ke_bolt E) be1;
                be3 \<leftarrow> ForceCommit (ke_bolt E) be2;
                Some (None, s\<lparr>st_compactMainRev := r, st_be := be3\<rparr>) })"

definition compactKey :: "('d, 't) kvEnv \<Rightarrow> revision fset \<Rightarrow> 'd backend \<times> revision \<Rightarrow> string \<Rightarrow> ('d backend \<times> revision) option" where
  "compactKey E keep acc key =
     (case acc of (be, _) \<Rightarrow>
        do { r \<leftarrow> bytesToRev key;
             if r |\<notin>| keep then do { be1 \<leftarrow> UnsafeDelete (ke_bolt E) be keyBucketName key; Some (be1, r) }
             else Some (be, r) })"

text \<open>One round: a batch of keys from \<open>last\<close> on. It returns where the next one starts, or that it was the last.
  The store is not stopped meanwhile.\<close>

definition compactBatch :: "('d, 't) kvEnv \<Rightarrow> int \<Rightarrow> revision fset \<Rightarrow> int \<Rightarrow> string \<Rightarrow> 'd backend \<Rightarrow> (string option \<times> 'd backend) option" where
  "compactBatch E compactMainRev keep limit lastKey be =
     (let en = PutUint64 (toUint64 (i64 (compactMainRev + 1))) in
      do { ps \<leftarrow> UnsafeRange (ke_bolt E) be keyBucketName lastKey (Some en) limit;
           (be1, r) \<leftarrow> foldM (compactKey E keep) (be, Revision 0 0) (map fst ps);
           if int (length ps) < limit then
             do { be2 \<leftarrow> UnsafePut (ke_bolt E) be1 metaBucketName finishedCompactKeyName (revToBytes (Revision compactMainRev 0));
                  be3 \<leftarrow> Unlock (ke_bolt E) be2;
                  Some (None, be3) }
           else
             do { be2 \<leftarrow> Unlock (ke_bolt E) be1;
                  be3 \<leftarrow> ForceCommit (ke_bolt E) be2;
                  Some (Some (revToBytes (Revision (rev_main r) (i64 (rev_sub r + 1)))), be3) } })"

partial_function (option) compactLoop ::
    "('d, 't) kvEnv \<Rightarrow> int \<Rightarrow> revision fset \<Rightarrow> int \<Rightarrow> string \<Rightarrow> 'd backend \<Rightarrow> 'd backend option" where
  "compactLoop E compactMainRev keep limit lastKey be =
     (case compactBatch E compactMainRev keep limit lastKey be of
        None \<Rightarrow> None
      | Some (None, be1) \<Rightarrow> Some be1
      | Some (Some lastKey1, be1) \<Rightarrow> compactLoop E compactMainRev keep limit lastKey1 be1)"

definition scheduleCompaction :: "('d, 't) kvEnv \<Rightarrow> ('d, 't) kvStore \<Rightarrow> int \<Rightarrow> revision fset \<Rightarrow> ('d, 't) kvStore option" where
  "scheduleCompaction E s compactMainRev keep =
     do { be1 \<leftarrow> compactLoop E compactMainRev keep (st_batchLimit s) (replicate 17 (CHR 0x00)) (st_be s);
          Some (s\<lparr>st_be := be1\<rparr>) }"

text \<open>The job that \<open>compact\<close> schedules.\<close>

definition compactJob :: "('d, 't) kvEnv \<Rightarrow> ('d, 't) kvStore \<Rightarrow> int \<Rightarrow> ('d, 't) kvStore option" where
  "compactJob E s r =
     do { (t1, keep) \<leftarrow> tiCompact (ke_btree E) (st_kvindex s) r;
          scheduleCompaction E (s\<lparr>st_kvindex := t1\<rparr>) r keep }"

definition compactStore :: "('d, 't) kvEnv \<Rightarrow> ('d, 't) kvStore \<Rightarrow> int \<Rightarrow> (kvErr option \<times> ('d, 't) kvStore) option" where
  "compactStore E s r =
     do { (err, s1) \<leftarrow> updateCompactRev E s r;
          if err \<noteq> None then Some (err, s1) else do { s2 \<leftarrow> compactJob E s1 r; Some (None, s2) } }"

definition CommitStore :: "('d, 't) kvEnv \<Rightarrow> ('d, 't) kvStore \<Rightarrow> ('d, 't) kvStore option" where
  "CommitStore E s =
     do { s1 \<leftarrow> saveIndex E s;
          be1 \<leftarrow> Unlock (ke_bolt E) (st_be s1);
          be2 \<leftarrow> ForceCommit (ke_bolt E) be1;
          Some (s1\<lparr>st_be := be2\<rparr>) }"

subsection \<open>Restoring\<close>

text \<open>\<open>restoreChunk\<close> for one pair, on the map from keys to leases.\<close>

definition restoreLease :: "(string, int) fmap \<Rightarrow> string \<Rightarrow> keyValue \<Rightarrow> (string, int) fmap" where
  "restoreLease m key kv =
     (if isTombstone key then fmdrop (kv_Key kv) m
      else if kv_Lease kv \<noteq> NoLease then fmupd (kv_Key kv) (kv_Lease kv) m
      else fmdrop (kv_Key kv) m)"

text \<open>\<open>restoreIntoIndex\<close> for one pair. The cache of pointers into the tree is left out: an item found in it is
  the one that the tree has.\<close>

definition restoreIndex :: "('d, 't) kvEnv \<Rightarrow> 't \<Rightarrow> string \<Rightarrow> keyValue \<Rightarrow> ('t \<times> int) option" where
  "restoreIndex E t key kv =
     do { r \<leftarrow> bytesToRev key;
          t1 \<leftarrow> (case tiKeyIndex (ke_btree E) t (newKeyIndex (kv_Key kv)) of
             Some ki \<Rightarrow>
               if isTombstone key then
                 do { (_, ki1) \<leftarrow> kiTombstone ki (rev_main r) (rev_sub r); Some (bt_ReplaceOrInsert (ke_btree E) t ki1) }
               else do { ki1 \<leftarrow> kiPut ki (rev_main r) (rev_sub r); Some (bt_ReplaceOrInsert (ke_btree E) t ki1) }
           | None \<Rightarrow>
               if isTombstone key then Some t
               else do { ki1 \<leftarrow> kiRestore (newKeyIndex (kv_Key kv)) (Revision (kv_CreateRevision kv) 0) r (kv_Version kv);
                         Some (tiInsert (ke_btree E) t ki1) });
          Some (t1, rev_main r) }"

definition restorePair :: "('d, 't) kvEnv \<Rightarrow> 't \<times> (string, int) fmap \<times> int \<Rightarrow> string \<times> string \<Rightarrow> ('t \<times> (string, int) fmap \<times> int) option" where
  "restorePair E acc p =
     (case acc of (t, m, _) \<Rightarrow>
        do { kv \<leftarrow> kc_unmarshal (ke_kv E) (snd p);
             (t1, r) \<leftarrow> restoreIndex E t (fst p) kv;
             Some (t1, restoreLease m (fst p) kv, r) })"

definition restoreChunkKeys :: nat where
  "restoreChunkKeys = 10000"

text \<open>The loop over chunks of keys from \<open>mn\<close> to \<open>mx\<close>.\<close>

partial_function (option) restoreLoop ::
    "('d, 't) kvEnv \<Rightarrow> 'd backend \<Rightarrow> string \<Rightarrow> string \<Rightarrow> 't \<times> (string, int) fmap \<times> int \<Rightarrow> ('t \<times> (string, int) fmap \<times> int) option" where
  "restoreLoop E be mn mx acc =
     (case UnsafeRange (ke_bolt E) be keyBucketName mn (Some mx) (int restoreChunkKeys) of
        None \<Rightarrow> None
      | Some ps \<Rightarrow>
          if length ps = 0 then Some acc
          else case foldM (restorePair E) acc ps of
            None \<Rightarrow> None
          | Some acc1 \<Rightarrow>
              if length ps < restoreChunkKeys then Some acc1
              else case bytesToRev (take revBytesLen (fst (List.last ps))) of
                None \<Rightarrow> None
              | Some r \<Rightarrow> restoreLoop E be (revToBytes (Revision (rev_main r) (i64 (rev_sub r + 1)))) mx acc1)"

text \<open>Attaching the keys to their leases again; an error is only logged.\<close>

definition reattach :: "(string \<times> int) list \<Rightarrow> lessor \<Rightarrow> lessor" where
  "reattach kls le = foldl (\<lambda>le kl. snd (Attach le (snd kl) [fst kl])) le kls"

definition metaRevision :: "('d, 't) kvEnv \<Rightarrow> 'd backend \<Rightarrow> string \<Rightarrow> revision option option" where
  "metaRevision E be name =
     do { ps \<leftarrow> UnsafeRange (ke_bolt E) be metaBucketName name None 0;
          if ps = [] then Some None else do { r \<leftarrow> bytesToRev (snd (ps ! 0)); Some (Some r) } }"

text \<open>The map is walked in an order that does not matter: the keys are different ones. \<open>order\<close> is that order.\<close>

definition restoreStore :: "('d, 't) kvEnv \<Rightarrow> ((string, int) fmap \<Rightarrow> (string \<times> int) list) \<Rightarrow> ('d, 't) kvStore \<Rightarrow> ('d, 't) kvStore option" where
  "restoreStore E order s =
     do { finished \<leftarrow> metaRevision E (st_be s) finishedCompactKeyName;
          let s1 = (case finished of None \<Rightarrow> s | Some r \<Rightarrow> s\<lparr>st_compactMainRev := rev_main r\<rparr>) in
          do { scheduled \<leftarrow> metaRevision E (st_be s) scheduledCompactKeyName;
               (t1, m, cur) \<leftarrow> restoreLoop E (st_be s) (revToBytes (Revision 1 0)) (revToBytes (Revision MaxInt64 MaxInt64))
                 (st_kvindex s1, fmempty, 1);
               let scheduledCompact = (case scheduled of None \<Rightarrow> 0 | Some r \<Rightarrow> rev_main r);
                   s2 = s1\<lparr>st_kvindex := t1, st_currentRev := (if cur < st_compactMainRev s1 then st_compactMainRev s1 else cur)\<rparr> in
               do { s3 \<leftarrow> (if m = fmempty then Some s2
                           else do { le \<leftarrow> st_le s2; Some (s2\<lparr>st_le := Some (reattach (order m) le)\<rparr>) });
                    be1 \<leftarrow> Unlock (ke_bolt E) (st_be s3);
                    let s4 = s3\<lparr>st_be := be1\<rparr> in
                    if scheduledCompact \<noteq> 0 \<and> scheduledCompact > st_compactMainRev s4 then
                      do { (_, s5) \<leftarrow> compactStore E s4 scheduledCompact; Some s5 }
                    else Some s4 } } }"

definition defaultCompactBatchLimit :: int where
  "defaultCompactBatchLimit = 1000"

definition NewStore :: "('d, 't) kvEnv \<Rightarrow> ((string, int) fmap \<Rightarrow> (string \<times> int) list) \<Rightarrow> bool \<Rightarrow> 'd backend \<Rightarrow> lessor option \<Rightarrow>
    nat option \<Rightarrow> int \<Rightarrow> ('d, 't) kvStore option" where
  "NewStore E order lg be le ig batchLimit =
     do { be1 \<leftarrow> UnsafeCreateBucket (ke_bolt E) be keyBucketName;
          be2 \<leftarrow> UnsafeCreateBucket (ke_bolt E) be1 metaBucketName;
          be3 \<leftarrow> Unlock (ke_bolt E) be2;
          be4 \<leftarrow> ForceCommit (ke_bolt E) be3;
          restoreStore E order
            \<lparr>st_be = be4, st_le = map_option (\<lambda>le. SetRangeDeleter le True) le, st_kvindex = ke_newTree E, st_currentRev = 1,
             st_compactMainRev = -1, st_consistentIndex = 0,
             st_batchLimit = (if batchLimit = 0 then defaultCompactBatchLimit else batchLimit), st_ig = ig, st_lg = lg\<rparr> }"

definition RestoreStore :: "('d, 't) kvEnv \<Rightarrow> ((string, int) fmap \<Rightarrow> (string \<times> int) list) \<Rightarrow> ('d, 't) kvStore \<Rightarrow> 'd backend \<Rightarrow>
    ('d, 't) kvStore option" where
  "RestoreStore E order s b =
     restoreStore E order (s\<lparr>st_consistentIndex := 0, st_be := b, st_kvindex := ke_newTree E, st_currentRev := 1, st_compactMainRev := -1\<rparr>)"

definition ConsistentIndex :: "('d, 't) kvEnv \<Rightarrow> ('d, 't) kvStore \<Rightarrow> (nat \<times> ('d, 't) kvStore) option" where
  "ConsistentIndex E s =
     (if st_consistentIndex s > 0 then Some (st_consistentIndex s, s)
      else do { ps \<leftarrow> UnsafeRange (ke_bolt E) (st_be s) metaBucketName consistentIndexKeyName None 0;
                if ps = [] then do { be1 \<leftarrow> Unlock (ke_bolt E) (st_be s); Some (0, s\<lparr>st_be := be1\<rparr>) }
                else if length (snd (ps ! 0)) < 8 then None
                else do { be1 \<leftarrow> Unlock (ke_bolt E) (st_be s);
                          let v = Uint64 (snd (ps ! 0)) in Some (v, s\<lparr>st_be := be1, st_consistentIndex := v\<rparr>) } })"

end
