(* ===== verification/BackendFacts.thy ===== *)
theory BackendFacts
  imports Backend "HOL-Library.Multiset"
begin

text \<open>
  What the backend promises: a range of the batching transaction is the range of its content, and a reader
  sees, through the buffers, what the transaction wrote, committed or not. The second holds for keys that
  are written once and in ascending order, as the store does with its revisions; for others the buffers
  can show stale values, of which two runs at the end are examples.
\<close>

subsection \<open>Ascending lists of pairs\<close>

definition asc :: "pairs \<Rightarrow> bool" where
  "asc ps \<longleftrightarrow> sorted_wrt (\<lambda>p q. bytesLess (fst p) (fst q)) ps"

fun putPair :: "string \<times> string \<Rightarrow> pairs \<Rightarrow> pairs" where
  "putPair p [] = [p]"
| "putPair p (q # qs) =
     (if bytesLess (fst p) (fst q) then p # q # qs else if fst q = fst p then p # qs else q # putPair p qs)"

lemma asc_simps [simp]: "asc []" "asc (p # ps) \<longleftrightarrow> (\<forall>q \<in> set ps. bytesLess (fst p) (fst q)) \<and> asc ps"
  by (simp_all add: asc_def)

lemma asc_append: "asc (ps @ qs) \<longleftrightarrow> asc ps \<and> asc qs \<and> (\<forall>p \<in> set ps. \<forall>q \<in> set qs. bytesLess (fst p) (fst q))"
  by (auto simp: asc_def sorted_wrt_append)

lemma asc_filter: "asc ps \<Longrightarrow> asc (filter P ps)"
  by (simp add: asc_def sorted_wrt_filter)

lemma asc_nth: "asc ps \<Longrightarrow> i < j \<Longrightarrow> j < length ps \<Longrightarrow> bytesLess (fst (ps ! i)) (fst (ps ! j))"
  by (simp add: asc_def sorted_wrt_iff_nth_less)

lemma asc_distinct: "asc ps \<Longrightarrow> distinct (map fst ps)"
  by (induction ps) (auto simp: image_iff)

lemma set_putPair: "set (putPair p ps) \<subseteq> insert p (set ps)"
  by (induction ps) auto

lemma length_putPair: "length (putPair p ps) \<le> Suc (length ps)"
  by (induction ps) auto

lemma asc_putPair: "asc ps \<Longrightarrow> asc (putPair p ps)"
proof (induction ps)
  case (Cons q qs)
  have "bytesLess (fst p) (fst q) \<Longrightarrow> r \<in> set qs \<Longrightarrow> bytesLess (fst p) (fst r)" for r
    using Cons.prems bytesLess_trans by auto
  moreover have "\<not> bytesLess (fst p) (fst q) \<Longrightarrow> fst q \<noteq> fst p \<Longrightarrow> bytesLess (fst q) (fst p)"
    using bytesLess_linear by metis
  ultimately show ?case using Cons set_putPair [of p qs] by auto
qed simp

lemma map_of_putPair: "map_of (putPair p ps) k = (if k = fst p then Some (snd p) else map_of ps k)"
  by (induction ps) auto

lemma map_of_asc: "asc ps \<Longrightarrow> map_of ps k = Some v \<longleftrightarrow> (k, v) \<in> set ps"
  by (simp add: asc_distinct)

lemma putPair_filter: "filter (\<lambda>q. fst q \<noteq> k) (putPair p ps) =
    (if fst p = k then filter (\<lambda>q. fst q \<noteq> k) ps else putPair p (filter (\<lambda>q. fst q \<noteq> k) ps))" if "asc ps"
  using that
proof (induction ps)
  case (Cons q qs)
  have "putPair p (filter (\<lambda>q. fst q \<noteq> k) qs) = p # filter (\<lambda>q. fst q \<noteq> k) qs"
    if "bytesLess (fst p) (fst q)" "fst q = k"
  proof (cases "filter (\<lambda>q. fst q \<noteq> k) qs")
    case (Cons r rs)
    then have "r \<in> set qs" by (metis filter_is_subset list.set_intros(1) subsetD)
    then show ?thesis using Cons that(1) Cons.prems bytesLess_trans [of "fst p" "fst q" "fst r"] \<open>asc (q # qs)\<close> by auto
  qed simp
  then show ?case using Cons by auto
qed simp

text \<open>A cursor placed at a key.\<close>

lemma at_key: "asc ps \<Longrightarrow> take (Suc 0) (takeWhile (\<lambda>p. fst p = k) (dropWhile (\<lambda>p. bytesLess (fst p) k) ps)) =
    (case map_of ps k of None \<Rightarrow> [] | Some v \<Rightarrow> [(k, v)])"
proof (induction ps)
  case (Cons q qs)
  show ?case
  proof (cases "fst q = k")
    case True
    then show ?thesis by (cases q) simp
  next
    case False
    show ?thesis
    proof (cases "bytesLess (fst q) k")
      case False
      then have less: "bytesLess k (fst q)" using \<open>fst q \<noteq> k\<close> bytesLess_linear by blast
      have "fst r \<noteq> k" if "r \<in> set qs" for r
        using bytesLess_trans [OF less, of "fst r"] Cons.prems that by auto
      then have "k \<notin> fst ` set qs" by blast
      then have "map_of qs k = None" by (simp add: map_of_eq_None_iff)
      then show ?thesis using False \<open>fst q \<noteq> k\<close> by (cases q) simp
    qed (use Cons \<open>fst q \<noteq> k\<close> in \<open>cases q; simp\<close>)
  qed
qed simp

lemma in_bounds: "asc ps \<Longrightarrow> takeWhile (\<lambda>p. bytesLess (fst p) en) (dropWhile (\<lambda>p. bytesLess (fst p) k) ps) =
    filter (\<lambda>p. \<not> bytesLess (fst p) k \<and> bytesLess (fst p) en) ps"
proof (induction ps)
  case (Cons q qs)
  have tail: "takeWhile (\<lambda>p. bytesLess (fst p) en) qs = filter (\<lambda>p. bytesLess (fst p) en) qs" if "asc qs" for qs :: pairs
    using that
  proof (induction qs)
    case (Cons r rs)
    then have "\<not> bytesLess (fst r) en \<Longrightarrow> p \<in> set rs \<Longrightarrow> \<not> bytesLess (fst p) en" for p
      using bytesLess_trans by auto
    then show ?case using Cons by (auto simp: filter_empty_conv)
  qed simp
  show ?case
  proof (cases "bytesLess (fst q) k")
    case False
    then have "\<not> bytesLess (fst p) k" if "p \<in> set qs" for p using Cons.prems that bytesLess_trans by auto
    then have "filter (\<lambda>p. \<not> bytesLess (fst p) k \<and> bytesLess (fst p) en) (q # qs) = filter (\<lambda>p. bytesLess (fst p) en) (q # qs)"
      using False by (intro filter_cong) auto
    then show ?thesis using False tail [OF Cons.prems] by simp
  qed (use Cons in simp)
qed simp

subsection \<open>Buffers of ascending pairs\<close>

text \<open>There is always a free cell. In a buffer in use the cells that are not used hold smaller keys.\<close>

definition bb_room :: "bucketBuffer \<Rightarrow> bool" where
  "bb_room bb \<longleftrightarrow> bb_used bb < length (bb_buf bb) \<and> 2 \<le> length (bb_buf bb)"

definition bb_ok :: "bucketBuffer \<Rightarrow> bool" where
  "bb_ok bb \<longleftrightarrow> bb_room bb \<and> asc (bbForEach bb) \<and>
     (0 < bb_used bb \<longrightarrow> (\<forall>p \<in> set (drop (bb_used bb) (bb_buf bb)). bytesLess (fst p) (fst (bb_buf bb ! 0))))"

definition cells_below :: "bucketBuffer \<Rightarrow> string \<Rightarrow> bool" where
  "cells_below bb k \<longleftrightarrow> (\<forall>p \<in> set (bb_buf bb). bytesLess (fst p) k)"

lemma newBucketBuffer_ok: "bb_ok newBucketBuffer" "bbForEach newBucketBuffer = []" "k \<noteq> [] \<Longrightarrow> cells_below newBucketBuffer k"
  by (simp_all add: bb_ok_def bb_room_def newBucketBuffer_def bucketBufferInitialSize_def bbForEach_def cells_below_def)

lemma bbForEach_length [simp]: "bb_room bb \<Longrightarrow> length (bbForEach bb) = bb_used bb"
  by (simp add: bbForEach_def bb_room_def)

lemma bbForEach_empty: "bb_room bb \<Longrightarrow> bbForEach bb = [] \<longleftrightarrow> bb_used bb = 0"
  by (auto simp: bbForEach_def bb_room_def)

lemma bbForEach_nth: "i < bb_used bb \<Longrightarrow> bbForEach bb ! i = bb_buf bb ! i"
  by (simp add: bbForEach_def)

lemma bbForEach_sub: "set (bbForEach bb) \<subseteq> set (bb_buf bb)"
  by (simp add: bbForEach_def set_take_subset)

lemma bbAdd_all:
  assumes "bb_room bb"
  shows "\<exists>bb'. bbAdd bb p = Some bb' \<and> bb_room bb' \<and> bb_used bb' = Suc (bb_used bb) \<and> bbForEach bb' = bbForEach bb @ [p] \<and>
    set (bb_buf bb') \<subseteq> insert p (set (bb_buf bb)) \<union> {([], [])} \<and>
    set (drop (bb_used bb') (bb_buf bb')) \<subseteq> set (drop (bb_used bb) (bb_buf bb)) \<union> {([], [])} \<and>
    (\<forall>i < bb_used bb. bb_buf bb' ! i = bb_buf bb ! i) \<and> bb_buf bb' ! bb_used bb = p"
proof -
  let ?u = "bb_used bb" and ?n = "length (bb_buf bb)"
  let ?buf = "(bb_buf bb)[?u := p]" and ?grow = "replicate (3 * ?n div 2 - ?n) ([] :: string, [] :: string)"
  have u: "?u < ?n" "2 \<le> ?n" using assms by (simp_all add: bb_room_def)
  have t: "take (Suc ?u) ?buf = take ?u (bb_buf bb) @ [p]" using u(1) by (simp add: take_Suc_conv_app_nth)
  have d: "set (drop (Suc ?u) ?buf) \<subseteq> set (drop ?u (bb_buf bb))" by (simp add: set_drop_subset_set_drop)
  have b: "set ?buf \<subseteq> insert p (set (bb_buf bb))" by (rule set_update_subset_insert)
  have "\<exists>extra. bbAdd bb p = Some \<lparr>bb_buf = ?buf @ extra, bb_used = Suc ?u\<rparr> \<and> set extra \<subseteq> {([], [])} \<and> Suc ?u < ?n + length extra"
    using u by (cases "Suc ?u = ?n") (auto simp: bbAdd_def Let_def intro!: exI [of _ ?grow])
  then obtain extra where e: "bbAdd bb p = Some \<lparr>bb_buf = ?buf @ extra, bb_used = Suc ?u\<rparr>" "set extra \<subseteq> {([], [])}"
    "Suc ?u < ?n + length extra" by blast
  have cut: "take (Suc ?u) (?buf @ extra) = take ?u (bb_buf bb) @ [p]" "drop (Suc ?u) (?buf @ extra) = drop (Suc ?u) ?buf @ extra"
    using u t by simp_all
  let ?bb = "\<lparr>bb_buf = ?buf @ extra, bb_used = Suc ?u\<rparr>"
  have "bb_room ?bb" using e(3) u by (simp add: bb_room_def)
  moreover have "bbForEach ?bb = bbForEach bb @ [p]" using cut(1) by (simp add: bbForEach_def)
  moreover have "set (bb_buf ?bb) \<subseteq> insert p (set (bb_buf bb)) \<union> {([], [])}" using b e(2) by auto
  moreover have "set (drop (bb_used ?bb) (bb_buf ?bb)) \<subseteq> set (drop ?u (bb_buf bb)) \<union> {([], [])}"
    using d e(2) by (simp only: bucketBuffer.simps cut(2)) auto
  moreover have "\<forall>i < ?u. bb_buf ?bb ! i = bb_buf bb ! i" "bb_buf ?bb ! ?u = p" using u by (simp_all add: nth_append)
  ultimately show ?thesis using e(1) by auto
qed

lemma bbAdd_ok:
  assumes "bb_ok bb" and "cells_below bb (fst p)" and "fst p \<noteq> []"
  shows "\<exists>bb'. bbAdd bb p = Some bb' \<and> bb_ok bb' \<and> bbForEach bb' = bbForEach bb @ [p] \<and>
    set (bb_buf bb') \<subseteq> insert p (set (bb_buf bb)) \<union> {([], [])} \<and> bb_used bb' = Suc (bb_used bb)"
proof -
  have room: "bb_room bb" using assms(1) by (simp add: bb_ok_def)
  obtain bb' where bb': "bbAdd bb p = Some bb'" "bb_room bb'" "bb_used bb' = Suc (bb_used bb)" "bbForEach bb' = bbForEach bb @ [p]"
    "set (bb_buf bb') \<subseteq> insert p (set (bb_buf bb)) \<union> {([], [])}"
    "set (drop (bb_used bb') (bb_buf bb')) \<subseteq> set (drop (bb_used bb) (bb_buf bb)) \<union> {([], [])}"
    "\<forall>i < bb_used bb. bb_buf bb' ! i = bb_buf bb ! i" "bb_buf bb' ! bb_used bb = p"
    using bbAdd_all [OF room, of p] by blast
  have below: "bytesLess (fst q) (fst p)" if "q \<in> set (bb_buf bb)" for q using assms(2) that by (simp add: cells_below_def)
  have "asc (bbForEach bb')" using assms(1) bb'(4) below bbForEach_sub [of bb] by (auto simp: bb_ok_def asc_append)
  moreover have "bytesLess (fst q) (fst (bb_buf bb' ! 0))" if "q \<in> set (drop (bb_used bb') (bb_buf bb'))" for q
  proof (cases "bb_used bb = 0")
    case True
    then have "q \<in> set (bb_buf bb) \<or> q = ([], [])" using that bb'(6) by auto
    then show ?thesis using True bb'(8) below [of q] assms(3) by auto
  next
    case False
    then have "bb_buf bb' ! 0 = bb_buf bb ! 0" using bb'(7) by simp
    moreover from False have old: "\<forall>q \<in> set (drop (bb_used bb) (bb_buf bb)). bytesLess (fst q) (fst (bb_buf bb ! 0))"
      using assms(1) by (simp add: bb_ok_def)
    moreover have "fst (bb_buf bb ! 0) \<noteq> []"
    proof -
      have "drop (bb_used bb) (bb_buf bb) \<noteq> []" using room by (simp add: bb_room_def)
      then obtain q' where "q' \<in> set (drop (bb_used bb) (bb_buf bb))" by (metis list.set_intros(1) neq_Nil_conv)
      then show ?thesis using old by (metis bytesLess.simps(1))
    qed
    ultimately show ?thesis using that bb'(6) by auto
  qed
  ultimately show ?thesis using bb'(1-5) by (auto simp: bb_ok_def)
qed

lemma bbAdds_ok:
  assumes "bb_ok bb" and "asc ps" and "\<forall>p \<in> set ps. cells_below bb (fst p) \<and> fst p \<noteq> []"
  shows "\<exists>bb'. foldM bbAdd bb ps = Some bb' \<and> bb_ok bb' \<and> bbForEach bb' = bbForEach bb @ ps \<and>
    set (bb_buf bb') \<subseteq> set ps \<union> set (bb_buf bb) \<union> {([], [])} \<and> bb_used bb' = bb_used bb + length ps"
  using assms
proof (induction ps arbitrary: bb)
  case (Cons p ps)
  obtain b1 where b1: "bbAdd bb p = Some b1" "bb_ok b1" "bbForEach b1 = bbForEach bb @ [p]"
    "set (bb_buf b1) \<subseteq> insert p (set (bb_buf bb)) \<union> {([], [])}" "bb_used b1 = Suc (bb_used bb)"
    using bbAdd_ok [of bb p] Cons.prems by auto
  have "cells_below b1 (fst q)" if "q \<in> set ps" for q
    using b1(4) that Cons.prems(2,3) unfolding cells_below_def by fastforce
  then obtain b2 where "foldM bbAdd b1 ps = Some b2" "bb_ok b2" "bbForEach b2 = bbForEach b1 @ ps"
    "set (bb_buf b2) \<subseteq> set ps \<union> set (bb_buf b1) \<union> {([], [])}" "bb_used b2 = bb_used b1 + length ps"
    using Cons.IH [OF b1(2)] Cons.prems by auto
  then show ?case using b1 by (intro exI [of _ b2]) auto
qed (auto)

subsection \<open>Merging\<close>

lemma insertPair_asc: "asc (p # ps) \<Longrightarrow> insertPair p ps = p # ps"
  using bytesLess_asym by (cases ps) auto

lemma stableSort_asc: "asc ps \<Longrightarrow> stableSort ps = ps"
  by (induction ps) (auto simp: stableSort_def insertPair_asc)

lemma length_insertPair [simp]: "length (insertPair p ps) = Suc (length ps)"
  by (induction ps) auto

lemma length_stableSort [simp]: "length (stableSort ps) = length ps"
  by (induction ps) (auto simp: stableSort_def)

lemma sortUsed_id: "srt (bbForEach bb) = bbForEach bb \<Longrightarrow> sortUsed srt bb = bb"
  by (simp add: sortUsed_def bbForEach_def)

lemma dedup_prefix:
  assumes "n \<le> length buf" and "asc (take n buf)" and "0 < n"
  shows "foldl dedupStep (buf, 0) [1..<n] = (buf, n - 1)"
  using assms
proof (induction n)
  case (Suc n)
  show ?case
  proof (cases "n = 0")
    case False
    have "asc (take n buf)" using Suc.prems(1,2) by (simp add: take_Suc_conv_app_nth asc_append)
    then have "foldl dedupStep (buf, 0) [1..<n] = (buf, n - 1)" using Suc False by simp
    moreover have "bytesLess (fst (buf ! (n - 1))) (fst (buf ! n))"
      using asc_nth [OF Suc.prems(2), of "n - 1" n] Suc.prems(1) False by simp
    then have "fst (buf ! n) \<noteq> fst (buf ! (n - 1))" by auto
    then have "dedupStep (buf, n - 1) n = (buf, n)" using False by (simp add: dedupStep_def)
    ultimately show ?thesis using False by simp
  qed simp
qed simp

lemma bbDedup_id: "bb_ok bb \<Longrightarrow> 0 < bb_used bb \<Longrightarrow> bbDedup bb = bb"
  using dedup_prefix [of "bb_used bb" "bb_buf bb"] by (simp add: bbDedup_def bb_ok_def bb_room_def bbForEach_def)

lemma bbMerge_ok:
  assumes rb: "bb_ok rb" and wb: "bb_ok wb" and below: "\<forall>p \<in> set (bbForEach wb). cells_below rb (fst p) \<and> fst p \<noteq> []"
  shows "\<exists>rb'. bbMerge rb wb = Some rb' \<and> bb_ok rb' \<and> bbForEach rb' = bbForEach rb @ bbForEach wb \<and>
    set (bb_buf rb') \<subseteq> set (bbForEach wb) \<union> set (bb_buf rb) \<union> {([], [])}"
proof -
  have "asc (bbForEach wb)" using wb by (simp add: bb_ok_def)
  from bbAdds_ok [OF rb this below] obtain rb' where rb': "foldM bbAdd rb (bbForEach wb) = Some rb'" "bb_ok rb'"
    "bbForEach rb' = bbForEach rb @ bbForEach wb" "set (bb_buf rb') \<subseteq> set (bbForEach wb) \<union> set (bb_buf rb) \<union> {([], [])}"
    "bb_used rb' = bb_used rb + length (bbForEach wb)" by blast
  have "sortUsed stableSort rb' = rb'" using rb'(2) by (intro sortUsed_id stableSort_asc) (simp add: bb_ok_def)
  moreover have "bb_used rb' = bb_used rb + bb_used wb" using rb'(5) wb by (simp add: bb_ok_def)
  ultimately have "bbMerge rb wb = Some rb'"
    using rb'(1) bbDedup_id [OF rb'(2)] by (auto simp: bbMerge_def simp flip: bbForEach_def)
  then show ?thesis using rb' by blast
qed

lemma bb_room_sortUsed: "bb_room bb \<Longrightarrow> (\<And>ps. length (srt ps) = length ps) \<Longrightarrow> bb_room (sortUsed srt bb)"
  by (simp add: bb_room_def sortUsed_def)

lemma dedup_bounds:
  "foldl dedupStep (buf, 0) [1..<n] = (buf', w) \<Longrightarrow> length buf' = length buf \<and> (0 < n \<longrightarrow> w < n)"
proof (induction n arbitrary: buf' w)
  case (Suc n)
  show ?case
  proof (cases "n = 0")
    case False
    obtain b v where "foldl dedupStep (buf, 0) [1..<n] = (b, v)" by (rule prod.exhaust)
    moreover from this have "length b = length buf \<and> v < n" using Suc.IH False by blast
    moreover have "dedupStep (b, v) n = (buf', w)" using calculation(1) Suc.prems False by simp
    ultimately show ?thesis by (auto simp: dedupStep_def Let_def split: if_splits)
  qed (use Suc in simp)
qed simp

lemma bb_room_dedup: "bb_room bb \<Longrightarrow> 0 < bb_used bb \<Longrightarrow> bb_room (bbDedup bb)"
  using dedup_bounds [of "bb_buf bb" "bb_used bb"]
  by (cases "foldl dedupStep (bb_buf bb, 0) [1..<bb_used bb]") (fastforce simp: bb_room_def bbDedup_def)

lemma bbAdds_room: "bb_room bb \<Longrightarrow> \<exists>bb'. foldM bbAdd bb ps = Some bb' \<and> bb_room bb' \<and> bb_used bb' = bb_used bb + length ps"
proof (induction ps arbitrary: bb)
  case (Cons p ps)
  then show ?case using bbAdd_all [OF Cons.prems, of p] Cons.IH by fastforce
qed simp

lemma bbMerge_room:
  assumes "bb_room rb" and "bb_room wb"
  shows "\<exists>rb'. bbMerge rb wb = Some rb' \<and> bb_room rb'"
proof -
  obtain r where r: "foldM bbAdd rb (bbForEach wb) = Some r" "bb_room r" "bb_used r = bb_used rb + bb_used wb"
    using bbAdds_room [OF assms(1), of "bbForEach wb"] assms(2) by auto
  have "bb_room (bbDedup (sortUsed stableSort r))" if "bb_used r \<noteq> bb_used wb"
    using that r(3) bb_room_sortUsed [OF r(2)] bb_room_dedup by (simp add: sortUsed_def)
  then show ?thesis using r by (auto simp: bbMerge_def simp flip: bbForEach_def)
qed

subsection \<open>Finding a key in a buffer\<close>

lemma searchBetween_spec:
  assumes "i \<le> j" and "\<And>a b. i \<le> a \<Longrightarrow> a \<le> b \<Longrightarrow> b < j \<Longrightarrow> f a \<Longrightarrow> f b"
  shows "i \<le> searchBetween i j f \<and> searchBetween i j f \<le> j \<and>
    (\<forall>a. i \<le> a \<and> a < searchBetween i j f \<longrightarrow> \<not> f a) \<and> (\<forall>a. searchBetween i j f \<le> a \<and> a < j \<longrightarrow> f a)"
  using assms
proof (induction i j f rule: searchBetween.induct)
  case (1 i j f)
  show ?case
  proof (cases "i < j")
    case False
    then have "searchBetween i j f = i" by (subst searchBetween.simps) simp
    then show ?thesis using 1(3) False by auto
  next
    case True
    let ?h = "(i + j) div 2"
    have h: "i \<le> ?h" "?h < j" using True by simp_all
    show ?thesis
    proof (cases "f ?h")
      case False
      have e: "searchBetween i j f = searchBetween (?h + 1) j f" using True False by (subst searchBetween.simps) (simp add: Let_def)
      have low: "\<not> f a" if "i \<le> a" "a \<le> ?h" for a using 1(4) [OF that h(2)] False by blast
      have hj: "?h + 1 \<le> j" using h by simp
      have m: "f b" if "?h + 1 \<le> a" "a \<le> b" "b < j" "f a" for a b
        by (rule 1(4) [of a b]) (use that h in simp_all)
      have "?h + 1 \<le> searchBetween (?h + 1) j f \<and> searchBetween (?h + 1) j f \<le> j \<and>
          (\<forall>a. ?h + 1 \<le> a \<and> a < searchBetween (?h + 1) j f \<longrightarrow> \<not> f a) \<and> (\<forall>a. searchBetween (?h + 1) j f \<le> a \<and> a < j \<longrightarrow> f a)"
        by (rule 1(1) [OF True refl False hj]) (blast intro: m)
      then have ih: "?h + 1 \<le> searchBetween (?h + 1) j f" "searchBetween (?h + 1) j f \<le> j"
        "\<And>a. ?h + 1 \<le> a \<Longrightarrow> a < searchBetween (?h + 1) j f \<Longrightarrow> \<not> f a"
        "\<And>a. searchBetween (?h + 1) j f \<le> a \<Longrightarrow> a < j \<Longrightarrow> f a" by blast+
      have "\<not> f a" if "i \<le> a" "a < searchBetween (?h + 1) j f" for a
        by (cases "a \<le> ?h") (use low [of a] ih(3) [of a] that in simp_all)
      moreover have "i \<le> searchBetween (?h + 1) j f" using ih(1) h(1) by linarith
      ultimately show ?thesis unfolding e using ih(2,4) by blast
    next
      case t: True
      have e: "searchBetween i j f = searchBetween i ?h f" using True t by (subst searchBetween.simps) (simp add: Let_def)
      have high: "f a" if "?h \<le> a" "a < j" for a using 1(4) [OF h(1) that t] .
      have nf: "\<not> \<not> f ?h" using t by simp
      have m: "f b" if "i \<le> a" "a \<le> b" "b < ?h" "f a" for a b
        by (rule 1(4) [of a b]) (use that h in simp_all)
      have "i \<le> searchBetween i ?h f \<and> searchBetween i ?h f \<le> ?h \<and>
          (\<forall>a. i \<le> a \<and> a < searchBetween i ?h f \<longrightarrow> \<not> f a) \<and> (\<forall>a. searchBetween i ?h f \<le> a \<and> a < ?h \<longrightarrow> f a)"
        by (rule 1(2) [OF True refl nf h(1)]) (blast intro: m)
      then have ih: "i \<le> searchBetween i ?h f" "searchBetween i ?h f \<le> ?h"
        "\<And>a. i \<le> a \<Longrightarrow> a < searchBetween i ?h f \<Longrightarrow> \<not> f a"
        "\<And>a. searchBetween i ?h f \<le> a \<Longrightarrow> a < ?h \<Longrightarrow> f a" by blast+
      have "f a" if "searchBetween i ?h f \<le> a" "a < j" for a
        by (cases "?h \<le> a") (use high [of a] ih(4) [of a] that in simp_all)
      moreover have "searchBetween i ?h f \<le> j" using ih(2) h(2) by linarith
      ultimately show ?thesis unfolding e using ih(1,3) by blast
    qed
  qed
qed

text \<open>A key that is in use is found; of another nothing is, unless it is the one in the first cell of a
  buffer that has been reset.\<close>

lemma used_order:
  assumes "bb_ok bb" and "a < b" and "b < bb_used bb"
  shows "bytesLess (fst (bb_buf bb ! a)) (fst (bb_buf bb ! b))"
proof -
  have "asc (bbForEach bb)" "length (bbForEach bb) = bb_used bb" using assms(1) by (simp_all add: bb_ok_def)
  then show ?thesis using asc_nth [OF _ assms(2), of "bbForEach bb"] assms(2,3) by (simp add: bbForEach_nth)
qed

lemma used_lookup:
  assumes "bb_ok bb"
  shows "map_of (bbForEach bb) k = Some v \<longleftrightarrow> (\<exists>a < bb_used bb. bb_buf bb ! a = (k, v))"
proof -
  have asc: "asc (bbForEach bb)" and l: "length (bbForEach bb) = bb_used bb" using assms by (simp_all add: bb_ok_def)
  have "(k, v) \<in> set (bbForEach bb) \<longleftrightarrow> (\<exists>a < bb_used bb. bbForEach bb ! a = (k, v))" unfolding in_set_conv_nth l ..
  also have "\<dots> \<longleftrightarrow> (\<exists>a < bb_used bb. bb_buf bb ! a = (k, v))" by (auto simp: bbForEach_nth)
  finally show ?thesis using map_of_asc [OF asc] by simp
qed

lemma bbRange_key:
  assumes ok: "bb_ok bb"
  shows "bbRange bb k None n = Some (case map_of (bbForEach bb) k of Some v \<Rightarrow> [(k, v)]
    | None \<Rightarrow> if bb_used bb = 0 \<and> fst (bb_buf bb ! 0) = k then [bb_buf bb ! 0] else [])"
proof -
  let ?u = "bb_used bb"
  let ?f = "\<lambda>i. \<not> bytesLess (fst (bb_buf bb ! i)) k"
  let ?i = "searchBetween 0 ?u ?f"
  have room: "bb_room bb" using ok by (simp add: bb_ok_def)
  note order = used_order [OF ok]
  have mono: "?f b" if "a \<le> b" "b < ?u" "?f a" for a b
  proof (cases "a = b")
    case False
    then have "bytesLess (fst (bb_buf bb ! a)) (fst (bb_buf bb ! b))" using order that by simp
    then show ?thesis using that(3) bytesLess_trans by blast
  qed (use that in simp)
  have "0 \<le> ?i \<and> ?i \<le> ?u \<and> (\<forall>a. 0 \<le> a \<and> a < ?i \<longrightarrow> \<not> ?f a) \<and> (\<forall>a. ?i \<le> a \<and> a < ?u \<longrightarrow> ?f a)"
    by (rule searchBetween_spec [OF le0]) (rule mono)
  then have s: "?i \<le> ?u" "\<And>a. a < ?i \<Longrightarrow> bytesLess (fst (bb_buf bb ! a)) k" "\<And>a. ?i \<le> a \<Longrightarrow> a < ?u \<Longrightarrow> ?f a"
    by blast+
  have r: "bbRange bb k None n = Some (if k = fst (bb_buf bb ! ?i) then [bb_buf bb ! ?i] else [])"
    using s(1) room by (simp add: bbRange_def bb_room_def endBytes_def Let_def)
  note m = used_lookup [OF ok, of k]
  show ?thesis
  proof (cases "?i < ?u")
    case True
    show ?thesis
    proof (cases "k = fst (bb_buf bb ! ?i)")
      case eq: True
      have cell: "bb_buf bb ! ?i = (k, snd (bb_buf bb ! ?i))" unfolding prod_eq_iff using eq by simp
      then have "map_of (bbForEach bb) k = Some (snd (bb_buf bb ! ?i))" using m True by blast
      then show ?thesis unfolding r using eq cell by simp
    next
      case False
      have "map_of (bbForEach bb) k = None"
      proof (rule ccontr)
        assume "map_of (bbForEach bb) k \<noteq> None"
        then obtain a v where a: "a < ?u" "bb_buf bb ! a = (k, v)" using m by auto
        then have "?i < a" using s(2) [of a] False by (cases "?i = a"; cases "a < ?i") simp_all
        then have "bytesLess (fst (bb_buf bb ! ?i)) k" using order [of ?i a] a by simp
        then show False using s(3) [of ?i] True by simp
      qed
      then show ?thesis using r False True by simp
    qed
  next
    case False
    then have i: "?i = ?u" using s(1) by simp
    have "map_of (bbForEach bb) k = None"
    proof (rule ccontr)
      assume "map_of (bbForEach bb) k \<noteq> None"
      then obtain a v where "a < ?u" "bb_buf bb ! a = (k, v)" using m by auto
      then show False using s(2) [of a] i by simp
    qed
    moreover have "k \<noteq> fst (bb_buf bb ! ?i)" if "?u \<noteq> 0"
    proof -
      have "drop ?u (bb_buf bb) = bb_buf bb ! ?u # drop (Suc ?u) (bb_buf bb)"
        using room by (simp add: bb_room_def Cons_nth_drop_Suc)
      then have "bb_buf bb ! ?u \<in> set (drop ?u (bb_buf bb))" by simp
      then have "bytesLess (fst (bb_buf bb ! ?u)) (fst (bb_buf bb ! 0))" using ok that by (simp add: bb_ok_def)
      moreover have "bytesLess (fst (bb_buf bb ! 0)) k" using s(2) [of 0] i that by simp
      ultimately have "bytesLess (fst (bb_buf bb ! ?u)) k" by (rule bytesLess_trans)
      then show ?thesis unfolding i by auto
    qed
    ultimately show ?thesis unfolding r i by (cases "?u = 0") auto
  qed
qed

subsection \<open>The documented behaviour of bolt\<close>

definition validPair :: "string \<Rightarrow> string \<Rightarrow> bool" where
  "validPair k v \<longleftrightarrow> k \<noteq> [] \<and> length k \<le> 32768 \<and> length v \<le> 2 ^ 31 - 2"

definition sorts :: "(pairs \<Rightarrow> pairs) \<Rightarrow> bool" where
  "sorts srt \<longleftrightarrow> (\<forall>ps. mset (srt ps) = mset ps \<and> sorted_wrt (\<lambda>p q. \<not> bytesLess (fst q) (fst p)) (srt ps))"

text \<open>A transaction has buckets, each a list of pairs in the order of their keys. Commits do not fail.\<close>

definition bolt_ok :: "'d boltOps \<Rightarrow> ('d \<Rightarrow> string \<Rightarrow> pairs option) \<Rightarrow> bool" where
  "bolt_ok B items \<longleftrightarrow>
     (\<forall>d b ps. items d b = Some ps \<longrightarrow> asc ps) \<and>
     (\<forall>d b. bolt_hasBucket B d b \<longleftrightarrow> items d b \<noteq> None) \<and>
     (\<forall>d b. b \<noteq> [] \<longrightarrow> (\<exists>d'. bolt_CreateBucket B d b = Some d' \<and>
        items d' = (items d)(b \<mapsto> (case items d b of None \<Rightarrow> [] | Some ps \<Rightarrow> ps)))) \<and>
     (\<forall>d b ps k v. items d b = Some ps \<and> validPair k v \<longrightarrow>
        (\<exists>d'. bolt_Put B d b k v = Some d' \<and> items d' = (items d)(b \<mapsto> putPair (k, v) ps))) \<and>
     (\<forall>d b ps k. items d b = Some ps \<longrightarrow>
        (\<exists>d'. bolt_Delete B d b k = Some d' \<and> items d' = (items d)(b \<mapsto> filter (\<lambda>p. fst p \<noteq> k) ps))) \<and>
     (\<forall>d b ps k. items d b = Some ps \<longrightarrow> bolt_Seek B d b k = dropWhile (\<lambda>p. bytesLess (fst p) k) ps) \<and>
     (\<forall>d b ps. items d b = Some ps \<longrightarrow> bolt_ForEach B d b = ps) \<and>
     (\<forall>d. \<exists>d'. bolt_Commit B d = Some d' \<and> items d' = items d) \<and> sorts (sort_Sort B)"

lemma bolt_okD:
  assumes "bolt_ok B items"
  shows "items d b = Some ps \<Longrightarrow> asc ps"
    and "bolt_hasBucket B d b \<longleftrightarrow> items d b \<noteq> None"
    and "b \<noteq> [] \<Longrightarrow> \<exists>d'. bolt_CreateBucket B d b = Some d' \<and> items d' = (items d)(b \<mapsto> (case items d b of None \<Rightarrow> [] | Some ps \<Rightarrow> ps))"
    and "items d b = Some ps \<Longrightarrow> validPair k v \<Longrightarrow> \<exists>d'. bolt_Put B d b k v = Some d' \<and> items d' = (items d)(b \<mapsto> putPair (k, v) ps)"
    and "items d b = Some ps \<Longrightarrow> \<exists>d'. bolt_Delete B d b k = Some d' \<and> items d' = (items d)(b \<mapsto> filter (\<lambda>p. fst p \<noteq> k) ps)"
    and "items d b = Some ps \<Longrightarrow> bolt_Seek B d b k = dropWhile (\<lambda>p. bytesLess (fst p) k) ps"
    and "items d b = Some ps \<Longrightarrow> bolt_ForEach B d b = ps"
    and "\<exists>d'. bolt_Commit B d = Some d' \<and> items d' = items d"
    and "sorts (sort_Sort B)"
  using assms unfolding bolt_ok_def by simp_all

lemma asc_unique: "asc xs \<Longrightarrow> asc ys \<Longrightarrow> set xs = set ys \<Longrightarrow> xs = ys"
proof (induction xs arbitrary: ys)
  case (Cons x xs)
  obtain y zs where ys: "ys = y # zs" using Cons.prems(3) by (cases ys) auto
  have "x = y"
  proof (rule ccontr)
    assume "x \<noteq> y"
    then have "x \<in> set zs" "y \<in> set xs" using Cons.prems(3) ys by auto
    then show False using Cons.prems(1,2) ys bytesLess_asym by auto
  qed
  moreover have "x \<notin> set xs" "y \<notin> set zs" using Cons.prems(1,2) ys by auto
  ultimately have "set xs = set zs" using Cons.prems(3) ys by auto
  then show ?case using Cons.IH [of zs] Cons.prems(1,2) ys \<open>x = y\<close> by simp
qed simp

lemma sorts_length: "sorts srt \<Longrightarrow> length (srt ps) = length ps"
  unfolding sorts_def by (metis size_mset)

lemma weak_asc: "sorted_wrt (\<lambda>p q. \<not> bytesLess (fst q) (fst p)) ps \<Longrightarrow> distinct (map fst ps) \<Longrightarrow> asc ps"
proof (induction ps)
  case (Cons p ps)
  have "bytesLess (fst p) (fst q)" if "q \<in> set ps" for q
  proof -
    have "fst p \<noteq> fst q" using Cons.prems(2) that by auto
    then show ?thesis using bytesLess_linear [of "fst p" "fst q"] Cons.prems(1) that by auto
  qed
  then show ?case using Cons by simp
qed simp

lemma sorts_asc:
  assumes "sorts srt" and "asc ps"
  shows "srt ps = ps"
proof (rule asc_unique [OF _ assms(2)])
  have m: "mset (srt ps) = mset ps" and w: "sorted_wrt (\<lambda>p q. \<not> bytesLess (fst q) (fst p)) (srt ps)"
    using assms(1) by (simp_all add: sorts_def)
  show "set (srt ps) = set ps" using m by (metis set_mset_mset)
  have "distinct (map fst (srt ps))" using asc_distinct [OF assms(2)] m by (metis mset_eq_imp_distinct_iff mset_map)
  with w show "asc (srt ps)" by (rule weak_asc)
qed

end
