(* ===== verification/BackendReads.thy ===== *)
theory BackendReads
  imports BackendFacts
begin

text \<open>
  The invariant of the backend, for the bucket whose keys are written once and in ascending order: what the
  batching transaction holds of that bucket is what a reader sees. The invariant is kept by every operation
  between transactions and within one.
\<close>

abbreviation keyBucket :: string where
  "keyBucket \<equiv> ''key''"

definition content :: "('d \<Rightarrow> string \<Rightarrow> pairs option) \<Rightarrow> 'd backend \<Rightarrow> string \<Rightarrow> pairs option" where
  "content items be = items (the (be_tx be))"

definition bucketMap :: "pairs option \<Rightarrow> string \<Rightarrow> string option" where
  "bucketMap ps = (case ps of None \<Rightarrow> (\<lambda>_. None) | Some ps \<Rightarrow> map_of ps)"

definition stored :: "('d \<Rightarrow> string \<Rightarrow> pairs option) \<Rightarrow> 'd backend \<Rightarrow> string \<Rightarrow> string option" where
  "stored items be = bucketMap (content items be keyBucket)"

definition snapshotOf :: "('d \<Rightarrow> string \<Rightarrow> pairs option) \<Rightarrow> 'd backend \<Rightarrow> string \<Rightarrow> string option" where
  "snapshotOf items be = bucketMap (items (the (be_readTx be)) keyBucket)"

text \<open>A cell holds nothing, or what the transaction holds unless it has been deleted there.\<close>

definition agrees :: "(string \<Rightarrow> string option) \<Rightarrow> string \<times> string \<Rightarrow> bool" where
  "agrees M p \<longleftrightarrow> fst p = [] \<or> M (fst p) = None \<or> M (fst p) = Some (snd p)"

text \<open>What a reader with buffer \<open>ro\<close> and snapshot \<open>R\<close> can see of \<open>M\<close>, apart from the pairs \<open>W\<close> not yet written back.\<close>

definition sees :: "(string \<Rightarrow> string option) \<Rightarrow> (string \<Rightarrow> string option) \<Rightarrow> bucketBuffer option \<Rightarrow> pairs \<Rightarrow> bool" where
  "sees M R ro W \<longleftrightarrow>
     (\<forall>rb. ro = Some rb \<longrightarrow> bb_ok rb \<and> (\<forall>p \<in> set (bb_buf rb). agrees M p)) \<and>
     (\<forall>k v. M k = Some v \<longrightarrow> (k, v) \<in> set W \<or> (\<exists>rb. ro = Some rb \<and> (k, v) \<in> set (bbForEach rb)) \<or> R k = Some v)"

definition visible :: "(string \<Rightarrow> string option) \<Rightarrow> (string \<Rightarrow> string option) \<Rightarrow> string \<Rightarrow> bucketBuffer option \<Rightarrow> pairs \<Rightarrow> bool" where
  "visible M R lim ro W \<longleftrightarrow> sees M R ro W \<and> (\<forall>rb. ro = Some rb \<longrightarrow> cells_below rb lim)"

definition pendingPairs :: "'d backend \<Rightarrow> pairs" where
  "pendingPairs be = (case map_of (tw_buckets (be_buf be)) keyBucket of None \<Rightarrow> [] | Some wb \<Rightarrow> bbForEach wb)"

definition readBuffer :: "'d backend \<Rightarrow> bucketBuffer option" where
  "readBuffer be = map_of (tr_buckets (be_readBuf be)) keyBucket"

definition roomy :: "buckets \<Rightarrow> bool" where
  "roomy bs \<longleftrightarrow> distinct (map fst bs) \<and> (\<forall>k b. map_of bs k = Some b \<longrightarrow> bb_room b)"

definition be_inv :: "('d \<Rightarrow> string \<Rightarrow> pairs option) \<Rightarrow> string \<Rightarrow> 'd backend \<Rightarrow> bool" where
  "be_inv items lim be \<longleftrightarrow>
     be_tx be \<noteq> None \<and> be_readTx be \<noteq> None \<and> \<not> be_closed be \<and>
     (be_pending be = 0 \<longrightarrow> content items be = items (be_db be) \<and> pendingPairs be = []) \<and>
     roomy (tw_buckets (be_buf be)) \<and> roomy (tr_buckets (be_readBuf be)) \<and>
     (\<forall>wb. map_of (tw_buckets (be_buf be)) keyBucket = Some wb \<longrightarrow>
        bb_ok wb \<and> cells_below wb lim \<and> (\<forall>p \<in> set (bb_buf wb). agrees (stored items be) p)) \<and>
     (\<forall>p \<in> set (pendingPairs be). fst p \<noteq> []) \<and>
     visible (stored items be) (snapshotOf items be) lim (readBuffer be) (pendingPairs be) \<and>
     (\<forall>rb. readBuffer be = Some rb \<longrightarrow> (\<forall>p \<in> set (pendingPairs be). cells_below rb (fst p))) \<and>
     (\<forall>c. be_cacheBuf be = Some c \<longrightarrow> be_cacheVersion be \<le> tr_bufVersion (be_readBuf be) \<and>
        (be_cacheVersion be = tr_bufVersion (be_readBuf be) \<longrightarrow>
           visible (stored items be) (snapshotOf items be) lim (map_of (tr_buckets c) keyBucket) (pendingPairs be))) \<and>
     (\<forall>k. stored items be k \<noteq> None \<longrightarrow> bytesLess k lim)"

lemma be_invD:
  assumes "be_inv items lim be"
  shows "be_tx be \<noteq> None" "be_readTx be \<noteq> None" "\<not> be_closed be"
    "be_pending be = 0 \<Longrightarrow> content items be = items (be_db be) \<and> pendingPairs be = []"
    "roomy (tw_buckets (be_buf be))" "roomy (tr_buckets (be_readBuf be))"
    "map_of (tw_buckets (be_buf be)) keyBucket = Some wb \<Longrightarrow>
        bb_ok wb \<and> cells_below wb lim \<and> (\<forall>p \<in> set (bb_buf wb). agrees (stored items be) p)"
    "\<forall>p \<in> set (pendingPairs be). fst p \<noteq> []"
    "visible (stored items be) (snapshotOf items be) lim (readBuffer be) (pendingPairs be)"
    "readBuffer be = Some rb \<Longrightarrow> \<forall>p \<in> set (pendingPairs be). cells_below rb (fst p)"
    "be_cacheBuf be = Some c \<Longrightarrow> be_cacheVersion be \<le> tr_bufVersion (be_readBuf be) \<and>
        (be_cacheVersion be = tr_bufVersion (be_readBuf be) \<longrightarrow>
           visible (stored items be) (snapshotOf items be) lim (map_of (tr_buckets c) keyBucket) (pendingPairs be))"
    "stored items be k \<noteq> None \<Longrightarrow> bytesLess k lim"
  using assms unfolding be_inv_def by simp_all

subsection \<open>Reading\<close>

lemma read_sees:
  assumes B: "bolt_ok B items" and s: "sees M (bucketMap (items d keyBucket)) (map_of (tr_buckets (rt_buf rt)) keyBucket) []"
    and "rt_tx rt = Some d" and M: "M k = Some v" and k: "k \<noteq> []"
  shows "readRange B rt keyBucket k None 0 = Some [(k, v)]"
proof -
  let ?ro = "map_of (tr_buckets (rt_buf rt)) keyBucket"
  have buf: "trRange (rt_buf rt) keyBucket k None 1 = Some [(k, v)] \<or>
      trRange (rt_buf rt) keyBucket k None 1 = Some [] \<and> bucketMap (items d keyBucket) k = Some v"
  proof (cases ?ro)
    case None
    then show ?thesis using s M by (auto simp: trRange_def sees_def)
  next
    case (Some rb)
    then have rb: "bb_ok rb" "\<forall>p \<in> set (bb_buf rb). agrees M p" using s by (simp_all add: sees_def)
    have r: "trRange (rt_buf rt) keyBucket k None 1 = bbRange rb k None 1" using Some by (simp add: trRange_def)
    have ag: "w = v" if "(k, w) \<in> set (bb_buf rb)" for w using rb(2) that M k by (force simp: agrees_def)
    show ?thesis
    proof (cases "map_of (bbForEach rb) k")
      case (Some w)
      then have "(k, w) \<in> set (bb_buf rb)" using map_of_SomeD bbForEach_sub by fastforce
      then show ?thesis using ag r Some bbRange_key [OF rb(1), of k 1] by simp
    next
      case none: None
      show ?thesis
      proof (cases "bb_used rb = 0 \<and> fst (bb_buf rb ! 0) = k")
        case True
        have "bb_buf rb ! 0 \<in> set (bb_buf rb)" using rb(1) by (intro nth_mem) (auto simp: bb_ok_def bb_room_def)
        then have "bb_buf rb ! 0 = (k, v)" using ag True by (metis prod.collapse)
        then show ?thesis using r none True bbRange_key [OF rb(1), of k 1] by simp
      next
        case False
        have "(k, v) \<notin> set (bbForEach rb)" using none by (metis map_of_eq_None_iff fst_conv imageI)
        then have "bucketMap (items d keyBucket) k = Some v" using s M Some by (auto simp: sees_def)
        moreover have "bbRange rb k None 1 = Some []" using none False bbRange_key [OF rb(1), of k 1] by auto
        ultimately show ?thesis using r by simp
      qed
    qed
  qed
  have bolt: "unsafeRange B d keyBucket k None 1 = [(k, v)] \<and> bolt_hasBucket B d keyBucket" if m: "bucketMap (items d keyBucket) k = Some v"
  proof -
    obtain ps where ps: "items d keyBucket = Some ps" "map_of ps k = Some v" using m by (cases "items d keyBucket") (auto simp: bucketMap_def)
    then show ?thesis using at_key [OF bolt_okD(1) [OF B ps(1)], of k] bolt_okD(2,6) [OF B]
      by (simp add: unsafeRange_def endBytes_def)
  qed
  show ?thesis using buf bolt assms(3) by (auto simp: readRange_def Let_def)
qed

lemma UnsafeRange_key:
  assumes B: "bolt_ok B items" and "be_tx be \<noteq> None" "\<not> be_closed be" and "content items be b = Some ps"
  shows "UnsafeRange B be b k None n = Some (case map_of ps k of None \<Rightarrow> [] | Some v \<Rightarrow> [(k, v)])"
  using assms(2-) at_key [OF bolt_okD(1) [OF B], of _ b ps k] bolt_okD(2,6) [OF B]
  by (auto simp: UnsafeRange_def liveTx_def content_def unsafeRange_def endBytes_def)

lemma UnsafeRange_bounds:
  assumes B: "bolt_ok B items" and "be_tx be \<noteq> None" "\<not> be_closed be" and "content items be b = Some ps" and "en \<noteq> []" "0 < n"
  shows "UnsafeRange B be b k (Some en) n = Some (take (nat n) (filter (\<lambda>p. \<not> bytesLess (fst p) k \<and> bytesLess (fst p) en) ps))"
  using assms(2-) in_bounds [OF bolt_okD(1) [OF B], of _ b ps en k] bolt_okD(2,6) [OF B]
  by (auto simp: UnsafeRange_def liveTx_def content_def unsafeRange_def endBytes_def)

subsection \<open>Buckets of buffers\<close>

lemma roomy_update: "roomy bs \<Longrightarrow> bb_room b \<Longrightarrow> roomy (AList.update k b bs)"
  by (auto simp: roomy_def distinct_update update_conv')

lemma roomy_delete: "roomy bs \<Longrightarrow> roomy (AList.delete k bs)"
  by (auto simp: roomy_def distinct_delete delete_conv' split: if_splits)

lemma map_of_bufReset:
  assumes "distinct (map fst bs)"
  shows "map_of (bufReset bs) k = (case map_of bs k of None \<Rightarrow> None
    | Some b \<Rightarrow> if bb_used b = 0 then None else Some (b\<lparr>bb_used := 0\<rparr>))"
  using assms
proof (induction bs)
  case (Cons x bs)
  obtain j b where x: "x = (j, b)" by (rule prod.exhaust)
  have "map_of bs j = None" using Cons.prems x by (simp add: map_of_eq_None_iff)
  then show ?case using Cons x by (auto simp: bufReset_def)
qed (simp add: bufReset_def)

lemma bufReset_keys: "fst ` set (bufReset bs) \<subseteq> fst ` set bs"
  by (induction bs) (auto simp: bufReset_def)

lemma distinct_bufReset: "distinct (map fst bs) \<Longrightarrow> distinct (map fst (bufReset bs))"
proof (induction bs)
  case (Cons x bs)
  then have "fst x \<notin> fst ` set (bufReset bs)" "distinct (map fst (bufReset bs))" using bufReset_keys [of bs] by auto
  moreover have "bufReset (x # bs) = (if bb_used (snd x) = 0 then bufReset bs else (fst x, (snd x)\<lparr>bb_used := 0\<rparr>) # bufReset bs)"
    by (cases x) (simp add: bufReset_def)
  ultimately show ?case by simp
qed (simp add: bufReset_def)

lemma roomy_reset: "roomy bs \<Longrightarrow> roomy (bufReset bs)"
  using distinct_bufReset [of bs] map_of_bufReset [of bs]
  by (fastforce simp: roomy_def bb_room_def split: option.splits if_splits)

lemma reset_ok: "bb_ok b \<Longrightarrow> bb_ok (b\<lparr>bb_used := 0\<rparr>)" "bbForEach (b\<lparr>bb_used := 0\<rparr>) = []"
  by (auto simp: bb_ok_def bb_room_def bbForEach_def)

text \<open>\<open>writeback\<close>: a bucket that has no read buffer becomes one as it is; the others are merged.\<close>

definition mergedWith :: "(pairs \<Rightarrow> pairs) \<Rightarrow> bool \<Rightarrow> bucketBuffer option \<Rightarrow> bucketBuffer \<Rightarrow> bucketBuffer option" where
  "mergedWith srt seq ro wb =
     (case ro of None \<Rightarrow> Some wb | Some rb \<Rightarrow> bbMerge rb (if \<not> seq \<and> bb_used wb > 1 then sortUsed srt wb else wb))"

definition leftIn :: "(pairs \<Rightarrow> pairs) \<Rightarrow> bool \<Rightarrow> bucketBuffer option \<Rightarrow> bucketBuffer \<Rightarrow> bucketBuffer option" where
  "leftIn srt seq ro wb =
     (case ro of None \<Rightarrow> None | Some rb \<Rightarrow> Some (if \<not> seq \<and> bb_used wb > 1 then sortUsed srt wb else wb))"

lemma writebackBucket_step:
  assumes "\<And>ps. length (srt ps) = length ps" and "roomy w" "roomy r" and "bb_room wb"
  shows "\<exists>w' r'. writebackBucket srt seq (w, r) (k, wb) = Some (w', r') \<and> roomy w' \<and> roomy r' \<and>
    map_of w' = (map_of w)(k := leftIn srt seq (map_of r k) wb) \<and>
    map_of r' = (map_of r)(k := mergedWith srt seq (map_of r k) wb)"
proof (cases "map_of r k")
  case None
  then show ?thesis using assms roomy_delete roomy_update
    by (simp add: writebackBucket_def leftIn_def mergedWith_def delete_conv' update_conv')
next
  case (Some rb)
  let ?wb = "if \<not> seq \<and> bb_used wb > 1 then sortUsed srt wb else wb"
  have "bb_room ?wb" using assms(1,4) bb_room_sortUsed by simp
  moreover have "bb_room rb" using assms(3) Some by (simp add: roomy_def)
  ultimately obtain rb' where "bbMerge rb ?wb = Some rb'" "bb_room rb'" using bbMerge_room by blast
  then show ?thesis using assms(2,3) Some \<open>bb_room ?wb\<close> roomy_update
    by (simp add: writebackBucket_def leftIn_def mergedWith_def update_conv' Let_def)
qed

lemma writeback_buckets:
  assumes "\<And>ps. length (srt ps) = length ps" and "roomy w" "roomy r" and "distinct (map fst L)" and "\<forall>x \<in> set L. bb_room (snd x)"
  shows "\<exists>w' r'. foldM (writebackBucket srt seq) (w, r) L = Some (w', r') \<and> roomy w' \<and> roomy r' \<and>
    (\<forall>k. case map_of L k of
       None \<Rightarrow> map_of w' k = map_of w k \<and> map_of r' k = map_of r k
     | Some wb \<Rightarrow> map_of w' k = leftIn srt seq (map_of r k) wb \<and> map_of r' k = mergedWith srt seq (map_of r k) wb)"
  using assms(2-)
proof (induction L arbitrary: w r)
  case (Cons x L)
  obtain k wb where x: "x = (k, wb)" by (rule prod.exhaust)
  have room: "bb_room wb" using Cons.prems(4) x by simp
  obtain w1 r1 where 1: "writebackBucket srt seq (w, r) (k, wb) = Some (w1, r1)" "roomy w1" "roomy r1"
    "map_of w1 = (map_of w)(k := leftIn srt seq (map_of r k) wb)" "map_of r1 = (map_of r)(k := mergedWith srt seq (map_of r k) wb)"
    using writebackBucket_step [OF assms(1) Cons.prems(1,2) room] by blast
  obtain w' r' where 2: "foldM (writebackBucket srt seq) (w1, r1) L = Some (w', r')" "roomy w'" "roomy r'"
    "\<forall>k. case map_of L k of None \<Rightarrow> map_of w' k = map_of w1 k \<and> map_of r' k = map_of r1 k
     | Some wb \<Rightarrow> map_of w' k = leftIn srt seq (map_of r1 k) wb \<and> map_of r' k = mergedWith srt seq (map_of r1 k) wb"
    using Cons.IH [OF 1(2,3)] Cons.prems(3,4) by auto
  have none: "map_of L k = None" using Cons.prems(3) x by (simp add: map_of_eq_None_iff)
  have "foldM (writebackBucket srt seq) (w, r) (x # L) = Some (w', r')" unfolding x using 1(1) 2(1) by simp
  moreover have "case map_of (x # L) j of None \<Rightarrow> map_of w' j = map_of w j \<and> map_of r' j = map_of r j
     | Some wb \<Rightarrow> map_of w' j = leftIn srt seq (map_of r j) wb \<and> map_of r' j = mergedWith srt seq (map_of r j) wb" for j
    using 2(4) [rule_format, of j] 1(4,5) none x by (cases "j = k"; cases "map_of L j") simp_all
  ultimately show ?case using 2(2,3) by blast
qed auto

subsection \<open>Writing\<close>

lemma cells_below_less: "cells_below bb k \<Longrightarrow> bytesLess k k' \<Longrightarrow> cells_below bb k'"
  using bytesLess_trans by (auto simp: cells_below_def)

lemma agrees_put: "agrees M p \<Longrightarrow> bytesLess (fst p) k \<Longrightarrow> agrees (M(k \<mapsto> v)) p"
  by (auto simp: agrees_def)

lemma agrees_delete: "agrees M p \<Longrightarrow> agrees (M(k := None)) p"
  by (auto simp: agrees_def)

lemma sees_put:
  assumes "sees M R ro W" and "\<forall>rb. ro = Some rb \<longrightarrow> cells_below rb k"
  shows "sees (M(k \<mapsto> v)) R ro (W @ [(k, v)])"
  using assms agrees_put unfolding sees_def cells_below_def by auto

lemma sees_delete: "sees M R ro W \<Longrightarrow> sees (M(k := None)) R ro W"
  unfolding sees_def using agrees_delete by auto

lemma visible_put:
  "visible M R k ro W \<Longrightarrow> bytesLess k lim \<Longrightarrow> visible (M(k \<mapsto> v)) R lim ro (W @ [(k, v)])"
  unfolding visible_def using sees_put cells_below_less by blast

lemma visible_delete: "visible M R lim ro W \<Longrightarrow> visible (M(k := None)) R lim ro W"
  unfolding visible_def using sees_delete by blast

text \<open>The pair that \<open>UnsafeSeqPut\<close> writes to the bucket of revisions.\<close>

lemma UnsafeSeqPut_inv:
  assumes B: "bolt_ok B items" and inv: "be_inv items k be" and v: "validPair k v" and less: "bytesLess k lim"
    and ps: "content items be keyBucket = Some ps"
  shows "\<exists>be'. UnsafeSeqPut B be keyBucket k v = Some be' \<and> be_inv items lim be' \<and>
    content items be' = (content items be)(keyBucket \<mapsto> putPair (k, v) ps) \<and>
    tr_bufVersion (be_readBuf be') = tr_bufVersion (be_readBuf be)"
proof -
  note I = be_invD [OF inv]
  let ?M = "stored items be"
  obtain d where d: "be_tx be = Some d" using I(1) by blast
  have "items d keyBucket = Some ps" using ps d by (simp add: content_def)
  with bolt_okD(4) [OF B _ v] obtain d1 where d1: "bolt_Put B d keyBucket k v = Some d1"
    "items d1 = (items d)(keyBucket \<mapsto> putPair (k, v) ps)" by blast
  define b where "b = (case map_of (tw_buckets (be_buf be)) keyBucket of None \<Rightarrow> newBucketBuffer | Some b \<Rightarrow> b)"
  have k: "k \<noteq> []" using v by (simp add: validPair_def)
  have b: "bb_ok b" "cells_below b k" "\<forall>p \<in> set (bb_buf b). agrees ?M p" "bbForEach b = pendingPairs be"
    using I(7) newBucketBuffer_ok k
    by (auto simp: b_def pendingPairs_def agrees_def newBucketBuffer_def split: option.splits)
  obtain b1 where b1: "bbAdd b (k, v) = Some b1" "bb_ok b1" "bbForEach b1 = bbForEach b @ [(k, v)]"
    "set (bb_buf b1) \<subseteq> insert (k, v) (set (bb_buf b)) \<union> {([], [])}"
    using bbAdd_ok [OF b(1), of "(k, v)"] b(2) k by auto
  let ?w = "(be_buf be)\<lparr>tw_buckets := AList.update keyBucket b1 (tw_buckets (be_buf be))\<rparr>"
  let ?be = "be\<lparr>be_tx := Some d1, be_pending := be_pending be + 1, be_buf := ?w\<rparr>"
  have "unsafePut B be keyBucket k v = Some (be\<lparr>be_tx := Some d1, be_pending := be_pending be + 1\<rparr>)"
    using d d1(1) I(3) bolt_okD(2) [OF B] \<open>items d keyBucket = Some ps\<close> by (simp add: unsafePut_def liveTx_def)
  then have put: "UnsafeSeqPut B be keyBucket k v = Some ?be"
    using b1(1) by (simp add: UnsafeSeqPut_def putSeq_def Let_def flip: b_def)
  have c: "content items ?be = (content items be)(keyBucket \<mapsto> putPair (k, v) ps)" unfolding content_def using d d1(2) by (simp add: fun_eq_iff)
  have M: "stored items ?be = ?M(k \<mapsto> v)"
    using c ps by (simp add: stored_def bucketMap_def map_of_putPair fun_eq_iff)
  have W: "pendingPairs ?be = pendingPairs be @ [(k, v)]" using b1(3) b(4) by (simp add: pendingPairs_def update_conv')
  have R: "snapshotOf items ?be = snapshotOf items be" "readBuffer ?be = readBuffer be" by (simp_all add: snapshotOf_def readBuffer_def)
  have lim: "lim \<noteq> []" using less by auto
  have cells: "cells_below b1 lim" using b1(4) b(2) less lim bytesLess_trans unfolding cells_below_def by fastforce
  have ag: "\<forall>p \<in> set (bb_buf b1). agrees (?M(k \<mapsto> v)) p"
    using b1(4) b(2,3) agrees_put unfolding cells_below_def by (fastforce simp: agrees_def)
  have keys: "bytesLess j lim" if "(?M(k \<mapsto> v)) j \<noteq> None" for j
    using that I(12) [of j] less bytesLess_trans by (auto split: if_splits)
  have below: "\<forall>rb. readBuffer be = Some rb \<longrightarrow> (\<forall>p \<in> set (pendingPairs be @ [(k, v)]). cells_below rb (fst p))"
    using I(9,10) by (auto simp: visible_def)
  have cache: "\<forall>c. be_cacheBuf be = Some c \<longrightarrow> be_cacheVersion be \<le> tr_bufVersion (be_readBuf be) \<and>
      (be_cacheVersion be = tr_bufVersion (be_readBuf be) \<longrightarrow>
        visible (?M(k \<mapsto> v)) (snapshotOf items be) lim (map_of (tr_buckets c) keyBucket) (pendingPairs be @ [(k, v)]))"
    using I(11) visible_put [OF _ less] by blast
  have "be_inv items lim ?be"
    unfolding be_inv_def M W R
    using I(2,3,5,6,8) b1(2) k cells ag keys below cache visible_put [OF I(9) less] roomy_update [OF I(5), of b1 keyBucket]
    by (simp add: update_conv' bb_ok_def)
  then show ?thesis using put c by (intro exI [of _ ?be]) simp
qed

text \<open>Writes to other buckets, and deletions.\<close>

lemma UnsafePut_inv:
  assumes B: "bolt_ok B items" and inv: "be_inv items lim be" and v: "validPair k v"
    and ps: "content items be b = Some ps" and b: "b \<noteq> keyBucket"
  shows "\<exists>be'. UnsafePut B be b k v = Some be' \<and> be_inv items lim be' \<and>
    content items be' = (content items be)(b \<mapsto> putPair (k, v) ps) \<and>
    tr_bufVersion (be_readBuf be') = tr_bufVersion (be_readBuf be)"
proof -
  note I = be_invD [OF inv]
  obtain d where d: "be_tx be = Some d" using I(1) by blast
  have d_ps: "items d b = Some ps" using ps d by (simp add: content_def)
  with bolt_okD(4) [OF B _ v] obtain d1 where d1: "bolt_Put B d b k v = Some d1"
    "items d1 = (items d)(b \<mapsto> putPair (k, v) ps)" by blast
  define bb where "bb = (case map_of (tw_buckets (be_buf be)) b of None \<Rightarrow> newBucketBuffer | Some b \<Rightarrow> b)"
  have "bb_room bb" using I(5) newBucketBuffer_ok(1) by (auto simp: bb_def roomy_def bb_ok_def split: option.splits)
  then obtain b1 where b1: "bbAdd bb (k, v) = Some b1" "bb_room b1" using bbAdd_all by blast
  let ?w = "(be_buf be)\<lparr>tw_seq := False, tw_buckets := AList.update b b1 (tw_buckets (be_buf be))\<rparr>"
  let ?be = "be\<lparr>be_tx := Some d1, be_pending := be_pending be + 1, be_buf := ?w\<rparr>"
  have "unsafePut B be b k v = Some (be\<lparr>be_tx := Some d1, be_pending := be_pending be + 1\<rparr>)"
    using d d1(1) I(3) bolt_okD(2) [OF B] d_ps by (simp add: unsafePut_def liveTx_def)
  then have put: "UnsafePut B be b k v = Some ?be"
    using b1(1) by (simp add: UnsafePut_def bufPut_def putSeq_def Let_def flip: bb_def)
  have c: "content items ?be = (content items be)(b \<mapsto> putPair (k, v) ps)"
    unfolding content_def using d d1(2) by (simp add: fun_eq_iff)
  have M: "stored items ?be = stored items be" using c b by (simp add: stored_def)
  have W: "pendingPairs ?be = pendingPairs be" using b by (simp add: pendingPairs_def update_conv')
  have R: "snapshotOf items ?be = snapshotOf items be" "readBuffer ?be = readBuffer be" by (simp_all add: snapshotOf_def readBuffer_def)
  have "be_inv items lim ?be"
    unfolding be_inv_def M W R
    using I(2,3,5-12) b roomy_update [OF I(5) b1(2)] by (simp add: update_conv')
  then show ?thesis using put c by (intro exI [of _ ?be]) simp
qed

lemma UnsafeDelete_inv:
  assumes B: "bolt_ok B items" and inv: "be_inv items lim be" and ps: "content items be b = Some ps"
  shows "\<exists>be'. UnsafeDelete B be b k = Some be' \<and> be_inv items lim be' \<and>
    content items be' = (content items be)(b \<mapsto> filter (\<lambda>p. fst p \<noteq> k) ps) \<and>
    tr_bufVersion (be_readBuf be') = tr_bufVersion (be_readBuf be) \<and> pendingPairs be' = pendingPairs be"
proof -
  note I = be_invD [OF inv]
  obtain d where d: "be_tx be = Some d" using I(1) by blast
  have d_ps: "items d b = Some ps" using ps d by (simp add: content_def)
  with bolt_okD(5) [OF B] obtain d1 where d1: "bolt_Delete B d b k = Some d1"
    "items d1 = (items d)(b \<mapsto> filter (\<lambda>p. fst p \<noteq> k) ps)" by blast
  let ?be = "be\<lparr>be_tx := Some d1, be_pending := be_pending be + 1\<rparr>"
  have del: "UnsafeDelete B be b k = Some ?be"
    using d d1(1) I(3) bolt_okD(2) [OF B] d_ps by (simp add: UnsafeDelete_def liveTx_def)
  have c: "content items ?be = (content items be)(b \<mapsto> filter (\<lambda>p. fst p \<noteq> k) ps)"
    unfolding content_def using d d1(2) by (simp add: fun_eq_iff)
  have m: "map_of (filter (\<lambda>p. fst p \<noteq> k) ps) = (map_of ps)(k := None)"
  proof
    fix j show "map_of (filter (\<lambda>p. fst p \<noteq> k) ps) j = ((map_of ps)(k := None)) j" by (induction ps) auto
  qed
  have M: "stored items ?be = (if b = keyBucket then (stored items be)(k := None) else stored items be)"
    using c ps m by (cases "b = keyBucket") (simp_all add: stored_def bucketMap_def)
  have W: "pendingPairs ?be = pendingPairs be" by (simp add: pendingPairs_def)
  have R: "snapshotOf items ?be = snapshotOf items be" "readBuffer ?be = readBuffer be" by (simp_all add: snapshotOf_def readBuffer_def)
  have "be_inv items lim ?be"
  proof (cases "b = keyBucket")
    case True
    have "\<forall>wb. map_of (tw_buckets (be_buf be)) keyBucket = Some wb \<longrightarrow>
        bb_ok wb \<and> cells_below wb lim \<and> (\<forall>p \<in> set (bb_buf wb). agrees ((stored items be)(k := None)) p)"
      using I(7) agrees_delete by blast
    moreover have "\<forall>c. be_cacheBuf be = Some c \<longrightarrow> be_cacheVersion be \<le> tr_bufVersion (be_readBuf be) \<and>
      (be_cacheVersion be = tr_bufVersion (be_readBuf be) \<longrightarrow>
        visible ((stored items be)(k := None)) (snapshotOf items be) lim (map_of (tr_buckets c) keyBucket) (pendingPairs be))"
      using I(11) visible_delete by blast
    ultimately show ?thesis
      unfolding be_inv_def M W R using True I(2,3,5,6,8,10,12) visible_delete [OF I(9)] by simp
  next
    case False
    then show ?thesis unfolding be_inv_def M W R using I(2,3,5-12) by simp
  qed
  then show ?thesis using del c W by (intro exI [of _ ?be]) simp
qed

lemma UnsafeCreateBucket_inv:
  assumes B: "bolt_ok B items" and inv: "be_inv items lim be" and b: "b \<noteq> []"
  shows "\<exists>be'. UnsafeCreateBucket B be b = Some be' \<and> be_inv items lim be' \<and>
    content items be' = (content items be)(b \<mapsto> (case content items be b of None \<Rightarrow> [] | Some ps \<Rightarrow> ps)) \<and>
    tr_bufVersion (be_readBuf be') = tr_bufVersion (be_readBuf be)"
proof -
  note I = be_invD [OF inv]
  obtain d where d: "be_tx be = Some d" using I(1) by blast
  with bolt_okD(3) [OF B b] obtain d1 where d1: "bolt_CreateBucket B d b = Some d1"
    "items d1 = (items d)(b \<mapsto> (case items d b of None \<Rightarrow> [] | Some ps \<Rightarrow> ps))" by blast
  let ?be = "be\<lparr>be_tx := Some d1, be_pending := be_pending be + 1\<rparr>"
  have cr: "UnsafeCreateBucket B be b = Some ?be" using d d1(1) I(3) by (simp add: UnsafeCreateBucket_def liveTx_def)
  have c: "content items ?be = (content items be)(b \<mapsto> (case content items be b of None \<Rightarrow> [] | Some ps \<Rightarrow> ps))"
    unfolding content_def using d d1(2) by (simp add: fun_eq_iff)
  have M: "stored items ?be = stored items be"
    using c by (cases "b = keyBucket"; cases "content items be keyBucket") (simp_all add: stored_def bucketMap_def fun_eq_iff)
  have W: "pendingPairs ?be = pendingPairs be" by (simp add: pendingPairs_def)
  have R: "snapshotOf items ?be = snapshotOf items be" "readBuffer ?be = readBuffer be" by (simp_all add: snapshotOf_def readBuffer_def)
  have "be_inv items lim ?be" unfolding be_inv_def M W R using I(2,3,5-12) by simp
  then show ?thesis using cr c by (intro exI [of _ ?be]) simp
qed

subsection \<open>The end of a transaction\<close>

text \<open>The read buffer and the write buffer of the bucket after \<open>writeback\<close>.\<close>

lemma writeback_visible:
  assumes srt: "sorts srt" and V: "visible M R lim ro (bbForEach wb)" and wb: "bb_ok wb" "cells_below wb lim"
    "\<forall>p \<in> set (bb_buf wb). agrees M p" "\<forall>p \<in> set (bbForEach wb). fst p \<noteq> []"
    and below: "\<forall>rb. ro = Some rb \<longrightarrow> (\<forall>p \<in> set (bbForEach wb). cells_below rb (fst p))" and lim: "lim \<noteq> []"
  shows "\<exists>rb. mergedWith srt seq ro wb = Some rb \<and> visible M R lim (Some rb) [] \<and>
    (\<forall>x. leftIn srt seq ro wb = Some x \<longrightarrow> x = wb)"
proof (cases ro)
  case None
  then show ?thesis using V wb by (simp add: mergedWith_def leftIn_def visible_def sees_def)
next
  case (Some rb)
  have "asc (bbForEach wb)" using wb(1) by (simp add: bb_ok_def)
  then have id: "sortUsed srt wb = wb" using sortUsed_id sorts_asc [OF srt] by blast
  have rb: "bb_ok rb" "\<forall>p \<in> set (bb_buf rb). agrees M p" "cells_below rb lim" using V Some by (simp_all add: visible_def sees_def)
  have "\<forall>p \<in> set (bbForEach wb). cells_below rb (fst p) \<and> fst p \<noteq> []" using below wb(4) Some by simp
  from bbMerge_ok [OF rb(1) wb(1) this] obtain r1 where r1: "bbMerge rb wb = Some r1" "bb_ok r1"
    "bbForEach r1 = bbForEach rb @ bbForEach wb" "set (bb_buf r1) \<subseteq> set (bbForEach wb) \<union> set (bb_buf rb) \<union> {([], [])}" by blast
  have "set (bb_buf r1) \<subseteq> set (bb_buf wb) \<union> set (bb_buf rb) \<union> {([], [])}" using r1(4) bbForEach_sub [of wb] by blast
  then have "\<forall>p \<in> set (bb_buf r1). agrees M p" "cells_below r1 lim"
    using rb(2,3) wb(2,3) lim unfolding cells_below_def by (fastforce simp: agrees_def)+
  then have "visible M R lim (Some r1) []" using r1(2,3) V Some by (auto simp: visible_def sees_def)
  then show ?thesis using r1(1) id Some by (simp add: mergedWith_def leftIn_def)
qed

lemma writeback_inv:
  assumes srt: "sorts srt" and inv: "be_inv items lim be" and ver: "tr_bufVersion (be_readBuf be) < MaxUint64" and lim: "lim \<noteq> []"
  shows "\<exists>w r. writeback srt (be_buf be) (be_readBuf be) = Some (w, r) \<and>
    (let be' = be\<lparr>be_buf := w, be_readBuf := r\<rparr> in be_inv items lim be' \<and> pendingPairs be' = []) \<and>
    tr_bufVersion r = tr_bufVersion (be_readBuf be) + 1"
proof -
  note I = be_invD [OF inv]
  let ?tw = "tw_buckets (be_buf be)" and ?tr = "tr_buckets (be_readBuf be)" and ?seq = "tw_seq (be_buf be)"
  have dist: "distinct (map fst ?tw)" using I(5) by (simp add: roomy_def)
  then have rooms: "\<forall>x \<in> set ?tw. bb_room (snd x)" using I(5) by (auto simp: roomy_def)
  obtain w r where wr: "foldM (writebackBucket srt ?seq) (?tw, ?tr) ?tw = Some (w, r)" "roomy w" "roomy r"
    "\<forall>k. case map_of ?tw k of None \<Rightarrow> map_of w k = map_of ?tw k \<and> map_of r k = map_of ?tr k
     | Some wb \<Rightarrow> map_of w k = leftIn srt ?seq (map_of ?tr k) wb \<and> map_of r k = mergedWith srt ?seq (map_of ?tr k) wb"
    using writeback_buckets [OF sorts_length [OF srt] I(5,6) dist rooms, of ?seq] by blast
  let ?w = "(be_buf be)\<lparr>tw_buckets := bufReset w\<rparr>" and ?r = "\<lparr>tr_buckets = r, tr_bufVersion = tr_bufVersion (be_readBuf be) + 1\<rparr>"
  let ?be = "be\<lparr>be_buf := ?w, be_readBuf := ?r\<rparr>"
  have wb: "writeback srt (be_buf be) (be_readBuf be) = Some (?w, ?r)"
    using wr(1) ver by (simp add: writeback_def add64_def MaxUint64_def)
  have d: "distinct (map fst w)" using wr(2) by (simp add: roomy_def)
  have key: "visible (stored items be) (snapshotOf items be) lim (map_of r keyBucket) [] \<and>
    (\<forall>x. map_of w keyBucket = Some x \<longrightarrow> bb_ok x \<and> cells_below x lim \<and> (\<forall>p \<in> set (bb_buf x). agrees (stored items be) p))"
  proof (cases "map_of ?tw keyBucket")
    case None
    then show ?thesis using wr(4) [rule_format, of keyBucket] I(9) by (simp add: pendingPairs_def readBuffer_def)
  next
    case (Some x)
    then have p: "pendingPairs be = bbForEach x" by (simp add: pendingPairs_def)
    note x = I(7) [OF Some]
    have "visible (stored items be) (snapshotOf items be) lim (map_of ?tr keyBucket) (bbForEach x)"
      using I(9) by (simp add: p readBuffer_def)
    from writeback_visible [OF srt this _ _ _ _ _ lim, of ?seq] x I(8,10) show ?thesis
      using wr(4) [rule_format, of keyBucket] Some unfolding p readBuffer_def by auto
  qed
  have reset: "bb_ok y \<and> cells_below y lim \<and> (\<forall>p \<in> set (bb_buf y). agrees (stored items be) p) \<and> bbForEach y = []"
    if "map_of (bufReset w) keyBucket = Some y" for y
    using that map_of_bufReset [OF d, of keyBucket] key reset_ok
    by (auto simp: cells_below_def split: option.splits if_splits)
  then have W: "pendingPairs ?be = []" by (auto simp: pendingPairs_def split: option.splits)
  have same: "content items ?be = content items be" "stored items ?be = stored items be" "snapshotOf items ?be = snapshotOf items be"
    "readBuffer ?be = map_of r keyBucket" by (simp_all add: content_def stored_def snapshotOf_def readBuffer_def)
  have cache: "\<forall>c. be_cacheBuf be = Some c \<longrightarrow> be_cacheVersion be \<le> tr_bufVersion (be_readBuf be)" using I(11) by blast
  have "be_inv items lim ?be"
    unfolding be_inv_def W same
    using I(1-4,12) wr(3) roomy_reset [OF wr(2)] key reset cache by (auto simp: visible_def)
  then show ?thesis using wb W by (intro exI [of _ ?w] exI [of _ ?r]) simp
qed

text \<open>A commit makes the content durable and the snapshot of the readers.\<close>

lemma visible_committed: "visible M R lim ro [] \<Longrightarrow> visible M M lim ro []"
  unfolding visible_def sees_def by simp

lemma unsafeCommit_inv:
  assumes B: "bolt_ok B items" and inv: "be_inv items lim be" and W: "pendingPairs be = []"
  shows "\<exists>be'. unsafeCommit B False be = Some be' \<and> be_inv items lim be' \<and> pendingPairs be' = [] \<and>
    content items be' = content items be \<and> items (be_db be') = content items be \<and> be_pending be' = 0 \<and>
    tr_bufVersion (be_readBuf be') = tr_bufVersion (be_readBuf be)"
proof -
  note I = be_invD [OF inv]
  obtain d where d: "be_tx be = Some d" using I(1) by blast
  obtain d1 where d1: "bolt_Commit B d = Some d1" "items d1 = items d" using bolt_okD(8) [OF B] by blast
  define be1 where "be1 = readReset be"
  define db where "db = (if be_pending be = 0 then be_db be else d1)"
  define tx where "tx = (if be_pending be = 0 then d else d1)"
  define be' where "be' = be1\<lparr>be_db := db, be_tx := Some tx, be_pending := 0, be_readTx := Some db,
    be_commits := be_commits be + (if be_pending be = 0 then 0 else 1)\<rparr>"
  have "batchCommit B False be1 = Some (be1\<lparr>be_db := db, be_tx := Some tx, be_pending := 0,
      be_commits := be_commits be + (if be_pending be = 0 then 0 else 1)\<rparr>)"
    using d d1 I(3) by (auto simp: batchCommit_def be1_def readReset_def db_def tx_def beginTx_def Let_def)
  then have commit: "unsafeCommit B False be = Some be'"
    using I(2) by (simp add: unsafeCommit_def be1_def be'_def beginTx_def)
  have db: "items db = content items be" "items tx = content items be"
    using I(4) d d1(2) by (auto simp: db_def tx_def content_def)
  have "content items be' = items tx" unfolding content_def be'_def by simp
  then have c: "content items be' = content items be" using db(2) by simp
  have same: "stored items be' = stored items be" "snapshotOf items be' = stored items be"
    using c db by (simp_all add: stored_def snapshotOf_def be'_def)
  have P: "pendingPairs be' = []" using W by (simp add: pendingPairs_def be'_def be1_def readReset_def)
  have ro: "readBuffer be' = map_of (bufReset (tr_buckets (be_readBuf be))) keyBucket"
    by (simp add: readBuffer_def be'_def be1_def readReset_def)
  have dist: "distinct (map fst (tr_buckets (be_readBuf be)))" using I(6) by (simp add: roomy_def)
  have vis: "visible (stored items be) (stored items be) lim (readBuffer be') []"
    using I(9) reset_ok map_of_bufReset [OF dist, of keyBucket] unfolding W ro
    by (auto simp: visible_def sees_def readBuffer_def cells_below_def split: option.splits if_splits)
  have cache: "\<forall>c. be_cacheBuf be = Some c \<longrightarrow> be_cacheVersion be \<le> tr_bufVersion (be_readBuf be) \<and>
      (be_cacheVersion be = tr_bufVersion (be_readBuf be) \<longrightarrow>
        visible (stored items be) (stored items be) lim (map_of (tr_buckets c) keyBucket) [])"
    using I(11) visible_committed unfolding W by blast
  have f: "be_buf be' = be_buf be" "be_cacheBuf be' = be_cacheBuf be" "be_cacheVersion be' = be_cacheVersion be"
    "tr_buckets (be_readBuf be') = bufReset (tr_buckets (be_readBuf be))"
    "tr_bufVersion (be_readBuf be') = tr_bufVersion (be_readBuf be)" "be_closed be' = be_closed be"
    "be_tx be' \<noteq> None" "be_readTx be' \<noteq> None" "items (be_db be') = content items be" "be_pending be' = 0"
    using db by (simp_all add: be'_def be1_def readReset_def)
  have "be_inv items lim be'"
    unfolding be_inv_def P same c f using I(3,5,7,12) roomy_reset [OF I(6)] vis cache f by simp
  then show ?thesis using commit c P f by blast
qed

lemma Unlock_inv:
  assumes B: "bolt_ok B items" and inv: "be_inv items lim be" and ver: "tr_bufVersion (be_readBuf be) < MaxUint64" and lim: "lim \<noteq> []"
  shows "\<exists>be'. Unlock B be = Some be' \<and> be_inv items lim be' \<and> pendingPairs be' = [] \<and> content items be' = content items be \<and>
    tr_bufVersion (be_readBuf be') \<le> tr_bufVersion (be_readBuf be) + 1"
proof -
  have unlocked: "batchUnlock B b = Some b" if "be_pending b = 0 \<or> be_pending b < be_batchLimit b" "be_tx b \<noteq> None" for b
    using that by (auto simp: batchUnlock_def batchCommit_def)
  show ?thesis
  proof (cases "be_pending be = 0")
    case True
    then show ?thesis using inv unlocked be_invD(1,4) [OF inv] by (auto simp: Unlock_def)
  next
    case False
    obtain w r where wr: "writeback (sort_Sort B) (be_buf be) (be_readBuf be) = Some (w, r)"
      "be_inv items lim (be\<lparr>be_buf := w, be_readBuf := r\<rparr>)" "pendingPairs (be\<lparr>be_buf := w, be_readBuf := r\<rparr>) = []"
      "tr_bufVersion r = tr_bufVersion (be_readBuf be) + 1"
      using writeback_inv [OF bolt_okD(9) [OF B] inv ver lim] by (auto simp: Let_def)
    let ?be = "be\<lparr>be_buf := w, be_readBuf := r\<rparr>"
    have c: "content items ?be = content items be" by (simp add: content_def)
    show ?thesis
    proof (cases "be_pending be \<ge> be_batchLimit be")
      case True
      obtain be' where be': "unsafeCommit B False ?be = Some be'" "be_inv items lim be'" "pendingPairs be' = []"
        "content items be' = content items ?be" "be_pending be' = 0" "tr_bufVersion (be_readBuf be') = tr_bufVersion r"
        using unsafeCommit_inv [OF B wr(2,3)] by auto
      have "Unlock B be = Some be'"
        using False True wr(1) be'(1) unlocked [of be'] be'(5) be_invD(1) [OF be'(2)] by (simp add: Unlock_def Let_def)
      then show ?thesis using be' c wr(4) by auto
    next
      case below: False
      then have "Unlock B be = Some ?be"
        using False wr(1) unlocked [of ?be] be_invD(1) [OF inv] by (simp add: Unlock_def Let_def)
      then show ?thesis using wr c by auto
    qed
  qed
qed

lemma ForceCommit_inv:
  assumes B: "bolt_ok B items" and inv: "be_inv items lim be" and W: "pendingPairs be = []"
  shows "\<exists>be'. ForceCommit B be = Some be' \<and> be_inv items lim be' \<and> pendingPairs be' = [] \<and>
    content items be' = content items be \<and> items (be_db be') = content items be \<and>
    tr_bufVersion (be_readBuf be') = tr_bufVersion (be_readBuf be)"
proof -
  obtain be' where be': "unsafeCommit B False be = Some be'" "be_inv items lim be'" "pendingPairs be' = []"
    "content items be' = content items be" "items (be_db be') = content items be" "be_pending be' = 0"
    "tr_bufVersion (be_readBuf be') = tr_bufVersion (be_readBuf be)" using unsafeCommit_inv [OF B inv W] by blast
  then have "Unlock B be' = Some be'"
    using be_invD(1) [OF be'(2)] by (auto simp: Unlock_def batchUnlock_def batchCommit_def)
  then show ?thesis using be' by (simp add: ForceCommit_def CommitTx_def)
qed

subsection \<open>Readers\<close>

lemma ConcurrentReadTx_inv:
  assumes inv: "be_inv items lim be" and rt: "ConcurrentReadTx be = (rt, be')"
  shows "be_inv items lim be' \<and> content items be' = content items be \<and> pendingPairs be' = pendingPairs be \<and>
    tr_bufVersion (be_readBuf be') = tr_bufVersion (be_readBuf be) \<and> rt_tx rt = be_readTx be \<and>
    sees (stored items be) (snapshotOf items be) (map_of (tr_buckets (rt_buf rt)) keyBucket) (pendingPairs be)"
proof -
  note I = be_invD [OF inv]
  obtain buf where e: "rt = \<lparr>rt_buf = buf, rt_tx = be_readTx be\<rparr>"
    "be' = be\<lparr>be_cacheBuf := Some buf, be_cacheVersion := tr_bufVersion (be_readBuf be)\<rparr>"
    and buf: "tr_buckets buf = tr_buckets (be_readBuf be) \<or>
      be_cacheBuf be = Some buf \<and> be_cacheVersion be = tr_bufVersion (be_readBuf be)"
    using rt by (auto simp: ConcurrentReadTx_def Let_def unsafeCopy_def split: option.splits if_splits)
  have v: "visible (stored items be) (snapshotOf items be) lim (map_of (tr_buckets buf) keyBucket) (pendingPairs be)"
    using buf I(9) I(11) [of buf] by (auto simp: readBuffer_def)
  have same: "content items be' = content items be" "stored items be' = stored items be" "snapshotOf items be' = snapshotOf items be"
    "readBuffer be' = readBuffer be" "pendingPairs be' = pendingPairs be"
    by (simp_all add: e(2) content_def stored_def snapshotOf_def readBuffer_def pendingPairs_def)
  have "be_inv items lim be'" unfolding be_inv_def same using inv v by (simp add: e(2) be_inv_def)
  then show ?thesis using v same e by (simp add: visible_def)
qed

text \<open>A key of the bucket that the transaction holds, read between transactions.\<close>

lemma reader_finds:
  assumes B: "bolt_ok B items" and inv: "be_inv items lim be" and W: "pendingPairs be = []"
    and rt: "ConcurrentReadTx be = (rt, be')" and "stored items be k = Some v" "k \<noteq> []"
  shows "readRange B rt keyBucket k None 0 = Some [(k, v)]"
proof -
  obtain d where d: "be_readTx be = Some d" using be_invD(2) [OF inv] by blast
  from ConcurrentReadTx_inv [OF inv rt] have s: "rt_tx rt = Some d"
    "sees (stored items be) (bucketMap (items d keyBucket)) (map_of (tr_buckets (rt_buf rt)) keyBucket) []"
    using d W by (simp_all add: snapshotOf_def)
  show ?thesis by (rule read_sees [OF B s(2,1) assms(5,6)])
qed

text \<open>A backend over a database.\<close>

lemma newBackend_inv:
  assumes "\<And>k. bucketMap (items db keyBucket) k \<noteq> None \<Longrightarrow> bytesLess k lim"
  shows "\<exists>be. newBackend B n db = Some be \<and> be_inv items lim be \<and> pendingPairs be = [] \<and> content items be = items db \<and>
    tr_bufVersion (be_readBuf be) = 0"
  using assms
  by (auto simp: newBackend_def CommitTx_def unsafeCommit_def batchCommit_def beginTx_def Unlock_def batchUnlock_def
      be_inv_def content_def pendingPairs_def readBuffer_def roomy_def visible_def sees_def stored_def snapshotOf_def)

end
