(* ===== verification/IndexFacts.thy ===== *)
theory IndexFacts
  imports TreeIndex RevisionBytes
begin

text \<open>
  Bounds on the index of all keys: what the last change of every key is, how large versions get, and what
  compaction leaves of a history. The keys of the backend, in the order of their revisions.
\<close>

subsection \<open>The last change of every key\<close>

definition changed_before :: "('t \<Rightarrow> keyIndex list) \<Rightarrow> 't \<Rightarrow> revision \<Rightarrow> bool" where
  "changed_before items t r \<longleftrightarrow> (\<forall>ki \<in> set (items t). ki_modified ki < r)"

lemma kiPut_modified: "kiPut ki m s = Some ki' \<Longrightarrow> ki_modified ki' = Revision m s"
  by (auto simp: kiPut_def Let_def split: if_splits)

lemma replaced: "btree_ok B items \<Longrightarrow> items (bt_ReplaceOrInsert B t ki) = insertItem ki (items t)"
  by (simp add: btree_ok_def)

lemma changed_insert:
  assumes "btree_ok B items" and "changed_before items t r" and "ki_modified ki < r"
  shows "changed_before items (bt_ReplaceOrInsert B t ki) r"
  using assms set_insertItem [of ki "items t"] by (auto simp: changed_before_def replaced)

lemma changed_later: "changed_before items t r \<Longrightarrow> r \<le> r' \<Longrightarrow> changed_before items t r'"
  unfolding changed_before_def using less_le_trans by blast

lemma tiPut_changed:
  assumes B: "btree_ok B items" and c: "changed_before items t r" and p: "tiPut B t key r = Some t'" and "r < r'"
  shows "changed_before items t' r'"
proof -
  obtain ki where "t' = bt_ReplaceOrInsert B t ki" "ki_modified ki = r"
    using p by (auto simp: tiPut_def Let_def bind_eq_Some_conv dest!: kiPut_modified split: option.splits)
  then show ?thesis using changed_insert [OF B changed_later [OF c]] assms(4) by auto
qed

lemma tiTombstone_changed:
  assumes B: "btree_ok B items" and c: "changed_before items t r" and p: "tiTombstone B t key r = Some (err, t')" and "r < r'"
  shows "changed_before items t' r'"
proof -
  have later: "changed_before items t r'" using changed_later [OF c] assms(4) by simp
  show ?thesis
  proof (cases "bt_Get B t (newKeyIndex key)")
    case None
    then show ?thesis using p later by (simp add: tiTombstone_def)
  next
    case (Some ki)
    then have "ki \<in> set (items t)" using B findItem_mem by (auto simp: btree_ok_def)
    obtain ki1 where ki1: "t' = bt_ReplaceOrInsert B t ki1" "kiTombstone ki (rev_main r) (rev_sub r) = Some (err, ki1)"
      using p Some by (auto simp: tiTombstone_def bind_eq_Some_conv)
    then have "ki_modified ki1 = ki_modified ki \<or> ki_modified ki1 = r"
      by (auto simp: kiTombstone_def bind_eq_Some_conv dest!: kiPut_modified split: if_splits)
    then have "ki_modified ki1 < r'" using \<open>ki \<in> set (items t)\<close> later assms(4) by (auto simp: changed_before_def)
    then show ?thesis using changed_insert [OF B later] ki1(1) by simp
  qed
qed

lemma kiCompact_modified:
  assumes "kiCompact ki a av = Some (ki1, av1)"
  shows "ki_modified ki1 = ki_modified ki"
proof (cases "doCompact ki a av")
  case None
  then show ?thesis using assms by (simp add: kiCompact_def split: if_split_asm)
next
  case (Some d)
  obtain g r v where "d = (g, r, v)" by (metis prod_cases3)
  then show ?thesis using assms Some unfolding kiCompact_def Let_def by (auto split: if_split_asm)
qed

lemma compactItem_changed:
  assumes B: "btree_ok B items" and c: "changed_before items t r" and "ki_modified ki < r"
    and p: "compactItem B a (t, av) ki = Some (t', av')"
  shows "changed_before items t' r"
proof -
  obtain ki1 av1 where k: "kiCompact ki a av = Some (ki1, av1)" using p by (auto simp: compactItem_def bind_eq_Some_conv)
  then have "ki_modified ki1 = ki_modified ki" by (rule kiCompact_modified)
  then have put: "changed_before items (bt_ReplaceOrInsert B t ki1) r" using changed_insert [OF B c] assms(3) by simp
  have "items (snd (bt_Delete B (bt_ReplaceOrInsert B t ki1) ki1)) = filter (\<lambda>i. ki_key i \<noteq> ki_key ki1) (items (bt_ReplaceOrInsert B t ki1))"
    using B by (simp add: btree_ok_def)
  then have "changed_before items (snd (bt_Delete B (bt_ReplaceOrInsert B t ki1) ki1)) r" using put by (simp add: changed_before_def)
  moreover have "t' = bt_ReplaceOrInsert B t ki1 \<or> t' = snd (bt_Delete B (bt_ReplaceOrInsert B t ki1) ki1)"
    using p k by (auto simp: compactItem_def split: if_splits option.splits prod.splits)
  ultimately show ?thesis using put by blast
qed

subsection \<open>Versions\<close>

definition versions_below :: "event list \<Rightarrow> int \<Rightarrow> bool" where
  "versions_below h n \<longleftrightarrow> (\<forall>r c v. (r, Some (c, v)) \<in> set h \<longrightarrow> v \<le> n)"

lemma versions_put: "versions_below h n \<Longrightarrow> 0 \<le> n \<Longrightarrow> versions_below (h_put h r) (n + 1)"
proof -
  assume h: "versions_below h n" and n: "0 \<le> n"
  have "v \<le> n" if "h \<noteq> []" "snd (List.last h) = Some (c, v)" for c v
    using h that last_in_set [of h] unfolding versions_below_def by (metis prod.collapse)
  then have top: "v \<le> n" if "h \<noteq> []" "snd (List.last h) = Some (c, v)" for c v using that .
  have old: "v \<le> n + 1" if "(r', Some (c, v)) \<in> set h" for r' c v using h that unfolding versions_below_def by fastforce
  show ?thesis
  proof (cases "h = [] \<or> snd (List.last h) = None")
    case True
    then show ?thesis using old n by (auto simp: versions_below_def h_put_def)
  next
    case False
    then obtain c v where cv: "h \<noteq> []" "snd (List.last h) = Some (c, v)" by auto
    then show ?thesis using old top [OF cv] by (auto simp: versions_below_def h_put_def)
  qed
qed

lemma versions_room:
  assumes inv: "ki_inv ki" and h: "versions_below (history ki) n" and n: "0 \<le> n" "n < 2 ^ 63 - 1"
  shows "has_room ki"
proof -
  obtain cs g where k: "ki_generations ki = cs @ [g]" "gen_ok g" "history ki = concat (map closedHist cs) @ openHist g"
    using ki_inv_split [OF inv] by metis
  show ?thesis
  proof (cases "g_revs g = []")
    case True
    then show ?thesis using k n by (simp add: has_room_def gen_ok_def)
  next
    case False
    then have "openHist g \<noteq> []" by (metis length_0_conv openHist_length)
    then have "List.last (openHist g) \<in> set (history ki)" using k(3) by simp
    moreover have "snd (List.last (openHist g)) = Some (g_created g, g_ver g)" by (rule last_openHist [OF False])
    ultimately have "g_ver g \<le> n" using h unfolding versions_below_def by (metis prod.collapse)
    then show ?thesis using n k(1) by (simp add: has_room_def)
  qed
qed

lemma fits_versions:
  assumes inv: "ti_inv items t" and c: "changed_before items t r" and r: "zeroRevision < r"
    and h: "versions_below (histAt items t key) n" and n: "0 \<le> n" "n < 2 ^ 63 - 1"
  shows "fits items t key r"
  unfolding fits_def
proof (intro conjI r allI impI)
  fix ki assume f: "findItem key (items t) = Some ki"
  then have "ki \<in> set (items t)" using findItem_mem by blast
  moreover have "versions_below (history ki) n" using h f by (simp add: histAt_def)
  ultimately show "has_room ki" "ki_modified ki < r"
    using inv c versions_room [OF _ _ n] by (auto simp: ti_inv_def changed_before_def)
qed

lemma tiPut_all:
  assumes "btree_ok B items" and "ti_inv items t" and "fits items t key r"
  shows "\<exists>t'. tiPut B t key r = Some t' \<and> ti_inv items t' \<and> histAt items t' = (histAt items t)(key := h_put (histAt items t key) r)"
proof -
  note P = tiPut_history [OF assms]
  obtain t' where t': "tiPut B t key r = Some t'" "ti_inv items t'" using P [of key] by blast
  have "histAt items t' k = (if k = key then h_put (histAt items t key) r else histAt items t k)" for k
    using P [of k] t'(1) by auto
  then show ?thesis using t' by (intro exI [of _ t']) (simp add: fun_eq_iff)
qed

subsection \<open>Ranges\<close>

text \<open>The keys that a request is about: one, or those of a range.\<close>

definition wanted :: "string \<Rightarrow> string option \<Rightarrow> string \<Rightarrow> bool" where
  "wanted key en k \<longleftrightarrow> (case en of None \<Rightarrow> k = key | Some e \<Rightarrow> in_range key e k)"

lemma tiRange_keys:
  assumes B: "btree_ok B items" and inv: "ti_inv items t"
  shows "\<exists>keys revs. tiRange B t key en r = Some (keys, revs) \<and> sorted_wrt bytesLess keys \<and>
    set keys = {k. wanted key en k \<and> h_get (histAt items t k) r \<noteq> None}"
proof (cases en)
  case None
  then show ?thesis using tiGet_history [OF B inv, of key r]
    by (cases "h_get (histAt items t key) r") (auto simp: tiRange_def wanted_def asResult_def)
next
  case (Some e)
  obtain keys revs where k: "tiRange B t key (Some e) r = Some (keys, revs)" "sorted_wrt bytesLess keys" "length revs = length keys"
    "\<forall>k v. (k, v) \<in> set (zip keys revs) \<longleftrightarrow> in_range key e k \<and> map_option fst (h_get (histAt items t k) r) = Some v"
    using tiRange_shows [OF B inv] by blast
  have "k \<in> set keys \<longleftrightarrow> (\<exists>v. (k, v) \<in> set (zip keys revs))" for k
    using k(3) by (metis in_set_impl_in_set_zip1 set_zip_leftD)
  then have "set keys = {k. wanted key en k \<and> h_get (histAt items t k) r \<noteq> None}"
    unfolding wanted_def Some option.case k(4) [rule_format] by auto
  then show ?thesis using k(1,2) Some by blast
qed

lemma sorted_keys_distinct: "sorted_wrt bytesLess keys \<Longrightarrow> distinct keys"
  by (induction keys) auto

lemma tiTombstone_all:
  assumes "btree_ok B items" and "ti_inv items t" and "fits items t key r" and e: "h_get (histAt items t key) a = Some x"
    "\<forall>e \<in> set (histAt items t key). rev_main (fst e) \<le> a"
  shows "\<exists>t'. tiTombstone B t key r = Some (None, t') \<and> ti_inv items t' \<and> histAt items t' = (histAt items t)(key := histAt items t key @ [(r, None)])"
proof -
  have "\<not> (histAt items t key = [] \<or> snd (List.last (histAt items t key)) = None)"
  proof (cases "histAt items t key" rule: rev_cases)
    case Nil
    then show ?thesis using e by simp
  next
    case (snoc h z)
    then have "rev_main (fst z) \<le> a" "h_get (h @ [z]) a = Some x" using e by simp_all
    then show ?thesis using snoc by (cases z) (auto simp: h_get_def latest_append latest_def split: option.splits)
  qed
  then show ?thesis using tiTombstone_history [OF assms(1-3)] by simp
qed

subsection \<open>Compaction\<close>

text \<open>What is left of a history: only its first event can be at or before the revision.\<close>

definition left_of :: "int \<Rightarrow> event list \<Rightarrow> event list \<Rightarrow> bool" where
  "left_of r h h' \<longleftrightarrow> set h' \<subseteq> set h \<and> (\<forall>e \<in> set (tl h'). r < rev_main (fst e))"

lemma compactItem_left:
  assumes B: "btree_ok B items" and inv: "ti_inv items t" and ki: "findItem (ki_key ki) (items t) = Some ki"
    and p: "compactItem B r (t, av) ki = Some (t', av')"
  shows "left_of r (histAt items t (ki_key ki)) (histAt items t' (ki_key ki))"
    and "key \<noteq> ki_key ki \<Longrightarrow> histAt items t' key = histAt items t key"
proof -
  have k: "ki_inv ki" "\<not> kiIsEmpty ki" using inv findItem_mem [OF ki] by (simp_all add: ti_inv_def)
  obtain ki1 where c: "kiCompact ki r av = Some (ki1, seen (history ki) r av)" "ki_key ki1 = ki_key ki" "ki_inv ki1"
    and sub: "set (history ki1) \<subseteq> set (history ki)" and late: "\<forall>e \<in> set (tl (history ki1)). r < rev_main (fst e)"
    by (rule kiCompact_history [OF k, of r av]) blast
  let ?t = "bt_ReplaceOrInsert B t ki1"
  have d: "items (snd (bt_Delete B ?t ki1)) = filter (\<lambda>i. ki_key i \<noteq> ki_key ki1) (insertItem ki1 (items t))"
    using B by (simp add: btree_ok_def)
  have "t' = ?t \<or> kiIsEmpty ki1 \<and> t' = snd (bt_Delete B ?t ki1)"
    using p c(1) by (auto simp: compactItem_def split: if_splits option.splits prod.splits)
  then have "histAt items t' j = (if j = ki_key ki then history ki1 else histAt items t j)" for j
    using c(2) d kiIsEmpty_history [of ki1] replaced [OF B, of t ki1]
    by (auto simp: histAt_def findItem_filter findItem_insert)
  then show "left_of r (histAt items t (ki_key ki)) (histAt items t' (ki_key ki))"
    and "key \<noteq> ki_key ki \<Longrightarrow> histAt items t' key = histAt items t key"
    using sub late ki by (simp_all add: left_of_def histAt_def)
qed

lemma compact_items_left:
  assumes B: "btree_ok B items" and inv: "ti_inv items t" and "sorted_items kis"
    and "\<forall>ki \<in> set kis. findItem (ki_key ki) (items t) = Some ki" and "changed_before items t m"
    and "foldM (compactItem B r) (t, av) kis = Some (t', av')"
  shows "(\<forall>key. if key \<in> ki_key ` set kis then left_of r (histAt items t key) (histAt items t' key) else histAt items t' key = histAt items t key) \<and>
    changed_before items t' m"
  using assms(2-)
proof (induction kis arbitrary: t av)
  case (Cons ki kis)
  have ki: "findItem (ki_key ki) (items t) = Some ki" using Cons.prems(3) by simp
  obtain t1 av1 where t1: "compactItem B r (t, av) ki = Some (t1, av1)" "foldM (compactItem B r) (t1, av1) kis = Some (t', av')"
    using Cons.prems(5) by (auto simp: bind_eq_Some_conv)
  have inv1: "ti_inv items t1" "\<forall>key. key \<noteq> ki_key ki \<longrightarrow> findItem key (items t1) = findItem key (items t)"
    using compactItem_step [OF B Cons.prems(1) ki, of r av] t1(1) by auto
  have ne: "ki_key j \<noteq> ki_key ki" if "j \<in> set kis" for j
    using Cons.prems(2) that by (auto simp: sorted_items_def kiLess_def)
  have m: "ki_modified ki < m" using Cons.prems(4) findItem_mem [OF ki] by (simp add: changed_before_def)
  have "\<forall>j \<in> set kis. findItem (ki_key j) (items t1) = Some j" using Cons.prems(3) inv1(2) ne by simp
  moreover have "sorted_items kis" using Cons.prems(2) by (simp add: sorted_items_def)
  moreover have "changed_before items t1 m" by (rule compactItem_changed [OF B Cons.prems(4) m t1(1)])
  ultimately have IH: "\<forall>key. if key \<in> ki_key ` set kis then left_of r (histAt items t1 key) (histAt items t' key)
      else histAt items t' key = histAt items t1 key" "changed_before items t' m" using Cons.IH [OF inv1(1)] t1(2) by blast+
  have step: "left_of r (histAt items t (ki_key ki)) (histAt items t1 (ki_key ki))"
    "\<And>key. key \<noteq> ki_key ki \<Longrightarrow> histAt items t1 key = histAt items t key"
    by (rule compactItem_left [OF B Cons.prems(1) ki t1(1)])+
  have notin: "ki_key ki \<notin> ki_key ` set kis" using ne by (metis imageE)
  have "if key \<in> ki_key ` set (ki # kis) then left_of r (histAt items t key) (histAt items t' key)
    else histAt items t' key = histAt items t key" for key
    using IH(1) [rule_format, of key] step notin by (cases "key = ki_key ki") auto
  then show ?case using IH(2) by blast
qed simp

theorem tiCompact_left:
  assumes B: "btree_ok B items" and inv: "ti_inv items t" and c: "changed_before items t m" and p: "tiCompact B t r = Some (t', av)"
  shows "left_of r (histAt items t key) (histAt items t' key)" and "changed_before items t' m"
proof -
  have srt: "sorted_items (items t)" using inv by (simp add: ti_inv_def)
  have asc: "bt_Ascend B t = items t" using B by (simp add: btree_ok_def)
  have all: "\<forall>ki \<in> set (items t). findItem (ki_key ki) (items t) = Some ki" using sorted_find [OF srt] by blast
  have f: "foldM (compactItem B r) (t, {||}) (items t) = Some (t', av)" using p by (simp add: tiCompact_def asc)
  note L = compact_items_left [OF B inv srt all c f]
  then show "changed_before items t' m" by blast
  show "left_of r (histAt items t key) (histAt items t' key)"
  proof (cases "key \<in> ki_key ` set (items t)")
    case False
    then have "findItem key (items t) = None" by (metis findItem_mem image_eqI not_Some_eq)
    then have "histAt items t key = []" by (simp add: histAt_def)
    then show ?thesis using L False by (simp add: left_of_def)
  qed (use L in auto)
qed

subsection \<open>The keys of the backend\<close>

definition rev_ok :: "revision \<Rightarrow> bool" where
  "rev_ok r \<longleftrightarrow> 0 \<le> rev_main r \<and> rev_main r < 2 ^ 63 - 1 \<and> 0 \<le> rev_sub r \<and> rev_sub r < 2 ^ 63 - 1"

lemma rev_okD: "rev_ok r \<Longrightarrow> in_int64 (rev_main r) \<and> in_int64 (rev_sub r) \<and> 0 \<le> rev_main r \<and> 0 \<le> rev_sub r"
  by (auto simp: rev_ok_def in_int64_def)

lemma length_revToBytes [simp]: "length (revToBytes r) = 17"
  by (simp add: revToBytes_def)

lemma revToBytes_nonempty [simp]: "revToBytes r \<noteq> []"
  by (metis length_revToBytes list.size(3) zero_neq_numeral)

lemma revToBytes_order: "rev_ok r \<Longrightarrow> rev_ok s \<Longrightarrow> bytesLess (revToBytes r) (revToBytes s) \<longleftrightarrow> r < s"
  using revToBytes_less rev_okD by blast

lemma revToBytes_inj: "rev_ok r \<Longrightarrow> rev_ok s \<Longrightarrow> revToBytes r = revToBytes s \<longleftrightarrow> r = s"
  using bytesToRev_revToBytes rev_okD by (metis option.inject)

lemma bytesLess_extend: "length a = length b \<Longrightarrow> bytesLess (a @ x) (b @ y) \<longleftrightarrow> bytesLess a b \<or> a = b \<and> bytesLess x y"
  by (induction a b rule: list_induct2) auto

text \<open>A key is a revision, or a revision with the mark of a tombstone.\<close>

definition keyOf :: "revision \<Rightarrow> bool \<Rightarrow> string" where
  "keyOf r tomb = revToBytes r @ (if tomb then ''t'' else [])"

lemma keyOf_put [simp]: "keyOf r False = revToBytes r"
  by (simp add: keyOf_def)

lemma keyOf_nonempty [simp]: "keyOf r b \<noteq> []"
  by (simp add: keyOf_def)

lemma keyOf_length: "length (keyOf r b) = (if b then 18 else 17)"
  by (simp add: keyOf_def)

lemma keyOf_rev: "rev_ok r \<Longrightarrow> bytesToRev (keyOf r b) = Some r"
proof -
  assume "rev_ok r"
  then have r: "bytesToRev (revToBytes r) = Some r" using bytesToRev_revToBytes rev_okD by blast
  have "Uint64 (drop 9 (revToBytes r) @ x) = Uint64 (drop 9 (revToBytes r))" for x by (simp add: Uint64_def)
  then show ?thesis using r by (simp add: keyOf_def bytesToRev_def)
qed

lemma keyOf_less: "rev_ok r \<Longrightarrow> rev_ok s \<Longrightarrow> bytesLess (keyOf r a) (keyOf s b) \<longleftrightarrow> r < s \<or> r = s \<and> \<not> a \<and> b"
  by (auto simp: keyOf_def bytesLess_extend revToBytes_order revToBytes_inj)

lemma keyOf_main:
  assumes "rev_ok r" and "0 \<le> n" and "n < 2 ^ 63"
  shows "bytesLess (keyOf r b) (PutUint64 (toUint64 n)) \<longleftrightarrow> rev_main r < n"
proof -
  have lt: "toUint64 z < 256 ^ 8" for z using toUint64_less [of z] by simp
  have v: "toUint64 n = nat n" "toUint64 (rev_main r) = nat (rev_main r)"
    using assms by (simp_all add: toUint64_def rev_ok_def)
  have "\<exists>x. keyOf r b = bigEndian 8 (toUint64 (rev_main r)) @ x" by (simp add: keyOf_def revToBytes_def PutUint64_bigEndian)
  then obtain x where x: "keyOf r b = bigEndian 8 (toUint64 (rev_main r)) @ x" by blast
  have "bytesLess (keyOf r b) (PutUint64 (toUint64 n)) \<longleftrightarrow> toUint64 (rev_main r) < toUint64 n"
    using bigEndian_less [OF lt lt, of "rev_main r" x n "[]"] by (simp add: x PutUint64_bigEndian)
  then show ?thesis using assms by (auto simp: v rev_ok_def)
qed

end
