(* ===== verification/LessorFacts.thy ===== *)
theory LessorFacts
  imports Lessor
begin

text \<open>
  The two views that the lessor keeps of which key is attached to which lease, and how the operations on
  items, the grant and the renewal of a lease change them.
\<close>

subsection \<open>Items\<close>

text \<open>The map from items to leases, and the set of items of each lease, say the same.\<close>

definition items_inv :: "lessor \<Rightarrow> bool" where
  "items_inv le \<longleftrightarrow>
     (\<forall>it i. fmlookup (le_itemMap le) it = Some i \<longrightarrow> i \<noteq> NoLease \<and>
        (\<exists>l. fmlookup (le_leaseMap le) i = Some l \<and> it \<in> set (l_itemSet l))) \<and>
     (\<forall>i l. fmlookup (le_leaseMap le) i = Some l \<longrightarrow> l_ID l = i \<and> distinct (l_itemSet l) \<and>
        (\<forall>it \<in> set (l_itemSet l). fmlookup (le_itemMap le) it = Some i))"

text \<open>A lessor without its items.\<close>

definition bare :: "lessor \<Rightarrow> lessor" where
  "bare le = le\<lparr>le_itemMap := fmempty, le_leaseMap := fmmap (\<lambda>l. l\<lparr>l_itemSet := []\<rparr>) (le_leaseMap le)\<rparr>"

lemma bare_fields:
  assumes "bare le' = bare le"
  shows "le_rd le' = le_rd le" "fmlookup (le_leaseMap le') i = None \<longleftrightarrow> fmlookup (le_leaseMap le) i = None"
    "fmlookup (le_leaseMap le) i = Some l \<Longrightarrow> \<exists>l'. fmlookup (le_leaseMap le') i = Some l' \<and> l'\<lparr>l_itemSet := []\<rparr> = l\<lparr>l_itemSet := []\<rparr>"
proof -
  have "le_rd (bare le') = le_rd (bare le)" "fmlookup (le_leaseMap (bare le')) i = fmlookup (le_leaseMap (bare le)) i"
    using assms by simp_all
  then show "le_rd le' = le_rd le" "fmlookup (le_leaseMap le') i = None \<longleftrightarrow> fmlookup (le_leaseMap le) i = None"
    "fmlookup (le_leaseMap le) i = Some l \<Longrightarrow> \<exists>l'. fmlookup (le_leaseMap le') i = Some l' \<and> l'\<lparr>l_itemSet := []\<rparr> = l\<lparr>l_itemSet := []\<rparr>"
    by (auto simp: bare_def)
qed

lemma bare_lease:
  assumes "fmlookup (le_leaseMap le) i = Some l" and "l'\<lparr>l_itemSet := []\<rparr> = l\<lparr>l_itemSet := []\<rparr>"
  shows "bare (le\<lparr>le_itemMap := m, le_leaseMap := fmupd i l' (le_leaseMap le)\<rparr>) = bare le"
proof -
  have "fmmap (\<lambda>l. l\<lparr>l_itemSet := []\<rparr>) (fmupd i l' (le_leaseMap le)) = fmmap (\<lambda>l. l\<lparr>l_itemSet := []\<rparr>) (le_leaseMap le)"
    by (rule fmap_ext) (auto simp: assms)
  then show ?thesis by (simp add: bare_def)
qed

lemma attachItems:
  "foldl (attachItem i) (le, l) its =
     (le\<lparr>le_itemMap := foldl (\<lambda>m it. fmupd it i m) (le_itemMap le) its\<rparr>,
      l\<lparr>l_itemSet := foldl (\<lambda>s it. List.insert it s) (l_itemSet l) its\<rparr>)"
  by (induction its arbitrary: le l) (simp_all add: attachItem_def)

lemma lookup_attached: "fmlookup (foldl (\<lambda>m it. fmupd it i m) m its) it = (if it \<in> set its then Some i else fmlookup m it)"
  by (induction its arbitrary: m) auto

lemma set_inserted: "set (foldl (\<lambda>s it. List.insert it s) s its) = set its \<union> set s"
  by (induction its arbitrary: s) auto

lemma distinct_inserted: "distinct s \<Longrightarrow> distinct (foldl (\<lambda>s it. List.insert it s) s its)"
  by (induction its arbitrary: s) auto

lemma detachItems:
  "foldl detachItem (le, l) its =
     (le\<lparr>le_itemMap := foldl (\<lambda>m it. fmdrop it m) (le_itemMap le) its\<rparr>,
      l\<lparr>l_itemSet := foldl (\<lambda>s it. filter (\<lambda>k. k \<noteq> it) s) (l_itemSet l) its\<rparr>)"
  by (induction its arbitrary: le l) (simp_all add: detachItem_def)

lemma lookup_detached: "fmlookup (foldl (\<lambda>m it. fmdrop it m) m its) it = (if it \<in> set its then None else fmlookup m it)"
  by (induction its arbitrary: m) auto

lemma set_filtered: "set (foldl (\<lambda>s it. filter (\<lambda>k. k \<noteq> it) s) s its) = set s - set its"
  by (induction its arbitrary: s) auto

lemma distinct_filtered: "distinct s \<Longrightarrow> distinct (foldl (\<lambda>s it. filter (\<lambda>k. k \<noteq> it) s) s its)"
  by (induction its arbitrary: s) auto

theorem Attach_items:
  assumes inv: "items_inv le" and l: "fmlookup (le_leaseMap le) i = Some l" and i: "i \<noteq> NoLease"
    and free: "\<forall>it \<in> set its. fmlookup (le_itemMap le) it = None \<or> fmlookup (le_itemMap le) it = Some i"
  shows "\<exists>le'. Attach le i its = (None, le') \<and> items_inv le' \<and> bare le' = bare le \<and>
    (\<forall>it. GetLease le' it = (if it \<in> set its then i else GetLease le it))"
proof -
  define m where "m = foldl (\<lambda>m it. fmupd it i m) (le_itemMap le) its"
  define l' where "l' = l\<lparr>l_itemSet := foldl (\<lambda>s it. List.insert it s) (l_itemSet l) its\<rparr>"
  let ?le = "le\<lparr>le_itemMap := m, le_leaseMap := fmupd i l' (le_leaseMap le)\<rparr>"
  have m: "fmlookup m it = (if it \<in> set its then Some i else fmlookup (le_itemMap le) it)" for it
    by (simp add: m_def lookup_attached)
  have dl: "distinct (l_itemSet l')" using inv l by (simp add: l'_def distinct_inserted items_inv_def)
  have l': "set (l_itemSet l') = set its \<union> set (l_itemSet l)" "l_ID l' = l_ID l" "l'\<lparr>l_itemSet := []\<rparr> = l\<lparr>l_itemSet := []\<rparr>"
    by (simp_all add: l'_def set_inserted)
  have "Attach le i its = (None, ?le)" using l by (simp add: Attach_def attachItems m_def l'_def)
  moreover have "items_inv ?le"
    unfolding items_inv_def
  proof (intro conjI allI impI)
    fix it j assume "fmlookup (le_itemMap ?le) it = Some j"
    then have j: "it \<in> set its \<and> j = i \<or> it \<notin> set its \<and> fmlookup (le_itemMap le) it = Some j" by (auto simp: m split: if_splits)
    then show "j \<noteq> NoLease" using i inv by (auto simp: items_inv_def)
    show "\<exists>l. fmlookup (le_leaseMap ?le) j = Some l \<and> it \<in> set (l_itemSet l)"
      using j inv l l'(1) by (cases "j = i") (force simp: items_inv_def)+
  next
    fix j k assume k: "fmlookup (le_leaseMap ?le) j = Some k"
    then show "l_ID k = j" "distinct (l_itemSet k)" using inv l l'(2) dl by (auto simp: items_inv_def split: if_splits)
    show "\<forall>it \<in> set (l_itemSet k). fmlookup (le_itemMap ?le) it = Some j"
    proof
      fix it assume it: "it \<in> set (l_itemSet k)"
      show "fmlookup (le_itemMap ?le) it = Some j"
      proof (cases "j = i")
        case True
        then have "it \<in> set its \<union> set (l_itemSet l)" using k it l'(1) by simp
        then show ?thesis using True inv l by (auto simp: m items_inv_def)
      next
        case False
        then have "fmlookup (le_itemMap le) it = Some j" using k it inv by (simp add: items_inv_def)
        then show ?thesis using free False by (auto simp: m)
      qed
    qed
  qed
  moreover have "GetLease ?le it = (if it \<in> set its then i else GetLease le it)" for it by (simp add: GetLease_def m)
  ultimately show ?thesis using bare_lease [OF l l'(3)] by blast
qed

theorem Detach_items:
  assumes inv: "items_inv le" and l: "fmlookup (le_leaseMap le) i = Some l"
    and own: "\<forall>it \<in> set its. fmlookup (le_itemMap le) it = None \<or> fmlookup (le_itemMap le) it = Some i"
  shows "\<exists>le'. Detach le i its = (None, le') \<and> items_inv le' \<and> bare le' = bare le \<and>
    (\<forall>it. fmlookup (le_itemMap le') it = (if it \<in> set its then None else fmlookup (le_itemMap le) it))"
proof -
  define m where "m = foldl (\<lambda>m it. fmdrop it m) (le_itemMap le) its"
  define l' where "l' = l\<lparr>l_itemSet := foldl (\<lambda>s it. filter (\<lambda>k. k \<noteq> it) s) (l_itemSet l) its\<rparr>"
  let ?le = "le\<lparr>le_itemMap := m, le_leaseMap := fmupd i l' (le_leaseMap le)\<rparr>"
  have m: "fmlookup m it = (if it \<in> set its then None else fmlookup (le_itemMap le) it)" for it
    by (simp add: m_def lookup_detached)
  have dl: "distinct (l_itemSet l')" using inv l by (simp add: l'_def distinct_filtered items_inv_def)
  have l': "set (l_itemSet l') = set (l_itemSet l) - set its" "l_ID l' = l_ID l" "l'\<lparr>l_itemSet := []\<rparr> = l\<lparr>l_itemSet := []\<rparr>"
    by (simp_all add: l'_def set_filtered)
  have "Detach le i its = (None, ?le)" using l by (simp add: Detach_def detachItems m_def l'_def)
  moreover have "items_inv ?le"
    unfolding items_inv_def
  proof (intro conjI allI impI)
    fix it j assume "fmlookup (le_itemMap ?le) it = Some j"
    then have j: "it \<notin> set its" "fmlookup (le_itemMap le) it = Some j" by (auto simp: m split: if_splits)
    then show "j \<noteq> NoLease" using inv by (auto simp: items_inv_def)
    show "\<exists>l. fmlookup (le_leaseMap ?le) j = Some l \<and> it \<in> set (l_itemSet l)"
      using j inv l l'(1) by (cases "j = i") (force simp: items_inv_def)+
  next
    fix j k assume k: "fmlookup (le_leaseMap ?le) j = Some k"
    then show "l_ID k = j" "distinct (l_itemSet k)" using inv l l'(2) dl by (auto simp: items_inv_def split: if_splits)
    show "\<forall>it \<in> set (l_itemSet k). fmlookup (le_itemMap ?le) it = Some j"
    proof
      fix it assume it: "it \<in> set (l_itemSet k)"
      show "fmlookup (le_itemMap ?le) it = Some j"
      proof (cases "j = i")
        case True
        then have "it \<in> set (l_itemSet l) - set its" using k it l'(1) by simp
        then show ?thesis using True inv l by (auto simp: m items_inv_def)
      next
        case False
        then have "fmlookup (le_itemMap le) it = Some j" using k it inv by (simp add: items_inv_def)
        then show ?thesis using own False by (auto simp: m)
      qed
    qed
  qed
  moreover have "bare ?le = bare le" by (rule bare_lease [OF l l'(3)])
  ultimately show ?thesis using m by (intro exI [of _ ?le]) simp
qed

lemma set_insertKey: "set (insertKey k ks) = insert k (set ks)"
  by (induction ks) auto

lemma set_sortedItems: "set (sortedItems l) = set (l_itemSet l)"
proof -
  have "set (foldr insertKey ks []) = set ks" for ks by (induction ks) (simp_all add: set_insertKey)
  then show ?thesis by (simp add: sortedItems_def)
qed

lemma GetLease_None: "items_inv le \<Longrightarrow> GetLease le it = NoLease \<longleftrightarrow> fmlookup (le_itemMap le) it = None"
  by (auto simp: GetLease_def items_inv_def split: option.splits)

lemma items_count: "items_inv le \<Longrightarrow> fmlookup (le_leaseMap le) i = Some l \<Longrightarrow> i \<noteq> NoLease \<Longrightarrow>
    length (l_itemSet l) = card {it. GetLease le it = i}"
proof -
  assume inv: "items_inv le" and l: "fmlookup (le_leaseMap le) i = Some l" and i: "i \<noteq> NoLease"
  have "{it. GetLease le it = i} = set (l_itemSet l)" using inv l i by (force simp: items_inv_def GetLease_def split: option.splits)
  moreover have "distinct (l_itemSet l)" using inv l by (simp add: items_inv_def)
  ultimately show ?thesis by (simp add: distinct_card)
qed

lemma lease_items: "items_inv le \<Longrightarrow> fmlookup (le_leaseMap le) i = Some l \<Longrightarrow> set (l_itemSet l) = {it. fmlookup (le_itemMap le) it = Some i}"
  by (force simp: items_inv_def)

end
