(* ===== verification/KvStoreFacts.thy ===== *)
theory KvStoreFacts
  imports KvStore BackendReads IndexFacts LessorFacts
begin

text \<open>
  The multi-version store as a map from keys and revisions to values: the invariant that ties the index, the
  backend and the lessor together, and what each operation does to the map.
\<close>

subsection \<open>The environment\<close>

definition kv_ok :: "keyValue \<Rightarrow> bool" where
  "kv_ok kv \<longleftrightarrow> in_int64 (kv_CreateRevision kv) \<and> in_int64 (kv_ModRevision kv) \<and> in_int64 (kv_Version kv) \<and> in_int64 (kv_Lease kv)"

text \<open>The generated codec: what is unmarshalled is what was marshalled.\<close>

definition codec_ok :: "kvCodec \<Rightarrow> bool" where
  "codec_ok C \<longleftrightarrow> (\<forall>kv. kv_ok kv \<longrightarrow> kc_unmarshal C (kc_marshal C kv) = Some kv)"

definition env_ok :: "('d, 't) kvEnv \<Rightarrow> ('d \<Rightarrow> string \<Rightarrow> pairs option) \<Rightarrow> ('t \<Rightarrow> keyIndex list) \<Rightarrow> bool" where
  "env_ok E bi ti \<longleftrightarrow> bolt_ok (ke_bolt E) bi \<and> btree_ok (ke_btree E) ti \<and> codec_ok (ke_kv E)"

lemma env_okD:
  assumes "env_ok E bi ti"
  shows "bolt_ok (ke_bolt E) bi" "btree_ok (ke_btree E) ti" "kv_ok kv \<Longrightarrow> kc_unmarshal (ke_kv E) (kc_marshal (ke_kv E) kv) = Some kv"
  using assms by (simp_all add: env_ok_def codec_ok_def)

text \<open>A key and a value that bolt has room for.\<close>

definition fitting :: "('d, 't) kvEnv \<Rightarrow> string \<Rightarrow> string \<Rightarrow> bool" where
  "fitting E key v \<longleftrightarrow>
     (\<forall>kv. kv_Key kv = key \<and> (kv_Value kv = v \<or> kv_Value kv = []) \<longrightarrow> length (kc_marshal (ke_kv E) kv) \<le> 2 ^ 31 - 2)"

lemma fitting_delete: "fitting E key v \<Longrightarrow> fitting E key []"
  by (simp add: fitting_def)

subsection \<open>The abstract store\<close>

definition valueAt :: "('d, 't) kvEnv \<Rightarrow> ('d \<Rightarrow> string \<Rightarrow> pairs option) \<Rightarrow> ('d, 't) kvStore \<Rightarrow> revision \<Rightarrow> keyValue option" where
  "valueAt E bi s r = do { b \<leftarrow> stored bi (st_be s) (revToBytes r); kc_unmarshal (ke_kv E) b }"

text \<open>The pair that a key has at a revision.\<close>

definition view :: "('d, 't) kvEnv \<Rightarrow> ('d \<Rightarrow> string \<Rightarrow> pairs option) \<Rightarrow> ('t \<Rightarrow> keyIndex list) \<Rightarrow> ('d, 't) kvStore \<Rightarrow>
    string \<Rightarrow> int \<Rightarrow> keyValue option" where
  "view E bi ti s key r =
     (case h_get (histAt ti (st_kvindex s) key) r of None \<Rightarrow> None | Some (rv, _, _) \<Rightarrow> valueAt E bi s rv)"

text \<open>A pair that is stored for an event of a key.\<close>

definition records :: "string \<Rightarrow> revision \<Rightarrow> revision \<times> int \<Rightarrow> keyValue \<Rightarrow> bool" where
  "records key r cv kv \<longleftrightarrow> kv_ok kv \<and> kv_Key kv = key \<and> kv_CreateRevision kv = rev_main (fst cv) \<and>
     kv_ModRevision kv = rev_main r \<and> kv_Version kv = snd cv"

definition backed :: "('d, 't) kvEnv \<Rightarrow> ('d \<Rightarrow> string \<Rightarrow> pairs option) \<Rightarrow> ('d, 't) kvStore \<Rightarrow> string \<Rightarrow> event \<Rightarrow> bool" where
  "backed E bi s key e \<longleftrightarrow> rev_ok (fst e) \<and>
     (\<forall>cv. snd e = Some cv \<longrightarrow>
        (\<exists>kv. records key (fst e) cv kv \<and> stored bi (st_be s) (revToBytes (fst e)) = Some (kc_marshal (ke_kv E) kv)))"

text \<open>A key of the bucket is a revision, as a put or as a tombstone but not both.\<close>

definition rev_room :: "revision \<Rightarrow> bool" where
  "rev_room r \<longleftrightarrow> rev_ok r \<and> rev_ok (Revision (rev_main r) (rev_sub r + 1))"

definition keys_ok :: "(string \<Rightarrow> string option) \<Rightarrow> bool" where
  "keys_ok M \<longleftrightarrow> (\<forall>k. M k \<noteq> None \<longrightarrow> (\<exists>r t. rev_room r \<and> k = keyOf r t \<and> M (keyOf r (\<not> t)) = None))"

text \<open>The invariant within a write transaction that began at revision \<open>b\<close> and has made \<open>n\<close> changes; \<open>N\<close> bounds
  the writes so far.\<close>

definition store_inv :: "('d, 't) kvEnv \<Rightarrow> ('d \<Rightarrow> string \<Rightarrow> pairs option) \<Rightarrow> ('t \<Rightarrow> keyIndex list) \<Rightarrow>
    int \<Rightarrow> int \<Rightarrow> nat \<Rightarrow> ('d, 't) kvStore \<Rightarrow> bool" where
  "store_inv E bi ti N b n s \<longleftrightarrow>
     0 \<le> b \<and> b + int n \<le> N \<and>
     be_inv bi (revToBytes (Revision (b + 1) (int n))) (st_be s) \<and>
     (\<exists>ps. content bi (st_be s) keyBucket = Some ps \<and> int (length ps) \<le> N) \<and> content bi (st_be s) metaBucketName \<noteq> None \<and>
     content bi (st_be s) leaseBucketName \<noteq> None \<and>
     keys_ok (stored bi (st_be s)) \<and>
     ti_inv ti (st_kvindex s) \<and> changed_before ti (st_kvindex s) (Revision (b + 1) (int n)) \<and>
     (\<forall>key. (histAt ti (st_kvindex s) key \<noteq> [] \<longrightarrow> fitting E key []) \<and> versions_below (histAt ti (st_kvindex s) key) N \<and>
        (\<forall>e \<in> set (histAt ti (st_kvindex s) key). backed E bi s key e))"

lemma store_invD:
  assumes "store_inv E bi ti N b n s"
  shows "0 \<le> b" "b + int n \<le> N" "be_inv bi (revToBytes (Revision (b + 1) (int n))) (st_be s)"
    "content bi (st_be s) keyBucket \<noteq> None" "content bi (st_be s) metaBucketName \<noteq> None"
    "content bi (st_be s) leaseBucketName \<noteq> None"
    "keys_ok (stored bi (st_be s))"
    "ti_inv ti (st_kvindex s)" "changed_before ti (st_kvindex s) (Revision (b + 1) (int n))"
    "histAt ti (st_kvindex s) key \<noteq> [] \<Longrightarrow> fitting E key []" "versions_below (histAt ti (st_kvindex s) key) N"
    "e \<in> set (histAt ti (st_kvindex s) key) \<Longrightarrow> backed E bi s key e"
  using assms unfolding store_inv_def by (blast | force)+

lemma store_inv_size: "store_inv E bi ti N b n s \<Longrightarrow> content bi (st_be s) keyBucket = Some ps \<Longrightarrow> int (length ps) \<le> N"
  by (auto simp: store_inv_def)

lemma store_inv_other [simp]:
  "store_inv E bi ti N b n (s\<lparr>st_le := le\<rparr>) = store_inv E bi ti N b n s"
  "store_inv E bi ti N b n (s\<lparr>st_currentRev := r\<rparr>) = store_inv E bi ti N b n s"
  "store_inv E bi ti N b n (s\<lparr>st_consistentIndex := ci\<rparr>) = store_inv E bi ti N b n s"
  "store_inv E bi ti N b n (s\<lparr>st_compactMainRev := r\<rparr>) = store_inv E bi ti N b n s"
  "view E bi ti (s\<lparr>st_le := le\<rparr>) = view E bi ti s" "view E bi ti (s\<lparr>st_currentRev := r\<rparr>) = view E bi ti s"
  "view E bi ti (s\<lparr>st_consistentIndex := ci\<rparr>) = view E bi ti s" "view E bi ti (s\<lparr>st_compactMainRev := r\<rparr>) = view E bi ti s"
  by (simp_all add: store_inv_def backed_def view_def valueAt_def fun_eq_iff split: option.split)

subsection \<open>Events\<close>

lemma event_before:
  assumes "ti_inv items t" and "changed_before items t r" and "e \<in> set (histAt items t key)"
  shows "fst e < r"
proof -
  obtain ki where ki: "findItem key (items t) = Some ki" "e \<in> set (history ki)"
    using assms(3) by (cases "findItem key (items t)") (auto simp: histAt_def)
  then have mem: "ki \<in> set (items t)" using findItem_mem by blast
  then have inv: "ki_inv ki" using assms(1) by (simp add: ti_inv_def)
  then have "\<forall>c \<in> set (butlast (ki_generations ki)). g_revs c \<noteq> []" by (force simp: ki_inv_def)
  then have "fst e \<in> set (allRevs (ki_generations ki))"
    using ki(2) histOf_revs [of "ki_generations ki"] by (metis history_def image_eqI set_map)
  then have "fst e \<le> ki_modified ki" using inv by (simp add: ki_inv_def)
  then show ?thesis using assms(2) mem by (auto simp: changed_before_def)
qed

lemma h_get_event: "h_get h t = Some (r, c, v) \<Longrightarrow> (r, Some (c, v)) \<in> set h \<and> rev_main r \<le> t"
proof -
  assume g: "h_get h t = Some (r, c, v)"
  let ?es = "filter (\<lambda>e. rev_main (fst e) \<le> t) h"
  have "?es \<noteq> []" "List.last ?es = (r, Some (c, v))"
    using g by (auto simp: h_get_def latest_def Let_def split: option.splits if_splits)
  then have "(r, Some (c, v)) \<in> set ?es" by (metis last_in_set)
  then show ?thesis by simp
qed

lemma view_event:
  assumes env: "env_ok E bi ti" and inv: "store_inv E bi ti N b n s" and g: "h_get (histAt ti (st_kvindex s) key) t = Some (r, c, v)"
  shows "\<exists>kv. view E bi ti s key t = Some kv \<and> records key r (c, v) kv \<and>
    stored bi (st_be s) (revToBytes r) = Some (kc_marshal (ke_kv E) kv)"
proof -
  have "(r, Some (c, v)) \<in> set (histAt ti (st_kvindex s) key)" using h_get_event [OF g] by blast
  from store_invD(12) [OF inv this] obtain kv where kv: "records key r (c, v) kv"
    "stored bi (st_be s) (revToBytes r) = Some (kc_marshal (ke_kv E) kv)" by (auto simp: backed_def)
  then have "valueAt E bi s r = Some kv" using env_okD(3) [OF env] by (simp add: valueAt_def records_def)
  then show ?thesis using kv g by (simp add: view_def)
qed

lemma h_get_add: "h_get (h @ [(r, x)]) t = (if rev_main r \<le> t then map_option (\<lambda>(c, v). (r, c, v)) x else h_get h t)"
  by (cases x) (auto simp: h_get_def latest_append latest_def)

lemma be_inv_later:
  assumes "be_inv items lower be" and less: "bytesLess lower upper"
  shows "be_inv items upper be"
proof -
  note I = be_invD [OF assms(1)]
  have cells: "cells_below bb lower \<Longrightarrow> cells_below bb upper" for bb using cells_below_less less by blast
  have vis: "visible M R lower ro W \<Longrightarrow> visible M R upper ro W" for M R ro W using cells by (auto simp: visible_def)
  have keys: "stored items be k \<noteq> None \<Longrightarrow> bytesLess k upper" for k using I(12) less bytesLess_trans by blast
  have "\<forall>wb. map_of (tw_buckets (be_buf be)) keyBucket = Some wb \<longrightarrow>
      bb_ok wb \<and> cells_below wb upper \<and> (\<forall>p \<in> set (bb_buf wb). agrees (stored items be) p)" using I(7) cells by blast
  moreover have "\<forall>c. be_cacheBuf be = Some c \<longrightarrow> be_cacheVersion be \<le> tr_bufVersion (be_readBuf be) \<and>
      (be_cacheVersion be = tr_bufVersion (be_readBuf be) \<longrightarrow>
         visible (stored items be) (snapshotOf items be) upper (map_of (tr_buckets c) keyBucket) (pendingPairs be))"
    using I(11) vis by blast
  ultimately show ?thesis unfolding be_inv_def using I(1-6,8,10) vis [OF I(9)] keys by blast
qed

lemma h_get_other: "h_get h t = Some (r, c, v) \<Longrightarrow> (r, Some (c, v)) \<in> set h"
  using h_get_event by blast

subsection \<open>One change of a key\<close>

definition nextRev :: "int \<Rightarrow> nat \<Rightarrow> revision" where
  "nextRev b n = Revision (b + 1) (int n)"

lemma nextRev_ok: "store_inv E bi ti N b n s \<Longrightarrow> N < 2 ^ 62 \<Longrightarrow> rev_ok (nextRev b n) \<and> zeroRevision < nextRev b n \<and> rev_ok (nextRev b (n + 1))"
  using store_invD(1,2) [of E bi ti N b n s] by (simp add: nextRev_def rev_ok_def zeroRevision_def Revision_less)

lemma nextRev_less: "nextRev b n < nextRev b (n + 1)"
  by (simp add: nextRev_def Revision_less)

text \<open>The keys that are stored are not the one that comes next.\<close>

lemma next_is_new:
  assumes inv: "store_inv E bi ti N b n s" and N: "N < 2 ^ 62" and e: "e \<in> set (histAt ti (st_kvindex s) key)"
  shows "revToBytes (fst e) \<noteq> keyOf (nextRev b n) t"
proof -
  have r: "fst e < nextRev b n" using event_before [OF store_invD(8,9) [OF inv] e] by (simp add: nextRev_def)
  have "rev_ok (fst e)" using store_invD(12) [OF inv e] by (simp add: backed_def)
  then have "bytesLess (keyOf (fst e) False) (keyOf (nextRev b n) t)" using r keyOf_less nextRev_ok [OF inv N] by blast
  then show ?thesis by auto
qed

text \<open>What is read at the revision at which a transaction began.\<close>

definition same_past :: "('t \<Rightarrow> keyIndex list) \<Rightarrow> int \<Rightarrow> ('d, 't) kvStore \<Rightarrow> ('d, 't) kvStore \<Rightarrow> bool" where
  "same_past ti b s s1 \<longleftrightarrow>
     (\<forall>k t. t \<le> b \<longrightarrow> h_get (histAt ti (st_kvindex s1) k) t = h_get (histAt ti (st_kvindex s) k) t)"

lemma same_past_refl [simp]: "same_past ti b s s"
  by (simp add: same_past_def)

lemma same_past_trans: "same_past ti b s s1 \<Longrightarrow> same_past ti b s1 s2 \<Longrightarrow> same_past ti b s s2"
  by (simp add: same_past_def)

text \<open>What a transaction writes for one change: the pair, and the event in the index.\<close>

theorem store_change:
  assumes env: "env_ok E bi ti" and inv: "store_inv E bi ti N b n s" and N: "N < 2 ^ 62"
    and t1: "ti_inv ti t1" "changed_before ti t1 (nextRev b (n + 1))"
      "histAt ti t1 = (histAt ti (st_kvindex s))(key := histAt ti (st_kvindex s) key @ [(nextRev b n, x)])"
    and kv: "\<And>cv. x = Some cv \<Longrightarrow> records key (nextRev b n) cv kv \<and> snd cv \<le> N + 1"
    and fit: "fitting E key []" "length (kc_marshal (ke_kv E) kv) \<le> 2 ^ 31 - 2"
  shows "\<exists>be1. UnsafeSeqPut (ke_bolt E) (st_be s) keyBucketName (keyOf (nextRev b n) (x = None)) (kc_marshal (ke_kv E) kv) = Some be1 \<and>
    tr_bufVersion (be_readBuf be1) = tr_bufVersion (be_readBuf (st_be s)) \<and>
    (let s1 = s\<lparr>st_be := be1, st_kvindex := t1\<rparr> in store_inv E bi ti (N + 1) b (n + 1) s1 \<and> same_past ti b s s1 \<and>
       (\<forall>k r. view E bi ti s1 k r =
          (if k = key \<and> b + 1 \<le> r then (if x = None then None else Some kv) else view E bi ti s k r)))"
proof -
  let ?idx = "nextRev b n" and ?t = "st_kvindex s" and ?v = "kc_marshal (ke_kv E) kv"
  let ?k = "keyOf ?idx (x = None)"
  note I = store_invD [OF inv]
  have ok: "rev_ok ?idx" "rev_ok (nextRev b (n + 1))" using nextRev_ok [OF inv N] by simp_all
  obtain ps where ps: "content bi (st_be s) keyBucket = Some ps" using I(4) by auto
  have be: "be_inv bi ?k (st_be s)"
  proof (cases "x = None")
    case True
    then show ?thesis using be_inv_later [OF I(3), of ?k] keyOf_less [OF ok(1,1), of False True]
      by (simp add: nextRev_def keyOf_def)
  next
    case False
    then have "?k = revToBytes ?idx" by (auto simp: keyOf_def)
    then show ?thesis using I(3) by (simp add: nextRev_def)
  qed
  have valid: "validPair ?k ?v" using fit(2) by (simp add: validPair_def keyOf_length)
  have less: "bytesLess ?k (revToBytes (nextRev b (n + 1)))" using keyOf_less [OF ok, of "x = None" False] nextRev_less by simp
  obtain be1 where be1: "UnsafeSeqPut (ke_bolt E) (st_be s) keyBucket ?k ?v = Some be1"
    "be_inv bi (revToBytes (nextRev b (n + 1))) be1" "content bi be1 = (content bi (st_be s))(keyBucket \<mapsto> putPair (?k, ?v) ps)"
    "tr_bufVersion (be_readBuf be1) = tr_bufVersion (be_readBuf (st_be s))"
    using UnsafeSeqPut_inv [OF env_okD(1) [OF env] be valid less ps] by blast
  let ?s = "s\<lparr>st_be := be1, st_kvindex := t1\<rparr>"
  have st: "stored bi be1 = (stored bi (st_be s))(?k \<mapsto> ?v)"
    using be1(3) ps by (simp add: stored_def bucketMap_def map_of_putPair fun_eq_iff)
  have old: "stored bi be1 (revToBytes (fst e)) = stored bi (st_be s) (revToBytes (fst e))"
    if "e \<in> set (histAt ti ?t k)" for e k using next_is_new [OF inv N that] by (simp add: st)
  have new: "backed E bi ?s key (?idx, x)"
    using ok(1) kv by (cases x) (auto simp: backed_def st)
  have evs: "backed E bi ?s k e" if "e \<in> set (histAt ti t1 k)" for k e
  proof (cases "e \<in> set (histAt ti ?t k)")
    case True
    then show ?thesis using I(12) [OF True] old [OF True] by (simp add: backed_def)
  next
    case False
    then have "k = key" "e = (?idx, x)" using that by (auto simp: t1(3) split: if_splits)
    then show ?thesis using new by simp
  qed
  have vers: "versions_below (histAt ti t1 k) (N + 1)" for k
    using I(11) [of k] kv by (fastforce simp: versions_below_def t1(3))
  have fits: "fitting E k []" if "histAt ti t1 k \<noteq> []" for k
    using that fit(1) I(10) by (auto simp: t1(3) split: if_splits)
  have keys: "keys_ok (stored bi be1)"
    unfolding keys_ok_def
  proof (intro allI impI)
    fix k assume k: "stored bi be1 k \<noteq> None"
    have room: "rev_room ?idx" using ok by (simp add: rev_room_def nextRev_def add.commute)
    have fresh: "stored bi (st_be s) (keyOf ?idx t) = None" for t
    proof (rule ccontr)
      assume "stored bi (st_be s) (keyOf ?idx t) \<noteq> None"
      then have "bytesLess (keyOf ?idx t) (keyOf ?idx False)" using be_invD(12) [OF I(3)] by (simp add: nextRev_def)
      then show False unfolding keyOf_less [OF ok(1,1)] by simp
    qed
    show "\<exists>r t. rev_room r \<and> k = keyOf r t \<and> stored bi be1 (keyOf r (\<not> t)) = None"
    proof (cases "k = ?k")
      case True
      have "keyOf ?idx (\<not> (x = None)) \<noteq> ?k" by (cases x) (simp_all add: keyOf_def)
      then show ?thesis using True room fresh st by (intro exI [of _ ?idx] exI [of _ "x = None"]) simp
    next
      case False
      then obtain r t where r: "rev_room r" "k = keyOf r t" "stored bi (st_be s) (keyOf r (\<not> t)) = None" "stored bi (st_be s) k \<noteq> None"
        using k I(7) by (auto simp: st keys_ok_def)
      have "keyOf r (\<not> t) \<noteq> ?k"
      proof
        assume "keyOf r (\<not> t) = ?k"
        then have "r = ?idx" using keyOf_rev [of r "\<not> t"] keyOf_rev [of ?idx "x = None"] r(1) ok(1) by (simp add: rev_room_def)
        then show False using r(2,4) fresh by simp
      qed
      then show ?thesis using r st by (intro exI [of _ r] exI [of _ t]) simp
    qed
  qed
  have "int (length (putPair (?k, ?v) ps)) \<le> N + 1" using store_inv_size [OF inv ps] length_putPair [of "(?k, ?v)" ps] by simp
  then have "store_inv E bi ti (N + 1) b (n + 1) ?s"
    unfolding store_inv_def
    using I(1,2,5,6) be1(2,3) t1(1,2) keys evs vers fits
    by (simp add: nextRev_def metaBucketName_def leaseBucketName_def)
  moreover have "view E bi ti ?s k r = (if k = key \<and> b + 1 \<le> r then (if x = None then None else Some kv) else view E bi ti s k r)" for k r
  proof (cases "k = key \<and> b + 1 \<le> r")
    case True
    then have "h_get (histAt ti t1 k) r = map_option (\<lambda>(c, v). (?idx, c, v)) x" by (simp add: t1(3) h_get_add nextRev_def)
    then show ?thesis using True kv env_okD(3) [OF env]
      by (cases x) (auto simp: view_def valueAt_def st records_def)
  next
    case False
    then have g: "h_get (histAt ti t1 k) r = h_get (histAt ti ?t k) r" by (auto simp: t1(3) h_get_add nextRev_def)
    show ?thesis
    proof (cases "h_get (histAt ti ?t k) r")
      case (Some y)
      obtain rv c v where y: "y = (rv, c, v)" by (metis prod_cases3)
      have "stored bi be1 (revToBytes rv) = stored bi (st_be s) (revToBytes rv)"
        using old [OF h_get_other [OF Some [unfolded y]]] by simp
      then show ?thesis using False g Some y by (auto simp: view_def valueAt_def)
    qed (use False g in \<open>auto simp: view_def\<close>)
  qed
  moreover have "same_past ti b s ?s" by (auto simp: same_past_def t1(3) h_get_add nextRev_def)
  ultimately show ?thesis using be1(1,4) by (simp add: keyBucketName_def Let_def)
qed

subsection \<open>Leases\<close>

definition leaseIn :: "keyValue option \<Rightarrow> int" where
  "leaseIn x = (case x of None \<Rightarrow> NoLease | Some kv \<Rightarrow> kv_Lease kv)"

text \<open>A key is attached to the lease that its pair names, and to none if it does not exist.\<close>

definition leases_agree :: "('d, 't) kvEnv \<Rightarrow> ('d \<Rightarrow> string \<Rightarrow> pairs option) \<Rightarrow> ('t \<Rightarrow> keyIndex list) \<Rightarrow> int \<Rightarrow> ('d, 't) kvStore \<Rightarrow> bool" where
  "leases_agree E bi ti r s \<longleftrightarrow>
     (\<exists>le. st_le s = Some le \<and> items_inv le \<and> (\<forall>key. GetLease le key = leaseIn (view E bi ti s key r)))"

lemma detachOld_steps:
  assumes le: "st_le s = Some le" and inv: "items_inv le"
  shows "\<exists>le1. detachOld s (GetLease le key) key = Some (s\<lparr>st_le := Some le1\<rparr>) \<and> items_inv le1 \<and> bare le1 = bare le \<and>
    GetLease le1 = (GetLease le)(key := NoLease)"
proof (cases "fmlookup (le_itemMap le) key")
  case None
  then have "GetLease le key = NoLease" by (simp add: GetLease_def)
  moreover have "s = s\<lparr>st_le := Some le\<rparr>" using le by simp
  ultimately show ?thesis using inv by (intro exI [of _ le]) (auto simp: detachOld_def)
next
  case (Some i)
  then have g: "GetLease le key = i" "i \<noteq> NoLease" using inv by (auto simp: GetLease_def items_inv_def)
  obtain l where l: "fmlookup (le_leaseMap le) i = Some l" using Some inv unfolding items_inv_def by blast
  obtain le1 where le1: "Detach le i [key] = (None, le1)" "items_inv le1" "bare le1 = bare le"
    "\<forall>it. fmlookup (le_itemMap le1) it = (if it \<in> set [key] then None else fmlookup (le_itemMap le) it)"
    using Detach_items [OF inv l, of "[key]"] Some by auto
  then have "GetLease le1 = (GetLease le)(key := NoLease)" by (simp add: GetLease_def fun_eq_iff)
  then show ?thesis using le1 le g by (auto simp: detachOld_def)
qed

lemma attachNew_steps:
  assumes le: "st_le s = Some le" and inv: "items_inv le" and free: "GetLease le key = NoLease"
    and i: "i = NoLease \<or> fmlookup (le_leaseMap le) i \<noteq> None"
  shows "\<exists>le1. attachNew s i key = Some (s\<lparr>st_le := Some le1\<rparr>) \<and> items_inv le1 \<and> bare le1 = bare le \<and>
    GetLease le1 = (GetLease le)(key := i)"
proof (cases "i = NoLease")
  case True
  moreover have "s = s\<lparr>st_le := Some le\<rparr>" using le by simp
  ultimately show ?thesis using inv free by (intro exI [of _ le]) (auto simp: attachNew_def)
next
  case False
  then obtain l where l: "fmlookup (le_leaseMap le) i = Some l" using i by auto
  have none: "fmlookup (le_itemMap le) key = None" using free GetLease_None [OF inv] by simp
  obtain le1 where le1: "Attach le i [key] = (None, le1)" "items_inv le1" "bare le1 = bare le"
    "\<forall>it. GetLease le1 it = (if it \<in> set [key] then i else GetLease le it)"
    using Attach_items [OF inv l False, of "[key]"] none by auto
  then have "GetLease le1 = (GetLease le)(key := i)" by (simp add: fun_eq_iff)
  then show ?thesis using le1 le False by (auto simp: attachNew_def)
qed

lemma NoLease_detach: "leaseOf s key = Some (GetLease le key)" if "st_le s = Some le"
  using that by (simp add: leaseOf_def)

subsection \<open>Write transactions\<close>

definition txn_inv :: "('d, 't) kvEnv \<Rightarrow> ('d \<Rightarrow> string \<Rightarrow> pairs option) \<Rightarrow> ('t \<Rightarrow> keyIndex list) \<Rightarrow> int \<Rightarrow>
    ('d, 't) kvStore \<Rightarrow> storeTxnWrite \<Rightarrow> bool" where
  "txn_inv E bi ti N s tw \<longleftrightarrow> store_inv E bi ti N (tw_beginRev tw) (length (tw_changes tw)) s \<and>
     st_currentRev s = tw_beginRev tw \<and> leases_agree E bi ti (tw_beginRev tw + 1) s"

text \<open>What a change of a key leaves as it was.\<close>

definition others :: "('d, 't) kvStore \<Rightarrow> int \<times> int \<times> nat \<times> int \<times> nat option \<times> bool \<times> lessor option \<times> nat" where
  "others s = (st_currentRev s, st_compactMainRev s, st_consistentIndex s, st_batchLimit s, st_ig s, st_lg s,
     map_option bare (st_le s), tr_bufVersion (be_readBuf (st_be s)))"

text \<open>Within a transaction every event is visible at its revision, so the last one is the latest.\<close>

lemma h_get_last:
  assumes "\<forall>e \<in> set h. rev_main (fst e) \<le> t"
  shows "h_get h t = (if h = [] then None else case snd (List.last h) of None \<Rightarrow> None | Some (c, v) \<Rightarrow> Some (fst (List.last h), c, v))"
proof (cases h rule: rev_cases)
  case (snoc as e)
  obtain r x where "e = (r, x)" by (rule prod.exhaust)
  then show ?thesis using assms snoc by (cases x) (auto simp: h_get_add)
qed simp

lemma h_put_get:
  assumes "\<forall>e \<in> set h. rev_main (fst e) \<le> t"
  shows "h_put h r = h @ [(r, Some (case h_get h t of None \<Rightarrow> (r, 1) | Some (_, c, v) \<Rightarrow> (c, v + 1)))]"
  unfolding h_get_last [OF assms] h_put_def by (simp split: option.split)

lemma events_now:
  assumes "store_inv E bi ti N b n s"
  shows "\<forall>e \<in> set (histAt ti (st_kvindex s) key). rev_main (fst e) \<le> b + 1"
proof
  fix e assume "e \<in> set (histAt ti (st_kvindex s) key)"
  then have "fst e < Revision (b + 1) (int n)" by (rule event_before [OF store_invD(8,9) [OF assms]])
  then show "rev_main (fst e) \<le> b + 1" using le_main [of "fst e" "Revision (b + 1) (int n)"] by simp
qed

lemma view_now:
  assumes "store_inv E bi ti N b n s" and "b + 1 \<le> r"
  shows "view E bi ti s key r = view E bi ti s key (b + 1)"
proof -
  let ?h = "histAt ti (st_kvindex s) key"
  have "\<forall>e \<in> set ?h. rev_main (fst e) \<le> b + 1" by (rule events_now [OF assms(1)])
  moreover then have "\<forall>e \<in> set ?h. rev_main (fst e) \<le> r" using assms(2) by force
  ultimately have "h_get ?h r = h_get ?h (b + 1)" by (simp add: h_get_last)
  then show ?thesis by (simp add: view_def)
qed

text \<open>What a put stores.\<close>

definition putValue :: "keyValue option \<Rightarrow> int \<Rightarrow> string \<Rightarrow> string \<Rightarrow> int \<Rightarrow> keyValue" where
  "putValue old r key v i =
     \<lparr>kv_Key = key, kv_CreateRevision = (case old of None \<Rightarrow> r | Some kv \<Rightarrow> kv_CreateRevision kv), kv_ModRevision = r,
      kv_Version = (case old of None \<Rightarrow> 0 | Some kv \<Rightarrow> kv_Version kv) + 1, kv_Value = v, kv_Lease = i\<rparr>"

text \<open>What \<open>put\<close> finds in the index, and the event and the pair that it makes of it.\<close>

lemma put_finds:
  assumes env: "env_ok E bi ti" and inv: "store_inv E bi ti N b n s" and N: "N < 2 ^ 62" and i: "in_int64 i"
    and kv_def: "kv = putValue (view E bi ti s key (b + 1)) (b + 1) key v i"
  shows "\<exists>x. h_put (histAt ti (st_kvindex s) key) (nextRev b n) = histAt ti (st_kvindex s) key @ [(nextRev b n, Some x)] \<and>
    records key (nextRev b n) x kv \<and> snd x \<le> N + 1 \<and>
    (case h_get (histAt ti (st_kvindex s) key) (b + 1) of
       None \<Rightarrow> view E bi ti s key (b + 1) = None \<and> kv_CreateRevision kv = b + 1 \<and> kv_Version kv = 1
     | Some (m, c, w) \<Rightarrow> kv_CreateRevision kv = rev_main c \<and> kv_Version kv = i64 (w + 1))"
proof -
  let ?h = "histAt ti (st_kvindex s) key"
  note I = store_invD [OF inv]
  have r64: "in_int64 (b + 1)" using I(1,2) N by (simp add: in_int64_def)
  note hp = h_put_get [OF events_now [OF inv], of key "nextRev b n"]
  show ?thesis
  proof (cases "h_get ?h (b + 1)")
    case None
    have old: "view E bi ti s key (b + 1) = None" using None by (simp add: view_def)
    then have "records key (nextRev b n) (nextRev b n, 1) kv"
      using r64 i by (simp add: records_def kv_def putValue_def kv_ok_def nextRev_def in_int64_def)
    moreover have "h_put ?h (nextRev b n) = ?h @ [(nextRev b n, Some (nextRev b n, 1))]" using hp None by simp
    moreover have "1 \<le> N + 1" using I(1,2) by simp
    ultimately show ?thesis using None old by (intro exI [of _ "(nextRev b n, 1)"]) (simp add: kv_def putValue_def)
  next
    case (Some y)
    obtain m c w where y: "y = (m, c, w)" by (metis prod_cases3)
    obtain kv0 where kv0: "view E bi ti s key (b + 1) = Some kv0" "records key m (c, w) kv0"
      using view_event [OF env inv Some [unfolded y]] by blast
    have "(m, Some (c, w)) \<in> set ?h" by (rule h_get_other [OF Some [unfolded y]])
    then have w: "w \<le> N" using I(11) [of key] unfolding versions_below_def by blast
    have k0: "in_int64 (rev_main c)" "in_int64 w" "kv_CreateRevision kv0 = rev_main c" "kv_Version kv0 = w"
      using kv0(2) by (auto simp: records_def kv_ok_def)
    then have w64: "i64 (w + 1) = w + 1" "in_int64 (w + 1)" using w N by (simp_all add: in_int64_def)
    have "records key (nextRev b n) (c, w + 1) kv"
      using r64 i k0 kv0(1) w64 by (simp add: records_def kv_def putValue_def kv_ok_def nextRev_def)
    moreover have "h_put ?h (nextRev b n) = ?h @ [(nextRev b n, Some (c, w + 1))]" using hp Some y by simp
    ultimately show ?thesis using Some y w w64(1) kv0(1) k0 by (intro exI [of _ "(c, w + 1)"]) (simp add: kv_def putValue_def)
  qed
qed

theorem Put_changes:
  assumes env: "env_ok E bi ti" and inv: "txn_inv E bi ti N s tw" and N: "N < 2 ^ 62" and fit: "fitting E key v"
    and i: "in_int64 i" "i = NoLease \<or> fmlookup (le_leaseMap (the (st_le s))) i \<noteq> None"
  shows "\<exists>s1 tw1. Put E s tw key v i = Some (tw_beginRev tw + 1, s1, tw1) \<and> txn_inv E bi ti (N + 1) s1 tw1 \<and> others s1 = others s \<and>
    same_past ti (tw_beginRev tw) s s1 \<and> tw_beginRev tw1 = tw_beginRev tw \<and> length (tw_changes tw1) = length (tw_changes tw) + 1 \<and>
    (\<forall>k t. view E bi ti s1 k t =
       (if k = key \<and> tw_beginRev tw + 1 \<le> t
        then Some (putValue (view E bi ti s key (tw_beginRev tw + 1)) (tw_beginRev tw + 1) key v i) else view E bi ti s k t))"
proof -
  let ?b = "tw_beginRev tw" and ?n = "length (tw_changes tw)" and ?t = "st_kvindex s"
  let ?h = "histAt ti ?t key" and ?r = "tw_beginRev tw + 1"
  have S: "store_inv E bi ti N ?b ?n s" "st_currentRev s = ?b" "leases_agree E bi ti ?r s" using inv by (simp_all add: txn_inv_def)
  note I = store_invD [OF S(1)]
  let ?idx = "nextRev ?b ?n"
  have r64: "i64 ?r = ?r" "in_int64 ?r" using I(1,2) N by (simp_all add: in_int64_def)
  obtain le where le: "st_le s = Some le" "items_inv le" "\<And>k. GetLease le k = leaseIn (view E bi ti s k ?r)"
    using S(3) by (auto simp: leases_agree_def)
  let ?old = "view E bi ti s key ?r"
  define kv where "kv = putValue ?old ?r key v i"
  obtain x where hp: "h_put ?h ?idx = ?h @ [(?idx, Some x)]" and rec: "records key ?idx x kv" "snd x \<le> N + 1"
    and found: "case h_get ?h ?r of None \<Rightarrow> ?old = None \<and> kv_CreateRevision kv = ?r \<and> kv_Version kv = 1
     | Some (m, c, w) \<Rightarrow> kv_CreateRevision kv = rev_main c \<and> kv_Version kv = i64 (w + 1)"
    using put_finds [OF env S(1) N i(1) kv_def] by blast
  have got: "tiGet (ke_btree E) ?t key ?r = Some (asResult (h_get ?h ?r))" by (rule tiGet_history [OF env_okD(2) [OF env] I(8)])
  have room: "fits ti ?t key ?idx"
    using fits_versions [OF I(8,9) _ I(11) [of key]] nextRev_ok [OF S(1) N] I(1,2) N by (simp add: nextRev_def)
  obtain t1 where t1: "tiPut (ke_btree E) ?t key ?idx = Some t1" "ti_inv ti t1"
    "histAt ti t1 = (histAt ti ?t)(key := h_put ?h ?idx)"
    using tiPut_all [OF env_okD(2) [OF env] I(8) room] by blast
  have ch: "changed_before ti t1 (nextRev ?b (?n + 1))"
    using tiPut_changed [OF env_okD(2) [OF env] _ t1(1) nextRev_less] I(9) by (simp add: nextRev_def)
  have hist: "histAt ti t1 = (histAt ti ?t)(key := ?h @ [(?idx, Some x)])" using t1(3) hp by simp
  have size: "length (kc_marshal (ke_kv E) kv) \<le> 2 ^ 31 - 2" using fit by (simp add: fitting_def kv_def putValue_def)
  obtain be1 where be1: "UnsafeSeqPut (ke_bolt E) (st_be s) keyBucketName (revToBytes ?idx) (kc_marshal (ke_kv E) kv) = Some be1"
    "tr_bufVersion (be_readBuf be1) = tr_bufVersion (be_readBuf (st_be s))"
    "store_inv E bi ti (N + 1) ?b (?n + 1) (s\<lparr>st_be := be1, st_kvindex := t1\<rparr>)"
    "\<And>k t. view E bi ti (s\<lparr>st_be := be1, st_kvindex := t1\<rparr>) k t = (if k = key \<and> ?r \<le> t then Some kv else view E bi ti s k t)"
    "same_past ti ?b s (s\<lparr>st_be := be1, st_kvindex := t1\<rparr>)"
    using store_change [OF env S(1) N t1(2) ch hist _ fitting_delete [OF fit] size] rec by (auto simp: Let_def)
  let ?s = "s\<lparr>st_be := be1, st_kvindex := t1\<rparr>"
  have le': "st_le ?s = Some le" using le(1) by simp
  obtain le1 where le1: "detachOld ?s (GetLease le key) key = Some (?s\<lparr>st_le := Some le1\<rparr>)" "items_inv le1" "bare le1 = bare le"
    "GetLease le1 = (GetLease le)(key := NoLease)" using detachOld_steps [OF le' le(2)] by blast
  have i1: "i = NoLease \<or> fmlookup (le_leaseMap le1) i \<noteq> None" using i(2) le(1) bare_fields(2) [OF le1(3)] by auto
  obtain le2 where le2: "attachNew (?s\<lparr>st_le := Some le1\<rparr>) i key = Some (?s\<lparr>st_le := Some le2\<rparr>)" "items_inv le2" "bare le2 = bare le"
    "GetLease le2 = (GetLease le)(key := i)"
    using attachNew_steps [of "?s\<lparr>st_le := Some le1\<rparr>" le1 key i] le1 i1 by auto
  let ?s1 = "?s\<lparr>st_le := Some le2\<rparr>" and ?tw1 = "tw\<lparr>tw_changes := tw_changes tw @ [kv]\<rparr>"
  have "leases_agree E bi ti ?r ?s1"
    unfolding leases_agree_def using le2(2,4) le(3) be1(4) by (simp add: kv_def putValue_def leaseIn_def)
  then have "txn_inv E bi ti (N + 1) ?s1 ?tw1" using be1(3) S(2) by (simp add: txn_inv_def)
  moreover have "Put E s tw key v i = Some (?r, ?s1, ?tw1)"
  proof -
    have kv: "\<lparr>kv_Key = key, kv_CreateRevision = kv_CreateRevision kv, kv_ModRevision = ?r, kv_Version = kv_Version kv, kv_Value = v, kv_Lease = i\<rparr> = kv"
      by (simp add: kv_def putValue_def)
    have idx: "Revision ?r (int ?n) = ?idx" by (simp add: nextRev_def)
    show ?thesis
    proof (cases "h_get ?h ?r")
      case None
      then have "GetLease le key = NoLease" using le(3) found by (simp add: leaseIn_def)
      then show ?thesis using None found got kv be1(1) t1(1) le1(1) le2(1) r64(1)
        by (simp add: Put_def tw_put_def asResult_def idx Let_def)
    next
      case (Some y)
      obtain m c w where "y = (m, c, w)" by (metis prod_cases3)
      then show ?thesis using Some found got kv be1(1) t1(1) le1(1) le2(1) r64(1) NoLease_detach [OF le(1)]
        by (simp add: Put_def tw_put_def asResult_def idx Let_def)
    qed
  qed
  moreover have "others ?s1 = others s" using be1(2) le(1) le2(3) by (simp add: others_def)
  moreover have "same_past ti ?b s ?s1" using be1(5) by (simp add: same_past_def)
  ultimately show ?thesis using be1(4) by (intro exI [of _ ?s1] exI [of _ ?tw1]) (simp add: kv_def)
qed

subsection \<open>Deletions\<close>

lemma view_exists:
  assumes "env_ok E bi ti" and "store_inv E bi ti N b n s"
  shows "view E bi ti s key t = None \<longleftrightarrow> h_get (histAt ti (st_kvindex s) key) t = None"
proof (cases "h_get (histAt ti (st_kvindex s) key) t")
  case None
  then show ?thesis by (simp add: view_def)
next
  case (Some y)
  obtain r c v where "y = (r, c, v)" by (metis prod_cases3)
  then show ?thesis using view_event [OF assms, of key t r c v] Some by auto
qed

theorem delete_changes:
  assumes env: "env_ok E bi ti" and inv: "txn_inv E bi ti N s tw" and N: "N < 2 ^ 62"
    and ex: "view E bi ti s key (tw_beginRev tw + 1) \<noteq> None"
  shows "\<exists>s1 tw1. tw_delete E (s, tw) key = Some (s1, tw1) \<and> txn_inv E bi ti (N + 1) s1 tw1 \<and> others s1 = others s \<and>
    same_past ti (tw_beginRev tw) s s1 \<and> tw_beginRev tw1 = tw_beginRev tw \<and> length (tw_changes tw1) = length (tw_changes tw) + 1 \<and>
    (\<forall>k t. view E bi ti s1 k t = (if k = key \<and> tw_beginRev tw + 1 \<le> t then None else view E bi ti s k t))"
proof -
  let ?b = "tw_beginRev tw" and ?n = "length (tw_changes tw)" and ?t = "st_kvindex s"
  let ?h = "histAt ti ?t key" and ?r = "tw_beginRev tw + 1"
  have S: "store_inv E bi ti N ?b ?n s" "st_currentRev s = ?b" "leases_agree E bi ti ?r s" using inv by (simp_all add: txn_inv_def)
  note I = store_invD [OF S(1)]
  let ?idx = "nextRev ?b ?n"
  have r64: "i64 ?r = ?r" using I(1,2) N by simp
  obtain le where le: "st_le s = Some le" "items_inv le" "\<And>k. GetLease le k = leaseIn (view E bi ti s k ?r)"
    using S(3) by (auto simp: leases_agree_def)
  obtain x where x: "h_get ?h ?r = Some x" using ex view_exists [OF env S(1)] by auto
  then have "?h \<noteq> []" by auto
  then have fit: "fitting E key []" by (rule I(10))
  define kv where "kv = \<lparr>kv_Key = key, kv_CreateRevision = 0, kv_ModRevision = 0, kv_Version = 0, kv_Value = [], kv_Lease = 0\<rparr>"
  have size: "length (kc_marshal (ke_kv E) kv) \<le> 2 ^ 31 - 2" using fit by (simp add: fitting_def kv_def)
  have room: "fits ti ?t key ?idx"
    using fits_versions [OF I(8,9) _ I(11) [of key]] nextRev_ok [OF S(1) N] I(1,2) N by (simp add: nextRev_def)
  obtain t1 where t1: "tiTombstone (ke_btree E) ?t key ?idx = Some (None, t1)" "ti_inv ti t1"
    "histAt ti t1 = (histAt ti ?t)(key := ?h @ [(?idx, None)])"
    using tiTombstone_all [OF env_okD(2) [OF env] I(8) room x events_now [OF S(1)]] by blast
  have ch: "changed_before ti t1 (nextRev ?b (?n + 1))"
    using tiTombstone_changed [OF env_okD(2) [OF env] _ t1(1) nextRev_less] I(9) by (simp add: nextRev_def)
  obtain be1 where be1: "UnsafeSeqPut (ke_bolt E) (st_be s) keyBucketName (keyOf ?idx True) (kc_marshal (ke_kv E) kv) = Some be1"
    "tr_bufVersion (be_readBuf be1) = tr_bufVersion (be_readBuf (st_be s))"
    "store_inv E bi ti (N + 1) ?b (?n + 1) (s\<lparr>st_be := be1, st_kvindex := t1\<rparr>)"
    "\<And>k t. view E bi ti (s\<lparr>st_be := be1, st_kvindex := t1\<rparr>) k t = (if k = key \<and> ?r \<le> t then None else view E bi ti s k t)"
    "same_past ti ?b s (s\<lparr>st_be := be1, st_kvindex := t1\<rparr>)"
    using store_change [OF env S(1) N t1(2) ch t1(3) _ fit size] by (auto simp: Let_def)
  let ?s = "s\<lparr>st_be := be1, st_kvindex := t1\<rparr>"
  have le': "st_le ?s = Some le" using le(1) by simp
  obtain le1 where le1: "detachOld ?s (GetLease le key) key = Some (?s\<lparr>st_le := Some le1\<rparr>)" "items_inv le1" "bare le1 = bare le"
    "GetLease le1 = (GetLease le)(key := NoLease)" using detachOld_steps [OF le' le(2)] by blast
  let ?s1 = "?s\<lparr>st_le := Some le1\<rparr>" and ?tw1 = "tw\<lparr>tw_changes := tw_changes tw @ [kv]\<rparr>"
  have "leases_agree E bi ti ?r ?s1"
    unfolding leases_agree_def using le1(2,4) le(3) be1(4) by (simp add: leaseIn_def)
  then have "txn_inv E bi ti (N + 1) ?s1 ?tw1" using be1(3) S(2) by (simp add: txn_inv_def)
  moreover have "tw_delete E (s, tw) key = Some (?s1, ?tw1)"
  proof -
    have idx: "Revision ?r (int ?n) = ?idx" by (simp add: nextRev_def)
    have app: "appendMarkTombstone (revToBytes ?idx) = Some (keyOf ?idx True)"
      by (simp add: appendMarkTombstone_def revBytesLen_def keyOf_def markTombstone_def)
    show ?thesis using be1(1) t1(1) le1(1) r64 app NoLease_detach [OF le(1)] by (simp add: tw_delete_def idx Let_def flip: kv_def)
  qed
  moreover have "others ?s1 = others s" using be1(2) le(1) le1(3) by (simp add: others_def)
  moreover have "same_past ti ?b s ?s1" using be1(5) by (simp add: same_past_def)
  ultimately show ?thesis using be1(4) by (intro exI [of _ ?s1] exI [of _ ?tw1]) simp
qed

lemma delete_all:
  assumes env: "env_ok E bi ti" and "txn_inv E bi ti N s tw" and "N + int (length keys) < 2 ^ 62" and "distinct keys"
    and "\<forall>key \<in> set keys. view E bi ti s key (tw_beginRev tw + 1) \<noteq> None"
  shows "\<exists>s1 tw1. foldM (tw_delete E) (s, tw) keys = Some (s1, tw1) \<and> txn_inv E bi ti (N + int (length keys)) s1 tw1 \<and> others s1 = others s \<and>
    same_past ti (tw_beginRev tw) s s1 \<and> tw_beginRev tw1 = tw_beginRev tw \<and> length (tw_changes tw1) = length (tw_changes tw) + length keys \<and>
    (\<forall>k t. view E bi ti s1 k t = (if k \<in> set keys \<and> tw_beginRev tw + 1 \<le> t then None else view E bi ti s k t))"
  using assms(2-)
proof (induction keys arbitrary: s tw N)
  case (Cons key keys)
  obtain s1 tw1 where 1: "tw_delete E (s, tw) key = Some (s1, tw1)" "txn_inv E bi ti (N + 1) s1 tw1" "others s1 = others s"
    "tw_beginRev tw1 = tw_beginRev tw" "length (tw_changes tw1) = length (tw_changes tw) + 1"
    "\<forall>k t. view E bi ti s1 k t = (if k = key \<and> tw_beginRev tw + 1 \<le> t then None else view E bi ti s k t)"
    "same_past ti (tw_beginRev tw) s s1"
    using delete_changes [OF env Cons.prems(1), of key] Cons.prems(2,4) by auto
  have "N + 1 + int (length keys) < 2 ^ 62" "distinct keys" using Cons.prems(2,3) by simp_all
  moreover have "\<forall>k \<in> set keys. view E bi ti s1 k (tw_beginRev tw1 + 1) \<noteq> None" using 1(4,6) Cons.prems(3,4) by auto
  ultimately obtain s2 tw2 where 2: "foldM (tw_delete E) (s1, tw1) keys = Some (s2, tw2)"
    "txn_inv E bi ti (N + 1 + int (length keys)) s2 tw2" "others s2 = others s1" "tw_beginRev tw2 = tw_beginRev tw1"
    "length (tw_changes tw2) = length (tw_changes tw1) + length keys"
    "\<forall>k t. view E bi ti s2 k t = (if k \<in> set keys \<and> tw_beginRev tw1 + 1 \<le> t then None else view E bi ti s1 k t)"
    "same_past ti (tw_beginRev tw) s1 s2"
    using Cons.IH [OF 1(2)] 1(4) by auto
  have "N + 1 + int (length keys) = N + int (length (key # keys))" by simp
  then have "txn_inv E bi ti (N + int (length (key # keys))) s2 tw2" using 2(2) by metis
  moreover have "same_past ti (tw_beginRev tw) s s2" using same_past_trans [OF 1(7) 2(7)] .
  ultimately show ?case using 1(1-6) 2(1,3-6) by (intro exI [of _ s2] exI [of _ tw2]) auto
qed auto

end
