(* ===== verification/KvStoreOps.thy ===== *)
theory KvStoreOps
  imports KvStoreFacts
begin

text \<open>
  Ranges, deletions of ranges, the end of a transaction, readers and the revocation of a lease, on the
  abstract store.
\<close>

subsection \<open>Deleting a range\<close>

text \<open>The revision at which a transaction reads: everything that it has done itself is visible.\<close>

definition readRev :: "storeTxnWrite \<Rightarrow> int" where
  "readRev tw = (if length (tw_changes tw) > 0 then tw_beginRev tw + 1 else tw_beginRev tw)"

lemma h_get_now:
  assumes "store_inv E bi ti N (tw_beginRev tw) (length (tw_changes tw)) s"
  shows "h_get (histAt ti (st_kvindex s) k) (readRev tw) = h_get (histAt ti (st_kvindex s) k) (tw_beginRev tw + 1)"
proof (cases "length (tw_changes tw) > 0")
  case False
  have "rev_main (fst e) \<le> tw_beginRev tw" if e: "e \<in> set (histAt ti (st_kvindex s) k)" for e
  proof -
    have "fst e < Revision (tw_beginRev tw + 1) 0" using event_before [OF store_invD(8,9) [OF assms] e] False by simp
    moreover have "backed E bi s k e" by (rule store_invD(12) [OF assms e])
    ultimately show ?thesis by (cases "fst e") (auto simp: backed_def rev_ok_def Revision_less)
  qed
  then have "\<forall>e \<in> set (histAt ti (st_kvindex s) k). rev_main (fst e) \<le> tw_beginRev tw" by blast
  moreover have "\<forall>e \<in> set (histAt ti (st_kvindex s) k). rev_main (fst e) \<le> tw_beginRev tw + 1" by (rule events_now [OF assms])
  ultimately show ?thesis using False by (simp add: h_get_last readRev_def)
qed (simp add: readRev_def)

lemma readRev_i64:
  assumes "store_inv E bi ti N (tw_beginRev tw) n s" and "N < 2 ^ 62"
  shows "(if length (tw_changes tw) > 0 then i64 (tw_beginRev tw + 1) else tw_beginRev tw) = readRev tw" "i64 (tw_beginRev tw + 1) = tw_beginRev tw + 1"
  using store_invD(1,2) [OF assms(1)] assms(2) by (simp_all add: readRev_def)

text \<open>The keys of a request that exist, in their order.\<close>

definition existing :: "('d, 't) kvEnv \<Rightarrow> ('d \<Rightarrow> string \<Rightarrow> pairs option) \<Rightarrow> ('t \<Rightarrow> keyIndex list) \<Rightarrow> ('d, 't) kvStore \<Rightarrow>
    string \<Rightarrow> string option \<Rightarrow> int \<Rightarrow> string list \<Rightarrow> bool" where
  "existing E bi ti s key en r keys \<longleftrightarrow>
     sorted_wrt bytesLess keys \<and> set keys = {k. wanted key en k \<and> view E bi ti s k r \<noteq> None}"

lemma DeleteRange_keys:
  assumes env: "env_ok E bi ti" and inv: "txn_inv E bi ti N s tw" and N: "N < 2 ^ 62"
  shows "\<exists>keys. existing E bi ti s key en (tw_beginRev tw + 1) keys \<and>
    (N + int (length keys) < 2 ^ 62 \<longrightarrow> (\<exists>s1 tw1.
       DeleteRange E s tw key en = Some (int (length keys),
         (if keys = [] \<and> tw_changes tw = [] then tw_beginRev tw else tw_beginRev tw + 1), s1, tw1) \<and>
       txn_inv E bi ti (N + int (length keys)) s1 tw1 \<and> others s1 = others s \<and> same_past ti (tw_beginRev tw) s s1 \<and>
       tw_beginRev tw1 = tw_beginRev tw \<and> length (tw_changes tw1) = length (tw_changes tw) + length keys \<and>
       (\<forall>k t. view E bi ti s1 k t = (if k \<in> set keys \<and> tw_beginRev tw + 1 \<le> t then None else view E bi ti s k t))))"
proof -
  have S: "store_inv E bi ti N (tw_beginRev tw) (length (tw_changes tw)) s" using inv by (simp add: txn_inv_def)
  note R = readRev_i64 [OF S N]
  obtain keys revs where k: "tiRange (ke_btree E) (st_kvindex s) key en (readRev tw) = Some (keys, revs)" "sorted_wrt bytesLess keys"
    "set keys = {k. wanted key en k \<and> h_get (histAt ti (st_kvindex s) k) (readRev tw) \<noteq> None}"
    using tiRange_keys [OF env_okD(2) [OF env] store_invD(8) [OF S]] by blast
  have ex: "existing E bi ti s key en (tw_beginRev tw + 1) keys"
    unfolding existing_def view_exists [OF env S] using k(2,3) h_get_now [OF S] by simp
  moreover have "\<exists>s1 tw1. DeleteRange E s tw key en = Some (int (length keys),
         (if keys = [] \<and> tw_changes tw = [] then tw_beginRev tw else tw_beginRev tw + 1), s1, tw1) \<and>
       txn_inv E bi ti (N + int (length keys)) s1 tw1 \<and> others s1 = others s \<and> same_past ti (tw_beginRev tw) s s1 \<and>
       tw_beginRev tw1 = tw_beginRev tw \<and> length (tw_changes tw1) = length (tw_changes tw) + length keys \<and>
       (\<forall>k t. view E bi ti s1 k t = (if k \<in> set keys \<and> tw_beginRev tw + 1 \<le> t then None else view E bi ti s k t))"
    if small: "N + int (length keys) < 2 ^ 62"
  proof -
    have all: "\<forall>key \<in> set keys. view E bi ti s key (tw_beginRev tw + 1) \<noteq> None" using ex by (simp add: existing_def)
    obtain s1 tw1 where d: "foldM (tw_delete E) (s, tw) keys = Some (s1, tw1)" "txn_inv E bi ti (N + int (length keys)) s1 tw1"
      "others s1 = others s" "same_past ti (tw_beginRev tw) s s1" "tw_beginRev tw1 = tw_beginRev tw"
      "length (tw_changes tw1) = length (tw_changes tw) + length keys"
      "\<forall>k t. view E bi ti s1 k t = (if k \<in> set keys \<and> tw_beginRev tw + 1 \<le> t then None else view E bi ti s k t)"
      using delete_all [OF env inv small sorted_keys_distinct [OF k(2)] all] by blast
    have "tw_deleteRange E s tw key en = Some (int (length keys), s1, tw1)"
      using k(1) d(1) R(2) by (cases "tw_changes tw = []"; cases keys) (auto simp: tw_deleteRange_def readRev_def Let_def)
    moreover have "int (length keys) \<noteq> 0 \<or> length (tw_changes tw1) > 0 \<longleftrightarrow> \<not> (keys = [] \<and> tw_changes tw = [])" using d(6) by auto
    ultimately have "DeleteRange E s tw key en = Some (int (length keys),
         (if keys = [] \<and> tw_changes tw = [] then tw_beginRev tw else tw_beginRev tw + 1), s1, tw1)"
      using R(2) d(5) by (simp add: DeleteRange_def)
    then show ?thesis using d by blast
  qed
  ultimately show ?thesis by blast
qed

subsection \<open>The end of a transaction\<close>

text \<open>Other buckets, and the time between transactions.\<close>

lemma store_inv_backend:
  assumes "store_inv E bi ti N b n s" and "be_inv bi (revToBytes (Revision (b + 1) (int n))) be'"
    and c: "content bi be' keyBucket = content bi (st_be s) keyBucket"
      "content bi be' metaBucketName \<noteq> None" "content bi be' leaseBucketName \<noteq> None"
  shows "store_inv E bi ti N b n (s\<lparr>st_be := be'\<rparr>)" "view E bi ti (s\<lparr>st_be := be'\<rparr>) = view E bi ti s"
proof -
  have st: "stored bi be' = stored bi (st_be s)" using c(1) by (simp add: stored_def)
  show "store_inv E bi ti N b n (s\<lparr>st_be := be'\<rparr>)"
    using assms unfolding store_inv_def by (simp add: st backed_def)
  show "view E bi ti (s\<lparr>st_be := be'\<rparr>) = view E bi ti s"
    by (simp add: view_def valueAt_def st fun_eq_iff split: option.split)
qed

lemma store_inv_next:
  assumes inv: "store_inv E bi ti N b n s" and n: "0 < n" and N: "N < 2 ^ 62"
  shows "store_inv E bi ti N (b + 1) 0 s"
proof -
  note I = store_invD [OF inv]
  have r: "rev_ok (Revision (b + 1) (int n))" "rev_ok (Revision (b + 1 + 1) 0)" using I(1,2) N by (simp_all add: rev_ok_def)
  have lt: "Revision (b + 1) (int n) < Revision (b + 1 + 1) 0" by (simp add: Revision_less)
  have "be_inv bi (revToBytes (Revision (b + 1 + 1) 0)) (st_be s)"
    using be_inv_later [OF I(3)] revToBytes_order [OF r] lt by blast
  moreover have "changed_before ti (st_kvindex s) (Revision (b + 1 + 1) 0)" using changed_later [OF I(9)] lt by simp
  moreover have "b + 1 \<le> N" using I(2) n by simp
  ultimately show ?thesis using inv unfolding store_inv_def by simp
qed

definition idle :: "('d, 't) kvEnv \<Rightarrow> ('d \<Rightarrow> string \<Rightarrow> pairs option) \<Rightarrow> ('t \<Rightarrow> keyIndex list) \<Rightarrow> int \<Rightarrow> ('d, 't) kvStore \<Rightarrow> bool" where
  "idle E bi ti N s \<longleftrightarrow> txn_inv E bi ti N s (WriteTxn s) \<and> pendingPairs (st_be s) = []"

lemma idle_store: "idle E bi ti N s \<Longrightarrow> store_inv E bi ti N (st_currentRev s) 0 s \<and> leases_agree E bi ti (st_currentRev s + 1) s"
  by (simp add: idle_def txn_inv_def WriteTxn_def)

lemma saveIndex_keeps:
  assumes env: "env_ok E bi ti" and inv: "store_inv E bi ti N b n s"
  shows "\<exists>be1 ci. saveIndex E s = Some (s\<lparr>st_be := be1, st_consistentIndex := ci\<rparr>) \<and> store_inv E bi ti N b n (s\<lparr>st_be := be1\<rparr>) \<and>
    view E bi ti (s\<lparr>st_be := be1\<rparr>) = view E bi ti s \<and> tr_bufVersion (be_readBuf be1) = tr_bufVersion (be_readBuf (st_be s))"
proof (cases "st_ig s")
  case None
  then have "saveIndex E s = Some (s\<lparr>st_be := st_be s, st_consistentIndex := st_consistentIndex s\<rparr>)" by (simp add: saveIndex_def)
  then show ?thesis using inv by (intro exI [of _ "st_be s"] exI [of _ "st_consistentIndex s"]) simp
next
  case (Some ci)
  note I = store_invD [OF inv]
  obtain ps where ps: "content bi (st_be s) metaBucketName = Some ps" using I(5) by auto
  have v: "validPair consistentIndexKeyName (PutUint64 ci)" by (simp add: validPair_def consistentIndexKeyName_def)
  have ne: "metaBucketName \<noteq> keyBucket" "leaseBucketName \<noteq> metaBucketName" by (simp_all add: metaBucketName_def leaseBucketName_def)
  obtain be1 where be1: "UnsafePut (ke_bolt E) (st_be s) metaBucketName consistentIndexKeyName (PutUint64 ci) = Some be1"
    "be_inv bi (revToBytes (Revision (b + 1) (int n))) be1"
    "content bi be1 = (content bi (st_be s))(metaBucketName \<mapsto> putPair (consistentIndexKeyName, PutUint64 ci) ps)"
    "tr_bufVersion (be_readBuf be1) = tr_bufVersion (be_readBuf (st_be s))"
    using UnsafePut_inv [OF env_okD(1) [OF env] I(3) v ps ne(1)] by blast
  have "saveIndex E s = Some (s\<lparr>st_be := be1, st_consistentIndex := ci\<rparr>)" using Some be1(1) by (simp add: saveIndex_def)
  moreover have "store_inv E bi ti N b n (s\<lparr>st_be := be1\<rparr>)" "view E bi ti (s\<lparr>st_be := be1\<rparr>) = view E bi ti s"
    using store_inv_backend [OF inv be1(2)] I(6) ne by (simp_all add: be1(3))
  ultimately show ?thesis using be1(4) by blast
qed

theorem EndWrite_keeps:
  assumes env: "env_ok E bi ti" and inv: "txn_inv E bi ti N s tw" and N: "N < 2 ^ 62"
    and ver: "tr_bufVersion (be_readBuf (st_be s)) < MaxUint64"
  shows "\<exists>s1. EndWrite E s tw = Some s1 \<and> idle E bi ti N s1 \<and> view E bi ti s1 = view E bi ti s \<and>
    st_currentRev s1 = (if tw_changes tw = [] then tw_beginRev tw else tw_beginRev tw + 1) \<and>
    st_kvindex s1 = st_kvindex s \<and> st_le s1 = st_le s \<and> st_compactMainRev s1 = st_compactMainRev s \<and> st_batchLimit s1 = st_batchLimit s \<and>
    tr_bufVersion (be_readBuf (st_be s1)) \<le> tr_bufVersion (be_readBuf (st_be s)) + 1"
proof -
  let ?b = "tw_beginRev tw" and ?n = "length (tw_changes tw)"
  have S: "store_inv E bi ti N ?b ?n s" "st_currentRev s = ?b" "leases_agree E bi ti (?b + 1) s" using inv by (simp_all add: txn_inv_def)
  note I = store_invD [OF S(1)]
  have lim: "revToBytes (Revision (?b + 1) (int ?n)) \<noteq> []" by simp
  obtain be0 ci where s0: "(if tw_changes tw \<noteq> [] then saveIndex E s else Some s) = Some (s\<lparr>st_be := be0, st_consistentIndex := ci\<rparr>)"
    "store_inv E bi ti N ?b ?n (s\<lparr>st_be := be0\<rparr>)" "view E bi ti (s\<lparr>st_be := be0\<rparr>) = view E bi ti s"
    "tr_bufVersion (be_readBuf be0) = tr_bufVersion (be_readBuf (st_be s))"
    "tw_changes tw = [] \<Longrightarrow> be0 = st_be s \<and> ci = st_consistentIndex s"
  proof (cases "tw_changes tw = []")
    case True
    then show ?thesis using that [of "st_consistentIndex s" "st_be s"] S(1) by simp
  next
    case False
    then show ?thesis using that saveIndex_keeps [OF env S(1)] by auto
  qed
  have "be_inv bi (revToBytes (Revision (?b + 1) (int ?n))) be0" using store_invD(3) [OF s0(2)] by simp
  then obtain be1 where be1: "Unlock (ke_bolt E) be0 = Some be1" "be_inv bi (revToBytes (Revision (?b + 1) (int ?n))) be1"
    "pendingPairs be1 = []" "content bi be1 = content bi be0" "tr_bufVersion (be_readBuf be1) \<le> tr_bufVersion (be_readBuf be0) + 1"
    using Unlock_inv [OF env_okD(1) [OF env] _ _ lim, of be0] ver s0(4) by auto
  have s1: "store_inv E bi ti N ?b ?n (s\<lparr>st_be := be1\<rparr>)" "view E bi ti (s\<lparr>st_be := be1\<rparr>) = view E bi ti s"
    using store_inv_backend [OF s0(2), of be1] be1(2,4) store_invD(5,6) [OF s0(2)] s0(3) by simp_all
  let ?r = "if tw_changes tw = [] then ?b else ?b + 1"
  let ?s1 = "s\<lparr>st_be := be1, st_consistentIndex := ci, st_currentRev := ?r\<rparr>"
  have r64: "i64 (?b + 1) = ?b + 1" using I(1,2) N by simp
  have "EndWrite E s tw = Some ?s1"
  proof (cases "tw_changes tw = []")
    case True
    then have "be0 = st_be s" "ci = st_consistentIndex s" using s0(5) by simp_all
    then show ?thesis using True be1(1) S(2) by (simp add: EndWrite_def)
  next
    case False
    then show ?thesis using s0(1) be1(1) S(2) r64 by (simp add: EndWrite_def)
  qed
  moreover have "store_inv E bi ti N ?r 0 ?s1"
  proof (cases "tw_changes tw = []")
    case True
    then show ?thesis using s1(1) by simp
  next
    case False
    then have "0 < ?n" by simp
    from store_inv_next [OF s1(1) this N] show ?thesis using False by simp
  qed
  moreover have "leases_agree E bi ti (?r + 1) ?s1"
  proof -
    have "view E bi ti s key (?r + 1) = view E bi ti s key (?b + 1)" for key
      by (rule view_now [OF S(1)]) simp
    then show ?thesis using S(3) s1(2) unfolding leases_agree_def by simp
  qed
  ultimately show ?thesis
    using be1(3,5) s0(4) s1(2) by (intro exI [of _ ?s1]) (simp add: idle_def txn_inv_def WriteTxn_def)
qed

subsection \<open>Reading ranges\<close>

text \<open>The revisions that a range shows, up to a limit, and how many there are.\<close>

lemma visitRevisions_all:
  assumes "\<forall>ki \<in> set kis. ki_inv ki \<and> \<not> kiIsEmpty ki" and "0 < limit \<longrightarrow> int (length revs) \<le> limit"
  shows "foldM (visitRevisions r limit) (revs, cnt) kis =
    (let rs = map (\<lambda>ki. the (shown r ki)) (filter (\<lambda>ki. shown r ki \<noteq> None) kis) in
     Some (revs @ (if limit \<le> 0 then rs else take (nat limit - length revs) rs), cnt + length rs))"
  using assms
proof (induction kis arbitrary: revs cnt)
  case (Cons ki kis)
  have get: "kiGet ki r = Some (asResult (h_get (history ki) r))" using kiGet_history Cons.prems(1) by simp
  show ?case
  proof (cases "h_get (history ki) r")
    case None
    then show ?thesis using get Cons by (simp add: visitRevisions_def asResult_def shown_def)
  next
    case (Some y)
    obtain m c w where y: "y = (m, c, w)" by (metis prod_cases3)
    have others: "\<forall>ki \<in> set kis. ki_inv ki \<and> \<not> kiIsEmpty ki" using Cons.prems(1) by simp
    have step: "visitRevisions r limit (revs, cnt) ki = Some (if limit \<le> 0 \<or> int (length revs) < limit then revs @ [m] else revs, cnt + 1)"
      using get Some y by (simp add: visitRevisions_def asResult_def)
    have sh: "shown r ki = Some m" using Some y by (simp add: shown_def)
    show ?thesis
    proof (cases "limit \<le> 0 \<or> int (length revs) < limit")
      case True
      then have "0 < limit \<longrightarrow> int (length (revs @ [m])) \<le> limit" by auto
      note IH = Cons.IH [OF others this, of "cnt + 1"]
      have "nat limit - length revs = Suc (nat limit - Suc (length revs))" if "0 < limit" using that True by linarith
      then show ?thesis using IH step sh True by (cases "limit \<le> 0") (simp_all add: Let_def)
    next
      case False
      then have "0 < limit" "int (length revs) = limit" using Cons.prems(2) by simp_all
      then show ?thesis using False step sh Cons.IH [OF others Cons.prems(2), of "cnt + 1"] by (simp add: Let_def)
    qed
  qed
qed simp

lemma visitCount_all:
  assumes "\<forall>ki \<in> set kis. ki_inv ki \<and> \<not> kiIsEmpty ki"
  shows "foldM (visitCount r) cnt kis = Some (cnt + length (filter (\<lambda>ki. shown r ki \<noteq> None) kis))"
  using assms
  by (induction kis arbitrary: cnt) (auto simp: visitCount_def kiGet_history asResult_def shown_def split: option.splits)

lemma tiRevisions_shows:
  assumes B: "btree_ok B items" and inv: "ti_inv items t"
  shows "\<exists>keys. sorted_wrt bytesLess keys \<and> set keys = {k. wanted key en k \<and> h_get (histAt items t k) r \<noteq> None} \<and>
    tiRevisions B t key en r limit =
      (let rs = map (\<lambda>k. fst (the (h_get (histAt items t k) r))) keys in
       Some (if limit \<le> 0 \<or> en = None then rs else take (nat limit) rs, length keys)) \<and>
    tiCountRevisions B t key en r = Some (length keys)"
proof (cases en)
  case None
  let ?keys = "if h_get (histAt items t key) r = None then [] else [key]"
  show ?thesis using None tiGet_history [OF B inv, of key r]
    by (intro exI [of _ ?keys]) (auto simp: tiRevisions_def tiCountRevisions_def wanted_def asResult_def split: option.splits)
next
  case (Some e)
  let ?kis = "filter (\<lambda>ki. shown r ki \<noteq> None) (filter (\<lambda>i. in_range key e (ki_key i)) (items t))"
  let ?keys = "map ki_key ?kis"
  have ok: "\<forall>ki \<in> set (filter (\<lambda>i. in_range key e (ki_key i)) (items t)). ki_inv ki \<and> \<not> kiIsEmpty ki"
    using inv by (simp add: ti_inv_def)
  have srt: "sorted_items (items t)" using inv by (simp add: ti_inv_def)
  have sk: "sorted_wrt bytesLess ?keys"
    using inv sorted_filter_items by (simp add: ti_inv_def sorted_items_def sorted_wrt_map flip: kiLess_def)
  have at: "h_get (histAt items t (ki_key ki)) r = h_get (history ki) r" if "ki \<in> set (items t)" for ki
    using sorted_find [OF srt that] by (simp add: histAt_def)
  have "k \<in> set ?keys \<longleftrightarrow> wanted key en k \<and> h_get (histAt items t k) r \<noteq> None" for k
  proof
    assume "k \<in> set ?keys"
    then show "wanted key en k \<and> h_get (histAt items t k) r \<noteq> None" using Some at by (auto simp: wanted_def shown_def)
  next
    assume *: "wanted key en k \<and> h_get (histAt items t k) r \<noteq> None"
    then obtain ki where "findItem k (items t) = Some ki" by (cases "findItem k (items t)") (auto simp: histAt_def)
    then show "k \<in> set ?keys" using * Some findItem_mem [of k "items t" ki] by (force simp: histAt_def shown_def wanted_def)
  qed
  then have set: "set ?keys = {k. wanted key en k \<and> h_get (histAt items t k) r \<noteq> None}" by blast
  have rs: "map (\<lambda>ki. the (shown r ki)) ?kis = map (\<lambda>k. fst (the (h_get (histAt items t k) r))) ?keys"
    using at by (auto simp: shown_def)
  have "tiRevisions B t key en r limit =
      (let rs = map (\<lambda>k. fst (the (h_get (histAt items t k) r))) ?keys in
       Some (if limit \<le> 0 \<or> en = None then rs else take (nat limit) rs, length ?keys))"
    unfolding tiRevisions_def Some option.case visited_filter [OF B inv]
    using visitRevisions_all [OF ok, of limit "[]" r 0] unfolding rs by (simp add: Let_def)
  moreover have "tiCountRevisions B t key en r = Some (length ?keys)"
    unfolding tiCountRevisions_def Some option.case visited_filter [OF B inv] visitCount_all [OF ok] by simp
  ultimately show ?thesis using sk set by blast
qed

definition atRev :: "int \<Rightarrow> rangeOptions \<Rightarrow> int" where
  "atRev cur ro = (if ro_Rev ro \<le> 0 then cur else ro_Rev ro)"

text \<open>What a request has to return: the pairs of the keys of the range, in the order of the keys.\<close>

definition answers :: "('d, 't) kvEnv \<Rightarrow> ('d \<Rightarrow> string \<Rightarrow> pairs option) \<Rightarrow> ('t \<Rightarrow> keyIndex list) \<Rightarrow> ('d, 't) kvStore \<Rightarrow>
    string \<Rightarrow> string option \<Rightarrow> int \<Rightarrow> int \<Rightarrow> rangeOptions \<Rightarrow> (rangeResult \<times> kvErr option) \<Rightarrow> bool" where
  "answers E bi ti s key en cur compacted ro res \<longleftrightarrow>
     (if ro_Rev ro > cur then res = (\<lparr>rr_KVs = [], rr_Rev = cur, rr_Count = -1\<rparr>, Some ErrFutureRev)
      else if atRev cur ro < compacted then res = (\<lparr>rr_KVs = [], rr_Rev = 0, rr_Count = -1\<rparr>, Some ErrCompacted)
      else \<exists>kvs. sorted_wrt bytesLess (map kv_Key kvs) \<and>
        set kvs = {kv. \<exists>k. wanted key en k \<and> view E bi ti s k (atRev cur ro) = Some kv} \<and>
        res = (\<lparr>rr_KVs = (if ro_Count ro then [] else if ro_Limit ro \<le> 0 then kvs else take (nat (ro_Limit ro)) kvs),
                rr_Rev = cur, rr_Count = int (length kvs)\<rparr>, None))"

lemma reads_all:
  assumes "\<forall>k \<in> set keys. readRevision E rng (g k) = Some (f k)"
  shows "foldM (\<lambda>kvs r. do { kv \<leftarrow> readRevision E rng r; Some (kvs @ [kv]) }) acc (map g keys) = Some (acc @ map f keys)"
  using assms by (induction keys arbitrary: acc) auto

theorem rangeKeys_answers:
  assumes env: "env_ok E bi ti" and inv: "store_inv E bi ti N b n s" and t: "ti_inv ti (st_kvindex s2)"
    and past: "\<And>k. h_get (histAt ti (st_kvindex s2) k) (atRev cur ro) = h_get (histAt ti (st_kvindex s) k) (atRev cur ro)"
    and rng: "\<And>k v. k \<noteq> [] \<Longrightarrow> stored bi (st_be s) k = Some v \<Longrightarrow> rng k = Some [(k, v)]"
  shows "\<exists>res. rangeKeys E s2 rng key en cur ro = Some res \<and> answers E bi ti s key en cur (st_compactMainRev s2) ro res"
proof (cases "ro_Rev ro > cur \<or> atRev cur ro < st_compactMainRev s2")
  case True
  then show ?thesis by (auto simp: rangeKeys_def answers_def atRev_def Let_def)
next
  case ok: False
  let ?r = "atRev cur ro" and ?h = "\<lambda>k. histAt ti (st_kvindex s) k"
  obtain keys where keys: "sorted_wrt bytesLess keys" "set keys = {k. wanted key en k \<and> h_get (histAt ti (st_kvindex s2) k) ?r \<noteq> None}"
    "tiRevisions (ke_btree E) (st_kvindex s2) key en ?r (ro_Limit ro) =
      (let rs = map (\<lambda>k. fst (the (h_get (histAt ti (st_kvindex s2) k) ?r))) keys in
       Some (if ro_Limit ro \<le> 0 \<or> en = None then rs else take (nat (ro_Limit ro)) rs, length keys))"
    "tiCountRevisions (ke_btree E) (st_kvindex s2) key en ?r = Some (length keys)"
    using tiRevisions_shows [OF env_okD(2) [OF env] t] by blast
  define g where "g k = fst (the (h_get (?h k) ?r))" for k
  define f where "f k = the (view E bi ti s k ?r)" for k
  have each: "view E bi ti s k ?r = Some (f k) \<and> kv_Key (f k) = k \<and> readRevision E rng (g k) = Some (f k)" if k: "k \<in> set keys" for k
  proof -
    obtain y where "h_get (?h k) ?r = Some y" using k keys(2) past by auto
    then obtain m c w where y: "h_get (?h k) ?r = Some (m, c, w)" by (metis prod_cases3)
    obtain kv where kv: "view E bi ti s k ?r = Some kv" "records k m (c, w) kv" "stored bi (st_be s) (revToBytes m) = Some (kc_marshal (ke_kv E) kv)"
      using view_event [OF env inv y] by blast
    have "rng (revToBytes m) = Some [(revToBytes m, kc_marshal (ke_kv E) kv)]" using rng [OF _ kv(3)] by simp
    then have "readRevision E rng m = Some kv" using env_okD(3) [OF env] kv(2) by (simp add: readRevision_def records_def)
    then show ?thesis using y kv by (simp add: f_def g_def records_def)
  qed
  let ?kvs = "map f keys"
  have "map kv_Key ?kvs = keys" using each by (simp add: map_idI)
  then have sorted: "sorted_wrt bytesLess (map kv_Key ?kvs)" using keys(1) by metis
  have set: "set ?kvs = {kv. \<exists>k. wanted key en k \<and> view E bi ti s k ?r = Some kv}"
  proof -
    have "k \<in> set keys \<longleftrightarrow> wanted key en k \<and> view E bi ti s k ?r \<noteq> None" for k
      using keys(2) past view_exists [OF env inv] by simp
    moreover have "view E bi ti s k ?r \<noteq> None \<longleftrightarrow> view E bi ti s k ?r = Some (f k)" for k
      by (cases "view E bi ti s k ?r") (simp_all add: f_def)
    ultimately have k: "k \<in> set keys \<longleftrightarrow> wanted key en k \<and> view E bi ti s k ?r = Some (f k)" for k by metis
    show ?thesis
    proof (intro equalityI subsetI)
      fix kv assume "kv \<in> set ?kvs"
      then show "kv \<in> {kv. \<exists>k. wanted key en k \<and> view E bi ti s k ?r = Some kv}" using k by auto
    next
      fix kv assume "kv \<in> {kv. \<exists>k. wanted key en k \<and> view E bi ti s k ?r = Some kv}"
      then obtain j where "wanted key en j" "view E bi ti s j ?r = Some kv" by blast
      then have "j \<in> set keys" "kv = f j" using k [of j] by (simp_all add: f_def)
      then show "kv \<in> set ?kvs" by simp
    qed
  qed
  have single: "en = None \<Longrightarrow> length keys \<le> 1"
  proof -
    assume "en = None"
    then have "set keys \<subseteq> {key}" using keys(2) by (auto simp: wanted_def)
    then show ?thesis using sorted_keys_distinct [OF keys(1)] distinct_card [of keys] card_mono [of "{key}" "set keys"] by simp
  qed
  have "rangeKeys E s2 rng key en cur ro = Some (\<lparr>rr_KVs = (if ro_Count ro then [] else if ro_Limit ro \<le> 0 then ?kvs else take (nat (ro_Limit ro)) ?kvs),
                rr_Rev = cur, rr_Count = int (length ?kvs)\<rparr>, None)"
  proof (cases "ro_Count ro")
    case True
    then show ?thesis using ok keys(4) by (simp add: rangeKeys_def atRev_def Let_def)
  next
    case False
    define ks where "ks = (if ro_Limit ro \<le> 0 then keys else take (nat (ro_Limit ro)) keys)"
    have rev: "tiRevisions (ke_btree E) (st_kvindex s2) key en ?r (ro_Limit ro) = Some (map g ks, length keys)"
      using keys(3) past single by (auto simp: g_def ks_def Let_def take_map)
    define m where "m = (if ro_Limit ro \<le> 0 \<or> ro_Limit ro > int (length ks) then length ks else nat (ro_Limit ro))"
    have take: "take m (map g ks) = map g ks" by (auto simp: m_def ks_def)
    have "set ks \<subseteq> set keys" by (simp add: ks_def set_take_subset)
    then have "\<forall>k \<in> set ks. readRevision E rng (g k) = Some (f k)" using each by blast
    from reads_all [OF this, of "[]"] have "foldM (\<lambda>kvs r. do { kv \<leftarrow> readRevision E rng r; Some (kvs @ [kv]) }) [] (map g ks) = Some (map f ks)"
      by simp
    moreover have "(if ro_Limit ro \<le> 0 then ?kvs else take (nat (ro_Limit ro)) ?kvs) = map f ks" by (simp add: ks_def take_map)
    ultimately show ?thesis
      using ok False rev take by (auto simp: rangeKeys_def atRev_def Let_def m_def)
  qed
  moreover have "answers E bi ti s key en cur (st_compactMainRev s2) ro (\<lparr>rr_KVs = (if ro_Count ro then [] else if ro_Limit ro \<le> 0 then ?kvs
      else take (nat (ro_Limit ro)) ?kvs), rr_Rev = cur, rr_Count = int (length ?kvs)\<rparr>, None)"
  proof -
    have "\<not> ro_Rev ro > cur" "\<not> atRev cur ro < st_compactMainRev s2" using ok by simp_all
    then show ?thesis unfolding answers_def using sorted set by (simp only: if_False) blast
  qed
  ultimately show ?thesis by blast
qed

text \<open>Within a write transaction, and by a reader.\<close>

theorem RangeWrite_answers:
  assumes env: "env_ok E bi ti" and inv: "txn_inv E bi ti N s tw" and N: "N < 2 ^ 62"
  shows "\<exists>res. RangeWrite E s tw key en ro = Some res \<and> answers E bi ti s key en (readRev tw) (st_compactMainRev s) ro res"
proof -
  have S: "store_inv E bi ti N (tw_beginRev tw) (length (tw_changes tw)) s" using inv by (simp add: txn_inv_def)
  obtain ps where ps: "content bi (st_be s) keyBucket = Some ps" using store_invD(4) [OF S] by auto
  note be = store_invD(3) [OF S]
  have rng: "UnsafeRange (ke_bolt E) (st_be s) keyBucketName k None 0 = Some [(k, v)]" if "stored bi (st_be s) k = Some v" for k v
    using UnsafeRange_key [OF env_okD(1) [OF env] be_invD(1,3) [OF be] ps] that ps
    by (simp add: stored_def bucketMap_def keyBucketName_def)
  show ?thesis
    unfolding RangeWrite_def readRev_i64(1) [OF S N]
    by (rule rangeKeys_answers [OF env S store_invD(8) [OF S] refl rng])
qed

theorem RangeRead_answers:
  assumes env: "env_ok E bi ti" and inv: "idle E bi ti N s" and r: "ReadTxn s = (tr, s1)"
    and later: "same_past ti (tr_rev tr) s1 s2" "ti_inv ti (st_kvindex s2)"
  shows "idle E bi ti N s1 \<and> view E bi ti s1 = view E bi ti s \<and> tr_rev tr = st_currentRev s \<and>
    (\<exists>res. RangeRead E s2 tr key en ro = Some res \<and> answers E bi ti s key en (st_currentRev s) (st_compactMainRev s2) ro res)"
proof -
  have S: "store_inv E bi ti N (st_currentRev s) 0 s" "leases_agree E bi ti (st_currentRev s + 1) s" using idle_store [OF inv] by simp_all
  have W: "pendingPairs (st_be s) = []" using inv by (simp add: idle_def)
  note be = store_invD(3) [OF S(1)]
  obtain rt be1 where c: "ConcurrentReadTx (st_be s) = (rt, be1)" by (rule prod.exhaust)
  have tr: "tr = \<lparr>tr_tx = rt, tr_firstRev = st_compactMainRev s, tr_rev = st_currentRev s\<rparr>" "s1 = s\<lparr>st_be := be1\<rparr>"
    using r c by (simp_all add: ReadTxn_def)
  have be1: "be_inv bi (revToBytes (Revision (st_currentRev s + 1) (int 0))) be1" "content bi be1 = content bi (st_be s)"
    "pendingPairs be1 = []" using ConcurrentReadTx_inv [OF be c] W by simp_all
  have s1: "store_inv E bi ti N (st_currentRev s) 0 s1" "view E bi ti s1 = view E bi ti s"
    using store_inv_backend [OF S(1) be1(1)] store_invD(5,6) [OF S(1)] unfolding tr(2) by (simp_all add: be1(2))
  have "idle E bi ti N s1"
    using s1 S(2) be1(3) by (simp add: idle_def txn_inv_def WriteTxn_def leases_agree_def tr(2))
  moreover have "\<exists>res. RangeRead E s2 tr key en ro = Some res \<and> answers E bi ti s key en (st_currentRev s) (st_compactMainRev s2) ro res"
  proof -
    have rng: "readRange (ke_bolt E) (tr_tx tr) keyBucketName k None 0 = Some [(k, v)]" if "k \<noteq> []" "stored bi (st_be s) k = Some v" for k v
      using reader_finds [OF env_okD(1) [OF env] be W c that(2,1)] by (simp add: tr(1) keyBucketName_def)
    show ?thesis
    proof (cases "ro_Rev ro > tr_rev tr")
      case True
      then show ?thesis by (simp add: RangeRead_def rangeKeys_def answers_def tr(1))
    next
      case False
      then have le: "atRev (tr_rev tr) ro \<le> tr_rev tr" by (simp add: atRev_def)
      have past: "h_get (histAt ti (st_kvindex s2) k) (atRev (tr_rev tr) ro) = h_get (histAt ti (st_kvindex s) k) (atRev (tr_rev tr) ro)" for k
        using later(1) le by (simp add: same_past_def tr(2))
      show ?thesis
        using rangeKeys_answers [OF env S(1) later(2) past rng] by (simp add: RangeRead_def tr(1))
    qed
  qed
  ultimately show ?thesis using s1(2) tr(1) by simp
qed

subsection \<open>Revoking a lease\<close>

lemma existing_one:
  assumes "existing E bi ti s key None r keys"
  shows "keys = (if view E bi ti s key r = None then [] else [key])"
proof -
  have k: "set keys = {k. k = key \<and> view E bi ti s k r \<noteq> None}" "distinct keys"
    using assms sorted_keys_distinct by (auto simp: existing_def wanted_def)
  show ?thesis
  proof (cases "view E bi ti s key r")
    case None
    then have "set keys = {}" using k(1) by auto
    then show ?thesis using None by simp
  next
    case (Some kv)
    then have "set keys = {key}" using k(1) by auto
    then show ?thesis using k(2) Some distinct_card [of keys] by (cases keys; cases "tl keys") auto
  qed
qed

lemma revoke_all:
  assumes env: "env_ok E bi ti" and "txn_inv E bi ti N s tw" and "N + int (length keys) < 2 ^ 62"
  shows "\<exists>N1 s1 tw1. foldM (revokeKeys E) (s, tw) keys = Some (s1, tw1) \<and> N1 \<le> N + int (length keys) \<and> txn_inv E bi ti N1 s1 tw1 \<and>
    others s1 = others s \<and> tw_beginRev tw1 = tw_beginRev tw \<and>
    (\<forall>k t. view E bi ti s1 k t = (if k \<in> set keys \<and> tw_beginRev tw + 1 \<le> t then None else view E bi ti s k t))"
  using assms(2-)
proof (induction keys arbitrary: s tw N)
  case (Cons key keys)
  let ?b = "tw_beginRev tw"
  have N: "N < 2 ^ 62" using Cons.prems(2) by simp
  have S: "store_inv E bi ti N ?b (length (tw_changes tw)) s" using Cons.prems(1) by (simp add: txn_inv_def)
  obtain ks where ks: "existing E bi ti s key None (?b + 1) ks"
    and D: "N + int (length ks) < 2 ^ 62 \<longrightarrow> (\<exists>s1 tw1.
       DeleteRange E s tw key None = Some (int (length ks), (if ks = [] \<and> tw_changes tw = [] then ?b else ?b + 1), s1, tw1) \<and>
       txn_inv E bi ti (N + int (length ks)) s1 tw1 \<and> others s1 = others s \<and> same_past ti ?b s s1 \<and>
       tw_beginRev tw1 = ?b \<and> length (tw_changes tw1) = length (tw_changes tw) + length ks \<and>
       (\<forall>k t. view E bi ti s1 k t = (if k \<in> set ks \<and> ?b + 1 \<le> t then None else view E bi ti s k t)))"
    using DeleteRange_keys [OF env Cons.prems(1) N, of key None] by blast
  have one: "ks = (if view E bi ti s key (?b + 1) = None then [] else [key])" by (rule existing_one [OF ks])
  then have len: "length ks \<le> 1" by simp
  then have "N + int (length ks) < 2 ^ 62" using Cons.prems(2) by simp
  then obtain s1 tw1 where 1: "DeleteRange E s tw key None = Some (int (length ks), (if ks = [] \<and> tw_changes tw = [] then ?b else ?b + 1), s1, tw1)"
    "txn_inv E bi ti (N + int (length ks)) s1 tw1" "others s1 = others s" "tw_beginRev tw1 = ?b"
    "\<forall>k t. view E bi ti s1 k t = (if k \<in> set ks \<and> ?b + 1 \<le> t then None else view E bi ti s k t)" using D by blast
  have gone: "view E bi ti s1 k t = (if k = key \<and> ?b + 1 \<le> t then None else view E bi ti s k t)" for k t
    using 1(5) one view_now [OF S, of t key] by (auto split: if_splits)
  have "N + int (length ks) + int (length keys) < 2 ^ 62" using Cons.prems(2) len by simp
  from Cons.IH [OF 1(2) this] obtain N1 s2 tw2 where 2: "foldM (revokeKeys E) (s1, tw1) keys = Some (s2, tw2)"
    "N1 \<le> N + int (length ks) + int (length keys)" "txn_inv E bi ti N1 s2 tw2" "others s2 = others s1" "tw_beginRev tw2 = tw_beginRev tw1"
    "\<forall>k t. view E bi ti s2 k t = (if k \<in> set keys \<and> tw_beginRev tw1 + 1 \<le> t then None else view E bi ti s1 k t)" by blast
  have "foldM (revokeKeys E) (s, tw) (key # keys) = Some (s2, tw2)" using 1(1) 2(1) by (simp add: revokeKeys_def)
  moreover have "\<forall>k t. view E bi ti s2 k t = (if k \<in> set (key # keys) \<and> ?b + 1 \<le> t then None else view E bi ti s k t)"
    using 2(6) gone 1(4) by simp
  moreover have "N1 \<le> N + int (length (key # keys))" using 2(2) len by simp
  ultimately show ?case using 1(3,4) 2(3,4,5) by (intro exI [of _ N1] exI [of _ s2] exI [of _ tw2]) simp
qed auto

lemma length_sortedItems: "length (sortedItems l) = length (l_itemSet l)"
proof -
  have "length (insertKey k js) = Suc (length js)" for k js by (induction js) auto
  then have "length (foldr insertKey ks []) = length ks" for ks by (induction ks) simp_all
  then show ?thesis by (simp add: sortedItems_def)
qed

theorem Revoke_deletes:
  assumes env: "env_ok E bi ti" and inv: "idle E bi ti N s" and le: "st_le s = Some le" and l: "fmlookup (le_leaseMap le) i = Some l"
    and i: "i \<noteq> NoLease" and live: "\<not> l_revoked l" "le_rd le" and N: "N + int (length (l_itemSet l)) < 2 ^ 62"
    and ver: "tr_bufVersion (be_readBuf (st_be s)) < MaxUint64"
  shows "\<exists>N1 s1 le1. Revoke E s i = Some (None, s1) \<and> idle E bi ti N1 s1 \<and> N1 \<le> N + int (length (l_itemSet l)) \<and> st_le s1 = Some le1 \<and>
    (\<forall>j. fmlookup (le_leaseMap le1) j = None \<longleftrightarrow> j = i \<or> fmlookup (le_leaseMap le) j = None) \<and>
    (\<forall>k t. view E bi ti s1 k t = (if GetLease le k = i \<and> st_currentRev s + 1 \<le> t then None else view E bi ti s k t)) \<and>
    tr_bufVersion (be_readBuf (st_be s1)) \<le> tr_bufVersion (be_readBuf (st_be s)) + 1"
proof -
  let ?b = "st_currentRev s" and ?keys = "sortedItems l"
  have txn: "txn_inv E bi ti N s (WriteTxn s)" using inv by (simp add: idle_def)
  have items: "items_inv le" using idle_store [OF inv] le by (auto simp: leases_agree_def)
  have lid: "l_ID l = i" using items l by (simp add: items_inv_def)
  have "N + int (length ?keys) < 2 ^ 62" using N by (simp add: length_sortedItems)
  from revoke_all [OF env txn this] obtain N1 s1 tw1 where 1: "foldM (revokeKeys E) (s, WriteTxn s) ?keys = Some (s1, tw1)"
    "N1 \<le> N + int (length ?keys)" "txn_inv E bi ti N1 s1 tw1" "others s1 = others s" "tw_beginRev tw1 = ?b"
    "\<forall>k t. view E bi ti s1 k t = (if k \<in> set ?keys \<and> ?b + 1 \<le> t then None else view E bi ti s k t)"
    by (auto simp: WriteTxn_def)
  have S1: "store_inv E bi ti N1 ?b (length (tw_changes tw1)) s1" "st_currentRev s1 = ?b" "leases_agree E bi ti (?b + 1) s1"
    using 1(3,5) by (simp_all add: txn_inv_def)
  obtain le1 where le1: "st_le s1 = Some le1" "items_inv le1" "\<And>k. GetLease le1 k = leaseIn (view E bi ti s1 k (?b + 1))"
    using S1(3) by (auto simp: leases_agree_def)
  have bare: "bare le1 = bare le" using 1(4) le le1(1) by (simp add: others_def)
  have ver1: "tr_bufVersion (be_readBuf (st_be s1)) = tr_bufVersion (be_readBuf (st_be s))" using 1(4) by (simp add: others_def)
  have "GetLease le k = i \<longleftrightarrow> fmlookup (le_itemMap le) k = Some i" for k
    using i by (auto simp: GetLease_def split: option.splits)
  then have mine: "set ?keys = {k. GetLease le k = i}" using lease_items [OF items l] by (simp add: set_sortedItems)
  have free: "fmlookup (le_itemMap le1) k \<noteq> Some i" for k
  proof
    assume a: "fmlookup (le_itemMap le1) k = Some i"
    then have "GetLease le1 k = i" by (simp add: GetLease_def)
    then have v: "leaseIn (view E bi ti s1 k (?b + 1)) = i" using le1(3) by simp
    then have "k \<notin> set ?keys" using 1(6) i by (auto simp: leaseIn_def)
    then have "leaseIn (view E bi ti s k (?b + 1)) = i" "GetLease le k \<noteq> i" using v 1(6) mine by auto
    then show False using idle_store [OF inv] le by (auto simp: leases_agree_def)
  qed
  let ?le2 = "le1\<lparr>le_leaseMap := fmdrop i (le_leaseMap le1)\<rparr>"
  have items2: "items_inv ?le2"
    unfolding items_inv_def
  proof (intro conjI allI impI)
    fix it j assume "fmlookup (le_itemMap ?le2) it = Some j"
    then have j: "fmlookup (le_itemMap le1) it = Some j" "j \<noteq> i" using free by auto
    then obtain l' where "j \<noteq> NoLease" "fmlookup (le_leaseMap le1) j = Some l'" "it \<in> set (l_itemSet l')"
      using le1(2) unfolding items_inv_def by blast
    then show "j \<noteq> NoLease" "\<exists>l. fmlookup (le_leaseMap ?le2) j = Some l \<and> it \<in> set (l_itemSet l)" using j(2) by simp_all
  next
    fix j l' assume "fmlookup (le_leaseMap ?le2) j = Some l'"
    then have "fmlookup (le_leaseMap le1) j = Some l'" by (simp split: if_split_asm)
    then show "l_ID l' = j" "distinct (l_itemSet l')" "\<forall>it \<in> set (l_itemSet l'). fmlookup (le_itemMap ?le2) it = Some j"
      using le1(2) unfolding items_inv_def by simp_all
  qed
  have maps: "fmlookup (le_leaseMap ?le2) j = None \<longleftrightarrow> j = i \<or> fmlookup (le_leaseMap le) j = None" for j
    using bare_fields(2) [OF bare] by simp
  note I = store_invD [OF S1(1)]
  obtain ps where ps: "content bi (st_be s1) leaseBucketName = Some ps" using I(6) by auto
  have ne: "leaseBucketName \<noteq> keyBucket" "leaseBucketName \<noteq> metaBucketName" by (simp_all add: metaBucketName_def leaseBucketName_def)
  obtain be1 where be1: "UnsafeDelete (ke_bolt E) (st_be s1) leaseBucketName (int64ToBytes i) = Some be1"
    "be_inv bi (revToBytes (Revision (?b + 1) (int (length (tw_changes tw1))))) be1"
    "content bi be1 = (content bi (st_be s1))(leaseBucketName \<mapsto> filter (\<lambda>p. fst p \<noteq> int64ToBytes i) ps)"
    "tr_bufVersion (be_readBuf be1) = tr_bufVersion (be_readBuf (st_be s1))"
    using UnsafeDelete_inv [OF env_okD(1) [OF env] I(3) ps] by blast
  let ?s2 = "s1\<lparr>st_le := Some ?le2, st_be := be1\<rparr>"
  have "store_inv E bi ti N1 ?b (length (tw_changes tw1)) (s1\<lparr>st_be := be1\<rparr>)" "view E bi ti (s1\<lparr>st_be := be1\<rparr>) = view E bi ti s1"
    using store_inv_backend [OF S1(1) be1(2)] I(5) ne by (simp_all add: be1(3))
  moreover have "?s2 = s1\<lparr>st_be := be1\<rparr>\<lparr>st_le := Some ?le2\<rparr>" by simp
  ultimately have S2: "store_inv E bi ti N1 ?b (length (tw_changes tw1)) ?s2" "view E bi ti ?s2 = view E bi ti s1"
    by (simp_all only: store_inv_other)
  have "GetLease ?le2 = GetLease le1" by (simp add: GetLease_def fun_eq_iff)
  then have "leases_agree E bi ti (?b + 1) ?s2" using items2 le1(3) S2(2) by (simp add: leases_agree_def)
  then have "txn_inv E bi ti N1 ?s2 tw1" using S2(1) S1(2) 1(5) by (simp add: txn_inv_def)
  moreover have "N1 < 2 ^ 62" using 1(2) N by (simp add: length_sortedItems)
  moreover have "tr_bufVersion (be_readBuf (st_be ?s2)) < MaxUint64" using ver ver1 be1(4) by simp
  ultimately obtain s3 where s3: "EndWrite E ?s2 tw1 = Some s3" "idle E bi ti N1 s3" "view E bi ti s3 = view E bi ti ?s2"
    "st_le s3 = st_le ?s2" "tr_bufVersion (be_readBuf (st_be s3)) \<le> tr_bufVersion (be_readBuf (st_be ?s2)) + 1"
    using EndWrite_keeps [OF env] by blast
  have "Revoke E s i = Some (None, s3)"
    using le l live 1(1) le1(1) be1(1) s3(1) by (simp add: Revoke_def lid)
  moreover have "view E bi ti s3 k t = (if GetLease le k = i \<and> ?b + 1 \<le> t then None else view E bi ti s k t)" for k t
    using s3(3) S2(2) 1(6) mine by simp
  moreover have "st_le s3 = Some ?le2" using s3(4) by simp
  moreover have "N1 \<le> N + int (length (l_itemSet l))" using 1(2) by (simp add: length_sortedItems)
  moreover have "tr_bufVersion (be_readBuf (st_be s3)) \<le> tr_bufVersion (be_readBuf (st_be s)) + 1" using s3(5) be1(4) ver1 by simp
  ultimately show ?thesis using s3(2) maps by (intro exI [of _ N1] exI [of _ s3] exI [of _ ?le2]) blast
qed

end
