(* ===== verification/KvCompact.thy ===== *)
theory KvCompact
  imports KvStoreOps
begin

text \<open>
  The compaction of the store: its loop over the backend ends, deletes exactly the old revisions that are not
  to be kept, and leaves what readers at the compacted revision or later see.
\<close>

subsection \<open>Keys and their revisions\<close>

definition revOf :: "string \<Rightarrow> revision" where
  "revOf k = the (bytesToRev k)"

lemma revOf_key: "rev_ok r \<Longrightarrow> bytesToRev (keyOf r t) = Some r \<and> revOf (keyOf r t) = r"
  using keyOf_rev by (simp add: revOf_def)

definition stale :: "revision fset \<Rightarrow> string \<Rightarrow> bool" where
  "stale keep k \<longleftrightarrow> revOf k |\<notin>| keep"

lemma keys_ok_filter: "keys_ok (map_of ps) \<Longrightarrow> keys_ok (map_of (filter (\<lambda>p. P (fst p)) ps))"
proof -
  assume ok: "keys_ok (map_of ps)"
  have m: "map_of (filter (\<lambda>p. P (fst p)) ps) k = (if P k then map_of ps k else None)" for k by (induction ps) auto
  show ?thesis
    unfolding keys_ok_def
  proof (intro allI impI)
    fix k assume "map_of (filter (\<lambda>p. P (fst p)) ps) k \<noteq> None"
    then have "map_of ps k \<noteq> None" using m [of k] by (simp split: if_splits)
    then obtain r t where "rev_room r" "k = keyOf r t" "map_of ps (keyOf r (\<not> t)) = None" using ok unfolding keys_ok_def by blast
    then show "\<exists>r t. rev_room r \<and> k = keyOf r t \<and> map_of (filter (\<lambda>p. P (fst p)) ps) (keyOf r (\<not> t)) = None"
      using m by (intro exI [of _ r] exI [of _ t]) simp
  qed
qed

lemma keys_ok_mem:
  assumes "keys_ok (map_of ps)" and "p \<in> set ps"
  obtains r t where "rev_room r" "fst p = keyOf r t" "\<forall>q \<in> set ps. fst q \<noteq> keyOf r (\<not> t)"
proof -
  have "map_of ps (fst p) \<noteq> None" using assms(2) by (simp add: map_of_eq_None_iff)
  then obtain r t where rt: "rev_room r" "fst p = keyOf r t" "map_of ps (keyOf r (\<not> t)) = None" using assms(1) unfolding keys_ok_def by blast
  then have "keyOf r (\<not> t) \<notin> fst ` set ps" by (simp add: map_of_eq_None_iff)
  then have "\<forall>q \<in> set ps. fst q \<noteq> keyOf r (\<not> t)" by (metis imageI)
  then show thesis using that rt by blast
qed

lemma rev_room_ok: "rev_room r \<Longrightarrow> rev_ok r"
  by (simp add: rev_room_def)

text \<open>Where the next round starts: after the last key, before the next revision.\<close>

definition after :: "revision \<Rightarrow> string" where
  "after r = revToBytes (Revision (rev_main r) (rev_sub r + 1))"

lemma after_order:
  assumes "rev_room r" and "rev_room q"
  shows "bytesLess (keyOf q u) (after r) \<longleftrightarrow> q \<le> r"
proof -
  have ok: "rev_ok q" "rev_ok (Revision (rev_main r) (rev_sub r + 1))" using assms by (simp_all add: rev_room_def)
  have "q < Revision (rev_main r) (rev_sub r + 1) \<longleftrightarrow> q \<le> r"
    by (cases q; cases r) (auto simp: Revision_less Revision_le)
  then show ?thesis using keyOf_less [OF ok, of u False] by (simp add: after_def)
qed

subsection \<open>One round\<close>

text \<open>The backend during the loop: the pairs of the bucket of revisions are \<open>ps\<close>.\<close>

definition holds :: "('d \<Rightarrow> string \<Rightarrow> pairs option) \<Rightarrow> string \<Rightarrow> pairs \<Rightarrow> 'd backend \<Rightarrow> bool" where
  "holds bi upper ps be \<longleftrightarrow> be_inv bi upper be \<and> content bi be keyBucket = Some ps \<and>
     content bi be metaBucketName \<noteq> None \<and> content bi be leaseBucketName \<noteq> None"

lemma compactKey_step:
  assumes B: "bolt_ok (ke_bolt E) bi" and h: "holds bi upper ps be" and r: "bytesToRev k = Some r"
  shows "\<exists>be1. compactKey E keep (be, r0) k = Some (be1, r) \<and> holds bi upper (filter (\<lambda>p. \<not> (fst p = k \<and> stale keep k)) ps) be1 \<and>
    tr_bufVersion (be_readBuf be1) = tr_bufVersion (be_readBuf be)"
proof (cases "stale keep k")
  case True
  have h': "be_inv bi upper be" "content bi be keyBucket = Some ps" using h by (simp_all add: holds_def)
  obtain be1 where be1: "UnsafeDelete (ke_bolt E) be keyBucket k = Some be1" "be_inv bi upper be1"
    "content bi be1 = (content bi be)(keyBucket \<mapsto> filter (\<lambda>p. fst p \<noteq> k) ps)"
    "tr_bufVersion (be_readBuf be1) = tr_bufVersion (be_readBuf be)"
    using UnsafeDelete_inv [OF B h'] by blast
  have "compactKey E keep (be, r0) k = Some (be1, r)"
    using True r be1(1) by (simp add: compactKey_def stale_def revOf_def keyBucketName_def)
  moreover have "holds bi upper (filter (\<lambda>p. fst p \<noteq> k) ps) be1"
    using h be1(2,3) by (simp add: holds_def metaBucketName_def leaseBucketName_def)
  ultimately show ?thesis using be1(4) True by auto
next
  case False
  then have "compactKey E keep (be, r0) k = Some (be, r)" using r by (simp add: compactKey_def stale_def revOf_def)
  then show ?thesis using h False by simp
qed

lemma compactKeys:
  assumes B: "bolt_ok (ke_bolt E) bi" and "holds bi upper ps be" and "\<forall>k \<in> set ks. bytesToRev k \<noteq> None"
  shows "\<exists>be1. foldM (compactKey E keep) (be, r0) ks = Some (be1, if ks = [] then r0 else revOf (List.last ks)) \<and>
    holds bi upper (filter (\<lambda>p. \<not> (fst p \<in> set ks \<and> stale keep (fst p))) ps) be1 \<and>
    tr_bufVersion (be_readBuf be1) = tr_bufVersion (be_readBuf be)"
  using assms(2-)
proof (induction ks arbitrary: be ps r0)
  case (Cons k ks)
  obtain r where r: "bytesToRev k = Some r" using Cons.prems(2) by auto
  obtain be1 where be1: "compactKey E keep (be, r0) k = Some (be1, r)" "holds bi upper (filter (\<lambda>p. \<not> (fst p = k \<and> stale keep k)) ps) be1"
    "tr_bufVersion (be_readBuf be1) = tr_bufVersion (be_readBuf be)" using compactKey_step [OF B Cons.prems(1) r] by blast
  obtain be2 where be2: "foldM (compactKey E keep) (be1, r) ks = Some (be2, if ks = [] then r else revOf (List.last ks))"
    "holds bi upper (filter (\<lambda>p. \<not> (fst p \<in> set ks \<and> stale keep (fst p))) (filter (\<lambda>p. \<not> (fst p = k \<and> stale keep k)) ps)) be2"
    "tr_bufVersion (be_readBuf be2) = tr_bufVersion (be_readBuf be1)" using Cons.IH [OF be1(2)] Cons.prems(2) by auto
  have "filter (\<lambda>p. \<not> (fst p \<in> set ks \<and> stale keep (fst p))) (filter (\<lambda>p. \<not> (fst p = k \<and> stale keep k)) ps) =
      filter (\<lambda>p. \<not> (fst p \<in> set (k # ks) \<and> stale keep (fst p))) ps"
    unfolding filter_filter by (rule filter_cong) auto
  then show ?case using be1 be2 r by (intro exI [of _ be2]) (auto simp: revOf_def)
qed simp

definition between :: "string \<Rightarrow> string \<Rightarrow> string \<Rightarrow> bool" where
  "between a en k \<longleftrightarrow> \<not> bytesLess k a \<and> bytesLess k en"

lemma holds_unlock:
  assumes B: "bolt_ok (ke_bolt E) bi" and h: "holds bi upper ps be" and ver: "tr_bufVersion (be_readBuf be) < MaxUint64" and u: "upper \<noteq> []"
  shows "\<exists>be1. Unlock (ke_bolt E) be = Some be1 \<and> holds bi upper ps be1 \<and> pendingPairs be1 = [] \<and>
    tr_bufVersion (be_readBuf be1) \<le> tr_bufVersion (be_readBuf be) + 1"
  using Unlock_inv [OF B _ ver u] h unfolding holds_def by metis

lemma holds_force:
  assumes B: "bolt_ok (ke_bolt E) bi" and h: "holds bi upper ps be" and W: "pendingPairs be = []"
  shows "\<exists>be1. ForceCommit (ke_bolt E) be = Some be1 \<and> holds bi upper ps be1 \<and> pendingPairs be1 = [] \<and>
    tr_bufVersion (be_readBuf be1) = tr_bufVersion (be_readBuf be)"
  using ForceCommit_inv [OF B _ W, of upper] h unfolding holds_def by metis

lemma holds_meta:
  assumes B: "bolt_ok (ke_bolt E) bi" and h: "holds bi upper ps be" and v: "validPair k v"
  shows "\<exists>be1. UnsafePut (ke_bolt E) be metaBucketName k v = Some be1 \<and> holds bi upper ps be1 \<and>
    tr_bufVersion (be_readBuf be1) = tr_bufVersion (be_readBuf be)"
proof -
  obtain ms where ms: "content bi be metaBucketName = Some ms" using h by (auto simp: holds_def)
  have "metaBucketName \<noteq> keyBucket" "be_inv bi upper be" using h by (simp_all add: metaBucketName_def holds_def)
  then obtain be1 where "UnsafePut (ke_bolt E) be metaBucketName k v = Some be1" "be_inv bi upper be1"
    "content bi be1 = (content bi be)(metaBucketName \<mapsto> putPair (k, v) ms)" "tr_bufVersion (be_readBuf be1) = tr_bufVersion (be_readBuf be)"
    using UnsafePut_inv [OF B _ v ms] by blast
  then show ?thesis using h by (intro exI [of _ be1]) (simp add: holds_def metaBucketName_def leaseBucketName_def)
qed

text \<open>The keys of a round that is full are those before the start of the next one.\<close>

lemma full_round:
  assumes asc: "asc ps" and ok: "keys_ok (map_of ps)" and n: "0 < n" "n \<le> length (filter (\<lambda>p. between a en (fst p)) ps)"
    and K: "K = fst (List.last (take n (filter (\<lambda>p. between a en (fst p)) ps)))"
  shows "rev_room (revOf K) \<and> bytesLess a (after (revOf K)) \<and> between a en K \<and> bytesLess K (after (revOf K)) \<and> K \<in> fst ` set ps \<and>
    (\<forall>p \<in> set ps. fst p \<in> set (map fst (take n (filter (\<lambda>p. between a en (fst p)) ps))) \<longleftrightarrow>
       between a en (fst p) \<and> bytesLess (fst p) (after (revOf K)))"
proof -
  let ?fs = "filter (\<lambda>p. between a en (fst p)) ps"
  have ne: "take n ?fs \<noteq> []" using n by auto
  define x where "x = List.last (take n ?fs)"
  have x: "x \<in> set (take n ?fs)" using ne by (simp add: x_def)
  then have xm: "x \<in> set ps" "between a en (fst x)" by (auto dest: in_set_takeD)
  obtain r t where r: "rev_room r" "fst x = keyOf r t" "\<forall>q \<in> set ps. fst q \<noteq> keyOf r (\<not> t)" using keys_ok_mem [OF ok xm(1)] .
  have K: "K = fst x" "revOf K = r" using K revOf_key [OF rev_room_ok [OF r(1)]] r(2) by (simp_all add: x_def)
  have Kless: "bytesLess K (after r)" using after_order [OF r(1,1)] K r(2) by simp
  have aless: "bytesLess a (after r)"
    using xm(2) Kless bytesLess_linear [of a "fst x"] bytesLess_trans [of a "fst x" "after r"] by (auto simp: between_def K)
  have split: "take n ?fs @ drop n ?fs = ?fs" by simp
  have ascf: "asc (take n ?fs @ drop n ?fs)" unfolding split by (rule asc_filter [OF asc])
  have iff: "fst p \<in> set (map fst (take n ?fs)) \<longleftrightarrow> between a en (fst p) \<and> bytesLess (fst p) (after r)" if p: "p \<in> set ps" for p
  proof
    assume "fst p \<in> set (map fst (take n ?fs))"
    then obtain q where q: "q \<in> set (take n ?fs)" "fst q = fst p" by auto
    have "q = x \<or> bytesLess (fst q) (fst x)"
    proof -
      have tk: "take n ?fs = butlast (take n ?fs) @ [x]" using ne by (simp add: x_def)
      have "asc (butlast (take n ?fs) @ [x])" using ascf tk by (metis asc_append)
      then show ?thesis using q(1) tk by (metis (no_types, lifting) Un_iff asc_append list.set_intros(1) set_append set_ConsD empty_iff empty_set)
    qed
    then have "bytesLess (fst q) (after r)" using Kless K(1) bytesLess_trans [of "fst q" "fst x" "after r"] by auto
    then show "between a en (fst p) \<and> bytesLess (fst p) (after r)" using q by (auto dest: in_set_takeD)
  next
    assume b: "between a en (fst p) \<and> bytesLess (fst p) (after r)"
    then have "p \<in> set (take n ?fs @ drop n ?fs)" unfolding split using p by simp
    then have "p \<in> set (take n ?fs) \<union> set (drop n ?fs)" by (simp only: set_append)
    moreover have "p \<notin> set (drop n ?fs)"
    proof
      assume d: "p \<in> set (drop n ?fs)"
      then have less: "bytesLess (fst x) (fst p)" using ascf x unfolding asc_append by blast
      obtain q u where q: "rev_room q" "fst p = keyOf q u" using keys_ok_mem [OF ok p] by metis
      have "q \<le> r" using b after_order [OF r(1) q(1)] q(2) by simp
      moreover have "r < q \<or> r = q \<and> \<not> t \<and> u" using less keyOf_less [OF rev_room_ok [OF r(1)] rev_room_ok [OF q(1)]] r(2) q(2) by simp
      ultimately have "fst p = keyOf r (\<not> t)" using q(2) by auto
      then show False using r(3) p by blast
    qed
    ultimately show "fst p \<in> set (map fst (take n ?fs))" by auto
  qed
  show ?thesis using r(1) aless xm Kless iff K by auto
qed

definition endKeyOf :: "int \<Rightarrow> string" where
  "endKeyOf c = PutUint64 (toUint64 (i64 (c + 1)))"

lemma endKeyOf_nonempty [simp]: "endKeyOf c \<noteq> []"
  by (metis PutUint64_length endKeyOf_def list.size(3) zero_neq_numeral)

lemma compactBatch_unfold:
  "compactBatch E c keep limit a be =
     do { ps \<leftarrow> UnsafeRange (ke_bolt E) be keyBucketName a (Some (endKeyOf c)) limit;
          (be1, r) \<leftarrow> foldM (compactKey E keep) (be, Revision 0 0) (map fst ps);
          if int (length ps) < limit then
            do { be2 \<leftarrow> UnsafePut (ke_bolt E) be1 metaBucketName finishedCompactKeyName (revToBytes (Revision c 0));
                 be3 \<leftarrow> Unlock (ke_bolt E) be2; Some (None, be3) }
          else
            do { be2 \<leftarrow> Unlock (ke_bolt E) be1; be3 \<leftarrow> ForceCommit (ke_bolt E) be2;
                 Some (Some (revToBytes (Revision (rev_main r) (i64 (rev_sub r + 1)))), be3) } }"
  by (simp add: compactBatch_def Let_def endKeyOf_def)

text \<open>A round is the last one and has treated all keys, or it has treated those before the start of the next one.\<close>

lemma compactBatch_round:
  assumes B: "bolt_ok (ke_bolt E) bi" and h: "holds bi upper ps be" and ok: "keys_ok (map_of ps)" and l: "0 < limit"
    and ver: "tr_bufVersion (be_readBuf be) < MaxUint64" and u: "upper \<noteq> []"
    and en_def: "en = endKeyOf c"
  shows "\<exists>res be1. compactBatch E c keep limit a be = Some (res, be1) \<and> pendingPairs be1 = [] \<and>
    tr_bufVersion (be_readBuf be1) \<le> tr_bufVersion (be_readBuf be) + 1 \<and>
    (case res of
       None \<Rightarrow> holds bi upper (filter (\<lambda>p. \<not> (between a en (fst p) \<and> stale keep (fst p))) ps) be1
     | Some a1 \<Rightarrow> bytesLess a a1 \<and> (\<exists>K \<in> fst ` set ps. between a en K \<and> bytesLess K a1) \<and>
         holds bi upper (filter (\<lambda>p. \<not> (between a en (fst p) \<and> bytesLess (fst p) a1 \<and> stale keep (fst p))) ps) be1)"
proof -
  have inv: "be_inv bi upper be" and c: "content bi be keyBucket = Some ps" using h by (simp_all add: holds_def)
  note be = be_invD(1,3) [OF inv] c
  have asc: "asc ps" using bolt_okD(1) [OF B] be(3) by (simp add: content_def)
  let ?n = "nat limit" and ?fs = "filter (\<lambda>p. between a en (fst p)) ps"
  define xs where "xs = take ?n ?fs"
  let ?ks = "map fst xs"
  have rng: "UnsafeRange (ke_bolt E) be keyBucketName a (Some en) limit = Some xs"
    using UnsafeRange_bounds [OF B be(1,2,3), of en limit a] en_def l by (simp add: xs_def keyBucketName_def between_def)
  have revs: "\<forall>k \<in> set ?ks. bytesToRev k \<noteq> None"
  proof
    fix k assume "k \<in> set ?ks"
    then obtain p where tk: "p \<in> set xs" and "k = fst p" by auto
    then have p: "p \<in> set ps" "k = fst p" using in_set_takeD [OF tk [unfolded xs_def]] by simp_all
    obtain r t where "rev_room r" "fst p = keyOf r t" using keys_ok_mem [OF ok p(1)] by metis
    then show "bytesToRev k \<noteq> None" using p(2) revOf_key [OF rev_room_ok] by simp
  qed
  obtain be1 where be1: "foldM (compactKey E keep) (be, Revision 0 0) ?ks = Some (be1, if ?ks = [] then Revision 0 0 else revOf (List.last ?ks))"
    "holds bi upper (filter (\<lambda>p. \<not> (fst p \<in> set ?ks \<and> stale keep (fst p))) ps) be1"
    "tr_bufVersion (be_readBuf be1) = tr_bufVersion (be_readBuf be)" using compactKeys [OF B h revs] by blast
  show ?thesis
  proof (cases "int (length xs) < limit")
    case True
    then have all: "xs = ?fs" by (simp add: xs_def)
    have v: "validPair finishedCompactKeyName (revToBytes (Revision c 0))" by (simp add: validPair_def finishedCompactKeyName_def)
    obtain be2 where be2: "UnsafePut (ke_bolt E) be1 metaBucketName finishedCompactKeyName (revToBytes (Revision c 0)) = Some be2"
      "holds bi upper (filter (\<lambda>p. \<not> (fst p \<in> set ?ks \<and> stale keep (fst p))) ps) be2"
      "tr_bufVersion (be_readBuf be2) = tr_bufVersion (be_readBuf be)" using holds_meta [OF B be1(2) v] be1(3) by auto
    have "tr_bufVersion (be_readBuf be2) < MaxUint64" using ver be2(3) by simp
    then obtain be3 where be3: "Unlock (ke_bolt E) be2 = Some be3"
      "holds bi upper (filter (\<lambda>p. \<not> (fst p \<in> set ?ks \<and> stale keep (fst p))) ps) be3" "pendingPairs be3 = []"
      "tr_bufVersion (be_readBuf be3) \<le> tr_bufVersion (be_readBuf be) + 1" using holds_unlock [OF B be2(2) _ u] be2(3) by auto
    have "fst p \<in> set ?ks \<longleftrightarrow> between a en (fst p)" if "p \<in> set ps" for p unfolding all using that by force
    then have "filter (\<lambda>p. \<not> (fst p \<in> set ?ks \<and> stale keep (fst p))) ps = filter (\<lambda>p. \<not> (between a en (fst p) \<and> stale keep (fst p))) ps"
      by (intro filter_cong) simp_all
    moreover have "compactBatch E c keep limit a be = Some (None, be3)"
      using rng be1(1) be2(1) be3(1) True by (simp add: compactBatch_unfold flip: en_def)
    ultimately show ?thesis using be3 by (intro exI [of _ None] exI [of _ be3]) simp
  next
    case False
    then have n: "0 < ?n" "?n \<le> length ?fs" using l by (auto simp: xs_def)
    define K where "K = fst (List.last xs)"
    note R = full_round [OF asc ok n K_def [unfolded xs_def], folded xs_def]
    have ne: "xs \<noteq> []" using n by (auto simp: xs_def)
    then have last: "List.last ?ks = K" using ne by (simp add: K_def last_map)
    have "tr_bufVersion (be_readBuf be1) < MaxUint64" using ver be1(3) by simp
    then obtain be2 where be2: "Unlock (ke_bolt E) be1 = Some be2"
      "holds bi upper (filter (\<lambda>p. \<not> (fst p \<in> set ?ks \<and> stale keep (fst p))) ps) be2" "pendingPairs be2 = []"
      "tr_bufVersion (be_readBuf be2) \<le> tr_bufVersion (be_readBuf be) + 1" using holds_unlock [OF B be1(2) _ u] be1(3) by auto
    obtain be3 where be3: "ForceCommit (ke_bolt E) be2 = Some be3"
      "holds bi upper (filter (\<lambda>p. \<not> (fst p \<in> set ?ks \<and> stale keep (fst p))) ps) be3" "pendingPairs be3 = []"
      "tr_bufVersion (be_readBuf be3) \<le> tr_bufVersion (be_readBuf be) + 1" using holds_force [OF B be2(2,3)] be2(4) by auto
    have "i64 (rev_sub (revOf K) + 1) = rev_sub (revOf K) + 1" using R by (simp add: rev_room_def rev_ok_def)
    then have "compactBatch E c keep limit a be = Some (Some (after (revOf K)), be3)"
      using rng be1(1) be2(1) be3(1) False ne last by (simp add: compactBatch_unfold after_def flip: en_def)
    moreover have "filter (\<lambda>p. \<not> (fst p \<in> set ?ks \<and> stale keep (fst p))) ps =
        filter (\<lambda>p. \<not> (between a en (fst p) \<and> bytesLess (fst p) (after (revOf K)) \<and> stale keep (fst p))) ps"
      using R by (intro filter_cong) auto
    ultimately show ?thesis using be3 R by (intro exI [of _ "Some (after (revOf K))"] exI [of _ be3]) auto
  qed
qed

text \<open>The loop ends, and has deleted the stale keys below the end.\<close>

lemma compactLoop_ends:
  assumes B: "bolt_ok (ke_bolt E) bi" and "holds bi upper ps be" and "keys_ok (map_of ps)" and l: "0 < limit"
    and "tr_bufVersion (be_readBuf be) + length (filter (\<lambda>p. \<not> bytesLess (fst p) a) ps) < MaxUint64" and u: "upper \<noteq> []"
  shows "\<exists>be1. compactLoop E c keep limit a be = Some be1 \<and> pendingPairs be1 = [] \<and>
    holds bi upper (filter (\<lambda>p. \<not> (between a (endKeyOf c) (fst p) \<and> stale keep (fst p))) ps) be1 \<and>
    tr_bufVersion (be_readBuf be1) \<le> tr_bufVersion (be_readBuf be) + length (filter (\<lambda>p. \<not> bytesLess (fst p) a) ps) + 1"
  using assms(2,3,5)
proof (induction "length (filter (\<lambda>p. \<not> bytesLess (fst p) a) ps)" arbitrary: a ps be rule: less_induct)
  case less
  have ver: "tr_bufVersion (be_readBuf be) < MaxUint64" using less.prems(3) by simp
  obtain res be1 where r: "compactBatch E c keep limit a be = Some (res, be1)" "pendingPairs be1 = []"
    "tr_bufVersion (be_readBuf be1) \<le> tr_bufVersion (be_readBuf be) + 1"
    "case res of
       None \<Rightarrow> holds bi upper (filter (\<lambda>p. \<not> (between a (endKeyOf c) (fst p) \<and> stale keep (fst p))) ps) be1
     | Some a1 \<Rightarrow> bytesLess a a1 \<and> (\<exists>K \<in> fst ` set ps. between a (endKeyOf c) K \<and> bytesLess K a1) \<and>
         holds bi upper (filter (\<lambda>p. \<not> (between a (endKeyOf c) (fst p) \<and> bytesLess (fst p) a1 \<and> stale keep (fst p))) ps) be1"
    using compactBatch_round [OF B less.prems(1,2) l ver u refl] by blast
  show ?case
  proof (cases res)
    case None
    then have "compactLoop E c keep limit a be = Some be1" using r(1) by (simp add: compactLoop.simps)
    then show ?thesis using r None by (intro exI [of _ be1]) simp
  next
    case (Some a1)
    let ?Q = "\<lambda>p. \<not> (between a (endKeyOf c) (fst p) \<and> bytesLess (fst p) a1 \<and> stale keep (fst p))"
    let ?ps = "filter ?Q ps"
    have a1: "bytesLess a a1" "holds bi upper ?ps be1" using r(4) Some by simp_all
    obtain x where x: "x \<in> set ps" "between a (endKeyOf c) (fst x)" "bytesLess (fst x) a1" using r(4) Some by auto
    have later: "\<not> bytesLess k a1 \<Longrightarrow> \<not> bytesLess k a" for k using a1(1) bytesLess_trans [of k a a1] by blast
    have sub: "filter (\<lambda>p. \<not> bytesLess (fst p) a1) ?ps = filter (\<lambda>p. ?Q p \<and> \<not> bytesLess (fst p) a1) (filter (\<lambda>p. \<not> bytesLess (fst p) a) ps)"
      unfolding filter_filter using later by (intro filter_cong) auto
    have shorter: "length (filter (\<lambda>p. \<not> bytesLess (fst p) a1) ?ps) < length (filter (\<lambda>p. \<not> bytesLess (fst p) a) ps)"
      unfolding sub by (rule length_filter_less [of x]) (use x in \<open>simp_all add: between_def\<close>)
    have ok1: "keys_ok (map_of ?ps)" using keys_ok_filter [OF less.prems(2), of "\<lambda>k. \<not> (between a (endKeyOf c) k \<and> bytesLess k a1 \<and> stale keep k)"] by simp
    have v1: "tr_bufVersion (be_readBuf be1) + length (filter (\<lambda>p. \<not> bytesLess (fst p) a1) ?ps) < MaxUint64"
      using r(3) shorter less.prems(3) by linarith
    from less.hyps [OF shorter a1(2) ok1 v1] obtain be2 where be2: "compactLoop E c keep limit a1 be1 = Some be2" "pendingPairs be2 = []"
      "holds bi upper (filter (\<lambda>p. \<not> (between a1 (endKeyOf c) (fst p) \<and> stale keep (fst p))) ?ps) be2"
      "tr_bufVersion (be_readBuf be2) \<le> tr_bufVersion (be_readBuf be1) + length (filter (\<lambda>p. \<not> bytesLess (fst p) a1) ?ps) + 1" by blast
    have "filter (\<lambda>p. \<not> (between a1 (endKeyOf c) (fst p) \<and> stale keep (fst p))) ?ps =
        filter (\<lambda>p. \<not> (between a (endKeyOf c) (fst p) \<and> stale keep (fst p))) ps"
      unfolding filter_filter between_def using later by (intro filter_cong) auto
    moreover have "compactLoop E c keep limit a be = Some be2" using r(1) Some be2(1) by (subst compactLoop.simps) simp
    moreover have "tr_bufVersion (be_readBuf be2) \<le> tr_bufVersion (be_readBuf be) + length (filter (\<lambda>p. \<not> bytesLess (fst p) a) ps) + 1"
      using be2(4) r(3) shorter by linarith
    ultimately show ?thesis using be2(2,3) by (intro exI [of _ be2]) simp
  qed
qed

subsection \<open>The job\<close>

lemma zeros_least: "bytesLess a (replicate n (CHR 0x00)) \<Longrightarrow> length a < n"
proof (induction a arbitrary: n)
  case (Cons d a)
  then obtain m where m: "n = Suc m" by (cases n) auto
  then have "bytesLess a (replicate m (CHR 0x00))" using Cons.prems by simp
  then show ?case using Cons.IH m by simp
qed (cases n; simp)

text \<open>The keys that a compaction at \<open>r\<close> treats.\<close>

lemma treated:
  assumes "rev_ok q" and "0 \<le> r" and "r < 2 ^ 62"
  shows "between (replicate 17 (CHR 0x00)) (endKeyOf r) (keyOf q t) \<longleftrightarrow> rev_main q \<le> r"
proof -
  have "\<not> bytesLess (keyOf q t) (replicate 17 (CHR 0x00))" using zeros_least [of "keyOf q t" 17] by (auto simp: keyOf_length split: if_splits)
  moreover have "i64 (r + 1) = r + 1" using assms by simp
  ultimately show ?thesis using keyOf_main [OF assms(1), of "r + 1" t] assms by (auto simp: between_def endKeyOf_def)
qed

lemma backed_left:
  assumes e: "e \<in> set (h' :: event list)" "snd e = Some cv" and lft: "left_of r h h'" and now: "rev_main (fst e) \<le> r"
  shows "map_option fst (h_get h' r) = Some (fst e)"
proof (cases h')
  case (Cons x xs)
  have late: "\<forall>y \<in> set xs. r < rev_main (fst y)" using lft Cons by (simp add: left_of_def)
  then have "e = x" using e(1) Cons now by auto
  moreover have "latest (x # xs) r = Some x" by (rule latest_Cons_later) (use late now \<open>e = x\<close> in auto)
  ultimately show ?thesis using Cons e(2) by (cases e; cases cv) (auto simp: h_get_def)
qed (use e in simp)

theorem compactJob_keeps:
  assumes env: "env_ok E bi ti" and inv: "store_inv E bi ti N b n s" and N: "N < 2 ^ 62" and r: "0 \<le> r" "r \<le> b"
    and l: "0 < st_batchLimit s" and ps: "content bi (st_be s) keyBucket = Some ps"
    and ver: "tr_bufVersion (be_readBuf (st_be s)) + length ps < MaxUint64"
  shows "\<exists>be1 t1. compactJob E s r = Some (s\<lparr>st_kvindex := t1, st_be := be1\<rparr>) \<and> pendingPairs be1 = [] \<and>
    store_inv E bi ti N b n (s\<lparr>st_kvindex := t1, st_be := be1\<rparr>) \<and>
    (\<forall>k t. r \<le> t \<longrightarrow> view E bi ti (s\<lparr>st_kvindex := t1, st_be := be1\<rparr>) k t = view E bi ti s k t) \<and>
    (\<forall>q t. rev_ok q \<longrightarrow> stored bi be1 (keyOf q t) =
       (if rev_main q \<le> r \<and> (\<forall>k. map_option fst (h_get (histAt ti (st_kvindex s) k) r) \<noteq> Some q) then None else stored bi (st_be s) (keyOf q t)))"
proof -
  let ?t = "st_kvindex s" and ?zero = "replicate 17 (CHR 0x00)" and ?upper = "revToBytes (Revision (b + 1) (int n))"
  note I = store_invD [OF inv]
  obtain t1 av where t1: "tiCompact (ke_btree E) ?t r = Some (t1, av)" "ti_inv ti t1"
    "\<forall>key r'. r \<le> r' \<longrightarrow> h_get (histAt ti t1 key) r' = h_get (histAt ti ?t key) r'"
    "fset av = {v. \<exists>key. map_option fst (h_get (histAt ti ?t key) r) = Some v}"
    using tiCompact_keeps [OF env_okD(2) [OF env] I(8), of r] by blast
  note L = tiCompact_left [OF env_okD(2) [OF env] I(8) I(9) t1(1)]
  have h: "holds bi ?upper ps (st_be s)" using I(3,5,6) ps by (simp add: holds_def)
  have ok: "keys_ok (map_of ps)" using I(7) ps by (simp add: stored_def bucketMap_def)
  have "length (filter (\<lambda>p. \<not> bytesLess (fst p) ?zero) ps) \<le> length ps" by simp
  then have "tr_bufVersion (be_readBuf (st_be s)) + length (filter (\<lambda>p. \<not> bytesLess (fst p) ?zero) ps) < MaxUint64" using ver by linarith
  then obtain be1 where be1: "compactLoop E r av (st_batchLimit s) ?zero (st_be s) = Some be1" "pendingPairs be1 = []"
    "holds bi ?upper (filter (\<lambda>p. \<not> (between ?zero (endKeyOf r) (fst p) \<and> stale av (fst p))) ps) be1"
    using compactLoop_ends [OF env_okD(1) [OF env] h ok l, of ?zero r av] by auto
  let ?drop = "\<lambda>k. between ?zero (endKeyOf r) k \<and> stale av k"
  have st: "stored bi be1 k = (if ?drop k then None else stored bi (st_be s) k)" for k
  proof -
    have "map_of (filter (\<lambda>p. \<not> ?drop (fst p)) ps) k = (if ?drop k then None else map_of ps k)" by (induction ps) auto
    then show ?thesis using be1(3) ps by (simp add: holds_def stored_def bucketMap_def)
  qed
  have r62: "r < 2 ^ 62" using r(2) I(2) N by simp
  have drop: "?drop (keyOf q t) \<longleftrightarrow> rev_main q \<le> r \<and> (\<forall>k. map_option fst (h_get (histAt ti ?t k) r) \<noteq> Some q)" if "rev_ok q" for q t
    using treated [OF that r(1) r62, of t] t1(4) revOf_key [OF that, of t] by (auto simp: stale_def)
  let ?s = "s\<lparr>st_kvindex := t1, st_be := be1\<rparr>"
  have same: "stored bi be1 (revToBytes (fst e)) = stored bi (st_be s) (revToBytes (fst e))" and old: "backed E bi s k e"
    if e: "e \<in> set (histAt ti t1 k)" "snd e = Some cv" for e k cv
  proof -
    have "e \<in> set (histAt ti ?t k)" using e(1) L(1) [of k] by (auto simp: left_of_def)
    then show bk: "backed E bi s k e" by (rule I(12))
    then have okr: "rev_ok (fst e)" by (simp add: backed_def)
    have "\<not> (rev_main (fst e) \<le> r \<and> (\<forall>k. map_option fst (h_get (histAt ti ?t k) r) \<noteq> Some (fst e)))"
      using backed_left [OF e L(1) [of k]] t1(3) by auto
    then have "\<not> ?drop (keyOf (fst e) False)" unfolding drop [OF okr] .
    with st [of "keyOf (fst e) False"] show "stored bi be1 (revToBytes (fst e)) = stored bi (st_be s) (revToBytes (fst e))"
      by (simp only: keyOf_put if_False)
  qed
  have evs: "backed E bi ?s k e" if e: "e \<in> set (histAt ti t1 k)" for k e
  proof (cases "snd e")
    case None
    have "e \<in> set (histAt ti ?t k)" using e L(1) [of k] by (auto simp: left_of_def)
    then show ?thesis using I(12) [of e k] None by (simp add: backed_def)
  next
    case (Some cv)
    then show ?thesis using same [OF e Some] old [OF e Some] by (simp add: backed_def)
  qed
  have sub: "set (histAt ti t1 k) \<subseteq> set (histAt ti ?t k)" for k using L(1) [of k] by (simp add: left_of_def)
  have fit: "fitting E k []" if "histAt ti t1 k \<noteq> []" for k
    using I(10) [of k] sub [of k] that by (metis empty_subsetI set_empty subset_antisym)
  have vers: "versions_below (histAt ti t1 k) N" for k using I(11) [of k] sub [of k] unfolding versions_below_def by blast
  have ok1: "keys_ok (stored bi be1)"
    using keys_ok_filter [OF ok, of "\<lambda>k. \<not> ?drop k"] be1(3) by (simp add: holds_def stored_def bucketMap_def)
  have "int (length (filter (\<lambda>p. \<not> ?drop (fst p)) ps)) \<le> N"
    using store_inv_size [OF inv ps] length_filter_le [of "\<lambda>p. \<not> ?drop (fst p)" ps] by linarith
  then have "store_inv E bi ti N b n ?s"
    unfolding store_inv_def using I(1,2) be1(3) ok1 t1(2) L(2) fit vers evs by (simp add: holds_def)
  moreover have "view E bi ti ?s k t = view E bi ti s k t" if t: "r \<le> t" for k t
  proof (cases "h_get (histAt ti t1 k) t")
    case None
    then show ?thesis using t1(3) t by (simp add: view_def)
  next
    case (Some y)
    obtain m c w where y: "y = (m, c, w)" by (metis prod_cases3)
    have "stored bi be1 (revToBytes m) = stored bi (st_be s) (revToBytes m)"
      using same [OF h_get_other [OF Some [unfolded y]]] by simp
    then show ?thesis using Some t1(3) t y by (simp add: view_def valueAt_def)
  qed
  moreover have "compactJob E s r = Some ?s" using t1(1) be1(1) by (simp add: compactJob_def scheduleCompaction_def)
  moreover have "\<forall>q t. rev_ok q \<longrightarrow> stored bi be1 (keyOf q t) =
       (if rev_main q \<le> r \<and> (\<forall>k. map_option fst (h_get (histAt ti ?t k) r) \<noteq> Some q) then None else stored bi (st_be s) (keyOf q t))"
    using st drop by simp
  ultimately show ?thesis using be1(2) by (intro exI [of _ be1] exI [of _ t1]) blast
qed

text \<open>A compaction that is accepted.\<close>

theorem compactStore_keeps:
  assumes env: "env_ok E bi ti" and inv: "idle E bi ti N s" and N: "N < 2 ^ 62"
    and r: "0 \<le> r" "st_compactMainRev s < r" "r \<le> st_currentRev s"
    and l: "0 < st_batchLimit s" and ver0: "tr_bufVersion (be_readBuf (st_be s)) < 2 ^ 63"
  shows "\<exists>s1. compactStore E s r = Some (None, s1) \<and> idle E bi ti N s1 \<and> st_compactMainRev s1 = r \<and>
    st_currentRev s1 = st_currentRev s \<and> st_le s1 = st_le s \<and>
    (\<forall>k t. r \<le> t \<longrightarrow> view E bi ti s1 k t = view E bi ti s k t) \<and>
    (\<forall>q t. rev_ok q \<longrightarrow> stored bi (st_be s1) (keyOf q t) =
       (if rev_main q \<le> r \<and> (\<forall>k. map_option fst (h_get (histAt ti (st_kvindex s) k) r) \<noteq> Some q) then None
        else stored bi (st_be s) (keyOf q t)))"
proof -
  let ?b = "st_currentRev s" and ?upper = "revToBytes (Revision (st_currentRev s + 1) (int 0))"
  have S: "store_inv E bi ti N ?b 0 s" "leases_agree E bi ti (?b + 1) s" using idle_store [OF inv] by simp_all
  note I = store_invD [OF S(1)] and B = env_okD(1) [OF env]
  obtain ps where ps: "content bi (st_be s) keyBucket = Some ps" using I(4) by auto
  have "int (length ps) \<le> N" by (rule store_inv_size [OF S(1) ps])
  then have "length ps < 2 ^ 62" using N by simp
  then have ver: "tr_bufVersion (be_readBuf (st_be s)) + length ps + 1 < MaxUint64" using ver0 by (simp add: MaxUint64_def)
  have h: "holds bi ?upper ps (st_be s)" using I(3,5,6) ps by (simp add: holds_def)
  have v: "validPair scheduledCompactKeyName (revToBytes (Revision r 0))" by (simp add: validPair_def scheduledCompactKeyName_def)
  obtain be1 where be1: "UnsafePut (ke_bolt E) (st_be s) metaBucketName scheduledCompactKeyName (revToBytes (Revision r 0)) = Some be1"
    "holds bi ?upper ps be1" "tr_bufVersion (be_readBuf be1) = tr_bufVersion (be_readBuf (st_be s))" using holds_meta [OF B h v] by blast
  obtain be2 where be2: "Unlock (ke_bolt E) be1 = Some be2" "holds bi ?upper ps be2" "pendingPairs be2 = []"
    "tr_bufVersion (be_readBuf be2) \<le> tr_bufVersion (be_readBuf (st_be s)) + 1"
    using holds_unlock [OF B be1(2)] be1(3) ver by auto
  obtain be3 where be3: "ForceCommit (ke_bolt E) be2 = Some be3" "holds bi ?upper ps be3"
    "tr_bufVersion (be_readBuf be3) \<le> tr_bufVersion (be_readBuf (st_be s)) + 1"
    using holds_force [OF B be2(2,3)] be2(4) by auto
  let ?s1 = "s\<lparr>st_compactMainRev := r, st_be := be3\<rparr>"
  have up: "updateCompactRev E s r = Some (None, ?s1)" using r be1(1) be2(1) be3(1) by (simp add: updateCompactRev_def)
  have "store_inv E bi ti N ?b 0 (s\<lparr>st_be := be3\<rparr>)" "view E bi ti (s\<lparr>st_be := be3\<rparr>) = view E bi ti s"
    using store_inv_backend [OF S(1), of be3] be3(2) ps by (simp_all add: holds_def)
  moreover have "?s1 = s\<lparr>st_be := be3\<rparr>\<lparr>st_compactMainRev := r\<rparr>" by simp
  ultimately have S1: "store_inv E bi ti N ?b 0 ?s1" "view E bi ti ?s1 = view E bi ti s" by (simp_all only: store_inv_other)
  have sd: "stored bi be3 = stored bi (st_be s)" using be3(2) ps by (simp add: holds_def stored_def)
  have "0 < st_batchLimit ?s1" "content bi (st_be ?s1) keyBucket = Some ps" "tr_bufVersion (be_readBuf (st_be ?s1)) + length ps < MaxUint64"
    using l be3 ver by (simp_all add: holds_def)
  from compactJob_keeps [OF env S1(1) N r(1,3) this] obtain be4 t4 where j: "compactJob E ?s1 r = Some (?s1\<lparr>st_kvindex := t4, st_be := be4\<rparr>)"
    "pendingPairs be4 = []" "store_inv E bi ti N ?b 0 (?s1\<lparr>st_kvindex := t4, st_be := be4\<rparr>)"
    "\<forall>k t. r \<le> t \<longrightarrow> view E bi ti (?s1\<lparr>st_kvindex := t4, st_be := be4\<rparr>) k t = view E bi ti ?s1 k t"
    "\<forall>q t. rev_ok q \<longrightarrow> stored bi be4 (keyOf q t) =
       (if rev_main q \<le> r \<and> (\<forall>k. map_option fst (h_get (histAt ti (st_kvindex ?s1) k) r) \<noteq> Some q) then None else stored bi (st_be ?s1) (keyOf q t))"
    by blast
  let ?s2 = "?s1\<lparr>st_kvindex := t4, st_be := be4\<rparr>"
  have "compactStore E s r = Some (None, ?s2)" using up j(1) by (simp add: compactStore_def)
  moreover have "leases_agree E bi ti (?b + 1) ?s2" using S(2) j(4) S1(2) r(3) by (simp add: leases_agree_def)
  then have "idle E bi ti N ?s2" using j(2,3) by (simp add: idle_def txn_inv_def WriteTxn_def)
  moreover have e: "st_be ?s1 = be3" "st_kvindex ?s1 = st_kvindex s" "st_be ?s2 = be4" by simp_all
  note left = j(5) [unfolded e(1,2) sd]
  ultimately show ?thesis using j(4) S1(2) left by (intro exI [of _ ?s2]) (simp only: e(3), simp)
qed

end
