(* ===== verification/KvRun.thy ===== *)
theory KvRun
  imports KvCompact
begin

text \<open>
  Whole transactions against an abstract map from keys to pairs, and the store as it is created over an empty
  database.
\<close>

subsection \<open>Transactions\<close>

text \<open>The operations of \<open>TxnWrite\<close>: \<open>Put\<close>, and \<open>DeleteRange\<close> of a key or of a range.\<close>

datatype txnOp = OpPut string string int | OpDelete string "string option"

definition runOp :: "('d, 't) kvEnv \<Rightarrow> ('d, 't) kvStore \<times> storeTxnWrite \<Rightarrow> txnOp \<Rightarrow> (('d, 't) kvStore \<times> storeTxnWrite) option" where
  "runOp E acc op =
     (case (acc, op) of
        ((s, tw), OpPut key v i) \<Rightarrow> map_option snd (Put E s tw key v i)
      | ((s, tw), OpDelete key en) \<Rightarrow> map_option (\<lambda>x. snd (snd x)) (DeleteRange E s tw key en))"

definition transaction :: "('d, 't) kvEnv \<Rightarrow> ('d, 't) kvStore \<Rightarrow> txnOp list \<Rightarrow> ('d, 't) kvStore option" where
  "transaction E s ops = do { (s1, tw1) \<leftarrow> foldM (runOp E) (s, WriteTxn s) ops; EndWrite E s1 tw1 }"

text \<open>The specification: a map from keys to pairs, updated at revision \<open>r\<close>.\<close>

fun specOp :: "int \<Rightarrow> (string \<Rightarrow> keyValue option) \<Rightarrow> txnOp \<Rightarrow> (string \<Rightarrow> keyValue option)" where
  "specOp r m (OpPut key v i) = m(key \<mapsto> putValue (m key) r key v i)"
| "specOp r m (OpDelete key en) = (\<lambda>k. if wanted key en k then None else m k)"

text \<open>How many pairs are written: one for a put, and a tombstone for each key that a deletion finds.\<close>

fun opWrites :: "(string \<Rightarrow> keyValue option) \<Rightarrow> txnOp \<Rightarrow> nat" where
  "opWrites m (OpPut key v i) = 1"
| "opWrites m (OpDelete key en) = card {k. wanted key en k \<and> m k \<noteq> None}"

fun allWrites :: "int \<Rightarrow> (string \<Rightarrow> keyValue option) \<Rightarrow> txnOp list \<Rightarrow> nat" where
  "allWrites r m [] = 0"
| "allWrites r m (op # ops) = opWrites m op + allWrites r (specOp r m op) ops"

text \<open>Without ranges there is at most one for each operation.\<close>

lemma allWrites_single:
  "\<forall>op \<in> set ops. \<forall>key e. op \<noteq> OpDelete key (Some e) \<Longrightarrow> allWrites r m ops \<le> length ops"
proof (induction ops arbitrary: m)
  case (Cons op ops)
  have "opWrites m op \<le> 1"
  proof (cases op)
    case (OpDelete key en)
    then have "en = None" using Cons.prems by (cases en) auto
    then have "{k. wanted key en k \<and> m k \<noteq> None} \<subseteq> {key}" by (auto simp: wanted_def)
    then show ?thesis using card_mono [of "{key}"] OpDelete by fastforce
  qed simp
  then show ?case using Cons.IH [of "specOp r m op"] Cons.prems by simp
qed simp

text \<open>What a client has to respect: sizes, and leases that exist.\<close>

fun op_ok :: "('d, 't) kvEnv \<Rightarrow> lessor \<Rightarrow> txnOp \<Rightarrow> bool" where
  "op_ok E le (OpPut key v i) \<longleftrightarrow> fitting E key v \<and> in_int64 i \<and> (i = NoLease \<or> fmlookup (le_leaseMap le) i \<noteq> None)"
| "op_ok E le (OpDelete key en) \<longleftrightarrow> True"

lemma op_ok_bare:
  assumes "bare le1 = bare le"
  shows "op_ok E le1 op \<longleftrightarrow> op_ok E le op"
  by (cases op) (simp_all only: op_ok.simps bare_fields(2) [OF assms] not_False_eq_True)

lemma runOp_refines:
  assumes env: "env_ok E bi ti" and inv: "txn_inv E bi ti N s tw"
    and N: "N + int (opWrites (\<lambda>k. view E bi ti s k (tw_beginRev tw + 1)) op) < 2 ^ 62" and ok: "op_ok E (the (st_le s)) op"
  shows "\<exists>s1 tw1. runOp E (s, tw) op = Some (s1, tw1) \<and>
    txn_inv E bi ti (N + int (opWrites (\<lambda>k. view E bi ti s k (tw_beginRev tw + 1)) op)) s1 tw1 \<and> others s1 = others s \<and>
    same_past ti (tw_beginRev tw) s s1 \<and> tw_beginRev tw1 = tw_beginRev tw \<and>
    (\<forall>k t. view E bi ti s1 k t = (if tw_beginRev tw + 1 \<le> t
       then specOp (tw_beginRev tw + 1) (\<lambda>k. view E bi ti s k (tw_beginRev tw + 1)) op k else view E bi ti s k t))"
proof -
  let ?b = "tw_beginRev tw"
  have S: "store_inv E bi ti N ?b (length (tw_changes tw)) s" using inv by (simp add: txn_inv_def)
  have N62: "N < 2 ^ 62" using N by simp
  note now = view_now [OF S]
  show ?thesis
  proof (cases op)
    case (OpPut key v i)
    then have "fitting E key v" "in_int64 i" "i = NoLease \<or> fmlookup (le_leaseMap (the (st_le s))) i \<noteq> None" using ok by simp_all
    from Put_changes [OF env inv N62 this] obtain s1 tw1 where p: "Put E s tw key v i = Some (?b + 1, s1, tw1)"
      "txn_inv E bi ti (N + 1) s1 tw1" "others s1 = others s" "same_past ti ?b s s1" "tw_beginRev tw1 = ?b"
      "\<forall>k t. view E bi ti s1 k t = (if k = key \<and> ?b + 1 \<le> t
        then Some (putValue (view E bi ti s key (?b + 1)) (?b + 1) key v i) else view E bi ti s k t)" by blast
    have "view E bi ti s1 k t = (if ?b + 1 \<le> t then specOp (?b + 1) (\<lambda>k. view E bi ti s k (?b + 1)) op k else view E bi ti s k t)" for k t
      using now [of t k] by (simp add: p(6) OpPut)
    moreover have "runOp E (s, tw) op = Some (s1, tw1)" using p(1) OpPut by (simp add: runOp_def)
    ultimately show ?thesis using p(2-5) by (auto simp: OpPut)
  next
    case (OpDelete key en)
    obtain ks where ks: "existing E bi ti s key en (?b + 1) ks"
      and D: "N + int (length ks) < 2 ^ 62 \<longrightarrow> (\<exists>s1 tw1.
       DeleteRange E s tw key en = Some (int (length ks), (if ks = [] \<and> tw_changes tw = [] then ?b else ?b + 1), s1, tw1) \<and>
       txn_inv E bi ti (N + int (length ks)) s1 tw1 \<and> others s1 = others s \<and> same_past ti ?b s s1 \<and>
       tw_beginRev tw1 = ?b \<and> length (tw_changes tw1) = length (tw_changes tw) + length ks \<and>
       (\<forall>k t. view E bi ti s1 k t = (if k \<in> set ks \<and> ?b + 1 \<le> t then None else view E bi ti s k t)))"
      using DeleteRange_keys [OF env inv N62, of key en] by blast
    have K: "set ks = {k. wanted key en k \<and> view E bi ti s k (?b + 1) \<noteq> None}" "length ks = card (set ks)"
      using ks sorted_keys_distinct [of ks] distinct_card [of ks] by (auto simp: existing_def)
    then have len: "opWrites (\<lambda>k. view E bi ti s k (?b + 1)) op = length ks" by (simp add: OpDelete)
    then obtain s1 tw1 where d: "DeleteRange E s tw key en = Some (int (length ks), (if ks = [] \<and> tw_changes tw = [] then ?b else ?b + 1), s1, tw1)"
      "txn_inv E bi ti (N + int (length ks)) s1 tw1" "others s1 = others s" "same_past ti ?b s s1" "tw_beginRev tw1 = ?b"
      "\<forall>k t. view E bi ti s1 k t = (if k \<in> set ks \<and> ?b + 1 \<le> t then None else view E bi ti s k t)" using D N by auto
    have "view E bi ti s1 k t = (if ?b + 1 \<le> t then specOp (?b + 1) (\<lambda>k. view E bi ti s k (?b + 1)) op k else view E bi ti s k t)" for k t
    proof (cases "?b + 1 \<le> t")
      case True
      then show ?thesis using now [of t k] K(1) by (auto simp: d(6) OpDelete)
    next
      case False
      then show ?thesis by (simp add: d(6))
    qed
    moreover have "runOp E (s, tw) op = Some (s1, tw1)" using d(1) OpDelete by (simp add: runOp_def)
    ultimately show ?thesis using d(2-5) unfolding len by blast
  qed
qed

lemma runOps_refine:
  assumes env: "env_ok E bi ti" and "txn_inv E bi ti N s tw"
    and "N + int (allWrites (tw_beginRev tw + 1) (\<lambda>k. view E bi ti s k (tw_beginRev tw + 1)) ops) < 2 ^ 62"
    and "\<forall>op \<in> set ops. op_ok E (the (st_le s)) op"
  shows "\<exists>s1 tw1. foldM (runOp E) (s, tw) ops = Some (s1, tw1) \<and>
    txn_inv E bi ti (N + int (allWrites (tw_beginRev tw + 1) (\<lambda>k. view E bi ti s k (tw_beginRev tw + 1)) ops)) s1 tw1 \<and>
    others s1 = others s \<and> same_past ti (tw_beginRev tw) s s1 \<and> tw_beginRev tw1 = tw_beginRev tw \<and>
    (\<forall>k t. view E bi ti s1 k t = (if tw_beginRev tw + 1 \<le> t
       then foldl (specOp (tw_beginRev tw + 1)) (\<lambda>k. view E bi ti s k (tw_beginRev tw + 1)) ops k else view E bi ti s k t))"
  using assms(2-)
proof (induction ops arbitrary: s tw N)
  case Nil
  have S: "store_inv E bi ti N (tw_beginRev tw) (length (tw_changes tw)) s" using Nil.prems(1) by (simp add: txn_inv_def)
  have "\<forall>k t. view E bi ti s k t = (if tw_beginRev tw + 1 \<le> t
       then foldl (specOp (tw_beginRev tw + 1)) (\<lambda>k. view E bi ti s k (tw_beginRev tw + 1)) [] k else view E bi ti s k t)"
    unfolding foldl.simps using view_now [OF S] by metis
  then show ?case using Nil.prems(1) by simp
next
  case (Cons op ops)
  let ?b = "tw_beginRev tw"
  let ?m = "\<lambda>k. view E bi ti s k (?b + 1)"
  have "N + int (opWrites ?m op) < 2 ^ 62" "op_ok E (the (st_le s)) op" using Cons.prems(2,3) by simp_all
  from runOp_refines [OF env Cons.prems(1) this] obtain s1 tw1 where 1: "runOp E (s, tw) op = Some (s1, tw1)"
    "txn_inv E bi ti (N + int (opWrites ?m op)) s1 tw1" "others s1 = others s" "same_past ti ?b s s1" "tw_beginRev tw1 = ?b"
    "\<forall>k t. view E bi ti s1 k t = (if ?b + 1 \<le> t then specOp (?b + 1) ?m op k else view E bi ti s k t)"
    by blast
  obtain le le1 where le: "st_le s = Some le" "st_le s1 = Some le1" using Cons.prems(1) 1(2) by (auto simp: txn_inv_def leases_agree_def)
  then have same: "bare le1 = bare le" using 1(3) by (simp add: others_def)
  have ok: "\<forall>op \<in> set ops. op_ok E (the (st_le s1)) op" using Cons.prems(3) le by (simp add: op_ok_bare [OF same])
  have m: "(\<lambda>k. view E bi ti s1 k (?b + 1)) = specOp (?b + 1) ?m op" using 1(6) by (simp add: fun_eq_iff)
  let ?n = "allWrites (?b + 1) (specOp (?b + 1) ?m op) ops"
  have "N + int (opWrites ?m op) + int ?n < 2 ^ 62" using Cons.prems(2) by simp
  from Cons.IH [OF 1(2), unfolded 1(5) m, OF this ok] obtain s2 tw2 where 2: "foldM (runOp E) (s1, tw1) ops = Some (s2, tw2)"
    "txn_inv E bi ti (N + int (opWrites ?m op) + int ?n) s2 tw2" "others s2 = others s1" "same_past ti ?b s1 s2" "tw_beginRev tw2 = ?b"
    "\<forall>k t. view E bi ti s2 k t = (if ?b + 1 \<le> t then foldl (specOp (?b + 1)) (specOp (?b + 1) ?m op) ops k else view E bi ti s1 k t)" by blast
  have "\<forall>k t. view E bi ti s2 k t = (if ?b + 1 \<le> t then foldl (specOp (?b + 1)) ?m (op # ops) k else view E bi ti s k t)"
    using 2(6) 1(6) by simp
  moreover have "same_past ti ?b s s2" using same_past_trans [OF 1(4)] 2(4) by simp
  ultimately show ?case using 1(1,3) 2(1,2,3,5) by (intro exI [of _ s2] exI [of _ tw2]) (simp add: add.assoc)
qed

lemma idle_now:
  assumes "idle E bi ti N s"
  shows "view E bi ti s k (st_currentRev s + 1) = view E bi ti s k (st_currentRev s)"
proof -
  have S: "store_inv E bi ti N (tw_beginRev (WriteTxn s)) (length (tw_changes (WriteTxn s))) s" using assms by (simp add: idle_def txn_inv_def)
  show ?thesis using h_get_now [OF S, of k] by (simp add: readRev_def WriteTxn_def view_def)
qed

lemma idle_more: "idle E bi ti N s \<Longrightarrow> N \<le> N' \<Longrightarrow> idle E bi ti N' s"
  unfolding idle_def txn_inv_def store_inv_def versions_below_def by fastforce

text \<open>A transaction does to the store what the specification does to the map, all at one revision, and the
  store does not change at revisions before it.\<close>

theorem transaction_refines:
  assumes env: "env_ok E bi ti" and inv: "idle E bi ti N s" and N: "N + int (allWrites (st_currentRev s + 1) (\<lambda>k. view E bi ti s k (st_currentRev s)) ops) < 2 ^ 62"
    and ok: "\<forall>op \<in> set ops. op_ok E (the (st_le s)) op" and ver: "tr_bufVersion (be_readBuf (st_be s)) < MaxUint64"
  shows "\<exists>s1. transaction E s ops = Some s1 \<and>
    idle E bi ti (N + int (allWrites (st_currentRev s + 1) (\<lambda>k. view E bi ti s k (st_currentRev s)) ops)) s1 \<and>
    same_past ti (st_currentRev s) s s1 \<and> st_currentRev s \<le> st_currentRev s1 \<and> st_currentRev s1 \<le> st_currentRev s + 1 \<and>
    st_compactMainRev s1 = st_compactMainRev s \<and> tr_bufVersion (be_readBuf (st_be s1)) \<le> tr_bufVersion (be_readBuf (st_be s)) + 1 \<and>
    bare (the (st_le s1)) = bare (the (st_le s)) \<and> st_batchLimit s1 = st_batchLimit s \<and>
    (\<forall>k. view E bi ti s1 k (st_currentRev s1) = foldl (specOp (st_currentRev s + 1)) (\<lambda>k. view E bi ti s k (st_currentRev s)) ops k) \<and>
    (\<forall>k t. view E bi ti s1 k t = (if st_currentRev s + 1 \<le> t
       then foldl (specOp (st_currentRev s + 1)) (\<lambda>k. view E bi ti s k (st_currentRev s)) ops k else view E bi ti s k t))"
proof -
  let ?b = "st_currentRev s"
  define N1 where "N1 = N + int (allWrites (?b + 1) (\<lambda>k. view E bi ti s k ?b) ops)"
  have same: "(\<lambda>k. view E bi ti s k (?b + 1)) = (\<lambda>k. view E bi ti s k ?b)" using idle_now [OF inv] by (simp add: fun_eq_iff)
  have b: "tw_beginRev (WriteTxn s) = ?b" by (simp add: WriteTxn_def)
  have txn: "txn_inv E bi ti N s (WriteTxn s)" using inv by (simp add: idle_def)
  from runOps_refine [OF env txn, unfolded b same, OF N ok, folded N1_def] obtain s1 tw1 where 1: "foldM (runOp E) (s, WriteTxn s) ops = Some (s1, tw1)"
    "N1 < 2 ^ 62" "txn_inv E bi ti N1 s1 tw1" "others s1 = others s" "same_past ti ?b s s1" "tw_beginRev tw1 = ?b"
    "\<forall>k t. view E bi ti s1 k t = (if ?b + 1 \<le> t then foldl (specOp (?b + 1)) (\<lambda>k. view E bi ti s k ?b) ops k else view E bi ti s k t)"
    using N unfolding N1_def by blast
  have r: "tr_bufVersion (be_readBuf (st_be s1)) = tr_bufVersion (be_readBuf (st_be s))" "st_compactMainRev s1 = st_compactMainRev s"
    "st_batchLimit s1 = st_batchLimit s"
    "map_option bare (st_le s1) = map_option bare (st_le s)" using 1(4) by (simp_all add: others_def)
  obtain le le1 where le: "st_le s = Some le" "st_le s1 = Some le1" using inv 1(3) by (auto simp: idle_def txn_inv_def leases_agree_def)
  have "N1 < 2 ^ 62" "tr_bufVersion (be_readBuf (st_be s1)) < MaxUint64" using 1(2) ver r(1) by simp_all
  from EndWrite_keeps [OF env 1(3) this] obtain s2 where 2: "EndWrite E s1 tw1 = Some s2" "idle E bi ti N1 s2" "view E bi ti s2 = view E bi ti s1"
    "st_currentRev s2 = (if tw_changes tw1 = [] then ?b else ?b + 1)" "st_kvindex s2 = st_kvindex s1" "st_le s2 = st_le s1"
    "st_compactMainRev s2 = st_compactMainRev s1" "st_batchLimit s2 = st_batchLimit s1" "tr_bufVersion (be_readBuf (st_be s2)) \<le> tr_bufVersion (be_readBuf (st_be s1)) + 1"
    unfolding 1(6) by blast
  have "transaction E s ops = Some s2" using 1(1) 2(1) by (simp add: transaction_def)
  moreover have "same_past ti ?b s s2" using 1(5) 2(5) by (simp add: same_past_def)
  moreover have "bare (the (st_le s2)) = bare (the (st_le s))" using 2(6) le r(4) by simp
  moreover have "\<forall>k t. view E bi ti s2 k t = (if ?b + 1 \<le> t then foldl (specOp (?b + 1)) (\<lambda>k. view E bi ti s k ?b) ops k else view E bi ti s k t)"
    using 1(7) unfolding 2(3) by blast
  moreover have "\<forall>k. view E bi ti s2 k (st_currentRev s2) = foldl (specOp (?b + 1)) (\<lambda>k. view E bi ti s k ?b) ops k"
  proof
    fix k
    have "view E bi ti s2 k (st_currentRev s2) = view E bi ti s2 k (?b + 1)" using idle_now [OF 2(2), of k] 2(4) by (simp split: if_splits)
    then show "view E bi ti s2 k (st_currentRev s2) = foldl (specOp (?b + 1)) (\<lambda>k. view E bi ti s k ?b) ops k"
      using 1(7) unfolding 2(3) by simp
  qed
  ultimately show ?thesis using 2(2,4,7,8,9) r unfolding N1_def by (intro exI [of _ s2]) simp
qed

text \<open>A deletion of a range within a transaction.\<close>

theorem DeleteRange_deletes:
  assumes env: "env_ok E bi ti" and inv: "txn_inv E bi ti N s tw"
    and N: "N + int (card {k. wanted key en k \<and> view E bi ti s k (tw_beginRev tw + 1) \<noteq> None}) < 2 ^ 62"
  shows "\<exists>keys s1 tw1. existing E bi ti s key en (tw_beginRev tw + 1) keys \<and>
    DeleteRange E s tw key en = Some (int (length keys),
      (if keys = [] \<and> tw_changes tw = [] then tw_beginRev tw else tw_beginRev tw + 1), s1, tw1) \<and>
    txn_inv E bi ti (N + int (length keys)) s1 tw1 \<and> others s1 = others s \<and> tw_beginRev tw1 = tw_beginRev tw \<and>
    (\<forall>k t. view E bi ti s1 k t = (if wanted key en k \<and> tw_beginRev tw + 1 \<le> t then None else view E bi ti s k t))"
proof -
  let ?b = "tw_beginRev tw"
  have S: "store_inv E bi ti N ?b (length (tw_changes tw)) s" using inv by (simp add: txn_inv_def)
  have N62: "N < 2 ^ 62" using N by simp
  obtain keys where ks: "existing E bi ti s key en (?b + 1) keys"
    and D: "N + int (length keys) < 2 ^ 62 \<longrightarrow> (\<exists>s1 tw1.
       DeleteRange E s tw key en = Some (int (length keys), (if keys = [] \<and> tw_changes tw = [] then ?b else ?b + 1), s1, tw1) \<and>
       txn_inv E bi ti (N + int (length keys)) s1 tw1 \<and> others s1 = others s \<and> same_past ti ?b s s1 \<and>
       tw_beginRev tw1 = ?b \<and> length (tw_changes tw1) = length (tw_changes tw) + length keys \<and>
       (\<forall>k t. view E bi ti s1 k t = (if k \<in> set keys \<and> ?b + 1 \<le> t then None else view E bi ti s k t)))"
    using DeleteRange_keys [OF env inv N62, of key en] by blast
  have "length keys = card (set keys)" using ks sorted_keys_distinct [of keys] distinct_card [of keys] by (simp add: existing_def)
  then have "N + int (length keys) < 2 ^ 62" using N ks by (simp add: existing_def)
  then obtain s1 tw1 where d: "DeleteRange E s tw key en = Some (int (length keys), (if keys = [] \<and> tw_changes tw = [] then ?b else ?b + 1), s1, tw1)"
    "txn_inv E bi ti (N + int (length keys)) s1 tw1" "others s1 = others s" "tw_beginRev tw1 = ?b"
    "\<forall>k t. view E bi ti s1 k t = (if k \<in> set keys \<and> ?b + 1 \<le> t then None else view E bi ti s k t)" using D by blast
  have "view E bi ti s1 k t = (if wanted key en k \<and> ?b + 1 \<le> t then None else view E bi ti s k t)" for k t
    using d(5) ks view_now [OF S, of t k] by (auto simp: existing_def split: if_splits)
  then show ?thesis using ks d(1-4) by blast
qed

subsection \<open>The store over an empty database\<close>

lemma empty_view: "ti (st_kvindex s) = [] \<Longrightarrow> view E bi ti s k t = None"
  by (simp add: view_def histAt_def)

lemma empty_store_idle:
  assumes be: "be_inv bi (revToBytes (Revision 2 0)) (st_be s)" "pendingPairs (st_be s) = []"
    and c: "content bi (st_be s) keyBucket = Some []" "content bi (st_be s) metaBucketName \<noteq> None" "content bi (st_be s) leaseBucketName \<noteq> None"
    and t: "ti (st_kvindex s) = []" and cur: "st_currentRev s = 1"
    and le: "st_le s = Some le" "items_inv le" "le_itemMap le = fmempty"
  shows "idle E bi ti 1 s"
proof -
  have h: "histAt ti (st_kvindex s) k = []" for k by (simp add: histAt_def t)
  note v = empty_view [of ti s E bi, OF t]
  have "stored bi (st_be s) = (\<lambda>_. None)" using c(1) by (simp add: stored_def bucketMap_def fun_eq_iff)
  then have "store_inv E bi ti 1 1 0 s"
    unfolding store_inv_def using be(1) c h
    by (simp add: keys_ok_def ti_inv_def t sorted_items_def changed_before_def versions_below_def)
  moreover have "GetLease le k = NoLease" for k by (simp add: GetLease_def le(3))
  ultimately show ?thesis
    using be(2) cur le v by (simp add: idle_def txn_inv_def WriteTxn_def leases_agree_def leaseIn_def)
qed

text \<open>What \<open>New\<close> of the store makes of a backend without revisions.\<close>

lemma NewStore_empty:
  assumes B: "bolt_ok (ke_bolt E) bi" and t: "ti (ke_newTree E) = []" and inv: "be_inv bi (revToBytes (Revision 2 0)) be"
    and c: "content bi be keyBucket = None" "content bi be metaBucketName = None" "content bi be leaseBucketName \<noteq> None"
    and le: "items_inv le" "le_itemMap le = fmempty" and ver: "tr_bufVersion (be_readBuf be) + 2 < MaxUint64" and l: "0 \<le> batchLimit"
  shows "\<exists>s. NewStore E order lg be (Some le) ig batchLimit = Some s \<and> idle E bi ti 1 s \<and> (\<forall>k t. view E bi ti s k t = None) \<and>
    st_currentRev s = 1 \<and> st_compactMainRev s = -1 \<and> 0 < st_batchLimit s \<and> st_le s = Some (SetRangeDeleter le True) \<and>
    tr_bufVersion (be_readBuf (st_be s)) \<le> tr_bufVersion (be_readBuf be) + 2"
proof -
  let ?up = "revToBytes (Revision 2 0)"
  have ne: "keyBucketName \<noteq> []" "metaBucketName \<noteq> []" "metaBucketName \<noteq> keyBucket" "leaseBucketName \<noteq> keyBucket"
    "leaseBucketName \<noteq> metaBucketName" "keyBucketName = keyBucket"
    by (simp_all add: keyBucketName_def metaBucketName_def leaseBucketName_def)
  obtain be1 where be1: "UnsafeCreateBucket (ke_bolt E) be keyBucketName = Some be1" "be_inv bi ?up be1"
    "content bi be1 = (content bi be)(keyBucketName \<mapsto> [])" "tr_bufVersion (be_readBuf be1) = tr_bufVersion (be_readBuf be)"
    using UnsafeCreateBucket_inv [OF B inv ne(1)] c(1) ne(6) by auto
  have "content bi be1 metaBucketName = None" using be1(3) c(2) ne by simp
  then obtain be2 where be2: "UnsafeCreateBucket (ke_bolt E) be1 metaBucketName = Some be2" "be_inv bi ?up be2"
    "content bi be2 = (content bi be1)(metaBucketName \<mapsto> [])" "tr_bufVersion (be_readBuf be2) = tr_bufVersion (be_readBuf be)"
    using UnsafeCreateBucket_inv [OF B be1(2) ne(2)] be1(4) by auto
  have c2: "content bi be2 keyBucket = Some []" "content bi be2 metaBucketName = Some []" "content bi be2 leaseBucketName \<noteq> None"
    using be1(3) be2(3) c(3) ne by simp_all
  have up: "?up \<noteq> []" by simp
  have "holds bi ?up [] be2" using be2(2) c2 by (simp add: holds_def)
  moreover have "tr_bufVersion (be_readBuf be2) < MaxUint64" using be2(4) ver by simp
  ultimately obtain be3 where be3: "Unlock (ke_bolt E) be2 = Some be3" "be_inv bi ?up be3" "pendingPairs be3 = []"
    "content bi be3 = content bi be2" "tr_bufVersion (be_readBuf be3) \<le> tr_bufVersion (be_readBuf be) + 1"
    using Unlock_inv [OF B be2(2) _ up] be2(4) by auto
  obtain be4 where be4: "ForceCommit (ke_bolt E) be3 = Some be4" "be_inv bi ?up be4" "pendingPairs be4 = []"
    "content bi be4 = content bi be3" "tr_bufVersion (be_readBuf be4) = tr_bufVersion (be_readBuf be3)"
    using ForceCommit_inv [OF B be3(2,3)] by blast
  have c4: "content bi be4 keyBucket = Some []" "content bi be4 metaBucketName = Some []" "content bi be4 leaseBucketName \<noteq> None"
    using c2 be3(4) be4(4) by simp_all
  have "tr_bufVersion (be_readBuf be4) < MaxUint64" using be3(5) be4(5) ver by simp
  then obtain be5 where be5: "Unlock (ke_bolt E) be4 = Some be5" "be_inv bi ?up be5" "pendingPairs be5 = []"
    "content bi be5 = content bi be4" "tr_bufVersion (be_readBuf be5) \<le> tr_bufVersion (be_readBuf be) + 2"
    using Unlock_inv [OF B be4(2) _ up] be3(5) be4(5) by auto
  note live = be_invD(1,3) [OF be4(2)]
  have meta: "metaRevision E be4 name = Some None" for name
    using UnsafeRange_key [OF B live c4(2)] by (simp add: metaRevision_def)
  have loop: "restoreLoop E be4 mn (revToBytes mx) acc = Some acc" for mn mx acc
    using UnsafeRange_bounds [OF B live c4(1), of "revToBytes mx" "int restoreChunkKeys" mn]
    by (simp add: restoreLoop.simps ne(6) restoreChunkKeys_def)
  let ?s = "\<lparr>st_be = be5, st_le = Some (SetRangeDeleter le True), st_kvindex = ke_newTree E, st_currentRev = 1,
     st_compactMainRev = -1, st_consistentIndex = 0,
     st_batchLimit = (if batchLimit = 0 then defaultCompactBatchLimit else batchLimit), st_ig = ig, st_lg = lg\<rparr>"
  have "NewStore E order lg be (Some le) ig batchLimit = Some ?s"
    using be1(1) be2(1) be3(1) be4(1) be5(1) by (simp add: NewStore_def restoreStore_def meta loop Let_def)
  moreover have items: "items_inv (SetRangeDeleter le True)" "le_itemMap (SetRangeDeleter le True) = fmempty"
    using le by (simp_all add: SetRangeDeleter_def items_inv_def)
  moreover have "idle E bi ti 1 ?s"
    by (rule empty_store_idle [where le = "SetRangeDeleter le True"]) (use be5 c4 t items in simp_all)
  moreover have "\<forall>k t. view E bi ti ?s k t = None" using empty_view [of ti ?s E bi] t by simp
  moreover have "0 < st_batchLimit ?s" using l by (simp add: defaultCompactBatchLimit_def)
  ultimately show ?thesis using be5(5) by (intro exI [of _ ?s]) simp
qed

theorem fresh_store:
  assumes env: "env_ok E bi ti" and t: "ti (ke_newTree E) = []" and db: "\<And>b. bi db b = None" and l: "0 \<le> batchLimit"
  shows "\<exists>be le be1 s. newBackend (ke_bolt E) n db = Some be \<and> newLessor lc (ke_bolt E) be v36 cfg = Some (le, be1) \<and>
    NewStore E order lg be1 (Some le) ig batchLimit = Some s \<and> idle E bi ti 1 s \<and> (\<forall>k t. view E bi ti s k t = None) \<and>
    st_currentRev s = 1 \<and> st_compactMainRev s = -1 \<and> 0 < st_batchLimit s \<and> le_leaseMap le = fmempty \<and>
    tr_bufVersion (be_readBuf (st_be s)) \<le> 3"
proof -
  let ?up = "revToBytes (Revision 2 0)"
  note B = env_okD(1) [OF env]
  obtain be where be: "newBackend (ke_bolt E) n db = Some be" "be_inv bi ?up be" "pendingPairs be = []" "content bi be = bi db"
    "tr_bufVersion (be_readBuf be) = 0"
    using newBackend_inv [of bi db ?up "ke_bolt E" n] db by (auto simp: bucketMap_def)
  have ne: "leaseBucketName \<noteq> []" "leaseBucketName \<noteq> keyBucket" "metaBucketName \<noteq> leaseBucketName" "metaBucketName \<noteq> keyBucket"
    by (simp_all add: metaBucketName_def leaseBucketName_def)
  obtain be1 where be1: "UnsafeCreateBucket (ke_bolt E) be leaseBucketName = Some be1" "be_inv bi ?up be1"
    "content bi be1 = (content bi be)(leaseBucketName \<mapsto> [])" "tr_bufVersion (be_readBuf be1) = 0"
    using UnsafeCreateBucket_inv [OF B be(2) ne(1)] be(4,5) db by auto
  obtain d where d: "be_tx be1 = Some d" "\<not> be_closed be1" using be_invD(1,3) [OF be1(2)] by auto
  have "bi d leaseBucketName = Some []" using be1(3) d(1) by (simp add: content_def fun_eq_iff)
  then have all: "UnsafeForEach (ke_bolt E) be1 leaseBucketName = Some []"
    using d bolt_okD(2,7) [OF B] by (simp add: UnsafeForEach_def liveTx_def unsafeForEach_def)
  have up: "?up \<noteq> []" by simp
  have "tr_bufVersion (be_readBuf be1) < MaxUint64" using be1(4) by (simp add: MaxUint64_def)
  then obtain be2 where be2: "Unlock (ke_bolt E) be1 = Some be2" "be_inv bi ?up be2" "pendingPairs be2 = []"
    "content bi be2 = content bi be1" "tr_bufVersion (be_readBuf be2) \<le> 1"
    using Unlock_inv [OF B be1(2) _ up] be1(4) by auto
  obtain be3 where be3: "ForceCommit (ke_bolt E) be2 = Some be3" "be_inv bi ?up be3" "pendingPairs be3 = []"
    "content bi be3 = content bi be2" "tr_bufVersion (be_readBuf be3) = tr_bufVersion (be_readBuf be2)"
    using ForceCommit_inv [OF B be2(2,3)] by blast
  obtain le where le: "newLessor lc (ke_bolt E) be v36 cfg = Some (le, be3)" "le_leaseMap le = fmempty" "le_itemMap le = fmempty"
    using be1(1) all be2(1) be3(1) by (auto simp: newLessor_def initAndRecover_def unsafeGetAllLeases_def Let_def)
  have items: "items_inv le" using le(2,3) by (simp add: items_inv_def)
  have c: "content bi be3 keyBucket = None" "content bi be3 metaBucketName = None" "content bi be3 leaseBucketName \<noteq> None"
    using be1(3) be2(4) be3(4) be(4) db ne by simp_all
  have "tr_bufVersion (be_readBuf be3) + 2 < MaxUint64" using be2(5) be3(5) by (simp add: MaxUint64_def)
  from NewStore_empty [where E = E and bi = bi and ti = ti, OF B t be3(2) c items le(3) this l, of order lg ig] obtain s where s: "NewStore E order lg be3 (Some le) ig batchLimit = Some s"
    "idle E bi ti 1 s" "\<forall>k t. view E bi ti s k t = None" "st_currentRev s = 1" "st_compactMainRev s = -1" "0 < st_batchLimit s"
    "tr_bufVersion (be_readBuf (st_be s)) \<le> tr_bufVersion (be_readBuf be3) + 2" by blast
  then show ?thesis using be(1) le(1,2) be2(5) be3(5) by (intro exI [of _ be] exI [of _ le] exI [of _ be3] exI [of _ s]) simp
qed

end
