(* ===== verification/SampleStore.thy ===== *)
theory SampleStore
  imports KvRun
begin

text \<open>
  A concrete environment for the store: a database that is a list of buckets, a codec for pairs, and the store
  over an empty database.
\<close>

subsection \<open>A database\<close>

definition sampleItems :: "(string \<times> pairs) list \<Rightarrow> string \<Rightarrow> pairs option" where
  "sampleItems d b = map_option (\<lambda>ps. foldr putPair ps []) (map_of d b)"

lemma asc_foldr: "asc (foldr putPair ps [])"
  by (induction ps) (simp_all add: asc_putPair)

lemma putPair_least: "(\<forall>q \<in> set ps. bytesLess (fst p) (fst q)) \<Longrightarrow> putPair p ps = p # ps"
  by (cases ps) auto

lemma foldr_asc: "asc ps \<Longrightarrow> foldr putPair ps [] = ps"
  by (induction ps) (simp_all add: putPair_least)

definition sampleBolt :: "(string \<times> pairs) list boltOps" where
  "sampleBolt = \<lparr>
     bolt_hasBucket = (\<lambda>d b. sampleItems d b \<noteq> None),
     bolt_CreateBucket = (\<lambda>d b. if b = [] then None
       else Some (AList.update b (case sampleItems d b of None \<Rightarrow> [] | Some ps \<Rightarrow> ps) d)),
     bolt_Put = (\<lambda>d b k v. if validPair k v then map_option (\<lambda>ps. AList.update b (putPair (k, v) ps) d) (sampleItems d b) else None),
     bolt_Delete = (\<lambda>d b k. map_option (\<lambda>ps. AList.update b (filter (\<lambda>p. fst p \<noteq> k) ps) d) (sampleItems d b)),
     bolt_Seek = (\<lambda>d b k. case sampleItems d b of None \<Rightarrow> [] | Some ps \<Rightarrow> dropWhile (\<lambda>p. bytesLess (fst p) k) ps),
     bolt_ForEach = (\<lambda>d b. case sampleItems d b of None \<Rightarrow> [] | Some ps \<Rightarrow> ps),
     bolt_Commit = Some,
     sort_Sort = stableSort\<rparr>"

lemma sampleItems_update: "asc ps \<Longrightarrow> sampleItems (AList.update b ps d) = (sampleItems d)(b \<mapsto> ps)"
  by (simp add: sampleItems_def update_conv' foldr_asc fun_eq_iff)

lemma sampleItems_asc: "sampleItems d b = Some ps \<Longrightarrow> asc ps"
  using asc_foldr by (auto simp: sampleItems_def)

lemma mset_insertPair: "mset (insertPair p ps) = add_mset p (mset ps)"
  by (induction ps) auto

lemma insertPair_weak:
  "sorted_wrt (\<lambda>p q. \<not> bytesLess (fst q) (fst p)) ps \<Longrightarrow> sorted_wrt (\<lambda>p q. \<not> bytesLess (fst q) (fst p)) (insertPair p ps)"
proof (induction ps)
  case (Cons q ps)
  have set: "set (insertPair p ps) = insert p (set ps)" using mset_insertPair [of p ps] by (metis set_mset_add_mset_insert set_mset_mset)
  show ?case
  proof (cases "bytesLess (fst q) (fst p)")
    case True
    then show ?thesis using Cons set bytesLess_asym [OF True] by auto
  next
    case False
    have "\<not> bytesLess (fst x) (fst p)" if "x \<in> set ps" for x
    proof
      assume x: "bytesLess (fst x) (fst p)"
      have "\<not> bytesLess (fst x) (fst q)" using Cons.prems that by simp
      then have "fst x = fst q \<or> bytesLess (fst q) (fst x)" using bytesLess_linear [of "fst x" "fst q"] by blast
      then show False using x False bytesLess_trans [of "fst q" "fst x" "fst p"] by auto
    qed
    then show ?thesis using Cons.prems False by simp
  qed
qed simp

lemma stableSort_sorts: "sorts stableSort"
proof -
  have "mset (stableSort ps) = mset ps" for ps by (induction ps) (simp_all add: stableSort_def mset_insertPair)
  moreover have "sorted_wrt (\<lambda>p q. \<not> bytesLess (fst q) (fst p)) (stableSort ps)" for ps by (induction ps) (simp_all add: stableSort_def insertPair_weak)
  ultimately show ?thesis by (simp add: sorts_def)
qed

lemma sampleBolt_ok: "bolt_ok sampleBolt sampleItems"
  unfolding bolt_ok_def
proof (intro conjI allI impI)
  fix d :: "(string \<times> pairs) list" and b ps k v
  show "sampleItems d b = Some ps \<Longrightarrow> asc ps" by (rule sampleItems_asc)
  show "bolt_hasBucket sampleBolt d b \<longleftrightarrow> sampleItems d b \<noteq> None" by (simp add: sampleBolt_def)
  show "\<exists>d'. bolt_CreateBucket sampleBolt d b = Some d' \<and>
      sampleItems d' = (sampleItems d)(b \<mapsto> (case sampleItems d b of None \<Rightarrow> [] | Some ps \<Rightarrow> ps))" if "b \<noteq> []"
    using that sampleItems_asc [of d b] by (auto simp: sampleBolt_def sampleItems_update split: option.splits)
  show "\<exists>d'. bolt_Put sampleBolt d b k v = Some d' \<and> sampleItems d' = (sampleItems d)(b \<mapsto> putPair (k, v) ps)"
    if "sampleItems d b = Some ps \<and> validPair k v"
    using that sampleItems_asc [of d b ps] by (simp add: sampleBolt_def sampleItems_update asc_putPair)
  show "\<exists>d'. bolt_Delete sampleBolt d b k = Some d' \<and> sampleItems d' = (sampleItems d)(b \<mapsto> filter (\<lambda>p. fst p \<noteq> k) ps)"
    if "sampleItems d b = Some ps"
    using that sampleItems_asc [of d b ps] by (simp add: sampleBolt_def sampleItems_update asc_filter)
  show "bolt_Seek sampleBolt d b k = dropWhile (\<lambda>p. bytesLess (fst p) k) ps" if "sampleItems d b = Some ps"
    using that by (simp add: sampleBolt_def)
  show "bolt_ForEach sampleBolt d b = ps" if "sampleItems d b = Some ps" using that by (simp add: sampleBolt_def)
  show "\<exists>d'. bolt_Commit sampleBolt d = Some d' \<and> sampleItems d' = sampleItems d" by (simp add: sampleBolt_def)
  show "sorts (sort_Sort sampleBolt)" by (simp add: sampleBolt_def stableSort_sorts)
qed

subsection \<open>A codec\<close>

fun packKey :: "string \<Rightarrow> string" where
  "packKey [] = '';''"
| "packKey (c # key) = CHR ''.'' # c # packKey key"

fun unpackKey :: "string \<Rightarrow> string \<times> string" where
  "unpackKey (a # c # s) = (if a = CHR ''.'' then (case unpackKey s of (key, r) \<Rightarrow> (c # key, r)) else ([], c # s))"
| "unpackKey s = ([], [])"

lemma unpack_pack: "unpackKey (packKey key @ v) = (key, v)"
proof (induction key)
  case Nil
  then show ?case by (cases v) simp_all
qed simp

definition sampleCodec :: kvCodec where
  "sampleCodec = \<lparr>
     kc_marshal = (\<lambda>kv. PutUint64 (toUint64 (kv_CreateRevision kv)) @ PutUint64 (toUint64 (kv_ModRevision kv)) @
       PutUint64 (toUint64 (kv_Version kv)) @ PutUint64 (toUint64 (kv_Lease kv)) @ packKey (kv_Key kv) @ kv_Value kv),
     kc_unmarshal = (\<lambda>s. case unpackKey (drop 32 s) of (key, v) \<Rightarrow>
       Some \<lparr>kv_Key = key, kv_CreateRevision = toInt64 (Uint64 s), kv_ModRevision = toInt64 (Uint64 (drop 8 s)),
         kv_Version = toInt64 (Uint64 (drop 16 s)), kv_Value = v, kv_Lease = toInt64 (Uint64 (drop 24 s))\<rparr>)\<rparr>"

lemma sampleCodec_ok: "codec_ok sampleCodec"
  unfolding codec_ok_def
proof (intro allI impI)
  fix kv assume kv: "kv_ok kv"
  have u: "Uint64 (PutUint64 (toUint64 x) @ s) = toUint64 x" for x s by (rule Uint64_PutUint64 [OF toUint64_less])
  show "kc_unmarshal sampleCodec (kc_marshal sampleCodec kv) = Some kv"
    using kv by (simp add: sampleCodec_def kv_ok_def u unpack_pack toInt64_toUint64)
qed

lemma length_packKey [simp]: "length (packKey key) = 2 * length key + 1"
  by (induction key) simp_all

definition storeEnv :: "((string \<times> pairs) list, keyIndex list) kvEnv" where
  "storeEnv = \<lparr>ke_bolt = sampleBolt, ke_btree = listTree, ke_newTree = [], ke_kv = sampleCodec,
     ke_lease = \<lparr>lc_marshal = (\<lambda>_. []), lc_unmarshal = (\<lambda>_. None)\<rparr>\<rparr>"

lemma storeEnv_ok: "env_ok storeEnv sampleItems (\<lambda>t. t)"
  using sampleBolt_ok listTree_ok sampleCodec_ok by (simp add: env_ok_def storeEnv_def)

lemma sample_fits: "length key < 100 \<Longrightarrow> length v < 100 \<Longrightarrow> fitting storeEnv key v"
  by (auto simp: fitting_def storeEnv_def sampleCodec_def)

subsection \<open>A store\<close>

text \<open>The database has its buckets, and the lessor one lease.\<close>

definition sampleDb :: "(string \<times> pairs) list" where
  "sampleDb = [(''key'', []), (''meta'', []), (''lease'', [])]"

definition sampleLessor :: lessor where
  "sampleLessor = \<lparr>le_demotec = True, le_leaseMap = fmupd 7 (NewLease 7 60) fmempty, le_leaseExpiredNotifier = newLeaseExpiredNotifier,
     le_leaseCheckpointHeap = [], le_itemMap = fmempty, le_rd = True, le_cp = False, le_minLeaseTTL = 1, le_expiredC = [],
     le_checkpointInterval = 300000000000, le_expiredLeaseRetryInterval = 3000000000, le_checkpointPersist = False, le_clusterV36 = False\<rparr>"

lemma sample_backend:
  "\<exists>be. newBackend sampleBolt 100 sampleDb = Some be \<and> be_inv sampleItems (revToBytes (Revision 2 0)) be \<and> pendingPairs be = [] \<and>
    content sampleItems be = sampleItems sampleDb \<and> tr_bufVersion (be_readBuf be) = 0"
proof (rule newBackend_inv)
  fix k assume "bucketMap (sampleItems sampleDb keyBucket) k \<noteq> None"
  then show "bytesLess k (revToBytes (Revision 2 0))" by (simp add: bucketMap_def sampleItems_def sampleDb_def)
qed

lemma sample_store:
  "\<exists>s. idle storeEnv sampleItems (\<lambda>t. t) 1 s \<and> st_le s = Some sampleLessor \<and> st_currentRev s = 1 \<and> st_compactMainRev s = -1 \<and>
    st_batchLimit s = 1000 \<and> tr_bufVersion (be_readBuf (st_be s)) = 0 \<and> (\<forall>k t. view storeEnv sampleItems (\<lambda>t. t) s k t = None)"
proof -
  obtain be where be: "newBackend sampleBolt 100 sampleDb = Some be" "be_inv sampleItems (revToBytes (Revision 2 0)) be" "pendingPairs be = []"
    "content sampleItems be = sampleItems sampleDb" "tr_bufVersion (be_readBuf be) = 0" using sample_backend by blast
  let ?s = "\<lparr>st_be = be, st_le = Some sampleLessor, st_kvindex = [], st_currentRev = 1, st_compactMainRev = -1, st_consistentIndex = 0,
     st_batchLimit = 1000, st_ig = None, st_lg = True\<rparr>"
  have "items_inv sampleLessor" "le_itemMap sampleLessor = fmempty" by (simp_all add: items_inv_def sampleLessor_def NewLease_def)
  then have "idle storeEnv sampleItems (\<lambda>t. t) 1 ?s"
    using be by (intro empty_store_idle [where le = sampleLessor])
      (simp_all add: sampleItems_def sampleDb_def metaBucketName_def leaseBucketName_def)
  moreover have "\<forall>k t. view storeEnv sampleItems (\<lambda>t. t) ?s k t = None" using empty_view [of "\<lambda>t. t" ?s storeEnv sampleItems] by simp
  ultimately show ?thesis using be(5) by (intro exI [of _ ?s]) simp
qed

text \<open>Two keys are put, one of them with the lease.\<close>

definition sampleOps :: "txnOp list" where
  "sampleOps = [OpPut ''a'' ''x'' 7, OpPut ''b'' ''y'' 0]"

lemma sample_ops_ok: "le_leaseMap le = le_leaseMap sampleLessor \<Longrightarrow> \<forall>op \<in> set sampleOps. op_ok storeEnv le op"
  by (simp add: sampleOps_def sample_fits in_int64_def NoLease_def sampleLessor_def)

lemma sample_writes: "allWrites r m sampleOps = 2"
  by (simp add: sampleOps_def)

lemma sample_range_writes: "allWrites r (\<lambda>_. None) (sampleOps @ [OpDelete ''a'' (Some ''b'')]) = 3"
proof -
  let ?m = "foldl (specOp r) (\<lambda>_. None) sampleOps"
  have "k = ''a''" if "wanted ''a'' (Some ''b'') k" "?m k \<noteq> None" for k
    using that by (auto simp: sampleOps_def wanted_def in_range_def split: if_splits)
  moreover have "wanted ''a'' (Some ''b'') ''a''" "?m ''a'' \<noteq> None" by (simp_all add: sampleOps_def wanted_def in_range_def)
  ultimately have "{k. wanted ''a'' (Some ''b'') k \<and> ?m k \<noteq> None} = {''a''}" by blast
  then show ?thesis by (simp add: sampleOps_def)
qed

lemma sample_after:
  "\<exists>s le. idle storeEnv sampleItems (\<lambda>t. t) 3 s \<and> st_le s = Some le \<and> items_inv le \<and> bare le = bare sampleLessor \<and> GetLease le ''a'' = 7 \<and>
    1 \<le> st_currentRev s \<and> st_currentRev s \<le> 2 \<and> st_compactMainRev s = -1 \<and> st_batchLimit s = 1000 \<and> tr_bufVersion (be_readBuf (st_be s)) \<le> 1 \<and>
    view storeEnv sampleItems (\<lambda>t. t) s ''a'' (st_currentRev s) =
      Some \<lparr>kv_Key = ''a'', kv_CreateRevision = 2, kv_ModRevision = 2, kv_Version = 1, kv_Value = ''x'', kv_Lease = 7\<rparr> \<and>
    {k. GetLease le k = 7} = {''a''}"
proof -
  let ?v = "view storeEnv sampleItems (\<lambda>t. t)"
  obtain s where s: "idle storeEnv sampleItems (\<lambda>t. t) 1 s" "st_le s = Some sampleLessor" "st_currentRev s = 1" "st_compactMainRev s = -1"
    "st_batchLimit s = 1000" "tr_bufVersion (be_readBuf (st_be s)) = 0" "\<forall>k t. ?v s k t = None" using sample_store by blast
  have ok: "\<forall>op \<in> set sampleOps. op_ok storeEnv (the (st_le s)) op" using sample_ops_ok s(2) by simp
  have "1 + int (allWrites (st_currentRev s + 1) (\<lambda>k. ?v s k (st_currentRev s)) sampleOps) < 2 ^ 62" "tr_bufVersion (be_readBuf (st_be s)) < MaxUint64"
    using s(6) by (simp_all add: sample_writes MaxUint64_def)
  from transaction_refines [OF storeEnv_ok s(1) this(1) ok this(2), unfolded sample_writes] obtain s1 where s1: "1 + int 2 = (3 :: int)"
    "idle storeEnv sampleItems (\<lambda>t. t) (1 + int 2) s1" "st_currentRev s \<le> st_currentRev s1" "st_currentRev s1 \<le> st_currentRev s + 1"
    "st_compactMainRev s1 = st_compactMainRev s" "tr_bufVersion (be_readBuf (st_be s1)) \<le> tr_bufVersion (be_readBuf (st_be s)) + 1"
    "bare (the (st_le s1)) = bare (the (st_le s))" "st_batchLimit s1 = st_batchLimit s"
    "\<forall>k. ?v s1 k (st_currentRev s1) = foldl (specOp (st_currentRev s + 1)) (\<lambda>k. ?v s k (st_currentRev s)) sampleOps k" by auto
  obtain le where le: "st_le s1 = Some le" "items_inv le" "\<And>k. GetLease le k = leaseIn (?v s1 k (st_currentRev s1 + 1))"
    using idle_store [OF s1(2)] by (auto simp: leases_agree_def)
  have a: "?v s1 ''a'' (st_currentRev s1) =
      Some \<lparr>kv_Key = ''a'', kv_CreateRevision = 2, kv_ModRevision = 2, kv_Version = 1, kv_Value = ''x'', kv_Lease = 7\<rparr>"
    using s1(9) s(3,7) by (simp add: sampleOps_def putValue_def)
  then have "GetLease le ''a'' = 7" using le(3) idle_now [OF s1(2)] by (simp add: leaseIn_def)
  moreover have "GetLease le k \<noteq> 7" if "k \<noteq> ''a''" for k
    using le(3) idle_now [OF s1(2)] s1(9) s(3,7) that by (simp add: sampleOps_def putValue_def leaseIn_def NoLease_def)
  ultimately have "{k. GetLease le k = 7} = {''a''}" "GetLease le ''a'' = 7" by blast+
  moreover have "idle storeEnv sampleItems (\<lambda>t. t) 3 s1" using s1(2) by simp
  ultimately show ?thesis using s1 s le a by (intro exI [of _ s1] exI [of _ le]) simp
qed

end
