(* ===== verification/LeaseHeap.thy ===== *)
theory LeaseHeap
  imports LeaseQueue "HOL-Library.Multiset"
begin

text \<open>
  The heap of the standard library keeps its order, and the notifier of expired leases is a map from leases to
  times of which \<open>Poll\<close> shows a least entry.
\<close>

subsection \<open>The order of a heap\<close>

abbreviation timeAt :: "leaseQueue \<Rightarrow> nat \<Rightarrow> int" where
  "timeAt h i \<equiv> lt_time (h ! i)"

definition parent :: "nat \<Rightarrow> nat" where
  "parent e = (e - 1) div 2"

definition heap :: "leaseQueue \<Rightarrow> nat \<Rightarrow> bool" where
  "heap h n \<longleftrightarrow> (\<forall>e. 0 < e \<and> e < n \<longrightarrow> timeAt h (parent e) \<le> timeAt h e)"

lemma parent_less: "0 < e \<Longrightarrow> parent e < e"
  by (simp add: parent_def)

lemma children: "parent e = i \<and> 0 < e \<longleftrightarrow> e = 2 * i + 1 \<or> e = 2 * i + 2"
  unfolding parent_def by presburger

lemma heap_root: "heap h n \<Longrightarrow> e < n \<Longrightarrow> timeAt h 0 \<le> timeAt h e"
proof (induction e rule: less_induct)
  case (less e)
  show ?case
  proof (cases "e = 0")
    case False
    then have "parent e < e" "timeAt h (parent e) \<le> timeAt h e" using less.prems parent_less by (simp_all add: heap_def)
    then show ?thesis using less.IH [of "parent e"] less.prems by simp
  qed simp
qed

text \<open>A heap but for the item at \<open>j\<close>, which may be less than its parent, or greater than its children.\<close>

definition too_low :: "leaseQueue \<Rightarrow> nat \<Rightarrow> nat \<Rightarrow> bool" where
  "too_low h j n \<longleftrightarrow>
     (\<forall>e. 0 < e \<and> e < n \<and> e \<noteq> j \<longrightarrow> timeAt h (parent e) \<le> timeAt h e) \<and>
     (\<forall>e. 0 < e \<and> e < n \<and> parent e = j \<and> 0 < j \<longrightarrow> timeAt h (parent j) \<le> timeAt h e)"

definition too_high :: "leaseQueue \<Rightarrow> nat \<Rightarrow> nat \<Rightarrow> bool" where
  "too_high h i n \<longleftrightarrow>
     (\<forall>e. 0 < e \<and> e < n \<and> parent e \<noteq> i \<longrightarrow> timeAt h (parent e) \<le> timeAt h e) \<and>
     (\<forall>e. 0 < e \<and> e < n \<and> parent e = i \<and> 0 < i \<longrightarrow> timeAt h (parent i) \<le> timeAt h e)"

lemma length_swap [simp]: "length (queueSwap h i j) = length h"
  by (simp add: queueSwap_def)

lemma mset_swap: "i < length h \<Longrightarrow> j < length h \<Longrightarrow> mset (queueSwap h i j) = mset h"
  by (simp add: queueSwap_def mset_swap)

lemma key_swap: "i < length h \<Longrightarrow> j < length h \<Longrightarrow> e < length h \<Longrightarrow>
    timeAt (queueSwap h i j) e = (if e = j then timeAt h i else if e = i then timeAt h j else timeAt h e)"
  by (auto simp: queueSwap_def nth_list_update)

lemma heapUp_heap:
  assumes "too_low h j (length h)" and "j < length h"
  shows "heap (heapUp h j) (length h) \<and> mset (heapUp h j) = mset h"
  using assms
proof (induction h j rule: heapUp.induct)
  case (1 h j)
  let ?i = "parent j"
  show ?case
  proof (cases "?i = j \<or> \<not> queueLess h j ?i")
    case True
    then have u: "heapUp h j = h" unfolding heapUp.simps [of h j] by (simp add: parent_def Let_def)
    have "timeAt h (parent e) \<le> timeAt h e" if "0 < e" "e < length h" for e
    proof (cases "e = j")
      case e: True
      then have "?i \<noteq> j" using that parent_less [of j] by simp
      then show ?thesis using True e by (simp add: queueLess_def)
    qed (use 1(2) that in \<open>simp add: too_low_def\<close>)
    then show ?thesis using u by (simp add: heap_def)
  next
    case False
    then have j: "0 < j" and less: "timeAt h j < timeAt h ?i" by (auto simp: queueLess_def parent_def)
    have i: "?i < length h" "?i \<noteq> j" using parent_less [OF j] 1(3) by simp_all
    let ?h = "queueSwap h ?i j"
    have k: "timeAt ?h e = (if e = j then timeAt h ?i else if e = ?i then timeAt h j else timeAt h e)" if "e < length h" for e
      using key_swap [OF i(1) 1(3) that] .
    have u: "heapUp h j = heapUp ?h ?i" unfolding heapUp.simps [of h j] using False by (simp add: parent_def Let_def)
    have p: "parent e < length h" if "e < length h" for e using that parent_less [of e] by (cases "e = 0") (auto simp: parent_def)
    have "too_low ?h ?i (length ?h)"
      unfolding too_low_def length_swap
    proof (intro conjI allI impI)
      fix e assume e: "0 < e \<and> e < length h \<and> e \<noteq> ?i"
      have edge: "timeAt h (parent e) \<le> timeAt h e" if "e \<noteq> j" using 1(2) e that by (simp add: too_low_def)
      have grand: "parent e = j \<Longrightarrow> timeAt h ?i \<le> timeAt h e" using 1(2) e j by (simp add: too_low_def)
      show "timeAt ?h (parent e) \<le> timeAt ?h e"
      proof (cases "e = j")
        case True
        then show ?thesis using k [of j] k [of ?i] i 1(3) less by simp
      next
        case False
        then show ?thesis using k [of e] k [OF p, of e] e edge grand less by auto
      qed
    next
      fix e assume e: "0 < e \<and> e < length h \<and> parent e = ?i \<and> 0 < ?i"
      then have up: "timeAt h (parent ?i) \<le> timeAt h ?i" using 1(2) i by (simp add: too_low_def)
      have pi: "parent ?i \<noteq> ?i" "parent ?i \<noteq> j" "parent ?i < length h" using e parent_less [of ?i] parent_less [OF j] i(1) by simp_all
      have ei: "e \<noteq> ?i" using e parent_less [of e] by auto
      have "e \<noteq> j \<Longrightarrow> timeAt h ?i \<le> timeAt h e" using 1(2) e by (auto simp: too_low_def)
      then show "timeAt ?h (parent ?i) \<le> timeAt ?h e" using k [of e] k [of "parent ?i"] e pi ei up by auto
    qed
    moreover have "?i < length ?h" using i by simp
    ultimately have "heap (heapUp ?h ?i) (length ?h) \<and> mset (heapUp ?h ?i) = mset ?h"
      using 1(1) [OF _ _] False by (simp add: parent_def)
    then show ?thesis using u mset_swap [OF i(1) 1(3)] by simp
  qed
qed

lemma heapDown_step:
  assumes "\<not> n \<le> 2 * i + 1" and "j = (if 2 * i + 1 + 1 < n \<and> queueLess h (2 * i + 1 + 1) (2 * i + 1) then 2 * i + 1 + 1 else 2 * i + 1)"
  shows "heapDown h i n = (if \<not> queueLess h j i then (h, i) else heapDown (queueSwap h i j) j n)"
  unfolding heapDown.simps [of h i n] Let_def using assms by simp

lemma heapDown_heap:
  assumes "too_high h i n" and "n \<le> length h"
  shows "heap (fst (heapDown h i n)) n \<and> mset (fst (heapDown h i n)) = mset h \<and> length (fst (heapDown h i n)) = length h \<and>
    (\<forall>e. n \<le> e \<and> e < length h \<longrightarrow> fst (heapDown h i n) ! e = h ! e) \<and> i \<le> snd (heapDown h i n) \<and>
    (snd (heapDown h i n) = i \<longrightarrow> fst (heapDown h i n) = h)"
  using assms
proof (induction h i n rule: heapDown.induct)
  case (1 h i n)
  let ?j1 = "2 * i + 1"
  define j where "j = (if ?j1 + 1 < n \<and> queueLess h (?j1 + 1) ?j1 then ?j1 + 1 else ?j1)"
  have stop: "heap h n" if c: "\<And>e. 0 < e \<Longrightarrow> e < n \<Longrightarrow> parent e = i \<Longrightarrow> timeAt h i \<le> timeAt h e"
    using 1(2) c by (auto simp: heap_def too_high_def)
  show ?case
  proof (cases "n \<le> ?j1")
    case True
    then have d: "heapDown h i n = (h, i)" unfolding heapDown.simps [of h i n] by simp
    have "heap h n"
    proof (rule stop)
      fix e assume e: "0 < e" "e < n" "parent e = i"
      then have "e = 2 * i + 1 \<or> e = 2 * i + 2" using children [of e i] by simp
      then show "timeAt h i \<le> timeAt h e" using True e(2) by auto
    qed
    then show ?thesis unfolding d by simp
  next
    case inside: False
    have j: "j < n" "parent j = i" "0 < j" "i < j" using inside children [of j i] by (auto simp: j_def)
    have min: "timeAt h j \<le> timeAt h e" if "0 < e" "e < n" "parent e = i" for e
    proof -
      have "e = ?j1 \<or> e = ?j1 + 1" using that children [of e i] by auto
      then show ?thesis using that by (auto simp: j_def queueLess_def)
    qed
    show ?thesis
    proof (cases "queueLess h j i")
      case False
      then have d: "heapDown h i n = (h, i)" using heapDown_step [OF inside j_def] by simp
      have "timeAt h i \<le> timeAt h j" using False by (simp add: queueLess_def)
      have "heap h n"
      proof (rule stop)
        fix e assume "0 < e" "e < n" "parent e = i"
        then show "timeAt h i \<le> timeAt h e" using min [of e] \<open>timeAt h i \<le> timeAt h j\<close> by simp
      qed
      then show ?thesis unfolding d by simp
    next
      case True
      then have less: "timeAt h j < timeAt h i" by (simp add: queueLess_def)
      let ?h = "queueSwap h i j"
      have d: "heapDown h i n = heapDown ?h j n" using heapDown_step [OF inside j_def] True by simp
      have l: "i < length h" "j < length h" "i \<noteq> j" using j 1(3) by simp_all
      have k: "timeAt ?h e = (if e = j then timeAt h i else if e = i then timeAt h j else timeAt h e)" if "e < n" for e
        using key_swap [OF l(1,2)] that 1(3) by simp
      have "too_high ?h j n"
        unfolding too_high_def
      proof (intro conjI allI impI)
        fix e assume e: "0 < e \<and> e < n \<and> parent e \<noteq> j"
        then have p: "parent e < n" using parent_less [of e] by auto
        show "timeAt ?h (parent e) \<le> timeAt ?h e"
        proof (cases "parent e = i")
          case True
          then have "timeAt h j \<le> timeAt h e" using min e by simp
          then show ?thesis using k [of e] k [OF p] True e l(3) less parent_less [of e] by auto
        next
          case False
          then have edge: "timeAt h (parent e) \<le> timeAt h e" using 1(2) e by (simp add: too_high_def)
          have "e \<noteq> j" using False j(2) by auto
          moreover have "e = i \<Longrightarrow> timeAt h (parent i) \<le> timeAt h j" using 1(2) j e by (simp add: too_high_def)
          ultimately show ?thesis using k [of e] k [OF p] e edge False by auto
        qed
      next
        fix e assume e: "0 < e \<and> e < n \<and> parent e = j \<and> 0 < j"
        then have "timeAt h j \<le> timeAt h e" using 1(2) l(3) by (auto simp: too_high_def)
        moreover have "e \<noteq> j" "e \<noteq> i" using e parent_less [of e] j(4) by auto
        ultimately show "timeAt ?h (parent j) \<le> timeAt ?h e" using k [of e] k [of i] j l(3) e by auto
      qed
      then have IH: "heap (fst (heapDown ?h j n)) n \<and> mset (fst (heapDown ?h j n)) = mset ?h \<and> length (fst (heapDown ?h j n)) = length ?h \<and>
        (\<forall>e. n \<le> e \<and> e < length ?h \<longrightarrow> fst (heapDown ?h j n) ! e = ?h ! e) \<and> j \<le> snd (heapDown ?h j n)"
        using 1(1) [OF refl _ j_def] inside True 1(3) by simp
      have "?h ! e = h ! e" if "n \<le> e" for e using that j by (simp add: queueSwap_def)
      then show ?thesis using IH j(4) mset_swap [OF l(1,2)] unfolding d by auto
    qed
  qed
qed

lemma heapPush_heap:
  assumes "heap h (length h)"
  shows "heap (heapPush h x) (length h + 1) \<and> mset (heapPush h x) = add_mset x (mset h)"
proof -
  have p: "parent e < length h" if "e < length h" for e using that parent_less [of e] by (cases "e = 0") (auto simp: parent_def)
  have "too_low (h @ [x]) (length h) (length (h @ [x]))"
    unfolding too_low_def
  proof (intro conjI allI impI)
    fix e assume "0 < e \<and> e < length (h @ [x]) \<and> e \<noteq> length h"
    then show "timeAt (h @ [x]) (parent e) \<le> timeAt (h @ [x]) e" using assms p by (simp add: heap_def nth_append)
  next
    fix e assume "0 < e \<and> e < length (h @ [x]) \<and> parent e = length h \<and> 0 < length h"
    then show "timeAt (h @ [x]) (parent (length h)) \<le> timeAt (h @ [x]) e" using parent_less [of e] by simp
  qed
  then show ?thesis using heapUp_heap [of "h @ [x]" "length h"] by (simp add: heapPush_def queuePush_def Let_def)
qed

lemma heapPop_heap:
  assumes "heap h (length h)" and "h \<noteq> []"
  shows "\<exists>h'. heapPop h = Some (h ! 0, h') \<and> heap h' (length h') \<and> mset h = add_mset (h ! 0) (mset h')"
proof -
  let ?n = "length h - 1"
  let ?h = "queueSwap h 0 ?n"
  have l: "0 < length h" "?n < length h" using assms(2) by simp_all
  have k: "timeAt ?h e = timeAt h e" if "0 < e" "e < ?n" for e using key_swap [OF l, of e] that by simp
  have "too_high ?h 0 ?n"
    unfolding too_high_def
  proof (intro conjI allI impI)
    fix e assume e: "0 < e \<and> e < ?n \<and> parent e \<noteq> 0"
    then have "parent e < e" "e < length h" using parent_less [of e] by auto
    moreover then have "timeAt h (parent e) \<le> timeAt h e" using e assms(1) by (simp add: heap_def)
    ultimately show "timeAt ?h (parent e) \<le> timeAt ?h e" using k [of e] k [of "parent e"] e by simp
  qed simp
  from heapDown_heap [OF this] have d: "heap (fst (heapDown ?h 0 ?n)) ?n" "mset (fst (heapDown ?h 0 ?n)) = mset ?h"
    "length (fst (heapDown ?h 0 ?n)) = length h" "fst (heapDown ?h 0 ?n) ! ?n = ?h ! ?n" using l by auto
  let ?d = "fst (heapDown ?h 0 ?n)"
  have "?h ! ?n = h ! 0" using l by (cases "?n = 0") (simp_all add: queueSwap_def)
  moreover have ne: "?d \<noteq> []" using d(3) assms(2) by (metis length_0_conv)
  ultimately have last: "List.last ?d = h ! 0" "?d \<noteq> []" using d(3,4) unfolding last_conv_nth [OF ne] by simp_all
  have eq: "butlast ?d @ [h ! 0] = ?d" using append_butlast_last_id [OF last(2)] unfolding last(1) .
  have m: "mset ?d = add_mset (h ! 0) (mset (butlast ?d))" using arg_cong [OF eq, of mset] by simp
  have len: "length (butlast ?d) = ?n" using d(3) by simp
  have k': "timeAt (butlast ?d) e = timeAt ?d e" if "e < ?n" for e using that len by (simp add: nth_butlast)
  have "heap (butlast ?d) ?n"
    unfolding heap_def
  proof (intro allI impI)
    fix e assume e: "0 < e \<and> e < ?n"
    then have "timeAt ?d (parent e) \<le> timeAt ?d e" "parent e < ?n" using d(1) parent_less [of e] by (simp_all add: heap_def)
    then show "timeAt (butlast ?d) (parent e) \<le> timeAt (butlast ?d) e" using k' e by simp
  qed
  moreover have "heapPop h = Some (h ! 0, butlast ?d)" using assms(2) last by (simp add: heapPop_def queuePop_def Let_def)
  ultimately show ?thesis using m d(2) mset_swap [OF l] len by (intro exI [of _ "butlast ?d"]) simp
qed

text \<open>An item whose time has been changed.\<close>

lemma heapFix_heap:
  assumes edges: "\<And>e. 0 < e \<Longrightarrow> e < length h \<Longrightarrow> e \<noteq> i \<Longrightarrow> parent e \<noteq> i \<Longrightarrow> timeAt h (parent e) \<le> timeAt h e"
    and grand: "\<And>e. 0 < e \<Longrightarrow> e < length h \<Longrightarrow> parent e = i \<Longrightarrow> 0 < i \<Longrightarrow> timeAt h (parent i) \<le> timeAt h e" and i: "i < length h"
  shows "heap (heapFix h i) (length h) \<and> mset (heapFix h i) = mset h"
proof (cases "0 < i \<and> timeAt h i < timeAt h (parent i)")
  case True
  have children: "timeAt h i \<le> timeAt h e" if "0 < e" "e < length h" "parent e = i" for e using grand [of e] that True by simp
  have low: "too_low h i (length h)"
    unfolding too_low_def using edges grand children by auto
  have "heapDown h i (length h) = (h, i)"
  proof (cases "length h \<le> 2 * i + 1")
    case True
    then show ?thesis unfolding heapDown.simps [of h i "length h"] by simp
  next
    case False
    define j where "j = (if 2 * i + 1 + 1 < length h \<and> queueLess h (2 * i + 1 + 1) (2 * i + 1) then 2 * i + 1 + 1 else 2 * i + 1)"
    have "j < length h" "0 < j" "parent j = i" using False by (auto simp: j_def parent_def)
    then have "\<not> queueLess h j i" using children [of j] by (simp add: queueLess_def)
    then show ?thesis using heapDown_step [OF False j_def] by simp
  qed
  then show ?thesis using heapUp_heap [OF low i] by (simp add: heapFix_def)
next
  case False
  have "timeAt h (parent e) \<le> timeAt h e" if "0 < e" "e < length h" "parent e \<noteq> i" for e
    using edges [of e] that False by (cases "e = i") auto
  then have high: "too_high h i (length h)" unfolding too_high_def using grand by simp
  obtain h1 i1 where d: "heapDown h i (length h) = (h1, i1)" by (rule prod.exhaust)
  note D = heapDown_heap [OF high, unfolded d, simplified]
  show ?thesis
  proof (cases "i1 > i")
    case True
    then show ?thesis using D d by (simp add: heapFix_def)
  next
    case stay: False
    then have "i1 = i" "h1 = h" using D by auto
    moreover then have "too_low h i (length h)"
      using D unfolding too_low_def heap_def by (metis order_trans parent_less less_trans)
    ultimately show ?thesis using d heapUp_heap [of h i] i by (simp add: heapFix_def)
  qed
qed

subsection \<open>A queue of times\<close>

text \<open>What the lessor relies on: a map from leases to times, of which a least entry can be seen and removed.\<close>

locale expiry_queue =
  fixes inv :: "'q \<Rightarrow> bool" and times :: "'q \<Rightarrow> int \<Rightarrow> int option" and register :: "'q \<Rightarrow> leaseWithTime \<Rightarrow> 'q"
    and unregister :: "'q \<Rightarrow> (leaseWithTime \<times> 'q) option" and poll :: "'q \<Rightarrow> leaseWithTime option"
  assumes register_inv: "inv q \<Longrightarrow> inv (register q x)"
    and register_times: "inv q \<Longrightarrow> times (register q x) = (times q)(lt_id x \<mapsto> lt_time x)"
    and poll_None: "inv q \<Longrightarrow> poll q = None \<longleftrightarrow> (\<forall>i. times q i = None)"
    and poll_Some: "inv q \<Longrightarrow> poll q = Some x \<Longrightarrow> times q (lt_id x) = Some (lt_time x) \<and> (\<forall>i t. times q i = Some t \<longrightarrow> lt_time x \<le> t)"
    and unregister_inv: "inv q \<Longrightarrow> poll q = Some x \<Longrightarrow> \<exists>q'. unregister q = Some (x, q') \<and> inv q' \<and> times q' = (times q)(lt_id x := None)"
    and finite_times: "inv q \<Longrightarrow> finite (dom (times q))"
begin

text \<open>How many entries are due before a time.\<close>

definition due :: "'q \<Rightarrow> int \<Rightarrow> nat" where
  "due q t = card {i. \<exists>u. times q i = Some u \<and> u < t}"

lemma due_finite: "inv q \<Longrightarrow> finite {i. \<exists>u. times q i = Some u \<and> u < t}"
proof (rule finite_subset)
  show "{i. \<exists>u. times q i = Some u \<and> u < t} \<subseteq> dom (times q)" by auto
qed (rule finite_times)

lemma nothing_due:
  assumes "inv q" and "poll q = Some x" and "times q i = Some u" and "t < lt_time x"
  shows "t < u"
proof -
  have "lt_time x \<le> u" using poll_Some [OF assms(1,2)] assms(3) by blast
  then show ?thesis using assms(4) by linarith
qed

lemma due_register:
  assumes "inv q" and "poll q = Some x" and "lt_time x < t" and "t \<le> u"
  shows "due (register q \<lparr>lt_id = lt_id x, lt_time = u\<rparr>) t < due q t"
proof -
  let ?A = "{i. \<exists>u. times q i = Some u \<and> u < t}"
  have "lt_id x \<in> ?A" using poll_Some [OF assms(1,2)] assms(3) by blast
  moreover have eq: "{i. \<exists>u'. times (register q \<lparr>lt_id = lt_id x, lt_time = u\<rparr>) i = Some u' \<and> u' < t} = ?A - {lt_id x}"
    using assms(4) by (auto simp: register_times [OF assms(1)])
  ultimately show ?thesis unfolding due_def eq by (intro card_Diff1_less due_finite [OF assms(1)])
qed

lemma due_unregister:
  assumes "inv q" and "poll q = Some x" and "times q' = (times q)(lt_id x := None)"
  shows "due q' t \<le> due q t" and "lt_time x < t \<Longrightarrow> due q' t < due q t"
proof -
  let ?A = "{i. \<exists>u. times q i = Some u \<and> u < t}"
  have eq: "{i. \<exists>u. times q' i = Some u \<and> u < t} = ?A - {lt_id x}" by (auto simp: assms(3))
  show "due q' t \<le> due q t" unfolding due_def eq by (intro card_mono due_finite [OF assms(1)]) blast
  show "due q' t < due q t" if "lt_time x < t"
    unfolding due_def eq using poll_Some [OF assms(1,2)] that by (intro card_Diff1_less due_finite [OF assms(1)]) blast
qed

end

definition notifier_inv :: "leaseExpiredNotifier \<Rightarrow> bool" where
  "notifier_inv mq \<longleftrightarrow> heap (ln_queue mq) (length (ln_queue mq)) \<and> distinct (map lt_id (ln_queue mq)) \<and>
     fset (ln_m mq) = lt_id ` set (ln_queue mq)"

definition timesOf :: "leaseQueue \<Rightarrow> int \<Rightarrow> int option" where
  "timesOf q = map_of (map (\<lambda>x. (lt_id x, lt_time x)) q)"

definition times :: "leaseExpiredNotifier \<Rightarrow> int \<Rightarrow> int option" where
  "times mq = timesOf (ln_queue mq)"

lemma timesOf_Some: "distinct (map lt_id q) \<Longrightarrow> timesOf q i = Some t \<longleftrightarrow> \<lparr>lt_id = i, lt_time = t\<rparr> \<in> set q"
proof (induction q)
  case (Cons x q)
  then show ?case by (cases x) (force simp: timesOf_def)
qed (simp add: timesOf_def)

lemma timesOf_None: "timesOf q i = None \<longleftrightarrow> i \<notin> lt_id ` set q"
  by (simp add: timesOf_def map_of_eq_None_iff image_image)

lemma timesOf_mset:
  assumes "mset q' = mset q" and "distinct (map lt_id q)"
  shows "timesOf q' = timesOf q" "distinct (map lt_id q')" "set q' = set q"
proof -
  show d: "distinct (map lt_id q')" using assms by (metis mset_eq_imp_distinct_iff mset_map)
  show s: "set q' = set q" using assms(1) by (metis set_mset_mset)
  show "timesOf q' = timesOf q"
  proof
    fix i
    show "timesOf q' i = timesOf q i"
      using timesOf_Some [OF d, of i] timesOf_Some [OF assms(2), of i] s by (metis not_Some_eq)
  qed
qed

lemma indexOf_nth: "i \<in> lt_id ` set q \<Longrightarrow> indexOf q i < length q \<and> lt_id (q ! indexOf q i) = i"
  by (induction q) auto

lemma map_of_change:
  "distinct (map fst L) \<Longrightarrow> i < length L \<Longrightarrow> fst (L ! i) = k \<Longrightarrow> map_of (L[i := (k, v)]) = (map_of L)(k \<mapsto> v)"
proof (induction L arbitrary: i)
  case (Cons p L)
  obtain j w where p: "p = (j, w)" by (rule prod.exhaust)
  show ?case
  proof (cases i)
    case 0
    then show ?thesis using Cons.prems p by (auto simp: fun_eq_iff)
  next
    case (Suc m)
    then have "fst (L ! m) = k" "m < length L" using Cons.prems by simp_all
    moreover then have "k \<noteq> j" using Cons.prems(1) p nth_mem [of m L] by auto
    ultimately show ?thesis using Cons.IH [of m] Cons.prems(1) p Suc by (auto simp: fun_eq_iff)
  qed
qed simp

lemma register_queue:
  assumes inv: "notifier_inv mq"
  shows "notifier_inv (RegisterOrUpdate mq x) \<and> times (RegisterOrUpdate mq x) = (times mq)(lt_id x \<mapsto> lt_time x)"
proof -
  let ?q = "ln_queue mq"
  have I: "heap ?q (length ?q)" "distinct (map lt_id ?q)" "fset (ln_m mq) = lt_id ` set ?q" using inv by (simp_all add: notifier_inv_def)
  show ?thesis
  proof (cases "lt_id x |\<in>| ln_m mq")
    case False
    then have new: "lt_id x \<notin> lt_id ` set ?q" using I(3) by simp
    have p: "heap (heapPush ?q x) (length ?q + 1)" "mset (heapPush ?q x) = mset (x # ?q)" using heapPush_heap [OF I(1)] by simp_all
    have "distinct (map lt_id (x # ?q))" using new I(2) by auto
    note T = timesOf_mset [OF p(2) this]
    have len: "length (heapPush ?q x) = length ?q + 1" using p(2) by (metis Suc_eq_plus1 length_Cons size_mset)
    have "timesOf (x # ?q) = (timesOf ?q)(lt_id x \<mapsto> lt_time x)" by (simp add: timesOf_def)
    then show ?thesis using False T p len I(3) by (simp add: RegisterOrUpdate_def notifier_inv_def times_def Let_def)
  next
    case True
    define i where "i = indexOf ?q (lt_id x)"
    have i: "i < length ?q" "lt_id (?q ! i) = lt_id x" using True I(3) indexOf_nth by (auto simp: i_def)
    define q where "q = ?q[i := (?q ! i)\<lparr>lt_time := lt_time x\<rparr>]"
    have ids: "map lt_id q = map lt_id ?q" using i by (simp add: q_def map_update list_update_same_conv)
    have k: "timeAt q e = (if e = i then lt_time x else timeAt ?q e)" if "e < length ?q" for e using that by (simp add: q_def nth_list_update)
    have len: "length q = length ?q" by (simp add: q_def)
    have edge: "timeAt ?q (parent e) \<le> timeAt ?q e" if "0 < e" "e < length ?q" for e using I(1) that by (simp add: heap_def)
    have p: "parent e < length ?q" "parent e < e" if "0 < e" "e < length ?q" for e using parent_less [OF that(1)] that by simp_all
    have fx: "heap (heapFix q i) (length q) \<and> mset (heapFix q i) = mset q"
    proof (rule heapFix_heap)
      fix e assume e: "0 < e" "e < length q" "e \<noteq> i" "parent e \<noteq> i"
      then show "timeAt q (parent e) \<le> timeAt q e" using edge [of e] k [of e] k [of "parent e"] p [of e] len by simp
    next
      fix e assume e: "0 < e" "e < length q" "parent e = i" "0 < i"
      then have "timeAt ?q (parent i) \<le> timeAt ?q i" "timeAt ?q i \<le> timeAt ?q e" using edge [of i] edge [of e] i(1) len by simp_all
      then show "timeAt q (parent i) \<le> timeAt q e" using k [of e] k [of "parent i"] p [of i] p [of e] e i(1) len by auto
    next
      show "i < length q" using i len by simp
    qed
    have dq: "distinct (map lt_id q)" using ids I(2) by simp
    note T = timesOf_mset [OF conjunct2 [OF fx] dq]
    have "timesOf q = (timesOf ?q)(lt_id x \<mapsto> lt_time x)"
    proof -
      let ?L = "map (\<lambda>x. (lt_id x, lt_time x)) ?q"
      have "map (\<lambda>x. (lt_id x, lt_time x)) q = ?L[i := (lt_id x, lt_time x)]" using i by (simp add: q_def map_update)
      moreover have "distinct (map fst ?L)" using I(2) by (simp add: comp_def)
      ultimately show ?thesis using map_of_change [of ?L i "lt_id x" "lt_time x"] i by (simp add: timesOf_def)
    qed
    moreover have "length (heapFix q i) = length q" using fx by (metis size_mset)
    moreover have "lt_id ` set q = lt_id ` set ?q" using ids by (metis list.set_map)
    ultimately show ?thesis using True T fx I(3)
      by (simp add: RegisterOrUpdate_def notifier_inv_def times_def Let_def flip: i_def q_def)
  qed
qed

interpretation notif: expiry_queue notifier_inv times RegisterOrUpdate Unregister Poll
proof
  fix mq x assume inv: "notifier_inv mq"
  let ?q = "ln_queue mq"
  have I: "heap ?q (length ?q)" "distinct (map lt_id ?q)" "fset (ln_m mq) = lt_id ` set ?q" using inv by (simp_all add: notifier_inv_def)
  show "notifier_inv (RegisterOrUpdate mq x)" "times (RegisterOrUpdate mq x) = (times mq)(lt_id x \<mapsto> lt_time x)"
    using register_queue [OF inv, of x] by simp_all
  have len: "NotifierLen mq = 0 \<longleftrightarrow> ?q = []"
  proof -
    have "NotifierLen mq = card (lt_id ` set ?q)" by (simp add: NotifierLen_def fcard.rep_eq I(3))
    then show ?thesis by simp
  qed
  show "Poll mq = None \<longleftrightarrow> (\<forall>i. times mq i = None)"
  proof -
    have "(\<forall>i. times mq i = None) \<longleftrightarrow> ?q = []" unfolding times_def timesOf_None by (cases ?q) auto
    then show ?thesis using len by (simp add: Poll_def)
  qed
  show "finite (dom (times mq))" by (simp add: times_def timesOf_def finite_dom_map_of)
  assume p: "Poll mq = Some x"
  then have x: "x = ?q ! 0" "?q \<noteq> []" using len by (auto simp: Poll_def split: if_splits)
  show "times mq (lt_id x) = Some (lt_time x) \<and> (\<forall>i t. times mq i = Some t \<longrightarrow> lt_time x \<le> t)"
  proof (intro conjI allI impI)
    have "x \<in> set ?q" using x by simp
    moreover have "\<lparr>lt_id = lt_id x, lt_time = lt_time x\<rparr> = x" by simp
    ultimately have "\<lparr>lt_id = lt_id x, lt_time = lt_time x\<rparr> \<in> set ?q" by metis
    then show "times mq (lt_id x) = Some (lt_time x)" unfolding times_def timesOf_Some [OF I(2)] .
  next
    fix i t assume "times mq i = Some t"
    then have "\<lparr>lt_id = i, lt_time = t\<rparr> \<in> set ?q" using timesOf_Some [OF I(2)] by (simp add: times_def)
    then obtain e where e: "e < length ?q" "?q ! e = \<lparr>lt_id = i, lt_time = t\<rparr>" by (metis in_set_conv_nth)
    then show "lt_time x \<le> t" using heap_root [OF I(1) e(1)] x(1) by simp
  qed
  obtain h where h: "heapPop ?q = Some (x, h)" "heap h (length h)" "mset ?q = mset (x # h)" using heapPop_heap [OF I(1) x(2)] x(1) by auto
  note T = timesOf_mset [OF h(3) [symmetric] I(2)]
  have new: "lt_id x \<notin> lt_id ` set h" "distinct (map lt_id h)" using T(2) by simp_all
  have "timesOf h = (timesOf ?q)(lt_id x := None)"
    unfolding T(1) [symmetric] using new(1) timesOf_None [of h "lt_id x"] by (auto simp: timesOf_def fun_eq_iff)
  moreover have "lt_id ` set h = lt_id ` set ?q - {lt_id x}" unfolding T(3) [symmetric] using new(1) by simp
  moreover have "Unregister mq = Some (x, mq\<lparr>ln_queue := h, ln_m := ln_m mq |-| {|lt_id x|}\<rparr>)" using h(1) by (simp add: Unregister_def)
  ultimately show "\<exists>q'. Unregister mq = Some (x, q') \<and> notifier_inv q' \<and> times q' = (times mq)(lt_id x := None)"
    using h(2) new(2) I(3) by (simp add: notifier_inv_def times_def)
qed

end
