(* ===== verification/LeaseExpiry.thy ===== *)
theory LeaseExpiry
  imports LeaseHeap LessorFacts
begin

text \<open>
  The search for expired leases: it ends, finds only leases that have expired, and finds all that had expired
  when it began unless there are more than it may return.
\<close>

definition sane_clock :: "(nat \<Rightarrow> int) \<Rightarrow> int \<Rightarrow> lessor \<Rightarrow> bool" where
  "sane_clock clock t le \<longleftrightarrow> 0 \<le> t \<and> t + 2 * le_expiredLeaseRetryInterval le < 2 ^ 63 \<and>
     (\<forall>k. t \<le> clock k \<and> clock k < t + le_expiredLeaseRetryInterval le)"

lemma sane_clock_i64:
  assumes "sane_clock clock t le"
  shows "i64 (clock k) = clock k" "i64 (clock k + le_expiredLeaseRetryInterval le) = clock k + le_expiredLeaseRetryInterval le"
    "t \<le> clock k" "t + le_expiredLeaseRetryInterval le \<le> clock k + le_expiredLeaseRetryInterval le"
    "clock k < t + le_expiredLeaseRetryInterval le"
proof -
  have c: "0 \<le> t" "t + 2 * le_expiredLeaseRetryInterval le < 2 ^ 63" "t \<le> clock k" "clock k < t + le_expiredLeaseRetryInterval le"
    using assms by (simp_all add: sane_clock_def)
  then show "i64 (clock k) = clock k" "i64 (clock k + le_expiredLeaseRetryInterval le) = clock k + le_expiredLeaseRetryInterval le"
    "t \<le> clock k" "t + le_expiredLeaseRetryInterval le \<le> clock k + le_expiredLeaseRetryInterval le"
    "clock k < t + le_expiredLeaseRetryInterval le"
    by simp_all
qed

lemma expired_later: "l_expiry l = Some e \<Longrightarrow> e \<le> now \<Longrightarrow> expired now l"
  by (simp add: expired_def Remaining_def)

text \<open>What a search finds from a state of the lessor.\<close>

definition finds :: "(nat \<Rightarrow> int) \<Rightarrow> int \<Rightarrow> nat \<Rightarrow> lessor \<Rightarrow> lease list \<Rightarrow> lease list \<Rightarrow> lessor \<Rightarrow> bool" where
  "finds clock t limit le leases ls le' \<longleftrightarrow>
     (\<exists>mq. le' = le\<lparr>le_leaseExpiredNotifier := mq\<rparr> \<and> notifier_inv mq \<and>
        (\<forall>i. fmlookup (le_leaseMap le) i \<noteq> None \<and> times (le_leaseExpiredNotifier le) i \<noteq> None \<longrightarrow> times mq i \<noteq> None)) \<and>
     (\<forall>l \<in> set ls. (\<exists>i. fmlookup (le_leaseMap le) i = Some l) \<and> (\<exists>k. expired (clock k) l)) \<and>
     (length leases < limit \<longrightarrow> length (leases @ ls) \<le> limit \<and>
        (length (leases @ ls) < limit \<longrightarrow>
           (\<forall>i u l e. times (le_leaseExpiredNotifier le) i = Some u \<and> u \<le> t \<and> fmlookup (le_leaseMap le) i = Some l \<and>
              l_expiry l = Some e \<and> e \<le> t \<longrightarrow> l \<in> set ls)))"

definition work :: "lessor \<Rightarrow> int \<Rightarrow> nat" where
  "work le t = notif.due (le_leaseExpiredNotifier le) (t + le_expiredLeaseRetryInterval le) +
     card (dom (times (le_leaseExpiredNotifier le)))"

lemma findExpiredLoop_finds:
  assumes "notifier_inv (le_leaseExpiredNotifier le)" and "sane_clock clock t le"
  shows "\<exists>ls le'. findExpiredLoop clock n limit leases le = Some (leases @ ls, le') \<and> finds clock t limit le leases ls le'"
  using assms
proof (induction "work le t" arbitrary: n leases le rule: less_induct)
  case less
  let ?mq = "le_leaseExpiredNotifier le" and ?retry = "le_expiredLeaseRetryInterval le" and ?now = "clock (2 * n)"
  note inv = less.prems(1) and C = sane_clock_i64 [OF less.prems(2)]
  have stop: ?case if "expireExists ?now le = Some (l, False, False, le)"
    and none: "\<And>i u. times ?mq i = Some u \<Longrightarrow> t < u" for l
  proof -
    have "findExpiredLoop clock n limit leases le = Some (leases @ [], le)"
      unfolding findExpiredLoop.simps [of clock n] using that(1) by simp
    moreover have "finds clock t limit le leases [] le"
      using inv none unfolding finds_def by (fastforce intro: exI [of _ ?mq])
    ultimately show ?thesis by blast
  qed
  show ?case
  proof (cases "Poll ?mq")
    case None
    have "expireExists ?now le = Some (None, False, False, le)" using None by (simp add: expireExists_def)
    then show ?thesis using stop None notif.poll_None [OF inv] by auto
  next
    case (Some item)
    note P = notif.poll_Some [OF inv Some]
    show ?thesis
    proof (cases "fmlookup (le_leaseMap le) (lt_id item)")
      case gone: None
      obtain mq where mq: "Unregister ?mq = Some (item, mq)" "notifier_inv mq" "times mq = (times ?mq)(lt_id item := None)"
        using notif.unregister_inv [OF inv Some] by blast
      let ?le = "le\<lparr>le_leaseExpiredNotifier := mq\<rparr>"
      have e: "expireExists ?now le = Some (None, False, True, ?le)" using Some gone mq(1) by (simp add: expireExists_def)
      have "dom (times mq) = dom (times ?mq) - {lt_id item}" "lt_id item \<in> dom (times ?mq)" using mq(3) P by auto
      then have "card (dom (times mq)) < card (dom (times ?mq))" using notif.finite_times [OF inv] by (simp only: card_Diff1_less)
      then have w: "work ?le t < work le t"
        using notif.due_unregister(1) [OF inv Some mq(3), of "t + ?retry"] by (simp add: work_def)
      have "notifier_inv (le_leaseExpiredNotifier ?le)" "sane_clock clock t ?le" using mq(2) less.prems(2) by (simp_all add: sane_clock_def)
      from less.hyps [OF w this, of "n + 1" leases] obtain ls le' where r: "findExpiredLoop clock (n + 1) limit leases ?le = Some (leases @ ls, le')"
        "finds clock t limit ?le leases ls le'" by blast
      have "findExpiredLoop clock n limit leases le = Some (leases @ ls, le')"
        unfolding findExpiredLoop.simps [of clock n] using e r(1) by simp
      moreover have "finds clock t limit le leases ls le'"
        unfolding finds_def
      proof (intro conjI impI allI)
        obtain q where q: "le' = le\<lparr>le_leaseExpiredNotifier := q\<rparr>" "notifier_inv q"
          "\<forall>i. fmlookup (le_leaseMap le) i \<noteq> None \<and> times mq i \<noteq> None \<longrightarrow> times q i \<noteq> None" using r(2) by (auto simp: finds_def)
        have "times mq i \<noteq> None" if "fmlookup (le_leaseMap le) i \<noteq> None" "times ?mq i \<noteq> None" for i using that mq(3) gone by auto
        then show "\<exists>mq. le' = le\<lparr>le_leaseExpiredNotifier := mq\<rparr> \<and> notifier_inv mq \<and>
            (\<forall>i. fmlookup (le_leaseMap le) i \<noteq> None \<and> times ?mq i \<noteq> None \<longrightarrow> times mq i \<noteq> None)" using q by blast
        show "\<forall>l \<in> set ls. (\<exists>i. fmlookup (le_leaseMap le) i = Some l) \<and> (\<exists>k. expired (clock k) l)" using r(2) by (simp add: finds_def)
        assume l: "length leases < limit"
        then show "length (leases @ ls) \<le> limit" using r(2) by (simp add: finds_def)
        fix i u l e assume few: "length (leases @ ls) < limit"
          and a: "times ?mq i = Some u \<and> u \<le> t \<and> fmlookup (le_leaseMap le) i = Some l \<and> l_expiry l = Some e \<and> e \<le> t"
        then have "i \<noteq> lt_id item" using gone by auto
        then have "times mq i = Some u" using a mq(3) by simp
        then show "l \<in> set ls" using r(2) l few a unfolding finds_def by fastforce
      qed
      ultimately show ?thesis by blast
    next
      case found: (Some l)
      show ?thesis
      proof (cases "?now < lt_time item")
        case True
        then have "expireExists ?now le = Some (Some l, False, False, le)" using Some found C(1) by (simp add: expireExists_def)
        moreover have "t < u" if "times ?mq i = Some u" for i u
          using notif.nothing_due [OF inv Some that, of t] True C(3) [of "2 * n"] by simp
        ultimately show ?thesis using stop by blast
      next
        case False
        let ?item = "\<lparr>lt_id = lt_id item, lt_time = ?now + ?retry\<rparr>"
        let ?le = "le\<lparr>le_leaseExpiredNotifier := RegisterOrUpdate ?mq ?item\<rparr>"
        have item: "item\<lparr>lt_time := ?now + ?retry\<rparr> = ?item" by (cases item) simp
        have e: "expireExists ?now le = Some (Some l, True, False, ?le)"
          using Some found False C(1,2) by (simp add: expireExists_def item)
        have T: "times (RegisterOrUpdate ?mq ?item) = (times ?mq)(lt_id item \<mapsto> ?now + ?retry)"
          using notif.register_times [OF inv, of ?item] by simp
        have "dom (times (RegisterOrUpdate ?mq ?item)) = dom (times ?mq)" using T P by auto
        moreover have "lt_time item < t + ?retry" "t + ?retry \<le> ?now + ?retry" using False C(4,5) [of "2 * n"] by linarith+
        ultimately have w: "work ?le t < work le t"
          using notif.due_register [OF inv Some, of "t + ?retry" "?now + ?retry"] by (simp add: work_def)
        have inv1: "notifier_inv (le_leaseExpiredNotifier ?le)" using notif.register_inv [OF inv] by simp
        have clock1: "sane_clock clock t ?le" using less.prems(2) by (simp add: sane_clock_def)
        let ?exp = "expired (clock (2 * n + 1)) l"
        define new where "new = (if ?exp then [l] else [])"
        show ?thesis
        proof (cases "?exp \<and> length (leases @ [l]) = limit")
          case True
          then have "findExpiredLoop clock n limit leases le = Some (leases @ [l], ?le)"
            unfolding findExpiredLoop.simps [of clock n] using e by simp
          moreover have "finds clock t limit le leases [l] ?le"
            using True inv1 found T unfolding finds_def by auto
          ultimately show ?thesis by blast
        next
          case on: False
          from less.hyps [OF w inv1 clock1, of "n + 1" "leases @ new"] obtain ls le' where
            r: "findExpiredLoop clock (n + 1) limit (leases @ new) ?le = Some ((leases @ new) @ ls, le')"
            "finds clock t limit ?le (leases @ new) ls le'" by blast
          have "findExpiredLoop clock n limit leases le = findExpiredLoop clock (n + 1) limit (leases @ new) ?le"
            unfolding findExpiredLoop.simps [of clock n] using e on by (simp add: new_def)
          then have run: "findExpiredLoop clock n limit leases le = Some (leases @ (new @ ls), le')" using r(1) by simp
          have "finds clock t limit le leases (new @ ls) le'"
            unfolding finds_def
          proof (intro conjI impI allI)
            obtain q where q: "le' = le\<lparr>le_leaseExpiredNotifier := q\<rparr>" "notifier_inv q"
              "\<forall>i. fmlookup (le_leaseMap le) i \<noteq> None \<and> times (le_leaseExpiredNotifier ?le) i \<noteq> None \<longrightarrow> times q i \<noteq> None"
              using r(2) by (auto simp: finds_def)
            then show "\<exists>mq. le' = le\<lparr>le_leaseExpiredNotifier := mq\<rparr> \<and> notifier_inv mq \<and>
                (\<forall>i. fmlookup (le_leaseMap le) i \<noteq> None \<and> times ?mq i \<noteq> None \<longrightarrow> times mq i \<noteq> None)"
              using T by (intro exI [of _ q]) auto
            have "\<forall>l \<in> set ls. (\<exists>i. fmlookup (le_leaseMap le) i = Some l) \<and> (\<exists>k. expired (clock k) l)" using r(2) by (simp add: finds_def)
            moreover have "\<forall>x \<in> set new. (\<exists>i. fmlookup (le_leaseMap le) i = Some x) \<and> (\<exists>k. expired (clock k) x)"
              using found by (auto simp: new_def)
            ultimately show "\<forall>l \<in> set (new @ ls). (\<exists>i. fmlookup (le_leaseMap le) i = Some l) \<and> (\<exists>k. expired (clock k) l)" by auto
            assume l: "length leases < limit"
            have l1: "length (leases @ new) < limit" using l on by (auto simp: new_def)
            then show "length (leases @ (new @ ls)) \<le> limit" using r(2) by (simp add: finds_def)
            fix i u x e assume few: "length (leases @ (new @ ls)) < limit"
              and a: "times ?mq i = Some u \<and> u \<le> t \<and> fmlookup (le_leaseMap le) i = Some x \<and> l_expiry x = Some e \<and> e \<le> t"
            show "x \<in> set (new @ ls)"
            proof (cases "i = lt_id item")
              case True
              then have x: "x = l" using a found by simp
              have "e \<le> clock (2 * n + 1)" using a C(3) [of "2 * n + 1"] by linarith
              then have ?exp using expired_later a x by blast
              then show ?thesis by (simp add: new_def x)
            next
              case False
              then have "times (le_leaseExpiredNotifier ?le) i = Some u" using a T by simp
              moreover have "length ((leases @ new) @ ls) < limit" using few by simp
              ultimately have "x \<in> set ls" using r(2) l1 a unfolding finds_def by fastforce
              then show ?thesis by simp
            qed
          qed
          then show ?thesis using run by blast
        qed
      qed
    qed
  qed
qed

theorem findExpiredLeases_finds:
  assumes "notifier_inv (le_leaseExpiredNotifier le)" and "sane_clock clock t le" and "0 < limit"
  shows "\<exists>ls mq. findExpiredLeases clock limit le = Some (ls, le\<lparr>le_leaseExpiredNotifier := mq\<rparr>) \<and> notifier_inv mq \<and> length ls \<le> limit \<and>
    (\<forall>i. fmlookup (le_leaseMap le) i \<noteq> None \<and> times (le_leaseExpiredNotifier le) i \<noteq> None \<longrightarrow> times mq i \<noteq> None) \<and>
    (\<forall>l \<in> set ls. (\<exists>i. fmlookup (le_leaseMap le) i = Some l) \<and> (\<exists>k. expired (clock k) l)) \<and>
    (length ls < limit \<longrightarrow>
       (\<forall>i u l e. times (le_leaseExpiredNotifier le) i = Some u \<and> u \<le> t \<and> fmlookup (le_leaseMap le) i = Some l \<and>
          l_expiry l = Some e \<and> e \<le> t \<longrightarrow> l \<in> set ls))"
proof -
  obtain ls le' where r: "findExpiredLoop clock 0 limit [] le = Some ([] @ ls, le')" "finds clock t limit le [] ls le'"
    using findExpiredLoop_finds [OF assms(1,2), of 0 limit "[]"] by blast
  then show ?thesis using assms(3) unfolding findExpiredLeases_def finds_def by (simp only: append_Nil list.size) blast
qed

subsection \<open>Registration\<close>

text \<open>The queue of expiries is a heap with one entry for a lease, and on the primary every lease is registered in it.\<close>

definition registered :: "int set \<Rightarrow> lessor \<Rightarrow> bool" where
  "registered A le \<longleftrightarrow> notifier_inv (le_leaseExpiredNotifier le) \<and>
     (\<forall>i l. fmlookup (le_leaseMap le) i = Some l \<longrightarrow> l_ID l = i \<and> (i \<in> A \<longrightarrow> times (le_leaseExpiredNotifier le) i \<noteq> None))"

definition lessor_inv :: "lessor \<Rightarrow> bool" where
  "lessor_inv le \<longleftrightarrow> registered (if isPrimary le then UNIV else {}) le"

lemma registered_cong:
  "le_leaseExpiredNotifier le' = le_leaseExpiredNotifier le \<Longrightarrow> le_leaseMap le' = le_leaseMap le \<Longrightarrow> registered A le' \<longleftrightarrow> registered A le"
  by (simp add: registered_def)

lemma schedule_same [simp]:
  "le_leaseExpiredNotifier (scheduleCheckpointIfNeeded now le l) = le_leaseExpiredNotifier le"
  "le_leaseMap (scheduleCheckpointIfNeeded now le l) = le_leaseMap le"
  "isPrimary (scheduleCheckpointIfNeeded now le l) = isPrimary le"
  by (simp_all add: scheduleCheckpointIfNeeded_def isPrimary_def)

lemma registered_schedule [simp]: "registered A (scheduleCheckpointIfNeeded now le l) \<longleftrightarrow> registered A le"
  by (rule registered_cong) simp_all

lemma lessor_inv_schedule [simp]: "lessor_inv (scheduleCheckpointIfNeeded now le l) \<longleftrightarrow> lessor_inv le"
  by (simp add: lessor_inv_def)

lemma registered_lease:
  assumes "registered A le"
  shows "registered (insert (l_ID l) A) (registerExpiry (setLease le l) l)"
proof -
  have inv: "notifier_inv (le_leaseExpiredNotifier le)" using assms by (simp add: registered_def)
  let ?x = "\<lparr>lt_id = l_ID l, lt_time = UnixNano l\<rparr>"
  have "notifier_inv (RegisterOrUpdate (le_leaseExpiredNotifier le) ?x)" by (rule notif.register_inv [OF inv])
  moreover have "times (RegisterOrUpdate (le_leaseExpiredNotifier le) ?x) = (times (le_leaseExpiredNotifier le))(l_ID l \<mapsto> UnixNano l)"
    using notif.register_times [OF inv, of ?x] by simp
  ultimately show ?thesis using assms by (auto simp: registered_def registerExpiry_def setLease_def)
qed

lemma registerExpiry_primary [simp]: "isPrimary (registerExpiry (setLease le l) l) = isPrimary le"
  by (simp add: registerExpiry_def setLease_def isPrimary_def)

lemma registerExpiry_map [simp]: "le_leaseMap (registerExpiry (setLease le l) l) = fmupd (l_ID l) l (le_leaseMap le)"
  by (simp add: registerExpiry_def setLease_def)

lemma registered_more: "registered A le \<Longrightarrow> B \<subseteq> A \<Longrightarrow> registered B le"
  by (auto simp: registered_def)

lemma registered_set: "registered A le \<Longrightarrow> fmlookup (le_leaseMap le) (l_ID l) \<noteq> None \<or> A = {} \<Longrightarrow> registered A (setLease le l)"
  by (auto simp: registered_def setLease_def)

theorem Grant_registers:
  assumes inv: "lessor_inv le" and g: "Grant lc B now le be i ttl = Some (res, le', be')"
  shows "lessor_inv le'"
proof (cases res)
  case (Inl e)
  then have "le' = le" using g by (auto simp: Grant_def Let_def bind_eq_Some_conv split: if_splits)
  then show ?thesis using inv by simp
next
  case (Inr l)
  have "le' = (if isPrimary le then scheduleCheckpointIfNeeded now (registerExpiry (setLease le l) l) l else setLease le l)"
    using g Inr by (auto simp: Grant_def Let_def bind_eq_Some_conv setLease_def isPrimary_def split: if_splits)
  moreover have "lessor_inv (registerExpiry (setLease le l) l)" if "isPrimary le"
    using registered_lease [of UNIV le l] inv that by (simp add: lessor_inv_def)
  moreover have "lessor_inv (setLease le l)" if "\<not> isPrimary le"
    using registered_set [of "{}" le l] inv that by (simp add: lessor_inv_def isPrimary_def setLease_def)
  ultimately show ?thesis by simp
qed

text \<open>The second part of a renewal registers the lease, in the map or no longer there, whatever happened meanwhile.\<close>

lemma registered_detached:
  assumes "registered A le" shows "registered A (registerExpiry le l)"
proof -
  let ?x = "\<lparr>lt_id = l_ID l, lt_time = UnixNano l\<rparr>"
  have inv: "notifier_inv (le_leaseExpiredNotifier le)" using assms by (simp add: registered_def)
  then have "times (RegisterOrUpdate (le_leaseExpiredNotifier le) ?x) = (times (le_leaseExpiredNotifier le))(l_ID l \<mapsto> UnixNano l)"
    using notif.register_times [OF inv, of ?x] by simp
  then show ?thesis using assms notif.register_inv [OF inv, of ?x] by (auto simp: registered_def registerExpiry_def)
qed

theorem renewEnd_registers:
  assumes inv: "lessor_inv le" and held: "held \<longrightarrow> fmlookup (le_leaseMap le) (l_ID l) = Some l"
    and r: "renewEnd now held le l = (ttl, le')"
  shows "lessor_inv le' \<and> ttl = l_ttl l \<and> isPrimary le' = isPrimary le \<and>
    times (le_leaseExpiredNotifier le') (l_ID l) = Some (UnixNano (refresh now 0 l)) \<and>
    (held \<longrightarrow> fmlookup (le_leaseMap le') (l_ID l) = Some (refresh now 0 l))"
proof -
  let ?l = "refresh now 0 l"
  have f: "l_ID ?l = l_ID l" "l_ttl ?l = l_ttl l" by (simp_all add: refresh_def)
  define A where "A = (if isPrimary le then UNIV else {} :: int set)"
  have reg: "registered A le" using inv by (simp add: lessor_inv_def A_def)
  have le': "le' = registerExpiry (if held then setLease le ?l else le) ?l" "ttl = l_ttl l"
    using r f by (simp_all add: renewEnd_def Let_def)
  have same: "isPrimary le' = isPrimary le" by (simp add: le' isPrimary_def registerExpiry_def setLease_def)
  have "registered A le'"
    using registered_more [OF registered_lease [OF reg, of ?l]] registered_detached [OF reg, of ?l] by (auto simp: le')
  then have "lessor_inv le'" by (simp add: lessor_inv_def same A_def)
  moreover have "times (le_leaseExpiredNotifier le') (l_ID l) = Some (UnixNano ?l)"
    using notif.register_times [of "le_leaseExpiredNotifier le" "\<lparr>lt_id = l_ID l, lt_time = UnixNano ?l\<rparr>"] reg f
    by (simp add: le' registerExpiry_def setLease_def registered_def)
  ultimately show ?thesis using le' same f by (simp add: registerExpiry_def setLease_def)
qed

text \<open>The second part does not ask again whether the lessor is the primary. After a demotion in between, a lease
  expires on a lessor that is not the primary, and the queue that the demotion cleared is not empty.\<close>

lemma renewal_after_demotion:
  assumes "fmlookup (le_leaseMap le) i = Some l" and "l_ID l = i"
    and "renewEnd now True (Demote le) (forever l) = (ttl, le')"
  shows "\<not> isPrimary le' \<and> times (le_leaseExpiredNotifier le') i \<noteq> None \<and>
    (\<exists>l'. fmlookup (le_leaseMap le') i = Some l' \<and> l_expiry l' \<noteq> None)"
proof -
  have "notifier_inv newLeaseExpiredNotifier" by (simp add: notifier_inv_def newLeaseExpiredNotifier_def heap_def)
  then show ?thesis using assms notif.register_times
    by (auto simp: renewEnd_def Let_def isPrimary_def registerExpiry_def setLease_def refresh_def forever_def Demote_def)
qed

lemma refreshLease_registers:
  assumes "registered A le"
  shows "registered (insert i A) (refreshLease now now' ext le i) \<and> isPrimary (refreshLease now now' ext le i) = isPrimary le \<and>
    fmdom (le_leaseMap (refreshLease now now' ext le i)) = fmdom (le_leaseMap le)"
proof (cases "fmlookup (le_leaseMap le) i")
  case None
  then show ?thesis using assms by (auto simp: refreshLease_def registered_def)
next
  case (Some l)
  define l1 where "l1 = refresh now ext l"
  have id: "l_ID l1 = i" using assms Some by (simp add: l1_def registered_def refresh_def)
  have dom: "finsert i (fmdom (le_leaseMap le)) = fmdom (le_leaseMap le)" using Some by (auto simp: fmlookup_dom_iff)
  have "refreshLease now now' ext le i = scheduleCheckpointIfNeeded now' (registerExpiry (setLease le l1) l1) l1"
    using Some by (simp add: refreshLease_def Let_def l1_def)
  then show ?thesis using registered_lease [OF assms, of l1] id dom by simp
qed

lemma refreshAll_registers:
  "registered A le \<Longrightarrow> registered (A \<union> set ks) (refreshAll clock ext n ks le) \<and>
    isPrimary (refreshAll clock ext n ks le) = isPrimary le \<and>
    fmdom (le_leaseMap (refreshAll clock ext n ks le)) = fmdom (le_leaseMap le)"
proof (induction ks arbitrary: n A le)
  case (Cons k ks)
  note R = refreshLease_registers [OF Cons.prems, of k "clock n" "clock (n + 1)" ext]
  show ?case using Cons.IH [OF conjunct1 [OF R]] R by simp
qed simp

lemma spread_registers:
  "registered UNIV le \<Longrightarrow> registered UNIV (spread clock n ext ls base nw expires le) \<and>
    isPrimary (spread clock n ext ls base nw expires le) = isPrimary le"
proof (induction clock n ext ls base nw expires le rule: spread.induct)
  case (2 clock n ext l ls base nw expires le)
  have "registered UNIV (refreshLease t t' e le (l_ID l)) \<and> isPrimary (refreshLease t t' e le (l_ID l)) = isPrimary le" for t t' e
    using refreshLease_registers [OF 2(4), of "l_ID l" t t' e] by simp
  then show ?case using 2 by (simp add: Let_def)
qed simp

theorem Promote_registers:
  assumes "lessor_inv le"
  shows "lessor_inv (Promote clock ext le) \<and> isPrimary (Promote clock ext le)"
proof -
  let ?le = "le\<lparr>le_demotec := True\<rparr>" and ?ks = "sortedKeys (le_leaseMap le)"
  let ?le1 = "refreshAll clock ext 0 ?ks ?le"
  have "registered {} ?le" using assms by (auto simp: lessor_inv_def registered_def split: if_splits)
  from refreshAll_registers [OF this, of ?ks clock ext 0] have
    1: "registered (fset (fmdom (le_leaseMap le))) ?le1" "isPrimary ?le1" "fmdom (le_leaseMap ?le1) = fmdom (le_leaseMap le)"
    by (simp_all add: isPrimary_def)
  have "registered UNIV ?le1" using 1(1,3) unfolding registered_def by (metis fmdomI)
  then show ?thesis using spread_registers 1(2) by (simp add: Promote_def lessor_inv_def Let_def)
qed

theorem Demote_registers: "lessor_inv (Demote le)" if "lessor_inv le"
proof -
  have "notifier_inv newLeaseExpiredNotifier" by (simp add: notifier_inv_def newLeaseExpiredNotifier_def heap_def)
  moreover have "l_ID l = i" if "fmlookup (le_leaseMap le) i = Some l" for i l
    using \<open>lessor_inv le\<close> that by (auto simp: lessor_inv_def registered_def)
  ultimately show ?thesis by (auto simp: lessor_inv_def registered_def Demote_def isPrimary_def forever_def)
qed

text \<open>A search, at whatever times it reads the clock, changes only the queue, and no lease of the map leaves it.\<close>

definition requeued :: "lessor \<Rightarrow> lessor \<Rightarrow> bool" where
  "requeued le le' \<longleftrightarrow> (\<exists>mq. le' = le\<lparr>le_leaseExpiredNotifier := mq\<rparr> \<and>
     (notifier_inv (le_leaseExpiredNotifier le) \<longrightarrow> notifier_inv mq \<and>
        (\<forall>i. fmlookup (le_leaseMap le) i \<noteq> None \<and> times (le_leaseExpiredNotifier le) i \<noteq> None \<longrightarrow> times mq i \<noteq> None)))"

lemma requeued_refl [simp]: "requeued le le"
  unfolding requeued_def by (rule exI [of _ "le_leaseExpiredNotifier le"]) simp

lemma requeued_trans: "requeued le le1 \<Longrightarrow> requeued le1 le2 \<Longrightarrow> requeued le le2"
  unfolding requeued_def by fastforce

lemma requeued_inv: "requeued le le' \<Longrightarrow> lessor_inv le \<Longrightarrow> lessor_inv le'"
  unfolding requeued_def lessor_inv_def registered_def isPrimary_def by (auto split: if_splits)

lemma expireExists_requeues:
  assumes "expireExists now le = Some (l, found, again, le')"
  shows "requeued le le'"
proof (cases "Poll (le_leaseExpiredNotifier le)")
  case None
  then show ?thesis using assms by (simp add: expireExists_def)
next
  case (Some item)
  let ?mq = "le_leaseExpiredNotifier le"
  show ?thesis
  proof (cases "fmlookup (le_leaseMap le) (lt_id item)")
    case None
    then obtain x mq where mq: "Unregister ?mq = Some (x, mq)" "le' = le\<lparr>le_leaseExpiredNotifier := mq\<rparr>"
      using assms Some by (auto simp: expireExists_def bind_eq_Some_conv)
    have "notifier_inv mq \<and> times mq = (times ?mq)(lt_id item := None)" if "notifier_inv ?mq"
      using notif.unregister_inv [OF that Some] mq(1) by auto
    then show ?thesis unfolding requeued_def using mq(2) None by (intro exI [of _ mq]) auto
  next
    case (Some l')
    then consider "le' = le" | t where "le' = le\<lparr>le_leaseExpiredNotifier := RegisterOrUpdate ?mq (item\<lparr>lt_time := t\<rparr>)\<rparr>"
      using assms \<open>Poll ?mq = Some item\<close> by (auto simp: expireExists_def split: if_splits)
    then show ?thesis
    proof cases
      case (2 t)
      have "notifier_inv (RegisterOrUpdate ?mq (item\<lparr>lt_time := t\<rparr>)) \<and>
          times (RegisterOrUpdate ?mq (item\<lparr>lt_time := t\<rparr>)) = (times ?mq)(lt_id item \<mapsto> t)" if "notifier_inv ?mq"
        using notif.register_inv [OF that] notif.register_times [OF that] by simp
      then show ?thesis unfolding requeued_def using 2 by (intro exI [of _ "RegisterOrUpdate ?mq (item\<lparr>lt_time := t\<rparr>)"]) auto
    qed simp
  qed
qed

lemma findExpiredLoop_requeues:
  assumes "findExpiredLoop clock n limit leases le = Some (ls, le')"
  shows "requeued le le'"
proof -
  have "requeued le (snd (ls, le'))"
  proof (rule findExpiredLoop.raw_induct [OF _ assms, where P = "\<lambda>clock n limit leases le r. requeued le (snd r)"])
    fix loop :: "(nat \<Rightarrow> int) \<Rightarrow> nat \<Rightarrow> nat \<Rightarrow> lease list \<Rightarrow> lessor \<Rightarrow> (lease list \<times> lessor) option"
      and clock :: "nat \<Rightarrow> int" and n limit :: nat and leases :: "lease list" and le :: lessor and r :: "lease list \<times> lessor"
    assume IH: "\<And>clock n limit leases le r. loop clock n limit leases le = Some r \<Longrightarrow> requeued le (snd r)"
    assume r: "(case expireExists (clock (2 * n)) le of
        None \<Rightarrow> None
      | Some (l, ok, nxt, le1) \<Rightarrow>
          if \<not> ok \<and> \<not> nxt then Some (leases, le1)
          else if \<not> ok \<or> nxt then loop clock (n + 1) limit leases le1
          else if expired (clock (2 * n + 1)) (the l) then
            if length (leases @ [the l]) = limit then Some (leases @ [the l], le1)
            else loop clock (n + 1) limit (leases @ [the l]) le1
          else loop clock (n + 1) limit leases le1) = Some r"
    obtain l found again le1 where e: "expireExists (clock (2 * n)) le = Some (l, found, again, le1)"
      using r by (auto split: option.splits)
    have "snd r = le1 \<or> requeued le1 (snd r)" using r e IH by (auto split: if_splits)
    then show "requeued le (snd r)" using expireExists_requeues [OF e] requeued_trans by blast
  qed
  then show ?thesis by simp
qed

lemma search_registers: "findExpiredLeases clock limit le = Some (ls, le') \<Longrightarrow> lessor_inv le \<Longrightarrow> lessor_inv le'"
  unfolding findExpiredLeases_def using findExpiredLoop_requeues requeued_inv by blast

end
