(* ===== verification/LeaseRun.thy ===== *)
theory LeaseRun
  imports LeaseExpiry KvStore
begin

text \<open>
  The runs of a lessor: every operation of \<open>lease/lessor.go\<close> that changes it, the revocation through the store
  included. In each of them a primary has all its leases registered for expiry.
\<close>

subsection \<open>Operations that touch no expiry\<close>

text \<open>Leases may go, and their items and remaining time change.\<close>

definition trims :: "lessor \<Rightarrow> lessor \<Rightarrow> bool" where
  "trims le le' \<longleftrightarrow> le_demotec le' = le_demotec le \<and> le_leaseExpiredNotifier le' = le_leaseExpiredNotifier le \<and>
     (\<forall>i l'. fmlookup (le_leaseMap le') i = Some l' \<longrightarrow>
        (\<exists>l. fmlookup (le_leaseMap le) i = Some l \<and> l_ID l' = l_ID l \<and> l_expiry l' = l_expiry l))"

lemma trims_refl [simp]: "trims le le"
  by (simp add: trims_def)

lemma trims_trans: "trims le le1 \<Longrightarrow> trims le1 le2 \<Longrightarrow> trims le le2"
  unfolding trims_def by metis

lemma trims_ok:
  assumes "trims le le'" and "lessor_inv le"
  shows "lessor_inv le'"
proof -
  have "registered A le \<Longrightarrow> registered A le'" for A using assms(1) unfolding registered_def trims_def by metis
  moreover have "isPrimary le' = isPrimary le" using assms(1) by (simp add: trims_def isPrimary_def)
  ultimately show ?thesis using assms(2) by (simp add: lessor_inv_def)
qed

lemma setLease_trims:
  assumes "fmlookup (le_leaseMap le) (l_ID l') = Some l" and "l_ID l' = l_ID l" and "l_expiry l' = l_expiry l"
  shows "trims le (setLease le l')"
  using assms by (auto simp: trims_def setLease_def)

lemma schedule_trims [simp]: "trims le (scheduleCheckpointIfNeeded now le l)"
  by (simp add: trims_def scheduleCheckpointIfNeeded_def)

lemma Attach_trims: "Attach le i its = (err, le') \<Longrightarrow> trims le le'"
  by (auto simp: Attach_def attachItems trims_def split: option.splits if_splits)

lemma Detach_trims: "Detach le i its = (err, le') \<Longrightarrow> trims le le'"
  by (auto simp: Detach_def detachItems trims_def split: option.splits if_splits)

lemma Checkpoint_trims:
  assumes "lessor_inv le" and "Checkpoint lc B now le be i remaining = Some (le', be')"
  shows "trims le le'"
proof (cases "fmlookup (le_leaseMap le) i")
  case None
  then show ?thesis using assms(2) by (simp add: Checkpoint_def)
next
  case (Some l)
  have "l_ID l = i" using assms(1) Some by (auto simp: lessor_inv_def registered_def split: if_splits)
  then have "trims le (setLease le (l\<lparr>l_remainingTTL := remaining\<rparr>))" using Some by (intro setLease_trims) simp_all
  then show ?thesis using assms(2) Some trims_trans schedule_trims
    by (auto simp: Checkpoint_def Let_def bind_eq_Some_conv split: if_splits)
qed

lemma dueLoop_trims: "trims le (snd (dueLoop now limit cps le))"
proof (induction now limit cps le rule: dueLoop.induct)
  case (1 now limit cps le)
  show ?case
  proof (cases "heapPop (le_leaseCheckpointHeap le)")
    case None
    then show ?thesis by (simp add: dueLoop.simps)
  next
    case (Some p)
    obtain x h where p: "p = (x, h)" by (rule prod.exhaust)
    have "trims le (le\<lparr>le_leaseCheckpointHeap := h\<rparr>)" by (simp add: trims_def)
    note shorter = this
    show ?thesis using shorter 1 [OF Some, of x h] Some p trims_trans
      by (subst dueLoop.simps) (auto simp: Let_def)
  qed
qed

lemma checkpointRounds_trims: "checkpointRounds clock k i le = (css, le') \<Longrightarrow> trims le le'"
proof (induction k arbitrary: i le css)
  case (Suc k)
  obtain cps le1 where 1: "(if isPrimary le then findDueScheduledCheckpoints (clock i) maxLeaseCheckpointBatchSize le else ([], le)) = (cps, le1)"
    by (rule prod.exhaust)
  have "trims le le1" using 1 dueLoop_trims [of le "clock i" maxLeaseCheckpointBatchSize "[]"]
    by (auto simp: findDueScheduledCheckpoints_def split: if_splits)
  then show ?case using Suc.prems 1 Suc.IH trims_trans by (auto split: if_splits prod.splits)
qed simp


subsection \<open>Revocation\<close>

lemma detachOld_trims:
  assumes "detachOld s i k = Some s1" and "st_le s = Some le"
  shows "\<exists>le1. st_le s1 = Some le1 \<and> trims le le1"
proof (cases "i = NoLease")
  case False
  obtain err le1 where d: "Detach le i [k] = (err, le1)" by (rule prod.exhaust)
  then have "s1 = s\<lparr>st_le := Some le1\<rparr>" using assms False by (auto simp: detachOld_def split: if_splits)
  then show ?thesis using Detach_trims [OF d] by simp
qed (use assms in \<open>simp add: detachOld_def\<close>)

lemma tw_delete_trims:
  assumes "tw_delete E (s, tw) k = Some (s1, tw1)" and "st_le s = Some le"
  shows "\<exists>le1. st_le s1 = Some le1 \<and> trims le le1"
proof -
  obtain be1 t1 i where "detachOld (s\<lparr>st_be := be1, st_kvindex := t1\<rparr>) i k = Some s1"
    using assms(1) by (auto simp: tw_delete_def Let_def bind_eq_Some_conv split: if_splits)
  then show ?thesis by (rule detachOld_trims) (simp add: assms(2))
qed

lemma deletes_trims:
  "foldM (tw_delete E) (s, tw) keys = Some (s1, tw1) \<Longrightarrow> st_le s = Some le \<Longrightarrow> \<exists>le1. st_le s1 = Some le1 \<and> trims le le1"
proof (induction keys arbitrary: s tw le)
  case (Cons k keys)
  then obtain s2 tw2 where 2: "tw_delete E (s, tw) k = Some (s2, tw2)" "foldM (tw_delete E) (s2, tw2) keys = Some (s1, tw1)"
    by (auto simp: bind_eq_Some_conv)
  show ?case using tw_delete_trims [OF 2(1) Cons.prems(2)] Cons.IH [OF 2(2)] trims_trans by blast
qed simp

lemma revokeKeys_trims:
  assumes "revokeKeys E (s, tw) k = Some (s1, tw1)" and "st_le s = Some le"
  shows "\<exists>le1. st_le s1 = Some le1 \<and> trims le le1"
proof -
  obtain n r where "DeleteRange E s tw k None = Some (n, r, s1, tw1)" using assms(1) by (auto simp: revokeKeys_def bind_eq_Some_conv)
  then obtain m where "tw_deleteRange E s tw k None = Some (m, s1, tw1)"
    by (auto simp: DeleteRange_def bind_eq_Some_conv split: if_splits)
  then obtain keys where "keys = [] \<and> s1 = s \<or> foldM (tw_delete E) (s, tw) keys = Some (s1, tw1)"
    by (auto simp: tw_deleteRange_def Let_def bind_eq_Some_conv split: if_splits)
  then show ?thesis using deletes_trims assms(2) by fastforce
qed

lemma revokes_trims:
  "foldM (revokeKeys E) (s, tw) keys = Some (s1, tw1) \<Longrightarrow> st_le s = Some le \<Longrightarrow> \<exists>le1. st_le s1 = Some le1 \<and> trims le le1"
proof (induction keys arbitrary: s tw le)
  case (Cons k keys)
  then obtain s2 tw2 where 2: "revokeKeys E (s, tw) k = Some (s2, tw2)" "foldM (revokeKeys E) (s2, tw2) keys = Some (s1, tw1)"
    by (auto simp: bind_eq_Some_conv)
  show ?case using revokeKeys_trims [OF 2(1) Cons.prems(2)] Cons.IH [OF 2(2)] trims_trans by blast
qed simp

lemma EndWrite_le: "EndWrite E s tw = Some s1 \<Longrightarrow> st_le s1 = st_le s"
  by (auto simp: EndWrite_def saveIndex_def bind_eq_Some_conv split: if_splits option.splits)

lemma Revoke_trims:
  assumes ok: "lessor_inv le" and r: "Revoke E s i = Some (err, s')" "st_le s = Some le" "st_le s' = Some le'"
  shows "trims le le'"
proof (cases "fmlookup (le_leaseMap le) i")
  case None
  then show ?thesis using r by (simp add: Revoke_def)
next
  case (Some l)
  have id: "l_ID l = i" using ok Some by (auto simp: lessor_inv_def registered_def split: if_splits)
  show ?thesis
  proof (cases "le_rd le")
    case False
    then have "le' = setLease le (l\<lparr>l_revoked := True\<rparr>)" using r Some by (auto simp: Revoke_def split: if_splits)
    then show ?thesis using setLease_trims [of le "l\<lparr>l_revoked := True\<rparr>" l] Some id by simp
  next
    case True
    then obtain s1 tw1 le1 be1 where 1: "foldM (revokeKeys E) (s, WriteTxn s) (sortedItems l) = Some (s1, tw1)" "st_le s1 = Some le1"
      "EndWrite E (s1\<lparr>st_le := Some (le1\<lparr>le_leaseMap := fmdrop (l_ID l) (le_leaseMap le1)\<rparr>), st_be := be1\<rparr>) tw1 = Some s'"
      using r(1,2) Some by (auto simp: Revoke_def bind_eq_Some_conv split: if_splits)
    have "le' = le1\<lparr>le_leaseMap := fmdrop (l_ID l) (le_leaseMap le1)\<rparr>" using EndWrite_le [OF 1(3)] r(3) by simp
    then have "trims le1 le'" by (auto simp: trims_def split: if_splits)
    moreover have "trims le le1" using revokes_trims [OF 1(1) r(2)] 1(2) by simp
    ultimately show ?thesis using trims_trans by blast
  qed
qed

subsection \<open>Creation\<close>

text \<open>Initializing a queue that is a heap leaves it as it is.\<close>

lemma heapDown_stays:
  assumes "heap h (length h)" shows "heapDown h i (length h) = (h, i)"
proof -
  have "\<not> queueLess h j i" if "j = 2 * i + 1 \<or> j = 2 * i + 2" "j < length h" for j
    using assms that children [of j i] by (auto simp: heap_def queueLess_def)
  then show ?thesis by (subst heapDown.simps) (auto simp: Let_def)
qed

lemma heapInit_heap: "heap h (length h) \<Longrightarrow> heapInit h = h"
proof -
  assume h: "heap h (length h)"
  have "foldl (\<lambda>h i. fst (heapDown h i (length h))) h is = h" for "is" :: "nat list"
    by (induction "is") (simp_all add: heapDown_stays [OF h])
  then show ?thesis by (simp add: heapInit_def)
qed

lemma InitNotifier_inv: "notifier_inv mq \<Longrightarrow> InitNotifier mq = mq"
  by (cases mq) (auto simp: notifier_inv_def InitNotifier_def heapInit_heap Let_def fset_of_list.rep_eq intro!: fset_inject [THEN iffD1])

definition recoverAll :: "(int \<times> int \<times> int) list \<Rightarrow> lessor \<Rightarrow> lessor" where
  "recoverAll lpbs le = foldl (\<lambda>le lpb. setLease le (recoveredLease (le_minLeaseTTL le) lpb)) le lpbs"

lemma recovered_leases:
  assumes "registered {} le" shows "registered {} (recoverAll lpbs le) \<and> le_demotec (recoverAll lpbs le) = le_demotec le"
  using assms
proof (induction lpbs arbitrary: le)
  case (Cons lpb lpbs)
  let ?le = "setLease le (recoveredLease (le_minLeaseTTL le) lpb)"
  have "registered {} ?le" using Cons.prems by (rule registered_set) simp
  moreover have "le_demotec ?le = le_demotec le" by (simp add: setLease_def)
  ultimately show ?case using Cons.IH [of ?le] by (simp add: recoverAll_def)
qed (simp add: recoverAll_def)

lemma initAndRecover_ok:
  assumes r: "initAndRecover lc B le be = Some (le', be')" and le: "registered {} le" "\<not> le_demotec le"
  shows "lessor_inv le'"
proof -
  obtain lpbs where l: "le' = (recoverAll lpbs le)
      \<lparr>le_leaseExpiredNotifier := InitNotifier (le_leaseExpiredNotifier (recoverAll lpbs le)),
       le_leaseCheckpointHeap := heapInit (le_leaseCheckpointHeap (recoverAll lpbs le))\<rparr>"
    using r unfolding initAndRecover_def recoverAll_def [symmetric] Let_def by (auto simp: bind_eq_Some_conv)
  have "registered {} (recoverAll lpbs le)" "\<not> le_demotec (recoverAll lpbs le)" using recovered_leases [OF le(1)] le(2) by simp_all
  then show ?thesis using InitNotifier_inv unfolding l by (simp add: lessor_inv_def isPrimary_def registered_def)
qed

subsection \<open>Runs\<close>

text \<open>
  Every step takes the lock once. A call that takes it more often is several steps, between which others can come:
  of a renewal the first part changes nothing, and the second can come at any time, for a lease of the map or one
  that is no longer there; the deletions of a revocation detach their keys, and then the lease is dropped; the
  loop that submits checkpoints takes the lock for each batch.
\<close>

inductive lessor_step :: "('d, 't) kvEnv \<Rightarrow> lessor \<Rightarrow> lessor \<Rightarrow> bool" for E where
  step_grant: "Grant (ke_lease E) (ke_bolt E) now le be i ttl = Some (res, le', be') \<Longrightarrow> lessor_step E le le'"
| step_checkpoint: "Checkpoint (ke_lease E) (ke_bolt E) now le be i ttl = Some (le', be') \<Longrightarrow> lessor_step E le le'"
| step_renew: "held \<longrightarrow> fmlookup (le_leaseMap le) (l_ID l) = Some l \<Longrightarrow> renewEnd now held le l = (ttl, le') \<Longrightarrow> lessor_step E le le'"
| step_revoke: "Revoke E s i = Some (err, s') \<Longrightarrow> st_le s = Some le \<Longrightarrow> st_le s' = Some le' \<Longrightarrow> lessor_step E le le'"
| step_revoked: "lessor_step E le (le\<lparr>le_leaseMap := fmdrop i (le_leaseMap le)\<rparr>)"
| step_attach: "Attach le i its = (err, le') \<Longrightarrow> lessor_step E le le'"
| step_detach: "Detach le i its = (err, le') \<Longrightarrow> lessor_step E le le'"
| step_promote: "lessor_step E le (Promote clock ext le)"
| step_demote: "lessor_step E le (Demote le)"
| step_deleter: "lessor_step E le (SetRangeDeleter le rd)"
| step_checkpointer: "lessor_step E le (SetCheckpointer le cp)"
| step_expire: "revokeExpiredLeases clock le = Some le' \<Longrightarrow> lessor_step E le le'"
| step_receive: "le_expiredC le = ls # lss \<Longrightarrow> lessor_step E le (le\<lparr>le_expiredC := lss\<rparr>)"
| step_due: "findDueScheduledCheckpoints now k le = (cps, le') \<Longrightarrow> lessor_step E le le'"
| step_checkpoints: "checkpointScheduledLeases clock le = (css, le') \<Longrightarrow> lessor_step E le le'"
| step_recover: "\<not> isPrimary le \<Longrightarrow> RecoverLessor (ke_lease E) (ke_bolt E) le be rd = Some (le', be') \<Longrightarrow> lessor_step E le le'"

inductive lessor_reach :: "('d, 't) kvEnv \<Rightarrow> lessor \<Rightarrow> bool" for E where
  reach_new: "newLessor (ke_lease E) (ke_bolt E) be v36 cfg = Some (le, be') \<Longrightarrow> lessor_reach E le"
| reach_step: "lessor_reach E le \<Longrightarrow> lessor_step E le le' \<Longrightarrow> lessor_reach E le'"

lemma expire_ok:
  assumes inv: "lessor_inv le" and e: "revokeExpiredLeases clock le = Some le'"
  shows "lessor_inv le'"
proof (cases "isPrimary le")
  case False
  then show ?thesis using inv e by (simp add: revokeExpiredLeases_def)
next
  case True
  then obtain ls le1 where f: "findExpiredLeases clock (leaseRevokeRate div 2) le = Some (ls, le1)"
    and le': "le' = le1 \<or> le' = le1\<lparr>le_expiredC := le_expiredC le1 @ [ls]\<rparr>"
    using e by (auto simp: revokeExpiredLeases_def split: option.splits if_splits)
  have "trims le1 le'" using le' by (auto simp: trims_def)
  then show ?thesis using trims_ok search_registers [OF f inv] by blast
qed

lemma lessor_step_ok: "lessor_step E le le' \<Longrightarrow> lessor_inv le \<Longrightarrow> lessor_inv le'"
proof (induction rule: lessor_step.induct)
  case (step_grant now le be i ttl res le' be')
  then show ?case using Grant_registers by blast
next
  case (step_checkpoint now le be i ttl le' be')
  then show ?case using Checkpoint_trims trims_ok by blast
next
  case (step_renew held le l now ttl le')
  then show ?case using renewEnd_registers by blast
next
  case (step_revoke s i err s' le le')
  then show ?case using Revoke_trims trims_ok by blast
next
  case (step_revoked le i)
  then show ?case by (rule trims_ok [rotated]) (simp add: trims_def)
next
  case (step_attach le i its err le')
  then show ?case using Attach_trims trims_ok by blast
next
  case (step_detach le i its err le')
  then show ?case using Detach_trims trims_ok by blast
next
  case (step_promote le clock ext)
  then show ?case using Promote_registers by blast
next
  case (step_demote le)
  then show ?case by (rule Demote_registers)
next
  case (step_deleter le rd)
  then show ?case by (rule trims_ok [rotated]) (simp add: SetRangeDeleter_def trims_def)
next
  case (step_checkpointer le cp)
  then show ?case by (rule trims_ok [rotated]) (simp add: SetCheckpointer_def trims_def)
next
  case (step_expire clock le le')
  then show ?case using expire_ok by blast
next
  case (step_receive le ls lss)
  from step_receive(2) show ?case by (rule trims_ok [rotated]) (simp add: trims_def)
next
  case (step_due now k le cps le')
  then have "trims le le'" using dueLoop_trims [of le now k "[]"] by (auto simp: findDueScheduledCheckpoints_def split: if_splits)
  then show ?case using step_due trims_ok by blast
next
  case (step_checkpoints clock le css le')
  then show ?case using checkpointRounds_trims trims_ok unfolding checkpointScheduledLeases_def by blast
next
  case (step_recover le be rd le' be')
  let ?le = "le\<lparr>le_rd := rd, le_leaseMap := fmempty, le_itemMap := fmempty\<rparr>"
  have "registered {} ?le" "\<not> le_demotec ?le"
    using step_recover by (auto simp: lessor_inv_def registered_def isPrimary_def split: if_splits)
  moreover have "initAndRecover (ke_lease E) (ke_bolt E) ?le be = Some (le', be')"
    using step_recover(2) by (simp add: RecoverLessor_def)
  ultimately show ?case using initAndRecover_ok by blast
qed

theorem lessor_reach_ok: "lessor_reach E le \<Longrightarrow> lessor_inv le"
proof (induction rule: lessor_reach.induct)
  case (reach_new be v36 cfg le be')
  have "notifier_inv newLeaseExpiredNotifier" by (simp add: notifier_inv_def newLeaseExpiredNotifier_def heap_def)
  then show ?case using reach_new by (auto simp: newLessor_def registered_def elim!: initAndRecover_ok)
next
  case (reach_step le le')
  then show ?case using lessor_step_ok by blast
qed

end
