(* ===== verification/SampleLeases.thy ===== *)
theory SampleLeases
  imports SampleStore LeaseRun
begin

text \<open>A run of a lessor: created over a database, promoted, and asked for a lease. A lease that has expired.\<close>

definition leaseConfig :: lessorConfig where
  "leaseConfig = \<lparr>lcf_MinLeaseTTL = 5, lcf_CheckpointInterval = 0, lcf_ExpiredLeasesRetryInterval = 0, lcf_CheckpointPersist = False\<rparr>"

lemma sample_lessor_run:
  "\<exists>le. lessor_reach storeEnv le \<and> isPrimary le \<and> fmlookup (le_leaseMap le) 7 \<noteq> None"
proof -
  let ?B = "ke_bolt storeEnv" and ?lc = "ke_lease storeEnv" and ?up = "revToBytes (Revision 2 0)"
  note B = env_okD(1) [OF storeEnv_ok]
  have bolt: "?B = sampleBolt" by (simp add: storeEnv_def)
  obtain be where be: "be_inv sampleItems ?up be" "content sampleItems be = sampleItems sampleDb" "tr_bufVersion (be_readBuf be) = 0"
    using sample_backend by blast
  have db: "sampleItems sampleDb leaseBucketName = Some []" by (simp add: sampleItems_def sampleDb_def leaseBucketName_def)
  have ne: "leaseBucketName \<noteq> []" "leaseBucketName \<noteq> keyBucket" by (simp_all add: leaseBucketName_def)
  obtain be1 where be1: "UnsafeCreateBucket ?B be leaseBucketName = Some be1" "be_inv sampleItems ?up be1"
    "content sampleItems be1 leaseBucketName = Some []" "tr_bufVersion (be_readBuf be1) = 0"
    using UnsafeCreateBucket_inv [OF B be(1) ne(1)] be(2,3) db ne(2) by auto
  obtain d where d: "be_tx be1 = Some d" "\<not> be_closed be1" using be_invD(1,3) [OF be1(2)] by auto
  have "sampleItems d leaseBucketName = Some []" using be1(3) d(1) by (simp add: content_def)
  then have all: "UnsafeForEach ?B be1 leaseBucketName = Some []"
    using d bolt_okD(2,7) [OF B] by (simp add: UnsafeForEach_def liveTx_def unsafeForEach_def)
  have up: "?up \<noteq> []" by simp
  have "tr_bufVersion (be_readBuf be1) < MaxUint64" using be1(4) by (simp add: MaxUint64_def)
  then obtain be2 where be2: "Unlock ?B be1 = Some be2" "be_inv sampleItems ?up be2" "pendingPairs be2 = []"
    "content sampleItems be2 = content sampleItems be1" "tr_bufVersion (be_readBuf be2) \<le> 1"
    using Unlock_inv [OF B be1(2) _ up] be1(4) by auto
  obtain be3 where be3: "ForceCommit ?B be2 = Some be3" "be_inv sampleItems ?up be3"
    "content sampleItems be3 = content sampleItems be2" "tr_bufVersion (be_readBuf be3) = tr_bufVersion (be_readBuf be2)"
    using ForceCommit_inv [OF B be2(2,3)] by blast
  obtain le where le: "newLessor ?lc ?B be False leaseConfig = Some (le, be3)" "le_leaseMap le = fmempty"
    using be1(1) all be2(1) be3(1) by (auto simp: newLessor_def initAndRecover_def unsafeGetAllLeases_def Let_def)
  have r1: "lessor_reach storeEnv le" by (rule reach_new [OF le(1)])
  let ?p = "Promote (\<lambda>_. 100) 0 le"
  have r2: "lessor_reach storeEnv ?p" by (rule reach_step [OF r1 step_promote])
  have p: "isPrimary ?p" "le_leaseMap ?p = fmempty"
    using le(2) by (simp_all add: Promote_def isPrimary_def leaseRevokeRate_def sortedKeys_def sorted_list_of_fset.rep_eq Let_def fcard.rep_eq)
  obtain l where l: "l = refresh 100 0 (NewLease 7 (if 60 < le_minLeaseTTL ?p then le_minLeaseTTL ?p else 60))" by blast
  have v: "validPair (int64ToBytes (l_ID l)) (lc_marshal ?lc (l_ID l, l_ttl l, l_remainingTTL l))"
    by (simp add: validPair_def storeEnv_def int64ToBytes_def PutUint64_def)
  have c3: "content sampleItems be3 leaseBucketName = Some []" using be1(3) be2(4) be3(3) by simp
  obtain be4 where be4: "UnsafePut ?B be3 leaseBucketName (int64ToBytes (l_ID l)) (lc_marshal ?lc (l_ID l, l_ttl l, l_remainingTTL l)) = Some be4"
    "be_inv sampleItems ?up be4" "tr_bufVersion (be_readBuf be4) = tr_bufVersion (be_readBuf be3)"
    using UnsafePut_inv [OF B be3(2) v c3 ne(2)] by blast
  have "tr_bufVersion (be_readBuf be4) < MaxUint64" using be4(3) be3(4) be2(5) by (simp add: MaxUint64_def)
  then obtain be5 where "Unlock ?B be4 = Some be5" using Unlock_inv [OF B be4(2) _ up] by blast
  then have "persistTo ?lc ?B be3 l = Some be5" using be4(1) by (simp add: persistTo_def)
  moreover have "isPrimary (setLease ?p x) = isPrimary ?p" for x by (simp add: isPrimary_def setLease_def)
  ultimately have "Grant ?lc ?B 100 ?p be3 7 60 = Some (Inr l, scheduleCheckpointIfNeeded 100 (registerExpiry (setLease ?p l) l) l, be5)"
    using p l by (simp add: Grant_def NoLease_def MaxLeaseTTL_def Let_def)
  then have "lessor_reach storeEnv (scheduleCheckpointIfNeeded 100 (registerExpiry (setLease ?p l) l) l)"
    by (rule reach_step [OF r2 step_grant])
  moreover have "l_ID l = 7" using l by (simp add: refresh_def NewLease_def)
  ultimately show ?thesis using p(1) by (intro exI [of _ "scheduleCheckpointIfNeeded 100 (registerExpiry (setLease ?p l) l) l"]) simp
qed

definition oldLease :: lease where
  "oldLease = (NewLease 7 60)\<lparr>l_expiry := Some 5\<rparr>"

definition expiredLessor :: lessor where
  "expiredLessor = registerExpiry (setLease sampleLessor oldLease) oldLease"

lemma expired_sample:
  "notifier_inv (le_leaseExpiredNotifier expiredLessor)" "times (le_leaseExpiredNotifier expiredLessor) 7 = Some 5"
  "fmlookup (le_leaseMap expiredLessor) 7 = Some oldLease" "sane_clock (\<lambda>_. 10) 10 expiredLessor"
proof -
  let ?n = newLeaseExpiredNotifier and ?x = "\<lparr>lt_id = 7, lt_time = 5\<rparr>"
  have x: "\<lparr>lt_id = l_ID oldLease, lt_time = UnixNano oldLease\<rparr> = ?x" by (simp add: oldLease_def NewLease_def UnixNano_def)
  have n: "le_leaseExpiredNotifier expiredLessor = RegisterOrUpdate ?n ?x"
    unfolding expiredLessor_def registerExpiry_def x by (simp add: setLease_def sampleLessor_def)
  have inv: "notifier_inv ?n" by (simp add: notifier_inv_def newLeaseExpiredNotifier_def heap_def)
  show "notifier_inv (le_leaseExpiredNotifier expiredLessor)" unfolding n by (rule notif.register_inv [OF inv])
  show "times (le_leaseExpiredNotifier expiredLessor) 7 = Some 5" unfolding n using notif.register_times [OF inv, of ?x] by simp
  show "fmlookup (le_leaseMap expiredLessor) 7 = Some oldLease" by (simp add: expiredLessor_def oldLease_def NewLease_def)
  show "sane_clock (\<lambda>_. 10) 10 expiredLessor"
    by (simp add: sane_clock_def expiredLessor_def registerExpiry_def setLease_def sampleLessor_def)
qed

end
