(* ===== verification/KvViews.thy ===== *)
theory KvViews
  imports KvRun
begin

text \<open>
  \<open>glee-etcd/mvcc/kv_view.go\<close>: the store used without a transaction of one's own, each call being one; and the
  writes of \<open>mvcc/util.go\<close> that bypass the store. A put made through the view is what a read through it
  finds.
\<close>

subsection \<open>The views\<close>

definition viewFirstRev :: "('d, 't) kvStore \<Rightarrow> int \<times> ('d, 't) kvStore" where
  "viewFirstRev s = (case ReadTxn s of (tr, s1) \<Rightarrow> (tr_firstRev tr, s1))"

definition viewRev :: "('d, 't) kvStore \<Rightarrow> int \<times> ('d, 't) kvStore" where
  "viewRev s = (case ReadTxn s of (tr, s1) \<Rightarrow> (tr_rev tr, s1))"

definition viewRange :: "('d, 't) kvEnv \<Rightarrow> ('d, 't) kvStore \<Rightarrow> string \<Rightarrow> string option \<Rightarrow> rangeOptions \<Rightarrow>
    ((rangeResult \<times> kvErr option) \<times> ('d, 't) kvStore) option" where
  "viewRange E s key en ro =
     (case ReadTxn s of (tr, s1) \<Rightarrow> do { res \<leftarrow> RangeRead E s1 tr key en ro; Some (res, s1) })"

definition viewDeleteRange :: "('d, 't) kvEnv \<Rightarrow> ('d, 't) kvStore \<Rightarrow> string \<Rightarrow> string option \<Rightarrow> (int \<times> int \<times> ('d, 't) kvStore) option" where
  "viewDeleteRange E s key en =
     do { (n, r, s1, tw1) \<leftarrow> DeleteRange E s (WriteTxn s) key en; s2 \<leftarrow> EndWrite E s1 tw1; Some (n, r, s2) }"

definition viewPut :: "('d, 't) kvEnv \<Rightarrow> ('d, 't) kvStore \<Rightarrow> string \<Rightarrow> string \<Rightarrow> int \<Rightarrow> (int \<times> ('d, 't) kvStore) option" where
  "viewPut E s key v leaseID =
     do { (r, s1, tw1) \<leftarrow> Put E s (WriteTxn s) key v leaseID; s2 \<leftarrow> EndWrite E s1 tw1; Some (r, s2) }"

subsection \<open>Writes to the backend alone\<close>

definition UpdateConsistentIndex :: "'d boltOps \<Rightarrow> 'd backend \<Rightarrow> nat \<Rightarrow> 'd backend option" where
  "UpdateConsistentIndex B be index =
     do { ps \<leftarrow> UnsafeRange B be metaBucketName consistentIndexKeyName None 0;
          if ps \<noteq> [] \<and> length (snd (ps ! 0)) < 8 then None
          else let oldi = (if ps \<noteq> [] then Uint64 (snd (ps ! 0)) else 0) in
            do { be1 \<leftarrow> (if index \<le> oldi then Some be
                        else UnsafePut B be metaBucketName consistentIndexKeyName (PutUint64 index));
                 Unlock B be1 } }"

definition WriteKV :: "kvCodec \<Rightarrow> 'd boltOps \<Rightarrow> 'd backend \<Rightarrow> keyValue \<Rightarrow> 'd backend option" where
  "WriteKV kc B be kv =
     do { be1 \<leftarrow> UnsafePut B be keyBucketName (revToBytes (Revision (kv_ModRevision kv) 0)) (kc_marshal kc kv); Unlock B be1 }"

definition UnsafeSetScheduledCompact :: "'d boltOps \<Rightarrow> 'd backend \<Rightarrow> int \<Rightarrow> 'd backend option" where
  "UnsafeSetScheduledCompact B be v =
     UnsafePut B be metaBucketName scheduledCompactKeyName (revToBytes (Revision v 0))"

subsection \<open>Reading what was put\<close>

lemma one_key:
  assumes "sorted_wrt bytesLess (map kv_Key kvs)" and "set kvs = {kv}"
  shows "kvs = [kv]"
proof -
  have "distinct kvs" using sorted_keys_distinct [OF assms(1)] distinct_map by blast
  then have "length kvs = 1" using distinct_card [of kvs] assms(2) by simp
  then show ?thesis using assms(2) by (cases kvs) auto
qed

theorem put_then_read:
  assumes env: "env_ok E bi ti" and inv: "idle E bi ti N s" and N: "N + 1 < 2 ^ 62"
    and ok: "fitting E key v" "in_int64 i" "i = NoLease \<or> fmlookup (le_leaseMap (the (st_le s))) i \<noteq> None"
    and ver: "tr_bufVersion (be_readBuf (st_be s)) < MaxUint64" and c: "st_compactMainRev s \<le> st_currentRev s"
  shows "\<exists>s1 s2. viewPut E s key v i = Some (st_currentRev s + 1, s1) \<and> idle E bi ti (N + 1) s1 \<and>
    st_currentRev s1 = st_currentRev s + 1 \<and>
    viewRange E s1 key None \<lparr>ro_Limit = 0, ro_Rev = 0, ro_Count = False\<rparr> =
      Some ((\<lparr>rr_KVs = [putValue (view E bi ti s key (st_currentRev s)) (st_currentRev s + 1) key v i],
              rr_Rev = st_currentRev s + 1, rr_Count = 1\<rparr>, None), s2)"
proof -
  let ?b = "st_currentRev s" and ?ro = "\<lparr>ro_Limit = 0, ro_Rev = 0, ro_Count = False\<rparr>"
  have txn: "txn_inv E bi ti N s (WriteTxn s)" "N < 2 ^ 62" using inv N by (simp_all add: idle_def)
  have b: "tw_beginRev (WriteTxn s) = ?b" "tw_changes (WriteTxn s) = []" by (simp_all add: WriteTxn_def)
  from Put_changes [OF env txn ok, unfolded b] obtain s1 tw1 where p: "Put E s (WriteTxn s) key v i = Some (?b + 1, s1, tw1)"
    "txn_inv E bi ti (N + 1) s1 tw1" "others s1 = others s" "tw_beginRev tw1 = ?b" "length (tw_changes tw1) = length ([] :: keyValue list) + 1"
    "\<forall>k t. view E bi ti s1 k t = (if k = key \<and> ?b + 1 \<le> t
      then Some (putValue (view E bi ti s key (?b + 1)) (?b + 1) key v i) else view E bi ti s k t)" by blast
  then have "tw_changes tw1 \<noteq> []" by auto
  note p = p(1-4) this p(6)
  have "tr_bufVersion (be_readBuf (st_be s1)) < MaxUint64" "st_compactMainRev s1 = st_compactMainRev s"
    using p(3) ver by (simp_all add: others_def)
  with EndWrite_keeps [OF env p(2) N] p(4,5) obtain s2 where e: "EndWrite E s1 tw1 = Some s2" "idle E bi ti (N + 1) s2"
    "view E bi ti s2 = view E bi ti s1" "st_currentRev s2 = ?b + 1" "st_compactMainRev s2 = st_compactMainRev s" by auto
  obtain tr s3 where r: "ReadTxn s2 = (tr, s3)" by (rule prod.exhaust)
  have ti: "ti_inv ti (st_kvindex s3)"
    using r store_invD(8) [OF conjunct1 [OF idle_store [OF e(2)]]] by (auto simp: ReadTxn_def split: prod.splits)
  have "st_compactMainRev s3 = st_compactMainRev s" using r e(5) by (auto simp: ReadTxn_def split: prod.splits)
  with RangeRead_answers [OF env e(2) r same_past_refl ti, of key None ?ro] e(4) obtain res where
    a: "RangeRead E s3 tr key None ?ro = Some res" "answers E bi ti s2 key None (?b + 1) (st_compactMainRev s) ?ro res" by auto
  let ?kv = "putValue (view E bi ti s key ?b) (?b + 1) key v i"
  have all: "{kv. \<exists>k. wanted key None k \<and> view E bi ti s2 k (?b + 1) = Some kv} = {?kv}"
    using p(6) e(3) idle_now [OF inv, of key] by (auto simp: wanted_def)
  have "0 \<le> ?b" using store_invD(1) [OF conjunct1 [OF idle_store [OF inv]]] by simp
  moreover have at: "atRev (?b + 1) ?ro = ?b + 1" by (simp add: atRev_def)
  ultimately obtain kvs where k: "sorted_wrt bytesLess (map kv_Key kvs)" "set kvs = {?kv}"
    "res = (\<lparr>rr_KVs = kvs, rr_Rev = ?b + 1, rr_Count = int (length kvs)\<rparr>, None)"
    using a(2) c unfolding answers_def at all by auto
  have "kvs = [?kv]" by (rule one_key [OF k(1,2)])
  then have "viewRange E s2 key None ?ro = Some ((\<lparr>rr_KVs = [?kv], rr_Rev = ?b + 1, rr_Count = 1\<rparr>, None), s3)"
    using r a(1) k(3) by (simp add: viewRange_def)
  moreover have "viewPut E s key v i = Some (?b + 1, s2)" using p(1) e(1) by (simp add: viewPut_def)
  ultimately show ?thesis using e(2,4) by blast
qed

subsection \<open>Isolation\<close>

text \<open>A read transaction answers from the store at its beginning, whatever is written meanwhile.\<close>

theorem read_isolated:
  assumes env: "env_ok E bi ti" and inv: "idle E bi ti N s" and r: "ReadTxn s = (tr, s1)"
    and N: "N + int (allWrites (st_currentRev s + 1) (\<lambda>k. view E bi ti s k (st_currentRev s)) ops) < 2 ^ 62" and ok: "\<forall>op \<in> set ops. op_ok E (the (st_le s)) op"
    and ver: "tr_bufVersion (be_readBuf (st_be s)) < MaxUint64"
  shows "\<exists>s2 res. transaction E s1 ops = Some s2 \<and> RangeRead E s2 tr key en ro = Some res \<and>
    answers E bi ti s key en (st_currentRev s) (st_compactMainRev s) ro res"
proof -
  have f: "st_kvindex s1 = st_kvindex s" "st_compactMainRev s1 = st_compactMainRev s" "st_le s1 = st_le s"
    "tr_bufVersion (be_readBuf (st_be s1)) = tr_bufVersion (be_readBuf (st_be s))"
    using r by (auto simp: ReadTxn_def ConcurrentReadTx_def Let_def)
  have "ti_inv ti (st_kvindex s1)" using store_invD(8) [OF conjunct1 [OF idle_store [OF inv]]] f(1) by simp
  from RangeRead_answers [OF env inv r same_past_refl this] have 1: "idle E bi ti N s1" "tr_rev tr = st_currentRev s" by blast+
  have cur: "st_currentRev s1 = st_currentRev s" using r by (auto simp: ReadTxn_def split: prod.splits)
  have "\<forall>op \<in> set ops. op_ok E (the (st_le s1)) op" "tr_bufVersion (be_readBuf (st_be s1)) < MaxUint64" using ok ver f by simp_all
  have "stored bi (st_be s1) = stored bi (st_be s)"
    using r by (auto simp: ReadTxn_def ConcurrentReadTx_def Let_def stored_def content_def split: prod.splits)
  then have "view E bi ti s1 = view E bi ti s" by (simp add: view_def valueAt_def f(1) fun_eq_iff split: option.split)
  with N cur have "N + int (allWrites (st_currentRev s1 + 1) (\<lambda>k. view E bi ti s1 k (st_currentRev s1)) ops) < 2 ^ 62" by simp
  from transaction_refines [OF env 1(1) this \<open>\<forall>op \<in> set ops. op_ok E (the (st_le s1)) op\<close>] obtain N2 s2 where
    2: "transaction E s1 ops = Some s2" "idle E bi ti N2 s2"
    "same_past ti (st_currentRev s1) s1 s2" "st_compactMainRev s2 = st_compactMainRev s1"
    using \<open>tr_bufVersion (be_readBuf (st_be s1)) < MaxUint64\<close> by blast
  have "ti_inv ti (st_kvindex s2)" using store_invD(8) [OF conjunct1 [OF idle_store [OF 2(2)]]] by simp
  moreover have "same_past ti (tr_rev tr) s1 s2" using 2(3) 1(2) cur by simp
  ultimately obtain res where "RangeRead E s2 tr key en ro = Some res"
    "answers E bi ti s key en (st_currentRev s) (st_compactMainRev s2) ro res"
    using RangeRead_answers [OF env inv r] by blast
  then show ?thesis using 2(1,4) f(2) by (intro exI [of _ s2] exI [of _ res]) simp
qed

end
