(* ===== verification/Spec2Isabelle.thy ===== *)
theory Spec2Isabelle
  imports SampleRtt NodeFacts ConfchangeText WindowFacts RevisionBytes SampleStreams SampleLeases KvViews
begin

text \<open>
  A model of GLEE, a version of etcd 3.4.28 (\<open>src/glee-etcd\<close>): of its consensus engine, the package \<open>raft\<close>, to
  which GLEE adds measured round trip times, an election penalty computed from them, and a leader that hands
  over to a better placed node of its own accord; and of the store to which the members apply what they agree on, the
  packages \<open>mvcc\<close>, \<open>mvcc/backend\<close> and \<open>lease\<close>.

  \<^bold>\<open>The program.\<close> \<open>raft/raft.go\<close> is a deterministic state machine: \<open>Step\<close> takes one message, \<open>tick\<close> is the clock,
  and both change the struct \<open>raft\<close> and queue messages in \<open>r.msgs\<close>. It rests on the packages \<open>quorum\<close>
  (majorities), \<open>tracker\<close> (the progress of every peer, with a window of inflight messages) and
  \<open>confchange\<close> (configuration changes), on the log (\<open>log.go\<close>, \<open>log_unstable.go\<close>) over a \<open>Storage\<close> (\<open>storage.go\<close>),
  and on the queue of reads (\<open>read_only.go\<close>). \<open>rawnode.go\<close> packs the results into a \<open>Ready\<close> for the
  application, which writes to disk, sends, applies and calls \<open>Advance\<close>; the goroutine of \<open>node.go\<close>
  serialises all of this. Members exchange messages over the streams of \<open>etcdserver/api/rafthttp\<close>.
  The store (\<open>mvcc/kvstore.go\<close>, \<open>kvstore_txn.go\<close>, \<open>kvstore_compaction.go\<close>) keeps every revision of every key:
  \<open>mvcc/index.go\<close> and \<open>key_index.go\<close> find the revision, \<open>mvcc/backend\<close> holds its pair in the database bolt behind two
  buffers, and \<open>lease/lessor.go\<close> attaches keys to leases and finds those that have expired in the queue of \<open>lease_queue.go\<close>.

  \<^bold>\<open>The theories of the model\<close>, in the order of the calls; a definition has the name that the function has.
    \<^item> \<open>GoPrelude\<close>: \<open>uint64\<close> as \<open>nat\<close> with \<open>add64\<close>, \<open>sub64\<close> wrapping, \<open>int64\<close> as \<open>int\<close> with \<open>i64\<close>; maps as
      \<open>fmap\<close>, walked in sorted order; loops with effects as \<open>foldM\<close>. \<open>None\<close> is a panic (or a call
      that does not return), an error value is \<open>Inl\<close>. \<open>Float64\<close>: rounding to 53 bits.
    \<^item> \<open>Quorum\<close> (\<open>quorum/\<close>), \<open>InflightWindow\<close>, \<open>Progress\<close>, \<open>Tracker\<close> (\<open>tracker/\<close>), \<open>Confchange\<close> (\<open>confchange/\<close>),
      \<open>Raftpb\<close> and \<open>ConfchangeText\<close> (\<open>raftpb/\<close>), \<open>Storage\<close>, \<open>RaftLog\<close>, \<open>ReadOnly\<close>.
    \<^item> \<open>RaftState\<close> (the struct and \<open>Config\<close>), \<open>RaftCore\<close> (sending, committing, roles, campaigns), \<open>Rtt\<close> (the
      additions of GLEE), \<open>Leader\<close> (\<open>stepLeader\<close>), \<open>RaftStep\<close> (\<open>Step\<close>, the other handlers, ticks, \<open>newRaft\<close>).
    \<^item> \<open>RawNode\<close> (\<open>RawNode\<close>, \<open>Ready\<close>, status, bootstrap), \<open>NodeLoop\<close> (\<open>node.run\<close> as a step relation over
      the events that its channels deliver).
    \<^item> \<open>MsgCodec\<close> (\<open>etcdserver/api/rafthttp\<close>): the two codecs of the streams that carry raft's messages.
    \<^item> \<open>BigEndian\<close>, \<open>KeyIndex\<close>, \<open>TreeIndex\<close> (\<open>mvcc/\<close>): for every key its revisions, in generations between deletions.
    \<^item> \<open>Backend\<close> (\<open>mvcc/backend/\<close>): the batching transaction, its write buffer, the read buffer, both kinds of reader.
    \<^item> \<open>LeaseQueue\<close>, \<open>Lessor\<close> (\<open>lease/\<close>): the heaps of expiries, and the operations on leases.
    \<^item> \<open>KvStore\<close>, \<open>KvViews\<close> (\<open>mvcc/\<close>): the transactions of the store, revocation, compaction, creation and restore; the
      views of \<open>kv_view.go\<close>.

  \<^bold>\<open>The theories of lemmas.\<close>
    \<^item> \<open>RaftLogFacts\<close>, \<open>RaftLogOps\<close>: the log stands for one list of entries (\<open>rl_ents\<close> after \<open>rl_base\<close>), and each
      operation is that list's operation; \<open>Storage\<close> and \<open>RaftLog\<close> share the interface \<open>indexed_log\<close>.
    \<^item> \<open>ConfchangeFacts\<close>, \<open>ConfchangeSafety\<close>: the invariant of configurations, and quorums that meet.
    \<^item> \<open>RaftFacts\<close>, \<open>RaftMono\<close>, \<open>StepMono\<close>, \<open>VoteSafety\<close>: what no operation takes back (\<open>raft_mono\<close>), what a
      granted vote and a new leader mean; \<open>Restart\<close> and \<open>Election\<close>: the cluster and election safety.
    \<^item> \<open>Replication\<close>, \<open>LogSafety\<close>: what a leader appends and commits, and that committed entries stay.
    \<^item> \<open>RttFacts\<close>, \<open>RoleFacts\<close>, \<open>ElectionTimeout\<close>, \<open>NodeFacts\<close>, \<open>WindowFacts\<close>: round trips and hand-over, the
      quorum check and creation, progress of elections, \<open>Ready\<close> and runs of the goroutine, runs of a window.
    \<^item> \<open>RevisionBytes\<close>, \<open>KeyIndexFacts\<close>, \<open>IndexFacts\<close>: revisions as bytes; the index of a key stands for a history of
      events, and the index of all keys for a history of each.
    \<^item> \<open>BackendFacts\<close>, \<open>BackendReads\<close>: the backend stands for one map in each bucket (\<open>content\<close>), and readers find it.
    \<^item> \<open>LessorFacts\<close>, \<open>LeaseHeap\<close>, \<open>LeaseExpiry\<close>, \<open>LeaseRun\<close>: items and leases agree; the heap; registration and the search;
      runs of the lessor, in which every step takes its lock once.
    \<^item> \<open>KvStoreFacts\<close>, \<open>KvStoreOps\<close>, \<open>KvCompact\<close>, \<open>KvRun\<close>: the store stands for the pair that each key has at each revision
      (\<open>view\<close>), under the invariant \<open>idle\<close> between transactions, and each operation changes that accordingly.
    \<^item> \<open>Samples\<close>, \<open>SampleRun\<close>, \<open>SampleRtt\<close>, \<open>SampleStreams\<close>, \<open>SampleStore\<close>, \<open>SampleLeases\<close>: concrete nodes, logs, runs,
      messages, stores and leases on which every theorem is applied.

  \<^bold>\<open>Parameters.\<close> The record \<open>env\<close> of a node holds what the code takes from outside: the generated codec, the
  random numbers, the clock and, where the result depends on it, the order in which a map is walked.
  Theorems hold for every \<open>env\<close>. The network and the disk are the steps of \<open>cluster_step\<close>. The B-tree of
  \<open>google/btree\<close> is the record \<open>btreeOps\<close>, with its documented behaviour \<open>btree_ok\<close>; bolt the record \<open>boltOps\<close>, with
  \<open>bolt_ok\<close>; the generated marshalling the records \<open>protoCodec\<close> with \<open>carries\<close>, \<open>kvCodec\<close> with \<open>codec_ok\<close>, and
  \<open>leaseCodec\<close>. The readings of the clock that the lessor makes are a function of their number.

  \<^bold>\<open>Bounds and termination.\<close> There is no fuel. Loops are structural or have a measure, but for four whose end
  depends on the state, which are \<open>partial_function\<close>s: \<open>for r.maybeSendAppend(to, false) {}\<close>, of which
  \<open>send_loop_ends\<close> proves that it ends, \<open>findExpiredLoop\<close> (\<open>expired_leases_found\<close>), \<open>compactLoop\<close> (\<open>store_compaction\<close>), and the
  \<open>restoreLoop\<close> over the database, which is shown to end on the empty one (\<open>store_creation\<close>). Where arithmetic could
  overflow, the theorems say so: terms and indexes below \<open>2 ^ 64\<close>, slice lengths below \<open>2 ^ 63\<close>, fewer than \<open>2 ^ 62\<close> pairs
  written in the life of a store, round trips below \<open>2 ^ 53\<close> microseconds, where \<open>float64\<close> is exact.
  \<open>float64\<close> itself is rounding to 53 bits, without the limits of the exponent.

  \<^bold>\<open>Not modelled.\<close> Logging, metrics and \<open>String\<close> methods have no effect on the state. The generated marshalling is a
  parameter. Implementations of \<open>Storage\<close> other than \<open>MemoryStorage\<close> are not modelled, nor the channels that
  feed the goroutine, nor data races: the code passes everything through that goroutine. Of the store, the watchers,
  hashes, defragmentation, snapshots, the timer that commits and \<open>Close\<close> are left out, and restoring from a database that is
  not empty is modelled but no theorem is about it. The rest of the etcd server, the write-ahead log and the clients are
  etcd's own; the copies \<open>src/etcd\<close> and \<open>go-ycsb-modified\<close> are the baseline and the load generator of an evaluation.
  Log matching across nodes is not stated for the cluster: the theorems on logs are about one node.
\<close>

section \<open>Elections\<close>

text \<open>C1: election safety. In every cluster that starts from fresh nodes and whose nodes run \<open>Step\<close>,
  \<open>tick\<close> and \<open>advance\<close>, write their hard state before their messages leave, crash and restart from disk,
  while the network delays, reorders, duplicates and loses messages, those without a term included, there is
  at most one leader in a term (for a fixed nonempty, possibly joint, set of voters).\<close>

theorem election_safety:
  assumes "cluster_reach N C c" and "JointIDs C \<noteq> {||}"
    and "i \<in> N" "r_state (cl_node c i) = StateLeader"
    and "j \<in> N" "r_state (cl_node c j) = StateLeader"
    and "r_Term (cl_node c i) = r_Term (cl_node c j)"
  shows "i = j"
  using one_leader [OF cluster_inv_reach [OF assms(1)] assms(2-)] .

theorem election_safety_witness:
  "{i \<in> {1, 2, 3}. r_state (cl_node (sampleRun ! 5) i) = StateLeader \<and>
      r_Term (cl_node (sampleRun ! 5) i) = r_Term (cl_node (sampleRun ! 5) 1)} = {1}"
proof -
  have "JointIDs sampleVoters \<noteq> {||}" by (simp add: sampleVoters_def JointIDs_def)
  note one = election_safety [OF sampleRun_reach this _ _ _ sampleRun_leader]
  have "i = 1" if "i \<in> {1, 2, 3}" "r_state (cl_node (sampleRun ! 5) i) = StateLeader"
    "r_Term (cl_node (sampleRun ! 5) i) = r_Term (cl_node (sampleRun ! 5) 1)" for i
    by (rule one [OF that(1,2) _ that(3)]) simp
  then show ?thesis using sampleRun_leader by blast
qed

text \<open>C2: no call of \<open>Step\<close> lowers the term, changes a vote already cast in the term, lowers the commit
  index or takes back a queued message: the hard state that a node persists only moves forward. This is for
  messages as nodes send them: an append, a heartbeat or a snapshot carries the term of its leader, which is not
  0 (a candidate that is handed one with term 0 takes over that term), terms are below \<open>2 ^ 64 - 1\<close>, and the
  role of the node and its handler agree.\<close>

theorem step_monotone:
  assumes "Step r m = Some (err, r')" and "r_Term r < MaxUint64" and "m_Term m < MaxUint64"
    and "m_Term m = 0 \<Longrightarrow> m_Type m \<notin> {MsgApp, MsgHeartbeat, MsgSnap}" and "role_ok r"
  shows "r_id r' = r_id r \<and> r_Term r \<le> r_Term r' \<and>
    (r_Term r' = r_Term r \<and> r_Vote r \<noteq> 0 \<longrightarrow> r_Vote r' = r_Vote r) \<and>
    rl_committed (r_raftLog r) \<le> rl_committed (r_raftLog r') \<and> (\<exists>ms. r_msgs r' = r_msgs r @ ms)"
  using Step_mono [OF assms] by (simp add: raft_mono_def)

theorem step_monotone_witness: "r_Term sampleCandidate \<le> r_Term sampleLeader"
proof -
  have "r_Term sampleCandidate < MaxUint64" "m_Term (voteGrant 2 1 1) < MaxUint64"
    "m_Type (voteGrant 2 1 1) = MsgVoteResp" "role_ok sampleCandidate" by code_simp+
  then show ?thesis using step_monotone [OF elected_step] by simp
qed

text \<open>A tick keeps the same promises, and it makes a node a candidate or a leader only by a campaign
  of its own: in a later term, with its vote for itself.\<close>

lemma tick_monotone:
  assumes "tick r = Some r'" and "r_Term r < MaxUint64"
  shows "r_id r' = r_id r \<and> r_Term r \<le> r_Term r' \<and>
    (r_Term r' = r_Term r \<and> r_Vote r \<noteq> 0 \<longrightarrow> r_Vote r' = r_Vote r) \<and>
    rl_committed (r_raftLog r) \<le> rl_committed (r_raftLog r') \<and>
    (r_state r' \<in> {StateCandidate, StateLeader} \<longrightarrow>
      r_state r = r_state r' \<and> r_Term r' = r_Term r \<or> r_Term r < r_Term r' \<and> r_Vote r' = r_id r)"
  using tick_outcome [OF assms] .

lemma tick_monotone_witness:
  "r_Term (sampleNode 1) \<le> r_Term (the (tick (sampleNode 1)))"
proof -
  have "returns (tick (sampleNode 1))" "r_Term (sampleNode 1) < MaxUint64" by code_simp+
  then show ?thesis using tick_monotone [OF returns_the] by simp
qed

text \<open>C3: a node grants its vote only when it is asked for it, by the sender of the message that it
  handles, in the very term of that message: the term it was in, if it had not voted in it for another, or a later
  one; the grant carries that term, and the node is in it afterwards, with its vote for that candidate. The
  candidate's last entry has a later term than the node's own last entry, or the same term and an index at
  least as large. (Appends, heartbeats and snapshots carry a term that is not 0,
  terms are below \<open>2 ^ 64 - 1\<close>, the role of the node and its handler agree, and its log satisfies its invariant.)\<close>

theorem vote_granted:
  assumes "Step r m = Some (err, r')" and "r_Term r < MaxUint64" and "m_Term m < MaxUint64"
    and "m_Term m = 0 \<Longrightarrow> m_Type m \<notin> {MsgApp, MsgHeartbeat, MsgSnap}" and "role_ok r"
    and "view_inv (r_raftLog r)" and "r_msgs r' = r_msgs r @ ms" and "g \<in> set ms"
    and "m_Type g = MsgVoteResp" and "\<not> m_Reject g"
  shows "m_Type m = MsgVote \<and> m_To g = m_From m \<and> m_From g = r_id r \<and> r_Vote r' = m_From m \<and>
    m_Term m \<noteq> 0 \<and> m_Term g = m_Term m \<and> r_Term r' = m_Term m \<and>
    (r_Term r < m_Term m \<or> r_Term r = m_Term m \<and> r_Vote r \<in> {0, m_From m}) \<and>
    (let l = r_raftLog r; last = rl_term l (lastIndex l) in
     last < m_LogTerm m \<or> last = m_LogTerm m \<and> lastIndex l \<le> m_Index m)"
  using Step_grant [OF assms(1-5,7-10)] isUpToDate_eq [OF assms(6)] by (auto simp: Let_def le_less)

theorem vote_granted_witness: "r_Vote sampleVoter = 1 \<and> r_Term sampleVoter = 1"
proof -
  have "r_Term (sampleNode 2) < MaxUint64" "m_Term (voteReq 1 2 1) < MaxUint64" "m_Term (voteReq 1 2 1) \<noteq> 0"
    "role_ok (sampleNode 2)" by code_simp+
  moreover have "r_msgs sampleVoter = r_msgs (sampleNode 2) @ [voteGrant 2 1 1]"
    by (simp add: sampleVoter_def sampleNode_def)
  moreover have "view_inv (r_raftLog (sampleNode 2))" by (rule sampleNode_log [THEN log_invD(1)]) simp
  ultimately show ?thesis using vote_granted [OF vote_step, of "[voteGrant 2 1 1]" "voteGrant 2 1 1"]
    by (simp add: voteGrant_def voteReq_def)
qed

text \<open>C4: a node becomes a leader only with the votes of a quorum (of both halves, while the
  configuration is joint): itself, those recorded before, and the sender of the vote it handles.
  (Appends, heartbeats and snapshots carry a term that is not 0.)\<close>

theorem leader_needs_quorum:
  assumes "Step r m = Some (err, r')" and "r_Term r < MaxUint64" and "m_Term m < MaxUint64"
    and "m_Term m = 0 \<Longrightarrow> m_Type m \<notin> {MsgApp, MsgHeartbeat, MsgSnap}" and "role_ok r"
    and "r_state r' = StateLeader" and "r_state r \<noteq> StateLeader"
  shows "is_joint_quorum (pt_Voters (r_prs r'))
    (insert (r_id r) (yes_votes (pt_Votes (r_prs r)) \<union> {v. v = m_From m \<and> m_Type m = MsgVoteResp \<and> \<not> m_Reject m}))"
  using Step_leader [OF assms] .

theorem leader_needs_quorum_witness:
  "is_joint_quorum sampleVoters (insert 1 (yes_votes (pt_Votes (r_prs sampleCandidate)) \<union> {v. v = 2}))"
proof -
  have "r_Term sampleCandidate < MaxUint64" "m_Term (voteGrant 2 1 1) < MaxUint64"
    "m_Type (voteGrant 2 1 1) = MsgVoteResp" "role_ok sampleCandidate" "r_state sampleLeader = StateLeader"
    "r_state sampleCandidate \<noteq> StateLeader" "pt_Voters (r_prs sampleLeader) = sampleVoters" "r_id sampleCandidate = 1"
    by code_simp+
  then show ?thesis using leader_needs_quorum [OF elected_step] by (simp add: voteGrant_def)
qed

text \<open>A campaign of the real election that returns leaves the node in the next term, with its vote
  for itself, either still a candidate with at most its own vote, or the leader of a configuration
  whose quorum it is alone.\<close>

lemma campaign_next_term:
  assumes "campaign r t = Some r'" and "t \<noteq> campaignPreElection" and "r_Term r < MaxUint64"
  shows "r_Term r' = Suc (r_Term r) \<and> r_Vote r' = r_id r \<and>
    (r_state r' = StateCandidate \<and> yes_votes (pt_Votes (r_prs r')) \<subseteq> {r_id r} \<or>
     r_state r' = StateLeader \<and> is_joint_quorum (pt_Voters (r_prs r')) {r_id r})"
  using campaign_real [OF assms] by (auto simp: stands_def)

lemma campaign_next_term_witness:
  "r_Term (the (campaign (sampleNode 1) campaignElection)) = Suc (r_Term (sampleNode 1))"
proof -
  have "returns (campaign (sampleNode 1) campaignElection)" "r_Term (sampleNode 1) < MaxUint64" by code_simp+
  then show ?thesis using campaign_next_term [OF returns_the] by simp
qed

section \<open>Replication\<close>

text \<open>C5: a leader commits only what a quorum has. Whenever \<open>stepLeader\<close> moves the commit index, it moves
  forward to an index whose entry has the leader's own term, and the nodes whose progress matches at
  least that index are a quorum of the voters (of both halves of a joint configuration).\<close>

theorem leader_commits_by_quorum:
  assumes "stepLeader r m = Some (err, r')" and "log_inv (r_raftLog r)" and "r_Term r \<noteq> 0"
    and "JointIDs (pt_Voters (r_prs r)) \<noteq> {||}" and "lastIndex (r_raftLog r') \<le> MaxUint64"
    and "rl_committed (r_raftLog r') \<noteq> rl_committed (r_raftLog r)"
  shows "rl_committed (r_raftLog r) < rl_committed (r_raftLog r') \<and>
    rl_term (r_raftLog r') (rl_committed (r_raftLog r')) = r_Term r' \<and>
    is_joint_quorum (pt_Voters (r_prs r'))
      {v. \<exists>pr. progressOf r' v = Some pr \<and> rl_committed (r_raftLog r') \<le> pr_Match pr}"
  using stepLeader_ok [OF assms(1)] assms(2-)
  by (simp add: leading_def leader_ok_def commit_ok_def quorum_at_def)

theorem leader_commits_by_quorum_witness:
  "rl_term (r_raftLog sampleCommitted) 1 = 1"
proof -
  have "log_inv (r_raftLog sampleLeader)" "r_Term sampleLeader \<noteq> 0"
    "JointIDs (pt_Voters (r_prs sampleLeader)) \<noteq> {||}" "lastIndex (r_raftLog sampleCommitted) \<le> MaxUint64"
    "rl_committed (r_raftLog sampleCommitted) \<noteq> rl_committed (r_raftLog sampleLeader)" by code_simp+
  moreover have "rl_committed (r_raftLog sampleCommitted) = 1" "r_Term sampleCommitted = 1" by code_simp+
  ultimately show ?thesis using leader_commits_by_quorum [OF commit_step] by metis
qed

text \<open>C6: leader append-only. Whatever message \<open>stepLeader\<close> handles, the leader's log afterwards is the
  log before with entries appended, and its invariant holds: the entries are numbered without a gap,
  and applied \<le> committed \<le> last index.\<close>

theorem leader_append_only:
  assumes "stepLeader r m = Some (err, r')" and "log_inv (r_raftLog r)" and "r_Term r \<noteq> 0"
    and "JointIDs (pt_Voters (r_prs r)) \<noteq> {||}" and "lastIndex (r_raftLog r') \<le> MaxUint64"
  shows "log_inv (r_raftLog r') \<and> rl_base (r_raftLog r') = rl_base (r_raftLog r) \<and>
    (\<exists>es. rl_ents (r_raftLog r') = rl_ents (r_raftLog r) @ es)"
  using stepLeader_ok [OF assms(1)] assms(2-)
  by (simp add: leading_def leader_ok_def extends_def same_frame_def)

theorem leader_append_only_witness:
  "rl_base (r_raftLog sampleCommitted) = rl_base (r_raftLog sampleLeader)"
proof -
  have "log_inv (r_raftLog sampleLeader)" "r_Term sampleLeader \<noteq> 0"
    "JointIDs (pt_Voters (r_prs sampleLeader)) \<noteq> {||}" "lastIndex (r_raftLog sampleCommitted) \<le> MaxUint64" by code_simp+
  then show ?thesis using leader_append_only [OF commit_step] by blast
qed

text \<open>C7: committed entries are for ever. Whatever well-formed message \<open>Step\<close> handles, in whatever role,
  the invariant of the log holds afterwards, the commit index has not fallen, and every entry that was
  committed and is still in the log is the entry it was (a snapshot may have replaced a prefix of
  committed entries by its base).\<close>

theorem step_keeps_committed:
  assumes "Step r m = Some (err, r')" and "m_Type m \<in> {MsgApp, MsgSnap} \<Longrightarrow> msg_ok m" and "log_inv (r_raftLog r)"
  shows "log_inv (r_raftLog r') \<and> rl_committed (r_raftLog r) \<le> rl_committed (r_raftLog r') \<and>
    (\<forall>i. rl_base (r_raftLog r') < i \<and> i \<le> rl_committed (r_raftLog r) \<longrightarrow>
       entry_at (r_raftLog r') i = entry_at (r_raftLog r) i)"
  using Step_logs [of r m err r'] assms by (simp add: stable_def)

theorem step_keeps_committed_witness:
  "log_inv (r_raftLog (snd (the (Step sampleVoter sampleAppend)))) \<and> msg_ok sampleAppend"
proof -
  have "returns (Step sampleVoter sampleAppend)" "log_inv (r_raftLog sampleVoter)" "msg_ok sampleAppend" by code_simp+
  then show ?thesis using step_keeps_committed [OF returns_pair] by blast
qed

text \<open>A tick, and with it a campaign, a heartbeat or a hand-over that it starts, keeps the same
  promises.\<close>

lemma tick_keeps_committed:
  assumes "tick r = Some r'" and "log_inv (r_raftLog r)"
  shows "log_inv (r_raftLog r') \<and> rl_committed (r_raftLog r) \<le> rl_committed (r_raftLog r') \<and>
    (\<forall>i. rl_base (r_raftLog r') < i \<and> i \<le> rl_committed (r_raftLog r) \<longrightarrow>
       entry_at (r_raftLog r') i = entry_at (r_raftLog r) i)"
  using tick_logs [OF assms(1)] assms(2) by (simp add: stable_def)

lemma tick_keeps_committed_witness:
  "log_inv (r_raftLog (the (tick sampleCommitted)))"
proof -
  have "returns (tick sampleCommitted)" "log_inv (r_raftLog sampleCommitted)" by code_simp+
  then show ?thesis using tick_keeps_committed [OF returns_the] by blast
qed

text \<open>C8: the loop \<open>for r.maybeSendAppend(to, false) {}\<close> ends. On a consistent log below the overflow and
  a valid inflight window it returns, without a panic, and in the state it returns nothing is left to
  send to that peer.\<close>

theorem send_loop_ends:
  assumes "view_inv (r_raftLog r)" and "lastIndex (r_raftLog r) < MaxUint64"
    and "progressOf r to = Some pr" and "inflights_inv (pr_Inflights pr)"
  shows "\<exists>r'. sendAllAppends r to = Some r' \<and> maybeSendAppend r' to False = Some (False, r')"
  using sendAllAppends_ends [OF assms] .

theorem send_loop_ends_witness:
  "{to \<in> {2, 3}. sendAllAppends sampleLeader to = None} = {}"
proof -
  have "view_inv (r_raftLog sampleLeader)" "lastIndex (r_raftLog sampleLeader) < MaxUint64"
    "returns (progressOf sampleLeader 2)" "inflights_inv (pr_Inflights (the (progressOf sampleLeader 2)))"
    "returns (progressOf sampleLeader 3)" "inflights_inv (pr_Inflights (the (progressOf sampleLeader 3)))"
    by code_simp+
  then have "sendAllAppends sampleLeader 2 \<noteq> None" "sendAllAppends sampleLeader 3 \<noteq> None"
    using send_loop_ends [OF _ _ returns_the] by blast+
  then show ?thesis by auto
qed

section \<open>Quorums\<close>

text \<open>C9: the commit index of a joint configuration is the largest index that a majority of each half
  has acknowledged: an index is at most the commit index exactly when a quorum of both halves has it.\<close>

theorem commit_index_by_quorum:
  assumes "JointIDs c \<noteq> {||}" and "0 < i" and "i \<le> MaxUint64"
  shows "i \<le> JointCommittedIndex c l \<longleftrightarrow> is_joint_quorum c (acked l i)"
  using JointCommittedIndex_ge_iff [OF assms] .

theorem commit_index_by_quorum_witness:
  "is_joint_quorum sampleVoters (acked (\<lambda>v. if v = 3 then None else Some (v + 4)) 5)"
proof -
  have "JointIDs sampleVoters \<noteq> {||}" by (simp add: sampleVoters_def JointIDs_def)
  moreover have "5 \<le> JointCommittedIndex sampleVoters (\<lambda>v. if v = 3 then None else Some (v + 4))"
    "5 \<le> MaxUint64" by code_simp+
  ultimately show ?thesis
    using commit_index_by_quorum [of sampleVoters 5 "\<lambda>v. if v = 3 then None else Some (v + 4)"] by simp
qed

text \<open>C10: the vote result of a joint configuration: won when a quorum of both halves voted yes, pending
  while the voters that did not vote no are such a quorum, and lost otherwise.\<close>

theorem vote_result_spec:
  "JointVoteResult c votes =
     (if is_joint_quorum c (yes_votes votes) then VoteWon
      else if is_joint_quorum c (- no_votes votes) then VotePending
      else VoteLost)"
  by (rule JointVoteResult_spec)

text \<open>Two elections that are both won in a configuration share a voter who voted yes in both, so
  that one vote per term makes one winner per term.\<close>

lemma two_wins_share_a_voter:
  assumes "JointIDs c \<noteq> {||}" and "JointVoteResult c votes1 = VoteWon" and "JointVoteResult c votes2 = VoteWon"
  shows "yes_votes votes1 \<inter> yes_votes votes2 \<noteq> {}"
  using jnt.quorum_intersect [OF assms(1)] assms(2,3) by (simp add: JointVoteResult_won_iff)

lemma two_wins_share_a_voter_witness:
  "yes_votes (fmset True [1, 2]) \<inter> yes_votes (fmset True [2, 3]) \<noteq> {}"
proof -
  have "JointIDs sampleVoters \<noteq> {||}" by (simp add: sampleVoters_def JointIDs_def)
  moreover have "JointVoteResult sampleVoters (fmset True [1, 2]) = VoteWon"
    "JointVoteResult sampleVoters (fmset True [2, 3]) = VoteWon" by code_simp+
  ultimately show ?thesis by (rule two_wins_share_a_voter)
qed

text \<open>The commit index does not depend on the order in which the map of voters is visited.\<close>

lemma commit_index_order:
  assumes "mset order = mset order'"
  shows "CommittedIndexFrom order l = CommittedIndexFrom order' l"
  using CommittedIndexFrom_perm [OF assms] .

lemma commit_index_order_witness:
  "CommittedIndexFrom [1, 2, 3] (\<lambda>v. Some (v * 2)) = CommittedIndexFrom [3, 1, 2] (\<lambda>v. Some (v * 2))"
  by (rule commit_index_order) simp

section \<open>Configuration changes\<close>

text \<open>C11: a simple change never panics on a consistent configuration. When it succeeds, the
  configuration is consistent again, it is not joint before or after, it has a voter, it differs in at
  most one voter from the old one, and every quorum of the old configuration meets every quorum of
  the new one.\<close>

theorem simple_change_safe:
  assumes "changer_inv c" and "ids (incoming (tc_Voters (chg_Config c))) \<noteq> {||}"
  shows "\<exists>r. Simple c ccs = Some r \<and> (\<forall>cfg' prs'. r = Inr (cfg', prs') \<longrightarrow>
    conf_inv cfg' prs' \<and> \<not> joint (chg_Config c) \<and> \<not> joint cfg' \<and> ids (incoming (tc_Voters cfg')) \<noteq> {||} \<and>
    symdiff (incoming (tc_Voters (chg_Config c))) (incoming (tc_Voters cfg')) \<le> 1 \<and>
    quorums_meet (tc_Voters (chg_Config c)) (tc_Voters cfg'))"
proof -
  obtain r where r: "Simple c ccs = Some r" and ok: "\<And>cfg' prs'. r = Inr (cfg', prs') \<Longrightarrow>
    conf_inv cfg' prs' \<and> \<not> joint (chg_Config c) \<and> outgoing (tc_Voters cfg') = None \<and>
    ids (incoming (tc_Voters cfg')) \<noteq> {||} \<and>
    symdiff (incoming (tc_Voters (chg_Config c))) (incoming (tc_Voters cfg')) \<le> 1"
    using Simple_inv [OF assms(1), of ccs] by blast
  then show ?thesis using Simple_meet [OF assms(1) _ assms(2), of ccs] by (auto simp: joint_iff)
qed

theorem simple_change_safe_witness:
  "quorums_meet (tc_Voters (chg_Config sampleChanger))
     (tc_Voters (fst (projr (the (Simple sampleChanger [addNode 2])))))"
proof -
  have "ids (incoming (tc_Voters (chg_Config sampleChanger))) \<noteq> {||}" "succeeds (Simple sampleChanger [addNode 2])"
    by code_simp+
  then show ?thesis using succeeds_result [OF _ simple_change_safe [OF sampleChanger_inv]] by blast
qed

text \<open>C12: entering a joint configuration never panics on a consistent configuration. When it succeeds
  the configuration is consistent and joint, its outgoing half is the old set of voters, it leaves
  by itself exactly when that was asked for, and quorums of old and new meet.\<close>

theorem enter_joint_safe:
  assumes "changer_inv c"
  shows "\<exists>r. EnterJoint c leave ccs = Some r \<and> (\<forall>cfg' prs'. r = Inr (cfg', prs') \<longrightarrow>
    conf_inv cfg' prs' \<and> \<not> joint (chg_Config c) \<and> joint cfg' \<and> tc_AutoLeave cfg' = leave \<and>
    ids (incoming (tc_Voters cfg')) \<noteq> {||} \<and>
    ids (outgoing (tc_Voters cfg')) = ids (incoming (tc_Voters (chg_Config c))) \<and>
    quorums_meet (tc_Voters (chg_Config c)) (tc_Voters cfg'))"
  using EnterJoint_inv [OF assms, of leave ccs] EnterJoint_meet [OF assms, of leave ccs] by blast

theorem enter_joint_safe_witness:
  "quorums_meet (tc_Voters (chg_Config sampleChanger))
     (tc_Voters (fst (projr (the (EnterJoint sampleChanger True replaceVoter)))))"
  using succeeds_result [OF EnterJoint_sample enter_joint_safe [OF sampleChanger_inv]] by blast

text \<open>C13: leaving a joint configuration never panics on a consistent configuration. When it succeeds the
  configuration is consistent and no longer joint, the voters are the incoming half, the learners
  that were staged have become learners, and quorums of old and new meet.\<close>

theorem leave_joint_safe:
  assumes "changer_inv c" and "ids (incoming (tc_Voters (chg_Config c))) \<noteq> {||}"
  shows "\<exists>r. LeaveJoint c = Some r \<and> (\<forall>cfg' prs'. r = Inr (cfg', prs') \<longrightarrow>
    conf_inv cfg' prs' \<and> joint (chg_Config c) \<and> \<not> joint cfg' \<and>
    incoming (tc_Voters cfg') = incoming (tc_Voters (chg_Config c)) \<and>
    ids (tc_Learners cfg') = ids (tc_Learners (chg_Config c)) |\<union>| ids (tc_LearnersNext (chg_Config c)) \<and>
    quorums_meet (tc_Voters (chg_Config c)) (tc_Voters cfg'))"
  using LeaveJoint_inv [OF assms(1)] LeaveJoint_meet [OF assms(1) _ assms(2)] by blast

theorem leave_joint_safe_witness:
  "quorums_meet (tc_Voters (chg_Config jointChanger)) (tc_Voters (fst (projr (the (LeaveJoint jointChanger)))))"
proof -
  have "ids (incoming (tc_Voters (chg_Config jointChanger))) \<noteq> {||}" by code_simp
  then show ?thesis using succeeds_result [OF LeaveJoint_sample leave_joint_safe [OF jointChanger_inv]] by blast
qed

section \<open>The log\<close>

text \<open>C14: a range read from the log, part of which is in storage and part still unstable, is the range
  of the one list of entries that the log stands for, cut to the size limit.\<close>

theorem slice_reads_entries:
  assumes "view_inv l" and "rl_base l < lo" and "lo < hi" and "hi \<le> Suc (lastIndex l)"
  shows "sliceLog l lo hi n = Some (Inr (limitSize (take (hi - lo) (drop (lo - Suc (rl_base l)) (rl_ents l))) n))"
  using sliceLog_ok [OF assms] .

theorem slice_reads_entries_witness:
  "sliceLog sampleLog 2 4 1024 = Some (Inr (limitSize [sampleEntry 1 2, sampleEntry 2 3] 1024))"
  using slice_reads_entries [OF sampleLog_view, of 2 4 1024] by (simp add: sampleLog_fields)

text \<open>C15: an append whose previous entry matches is accepted. The entries from the first conflict on
  replace the tail of the log, the log then holds the sent entries at their indexes, and the commit
  index becomes the sender's, as far as the sent entries reach, but never falls.\<close>

theorem append_accepted:
  assumes "log_inv l" and "contiguous index ents" and "\<And>e. e \<in> set ents \<Longrightarrow> 0 < e_Term e"
    and "rl_committed l \<le> index" and "index \<le> lastIndex l" and "index + length ents < 2 ^ 64"
    and "rl_term l index = logTerm"
  shows "\<exists>l'. maybeAppend l index logTerm committed ents = Some (Some (index + length ents), l') \<and>
    log_inv l' \<and> rl_ents l' = appended l index ents \<and>
    rl_committed l' = max (rl_committed l) (min committed (index + length ents)) \<and>
    (\<forall>k < length ents. rl_term l' (Suc index + k) = e_Term (ents ! k))"
proof -
  obtain l' where l': "maybeAppend l index logTerm committed ents = Some (Some (index + length ents), l')"
    "log_inv l'" "same_frame l l'" "rl_ents l' = appended l index ents"
    "rl_committed l' = max (rl_committed l) (min committed (index + length ents))"
    using maybeAppend_ok [OF assms] by blast
  have base: "rl_base l \<le> index" using log_invD(2) [OF assms(1)] assms(4) by simp
  note v = log_invD(1) [OF assms(1)]
  note terms = appended_terms [OF v log_invD(1) [OF l'(2)] assms(2) base l'(3)
      matching_in_log [OF v assms(2,3) base assms(5)] l'(4)]
  show ?thesis using l' terms by blast
qed

theorem append_accepted_witness:
  "\<exists>l'. maybeAppend sampleLog 2 1 3 [sampleEntry 3 3] = Some (Some 3, l') \<and> rl_committed l' = 3"
proof -
  have "rl_term sampleLog 2 = 1" by code_simp
  then show ?thesis using append_accepted [OF sampleLog_inv, of 2 "[sampleEntry 3 3]" 1 3]
    by (auto simp: sampleLog_fields contiguous_def)
qed

text \<open>An append whose previous entry does not match is refused, and the log is left as it is.\<close>

lemma append_refused:
  assumes "log_inv l" and "rl_term l index \<noteq> logTerm"
  shows "maybeAppend l index logTerm committed ents = Some (None, l)"
  using maybeAppend_reject [OF assms] .

lemma append_refused_witness:
  "maybeAppend sampleLog 2 7 3 [sampleEntry 7 3] = Some (None, sampleLog)"
proof -
  have "rl_term sampleLog 2 \<noteq> 7" by code_simp
  then show ?thesis by (rule append_refused [OF sampleLog_inv])
qed

text \<open>An append of entries that follow one another that returns leaves the entries up to the old commit index in
  place, does not lower the commit index, and keeps the invariant of the log (the code panics rather than
  truncate a committed entry).\<close>

lemma committed_entries_stay:
  assumes "log_inv l" and "contiguous index ents" and "index + length ents < 2 ^ 64"
    and "maybeAppend l index logTerm committed ents = Some (r, l')"
  shows "log_inv l' \<and> rl_committed l \<le> rl_committed l' \<and>
    take (rl_committed l - rl_base l) (rl_ents l') = take (rl_committed l - rl_base l) (rl_ents l)"
  using maybeAppend_committed [OF assms] by simp

lemma committed_entries_stay_witness:
  "take 1 (rl_ents (snd (the (maybeAppend sampleLog 2 1 3 [sampleEntry 3 3])))) = [sampleEntry 1 1]"
proof -
  have "returns (maybeAppend sampleLog 2 1 3 [sampleEntry 3 3])" by code_simp
  then show ?thesis using committed_entries_stay [OF sampleLog_inv _ _ returns_pair]
    by (fastforce simp: sampleLog_fields contiguous_def)
qed

text \<open>C16: the entries handed to the application are those of the log after the applied index, or after its base if
  that is later, up to the commit index, cut to the size limit; there are some exactly when \<open>hasNextEnts\<close>
  says so, which is when the commit index is later than both.\<close>

theorem next_entries:
  assumes "log_inv l"
  shows "let a = max (rl_applied l) (rl_base l) in
    (\<exists>es. nextEnts l = Some es \<and>
      es = limitSize (take (rl_committed l - a) (drop (a - rl_base l) (rl_ents l))) (rl_maxNextEntsSize l) \<and>
      (es \<noteq> [] \<longleftrightarrow> hasNextEnts l)) \<and> (hasNextEnts l \<longleftrightarrow> a < rl_committed l)"
  using nextEnts_range [OF assms] nextEnts_ok [OF assms] by (auto simp: Let_def)

theorem next_entries_witness:
  "\<exists>es. nextEnts (sampleLog\<lparr>rl_committed := 2\<rparr>) = Some es \<and> es \<noteq> []"
proof -
  note next_entries [of "sampleLog\<lparr>rl_committed := 2\<rparr>"]
  moreover have "log_inv (sampleLog\<lparr>rl_committed := 2\<rparr>)" "hasNextEnts (sampleLog\<lparr>rl_committed := 2\<rparr>)" by code_simp+
  ultimately show ?thesis by (auto simp: Let_def)
qed

text \<open>C17: writing the unstable entries to storage and telling the log (\<open>Append\<close>, then \<open>stableTo\<close>) moves
  them without changing what the log stands for: the same entries, base, commit and applied index,
  nothing unstable left, and all entries in storage.\<close>

theorem persisting_keeps_the_log:
  assumes "log_inv l" and "us_snapshot (rl_unstable l) = None" and "lastIndex l < 2 ^ 63"
  shows "\<exists>l'. persist l = Some l' \<and> log_inv l' \<and> rl_ents l' = rl_ents l \<and> rl_base l' = rl_base l \<and>
    rl_committed l' = rl_committed l \<and> rl_applied l' = rl_applied l \<and> unstableEntries l' = [] \<and>
    ms_rest (rl_storage l') = rl_ents l"
  using persist_ok [OF assms] by blast

theorem persisting_keeps_the_log_witness:
  "\<exists>l'. persist sampleLog = Some l' \<and> length (ms_rest (rl_storage l')) = 3"
proof -
  have "us_snapshot (rl_unstable sampleLog) = None" by (simp add: sampleLog_def)
  then show ?thesis using persisting_keeps_the_log [OF sampleLog_inv] by (fastforce simp: sampleLog_fields)
qed

section \<open>Storage, messages and windows\<close>

text \<open>Appending to the memory storage replaces the tail from the first new index on by the new
  entries, and keeps the storage contiguous and its base in place.\<close>

lemma storage_append:
  assumes "ms_inv ms" and "contiguous b es" and "ms_base ms \<le> b" and "b \<le> ms_lastIndex ms"
    and "b + length es < 2 ^ 63"
  shows "\<exists>ms'. Append ms es = Some ms' \<and> ms_inv ms' \<and> ms_base ms' = ms_base ms \<and> ms_bterm ms' = ms_bterm ms \<and>
    ms_rest ms' = (if es = [] then ms_rest ms else take (b - ms_base ms) (ms_rest ms) @ es)"
  using Append_ok [OF assms] .

lemma storage_append_witness:
  "\<exists>ms'. Append sampleStorage [sampleEntry 5 2] = Some ms' \<and> ms_rest ms' = [sampleEntry 1 1, sampleEntry 5 2]"
proof -
  have "ms_base sampleStorage = 0" "ms_lastIndex sampleStorage = 2"
    "ms_rest sampleStorage = [sampleEntry 1 1, sampleEntry 1 2]" by code_simp+
  then show ?thesis using storage_append [OF sampleStorage_inv, of 1 "[sampleEntry 5 2]"]
    by (auto simp: contiguous_def)
qed

text \<open>Compacting the memory storage drops the entries up to the given index, which becomes the base
  with the term it had; all later entries stay.\<close>

lemma storage_compact:
  assumes "ms_inv ms" and "ms_base ms < i" and "i \<le> ms_lastIndex ms"
  shows "\<exists>ms'. Compact ms i = Some (Inr ms') \<and> ms_inv ms' \<and> ms_base ms' = i \<and>
    ms_bterm ms' = e_Term (ms_rest ms ! (i - Suc (ms_base ms))) \<and>
    ms_rest ms' = drop (i - ms_base ms) (ms_rest ms)"
  using Compact_ok [OF assms] .

lemma storage_compact_witness:
  "\<exists>ms'. Compact sampleStorage 1 = Some (Inr ms') \<and> ms_rest ms' = [sampleEntry 1 2]"
proof -
  have "ms_base sampleStorage = 0" "ms_lastIndex sampleStorage = 2"
    "ms_rest sampleStorage = [sampleEntry 1 1, sampleEntry 1 2]" by code_simp+
  then show ?thesis using storage_compact [OF sampleStorage_inv, of 1] by auto
qed

text \<open>C18: \<open>limitSize\<close> returns the longest prefix whose entries together stay within the size limit, but
  never less than one entry of a nonempty list.\<close>

theorem limit_longest_prefix:
  assumes "ents \<noteq> []"
  shows "\<exists>n. limitSize ents maxSize = take n ents \<and> 0 < n \<and> n \<le> length ents \<and>
    (n = 1 \<or> sum_list (map EntrySize (take n ents)) \<le> maxSize) \<and>
    (n = length ents \<or> maxSize < sum_list (map EntrySize (take (Suc n) ents)))"
  using limitSize_longest [OF assms] .

theorem limit_longest_prefix_witness:
  "limitSize [sampleEntry 1 1, sampleEntry 1 2] 0 \<noteq> []"
  using limit_longest_prefix [of "[sampleEntry 1 1, sampleEntry 1 2]" 0] by auto

text \<open>C19: the inflight window is a bounded queue. Whatever run of additions, releases up to an index, releases of the
  first and resets is made on a fresh window of size \<open>n\<close>, however its ring buffer grows and wraps meanwhile, the
  outcome is that of the same run on a list: an addition appends, and panics when the list has \<open>n\<close> elements; a
  release drops the elements from the front that are at most the index; and the window counts the elements, and
  is full, accordingly. (To release the first of an empty window panics if nothing was ever added.)\<close>

theorem window_is_queue:
  "case foldM (queueStep n) (False, []) ops of
     None \<Rightarrow> foldM windowStep (NewInflights n) ops = None
   | Some (used, q) \<Rightarrow> \<exists>w. foldM windowStep (NewInflights n) ops = Some w \<and> ring_contents w = q \<and>
       CountInflights w = length q \<and> (FullInflights w \<longleftrightarrow> length q = n)"
  by (rule window_queue)

text \<open>In a window of three, the fourth index is written over the first, which has been released.\<close>

lemma window_wraps:
  "\<exists>w. foldM windowStep (NewInflights 3) [WAdd 4, WAdd 6, WAdd 9, WFree 4, WAdd 10] = Some w \<and>
     ring_contents w = [6, 9, 10] \<and> in_buffer w = [10, 6, 9]"
  by (simp add: AddInflights_def NewInflights_def FullInflights_def growInflights_def FreeLE_def ring_contents_def Let_def)

text \<open>The transitions of a peer's progress keep its invariant (the next index lies beyond the matching one, the window
  is valid, and only a peer in the snapshot state has a pending snapshot), a rejection only when the index that
  it names is not known to match; and none of them lowers the index known to match.\<close>

lemma progress_transitions:
  assumes "progress_ok pr" and "pr_Match pr < MaxUint64" and "n < MaxUint64"
  shows "progress_ok (BecomeProbe pr) \<and> progress_ok (BecomeReplicate pr) \<and> progress_ok (BecomeSnapshot pr i) \<and>
    progress_ok (ProbeAcked pr) \<and> progress_ok (snd (MaybeUpdate pr n)) \<and> pr_Match (snd (MaybeUpdate pr n)) = max (pr_Match pr) n \<and>
    (pr_Match pr \<le> n \<longrightarrow> progress_ok (OptimisticUpdate pr n)) \<and>
    (pr_Match pr < rejected \<and> pr_Match pr \<le> lst \<and> lst < MaxUint64 \<longrightarrow> progress_ok (snd (MaybeDecrTo pr rejected lst))) \<and>
    pr_Match (snd (MaybeDecrTo pr rejected lst)) = pr_Match pr"
  using BecomeProbe_ok BecomeReplicate_ok BecomeSnapshot_ok MaybeUpdate_ok MaybeUpdate_match assms
    MaybeDecrTo_ok OptimisticUpdate_ok ProbeAcked_ok by simp

lemma progress_transitions_witness:
  "progress_ok (BecomeReplicate (the (progressOf sampleLeader 2)))"
proof -
  have "progress_ok (the (progressOf sampleLeader 2))" "pr_Match (the (progressOf sampleLeader 2)) < MaxUint64"
    "1 < MaxUint64" by code_simp+
  then show ?thesis using progress_transitions by blast
qed

text \<open>A late rejection of the index that is known to match is believed in the probing state, although it was
  acknowledged: the next index falls to the matching one.\<close>

lemma stale_rejection:
  assumes "pr_State pr = StateProbe" and "0 < pr_Match pr" and "pr_Next pr = Suc (pr_Match pr)" and "pr_Next pr < 2 ^ 64"
    and "pr_Match pr \<le> lst" and "lst < MaxUint64"
  shows "fst (MaybeDecrTo pr (pr_Match pr) lst) \<and> pr_Next (snd (MaybeDecrTo pr (pr_Match pr) lst)) = pr_Match pr"
  using MaybeDecrTo_stale [OF assms] .

lemma stale_rejection_witness:
  "pr_Next (snd (MaybeDecrTo ((the (progressOf sampleLeader 2))\<lparr>pr_State := StateProbe, pr_Match := 5, pr_Next := 6\<rparr>) 5 9)) = 5"
  using stale_rejection [of "(the (progressOf sampleLeader 2))\<lparr>pr_State := StateProbe, pr_Match := 5, pr_Next := 6\<rparr>" 9]
  by (simp add: MaxUint64_def)

section \<open>Linearizable reads, Ready, the goroutine\<close>

text \<open>C20: when the heartbeat context of a read request is confirmed, that request and all that were queued
  before it are answered, in the order in which they came, and only they leave the queue.\<close>

theorem reads_answered_in_order:
  assumes "readOnly_inv ro" and "ro_readIndexQueue ro = earlier @ m_Context m # later"
  shows "\<exists>rss ro'. advanceReadOnly ro m = Some (rss, ro') \<and> readOnly_inv ro' \<and> ro_readIndexQueue ro' = later \<and>
    map (\<lambda>rs. reqCtx (rs_req rs)) rss = map Some (earlier @ [m_Context m])"
  using advanceReadOnly_ok [OF assms] by blast

theorem reads_answered_in_order_witness:
  "\<exists>rss ro'. advanceReadOnly (newReadOnly ReadOnlySafe\<lparr>ro_readIndexQueue := [''a''],
      ro_pendingReadIndex := fmupd ''a'' \<lparr>rs_req = readRequest, rs_index = 3, rs_acks = fmempty\<rparr> fmempty\<rparr>)
    (emptyMessage\<lparr>m_Context := ''a''\<rparr>) = Some (rss, ro') \<and> length rss = 1"
proof -
  have "reqCtx readRequest = Some ''a''" by (simp add: readRequest_def reqCtx_def)
  then have "readOnly_inv (newReadOnly ReadOnlySafe\<lparr>ro_readIndexQueue := [''a''],
      ro_pendingReadIndex := fmupd ''a'' \<lparr>rs_req = readRequest, rs_index = 3, rs_acks = fmempty\<rparr> fmempty\<rparr>)"
    by (auto simp: readOnly_inv_def)
  from reads_answered_in_order [OF this, of "[]" "emptyMessage\<lparr>m_Context := ''a''\<rparr>" "[]"]
  show ?thesis by (auto simp: map_eq_Cons_conv)
qed

text \<open>C21: \<open>HasReady\<close> announces exactly the \<open>Ready\<close>s that hold something: it is true if and only if the
  \<open>Ready\<close> that the node would hand out next has a state, entries, a snapshot, messages or reads in it.\<close>

theorem ready_announced:
  assumes "log_inv (r_raftLog (rn_raft rn))" and "readyWithoutAccept rn = Some rd"
  shows "HasReady rn = containsUpdates rd"
  using HasReady_iff [OF assms] .

theorem ready_announced_witness:
  "HasReady (rawNodeOf sampleCommitted) = containsUpdates (the (readyWithoutAccept (rawNodeOf sampleCommitted)))"
proof -
  have "log_inv (r_raftLog (rn_raft (rawNodeOf sampleCommitted)))"
    "returns (readyWithoutAccept (rawNodeOf sampleCommitted))" by code_simp+
  then show ?thesis using ready_announced returns_the by blast
qed

text \<open>Accepting a \<open>Ready\<close> takes its soft state, messages and read states out of the next one, which
  repeats only what has still to be made stable or applied.\<close>

lemma ready_accepted_once:
  assumes "readyWithoutAccept rn = Some rd" and "readyWithoutAccept (acceptReady rn rd) = Some rd'"
  shows "rdy_SoftState rd' = None \<and> rdy_ReadStates rd' = [] \<and> rdy_Messages rd' = [] \<and>
    rdy_HardState rd' = rdy_HardState rd \<and> rdy_Entries rd' = rdy_Entries rd \<and>
    rdy_CommittedEntries rd' = rdy_CommittedEntries rd \<and> rdy_Snapshot rd' = rdy_Snapshot rd"
  using acceptReady_drained [OF assms] by simp

lemma ready_accepted_once_witness:
  "rdy_Messages (the (readyWithoutAccept (acceptReady (rawNodeOf sampleCommitted)
     (the (readyWithoutAccept (rawNodeOf sampleCommitted)))))) = []"
proof -
  have "returns (readyWithoutAccept (rawNodeOf sampleCommitted))"
    "returns (readyWithoutAccept (acceptReady (rawNodeOf sampleCommitted)
     (the (readyWithoutAccept (rawNodeOf sampleCommitted)))))" by code_simp+
  then show ?thesis using ready_accepted_once [OF returns_the returns_the] by blast
qed

text \<open>C22: in every run of the node's goroutine, \<open>Ready\<close> and \<open>Advance\<close> alternate, whatever other events come in
  between: the first is a \<open>Ready\<close>, the next \<open>Ready\<close> is handed over only after the \<open>Advance\<close> for the one before,
  and no \<open>Advance\<close> is taken without a \<open>Ready\<close> that is outstanding. And a proposal is taken only while the node
  knows a leader.\<close>

theorem goroutine_discipline:
  assumes "loop_run rn es n" and "loop_step n e n'"
  shows "alternates False (es @ [e]) \<and> nl_advancec n' = outstanding False (es @ [e]) \<and>
    (\<forall>m. e = EvProp m \<longrightarrow> r_lead (rn_raft (nl_rn n)) \<noteq> 0)"
  using loop_run_alternates [OF run_step [OF assms]] loop_step_discipline(4) [OF loop_run_reach [OF assms(1)] assms(2)] by blast

theorem goroutine_discipline_witness:
  "\<exists>n1 n2. loop_run (rawNodeOf sampleCommitted) [EvReady] n1 \<and> loop_step n1 EvStatus n2 \<and> alternates False [EvReady, EvStatus] \<and> nl_advancec n2"
proof -
  let ?n = "startLoop (rawNodeOf sampleCommitted)" and ?n1 = "the (loopEvent (the (loopTop (startLoop (rawNodeOf sampleCommitted)))) EvReady)"
  have 1: "returns (loopTop ?n)" "enabled (the (loopTop ?n)) EvReady" "\<not> nl_stopped ?n"
    "returns (loopEvent (the (loopTop ?n)) EvReady)" "returns (loopTop ?n1)" "enabled (the (loopTop ?n1)) EvStatus" "\<not> nl_stopped ?n1"
    "returns (loopEvent (the (loopTop ?n1)) EvStatus)" by code_simp+
  have "loop_step ?n EvReady ?n1" by (rule loop_step.iteration [OF 1(3) returns_the [OF 1(1)] 1(2) returns_the [OF 1(4)]])
  from run_step [OF run_start this] have r: "loop_run (rawNodeOf sampleCommitted) [EvReady] ?n1" by simp
  have s: "loop_step ?n1 EvStatus (the (loopEvent (the (loopTop ?n1)) EvStatus))"
    by (rule loop_step.iteration [OF 1(7) returns_the [OF 1(5)] 1(6) returns_the [OF 1(8)]])
  show ?thesis using r s goroutine_discipline [OF r s] by auto
qed

section \<open>Starting and stepping down\<close>

text \<open>C23: a node that \<open>newRaft\<close> returns is a follower with the identity, term and vote that its
  configuration and its stored hard state give, and a log that holds exactly the stored entries and
  satisfies its invariant; a configuration without identity, with a heartbeat interval not below the
  election timeout, or with lease-based reads without the quorum check, never gets that far.\<close>

theorem new_node:
  assumes "newRaft e c = Some r" and "c_Storage c = Some st" and "ms_inv st"
  shows "r_id r = c_ID c \<and> r_Term r = hs_Term (ms_hardState st) \<and> r_Vote r = hs_Vote (ms_hardState st) \<and>
    r_state r = StateFollower \<and> r_msgs r = [] \<and> log_inv (r_raftLog r) \<and> rl_ents (r_raftLog r) = ms_rest st \<and>
    c_ID c \<noteq> 0 \<and> 0 < c_HeartbeatTick c \<and> c_HeartbeatTick c < c_ElectionTick c \<and>
    (c_ReadOnlyOption c = ReadOnlyLeaseBased \<longrightarrow> c_CheckQuorum c)"
  using newRaft_fields [OF assms(1,2)] newRaft_config [OF assms(1)] newRaft_log [OF assms] by simp

theorem new_node_witness:
  "log_inv (r_raftLog (sampleNode 2)) \<and> r_id (sampleNode 2) = 2"
proof -
  have "c_Storage (sampleConfig 2) = Some NewMemoryStorage" "c_ID (sampleConfig 2) = 2"
    by (simp_all add: sampleConfig_def)
  moreover have "newRaft sampleEnv (sampleConfig 2) = Some (sampleNode 2)" by (rule sampleNode_new) simp
  ultimately show ?thesis using new_node [OF _ _ NewMemoryStorage_inv] by metis
qed

text \<open>C24: the quorum check of a leader. It stays the leader exactly when itself and the peers heard from
  since the last check, learners not counted, are a quorum; otherwise it becomes a follower of the
  same term. Either way every other peer has to be heard from again.\<close>

theorem quorum_check:
  assumes "leaderCheckQuorum r = Some r'"
  shows "r_state r' = (if is_joint_quorum (pt_Voters (r_prs r)) (activePeers r) then r_state r else StateFollower) \<and>
    r_Term r' = r_Term r \<and> {v. v \<noteq> r_id r \<and> (\<exists>pr. progressOf r' v = Some pr \<and> pr_RecentActive pr)} = {}"
  using leaderCheckQuorum_role [OF assms] by blast

theorem quorum_check_witness:
  "r_state (the (leaderCheckQuorum sampleLeader)) = StateFollower"
proof -
  have "returns (leaderCheckQuorum sampleLeader)" by code_simp
  moreover have "activePeers sampleLeader \<subseteq> {1}"
  proof -
    have "sortedKeys (pt_Progress (r_prs sampleLeader)) = [1, 2, 3]" "r_id sampleLeader = 1"
      "\<not> pr_RecentActive (the (progressOf sampleLeader 2))" "\<not> pr_RecentActive (the (progressOf sampleLeader 3))"
      by code_simp+
    moreover have "v \<in> set (sortedKeys (pt_Progress (r_prs sampleLeader)))" if "progressOf sampleLeader v = Some pr" for v pr
      using that by (simp add: fmdomI)
    ultimately show ?thesis by (fastforce simp: activePeers_def)
  qed
  moreover have "pt_Voters (r_prs sampleLeader) = sampleVoters" by code_simp
  moreover have "\<not> is_joint_quorum sampleVoters A" if "A \<subseteq> {1}" for A
    using not_quorum_of_one that .
  ultimately show ?thesis using quorum_check [OF returns_the, of sampleLeader] by auto
qed

text \<open>C25: a node that is not a leader, may be elected, needs the votes of others and hears nothing, campaigns, if
  it does not ask for pre-votes (\<open>PreVote\<close> is off) and has applied all that is committed (so that no
  configuration change is waiting to be applied; its term is below \<open>2 ^ 64 - 1\<close>, and its election timeout
  positive): after at most the rest of its election timeout, counted in
  ticks, and without a panic on the way, it is a candidate of the next term that has voted for itself and asked
  every other voter.\<close>

theorem silent_node_campaigns:
  assumes "waiting r"
  shows "\<exists>k r'. int k \<le> max 1 (r_randomizedElectionTimeout r - r_electionElapsed r) \<and> ticks k r = Some r' \<and>
    r_Term r' = Suc (r_Term r) \<and> r_Vote r' = r_id r \<and> r_state r' = StateCandidate \<and>
    (\<forall>v. v |\<in>| JointIDs (pt_Voters (r_prs r)) \<and> v \<noteq> r_id r \<longrightarrow>
      (\<exists>m \<in> set (r_msgs r'). m_Type m = MsgVote \<and> m_To m = v \<and> m_From m = r_id r \<and> m_Term m = r_Term r'))"
  using silence_campaigns [OF assms] unfolding asks_all_def by simp

theorem silent_node_campaigns_witness:
  "\<exists>k r'. k \<le> 10 \<and> ticks k (sampleNode 1) = Some r' \<and> r_state r' = StateCandidate"
proof -
  have "r_randomizedElectionTimeout (sampleNode 1) - r_electionElapsed (sampleNode 1) = 10"
    by (simp add: sampleNode_def)
  then show ?thesis using silent_node_campaigns [OF sampleNode_waiting] by fastforce
qed

section \<open>Round trip times\<close>

text \<open>The randomized election timeout. While a node has no penalty it is drawn from the interval
  from the election timeout to twice that; with a penalty it is their sum, and nothing is drawn.\<close>

lemma election_timeout:
  assumes "resetRandomizedElectionTimeout r = Some r'"
  shows "if r_electionPenaltyTime r = 0
    then r_electionTimeout r \<le> r_randomizedElectionTimeout r' \<and> r_randomizedElectionTimeout r' < 2 * r_electionTimeout r
    else r_randomizedElectionTimeout r' = r_electionTimeout r + r_electionPenaltyTime r \<and> r_env r' = r_env r"
  using resetTimeout_cases [OF assms] by simp

lemma election_timeout_witness:
  "r_randomizedElectionTimeout (the (resetRandomizedElectionTimeout (sampleNode 1))) < 20"
proof -
  have "r_electionPenaltyTime (sampleNode 1) = 0" "r_electionTimeout (sampleNode 1) = 10"
    "returns (resetRandomizedElectionTimeout (sampleNode 1))" by code_simp+
  then show ?thesis using election_timeout [OF returns_the] by fastforce
qed

text \<open>C26: an answered probe. The measurement becomes the time stored for the peer if none was stored; otherwise the
  stored time moves to it, at least a part of the way. The record that it replaces is kept for comparison, and
  those of the other peers stay. While there are values for fewer than half of the voters, the penalty stays and the
  election timeout is drawn anew; otherwise the penalty is a hundredth of one of the stored values or between two
  of them, and the election timeout is the fixed one plus the penalty. It returns if the election timeout is
  positive and the measurement is not 0. (Two names in the code promise a smoothed time and a median; the time
  in fact moves all the way and the value is the least one. Both are among the findings.)\<close>

theorem probe_answered:
  "(0 < r_electionTimeout r \<and> measured r v \<noteq> 0 \<longrightarrow> (\<exists>r'. calcRtt r v = Some r')) \<and>
   (\<forall>r'. calcRtt r v = Some r' \<longrightarrow>
     (let old = rtt_timeStamp (rttOf r v); stored = rtt_timeStamp (rttOf r' v) in
       (old = 0 \<longrightarrow> stored = measured r v) \<and> (old \<noteq> measured r v \<longrightarrow> stored \<noteq> old) \<and>
       min old (measured r v) \<le> stored \<and> stored \<le> max old (measured r v)) \<and>
     \<not> rtt_isProbed (rttOf r' v) \<and> (\<forall>w. w \<noteq> v \<longrightarrow> rttOf r' w = rttOf r w) \<and>
     (\<forall>w. rttOldOf r' w = (if w = v then rttOf r v else rttOldOf r w)) \<and>
     (\<bar>measured r v\<bar> < 2 ^ 53 \<and> (\<forall>w. \<bar>rtt_timeStamp (rttOf r w)\<bar> < 2 ^ 53) \<longrightarrow>
       (if length (rttValues r') < length (VoterNodes (r_prs r)) div 2
        then r_electionPenaltyTime r' = r_electionPenaltyTime r \<and> r_electionTimeout r \<le> r_randomizedElectionTimeout r' \<and>
          r_randomizedElectionTimeout r' < 2 * r_electionTimeout r
        else rttValues r' \<noteq> [] \<and> Min (set (rttValues r')) sdiv 100 \<le> r_electionPenaltyTime r' \<and>
          r_electionPenaltyTime r' \<le> Max (set (rttValues r')) sdiv 100 \<and>
          r_randomizedElectionTimeout r' = r_electionTimeout r + r_electionPenaltyTime r')))"
proof (intro conjI impI allI)
  show "\<exists>r'. calcRtt r v = Some r'" if "0 < r_electionTimeout r \<and> measured r v \<noteq> 0" using calcRtt_total that by blast
next
  fix r' assume r': "calcRtt r v = Some r'"
  note all = calcRtt_all [OF r']
  show "let old = rtt_timeStamp (rttOf r v); stored = rtt_timeStamp (rttOf r' v) in
       (old = 0 \<longrightarrow> stored = measured r v) \<and> (old \<noteq> measured r v \<longrightarrow> stored \<noteq> old) \<and>
       min old (measured r v) \<le> stored \<and> stored \<le> max old (measured r v)" "\<not> rtt_isProbed (rttOf r' v)"
    by (simp_all add: all(1) Let_def)
  fix w show "rttOldOf r' w = (if w = v then rttOf r v else rttOldOf r w)" by (rule all(2))
  show "rttOf r' w = rttOf r w" if "w \<noteq> v" using all(1) [of w] that by simp
next
  fix r' assume "calcRtt r v = Some r'" "\<bar>measured r v\<bar> < 2 ^ 53 \<and> (\<forall>w. \<bar>rtt_timeStamp (rttOf r w)\<bar> < 2 ^ 53)"
  then show "if length (rttValues r') < length (VoterNodes (r_prs r)) div 2
        then r_electionPenaltyTime r' = r_electionPenaltyTime r \<and> r_electionTimeout r \<le> r_randomizedElectionTimeout r' \<and>
          r_randomizedElectionTimeout r' < 2 * r_electionTimeout r
        else rttValues r' \<noteq> [] \<and> Min (set (rttValues r')) sdiv 100 \<le> r_electionPenaltyTime r' \<and>
          r_electionPenaltyTime r' \<le> Max (set (rttValues r')) sdiv 100 \<and>
          r_randomizedElectionTimeout r' = r_electionTimeout r + r_electionPenaltyTime r'"
    using calcRtt_exact [of r v r'] Min_sdiv_Max [of "rttValues r'"] by (auto split: if_splits)
qed

theorem probe_answered_witness:
  "\<exists>r'. calcRtt farLeader 2 = Some r' \<and> rtt_timeStamp (rttOf r' 2) < 9000 \<and> r_electionPenaltyTime r' \<in> {50..80}"
proof -
  have m: "measured farLeader 2 = 5000" "r_electionTimeout farLeader = 10" by (rule farLeader_measured)+
  then obtain r' where r': "calcRtt farLeader 2 = Some r'" using probe_answered [of farLeader 2] by auto
  note P = conjunct2 [OF probe_answered [of farLeader 2], rule_format, OF r']
  have small: "\<bar>rtt_timeStamp (rttOf farLeader w)\<bar> < 2 ^ 53" for w by (rule farLeader_times)
  have vals: "rttValues r' = [5000, 8000]" using farLeader_answered r' by simp
  then have "r_electionPenaltyTime r' \<in> {50..80}"
    using P small m farLeader_measured(3) by (simp add: signed_divide_int_def)
  moreover have "rtt_timeStamp (rttOf r' 2) < 9000" using P m farLeader_old by (auto simp: Let_def)
  ultimately show ?thesis using r' by blast
qed

text \<open>C27: a leader hands over of its own accord only when the times measured to its peers have become longer: their
  sum has grown, and by at least 3/10000 of it, in \<open>float64\<close> (the times are not negative, and together below
  \<open>2 ^ 53\<close> microseconds); and only to another node, a voter, that has reported a smaller average delay than the
  leader's own.\<close>

theorem hands_over_to_better:
  assumes "considerTransfer r = Some r'" and "r_step r = StepLeader"
    and "r_leadTransferee r' \<noteq> 0" and "r_leadTransferee r' \<noteq> r_leadTransferee r"
    and "\<And>v. 0 \<le> rtt_timeStamp (rttOf r v) \<and> 0 \<le> rtt_timeStamp (rttOldOf r v)"
    and "(\<Sum>v \<leftarrow> sortedKeys (r_rttMap r). rtt_timeStamp (rttOf r v)) + (\<Sum>v \<leftarrow> sortedKeys (r_rttMap r). rtt_timeStamp (rttOldOf r v)) < 2 ^ 53"
  shows "(let new = (\<Sum>v \<leftarrow> sortedKeys (r_rttMap r). rtt_timeStamp (rttOf r v));
              old = (\<Sum>v \<leftarrow> sortedKeys (r_rttMap r). rtt_timeStamp (rttOldOf r v))
          in old < new \<and> float64 (3 / 10000) \<le> float64 (of_int (new - old) / of_int new)) \<and>
    r_leadTransferee r' \<noteq> r_id r \<and> reportedAvg r (r_leadTransferee r') < ownAvg r \<and>
    (\<exists>pr. progressOf r (r_leadTransferee r') = Some pr \<and> \<not> pr_IsLearner pr)"
  using considerTransfer_target [OF assms(1,2)] deterioration_grown [of r] assms(3-6)
  unfolding Let_def newTotal_def oldTotal_def by simp

theorem hands_over_to_better_witness:
  "reportedAvg farLeader 2 < ownAvg farLeader"
proof -
  obtain r' where r': "considerTransfer farLeader = Some r'" "r_leadTransferee r' = 2" using farLeader_transfer by blast
  have "0 \<le> rtt_timeStamp (rttOf farLeader v) \<and> 0 \<le> rtt_timeStamp (rttOldOf farLeader v)" for v by (rule farLeader_nonneg)
  then show ?thesis using hands_over_to_better [OF r'(1)] r'(2) farLeader_measured(5,6) farLeader_sums by simp
qed

section \<open>Notation of configuration changes\<close>

text \<open>C28: the text of a list of configuration changes is read back as that list, if and only if every change
  is one that has a notation: of one of the four kinds, with a node identity of 64 bits.\<close>

theorem changes_round_trip:
  "ConfChangesFromString (ConfChangesToString ccs) = Inr ccs \<longleftrightarrow> (\<forall>c \<in> set ccs. printable c)"
  using FromString_ToString FromString_printable by blast

theorem changes_round_trip_witness:
  "ConfChangesFromString (ConfChangesToString [addNode 12, addNode 345]) = Inr [addNode 12, addNode 345]"
  using changes_round_trip [of "[addNode 12, addNode 345]"]
  by (simp add: printable_def addNode_def MaxUint64_def)

section \<open>The index of the multi-version store\<close>

text \<open>C29: revisions as keys of the store. Seventeen bytes from which the revision is read again, and whose
  byte order is the order of the revisions, for all that are not negative.\<close>

theorem revision_bytes:
  assumes "in_int64 (rev_main r)" "in_int64 (rev_sub r)" "0 \<le> rev_main r" "0 \<le> rev_sub r"
    and "in_int64 (rev_main s)" "in_int64 (rev_sub s)" "0 \<le> rev_main s" "0 \<le> rev_sub s"
  shows "bytesToRev (revToBytes r) = Some r \<and> (bytesLess (revToBytes r) (revToBytes s) \<longleftrightarrow> r < s)"
  using bytesToRev_revToBytes [OF assms(1,2)] revToBytes_less [OF assms] by simp

theorem revision_bytes_witness:
  "bytesLess (revToBytes (Revision 255 9)) (revToBytes (Revision 256 0))"
  using revision_bytes [of "Revision 255 9" "Revision 256 0"] by (simp add: in_int64_def Revision_less)

text \<open>The index of all keys is a store of histories. A put with a later revision never panics; afterwards
  a read of any key at any revision shows what the history of that key, with the put added to the one
  of the key that was put, has at the revision: its revision, the revision that created the key, and
  its version.\<close>

lemma index_put_read:
  assumes "btree_ok B items" and "ti_inv items t" and "fits items t key r"
  shows "\<exists>t'. tiPut B t key r = Some t' \<and> ti_inv items t' \<and>
    (\<forall>k atRev. tiGet B t' k atRev =
       Some (asResult (h_get (if k = key then h_put (histAt items t key) r else histAt items t k) atRev)))"
proof -
  obtain t' where t': "tiPut B t key r = Some t'" "ti_inv items t'" using tiPut_history [OF assms] by blast
  then have "histAt items t' k = (if k = key then h_put (histAt items t key) r else histAt items t k)" for k
    using tiPut_history [OF assms, of k] by auto
  then show ?thesis using t' tiGet_history [OF assms(1) t'(2)] by auto
qed

lemma index_put_read_witness:
  "\<exists>t'. tiPut listTree sampleTree ''b'' (Revision 7 0) = Some t' \<and>
     tiGet listTree t' ''b'' 7 = Some (Inr (Revision 7 0, Revision 3 0, 2)) \<and>
     tiGet listTree t' ''b'' 6 = Some (Inr (Revision 3 0, Revision 3 0, 1))"
proof -
  have "fits (\<lambda>t. t) sampleTree ''b'' (Revision 7 0)"
    by (simp add: fits_def sampleTree_def has_room_def zeroRevision_def Revision_less)
  from index_put_read [OF listTree_ok sampleTree_inv this]
  obtain t' where t': "tiPut listTree sampleTree ''b'' (Revision 7 0) = Some t'"
    "\<forall>k atRev. tiGet listTree t' k atRev = Some (asResult (h_get (if k = ''b''
       then h_put (histAt (\<lambda>t. t) sampleTree ''b'') (Revision 7 0) else histAt (\<lambda>t. t) sampleTree k) atRev))" by blast
  have "histAt (\<lambda>t. t) sampleTree ''b'' = [(Revision 3 0, Some (Revision 3 0, 1))]"
    by (simp add: histAt_def sampleTree_def history_def openHist_def genEvent_def)
  then have "tiGet listTree t' ''b'' 7 = Some (Inr (Revision 7 0, Revision 3 0, 2))"
    "tiGet listTree t' ''b'' 6 = Some (Inr (Revision 3 0, Revision 3 0, 1))"
    using t'(2) by (simp_all add: h_put_def h_get_def latest_def asResult_def)
  then show ?thesis using t'(1) by blast
qed

text \<open>Compacting the index never panics and changes no read at the compacted revision or a later one. It
  keeps exactly the revisions that a read at the compacted revision shows, which is the set that
  \<open>Keep\<close> announces for the hash of the store.\<close>

lemma compaction_keeps_reads:
  assumes "btree_ok B items" and "ti_inv items t"
  shows "\<exists>t' av. tiCompact B t r = Some (t', av) \<and> tiKeep B t r = Some av \<and> ti_inv items t' \<and>
    (\<forall>key atRev. r \<le> atRev \<longrightarrow> tiGet B t' key atRev = tiGet B t key atRev) \<and>
    (\<forall>v. v |\<in>| av \<longleftrightarrow> (\<exists>key c n. tiGet B t key r = Some (Inr (v, c, n))))"
proof -
  have shown: "map_option fst (h_get h r) = Some v \<longleftrightarrow> (\<exists>c n. asResult (h_get h r) = Inr (v, c, n))" for h v
    by (auto simp: asResult_def split: option.splits)
  obtain t' av where t': "tiCompact B t r = Some (t', av)" "tiKeep B t r = Some av" "ti_inv items t'"
    "\<forall>key atRev. r \<le> atRev \<longrightarrow> h_get (histAt items t' key) atRev = h_get (histAt items t key) atRev"
    "fset av = {v. \<exists>key. map_option fst (h_get (histAt items t key) r) = Some v}"
    using tiCompact_keeps [OF assms] by metis
  then show ?thesis using tiGet_history [OF assms] tiGet_history [OF assms(1) t'(3)] shown by auto
qed

lemma compaction_keeps_reads_witness:
  "\<exists>t' av. tiCompact listTree sampleTree 5 = Some (t', av) \<and> tiGet listTree t' ''b'' 5 = tiGet listTree sampleTree ''b'' 5"
proof -
  have "(5 :: int) \<le> 5" by simp
  then show ?thesis using compaction_keeps_reads [OF listTree_ok sampleTree_inv, of 5] by blast
qed

section \<open>The store\<close>

text \<open>C30: a transaction of the multi-version store is atomic. Whatever puts and deletions of keys and of ranges it
  makes, with keys and values that bolt has room for and leases that exist, it returns, and leaves at the new
  revision what the map from keys to pairs becomes by the same puts and deletions, one after another; a put sets
  the modification revision, keeps the creation revision of a key that exists and increments its version. At the
  revisions before, every key reads as before. (\<open>N\<close> bounds the pairs written in the store's life: one for a put,
  and one for each key deleted.)\<close>

theorem store_transaction:
  assumes "env_ok E bi ti" and "idle E bi ti N s"
    and "N + int (allWrites (st_currentRev s + 1) (\<lambda>k. view E bi ti s k (st_currentRev s)) ops) < 2 ^ 62"
    and "\<forall>op \<in> set ops. op_ok E (the (st_le s)) op" and "tr_bufVersion (be_readBuf (st_be s)) < MaxUint64"
  shows "\<exists>s1. transaction E s ops = Some s1 \<and>
    idle E bi ti (N + int (allWrites (st_currentRev s + 1) (\<lambda>k. view E bi ti s k (st_currentRev s)) ops)) s1 \<and>
    st_currentRev s \<le> st_currentRev s1 \<and> st_currentRev s1 \<le> st_currentRev s + 1 \<and>
    (\<forall>k. view E bi ti s1 k (st_currentRev s1) = foldl (specOp (st_currentRev s + 1)) (\<lambda>k. view E bi ti s k (st_currentRev s)) ops k) \<and>
    (\<forall>k t. t \<le> st_currentRev s \<longrightarrow> view E bi ti s1 k t = view E bi ti s k t)"
proof -
  from transaction_refines [OF assms] obtain s1 where s1: "transaction E s ops = Some s1"
    "idle E bi ti (N + int (allWrites (st_currentRev s + 1) (\<lambda>k. view E bi ti s k (st_currentRev s)) ops)) s1"
    "st_currentRev s \<le> st_currentRev s1" "st_currentRev s1 \<le> st_currentRev s + 1"
    "\<forall>k. view E bi ti s1 k (st_currentRev s1) = foldl (specOp (st_currentRev s + 1)) (\<lambda>k. view E bi ti s k (st_currentRev s)) ops k"
    "\<forall>k t. view E bi ti s1 k t = (if st_currentRev s + 1 \<le> t
       then foldl (specOp (st_currentRev s + 1)) (\<lambda>k. view E bi ti s k (st_currentRev s)) ops k else view E bi ti s k t)" by blast
  then have "\<forall>k t. t \<le> st_currentRev s \<longrightarrow> view E bi ti s1 k t = view E bi ti s k t" by simp
  then show ?thesis using s1(1-5) by blast
qed

theorem store_transaction_witness:
  "\<exists>s s1. transaction storeEnv s (sampleOps @ [OpDelete ''a'' (Some ''b'')]) = Some s1 \<and> st_currentRev s = 1 \<and>
    view storeEnv sampleItems (\<lambda>t. t) s1 ''a'' (st_currentRev s1) = None \<and>
    view storeEnv sampleItems (\<lambda>t. t) s1 ''b'' (st_currentRev s1) =
      Some \<lparr>kv_Key = ''b'', kv_CreateRevision = 2, kv_ModRevision = 2, kv_Version = 1, kv_Value = ''y'', kv_Lease = 0\<rparr>"
proof -
  let ?ops = "sampleOps @ [OpDelete ''a'' (Some ''b'')]"
  obtain s where s: "idle storeEnv sampleItems (\<lambda>t. t) 1 s" "st_le s = Some sampleLessor" "st_currentRev s = 1"
    "tr_bufVersion (be_readBuf (st_be s)) = 0" "\<forall>k t. view storeEnv sampleItems (\<lambda>t. t) s k t = None" using sample_store by blast
  have none: "(\<lambda>k. view storeEnv sampleItems (\<lambda>t. t) s k (st_currentRev s)) = (\<lambda>_. None)" using s(5) by simp
  have "1 + int (allWrites (st_currentRev s + 1) (\<lambda>k. view storeEnv sampleItems (\<lambda>t. t) s k (st_currentRev s)) ?ops) < 2 ^ 62"
    "\<forall>op \<in> set ?ops. op_ok storeEnv (the (st_le s)) op" "tr_bufVersion (be_readBuf (st_be s)) < MaxUint64"
    using sample_ops_ok s(2,4) by (simp_all add: none sample_range_writes MaxUint64_def)
  from store_transaction [OF storeEnv_ok s(1) this] obtain s1 where "transaction storeEnv s ?ops = Some s1"
    "\<forall>k. view storeEnv sampleItems (\<lambda>t. t) s1 k (st_currentRev s1) = foldl (specOp (st_currentRev s + 1)) (\<lambda>_. None) ?ops k"
    unfolding none by blast
  then show ?thesis using s(3)
    by (intro exI [of _ s] exI [of _ s1]) (simp add: sampleOps_def putValue_def wanted_def in_range_def)
qed

text \<open>C31: snapshot isolation. A read transaction that was opened before a write transaction answers every request,
  even after the other has ended, from the store as it was when it was opened: all keys of the range that
  exist at the revision asked for, in their order, cut at the limit, with their full count; or the error of a
  future or compacted revision.\<close>

theorem store_isolation:
  assumes "env_ok E bi ti" and "idle E bi ti N s" and "ReadTxn s = (tr, s1)"
    and "N + int (allWrites (st_currentRev s + 1) (\<lambda>k. view E bi ti s k (st_currentRev s)) ops) < 2 ^ 62"
    and "\<forall>op \<in> set ops. op_ok E (the (st_le s)) op" and "tr_bufVersion (be_readBuf (st_be s)) < MaxUint64"
  shows "\<exists>s2 res. transaction E s1 ops = Some s2 \<and> RangeRead E s2 tr key en ro = Some res \<and>
    answers E bi ti s key en (st_currentRev s) (st_compactMainRev s) ro res"
  by (rule read_isolated [OF assms])

theorem store_isolation_witness:
  "\<exists>s tr s1 s2 res. ReadTxn s = (tr, s1) \<and> transaction storeEnv s1 sampleOps = Some s2 \<and>
    RangeRead storeEnv s2 tr ''a'' (Some ''c'') \<lparr>ro_Limit = 0, ro_Rev = 0, ro_Count = False\<rparr> = Some res \<and> snd res = None"
proof -
  obtain s le where s: "idle storeEnv sampleItems (\<lambda>t. t) 3 s" "st_le s = Some le" "bare le = bare sampleLessor"
    "1 \<le> st_currentRev s" "st_compactMainRev s = -1" "tr_bufVersion (be_readBuf (st_be s)) \<le> 1" using sample_after by blast
  obtain tr s1 where r: "ReadTxn s = (tr, s1)" by (rule prod.exhaust)
  have "\<forall>op \<in> set sampleOps. op_ok storeEnv le op" using sample_ops_ok [of sampleLessor] by (simp add: op_ok_bare [OF s(3)])
  then have "3 + int (allWrites (st_currentRev s + 1) (\<lambda>k. view storeEnv sampleItems (\<lambda>t. t) s k (st_currentRev s)) sampleOps) < 2 ^ 62" "\<forall>op \<in> set sampleOps. op_ok storeEnv (the (st_le s)) op"
    "tr_bufVersion (be_readBuf (st_be s)) < MaxUint64"
    using s(2,6) by (simp_all add: sample_writes MaxUint64_def)
  from store_isolation [OF storeEnv_ok s(1) r this] obtain s2 res where "transaction storeEnv s1 sampleOps = Some s2"
    "RangeRead storeEnv s2 tr ''a'' (Some ''c'') \<lparr>ro_Limit = 0, ro_Rev = 0, ro_Count = False\<rparr> = Some res"
    "answers storeEnv sampleItems (\<lambda>t. t) s ''a'' (Some ''c'') (st_currentRev s) (st_compactMainRev s)
       \<lparr>ro_Limit = 0, ro_Rev = 0, ro_Count = False\<rparr> res" by blast
  then show ?thesis using r s(4,5)
    by (intro exI [of _ s] exI [of _ tr] exI [of _ s1] exI [of _ s2] exI [of _ res]) (auto simp: answers_def atRev_def)
qed

text \<open>C32: what has been put is read. A put through the store's view is followed by a read of the same key at the
  latest revision: it returns the pair with the value and the lease that were put, the new revision, and the
  creation revision and version that follow from what the key was before.\<close>

theorem store_put_read:
  assumes "env_ok E bi ti" and "idle E bi ti N s" and "N + 1 < 2 ^ 62"
    and "fitting E key v" and "in_int64 i" and "i = NoLease \<or> fmlookup (le_leaseMap (the (st_le s))) i \<noteq> None"
    and "tr_bufVersion (be_readBuf (st_be s)) < MaxUint64" and "st_compactMainRev s \<le> st_currentRev s"
  shows "\<exists>s1 s2. viewPut E s key v i = Some (st_currentRev s + 1, s1) \<and> idle E bi ti (N + 1) s1 \<and>
    st_currentRev s1 = st_currentRev s + 1 \<and>
    viewRange E s1 key None \<lparr>ro_Limit = 0, ro_Rev = 0, ro_Count = False\<rparr> =
      Some ((\<lparr>rr_KVs = [putValue (view E bi ti s key (st_currentRev s)) (st_currentRev s + 1) key v i],
              rr_Rev = st_currentRev s + 1, rr_Count = 1\<rparr>, None), s2)"
  by (rule put_then_read [OF assms])

theorem store_put_read_witness:
  "\<exists>s s1 s2 kv. viewPut storeEnv s ''a'' ''z'' 0 = Some (st_currentRev s + 1, s1) \<and>
    viewRange storeEnv s1 ''a'' None \<lparr>ro_Limit = 0, ro_Rev = 0, ro_Count = False\<rparr> =
      Some ((\<lparr>rr_KVs = [kv], rr_Rev = st_currentRev s + 1, rr_Count = 1\<rparr>, None), s2) \<and>
    kv_Value kv = ''z'' \<and> kv_CreateRevision kv = 2 \<and> kv_Version kv = 2"
proof -
  obtain s where s: "idle storeEnv sampleItems (\<lambda>t. t) 3 s" "1 \<le> st_currentRev s" "st_compactMainRev s = -1"
    "tr_bufVersion (be_readBuf (st_be s)) \<le> 1" "view storeEnv sampleItems (\<lambda>t. t) s ''a'' (st_currentRev s) =
      Some \<lparr>kv_Key = ''a'', kv_CreateRevision = 2, kv_ModRevision = 2, kv_Version = 1, kv_Value = ''x'', kv_Lease = 7\<rparr>"
    using sample_after by blast
  have "(3 :: int) + 1 < 2 ^ 62" "fitting storeEnv ''a'' ''z''" "in_int64 0" "0 = NoLease \<or> fmlookup (le_leaseMap (the (st_le s))) 0 \<noteq> None"
    "tr_bufVersion (be_readBuf (st_be s)) < MaxUint64" "st_compactMainRev s \<le> st_currentRev s"
    using s(2-4) by (simp_all add: sample_fits in_int64_def NoLease_def MaxUint64_def)
  from store_put_read [OF storeEnv_ok s(1) this] obtain s1 s2 where "viewPut storeEnv s ''a'' ''z'' 0 = Some (st_currentRev s + 1, s1)"
    "viewRange storeEnv s1 ''a'' None \<lparr>ro_Limit = 0, ro_Rev = 0, ro_Count = False\<rparr> =
      Some ((\<lparr>rr_KVs = [putValue (view storeEnv sampleItems (\<lambda>t. t) s ''a'' (st_currentRev s)) (st_currentRev s + 1) ''a'' ''z'' 0],
              rr_Rev = st_currentRev s + 1, rr_Count = 1\<rparr>, None), s2)" by blast
  then show ?thesis unfolding s(5) by (intro exI) (auto simp: putValue_def)
qed

text \<open>C33: the revocation of a lease. Through the store it deletes, in one transaction, the keys that are attached to the
  lease and no others: at the new revision they are gone and every other key reads as before, at the revisions
  before all keys read as before, and of the leases only this one is gone. (The lessor has its range deleter,
  and the lease is not already being revoked.)\<close>

theorem lease_revoked:
  assumes "env_ok E bi ti" and "idle E bi ti N s" and "st_le s = Some le" and "fmlookup (le_leaseMap le) i = Some l"
    and "i \<noteq> NoLease" and "\<not> l_revoked l" and "le_rd le" and "N + int (card {k. GetLease le k = i}) < 2 ^ 62"
    and "tr_bufVersion (be_readBuf (st_be s)) < MaxUint64"
  shows "\<exists>N1 s1 le1. Revoke E s i = Some (None, s1) \<and> idle E bi ti N1 s1 \<and> N1 \<le> N + int (card {k. GetLease le k = i}) \<and>
    st_le s1 = Some le1 \<and> (\<forall>j. fmlookup (le_leaseMap le1) j = None \<longleftrightarrow> j = i \<or> fmlookup (le_leaseMap le) j = None) \<and>
    (\<forall>k t. view E bi ti s1 k t = (if GetLease le k = i \<and> st_currentRev s + 1 \<le> t then None else view E bi ti s k t))"
proof -
  have "items_inv le" using idle_store [OF assms(2)] assms(3) by (auto simp: leases_agree_def)
  from items_count [OF this assms(4,5)] have n: "length (l_itemSet l) = card {k. GetLease le k = i}" .
  from Revoke_deletes [OF assms(1-7), unfolded n, OF assms(8,9)] show ?thesis by blast
qed

theorem lease_revoked_witness:
  "\<exists>s s1. Revoke storeEnv s 7 = Some (None, s1) \<and> view storeEnv sampleItems (\<lambda>t. t) s ''a'' (st_currentRev s) \<noteq> None \<and>
    view storeEnv sampleItems (\<lambda>t. t) s1 ''a'' (st_currentRev s + 1) = None"
proof -
  obtain s le where s: "idle storeEnv sampleItems (\<lambda>t. t) 3 s" "st_le s = Some le" "bare le = bare sampleLessor"
    "tr_bufVersion (be_readBuf (st_be s)) \<le> 1" "GetLease le ''a'' = 7" "{k. GetLease le k = 7} = {''a''}"
    "view storeEnv sampleItems (\<lambda>t. t) s ''a'' (st_currentRev s) \<noteq> None" using sample_after by auto
  have l0: "fmlookup (le_leaseMap sampleLessor) 7 = Some (NewLease 7 60)" "le_rd sampleLessor" by (simp_all add: sampleLessor_def)
  obtain l where l: "fmlookup (le_leaseMap le) 7 = Some l" "l\<lparr>l_itemSet := []\<rparr> = (NewLease 7 60)\<lparr>l_itemSet := []\<rparr>"
    using bare_fields(3) [OF s(3) l0(1)] by blast
  have "l_revoked (l\<lparr>l_itemSet := []\<rparr>) = l_revoked ((NewLease 7 60)\<lparr>l_itemSet := []\<rparr>)" by (simp only: l(2))
  then have "\<not> l_revoked l" by (simp add: NewLease_def)
  moreover have "le_rd le" using bare_fields(1) [OF s(3)] l0(2) by simp
  moreover have "(7 :: int) \<noteq> NoLease" by (simp add: NoLease_def)
  moreover have "3 + int (card {k. GetLease le k = 7}) < 2 ^ 62" unfolding s(6) by simp
  moreover have "tr_bufVersion (be_readBuf (st_be s)) < MaxUint64" using s(4) by (simp add: MaxUint64_def)
  ultimately obtain s1 where "Revoke storeEnv s 7 = Some (None, s1)"
    "\<forall>k t. view storeEnv sampleItems (\<lambda>t. t) s1 k t = (if GetLease le k = 7 \<and> st_currentRev s + 1 \<le> t then None else view storeEnv sampleItems (\<lambda>t. t) s k t)"
    using lease_revoked [OF storeEnv_ok s(1,2) l(1)] by blast
  then show ?thesis using s(5,7) by (intro exI [of _ s] exI [of _ s1]) simp
qed

text \<open>C34: the compaction of the store. At a revision that is not in the future and later than the last one compacted, it
  is accepted, and its job, batch by batch, ends; afterwards every key reads at that revision and at all later
  ones as before, and of what the database holds exactly the revisions up to it that no read at that revision
  shows are gone. (Batches are not empty.)\<close>

theorem store_compaction:
  assumes "env_ok E bi ti" and "idle E bi ti N s" and "N < 2 ^ 62"
    and "0 \<le> r" and "st_compactMainRev s < r" and "r \<le> st_currentRev s"
    and "0 < st_batchLimit s" and "tr_bufVersion (be_readBuf (st_be s)) < 2 ^ 63"
  shows "\<exists>s1. compactStore E s r = Some (None, s1) \<and> idle E bi ti N s1 \<and> st_compactMainRev s1 = r \<and>
    st_currentRev s1 = st_currentRev s \<and> (\<forall>k t. r \<le> t \<longrightarrow> view E bi ti s1 k t = view E bi ti s k t) \<and>
    (\<forall>q t. rev_ok q \<longrightarrow> stored bi (st_be s1) (keyOf q t) =
       (if rev_main q \<le> r \<and> (\<forall>k. map_option fst (h_get (histAt ti (st_kvindex s) k) r) \<noteq> Some q) then None
        else stored bi (st_be s) (keyOf q t)))"
  using compactStore_keeps [OF assms] by blast

theorem store_compaction_witness:
  "\<exists>s s1. compactStore storeEnv s (st_currentRev s) = Some (None, s1) \<and>
    view storeEnv sampleItems (\<lambda>t. t) s1 ''a'' (st_currentRev s) =
      Some \<lparr>kv_Key = ''a'', kv_CreateRevision = 2, kv_ModRevision = 2, kv_Version = 1, kv_Value = ''x'', kv_Lease = 7\<rparr>"
proof -
  obtain s where s: "idle storeEnv sampleItems (\<lambda>t. t) 3 s" "1 \<le> st_currentRev s" "st_compactMainRev s = -1" "st_batchLimit s = 1000"
    "tr_bufVersion (be_readBuf (st_be s)) \<le> 1" "view storeEnv sampleItems (\<lambda>t. t) s ''a'' (st_currentRev s) =
      Some \<lparr>kv_Key = ''a'', kv_CreateRevision = 2, kv_ModRevision = 2, kv_Version = 1, kv_Value = ''x'', kv_Lease = 7\<rparr>"
    using sample_after by blast
  have "(3 :: int) < 2 ^ 62" "0 \<le> st_currentRev s" "st_compactMainRev s < st_currentRev s" "st_currentRev s \<le> st_currentRev s"
    "0 < st_batchLimit s" "tr_bufVersion (be_readBuf (st_be s)) < 2 ^ 63" using s(2-5) by simp_all
  from store_compaction [OF storeEnv_ok s(1) this] obtain s1 where "compactStore storeEnv s (st_currentRev s) = Some (None, s1)"
    "\<forall>k t. st_currentRev s \<le> t \<longrightarrow> view storeEnv sampleItems (\<lambda>t. t) s1 k t = view storeEnv sampleItems (\<lambda>t. t) s k t" by blast
  then show ?thesis using s(6) by (intro exI [of _ s] exI [of _ s1]) simp
qed

text \<open>C35: creation. Over an empty database the backend, the lessor and the store are created without a panic, and
  the invariant of the store holds: it is at revision 1, nothing has been compacted, and no key exists at
  any revision.\<close>

theorem store_creation:
  assumes "env_ok E bi ti" and "ti (ke_newTree E) = []" and "\<forall>b. bi db b = None" and "0 \<le> batchLimit"
  shows "\<exists>be le be1 s. newBackend (ke_bolt E) n db = Some be \<and> newLessor lc (ke_bolt E) be v36 cfg = Some (le, be1) \<and>
    NewStore E order lg be1 (Some le) ig batchLimit = Some s \<and> idle E bi ti 1 s \<and> (\<forall>k t. view E bi ti s k t = None) \<and>
    st_currentRev s = 1 \<and> st_compactMainRev s = -1"
  using fresh_store [OF assms(1,2) _ assms(4)] assms(3) by blast

theorem store_creation_witness:
  "\<exists>be le be1 s. newBackend sampleBolt 100 [] = Some be \<and> newLessor (ke_lease storeEnv) sampleBolt be False leaseConfig = Some (le, be1) \<and>
    NewStore storeEnv (\<lambda>_. []) True be1 (Some le) None 0 = Some s \<and> st_currentRev s = 1"
proof -
  have "ke_newTree storeEnv = []" "\<forall>b. sampleItems [] b = None" "(0 :: int) \<le> 0" "ke_bolt storeEnv = sampleBolt"
    by (simp_all add: storeEnv_def sampleItems_def)
  then show ?thesis using store_creation [OF storeEnv_ok, of "[]" 0 100 "ke_lease storeEnv" False leaseConfig "\<lambda>_. []" True None] by auto
qed

text \<open>C36: the buffers of the backend. A pair that the batch transaction writes at the end of the bucket of revisions
  is found by every reader that is created after \<open>Unlock\<close>, which writes the buffer back, though the transaction is
  not yet committed; and after \<open>ForceCommit\<close> the database holds it, and readers still find it. (The comment on
  \<open>BatchTx\<close> calls a write isolated from other transactions until the commit, which is not what the buffers are
  for; the difference is among the findings.)\<close>

theorem backend_write_read:
  assumes "bolt_ok B items" and "be_inv items k be" and "validPair k v" and "bytesLess k upper"
    and "items (the (be_tx be)) keyBucket = Some ps" and "tr_bufVersion (be_readBuf be) < MaxUint64"
  shows "\<exists>be1 be2 be3. UnsafeSeqPut B be keyBucket k v = Some be1 \<and> Unlock B be1 = Some be2 \<and> ForceCommit B be2 = Some be3 \<and>
    be_inv items upper be3 \<and> items (be_db be3) keyBucket = Some (putPair (k, v) ps) \<and>
    (\<forall>b rt b'. b \<in> {be2, be3} \<and> ConcurrentReadTx b = (rt, b') \<longrightarrow> readRange B rt keyBucket k None 0 = Some [(k, v)])"
proof -
  obtain be1 where be1: "UnsafeSeqPut B be keyBucket k v = Some be1" "be_inv items upper be1"
    "content items be1 = (content items be)(keyBucket \<mapsto> putPair (k, v) ps)" "tr_bufVersion (be_readBuf be1) = tr_bufVersion (be_readBuf be)"
    using UnsafeSeqPut_inv [OF assms(1-4)] assms(5) by (auto simp: content_def)
  have ne: "upper \<noteq> []" "k \<noteq> []" using assms(3,4) by (auto simp: validPair_def)
  obtain be2 where be2: "Unlock B be1 = Some be2" "be_inv items upper be2" "pendingPairs be2 = []" "content items be2 = content items be1"
    using Unlock_inv [OF assms(1) be1(2) _ ne(1)] assms(6) be1(4) by auto
  obtain be3 where be3: "ForceCommit B be2 = Some be3" "be_inv items upper be3" "pendingPairs be3 = []" "content items be3 = content items be2"
    "items (be_db be3) = content items be2" using ForceCommit_inv [OF assms(1) be2(2,3)] by blast
  have "stored items be2 k = Some v" "stored items be3 k = Some v"
    using be1(3) be2(4) be3(4) by (simp_all add: stored_def bucketMap_def map_of_putPair)
  then have "readRange B rt keyBucket k None 0 = Some [(k, v)]" if "b \<in> {be2, be3}" "ConcurrentReadTx b = (rt, b')" for b rt b'
    using that reader_finds [OF assms(1) be2(2,3) _ _ ne(2)] reader_finds [OF assms(1) be3(2,3) _ _ ne(2)] by blast
  then show ?thesis using be1(1,3) be2(1,4) be3(1,2,5) by auto
qed

theorem backend_write_read_witness:
  "\<exists>be be1 be2 be3. newBackend sampleBolt 100 sampleDb = Some be \<and> UnsafeSeqPut sampleBolt be keyBucket (revToBytes (Revision 2 0)) ''v'' = Some be1 \<and>
    Unlock sampleBolt be1 = Some be2 \<and> ForceCommit sampleBolt be2 = Some be3 \<and>
    sampleItems (be_db be3) keyBucket = Some [(revToBytes (Revision 2 0), ''v'')]"
proof -
  let ?k = "revToBytes (Revision 2 0)"
  obtain be where be: "newBackend sampleBolt 100 sampleDb = Some be" "be_inv sampleItems ?k be"
    "content sampleItems be = sampleItems sampleDb" "tr_bufVersion (be_readBuf be) = 0" using sample_backend by blast
  have "validPair ?k ''v''" by (simp add: validPair_def)
  moreover have "bytesLess ?k (?k @ ''t'')" using bytesLess_extend [of ?k ?k "[]" "''t''"] by simp
  moreover have "sampleItems (the (be_tx be)) keyBucket = Some []" using fun_cong [OF be(3), of keyBucket] by (simp add: content_def) (simp add: sampleItems_def sampleDb_def)
  moreover have "tr_bufVersion (be_readBuf be) < MaxUint64" using be(4) by (simp add: MaxUint64_def)
  ultimately show ?thesis using backend_write_read [OF sampleBolt_ok be(2), of "''v''" "?k @ ''t''" "[]"] be(1) by auto
qed

section \<open>Leases\<close>

text \<open>C37: the invariant of the lessor. In every run of its operations from its creation on, revocations through the
  store and the searches of its loop included, and with the two parts of a renewal separated by any others, the
  queue of expiries stays a heap with one entry for a lease, and while the lessor is the primary it has each of
  its leases in that queue, so that each will expire. (It is restored from a backend only while it is not the
  primary. Of a lessor that is not the primary no more is claimed: a renewal that a demotion interrupts leaves an
  expiry and an entry there, see the findings.)\<close>

theorem leases_registered:
  assumes "lessor_reach E le" and "fmlookup (le_leaseMap le) i = Some l"
  shows "l_ID l = i \<and> notifier_inv (le_leaseExpiredNotifier le) \<and>
    (isPrimary le \<longrightarrow> times (le_leaseExpiredNotifier le) i \<noteq> None)"
  using lessor_reach_ok [OF assms(1)] assms(2) by (auto simp: lessor_inv_def registered_def split: if_splits)

theorem leases_registered_witness:
  "\<exists>le. lessor_reach storeEnv le \<and> isPrimary le \<and> times (le_leaseExpiredNotifier le) 7 \<noteq> None"
proof -
  obtain le l where le: "lessor_reach storeEnv le" "isPrimary le" "fmlookup (le_leaseMap le) 7 = Some l" using sample_lessor_run by blast
  then show ?thesis using leases_registered [OF le(1,3)] by auto
qed

text \<open>C38: the search for expired leases ends: every lease that it finds is put back for the retry interval, so it is
  not found again. It returns leases that have expired, at most as many as the limit; and unless it reaches
  the limit, all leases whose expiry and whose entry in the queue are due when it starts. (The clock
  advances by less than the retry interval meanwhile.)\<close>

theorem expired_leases_found:
  assumes "notifier_inv (le_leaseExpiredNotifier le)" and "sane_clock clock t le" and "0 < limit"
  shows "\<exists>ls mq. findExpiredLeases clock limit le = Some (ls, le\<lparr>le_leaseExpiredNotifier := mq\<rparr>) \<and> notifier_inv mq \<and> length ls \<le> limit \<and>
    (\<forall>l \<in> set ls. (\<exists>i. fmlookup (le_leaseMap le) i = Some l) \<and> (\<exists>k. expired (clock k) l)) \<and>
    (length ls < limit \<longrightarrow>
       (\<forall>i u l e. times (le_leaseExpiredNotifier le) i = Some u \<and> u \<le> t \<and> fmlookup (le_leaseMap le) i = Some l \<and>
          l_expiry l = Some e \<and> e \<le> t \<longrightarrow> l \<in> set ls))"
  using findExpiredLeases_finds [OF assms] by blast

theorem expired_leases_found_witness:
  "\<exists>ls mq. findExpiredLeases (\<lambda>_. 10) 500 expiredLessor = Some (ls, expiredLessor\<lparr>le_leaseExpiredNotifier := mq\<rparr>) \<and>
    (length ls = 500 \<or> oldLease \<in> set ls)"
proof -
  note S = expired_sample
  have e: "l_expiry oldLease = Some 5" by (simp add: oldLease_def)
  from expired_leases_found [OF S(1,4), of 500] obtain ls mq where
    "findExpiredLeases (\<lambda>_. 10) 500 expiredLessor = Some (ls, expiredLessor\<lparr>le_leaseExpiredNotifier := mq\<rparr>)" "length ls \<le> 500"
    "length ls < 500 \<longrightarrow> (\<forall>i u l e. times (le_leaseExpiredNotifier expiredLessor) i = Some u \<and> u \<le> 10 \<and>
       fmlookup (le_leaseMap expiredLessor) i = Some l \<and> l_expiry l = Some e \<and> e \<le> 10 \<longrightarrow> l \<in> set ls)" by auto
  moreover have "oldLease \<in> set ls" if "length ls < 500"
  proof -
    have "(5 :: int) \<le> 10" by simp
    then show ?thesis using calculation(3) that S(2,3) e by blast
  qed
  moreover have "length ls = 500 \<or> length ls < 500" using calculation(2) by linarith
  ultimately show ?thesis by blast
qed

section \<open>Messages between members\<close>

text \<open>C39: the stream of appends. Whatever keep-alives and appends a leader writes to a connection, in the
  short form or in full, the reader at the other end decodes the same messages, in order, and nothing of
  what follows on the connection; given that the generated codec reads what it wrote.\<close>

theorem append_stream_round_trip:
  assumes "\<forall>m \<in> set ms. carries pc m \<and> streamable (newMsgAppV2Decoder lcl remote) m"
  shows "\<exists>b. encodeAll pc appendWriter newMsgAppV2Encoder [] ms = (None, b) \<and>
    decodeAll pc (length ms) (newMsgAppV2Decoder lcl remote) (b @ rest) = Some (ms, rest)"
  by (rule stream_round_trip [OF assms]) (simp add: in_sync_def newMsgAppV2Encoder_def newMsgAppV2Decoder_def)

theorem append_stream_round_trip_witness:
  "\<exists>b. encodeAll pairCodec appendWriter newMsgAppV2Encoder [] [firstApp, secondApp] = (None, b) \<and>
    decodeAll pairCodec 2 (newMsgAppV2Decoder 2 1) b = Some ([firstApp, secondApp], [])"
proof -
  have "\<forall>m \<in> set [firstApp, secondApp]. carries pairCodec m \<and> streamable (newMsgAppV2Decoder 2 1) m"
    using pairCodec_carries apps_streamable by simp
  from append_stream_round_trip [OF this, of "[]"] show ?thesis by (simp add: numeral_2_eq_2)
qed

text \<open>C40: a message that is cut short is an error of the reader, never another message and never a panic:
  for every proper prefix of the bytes of a message the decoder returns the end-of-file errors.\<close>

theorem append_stream_cut_short:
  assumes "carries pc m" and "streamable dec m" and "encodeV2 pc appendWriter enc [] m = (None, enc', b)"
    and "k < length b"
  shows "\<exists>err d. decodeV2 pc dec (take k b) = Some (Inl err, d, []) \<and> err \<in> {ErrEOF, ErrUnexpectedEOF}"
proof -
  have "b = messageBytes pc enc m" using assms(3) encodeV2_bytes [OF assms(1), of enc "[]"] by simp
  then obtain err d where "err \<in> eof" "decodeV2 pc dec (take k b) = Some (Inl err, d, [])"
    using decodeV2_truncated [OF assms(1,2)] assms(4) by blast
  then show ?thesis unfolding eof_def by blast
qed

theorem append_stream_cut_short_witness:
  "\<exists>enc b. encodeV2 pairCodec appendWriter newMsgAppV2Encoder [] firstApp = (None, enc, b) \<and>
     (\<exists>err d. decodeV2 pairCodec (newMsgAppV2Decoder 2 1) (take 0 b) = Some (Inl err, d, []))"
proof -
  let ?b = "messageBytes pairCodec newMsgAppV2Encoder firstApp"
  have e: "encodeV2 pairCodec appendWriter newMsgAppV2Encoder [] firstApp =
      (None, encoderAfter newMsgAppV2Encoder firstApp, ?b)"
    using encodeV2_bytes [OF pairCodec_carries(1), of newMsgAppV2Encoder "[]"] by simp
  have "0 < length ?b" by (simp add: messageBytes_def appEntriesBytes_def appBytes_def typeByte_def)
  from append_stream_cut_short [OF pairCodec_carries(1) apps_streamable(1) e this] show ?thesis using e by blast
qed

end
